(* ===== verification/Prelude.thy ===== *)
theory Prelude
  imports Main "HOL-Library.Word" "HOL-Library.Sublist"
begin

unbundle bit_operations_syntax

text \<open>
  Shared vocabulary of the development: the machine types the C++ sources use (bytes,
  \<open>uint256\<close>, vectors of bytes), little-endian byte strings as produced by
  \<^verbatim>\<open>memcpy\<close> on the supported targets, readers over a byte stream
  (\<^verbatim>\<open>CDataStream\<close>) whose failure is an exception value, and the generic list
  and word facts that the component theories use.
\<close>

section \<open>Types\<close>

type_synonym byte = "8 word"
type_synonym bytes = "byte list"
type_synonym uint32 = "32 word"
type_synonym uint64 = "64 word"
type_synonym uint160 = "160 word"
type_synonym uint256 = "256 word"

text \<open>\<open>CAmount\<close> is a signed 64-bit integer; where its wrap-around matters it is written out.\<close>

type_synonym camount = int

section \<open>Collections of facts\<close>

named_theorems le_simps \<open>little-endian byte strings\<close>
named_theorems reader_simps \<open>stream readers\<close>
named_theorems codec_intros \<open>encoder/decoder pairs built from smaller ones\<close>

section \<open>Signed 64-bit and 32-bit arithmetic\<close>

definition wrap64 :: "int \<Rightarrow> int" where
  "wrap64 i = signed_take_bit 63 i"

definition wrap32 :: "int \<Rightarrow> int" where
  "wrap32 i = signed_take_bit 31 i"

definition in_int64 :: "int \<Rightarrow> bool" where
  "in_int64 i \<longleftrightarrow> - (2 ^ 63) \<le> i \<and> i < 2 ^ 63"

definition in_int32 :: "int \<Rightarrow> bool" where
  "in_int32 i \<longleftrightarrow> - (2 ^ 31) \<le> i \<and> i < 2 ^ 31"

lemma wrap64_id [simp]: "in_int64 i \<Longrightarrow> wrap64 i = i"
  by (simp add: in_int64_def wrap64_def signed_take_bit_int_eq_self)

lemma wrap32_id [simp]: "in_int32 i \<Longrightarrow> wrap32 i = i"
  by (simp add: in_int32_def wrap32_def signed_take_bit_int_eq_self)

lemma in_int64_wrap64 [simp]: "in_int64 (wrap64 i)"
  using signed_take_bit_int_less_exp [of 63 i] signed_take_bit_int_greater_eq_minus_exp [of 63 i]
  by (simp add: in_int64_def wrap64_def)

lemma wrap64_high: "2 ^ 63 \<le> i \<Longrightarrow> i < 2 ^ 64 + 2 ^ 63 \<Longrightarrow> wrap64 i = i - 2 ^ 64"
  using minus_mod_self2 [of "i + 2 ^ 63" "2 ^ 64"] mod_pos_pos_trivial [of "i + 2 ^ 63 - 2 ^ 64" "2 ^ 64"]
  by (simp add: wrap64_def signed_take_bit_eq_take_bit_shift take_bit_eq_mod)

lemma wrap64_overflow: "2 ^ 63 \<le> a + b \<Longrightarrow> a < 2 ^ 63 \<Longrightarrow> b < 2 ^ 63 \<Longrightarrow> wrap64 (a + b) < a"
  using wrap64_high [of "a + b"] by simp

lemma sint_of_int64: "in_int64 i \<Longrightarrow> sint (word_of_int i :: 64 word) = i"
  by (simp add: in_int64_def sint_sbintrunc' signed_take_bit_int_eq_self)

lemma sint_of_int32: "in_int32 i \<Longrightarrow> sint (word_of_int i :: 32 word) = i"
  by (simp add: in_int32_def sint_sbintrunc' signed_take_bit_int_eq_self)

lemma in_int64_sint: "in_int64 (sint (w :: 64 word))"
  using sint_greater_eq [of w] sint_less [of w] by (simp add: in_int64_def)

lemma in_int32_sint: "in_int32 (sint (w :: 32 word))"
  using sint_greater_eq [of w] sint_less [of w] by (simp add: in_int32_def)

section \<open>Little-endian byte strings\<close>

lemma radix_less: "a < p \<Longrightarrow> u < k \<Longrightarrow> a + p * u < p * (k :: nat)"
proof -
  assume a: "a < p" "u < k"
  then have "p * Suc u \<le> p * k" by (intro mult_le_mono2) simp
  with a(1) show ?thesis by simp
qed

text \<open>The object representation of an unsigned integer on the supported (little-endian) targets.\<close>

fun le_bytes :: "nat \<Rightarrow> nat \<Rightarrow> bytes" where
  "le_bytes 0 n = []"
| "le_bytes (Suc k) n = of_nat n # le_bytes k (n div 256)"

fun le_nat :: "bytes \<Rightarrow> nat" where
  "le_nat [] = 0"
| "le_nat (b # bs) = unat b + 256 * le_nat bs"

lemma length_le_bytes [simp, le_simps]: "length (le_bytes k n) = k"
  by (induction k arbitrary: n) auto

lemma unat_byte_less: "unat (b :: byte) < 256"
  using unsigned_less [of b] by simp

lemma unat_byte_of_nat: "unat (of_nat n :: byte) = n mod 256"
  by (simp add: unat_of_nat)

lemma le_nat_le_bytes: "le_nat (le_bytes k n) = n mod 256 ^ k"
proof (induction k arbitrary: n)
  case (Suc k)
  then show ?case
    by (simp add: unat_byte_of_nat mod_mult2_eq)
qed simp

lemma le_nat_le_bytes_id [le_simps]: "n < 256 ^ k \<Longrightarrow> le_nat (le_bytes k n) = n"
  by (simp add: le_nat_le_bytes)

lemma le_nat_less: "le_nat bs < 256 ^ length bs"
proof (induction bs)
  case (Cons b bs)
  have b: "unat b < 256" by (rule unat_byte_less)
  have "256 * le_nat bs + 256 \<le> 256 * 256 ^ length bs"
    using Cons by simp
  then show ?case using b by simp
qed simp

lemma le_bytes_le_nat [le_simps]: "le_bytes (length bs) (le_nat bs) = bs"
proof (induction bs)
  case (Cons b bs)
  have "(of_nat (unat b + 256 * le_nat bs) :: byte) = b"
  proof (rule word_unat_eq_iff [THEN iffD2])
    show "unat (of_nat (unat b + 256 * le_nat bs) :: byte) = unat b"
      by (simp add: unat_byte_of_nat unat_byte_less del: of_nat_add of_nat_mult)
  qed
  moreover have "(unat b + 256 * le_nat bs) div 256 = le_nat bs" by (simp add: unat_byte_less)
  ultimately show ?case using Cons by simp
qed simp

section \<open>Bits of bytes and integers\<close>

lemma byte_bit7: "bit (b :: byte) 7 \<longleftrightarrow> 128 \<le> unat b"
proof -
  have "bit b 7 \<longleftrightarrow> bit (unat b) 7" by (simp add: bit_unsigned_iff)
  also have "\<dots> \<longleftrightarrow> odd (unat b div 128)" by (simp add: bit_iff_odd)
  also have "\<dots> \<longleftrightarrow> 128 \<le> unat b"
  proof -
    have "unat b < 256" using unsigned_less [of b] by simp
    then have "unat b div 128 = (if 128 \<le> unat b then 1 else 0)" by auto
    then show ?thesis by simp
  qed
  finally show ?thesis .
qed

lemma byte_and_0x80: "(b :: byte) AND 0x80 = (if 128 \<le> unat b then 0x80 else 0)"
proof -
  have m: "(0x80 :: byte) = push_bit 7 1" by simp
  have "b AND push_bit 7 1 = (if bit b 7 then push_bit 7 1 else 0)"
  proof (rule bit_word_eqI)
    fix n assume "n < LENGTH(8)"
    then have "7 \<le> n \<longleftrightarrow> n = 7" by auto
    then show "bit (b AND push_bit 7 1) n = bit (if bit b 7 then push_bit 7 1 else 0 :: byte) n"
      by (auto simp: bit_simps simp del: push_bit_of_1)
  qed
  then show ?thesis by (simp add: byte_bit7)
qed

lemma byte_and_0x7f: "unat ((b :: byte) AND 0x7f) = unat b mod 128"
proof -
  have "(0x7f :: byte) = mask 7" by (simp add: mask_eq_exp_minus_1)
  then have "b AND 0x7f = take_bit 7 b" by (simp add: take_bit_eq_mask)
  then show ?thesis by (simp add: unsigned_take_bit_eq) (simp add: take_bit_eq_mod)
qed

lemma byte_or_0x80: "unat b < 128 \<Longrightarrow> unat ((b :: byte) OR 0x80) = unat b + 128"
proof -
  assume u: "unat b < 128"
  have "b + 0x80 = b OR 0x80" 
    using disjunctive_add_eq_or [of b "0x80"] u by (simp add: byte_and_0x80)
  moreover have "unat (b + 0x80) = unat b + 128" using u by (simp add: unat_word_ariths)
  ultimately show ?thesis by simp
qed
lemma int_or_disjoint: 
  assumes "0 \<le> (a::int)" "a < 2 ^ k" shows "a OR push_bit k c = a + c * 2 ^ k"
proof -
  have "take_bit k a = a" using assms by (simp add: take_bit_int_eq_self)
  then have "a AND push_bit k c = 0"
    by (metis (no_types, opaque_lifting) and.assoc and.commute and_zero_eq bit.conj_zero_left push_bit_mask_eq take_bit_eq_mask take_bit_push_bit  diff_self_eq_0 push_bit_0_id take_bit_and push_bit_of_0 take_bit_0)
  then show ?thesis using plus_and_or [of a "push_bit k c"] by (simp add: push_bit_eq_mult)
qed
lemma int_and_not: 
  assumes "(r::int) AND m = m" shows "r AND NOT m = r - m"
proof -
  have "(r AND NOT m) OR (r AND m) = r" by (rule bit_eqI) (auto simp: bit_simps)
  moreover have "(r AND NOT m) AND (r AND m) = 0" by (rule bit_eqI) (auto simp: bit_simps)
  ultimately have "(r AND NOT m) + (r AND m) = r" using plus_and_or [of "r AND NOT m" "r AND m"] by simp
  then show ?thesis using assms by simp
qed

section \<open>Readers over a byte stream\<close>

text \<open>
  The exceptions \<^verbatim>\<open>std::ios_base::failure\<close> that the stream operations throw, by the
  condition that raises them.
\<close>

datatype ser_error =
    EndOfData
  | NonCanonicalSize
  | SizeTooLarge
  | StringLimitExceeded

type_synonym 'a reader = "bytes \<Rightarrow> ser_error + ('a \<times> bytes)"

definition rret :: "'a \<Rightarrow> 'a reader" where
  "rret x s = Inr (x, s)"

definition rfail :: "ser_error \<Rightarrow> 'a reader" where
  "rfail e s = Inl e"

definition rbind :: "'a reader \<Rightarrow> ('a \<Rightarrow> 'b reader) \<Rightarrow> 'b reader" where
  "rbind r f s = (case r s of Inl e \<Rightarrow> Inl e | Inr (x, s') \<Rightarrow> f x s')"

lemma rret_apply [reader_simps]: "rret x s = Inr (x, s)"
  by (simp add: rret_def)

lemma rfail_apply [reader_simps]: "rfail e s = Inl e"
  by (simp add: rfail_def)

lemma rbind_Inr [reader_simps]: "r s = Inr (x, s') \<Longrightarrow> rbind r f s = f x s'"
  by (simp add: rbind_def)

lemma rbind_Inl [reader_simps]: "r s = Inl e \<Longrightarrow> rbind r f s = Inl e"
  by (simp add: rbind_def)

lemma rbind_eq_Inr:
  "rbind r f s = Inr (y, t) \<longleftrightarrow> (\<exists>x s'. r s = Inr (x, s') \<and> f x s' = Inr (y, t))"
  by (auto simp: rbind_def split: sum.splits)

section \<open>Encoders and decoders\<close>

text \<open>
  The contract between \<^verbatim>\<open>Serialize\<close> and \<^verbatim>\<open>Unserialize\<close>: reading what was written
  gives the value back and leaves the rest of the stream. A canonical pair also
  accepts nothing but what the writer produces.
\<close>

locale codec =
  fixes ser :: "'a \<Rightarrow> bytes"
    and unser :: "'a reader"
    and valid :: "'a \<Rightarrow> bool"
  assumes roundtrip: "valid x \<Longrightarrow> unser (ser x @ rest) = Inr (x, rest)"
begin

lemma prefix_free:
  assumes "valid x" "valid y" "ser x @ r = ser y @ r'"
  shows "x = y \<and> r = r'"
proof -
  have "Inr (x, r) = unser (ser x @ r)" using assms(1) by (rule roundtrip [symmetric])
  also have "\<dots> = unser (ser y @ r')" by (rule arg_cong [OF assms(3)])
  also have "\<dots> = Inr (y, r')" using assms(2) by (rule roundtrip)
  finally show ?thesis by simp
qed

lemma ser_inj: "valid x \<Longrightarrow> valid y \<Longrightarrow> ser x = ser y \<Longrightarrow> x = y"
  using prefix_free [of x y "[]" "[]"] by simp

end

locale canonical_codec = codec +
  assumes canonical: "unser s = Inr (x, rest) \<Longrightarrow> valid x \<and> s = ser x @ rest"
begin

lemma unser_iff: "unser s = Inr (x, rest) \<longleftrightarrow> valid x \<and> s = ser x @ rest"
  using canonical roundtrip by blast

end

end
