(* ===== verification/Serialize.thy ===== *)
theory Serialize
  imports Prelude
begin

unbundle bit_operations_syntax

text \<open>
  The serialization templates of \<^verbatim>\<open>src/src/serialize.h\<close> over an in-memory stream
  (\<^verbatim>\<open>CDataStream\<close> of \<^verbatim>\<open>src/src/streams.h\<close>): fixed-width integers, the
  compact size prefix, variable-length integers, strings, vectors and pairs. A write is
  the list of bytes appended to the stream; a read consumes a prefix of the stream or
  throws. Every pair of operations is shown to be a \<^theory_text>\<open>codec\<close>, and the size
  functions agree with what is written.
\<close>

section \<open>Stream reads and plain data\<close>

text \<open>\<^verbatim>\<open>CDataStream::read\<close> of \<open>n\<close> bytes.\<close>

definition read_bytes :: "nat \<Rightarrow> bytes reader" where
  "read_bytes n s = (if length s < n then Inl EndOfData else Inr (take n s, drop n s))"

definition WRITEDATA :: "'a::len word \<Rightarrow> bytes" where
  "WRITEDATA w = le_bytes (LENGTH('a) div 8) (unat w)"

definition READDATA :: "'a::len word reader" where
  "READDATA = rbind (read_bytes (LENGTH('a) div 8)) (\<lambda>bs. rret (of_nat (le_nat bs)))"

definition SerializeBool :: "bool \<Rightarrow> bytes" where
  "SerializeBool a = WRITEDATA (if a then 1 else 0 :: byte)"

definition UnserializeBool :: "bool reader" where
  "UnserializeBool = rbind READDATA (\<lambda>f :: byte. rret (f \<noteq> 0))"

section \<open>Compact size\<close>

definition MAX_SIZE :: uint64 where
  "MAX_SIZE = 0x02000000"

definition GetSizeOfCompactSize :: "uint64 \<Rightarrow> nat" where
  "GetSizeOfCompactSize nSize =
     (if nSize < 253 then 1
      else if nSize \<le> 0xffff then 1 + 2
      else if nSize \<le> 0xffffffff then 1 + 4
      else 1 + 8)"

definition WriteCompactSize :: "uint64 \<Rightarrow> bytes" where
  "WriteCompactSize nSize =
     (if nSize < 253 then WRITEDATA (ucast nSize :: 8 word)
      else if nSize \<le> 0xffff then WRITEDATA (253 :: 8 word) @ WRITEDATA (ucast nSize :: 16 word)
      else if nSize \<le> 0xffffffff then WRITEDATA (254 :: 8 word) @ WRITEDATA (ucast nSize :: 32 word)
      else WRITEDATA (255 :: 8 word) @ WRITEDATA nSize)"

definition check_max_size :: "uint64 \<Rightarrow> uint64 reader" where
  "check_max_size nSizeRet = (if nSizeRet > MAX_SIZE then rfail SizeTooLarge else rret nSizeRet)"

text \<open>The part of \<^verbatim>\<open>ReadCompactSize\<close> after its first byte, then the whole function.\<close>

definition read_size_tail :: "byte \<Rightarrow> uint64 reader" where
  "read_size_tail chSize =
    (if chSize < 253 then check_max_size (ucast chSize)
     else if chSize = 253 then
       rbind READDATA (\<lambda>xSize :: 16 word.
         if (ucast xSize :: uint64) < 253 then rfail NonCanonicalSize
         else check_max_size (ucast xSize))
     else if chSize = 254 then
       rbind READDATA (\<lambda>xSize :: 32 word.
         if (ucast xSize :: uint64) < 0x10000 then rfail NonCanonicalSize
         else check_max_size (ucast xSize))
     else
       rbind READDATA (\<lambda>xSize :: 64 word.
         if xSize < 0x100000000 then rfail NonCanonicalSize
         else check_max_size xSize))"

definition ReadCompactSize :: "uint64 reader" where
  "ReadCompactSize = rbind READDATA read_size_tail"

section \<open>Variable-length integers\<close>

text \<open>
  The loop of \<^verbatim>\<open>GetSizeOfVarInt\<close> and the first loop of \<^verbatim>\<open>WriteVarInt\<close>, which
  fills \<open>tmp\<close> from index 0; the second loop writes \<open>tmp\<close> backwards. The type
  parameter \<open>I\<close> is the word width (the unsigned instances).
\<close>

lemma varint_big: 
  assumes "\<not> n \<le> (0x7F :: 'a::len word)"
  shows "127 < unat n" "7 < LENGTH('a)"
proof -
  have u: "unat (0x7F :: 'a word) = 127 mod 2 ^ LENGTH('a)"
    using unat_of_nat [where 'a='a, of 127] by simp
  have n: "unat n < 2 ^ LENGTH('a)" by (rule unsigned_less)
  have gt: "127 mod 2 ^ LENGTH('a) < unat n"
    using assms by (simp only: word_le_nat_alt u not_le)
  show L: "7 < LENGTH('a)"
  proof (rule ccontr)
    assume "\<not> 7 < LENGTH('a)"
    then have d: "(2::nat) ^ LENGTH('a) dvd 2 ^ 7" by (intro le_imp_power_dvd) simp
    then obtain c where c: "(2::nat) ^ 7 = 2 ^ LENGTH('a) * c" by (elim dvdE)
    have "(127::nat) = 2 ^ LENGTH('a) * (c - 1) + (2 ^ LENGTH('a) - 1)"
    proof -
      have "c \<noteq> 0" using c by (metis mult_0_right power_not_zero zero_neq_numeral)
      then obtain c' where "c = Suc c'" by (cases c) auto
      with c show ?thesis by simp
    qed
    then have "127 mod 2 ^ LENGTH('a) = (2 ^ LENGTH('a) - 1 :: nat)"
      by (metis (no_types, lifting) diff_less less_numeral_extra(1) mod_less mod_mult_self4 zero_less_numeral zero_less_power)
    with gt n show False by linarith
  qed
  have "(2::nat) ^ 7 \<le> 2 ^ LENGTH('a)" using L by (intro power_increasing) auto
  then show "127 < unat n" using gt by simp
qed

lemma varint_next:
  assumes "\<not> n \<le> (0x7F :: 'a::len word)"
  shows "unat (drop_bit 7 n - 1) = unat n div 128 - 1" "drop_bit 7 n - 1 + 1 = drop_bit 7 n"
proof -
  have "unat (drop_bit 7 n) = unat n div 128"
    by (simp only: unat_drop_bit_eq) (simp add: drop_bit_eq_div)
  moreover have "0 < unat n div 128" using varint_big(1)[OF assms] by (simp add: div_greater_zero_iff)
  ultimately have "drop_bit 7 n \<noteq> 0" by (metis less_irrefl unat_0)
  with \<open>unat (drop_bit 7 n) = _\<close> show "unat (drop_bit 7 n - 1) = unat n div 128 - 1"
    by (metis unat_minus_one)
qed simp


lemma mask7: "(0x7F :: 'a::len word) = mask 7"
  by (simp add: mask_eq_exp_minus_1)

lemma varint_recombine: "push_bit 7 (drop_bit 7 n) OR (n AND 0x7F) = (n :: 'a::len word)"
  unfolding mask7 by (rule bit_word_eqI) (auto simp: bit_simps)

lemma ucast_varint_byte: "(ucast ((ucast (n AND 0x7F) :: 8 word) AND 0x7F) :: 'a::len word) = n AND 0x7F"
  unfolding mask7 by (rule bit_word_eqI) (auto simp: bit_simps)

lemma varint_byte_bits: "((ucast ((n :: 'a::len word) AND 0x7F) :: 8 word) OR 0x80) AND 0x7F = ucast (n AND 0x7F) AND 0x7F"
  "((ucast ((n :: 'a::len word) AND 0x7F) :: 8 word) OR 0x80) AND 0x80 \<noteq> 0"
  "((ucast ((n :: 'a::len word) AND 0x7F) :: 8 word)) AND 0x80 = 0"
proof -
  have m: "(0x80 :: 8 word) = push_bit 7 1" by simp
  show "((ucast ((n :: 'a::len word) AND 0x7F) :: 8 word) OR 0x80) AND 0x7F = ucast (n AND 0x7F) AND 0x7F"
    unfolding mask7 m by (rule bit_word_eqI) (auto simp: bit_simps simp del: push_bit_of_1)
  have "bit (((ucast ((n :: 'a::len word) AND 0x7F) :: 8 word) OR 0x80) AND 0x80) 7"
    unfolding mask7 m by (auto simp: bit_simps)
  then show "((ucast ((n :: 'a::len word) AND 0x7F) :: 8 word) OR 0x80) AND 0x80 \<noteq> 0" by auto
  show "((ucast ((n :: 'a::len word) AND 0x7F) :: 8 word)) AND 0x80 = 0"
    unfolding mask7 m by (rule bit_word_eqI) (auto simp: bit_simps simp del: push_bit_of_1)
qed

function GetSizeOfVarInt :: "'a::len word \<Rightarrow> nat" where
  "GetSizeOfVarInt n = (if n \<le> 0x7F then 1 else 1 + GetSizeOfVarInt (drop_bit 7 n - 1))"
  by pat_completeness auto
termination
  by (relation "measure unat") (use varint_next varint_big in force)+

function varint_tmp :: "'a::len word \<Rightarrow> bool \<Rightarrow> bytes" where
  "varint_tmp n len =
     (let b = (ucast (n AND 0x7F) :: byte) OR (if len then 0x80 else 0x00) in
      if n \<le> 0x7F then [b] else b # varint_tmp (drop_bit 7 n - 1) True)"
  by pat_completeness auto
termination
  by (relation "measure (\<lambda>(n, _). unat n)") (use varint_next varint_big in force)+

declare GetSizeOfVarInt.simps [simp del] varint_tmp.simps [simp del]

definition WriteVarInt :: "'a::len word \<Rightarrow> bytes" where
  "WriteVarInt n = rev (varint_tmp n False)"

fun ReadVarInt_loop :: "'a::len word \<Rightarrow> 'a word reader" where
  "ReadVarInt_loop n [] = Inl EndOfData"
| "ReadVarInt_loop n (chData # s) =
     (let n' = push_bit 7 n OR ucast (chData AND 0x7F) in
      if chData AND 0x80 \<noteq> 0 then ReadVarInt_loop (n' + 1) s else Inr (n', s))"

definition ReadVarInt :: "'a::len word reader" where
  "ReadVarInt = ReadVarInt_loop 0"

lemma varint_last: "n \<le> 0x7F \<Longrightarrow> n AND 0x7F = (n :: 'a::len word)"
proof -
  assume "n \<le> 0x7F"
  then have "unat n \<le> unat (0x7F :: 'a word)" by (simp only: word_le_nat_alt)
  also have "unat (0x7F :: 'a word) \<le> 127"
    using unat_of_nat [where 'a='a, of 127] by (simp add: take_bit_nat_eq_self_iff)
  finally have "unat n mod 2 ^ 7 = unat n" by simp
  then have "unat (take_bit 7 n) = unat n"
    by (simp only: unsigned_take_bit_eq) (simp add: take_bit_eq_mod)
  then show ?thesis unfolding mask7 by (simp only: word_unat_eq_iff flip: take_bit_eq_mask)
qed

lemma ReadVarInt_byte:
  "ReadVarInt_loop n (((ucast ((m :: 'a::len word) AND 0x7F) :: byte) OR (if f then 0x80 else 0x00)) # s) =
     (let n' = push_bit 7 n OR (m AND 0x7F) in
      if f then ReadVarInt_loop (n' + 1) s else Inr (n', s))"
  by (simp add: varint_byte_bits ucast_varint_byte Let_def)

lemma ReadVarInt_loop_tmp:
  "ReadVarInt_loop 0 (rev (varint_tmp n f) @ s) =
     (if f then ReadVarInt_loop (n + 1) s else Inr (n, s))"
proof (induction n f arbitrary: s rule: varint_tmp.induct)
  case (1 n len)
  let ?b = "(ucast (n AND 0x7F) :: byte) OR (if len then 0x80 else 0x00)"
  show ?case
  proof (cases "n \<le> 0x7F")
    case True
    then have "varint_tmp n len = [?b]" by (subst varint_tmp.simps) (simp add: Let_def)
    then show ?thesis
      by (simp only: rev.simps append.simps ReadVarInt_byte) (simp add: varint_last True)
  next
    case False
    let ?m = "drop_bit 7 n - 1"
    have "varint_tmp n len = ?b # varint_tmp ?m True"
      using False by (subst varint_tmp.simps) (simp add: Let_def)
    then have "ReadVarInt_loop 0 (rev (varint_tmp n len) @ s) =
        ReadVarInt_loop 0 (rev (varint_tmp ?m True) @ ?b # s)" by simp
    also have "\<dots> = ReadVarInt_loop (drop_bit 7 n) (?b # s)"
      using "1.IH" [OF refl False, of "?b # s"] by (simp add: varint_next(2) [OF False])
    finally show ?thesis by (simp only: ReadVarInt_byte Let_def varint_recombine)
  qed
qed

lemma length_varint_tmp: "length (varint_tmp n f) = GetSizeOfVarInt n"
proof (induction n f rule: varint_tmp.induct)
  case (1 n len)
  then show ?case
    by (subst varint_tmp.simps, subst GetSizeOfVarInt.simps) (simp add: Let_def)
qed

section \<open>Strings, vectors, pairs\<close>

text \<open>
  A byte vector is read in blocks of at most five million bytes, so that a bogus size
  does not allocate memory; a vector of other elements is read one element at a time.
\<close>

function read_blocks :: "nat \<Rightarrow> bytes reader" where
  "read_blocks n =
     (if n = 0 then rret []
      else rbind (read_bytes (min n 5000000)) (\<lambda>v.
           rbind (read_blocks (n - min n 5000000)) (\<lambda>w. rret (v @ w))))"
  by pat_completeness auto
termination by (relation "measure id") auto

declare read_blocks.simps [simp del]

definition SerializeBytes :: "bytes \<Rightarrow> bytes" where
  "SerializeBytes v = WriteCompactSize (of_nat (length v)) @ v"

definition UnserializeBytes :: "bytes reader" where
  "UnserializeBytes = rbind ReadCompactSize (\<lambda>nSize. read_blocks (unat nSize))"

definition SerializeString :: "bytes \<Rightarrow> bytes" where
  "SerializeString str = WriteCompactSize (of_nat (length str)) @ str"

definition UnserializeString :: "bytes reader" where
  "UnserializeString = rbind ReadCompactSize (\<lambda>nSize.
     if nSize \<noteq> 0 then read_bytes (unat nSize) else rret [])"

definition UnserializeLimitedString :: "nat \<Rightarrow> bytes reader" where
  "UnserializeLimitedString Limit = rbind ReadCompactSize (\<lambda>size.
     if unat size > Limit then rfail StringLimitExceeded
     else if size \<noteq> 0 then read_bytes (unat size) else rret [])"

fun read_elems :: "'a reader \<Rightarrow> nat \<Rightarrow> 'a list reader" where
  "read_elems unser 0 = rret []"
| "read_elems unser (Suc n) = rbind unser (\<lambda>x. rbind (read_elems unser n) (\<lambda>xs. rret (x # xs)))"

definition SerializeVec :: "('a \<Rightarrow> bytes) \<Rightarrow> 'a list \<Rightarrow> bytes" where
  "SerializeVec ser v = WriteCompactSize (of_nat (length v)) @ concat (map ser v)"

definition UnserializeVec :: "'a reader \<Rightarrow> 'a list reader" where
  "UnserializeVec unser = rbind ReadCompactSize (\<lambda>nSize. read_elems unser (unat nSize))"

definition SerializePair :: "('a \<Rightarrow> bytes) \<Rightarrow> ('b \<Rightarrow> bytes) \<Rightarrow> 'a \<times> 'b \<Rightarrow> bytes" where
  "SerializePair sa sb item = sa (fst item) @ sb (snd item)"

definition UnserializePair :: "'a reader \<Rightarrow> 'b reader \<Rightarrow> ('a \<times> 'b) reader" where
  "UnserializePair ra rb = rbind ra (\<lambda>x. rbind rb (\<lambda>y. rret (x, y)))"

section \<open>Plain data is canonical\<close>

lemma read_bytes_append [reader_simps]: "length v = n \<Longrightarrow> read_bytes n (v @ s) = Inr (v, s)"
  by (auto simp: read_bytes_def)

lemma read_bytes_eq_Inr: "read_bytes n s = Inr (v, r) \<longleftrightarrow> length v = n \<and> s = v @ r"
  by (auto simp: read_bytes_def)

lemma WRITEDATA_codec:
  assumes "8 dvd LENGTH('a::len)"
  shows "canonical_codec (WRITEDATA :: 'a word \<Rightarrow> bytes) READDATA (\<lambda>_. True)"
proof
  let ?k = "LENGTH('a) div 8"
  have p: "256 ^ ?k = (2 :: nat) ^ LENGTH('a)"
    using assms by (auto simp: power_mult elim!: dvdE)
  show "READDATA (WRITEDATA w @ rest) = Inr (w, rest)" for w :: "'a word" and rest
    using unsigned_less [of w]
    by (simp add: READDATA_def WRITEDATA_def reader_simps le_nat_le_bytes p)
  fix s rest and x :: "'a word"
  assume "READDATA s = Inr (x, rest)"
  then obtain bs where bs: "length bs = ?k" "s = bs @ rest" "x = of_nat (le_nat bs)"
    by (auto simp: READDATA_def rbind_eq_Inr read_bytes_eq_Inr rret_apply)
  have "le_nat bs < 2 ^ LENGTH('a)" using le_nat_less [of bs] by (simp add: bs p)
  then have "unat x = le_nat bs" by (simp add: bs unat_of_nat)
  then show "True \<and> s = WRITEDATA x @ rest"
    using le_bytes_le_nat [of bs] by (simp add: WRITEDATA_def bs)
qed

lemma canonical_codec_imp_codec: "canonical_codec ser unser valid \<Longrightarrow> codec ser unser valid"
  by (simp add: canonical_codec_def)

interpretation u8: canonical_codec "WRITEDATA :: 8 word \<Rightarrow> bytes" READDATA "\<lambda>_. True"
  by (rule WRITEDATA_codec) simp

interpretation u16: canonical_codec "WRITEDATA :: 16 word \<Rightarrow> bytes" READDATA "\<lambda>_. True"
  by (rule WRITEDATA_codec) simp

interpretation u32: canonical_codec "WRITEDATA :: 32 word \<Rightarrow> bytes" READDATA "\<lambda>_. True"
  by (rule WRITEDATA_codec) simp

interpretation u64: canonical_codec "WRITEDATA :: 64 word \<Rightarrow> bytes" READDATA "\<lambda>_. True"
  by (rule WRITEDATA_codec) simp

interpretation u256: canonical_codec "WRITEDATA :: 256 word \<Rightarrow> bytes" READDATA "\<lambda>_. True"
  by (rule WRITEDATA_codec) simp

lemmas data_iff = u8.unser_iff u16.unser_iff u32.unser_iff u64.unser_iff u256.unser_iff
lemmas data_roundtrip [simp] = u8.roundtrip [OF TrueI] u16.roundtrip [OF TrueI] u32.roundtrip [OF TrueI]
  u64.roundtrip [OF TrueI] u256.roundtrip [OF TrueI]

lemma length_WRITEDATA [simp]: "length (WRITEDATA (w :: 'a::len word)) = LENGTH('a) div 8"
  by (simp add: WRITEDATA_def)

interpretation bool_codec: codec SerializeBool UnserializeBool "\<lambda>_. True"
  by unfold_locales (simp add: SerializeBool_def UnserializeBool_def reader_simps)

section \<open>Compact size is canonical\<close>

lemma unat_ucast_narrow:
  "unat (n :: uint64) < 2 ^ LENGTH('a::len) \<Longrightarrow> unat (ucast n :: 'a word) = unat n"
  by (simp add: unsigned_ucast_eq take_bit_nat_eq_self)

lemma unat_ucast_widen:
  "LENGTH('a::len) \<le> 64 \<Longrightarrow> unat (ucast (x :: 'a word) :: uint64) = unat x"
proof -
  assume "LENGTH('a) \<le> 64"
  then have "(2::nat) ^ LENGTH('a) \<le> 2 ^ 64" by (intro power_increasing) auto
  then have "unat x < 2 ^ 64" using unsigned_less [of x] by (rule less_le_trans [rotated])
  then show ?thesis by (simp add: unsigned_ucast_eq take_bit_nat_eq_self)
qed

lemma ucast_ucast_small:
  "unat (n :: uint64) < 2 ^ LENGTH('a::len) \<Longrightarrow> LENGTH('a) \<le> 64 \<Longrightarrow> ucast (ucast n :: 'a word) = n"
  by (simp add: word_unat_eq_iff unat_ucast_narrow unat_ucast_widen)

lemma ucast_ucast_back:
  "LENGTH('a::len) \<le> 64 \<Longrightarrow> ucast (ucast (x :: 'a word) :: uint64) = x"
  using unsigned_less [of x]
  by (simp add: word_unat_eq_iff unat_ucast_narrow unat_ucast_widen)

lemma check_max_size_apply [reader_simps]:
  "check_max_size n s = (if n > MAX_SIZE then Inl SizeTooLarge else Inr (n, s))"
  by (simp add: check_max_size_def reader_simps)

lemmas unat_cmp = word_less_nat_alt word_le_nat_alt

lemma ReadCompactSize_Write:
  assumes "n \<le> MAX_SIZE"
  shows "ReadCompactSize (WriteCompactSize n @ rest) = Inr (n, rest)"
proof -
  have max: "\<not> n > MAX_SIZE" using assms by simp
  consider "n < 253" | "\<not> n < 253" "n \<le> 0xffff" | "\<not> n \<le> 0xffff" "n \<le> 0xffffffff"
    using assms by (fastforce simp: MAX_SIZE_def unat_cmp)
  then show ?thesis
  proof cases
    case 1
    then have "unat n < 253" by (simp add: unat_cmp)
    then have "(ucast n :: byte) < 253" "ucast (ucast n :: byte) = n"
      by (simp_all add: unat_cmp unat_ucast_narrow ucast_ucast_small)
    with 1 max show ?thesis
      by (simp add: WriteCompactSize_def ReadCompactSize_def read_size_tail_def reader_simps)
  next
    case 2
    then have "unat n < 65536" by (simp add: unat_cmp)
    then have "ucast (ucast n :: 16 word) = n" by (simp add: ucast_ucast_small)
    with 2 max show ?thesis
      by (simp add: WriteCompactSize_def ReadCompactSize_def read_size_tail_def reader_simps)
  next
    case 3
    then have u: "unat n < 2 ^ 32" "\<not> n < 253" "\<not> n < 0x10000" by (simp_all add: unat_cmp)
    then have "ucast (ucast n :: 32 word) = n" by (simp add: ucast_ucast_small)
    with 3 u max show ?thesis
      by (simp add: WriteCompactSize_def ReadCompactSize_def read_size_tail_def reader_simps)
  qed
qed

lemma ReadCompactSize_canonical:
  assumes "ReadCompactSize s = Inr (n, rest)"
  shows "n \<le> MAX_SIZE \<and> s = WriteCompactSize n @ rest"
proof -
  from assms obtain ch s' where s: "s = WRITEDATA ch @ s'"
    and r: "read_size_tail ch s' = Inr (n, rest)"
    by (auto simp: ReadCompactSize_def rbind_eq_Inr data_iff)
  consider "ch < 253" | "ch = 253" | "ch = 254" | "ch = (255 :: byte)"
  proof -
    have "unat ch < 253 \<or> unat ch = 253 \<or> unat ch = 254 \<or> unat ch = 255"
      using unat_byte_less [of ch] by linarith
    then show ?thesis using that by (auto simp: unat_cmp word_unat_eq_iff)
  qed
  then show ?thesis
  proof cases
    case 1
    then have "unat (ucast ch :: uint64) < 253" by (simp add: unat_cmp unat_ucast_widen)
    then have "(ucast ch :: uint64) < 253" by (simp add: unat_cmp)
    with 1 r show ?thesis
      by (auto simp: read_size_tail_def s reader_simps WriteCompactSize_def ucast_ucast_back split: if_splits)
  next
    case 2
    with r obtain x :: "16 word" where x: "s' = WRITEDATA x @ rest" "n = ucast x"
      "\<not> (ucast x :: uint64) < 253" "n \<le> MAX_SIZE"
      by (auto simp: read_size_tail_def rbind_eq_Inr data_iff reader_simps split: if_splits)
    have "unat n < 65536" using unsigned_less [of x] by (simp add: x unat_ucast_widen)
    with 2 x show ?thesis by (simp add: s WriteCompactSize_def unat_cmp ucast_ucast_back)
  next
    case 3
    with r obtain x :: "32 word" where x: "s' = WRITEDATA x @ rest" "n = ucast x"
      "\<not> (ucast x :: uint64) < 0x10000" "n \<le> MAX_SIZE"
      by (auto simp: read_size_tail_def rbind_eq_Inr data_iff reader_simps split: if_splits)
    have "unat n < 2 ^ 32" using unsigned_less [of x] by (simp add: x unat_ucast_widen)
    with 3 x show ?thesis by (simp add: s WriteCompactSize_def unat_cmp ucast_ucast_back)
  next
    case 4
    with r show ?thesis
      by (auto simp: read_size_tail_def rbind_eq_Inr data_iff reader_simps MAX_SIZE_def unat_cmp split: if_splits)
  qed
qed

interpretation compact_size: canonical_codec WriteCompactSize ReadCompactSize "\<lambda>n. n \<le> MAX_SIZE"
  by unfold_locales (simp_all add: ReadCompactSize_Write ReadCompactSize_canonical)

lemma length_WriteCompactSize: "length (WriteCompactSize n) = GetSizeOfCompactSize n"
  by (simp add: WriteCompactSize_def GetSizeOfCompactSize_def)


section \<open>Variable-length integers: round trip and size\<close>

interpretation varint: codec WriteVarInt ReadVarInt "\<lambda>_. True"
  by unfold_locales (simp add: WriteVarInt_def ReadVarInt_def ReadVarInt_loop_tmp)

lemma length_WriteVarInt: "length (WriteVarInt n) = GetSizeOfVarInt n"
  by (simp add: WriteVarInt_def length_varint_tmp)

section \<open>Vectors, strings and pairs of codecs\<close>

lemma read_blocks_eq: "read_blocks n s = read_bytes n s"
proof (induction n arbitrary: s rule: read_blocks.induct)
  case (1 n)
  show ?case
  proof (cases "n = 0")
    case True
    then show ?thesis by (simp add: read_blocks.simps [of 0] rret_apply read_bytes_def)
  next
    case False
    let ?b = "min n 5000000"
    have tk: "take ?b s @ take (n - ?b) (drop ?b s) = take n s"
      by (metis le_add_diff_inverse min.cobounded1 take_add)
    show ?thesis
      using False "1.IH" [OF False] tk
      by (auto simp: read_blocks.simps [of n] rbind_def read_bytes_def rret_apply)
  qed
qed

lemma of_nat_le_MAX_SIZE:
  "n \<le> 0x02000000 \<Longrightarrow> (of_nat n :: uint64) \<le> MAX_SIZE \<and> unat (of_nat n :: uint64) = n"
  by (simp add: MAX_SIZE_def unat_cmp unat_of_nat)

lemma le_MAX_SIZE_unat: "(m :: uint64) \<le> MAX_SIZE \<Longrightarrow> unat m \<le> 0x02000000"
  by (simp add: MAX_SIZE_def unat_cmp)

interpretation bytes_codec: canonical_codec SerializeBytes UnserializeBytes "\<lambda>v. length v \<le> 0x02000000"
proof
  show "UnserializeBytes (SerializeBytes v @ rest) = Inr (v, rest)" if "length v \<le> 0x02000000" for v rest
    using of_nat_le_MAX_SIZE [OF that]
    by (simp add: UnserializeBytes_def SerializeBytes_def reader_simps compact_size.roundtrip read_blocks_eq)
  show "length v \<le> 0x02000000 \<and> s = SerializeBytes v @ rest"
    if "UnserializeBytes s = Inr (v, rest)" for s v rest
  proof -
    from that obtain n where n: "n \<le> MAX_SIZE" "s = WriteCompactSize n @ v @ rest" "length v = unat n"
      by (auto simp: UnserializeBytes_def rbind_eq_Inr compact_size.unser_iff read_blocks_eq read_bytes_eq_Inr)
    have "of_nat (length v) = n" by (simp add: n)
    then show ?thesis
      using le_MAX_SIZE_unat [OF n(1)] by (simp add: SerializeBytes_def n)
  qed
qed

lemma UnserializeString_eq: "UnserializeString = rbind ReadCompactSize (\<lambda>n. read_bytes (unat n))"
proof -
  have "(if n \<noteq> 0 then read_bytes (unat n) else rret []) = read_bytes (unat (n :: uint64))" for n
    by (auto simp: fun_eq_iff read_bytes_def rret_apply)
  then show ?thesis by (simp add: UnserializeString_def)
qed

interpretation string_codec: canonical_codec SerializeString UnserializeString "\<lambda>v. length v \<le> 0x02000000"
proof
  show "UnserializeString (SerializeString v @ rest) = Inr (v, rest)" if "length v \<le> 0x02000000" for v rest
    using of_nat_le_MAX_SIZE [OF that]
    by (auto simp: UnserializeString_def SerializeString_def reader_simps compact_size.roundtrip)
  show "length v \<le> 0x02000000 \<and> s = SerializeString v @ rest"
    if "UnserializeString s = Inr (v, rest)" for s v rest
  proof -
    from that obtain n where n: "n \<le> MAX_SIZE" "s = WriteCompactSize n @ v @ rest" "length v = unat n"
      by (auto simp: UnserializeString_eq rbind_eq_Inr compact_size.unser_iff read_bytes_eq_Inr)
    have "of_nat (length v) = n" by (simp add: n)
    then show ?thesis
      using le_MAX_SIZE_unat [OF n(1)] by (simp add: SerializeString_def n)
  qed
qed

context codec
begin

lemma read_elems_concat:
  "\<forall>x \<in> set xs. valid x \<Longrightarrow> read_elems unser (length xs) (concat (map ser xs) @ rest) = Inr (xs, rest)"
  by (induction xs) (simp_all add: reader_simps roundtrip)

lemma vector_codec:
  "codec (SerializeVec ser) (UnserializeVec unser) (\<lambda>xs. length xs \<le> 0x02000000 \<and> (\<forall>x \<in> set xs. valid x))"
proof
  fix xs rest
  assume v: "length xs \<le> 0x02000000 \<and> (\<forall>x \<in> set xs. valid x)"
  then show "UnserializeVec unser (SerializeVec ser xs @ rest) = Inr (xs, rest)"
    using of_nat_le_MAX_SIZE [of "length xs"] read_elems_concat [of xs rest]
    by (simp add: UnserializeVec_def SerializeVec_def reader_simps compact_size.roundtrip)
qed

end

context canonical_codec
begin

lemma read_elems_canonical:
  "read_elems unser n s = Inr (xs, rest) \<Longrightarrow>
     length xs = n \<and> (\<forall>x \<in> set xs. valid x) \<and> s = concat (map ser xs) @ rest"
proof (induction n arbitrary: s xs)
  case (Suc n)
  then obtain y ys s' where "valid y" "s = ser y @ s'" "xs = y # ys" "read_elems unser n s' = Inr (ys, rest)"
    by (auto simp: rbind_eq_Inr unser_iff rret_apply)
  with Suc.IH [of s' ys] show ?case by simp
qed (simp add: rret_apply)

lemma vector_canonical:
  "canonical_codec (SerializeVec ser) (UnserializeVec unser)
     (\<lambda>xs. length xs \<le> 0x02000000 \<and> (\<forall>x \<in> set xs. valid x))"
proof (rule canonical_codec.intro [OF vector_codec], unfold_locales)
  fix s xs rest
  assume "UnserializeVec unser s = Inr (xs, rest)"
  then obtain n where n: "n \<le> MAX_SIZE" and s: "s = WriteCompactSize n @ concat (map ser xs) @ rest"
    and xs: "length xs = unat n" "\<forall>x \<in> set xs. valid x"
    by (auto simp: UnserializeVec_def rbind_eq_Inr compact_size.unser_iff dest!: read_elems_canonical)
  have "of_nat (length xs) = n" by (simp add: xs)
  with xs s le_MAX_SIZE_unat [OF n]
  show "(length xs \<le> 0x02000000 \<and> (\<forall>x \<in> set xs. valid x)) \<and> s = SerializeVec ser xs @ rest"
    by (simp add: SerializeVec_def)
qed

end

lemma pair_codec [codec_intros]:
  assumes "codec sa ra va" "codec sb rb vb"
  shows "codec (SerializePair sa sb) (UnserializePair ra rb) (\<lambda>(x, y). va x \<and> vb y)"
  using assms by (auto simp: codec_def SerializePair_def UnserializePair_def reader_simps)

lemma pair_canonical [codec_intros]:
  assumes "canonical_codec sa ra va" "canonical_codec sb rb vb"
  shows "canonical_codec (SerializePair sa sb) (UnserializePair ra rb) (\<lambda>(x, y). va x \<and> vb y)"
proof (rule canonical_codec.intro)
  show "codec (SerializePair sa sb) (UnserializePair ra rb) (\<lambda>(x, y). va x \<and> vb y)"
    using assms by (intro pair_codec) (auto dest: canonical_codec_imp_codec)
  show "canonical_codec_axioms (SerializePair sa sb) (UnserializePair ra rb) (\<lambda>(x, y). va x \<and> vb y)"
    using canonical_codec.unser_iff [OF assms(1)] canonical_codec.unser_iff [OF assms(2)]
    by unfold_locales (auto simp: UnserializePair_def SerializePair_def rbind_eq_Inr rret_apply)
qed

lemma LimitedString_roundtrip:
  assumes "length v \<le> Limit" "length v \<le> 0x02000000"
  shows "UnserializeLimitedString Limit (SerializeString v @ rest) = Inr (v, rest)"
  using assms(1) of_nat_le_MAX_SIZE [OF assms(2)]
  by (auto simp: UnserializeLimitedString_def SerializeString_def reader_simps compact_size.roundtrip)

lemma LimitedString_bound:
  "UnserializeLimitedString Limit s = Inr (v, rest) \<Longrightarrow> length v \<le> Limit"
  by (auto simp: UnserializeLimitedString_def rbind_eq_Inr reader_simps read_bytes_eq_Inr split: if_splits)

end
