(* ===== verification/Script.thy ===== *)
theory Script
  imports Serialize
begin

unbundle bit_operations_syntax

text \<open>
  The script representation of \<^verbatim>\<open>src/src/script/script.h\<close> and
  \<^verbatim>\<open>src/src/script/script.cpp\<close>: the opcode values, the number type
  \<^verbatim>\<open>CScriptNum\<close>, the construction and the parsing of scripts, and the static
  analyses (push-only, pay-to-script-hash, signature operation counts, deletion of a
  pattern). A script is its list of bytes; an iterator into it is the list of the bytes
  from the iterator to the end.
\<close>

section \<open>Opcodes\<close>

type_synonym opcodetype = byte
type_synonym valtype = bytes
type_synonym script = bytes

abbreviation (input) OP_0 :: opcodetype where "OP_0 \<equiv> 0x00"
abbreviation (input) OP_FALSE :: opcodetype where "OP_FALSE \<equiv> OP_0"
abbreviation (input) OP_PUSHDATA1 :: opcodetype where "OP_PUSHDATA1 \<equiv> 0x4c"
abbreviation (input) OP_PUSHDATA2 :: opcodetype where "OP_PUSHDATA2 \<equiv> 0x4d"
abbreviation (input) OP_PUSHDATA4 :: opcodetype where "OP_PUSHDATA4 \<equiv> 0x4e"
abbreviation (input) OP_1NEGATE :: opcodetype where "OP_1NEGATE \<equiv> 0x4f"
abbreviation (input) OP_RESERVED :: opcodetype where "OP_RESERVED \<equiv> 0x50"
abbreviation (input) OP_1 :: opcodetype where "OP_1 \<equiv> 0x51"
abbreviation (input) OP_TRUE :: opcodetype where "OP_TRUE \<equiv> OP_1"
abbreviation (input) OP_2 :: opcodetype where "OP_2 \<equiv> 0x52"
abbreviation (input) OP_3 :: opcodetype where "OP_3 \<equiv> 0x53"
abbreviation (input) OP_4 :: opcodetype where "OP_4 \<equiv> 0x54"
abbreviation (input) OP_5 :: opcodetype where "OP_5 \<equiv> 0x55"
abbreviation (input) OP_6 :: opcodetype where "OP_6 \<equiv> 0x56"
abbreviation (input) OP_7 :: opcodetype where "OP_7 \<equiv> 0x57"
abbreviation (input) OP_8 :: opcodetype where "OP_8 \<equiv> 0x58"
abbreviation (input) OP_9 :: opcodetype where "OP_9 \<equiv> 0x59"
abbreviation (input) OP_10 :: opcodetype where "OP_10 \<equiv> 0x5a"
abbreviation (input) OP_11 :: opcodetype where "OP_11 \<equiv> 0x5b"
abbreviation (input) OP_12 :: opcodetype where "OP_12 \<equiv> 0x5c"
abbreviation (input) OP_13 :: opcodetype where "OP_13 \<equiv> 0x5d"
abbreviation (input) OP_14 :: opcodetype where "OP_14 \<equiv> 0x5e"
abbreviation (input) OP_15 :: opcodetype where "OP_15 \<equiv> 0x5f"
abbreviation (input) OP_16 :: opcodetype where "OP_16 \<equiv> 0x60"
abbreviation (input) OP_NOP :: opcodetype where "OP_NOP \<equiv> 0x61"
abbreviation (input) OP_VER :: opcodetype where "OP_VER \<equiv> 0x62"
abbreviation (input) OP_IF :: opcodetype where "OP_IF \<equiv> 0x63"
abbreviation (input) OP_NOTIF :: opcodetype where "OP_NOTIF \<equiv> 0x64"
abbreviation (input) OP_VERIF :: opcodetype where "OP_VERIF \<equiv> 0x65"
abbreviation (input) OP_VERNOTIF :: opcodetype where "OP_VERNOTIF \<equiv> 0x66"
abbreviation (input) OP_ELSE :: opcodetype where "OP_ELSE \<equiv> 0x67"
abbreviation (input) OP_ENDIF :: opcodetype where "OP_ENDIF \<equiv> 0x68"
abbreviation (input) OP_VERIFY :: opcodetype where "OP_VERIFY \<equiv> 0x69"
abbreviation (input) OP_RETURN :: opcodetype where "OP_RETURN \<equiv> 0x6a"
abbreviation (input) OP_TOALTSTACK :: opcodetype where "OP_TOALTSTACK \<equiv> 0x6b"
abbreviation (input) OP_FROMALTSTACK :: opcodetype where "OP_FROMALTSTACK \<equiv> 0x6c"
abbreviation (input) OP_2DROP :: opcodetype where "OP_2DROP \<equiv> 0x6d"
abbreviation (input) OP_2DUP :: opcodetype where "OP_2DUP \<equiv> 0x6e"
abbreviation (input) OP_3DUP :: opcodetype where "OP_3DUP \<equiv> 0x6f"
abbreviation (input) OP_2OVER :: opcodetype where "OP_2OVER \<equiv> 0x70"
abbreviation (input) OP_2ROT :: opcodetype where "OP_2ROT \<equiv> 0x71"
abbreviation (input) OP_2SWAP :: opcodetype where "OP_2SWAP \<equiv> 0x72"
abbreviation (input) OP_IFDUP :: opcodetype where "OP_IFDUP \<equiv> 0x73"
abbreviation (input) OP_DEPTH :: opcodetype where "OP_DEPTH \<equiv> 0x74"
abbreviation (input) OP_DROP :: opcodetype where "OP_DROP \<equiv> 0x75"
abbreviation (input) OP_DUP :: opcodetype where "OP_DUP \<equiv> 0x76"
abbreviation (input) OP_NIP :: opcodetype where "OP_NIP \<equiv> 0x77"
abbreviation (input) OP_OVER :: opcodetype where "OP_OVER \<equiv> 0x78"
abbreviation (input) OP_PICK :: opcodetype where "OP_PICK \<equiv> 0x79"
abbreviation (input) OP_ROLL :: opcodetype where "OP_ROLL \<equiv> 0x7a"
abbreviation (input) OP_ROT :: opcodetype where "OP_ROT \<equiv> 0x7b"
abbreviation (input) OP_SWAP :: opcodetype where "OP_SWAP \<equiv> 0x7c"
abbreviation (input) OP_TUCK :: opcodetype where "OP_TUCK \<equiv> 0x7d"
abbreviation (input) OP_CAT :: opcodetype where "OP_CAT \<equiv> 0x7e"
abbreviation (input) OP_SUBSTR :: opcodetype where "OP_SUBSTR \<equiv> 0x7f"
abbreviation (input) OP_LEFT :: opcodetype where "OP_LEFT \<equiv> 0x80"
abbreviation (input) OP_RIGHT :: opcodetype where "OP_RIGHT \<equiv> 0x81"
abbreviation (input) OP_SIZE :: opcodetype where "OP_SIZE \<equiv> 0x82"
abbreviation (input) OP_INVERT :: opcodetype where "OP_INVERT \<equiv> 0x83"
abbreviation (input) OP_AND :: opcodetype where "OP_AND \<equiv> 0x84"
abbreviation (input) OP_OR :: opcodetype where "OP_OR \<equiv> 0x85"
abbreviation (input) OP_XOR :: opcodetype where "OP_XOR \<equiv> 0x86"
abbreviation (input) OP_EQUAL :: opcodetype where "OP_EQUAL \<equiv> 0x87"
abbreviation (input) OP_EQUALVERIFY :: opcodetype where "OP_EQUALVERIFY \<equiv> 0x88"
abbreviation (input) OP_RESERVED1 :: opcodetype where "OP_RESERVED1 \<equiv> 0x89"
abbreviation (input) OP_RESERVED2 :: opcodetype where "OP_RESERVED2 \<equiv> 0x8a"
abbreviation (input) OP_1ADD :: opcodetype where "OP_1ADD \<equiv> 0x8b"
abbreviation (input) OP_1SUB :: opcodetype where "OP_1SUB \<equiv> 0x8c"
abbreviation (input) OP_2MUL :: opcodetype where "OP_2MUL \<equiv> 0x8d"
abbreviation (input) OP_2DIV :: opcodetype where "OP_2DIV \<equiv> 0x8e"
abbreviation (input) OP_NEGATE :: opcodetype where "OP_NEGATE \<equiv> 0x8f"
abbreviation (input) OP_ABS :: opcodetype where "OP_ABS \<equiv> 0x90"
abbreviation (input) OP_NOT :: opcodetype where "OP_NOT \<equiv> 0x91"
abbreviation (input) OP_0NOTEQUAL :: opcodetype where "OP_0NOTEQUAL \<equiv> 0x92"
abbreviation (input) OP_ADD :: opcodetype where "OP_ADD \<equiv> 0x93"
abbreviation (input) OP_SUB :: opcodetype where "OP_SUB \<equiv> 0x94"
abbreviation (input) OP_MUL :: opcodetype where "OP_MUL \<equiv> 0x95"
abbreviation (input) OP_DIV :: opcodetype where "OP_DIV \<equiv> 0x96"
abbreviation (input) OP_MOD :: opcodetype where "OP_MOD \<equiv> 0x97"
abbreviation (input) OP_LSHIFT :: opcodetype where "OP_LSHIFT \<equiv> 0x98"
abbreviation (input) OP_RSHIFT :: opcodetype where "OP_RSHIFT \<equiv> 0x99"
abbreviation (input) OP_BOOLAND :: opcodetype where "OP_BOOLAND \<equiv> 0x9a"
abbreviation (input) OP_BOOLOR :: opcodetype where "OP_BOOLOR \<equiv> 0x9b"
abbreviation (input) OP_NUMEQUAL :: opcodetype where "OP_NUMEQUAL \<equiv> 0x9c"
abbreviation (input) OP_NUMEQUALVERIFY :: opcodetype where "OP_NUMEQUALVERIFY \<equiv> 0x9d"
abbreviation (input) OP_NUMNOTEQUAL :: opcodetype where "OP_NUMNOTEQUAL \<equiv> 0x9e"
abbreviation (input) OP_LESSTHAN :: opcodetype where "OP_LESSTHAN \<equiv> 0x9f"
abbreviation (input) OP_GREATERTHAN :: opcodetype where "OP_GREATERTHAN \<equiv> 0xa0"
abbreviation (input) OP_LESSTHANOREQUAL :: opcodetype where "OP_LESSTHANOREQUAL \<equiv> 0xa1"
abbreviation (input) OP_GREATERTHANOREQUAL :: opcodetype where "OP_GREATERTHANOREQUAL \<equiv> 0xa2"
abbreviation (input) OP_MIN :: opcodetype where "OP_MIN \<equiv> 0xa3"
abbreviation (input) OP_MAX :: opcodetype where "OP_MAX \<equiv> 0xa4"
abbreviation (input) OP_WITHIN :: opcodetype where "OP_WITHIN \<equiv> 0xa5"
abbreviation (input) OP_RIPEMD160 :: opcodetype where "OP_RIPEMD160 \<equiv> 0xa6"
abbreviation (input) OP_SHA1 :: opcodetype where "OP_SHA1 \<equiv> 0xa7"
abbreviation (input) OP_SHA256 :: opcodetype where "OP_SHA256 \<equiv> 0xa8"
abbreviation (input) OP_HASH160 :: opcodetype where "OP_HASH160 \<equiv> 0xa9"
abbreviation (input) OP_HASH256 :: opcodetype where "OP_HASH256 \<equiv> 0xaa"
abbreviation (input) OP_CODESEPARATOR :: opcodetype where "OP_CODESEPARATOR \<equiv> 0xab"
abbreviation (input) OP_CHECKSIG :: opcodetype where "OP_CHECKSIG \<equiv> 0xac"
abbreviation (input) OP_CHECKSIGVERIFY :: opcodetype where "OP_CHECKSIGVERIFY \<equiv> 0xad"
abbreviation (input) OP_CHECKMULTISIG :: opcodetype where "OP_CHECKMULTISIG \<equiv> 0xae"
abbreviation (input) OP_CHECKMULTISIGVERIFY :: opcodetype where "OP_CHECKMULTISIGVERIFY \<equiv> 0xaf"
abbreviation (input) OP_NOP1 :: opcodetype where "OP_NOP1 \<equiv> 0xb0"
abbreviation (input) OP_NOP2 :: opcodetype where "OP_NOP2 \<equiv> 0xb1"
abbreviation (input) OP_NOP3 :: opcodetype where "OP_NOP3 \<equiv> 0xb2"
abbreviation (input) OP_NOP4 :: opcodetype where "OP_NOP4 \<equiv> 0xb3"
abbreviation (input) OP_NOP5 :: opcodetype where "OP_NOP5 \<equiv> 0xb4"
abbreviation (input) OP_NOP6 :: opcodetype where "OP_NOP6 \<equiv> 0xb5"
abbreviation (input) OP_NOP7 :: opcodetype where "OP_NOP7 \<equiv> 0xb6"
abbreviation (input) OP_NOP8 :: opcodetype where "OP_NOP8 \<equiv> 0xb7"
abbreviation (input) OP_NOP9 :: opcodetype where "OP_NOP9 \<equiv> 0xb8"
abbreviation (input) OP_NOP10 :: opcodetype where "OP_NOP10 \<equiv> 0xb9"
abbreviation (input) OP_SMALLINTEGER :: opcodetype where "OP_SMALLINTEGER \<equiv> 0xfa"
abbreviation (input) OP_PUBKEYS :: opcodetype where "OP_PUBKEYS \<equiv> 0xfb"
abbreviation (input) OP_PUBKEYHASH :: opcodetype where "OP_PUBKEYHASH \<equiv> 0xfd"
abbreviation (input) OP_PUBKEY :: opcodetype where "OP_PUBKEY \<equiv> 0xfe"
abbreviation (input) OP_INVALIDOPCODE :: opcodetype where "OP_INVALIDOPCODE \<equiv> 0xff"

definition GetOpName :: "opcodetype \<Rightarrow> string" where
  "GetOpName opcode =
    (case map_of
     [(OP_0, ''0''),
      (OP_PUSHDATA1, ''OP_PUSHDATA1''),
      (OP_PUSHDATA2, ''OP_PUSHDATA2''),
      (OP_PUSHDATA4, ''OP_PUSHDATA4''),
      (OP_1NEGATE, ''-1''),
      (OP_RESERVED, ''OP_RESERVED''),
      (OP_1, ''1''),
      (OP_2, ''2''),
      (OP_3, ''3''),
      (OP_4, ''4''),
      (OP_5, ''5''),
      (OP_6, ''6''),
      (OP_7, ''7''),
      (OP_8, ''8''),
      (OP_9, ''9''),
      (OP_10, ''10''),
      (OP_11, ''11''),
      (OP_12, ''12''),
      (OP_13, ''13''),
      (OP_14, ''14''),
      (OP_15, ''15''),
      (OP_16, ''16''),
      (OP_NOP, ''OP_NOP''),
      (OP_VER, ''OP_VER''),
      (OP_IF, ''OP_IF''),
      (OP_NOTIF, ''OP_NOTIF''),
      (OP_VERIF, ''OP_VERIF''),
      (OP_VERNOTIF, ''OP_VERNOTIF''),
      (OP_ELSE, ''OP_ELSE''),
      (OP_ENDIF, ''OP_ENDIF''),
      (OP_VERIFY, ''OP_VERIFY''),
      (OP_RETURN, ''OP_RETURN''),
      (OP_TOALTSTACK, ''OP_TOALTSTACK''),
      (OP_FROMALTSTACK, ''OP_FROMALTSTACK''),
      (OP_2DROP, ''OP_2DROP''),
      (OP_2DUP, ''OP_2DUP''),
      (OP_3DUP, ''OP_3DUP''),
      (OP_2OVER, ''OP_2OVER''),
      (OP_2ROT, ''OP_2ROT''),
      (OP_2SWAP, ''OP_2SWAP''),
      (OP_IFDUP, ''OP_IFDUP''),
      (OP_DEPTH, ''OP_DEPTH''),
      (OP_DROP, ''OP_DROP''),
      (OP_DUP, ''OP_DUP''),
      (OP_NIP, ''OP_NIP''),
      (OP_OVER, ''OP_OVER''),
      (OP_PICK, ''OP_PICK''),
      (OP_ROLL, ''OP_ROLL''),
      (OP_ROT, ''OP_ROT''),
      (OP_SWAP, ''OP_SWAP''),
      (OP_TUCK, ''OP_TUCK''),
      (OP_CAT, ''OP_CAT''),
      (OP_SUBSTR, ''OP_SUBSTR''),
      (OP_LEFT, ''OP_LEFT''),
      (OP_RIGHT, ''OP_RIGHT''),
      (OP_SIZE, ''OP_SIZE''),
      (OP_INVERT, ''OP_INVERT''),
      (OP_AND, ''OP_AND''),
      (OP_OR, ''OP_OR''),
      (OP_XOR, ''OP_XOR''),
      (OP_EQUAL, ''OP_EQUAL''),
      (OP_EQUALVERIFY, ''OP_EQUALVERIFY''),
      (OP_RESERVED1, ''OP_RESERVED1''),
      (OP_RESERVED2, ''OP_RESERVED2''),
      (OP_1ADD, ''OP_1ADD''),
      (OP_1SUB, ''OP_1SUB''),
      (OP_2MUL, ''OP_2MUL''),
      (OP_2DIV, ''OP_2DIV''),
      (OP_NEGATE, ''OP_NEGATE''),
      (OP_ABS, ''OP_ABS''),
      (OP_NOT, ''OP_NOT''),
      (OP_0NOTEQUAL, ''OP_0NOTEQUAL''),
      (OP_ADD, ''OP_ADD''),
      (OP_SUB, ''OP_SUB''),
      (OP_MUL, ''OP_MUL''),
      (OP_DIV, ''OP_DIV''),
      (OP_MOD, ''OP_MOD''),
      (OP_LSHIFT, ''OP_LSHIFT''),
      (OP_RSHIFT, ''OP_RSHIFT''),
      (OP_BOOLAND, ''OP_BOOLAND''),
      (OP_BOOLOR, ''OP_BOOLOR''),
      (OP_NUMEQUAL, ''OP_NUMEQUAL''),
      (OP_NUMEQUALVERIFY, ''OP_NUMEQUALVERIFY''),
      (OP_NUMNOTEQUAL, ''OP_NUMNOTEQUAL''),
      (OP_LESSTHAN, ''OP_LESSTHAN''),
      (OP_GREATERTHAN, ''OP_GREATERTHAN''),
      (OP_LESSTHANOREQUAL, ''OP_LESSTHANOREQUAL''),
      (OP_GREATERTHANOREQUAL, ''OP_GREATERTHANOREQUAL''),
      (OP_MIN, ''OP_MIN''),
      (OP_MAX, ''OP_MAX''),
      (OP_WITHIN, ''OP_WITHIN''),
      (OP_RIPEMD160, ''OP_RIPEMD160''),
      (OP_SHA1, ''OP_SHA1''),
      (OP_SHA256, ''OP_SHA256''),
      (OP_HASH160, ''OP_HASH160''),
      (OP_HASH256, ''OP_HASH256''),
      (OP_CODESEPARATOR, ''OP_CODESEPARATOR''),
      (OP_CHECKSIG, ''OP_CHECKSIG''),
      (OP_CHECKSIGVERIFY, ''OP_CHECKSIGVERIFY''),
      (OP_CHECKMULTISIG, ''OP_CHECKMULTISIG''),
      (OP_CHECKMULTISIGVERIFY, ''OP_CHECKMULTISIGVERIFY''),
      (OP_NOP1, ''OP_NOP1''),
      (OP_NOP2, ''OP_NOP2''),
      (OP_NOP3, ''OP_NOP3''),
      (OP_NOP4, ''OP_NOP4''),
      (OP_NOP5, ''OP_NOP5''),
      (OP_NOP6, ''OP_NOP6''),
      (OP_NOP7, ''OP_NOP7''),
      (OP_NOP8, ''OP_NOP8''),
      (OP_NOP9, ''OP_NOP9''),
      (OP_NOP10, ''OP_NOP10''),
      (OP_INVALIDOPCODE, ''OP_INVALIDOPCODE'')] opcode of
       Some name \<Rightarrow> name | None \<Rightarrow> ''OP_UNKNOWN'')"

definition MAX_SCRIPT_ELEMENT_SIZE :: nat where
  "MAX_SCRIPT_ELEMENT_SIZE = 520"

section \<open>Script numbers\<close>

text \<open>
  A \<^verbatim>\<open>CScriptNum\<close> is its \<open>m_value\<close>, an integer within the 64-bit range. The
  constructor from bytes throws \<^verbatim>\<open>scriptnum_error\<close>. The loop of
  \<^verbatim>\<open>serialize\<close> takes the bytes of the absolute value (\<^verbatim>\<open>& 0xff\<close>,
  \<^verbatim>\<open>>>= 8\<close>) from the least significant one.
\<close>

datatype scriptnum_error = NumOverflow | NumNotMinimal

definition nMaxNumSize :: nat where
  "nMaxNumSize = 4"

fun num_bytes :: "nat \<Rightarrow> bytes" where
  "num_bytes absvalue =
     (if absvalue = 0 then [] else of_nat (absvalue mod 256) # num_bytes (absvalue div 256))"

declare num_bytes.simps [simp del]

definition scriptnum_serialize :: "int \<Rightarrow> bytes" where
  "scriptnum_serialize nval =
     (if nval = 0 then []
      else
        let neg = nval < 0;
            result = num_bytes (nat (if neg then - nval else nval))
        in if last result AND 0x80 \<noteq> 0 then result @ [if neg then 0x80 else 0]
           else if neg then butlast result @ [last result OR 0x80]
           else result)"

fun set_vch_loop :: "nat \<Rightarrow> bytes \<Rightarrow> int \<Rightarrow> int" where
  "set_vch_loop i [] result = result"
| "set_vch_loop i (b # vch) result = set_vch_loop (Suc i) vch (result OR push_bit (8 * i) (uint b))"

definition set_vch :: "bytes \<Rightarrow> int" where
  "set_vch vch =
     (if vch = [] then 0
      else
        let result = set_vch_loop 0 vch 0
        in if last vch AND 0x80 \<noteq> 0
           then - (result AND NOT (push_bit (8 * (length vch - 1)) 0x80))
           else result)"

definition CScriptNum :: "bytes \<Rightarrow> bool \<Rightarrow> scriptnum_error + int" where
  "CScriptNum vch fRequireMinimal =
     (if length vch > nMaxNumSize then Inl NumOverflow
      else if fRequireMinimal \<and> length vch > 0 \<and> last vch AND 0x7f = 0 \<and>
              (length vch \<le> 1 \<or> (vch ! (length vch - 2)) AND 0x80 = 0)
      then Inl NumNotMinimal
      else Inr (set_vch vch))"

definition scriptnum_getint :: "int \<Rightarrow> int" where
  "scriptnum_getint m_value =
     (if m_value > 2 ^ 31 - 1 then 2 ^ 31 - 1
      else if m_value < - (2 ^ 31) then - (2 ^ 31)
      else m_value)"

section \<open>Building scripts\<close>

text \<open>\<^verbatim>\<open>operator<<\<close> for an opcode, a byte vector and an integer: what each appends.\<close>

definition push_opcode :: "opcodetype \<Rightarrow> script" where
  "push_opcode opcode = [opcode]"

definition push_vch :: "bytes \<Rightarrow> script" where
  "push_vch b =
     (if length b < 0x4c then [of_nat (length b)] @ b
      else if length b \<le> 0xff then [OP_PUSHDATA1, of_nat (length b)] @ b
      else if length b \<le> 0xffff then [OP_PUSHDATA2] @ le_bytes 2 (length b) @ b
      else [OP_PUSHDATA4] @ le_bytes 4 (length b) @ b)"

definition push_int64 :: "int \<Rightarrow> script" where
  "push_int64 n =
     (if n = -1 \<or> (n \<ge> 1 \<and> n \<le> 16) then [of_int (n + (uint OP_1 - 1))]
      else if n = 0 then [OP_0]
      else push_vch (scriptnum_serialize n))"

text \<open>The \<open>assert\<close>s of the two conversions are the \<open>None\<close> case.\<close>

definition DecodeOP_N :: "opcodetype \<Rightarrow> nat option" where
  "DecodeOP_N opcode =
     (if opcode = OP_0 then Some 0
      else if opcode \<ge> OP_1 \<and> opcode \<le> OP_16 then Some (unat opcode - (0x51 - 1))
      else None)"

definition EncodeOP_N :: "int \<Rightarrow> opcodetype option" where
  "EncodeOP_N n =
     (if n \<ge> 0 \<and> n \<le> 16 then Some (if n = 0 then OP_0 else of_int (uint OP_1 + n - 1)) else None)"

section \<open>Parsing scripts\<close>

text \<open>
  \<^verbatim>\<open>GetOp2\<close>: the result, the opcode, the pushed data and the iterator afterwards,
  also when the read fails.
\<close>

definition getop_fail :: "bytes \<Rightarrow> bool \<times> opcodetype \<times> bytes \<times> bytes" where
  "getop_fail pc = (False, OP_INVALIDOPCODE, [], pc)"

definition getop_data :: "opcodetype \<Rightarrow> nat \<Rightarrow> bytes \<Rightarrow> bool \<times> opcodetype \<times> bytes \<times> bytes" where
  "getop_data opcode nSize pc =
     (if length pc < nSize then getop_fail pc else (True, opcode, take nSize pc, drop nSize pc))"

definition GetOp2 :: "bytes \<Rightarrow> bool \<times> opcodetype \<times> bytes \<times> bytes" where
  "GetOp2 pc0 =
    (case pc0 of
       [] \<Rightarrow> getop_fail []
     | opcode # pc \<Rightarrow>
        if opcode \<le> OP_PUSHDATA4 then
          if opcode < OP_PUSHDATA1 then getop_data opcode (unat opcode) pc
          else if opcode = OP_PUSHDATA1 then
            if length pc < 1 then getop_fail pc
            else getop_data opcode (unat (hd pc)) (drop 1 pc)
          else if opcode = OP_PUSHDATA2 then
            if length pc < 2 then getop_fail pc
            else getop_data opcode (le_nat (take 2 pc)) (drop 2 pc)
          else
            if length pc < 4 then getop_fail pc
            else getop_data opcode (le_nat (take 4 pc)) (drop 4 pc)
        else (True, opcode, [], pc))"

definition GetOp :: "bytes \<Rightarrow> (opcodetype \<times> bytes \<times> bytes) option" where
  "GetOp pc = (case GetOp2 pc of (fRet, opcode, vch, pc') \<Rightarrow> if fRet then Some (opcode, vch, pc') else None)"

lemma GetOp2_shrinks: "GetOp2 pc = (fRet, opcode, vch, pc') \<Longrightarrow> pc \<noteq> [] \<Longrightarrow> length pc' < length pc"
  by (auto simp: GetOp2_def getop_fail_def getop_data_def split: list.splits if_splits)

lemma GetOp_shrinks: "GetOp pc = Some (opcode, vch, pc') \<Longrightarrow> length pc' < length pc"
proof -
  assume a: "GetOp pc = Some (opcode, vch, pc')"
  then have "GetOp2 pc = (True, opcode, vch, pc')"
    by (auto simp: GetOp_def split: prod.splits if_splits)
  moreover have "pc \<noteq> []" using a by (auto simp: GetOp_def GetOp2_def getop_fail_def)
  ultimately show ?thesis by (rule GetOp2_shrinks)
qed

lemma GetOp_Nil [simp]: "GetOp [] = None"
  by (simp add: GetOp_def GetOp2_def getop_fail_def)

section \<open>Static analyses\<close>

text \<open>\<^verbatim>\<open>IsPushOnly(pc)\<close>.\<close>

function IsPushOnly :: "bytes \<Rightarrow> bool" where
  "IsPushOnly pc =
     (if pc = [] then True
      else case GetOp pc of
             None \<Rightarrow> False
           | Some (opcode, _, pc') \<Rightarrow> if opcode > OP_16 then False else IsPushOnly pc')"
  by pat_completeness auto
termination by (relation "measure length") (auto dest: GetOp_shrinks)

definition IsPayToScriptHash :: "script \<Rightarrow> bool" where
  "IsPayToScriptHash s \<longleftrightarrow>
     length s = 23 \<and> s ! 0 = OP_HASH160 \<and> s ! 1 = 0x14 \<and> s ! 22 = OP_EQUAL"

definition IsUnspendable :: "script \<Rightarrow> bool" where
  "IsUnspendable s \<longleftrightarrow> length s > 0 \<and> hd s = OP_RETURN"

text \<open>The loop of \<^verbatim>\<open>IsNormalPaymentScript\<close> ignores the result of \<^verbatim>\<open>GetOp\<close>.\<close>

function normal_payment_loop :: "nat \<Rightarrow> bytes \<Rightarrow> bool" where
  "normal_payment_loop i pc =
     (if pc = [] then True
      else case GetOp2 pc of (_, opcode, _, pc') \<Rightarrow>
        if i = 0 \<and> opcode \<noteq> OP_DUP then False
        else if i = 1 \<and> opcode \<noteq> OP_HASH160 then False
        else if i = 3 \<and> opcode \<noteq> OP_EQUALVERIFY then False
        else if i = 4 \<and> opcode \<noteq> OP_CHECKSIG then False
        else if i = 5 then False
        else normal_payment_loop (Suc i) pc')"
  by pat_completeness auto
termination
  by (relation "measure (\<lambda>(i, pc). length pc)") (auto dest: GetOp2_shrinks [OF sym])

definition IsNormalPaymentScript :: "script \<Rightarrow> bool" where
  "IsNormalPaymentScript s = (if length s \<noteq> 25 then False else normal_payment_loop 0 s)"

text \<open>Signature operation counts (\<^verbatim>\<open>unsigned int\<close>; scripts are far below the width).\<close>

function sigops_loop :: "bool \<Rightarrow> opcodetype \<Rightarrow> bytes \<Rightarrow> nat" where
  "sigops_loop fAccurate lastOpcode pc =
     (case GetOp pc of
        None \<Rightarrow> 0
      | Some (opcode, _, pc') \<Rightarrow>
          (if opcode = OP_CHECKSIG \<or> opcode = OP_CHECKSIGVERIFY then 1
           else if opcode = OP_CHECKMULTISIG \<or> opcode = OP_CHECKMULTISIGVERIFY then
             if fAccurate \<and> lastOpcode \<ge> OP_1 \<and> lastOpcode \<le> OP_16
             then the (DecodeOP_N lastOpcode) else 20
           else 0) + sigops_loop fAccurate opcode pc')"
  by pat_completeness auto
termination
  by (relation "measure (\<lambda>(_, _, pc). length pc)") (auto dest: GetOp_shrinks)

definition GetSigOpCount :: "script \<Rightarrow> bool \<Rightarrow> nat" where
  "GetSigOpCount s fAccurate = sigops_loop fAccurate OP_INVALIDOPCODE s"

text \<open>The loop over \<open>scriptSig\<close>: \<open>None\<close> stands for the two early \<^verbatim>\<open>return 0\<close>.\<close>

function last_push :: "bytes \<Rightarrow> bytes \<Rightarrow> bytes option" where
  "last_push pc data =
     (if pc = [] then Some data
      else case GetOp pc of
             None \<Rightarrow> None
           | Some (opcode, data', pc') \<Rightarrow> if opcode > OP_16 then None else last_push pc' data')"
  by pat_completeness auto
termination by (relation "measure (\<lambda>(pc, _). length pc)") (auto dest: GetOp_shrinks)

definition GetSigOpCount_P2SH :: "script \<Rightarrow> script \<Rightarrow> nat" where
  "GetSigOpCount_P2SH s scriptSig =
     (if \<not> IsPayToScriptHash s then GetSigOpCount s True
      else case last_push scriptSig [] of
             None \<Rightarrow> 0
           | Some data \<Rightarrow> GetSigOpCount data True)"

text \<open>
  \<^verbatim>\<open>FindAndDelete\<close>: the inner loop erases the pattern as long as it stands at the
  iterator, the outer one steps over one instruction. The result is the number found and
  the remaining script.
\<close>

function erase_at :: "script \<Rightarrow> bytes \<Rightarrow> nat \<times> bytes" where
  "erase_at b pc =
     (if b \<noteq> [] \<and> length pc \<ge> length b \<and> take (length b) pc = b
      then (case erase_at b (drop (length b) pc) of (k, pc') \<Rightarrow> (Suc k, pc'))
      else (0, pc))"
  by pat_completeness auto
termination
  by (relation "measure (\<lambda>(_, pc). length pc)")
     (simp, simp, metis diff_less length_greater_0_conv order_less_le_trans)

declare IsPushOnly.simps [simp del] normal_payment_loop.simps [simp del] sigops_loop.simps [simp del]
  last_push.simps [simp del] erase_at.simps [simp del]

lemma erase_at_length: "erase_at b pc = (k, pc') \<Longrightarrow> length pc' \<le> length pc"
proof (induction b pc arbitrary: k pc' rule: erase_at.induct)
  case (1 b pc)
  then show ?case
    by (subst (asm) erase_at.simps) (fastforce split: if_splits prod.splits)
qed

function find_and_delete_loop :: "script \<Rightarrow> bytes \<Rightarrow> nat \<times> bytes" where
  "find_and_delete_loop b pc =
     (case erase_at b pc of (k, pc1) \<Rightarrow>
        case GetOp pc1 of
          None \<Rightarrow> (k, pc1)
        | Some (_, _, pc2) \<Rightarrow>
            (case find_and_delete_loop b pc2 of (k', rest) \<Rightarrow>
               (k + k', take (length pc1 - length pc2) pc1 @ rest)))"
  by pat_completeness auto
termination
  by (relation "measure (\<lambda>(_, pc). length pc)")
     (auto dest!: GetOp_shrinks erase_at_length [OF sym])

declare find_and_delete_loop.simps [simp del]

definition FindAndDelete :: "script \<Rightarrow> script \<Rightarrow> nat \<times> script" where
  "FindAndDelete s b = (if b = [] then (0, s) else find_and_delete_loop b s)"

function Find_loop :: "opcodetype \<Rightarrow> bytes \<Rightarrow> nat" where
  "Find_loop op pc =
     (case GetOp pc of
        None \<Rightarrow> 0
      | Some (opcode, _, pc') \<Rightarrow> (if opcode = op then 1 else 0) + Find_loop op pc')"
  by pat_completeness auto
termination by (relation "measure (\<lambda>(_, pc). length pc)") (auto dest: GetOp_shrinks)

declare Find_loop.simps [simp del]

definition Find :: "script \<Rightarrow> opcodetype \<Rightarrow> nat" where
  "Find s op = Find_loop op s"

section \<open>Script numbers: values, bounds, minimal encodings\<close>

lemma set_vch_loop_eq:
  "0 \<le> r \<Longrightarrow> r < 2 ^ (8 * i) \<Longrightarrow> set_vch_loop i vch r = r + 2 ^ (8 * i) * int (le_nat vch)"
proof (induction vch arbitrary: i r)
  case (Cons b vch)
  have u: "uint b = int (unat b)" by simp
  have b: "unat b < 256" by (rule unat_byte_less)
  have r: "r OR push_bit (8 * i) (uint b) = r + uint b * 2 ^ (8 * i)"
    using Cons.prems by (rule int_or_disjoint)
  have "uint b \<le> 255" using b u by linarith
  then have "uint b * 2 ^ (8 * i) \<le> 255 * 2 ^ (8 * i)"
    by (rule mult_right_mono) simp
  moreover have "(2 :: int) ^ (8 * Suc i) = 256 * 2 ^ (8 * i)" by (simp add: power_add)
  ultimately have "r + uint b * 2 ^ (8 * i) < 2 ^ (8 * Suc i)"
    using Cons.prems by linarith
  then have "set_vch_loop (Suc i) vch (r + uint b * 2 ^ (8 * i)) =
      r + uint b * 2 ^ (8 * i) + 2 ^ (8 * Suc i) * int (le_nat vch)"
    using Cons.prems by (intro Cons.IH) simp_all
  then show ?case by (simp only: set_vch_loop.simps r) (simp add: power_add algebra_simps)
qed simp

lemma le_nat_append: "le_nat (xs @ ys) = le_nat xs + 256 ^ length xs * le_nat ys"
  by (induction xs) (simp_all add: algebra_simps)

lemma le_nat_snoc: "v \<noteq> [] \<Longrightarrow>
    le_nat v = le_nat (butlast v) + 256 ^ (length v - 1) * unat (last v)"
  using le_nat_append [of "butlast v" "[last v]"] by simp

lemma set_vch_nonneg: "v = [] \<or> unat (last v) < 128 \<Longrightarrow> set_vch v = int (le_nat v)"
  using set_vch_loop_eq [of 0 0 v] by (auto simp: set_vch_def Let_def byte_and_0x80)

lemma bit_128: "bit (128 :: int) m \<longleftrightarrow> m = 7"
  using bit_exp_iff [where 'a = int, of 7 m] by auto

lemma set_vch_neg:
  assumes v: "v \<noteq> []" and l: "128 \<le> unat (last v)"
  shows "set_vch v = - int (le_nat v - 128 * 256 ^ (length v - 1))"
proof -
  let ?k = "8 * (length v - 1)"
  let ?lo = "int (le_nat (butlast v))"
  have p: "(256::int) ^ (length v - 1) = 2 ^ ?k" by (simp add: power_mult)
  have "le_nat (butlast v) < 256 ^ (length v - 1)" using le_nat_less [of "butlast v"] by simp
  then have lo: "?lo < 2 ^ ?k" using p by (metis of_nat_less_iff of_nat_numeral of_nat_power)
  have r: "int (le_nat v) = ?lo OR push_bit ?k (uint (last v))"
    using lo int_or_disjoint [of ?lo ?k "uint (last v)"] le_nat_snoc [OF v] p by (simp add: algebra_simps)
  have "bit (last v) 7" using l by (simp add: byte_bit7)
  then have "int (le_nat v) AND push_bit ?k 0x80 = push_bit ?k 0x80"
    unfolding r by (intro bit_eqI) (auto simp: bit_simps bit_128)
  then have a: "int (le_nat v) AND NOT (push_bit ?k 0x80) = int (le_nat v) - push_bit ?k 0x80"
    by (rule int_and_not)
  have "128 * 256 ^ (length v - 1) \<le> le_nat v"
    using l le_nat_snoc [OF v] by (metis mult.commute mult_le_mono2 trans_le_add2)
  then show ?thesis
    using a set_vch_loop_eq [of 0 0 v] v l p
    by (simp add: set_vch_def Let_def byte_and_0x80 push_bit_eq_mult of_nat_diff)
qed

lemma num_bytes_0 [simp]: "num_bytes 0 = []"
  by (simp add: num_bytes.simps)

lemma num_bytes_pos: "0 < n \<Longrightarrow> num_bytes n = of_nat (n mod 256) # num_bytes (n div 256)"
  by (subst num_bytes.simps) simp

lemma num_bytes_eq_Nil [simp]: "num_bytes n = [] \<longleftrightarrow> n = 0"
  by (cases "n = 0") (simp_all add: num_bytes_pos)

lemma le_nat_num_bytes [simp]: "le_nat (num_bytes n) = n"
  by (induction n rule: num_bytes.induct) (subst num_bytes.simps, simp add: unat_byte_of_nat)

lemma last_num_bytes: "0 < n \<Longrightarrow> 0 < unat (last (num_bytes n))"
proof (induction n rule: num_bytes.induct)
  case (1 n)
  show ?case
  proof (cases "n div 256 = 0")
    case True
    then have "n < 256" by (simp add: div_eq_0_iff)
    with True "1.prems" show ?thesis by (simp add: num_bytes_pos unat_byte_of_nat)
  next
    case False
    with "1" show ?thesis by (simp add: num_bytes_pos)
  qed
qed

lemma num_bytes_le_nat: "v \<noteq> [] \<Longrightarrow> 0 < unat (last v) \<Longrightarrow> num_bytes (le_nat v) = v"
proof (induction v)
  case (Cons b v)
  have b: "unat b < 256" by (rule unat_byte_less)
  show ?case
  proof (cases "v = []")
    case True
    with Cons.prems b show ?thesis by (simp add: num_bytes_pos)
  next
    case False
    with Cons.prems Cons.IH have IH: "num_bytes (le_nat v) = v" by simp
    then have "0 < le_nat v" using False by (metis gr0I num_bytes_0)
    moreover have "(unat b + 256 * le_nat v) mod 256 = unat b" "(unat b + 256 * le_nat v) div 256 = le_nat v"
      using b by simp_all
    ultimately show ?thesis using IH by (simp add: num_bytes_pos)
  qed
qed simp

lemma length_num_bytes: "n < 256 ^ k \<Longrightarrow> length (num_bytes n) \<le> k"
proof (induction k arbitrary: n)
  case (Suc k)
  then have "n div 256 < 256 ^ k" by (simp add: less_mult_imp_div_less mult.commute)
  with Suc.IH show ?case by (cases "n = 0") (simp_all add: num_bytes_pos)
qed simp

text \<open>The serialization of a non-zero value, by sign and top bit.\<close>

lemma scriptnum_serialize_cases:
  assumes "nval \<noteq> 0"
  defines "r \<equiv> num_bytes (nat \<bar>nval\<bar>)"
  obtains
    (high) "128 \<le> unat (last r)" "scriptnum_serialize nval = r @ [if nval < 0 then 0x80 else 0]"
  | (pos) "unat (last r) < 128" "nval > 0" "scriptnum_serialize nval = r"
  | (neg) "unat (last r) < 128" "nval < 0" "scriptnum_serialize nval = butlast r @ [last r OR 0x80]"
proof -
  have "nat (if nval < 0 then - nval else nval) = nat \<bar>nval\<bar>" by simp
  then show ?thesis
    using assms that
    by (cases "128 \<le> unat (last r)"; cases "nval < 0")
       (auto simp: scriptnum_serialize_def Let_def byte_and_0x80)
qed

lemma set_vch_serialize: "set_vch (scriptnum_serialize nval) = nval"
proof (cases "nval = 0")
  case True
  then show ?thesis by (simp add: scriptnum_serialize_def set_vch_def)
next
  case False
  let ?r = "num_bytes (nat \<bar>nval\<bar>)"
  have r: "?r \<noteq> []" using False by simp
  from False show ?thesis
  proof (cases rule: scriptnum_serialize_cases)
    case high
    then show ?thesis
      using set_vch_neg [of "?r @ [0x80]"] set_vch_nonneg [of "?r @ [0]"]
      by (auto simp: le_nat_append)
  next
    case pos
    then show ?thesis using set_vch_nonneg [of ?r] by simp
  next
    case neg
    let ?v = "butlast ?r @ [last ?r OR 0x80]"
    have l: "unat (last ?r OR 0x80) = unat (last ?r) + 128" using neg(1) by (rule byte_or_0x80)
    have "le_nat ?v - 128 * 256 ^ (length ?v - 1) = le_nat ?r"
      using le_nat_snoc [OF r] by (simp add: le_nat_append l algebra_simps)
    then show ?thesis using neg set_vch_neg [of ?v] l by simp
  qed
qed

lemma length_scriptnum_serialize:
  assumes "\<bar>nval\<bar> < 128 * 256 ^ k"
  shows "length (scriptnum_serialize nval) \<le> Suc k"
proof (cases "nval = 0")
  case False
  let ?r = "num_bytes (nat \<bar>nval\<bar>)"
  have r: "?r \<noteq> []" using False by simp
  have m: "nat \<bar>nval\<bar> < 128 * 256 ^ k" using assms by (simp add: nat_less_iff)
  then have len: "length ?r \<le> Suc k" by (intro length_num_bytes) simp
  have top: "length ?r \<le> k" if "128 \<le> unat (last ?r)"
  proof (rule ccontr)
    assume "\<not> length ?r \<le> k"
    with len have k: "length ?r - 1 = k" by simp
    have "128 * 256 ^ k \<le> le_nat ?r"
      using le_nat_snoc [OF r] that unfolding k by (metis mult.commute mult_le_mono2 trans_le_add2)
    with m show False by simp
  qed
  from False show ?thesis
    by (cases rule: scriptnum_serialize_cases) (use len top r in simp_all)
qed (simp add: scriptnum_serialize_def)

lemma CScriptNum_serialize:
  assumes "\<bar>nval\<bar> < 2 ^ 31"
  shows "CScriptNum (scriptnum_serialize nval) f = Inr nval"
proof -
  let ?v = "scriptnum_serialize nval"
  have len: "length ?v \<le> 4" using length_scriptnum_serialize [of nval 3] assms by simp
  have "\<not> (length ?v > 0 \<and> last ?v AND 0x7f = 0 \<and> (length ?v \<le> 1 \<or> (?v ! (length ?v - 2)) AND 0x80 = 0))"
  proof (cases "nval = 0")
    case True
    then show ?thesis by (simp add: scriptnum_serialize_def)
  next
    case False
    let ?r = "num_bytes (nat \<bar>nval\<bar>)"
    have r: "?r \<noteq> []" "0 < unat (last ?r)" using False by (simp_all add: last_num_bytes)
    have z: "b AND 0x7f = 0 \<longleftrightarrow> unat b mod 128 = 0" for b :: byte
      using byte_and_0x7f [of b] by (metis unat_0 word_unat_eq_iff)
    from False show ?thesis
    proof (cases rule: scriptnum_serialize_cases)
      case high
      have "(?r @ [x]) ! (length (?r @ [x]) - 2) = last ?r" for x
        using r(1) by (simp add: nth_append last_conv_nth)
      with high r show ?thesis by (simp add: byte_and_0x80)
    next
      case pos
      with r show ?thesis by (simp add: z)
    next
      case neg
      with r show ?thesis by (simp add: z byte_or_0x80)
    qed
  qed
  then show ?thesis using len by (auto simp: CScriptNum_def nMaxNumSize_def set_vch_serialize)
qed

lemma scriptnum_serialize_pos:
  "0 < m \<Longrightarrow> scriptnum_serialize (int m) =
     (if 128 \<le> unat (last (num_bytes m)) then num_bytes m @ [0] else num_bytes m)"
  by (simp add: scriptnum_serialize_def Let_def byte_and_0x80)

lemma scriptnum_serialize_minus:
  "0 < m \<Longrightarrow> scriptnum_serialize (- int m) =
     (if 128 \<le> unat (last (num_bytes m)) then num_bytes m @ [0x80]
      else butlast (num_bytes m) @ [last (num_bytes m) OR 0x80])"
  by (simp add: scriptnum_serialize_def Let_def byte_and_0x80)

lemma le_nat_pos: "v \<noteq> [] \<Longrightarrow> 0 < unat (last v) \<Longrightarrow> 0 < le_nat v"
  using num_bytes_le_nat [of v] by (metis gr0I num_bytes_0)

text \<open>A minimally encoded number is the serialization of its value.\<close>

lemma serialize_CScriptNum:
  assumes "CScriptNum v True = Inr n"
  shows "scriptnum_serialize n = v"
proof (cases v rule: rev_cases)
  case Nil
  then show ?thesis using assms by (simp add: CScriptNum_def set_vch_def scriptnum_serialize_def)
next
  case (snoc w l)
  have n: "n = set_vch v" and
    min: "unat l mod 128 = 0 \<Longrightarrow> w \<noteq> [] \<and> 128 \<le> unat (last w)"
  proof -
    have z: "l AND 0x7f = 0 \<longleftrightarrow> unat l mod 128 = 0"
      using byte_and_0x7f [of l] by (metis unat_0 word_unat_eq_iff)
    show "n = set_vch v" using assms by (auto simp: CScriptNum_def split: if_splits)
    assume "unat l mod 128 = 0"
    then have "length v > 1 \<and> (v ! (length v - 2)) AND 0x80 \<noteq> 0"
      using assms snoc z by (auto simp: CScriptNum_def split: if_splits)
    then show "w \<noteq> [] \<and> 128 \<le> unat (last w)"
      using snoc by (auto simp: nth_append last_conv_nth byte_and_0x80 split: if_splits)
  qed
  have l: "unat l < 256" by (rule unat_byte_less)
  show ?thesis
  proof (cases "unat l < 128")
    case True
    then have n': "n = int (le_nat v)" using n snoc set_vch_nonneg by auto
    show ?thesis
    proof (cases "unat l = 0")
      case True
      then have "l = 0" by (simp add: unat_eq_zero)
      then have "n = int (le_nat w)" using n' snoc by (simp add: le_nat_append)
      moreover have "w \<noteq> []" "128 \<le> unat (last w)" using min True by simp_all
      ultimately show ?thesis
        using snoc \<open>l = 0\<close> le_nat_pos [of w] num_bytes_le_nat [of w] by (simp add: scriptnum_serialize_pos)
    next
      case False
      then show ?thesis
        using n' snoc \<open>unat l < 128\<close> le_nat_pos [of v] num_bytes_le_nat [of v]
        by (simp add: scriptnum_serialize_pos)
    qed
  next
    case False
    let ?l = "l AND 0x7f"
    have ul: "unat ?l = unat l - 128" using False l byte_and_0x7f [of l] by (simp add: mod_if)
    have lo: "?l OR 0x80 = l" using False ul l by (simp add: word_unat_eq_iff byte_or_0x80)
    have n': "n = - int (le_nat (w @ [?l]))"
      using n snoc False set_vch_neg [of v] ul by (simp add: le_nat_append algebra_simps)
    show ?thesis
    proof (cases "unat l = 128")
      case True
      then have "l = 0x80" "unat ?l = 0" using ul by (simp_all add: word_unat_eq_iff)
      moreover have "w \<noteq> []" "128 \<le> unat (last w)" using min True by simp_all
      ultimately show ?thesis
        using n' snoc le_nat_pos [of w] num_bytes_le_nat [of w]
        by (simp add: scriptnum_serialize_minus le_nat_append)
    next
      case F: False
      then have "0 < unat ?l" "unat ?l < 128" using ul False l by simp_all
      then show ?thesis
        using n' snoc lo le_nat_pos [of "w @ [?l]"] num_bytes_le_nat [of "w @ [?l]"]
        by (simp add: scriptnum_serialize_minus)
    qed
  qed
qed

lemma CScriptNum_bound:
  assumes "CScriptNum v f = Inr n"
  shows "\<bar>n\<bar> < 2 ^ 31"
proof -
  have len: "length v \<le> 4" and n: "n = set_vch v"
    using assms by (auto simp: CScriptNum_def nMaxNumSize_def split: if_splits)
  have pow: "256 ^ (length v - 1) \<le> (256 :: nat) ^ 3" using len by (intro power_increasing) auto
  have low: "le_nat (butlast v) < 256 ^ (length v - 1)" using le_nat_less [of "butlast v"] by simp
  show ?thesis
  proof (cases "v = []")
    case True
    then show ?thesis using n by (simp add: set_vch_def)
  next
    case False
    note sn = le_nat_snoc [OF False]
    show ?thesis
    proof (cases "unat (last v) < 128")
      case True
      then have "le_nat v < 256 ^ (length v - 1) * 128"
        using radix_less [OF low] sn by simp
      also have "\<dots> \<le> 256 ^ 3 * 128" using pow by simp
      finally show ?thesis using n True set_vch_nonneg [of v] by simp
    next
      case F: False
      have "le_nat v < 256 ^ (length v - 1) * 256"
        using radix_less [OF low unat_byte_less [of "last v"]] sn by simp
      then have "le_nat v - 128 * 256 ^ (length v - 1) < 256 ^ (length v - 1) * 128"
        using F sn mult_le_mono2 [of 128 "unat (last v)" "256 ^ (length v - 1)"] by linarith
      also have "\<dots> \<le> 256 ^ 3 * 128" using pow by simp
      finally show ?thesis using n F set_vch_neg [OF False] by simp
    qed
  qed
qed

section \<open>Pushes and instructions\<close>

lemma GetOp_eq_Some:
  "GetOp pc = Some (opcode, vch, pc') \<longleftrightarrow> GetOp2 pc = (True, opcode, vch, pc')"
  by (auto simp: GetOp_def split: prod.splits)

lemma GetOp_opcode: "opcode > OP_PUSHDATA4 \<Longrightarrow> GetOp (opcode # pc) = Some (opcode, [], pc)"
  by (subst GetOp_def, subst GetOp2_def) (simp flip: not_le)

lemma GetOp_push_vch:
  assumes "length b < 2 ^ 32"
  shows "\<exists>opcode. opcode \<le> OP_PUSHDATA4 \<and> GetOp (push_vch b @ rest) = Some (opcode, b, rest)"
proof -
  consider "length b < 0x4c" | "0x4c \<le> length b" "length b \<le> 0xff"
    | "0xff < length b" "length b \<le> 0xffff" | "0xffff < length b" by linarith
  then show ?thesis
  proof cases
    case 1
    then have u: "unat (of_nat (length b) :: byte) = length b" by (simp add: unat_of_nat)
    then have "(of_nat (length b) :: byte) < 0x4c" "(of_nat (length b) :: byte) \<le> 0x4e"
      using 1 by (simp_all add: unat_cmp)
    then show ?thesis
      using 1 u by (simp add: push_vch_def GetOp_def GetOp2_def getop_data_def)
  next
    case 2
    then show ?thesis
      by (simp add: push_vch_def GetOp_def GetOp2_def getop_data_def unat_of_nat)
  next
    case 3
    then show ?thesis
      by (simp add: push_vch_def GetOp_def GetOp2_def getop_data_def le_simps)
  next
    case 4
    then show ?thesis
      using assms by (simp add: push_vch_def GetOp_def GetOp2_def getop_data_def le_simps)
  qed
qed

lemma getop_data_append:
  "getop_data opcode n pc = (True, oc, vch, pc') \<Longrightarrow> oc = opcode \<and> pc = vch @ pc' \<and> length vch = n"
  by (auto simp: getop_data_def getop_fail_def split: if_splits)

text \<open>An instruction is a prefix of the script, and its data are the bytes that end it.\<close>

lemma GetOp_prefix:
  assumes "GetOp pc = Some (opcode, vch, pc')"
  shows "\<exists>hdr. pc = hdr @ vch @ pc' \<and> hdr \<noteq> [] \<and> hd hdr = opcode \<and> length hdr \<le> 5"
proof -
  from assms have g: "GetOp2 pc = (True, opcode, vch, pc')" by (simp add: GetOp_eq_Some)
  then obtain oc s where pc: "pc = oc # s"
    by (cases pc) (auto simp: GetOp2_def getop_fail_def)
  have data: "\<exists>hdr. pc = hdr @ vch @ pc' \<and> hdr \<noteq> [] \<and> hd hdr = opcode \<and> length hdr \<le> 5"
    if "getop_data oc n (drop k s) = (True, opcode, vch, pc')" "k \<le> length s" "k \<le> 4" for n k
    using getop_data_append [OF that(1)] that(2,3) pc append_take_drop_id [of k s]
    by (intro exI [of _ "oc # take k s"]) auto
  show ?thesis
    using g pc data [of _ 0] data [of _ 1] data [of _ 2] data [of _ 4]
    by (auto simp: GetOp2_def getop_fail_def Suc_le_eq split: if_splits)
qed

end
