(* ===== verification/Transaction.thy ===== *)
theory Transaction
  imports Script
begin

text \<open>
  Transactions (\<^verbatim>\<open>src/src/primitives/transaction.h\<close>, \<^verbatim>\<open>transaction.cpp\<close>): the data, their
  wire format, the classification into coinbase, coinstake and ordinary transactions, and
  the sum of the outputs. The fields \<^verbatim>\<open>prevPubKey\<close> and \<^verbatim>\<open>nRounds\<close> are wallet
  annotations that are never serialized; they are left out. A \<^verbatim>\<open>CAmount\<close> is an integer in
  the range of \<^verbatim>\<open>int64_t\<close>; arithmetic on it wraps with \<open>wrap64\<close>.
\<close>

section \<open>Data\<close>

record COutPoint =
  outpoint_hash :: uint256
  outpoint_n :: uint32

record CTxIn =
  prevout :: COutPoint
  scriptSig :: script
  nSequence :: uint32

record CTxOut =
  nValue :: camount
  scriptPubKey :: script

type_synonym CBlob = bytes

record CTransaction =
  nVersion :: uint32
  vin :: "CTxIn list"
  vout :: "CTxOut list"
  nLockTime :: uint32
  blob :: CBlob

definition COutPoint_IsNull :: "COutPoint \<Rightarrow> bool" where
  "COutPoint_IsNull p \<longleftrightarrow> outpoint_hash p = 0 \<and> outpoint_n p = -1"

definition COutPoint_null :: COutPoint where
  "COutPoint_null = \<lparr>outpoint_hash = 0, outpoint_n = -1\<rparr>"

definition COutPoint_less :: "COutPoint \<Rightarrow> COutPoint \<Rightarrow> bool" where
  "COutPoint_less a b \<longleftrightarrow>
     outpoint_hash a < outpoint_hash b \<or> (outpoint_hash a = outpoint_hash b \<and> outpoint_n a < outpoint_n b)"

definition CTxIn_IsFinal :: "CTxIn \<Rightarrow> bool" where
  "CTxIn_IsFinal i \<longleftrightarrow> nSequence i = 0xFFFFFFFF"

definition CTxOut_null :: CTxOut where
  "CTxOut_null = \<lparr>nValue = -1, scriptPubKey = []\<rparr>"

definition CTxOut_IsNull :: "CTxOut \<Rightarrow> bool" where
  "CTxOut_IsNull t \<longleftrightarrow> nValue t = -1"

definition CTxOut_IsEmpty :: "CTxOut \<Rightarrow> bool" where
  "CTxOut_IsEmpty t \<longleftrightarrow> nValue t = 0 \<and> scriptPubKey t = []"

definition CTransaction_IsNull :: "CTransaction \<Rightarrow> bool" where
  "CTransaction_IsNull tx \<longleftrightarrow> vin tx = [] \<and> vout tx = []"

definition IsCoinBase :: "CTransaction \<Rightarrow> bool" where
  "IsCoinBase tx \<longleftrightarrow> length (vin tx) = 1 \<and> COutPoint_IsNull (prevout (vin tx ! 0))"

definition IsCoinStake :: "CTransaction \<Rightarrow> bool" where
  "IsCoinStake tx \<longleftrightarrow>
     length (vin tx) > 0 \<and> \<not> COutPoint_IsNull (prevout (vin tx ! 0)) \<and>
     length (vout tx) \<ge> 2 \<and> CTxOut_IsEmpty (vout tx ! 0)"

text \<open>
  \<^verbatim>\<open>n == tx->vout.size() - 1\<close> is compared as \<^verbatim>\<open>size_t\<close>; a coinstake has at least two
  outputs, so the subtraction does not wrap.
\<close>

definition IsMasternodeReward :: "COutPoint \<Rightarrow> CTransaction \<Rightarrow> bool" where
  "IsMasternodeReward p tx =
     (if \<not> IsCoinStake tx then False
      else unat (outpoint_n p) = length (vout tx) - 1 \<and>
           scriptPubKey (vout tx ! 1) \<noteq> scriptPubKey (vout tx ! unat (outpoint_n p)))"

definition GetOutPoints :: "uint256 \<Rightarrow> CTransaction \<Rightarrow> COutPoint list" where
  "GetOutPoints txHash tx =
     map (\<lambda>i. \<lparr>outpoint_hash = txHash, outpoint_n = of_nat i\<rparr>) [0 ..< length (vout tx)]"

section \<open>Wire format\<close>

text \<open>A \<^verbatim>\<open>CAmount\<close> is written as the eight bytes of its two's complement.\<close>

definition SerializeAmount :: "camount \<Rightarrow> bytes" where
  "SerializeAmount n = WRITEDATA (word_of_int n :: uint64)"

definition UnserializeAmount :: "camount reader" where
  "UnserializeAmount = rbind (READDATA :: uint64 reader) (\<lambda>w. rret (sint w))"

text \<open>\<^verbatim>\<open>FLATDATA(*this)\<close>: the 36 bytes of the object in memory.\<close>

definition SerializeOutPoint :: "COutPoint \<Rightarrow> bytes" where
  "SerializeOutPoint p = WRITEDATA (outpoint_hash p) @ WRITEDATA (outpoint_n p)"

definition UnserializeOutPoint :: "COutPoint reader" where
  "UnserializeOutPoint =
     rbind READDATA (\<lambda>h. rbind READDATA (\<lambda>i. rret \<lparr>outpoint_hash = h, outpoint_n = i\<rparr>))"

definition SerializeTxIn :: "CTxIn \<Rightarrow> bytes" where
  "SerializeTxIn i = SerializeOutPoint (prevout i) @ SerializeBytes (scriptSig i) @ WRITEDATA (nSequence i)"

definition UnserializeTxIn :: "CTxIn reader" where
  "UnserializeTxIn =
     rbind UnserializeOutPoint (\<lambda>p. rbind UnserializeBytes (\<lambda>s. rbind READDATA (\<lambda>q.
       rret \<lparr>prevout = p, scriptSig = s, nSequence = q\<rparr>)))"

definition SerializeTxOut :: "CTxOut \<Rightarrow> bytes" where
  "SerializeTxOut t = SerializeAmount (nValue t) @ SerializeBytes (scriptPubKey t)"

definition UnserializeTxOut :: "CTxOut reader" where
  "UnserializeTxOut =
     rbind UnserializeAmount (\<lambda>v. rbind UnserializeBytes (\<lambda>s. rret \<lparr>nValue = v, scriptPubKey = s\<rparr>))"

definition SerializeTx :: "CTransaction \<Rightarrow> bytes" where
  "SerializeTx tx =
     WRITEDATA (nVersion tx) @ SerializeVec SerializeTxIn (vin tx) @ SerializeVec SerializeTxOut (vout tx) @
     WRITEDATA (nLockTime tx) @ SerializeString (blob tx)"

definition UnserializeTx :: "CTransaction reader" where
  "UnserializeTx =
     rbind READDATA (\<lambda>v. rbind (UnserializeVec UnserializeTxIn) (\<lambda>is.
     rbind (UnserializeVec UnserializeTxOut) (\<lambda>os. rbind READDATA (\<lambda>l. rbind UnserializeString (\<lambda>b.
       rret \<lparr>nVersion = v, vin = is, vout = os, nLockTime = l, blob = b\<rparr>)))))"

text \<open>\<^verbatim>\<open>SerializeHashS(*this)\<close>; the hash function is a parameter.\<close>

definition GetHash :: "(bytes \<Rightarrow> uint256) \<Rightarrow> CTransaction \<Rightarrow> uint256" where
  "GetHash HashS tx = HashS (SerializeTx tx)"

text \<open>\<^verbatim>\<open>CSizeComputer\<close> runs the same serialization and counts.\<close>

definition GetSerializeSize :: "CTransaction \<Rightarrow> nat" where
  "GetSerializeSize tx = length (SerializeTx tx)"

section \<open>Values and sizes\<close>

datatype value_error = ValueNegative | ValueWraps

fun GetValueOut_loop :: "camount \<Rightarrow> CTxOut list \<Rightarrow> value_error + camount" where
  "GetValueOut_loop nValueOut [] = Inr nValueOut"
| "GetValueOut_loop nValueOut (t # ts) =
     (if nValue t < 0 then Inl ValueNegative
      else if wrap64 (nValueOut + nValue t) < nValueOut then Inl ValueWraps
      else GetValueOut_loop (wrap64 (nValueOut + nValue t)) ts)"

definition GetValueOut :: "CTransaction \<Rightarrow> value_error + camount" where
  "GetValueOut tx = GetValueOut_loop 0 (vout tx)"

fun modified_size_loop :: "nat \<Rightarrow> CTxIn list \<Rightarrow> nat" where
  "modified_size_loop nTxSize [] = nTxSize"
| "modified_size_loop nTxSize (i # is) =
     (let offset = 41 + min 110 (length (scriptSig i))
      in modified_size_loop (if nTxSize > offset then nTxSize - offset else nTxSize) is)"

definition CalculateModifiedSize :: "nat \<Rightarrow> CTransaction \<Rightarrow> nat" where
  "CalculateModifiedSize nTxSize tx =
     modified_size_loop (if nTxSize = 0 then GetSerializeSize tx else nTxSize) (vin tx)"

section \<open>The formats are canonical\<close>

definition valid_txin :: "CTxIn \<Rightarrow> bool" where
  "valid_txin i \<longleftrightarrow> length (scriptSig i) \<le> 0x02000000"

definition valid_txout :: "CTxOut \<Rightarrow> bool" where
  "valid_txout t \<longleftrightarrow> in_int64 (nValue t) \<and> length (scriptPubKey t) \<le> 0x02000000"

definition valid_tx :: "CTransaction \<Rightarrow> bool" where
  "valid_tx tx \<longleftrightarrow>
     length (vin tx) \<le> 0x02000000 \<and> list_all valid_txin (vin tx) \<and>
     length (vout tx) \<le> 0x02000000 \<and> list_all valid_txout (vout tx) \<and> length (blob tx) \<le> 0x02000000"

interpretation amount_codec: canonical_codec SerializeAmount UnserializeAmount in_int64
proof
  show "UnserializeAmount (SerializeAmount n @ rest) = Inr (n, rest)" if "in_int64 n" for n rest
    using sint_of_int64 [OF that] by (simp add: UnserializeAmount_def SerializeAmount_def reader_simps)
  show "in_int64 n \<and> s = SerializeAmount n @ rest" if "UnserializeAmount s = Inr (n, rest)" for s n rest
    using that in_int64_sint
    by (auto simp: UnserializeAmount_def SerializeAmount_def rbind_eq_Inr data_iff rret_apply)
qed

interpretation outpoint_codec: canonical_codec SerializeOutPoint UnserializeOutPoint "\<lambda>_. True"
  by unfold_locales
    (auto simp: UnserializeOutPoint_def SerializeOutPoint_def reader_simps rbind_eq_Inr data_iff)

interpretation txin_codec: canonical_codec SerializeTxIn UnserializeTxIn valid_txin
proof
  show "UnserializeTxIn (SerializeTxIn i @ rest) = Inr (i, rest)" if "valid_txin i" for i rest
    using that by (simp add: UnserializeTxIn_def SerializeTxIn_def valid_txin_def reader_simps outpoint_codec.roundtrip bytes_codec.roundtrip)
  show "valid_txin i \<and> s = SerializeTxIn i @ rest" if "UnserializeTxIn s = Inr (i, rest)" for s i rest
    using that by (auto simp: UnserializeTxIn_def SerializeTxIn_def valid_txin_def rret_apply rbind_eq_Inr data_iff outpoint_codec.unser_iff bytes_codec.unser_iff)
qed

interpretation txout_codec: canonical_codec SerializeTxOut UnserializeTxOut valid_txout
proof
  show "UnserializeTxOut (SerializeTxOut t @ rest) = Inr (t, rest)" if "valid_txout t" for t rest
    using that by (simp add: UnserializeTxOut_def SerializeTxOut_def valid_txout_def reader_simps amount_codec.roundtrip bytes_codec.roundtrip)
  show "valid_txout t \<and> s = SerializeTxOut t @ rest" if "UnserializeTxOut s = Inr (t, rest)" for s t rest
    using that by (auto simp: UnserializeTxOut_def SerializeTxOut_def valid_txout_def rret_apply rbind_eq_Inr data_iff amount_codec.unser_iff bytes_codec.unser_iff)
qed

lemmas vin_roundtrip = codec.roundtrip [OF txin_codec.vector_codec]
lemmas vout_roundtrip = codec.roundtrip [OF txout_codec.vector_codec]
lemmas vin_iff = canonical_codec.unser_iff [OF txin_codec.vector_canonical]
lemmas vout_iff = canonical_codec.unser_iff [OF txout_codec.vector_canonical]

interpretation tx_codec: canonical_codec SerializeTx UnserializeTx valid_tx
proof
  show "UnserializeTx (SerializeTx tx @ rest) = Inr (tx, rest)" if "valid_tx tx" for tx rest
    using that by (simp add: UnserializeTx_def SerializeTx_def valid_tx_def reader_simps vin_roundtrip vout_roundtrip string_codec.roundtrip list_all_iff)
  show "valid_tx tx \<and> s = SerializeTx tx @ rest" if "UnserializeTx s = Inr (tx, rest)" for s tx rest
    using that by (auto simp: UnserializeTx_def SerializeTx_def valid_tx_def rret_apply rbind_eq_Inr data_iff vin_iff vout_iff string_codec.unser_iff list_all_iff)
qed

text \<open>C12: reading a transaction from a stream succeeds with \<open>tx\<close> exactly if the stream starts
  with the serialization of \<open>tx\<close> (a transaction whose sizes and amounts are in range): the
  wire format round-trips and no transaction has a second encoding.\<close>

theorem UnserializeTx_iff:
  "UnserializeTx s = Inr (tx, rest) \<longleftrightarrow> valid_tx tx \<and> s = SerializeTx tx @ rest"
  by (rule tx_codec.unser_iff)

section \<open>Classification, values and sizes\<close>

lemma coinbase_not_coinstake: "\<not> (IsCoinBase tx \<and> IsCoinStake tx)"
  by (auto simp: IsCoinBase_def IsCoinStake_def)

lemma GetValueOut_loop_eq:
  assumes "0 \<le> acc" "in_int64 acc" "list_all (\<lambda>t. in_int64 (nValue t)) ts"
  shows "GetValueOut_loop acc ts = Inr v \<longleftrightarrow>
    list_all (\<lambda>t. 0 \<le> nValue t) ts \<and> acc + sum_list (map nValue ts) < 2 ^ 63 \<and>
    v = acc + sum_list (map nValue ts)"
  using assms
proof (induction ts arbitrary: acc)
  case (Cons t ts)
  have nn: "list_all (\<lambda>t. 0 \<le> nValue t) ts \<Longrightarrow> 0 \<le> sum_list (map nValue ts)"
    by (intro sum_list_nonneg) (auto simp: list_all_iff)
  have t: "in_int64 (nValue t)" using Cons.prems(3) by simp
  show ?case
  proof (cases "0 \<le> nValue t \<and> acc + nValue t < 2 ^ 63")
    case True
    then have w: "wrap64 (acc + nValue t) = acc + nValue t" "in_int64 (acc + nValue t)"
      using Cons.prems(1) by (simp_all add: wrap64_id in_int64_def)
    show ?thesis
      using Cons.IH [of "acc + nValue t"] Cons.prems True w by (auto simp: add.assoc)
  next
    case False
    have "wrap64 (acc + nValue t) < acc" if "0 \<le> nValue t" "acc + nValue t \<ge> 2 ^ 63"
      using that Cons.prems(1,2) t by (intro wrap64_overflow) (auto simp: in_int64_def)
    then show ?thesis using False nn by auto
  qed
qed (auto simp: in_int64_def)

lemma GetValueOut_iff:
  assumes "list_all (\<lambda>t. in_int64 (nValue t)) (vout tx)"
  shows "GetValueOut tx = Inr v \<longleftrightarrow>
    list_all (\<lambda>t. 0 \<le> nValue t) (vout tx) \<and> sum_list (map nValue (vout tx)) < 2 ^ 63 \<and>
    v = sum_list (map nValue (vout tx))"
  using GetValueOut_loop_eq [of 0 "vout tx" v] assms by (simp add: GetValueOut_def in_int64_def)

text \<open>\<^verbatim>\<open>GetValueOut\<close> returns exactly when no output is negative and the true sum fits in 63
  bits, and what it returns is the true sum of the outputs: the wrap-around test after each
  addition misses no overflow.\<close>

theorem GetValueOut_exact:
  assumes "list_all (\<lambda>t. in_int64 (nValue t)) (vout tx)"
  shows "GetValueOut tx = Inr v \<longleftrightarrow>
    list_all (\<lambda>t. 0 \<le> nValue t) (vout tx) \<and> sum_list (map nValue (vout tx)) < 2 ^ 63 \<and>
    v = sum_list (map nValue (vout tx))"
  using assms by (rule GetValueOut_iff)

text \<open>Two outputs of 7 and 5 units.\<close>

definition demo_tx :: CTransaction where
  "demo_tx = \<lparr>nVersion = 1,
     vin = [\<lparr>prevout = \<lparr>outpoint_hash = 17, outpoint_n = 0\<rparr>, scriptSig = [OP_1], nSequence = 0xFFFFFFFF\<rparr>],
     vout = [\<lparr>nValue = 7, scriptPubKey = [OP_1]\<rparr>, \<lparr>nValue = 5, scriptPubKey = [OP_2]\<rparr>],
     nLockTime = 0, blob = []\<rparr>"

theorem GetValueOut_exact_witness:
  "GetValueOut demo_tx = Inr 12 \<longleftrightarrow>
    list_all (\<lambda>t. 0 \<le> nValue t) (vout demo_tx) \<and> sum_list (map nValue (vout demo_tx)) < 2 ^ 63 \<and>
    12 = sum_list (map nValue (vout demo_tx))"
  by (rule GetValueOut_exact) (simp add: demo_tx_def in_int64_def)

lemma modified_size_loop_bounds:
  "0 < n \<Longrightarrow> 0 < modified_size_loop n is \<and> modified_size_loop n is \<le> n"
proof (induction "is" arbitrary: n)
  case (Cons i "is")
  let ?n = "if n > 41 + min 110 (length (scriptSig i)) then n - (41 + min 110 (length (scriptSig i))) else n"
  have "0 < ?n" "?n \<le> n" using Cons.prems by auto
  then show ?case using Cons.IH [of ?n] by (simp add: Let_def)
qed simp

lemma GetSerializeSize_pos: "0 < GetSerializeSize tx"
  by (simp add: GetSerializeSize_def SerializeTx_def)

lemma CalculateModifiedSize_bounds:
  "0 < CalculateModifiedSize n tx \<and>
   CalculateModifiedSize n tx \<le> (if n = 0 then GetSerializeSize tx else n)"
  using modified_size_loop_bounds GetSerializeSize_pos by (auto simp: CalculateModifiedSize_def)

end
