(* ===== verification/Sig_Encoding.thy ===== *)
theory Sig_Encoding
  imports Script
begin

unbundle bit_operations_syntax

text \<open>
  The encoding rules for signatures, public keys and pushes that
  \<^verbatim>\<open>src/src/script/interpreter.cpp\<close> enforces before it checks a signature, the
  script error codes of \<^verbatim>\<open>script_error.h\<close>, and the big-endian comparison of
  \<^verbatim>\<open>src/src/eccryptoverify.cpp\<close> behind the low-S rule.
\<close>

section \<open>Errors and verification flags\<close>

datatype ScriptError =
    SCRIPT_ERR_OK
  | SCRIPT_ERR_UNKNOWN_ERROR
  | SCRIPT_ERR_EVAL_FALSE
  | SCRIPT_ERR_OP_RETURN
  | SCRIPT_ERR_SCRIPT_SIZE
  | SCRIPT_ERR_PUSH_SIZE
  | SCRIPT_ERR_OP_COUNT
  | SCRIPT_ERR_STACK_SIZE
  | SCRIPT_ERR_SIG_COUNT
  | SCRIPT_ERR_PUBKEY_COUNT
  | SCRIPT_ERR_VERIFY
  | SCRIPT_ERR_EQUALVERIFY
  | SCRIPT_ERR_CHECKMULTISIGVERIFY
  | SCRIPT_ERR_CHECKSIGVERIFY
  | SCRIPT_ERR_NUMEQUALVERIFY
  | SCRIPT_ERR_BAD_OPCODE
  | SCRIPT_ERR_DISABLED_OPCODE
  | SCRIPT_ERR_INVALID_STACK_OPERATION
  | SCRIPT_ERR_INVALID_ALTSTACK_OPERATION
  | SCRIPT_ERR_UNBALANCED_CONDITIONAL
  | SCRIPT_ERR_SIG_HASHTYPE
  | SCRIPT_ERR_SIG_DER
  | SCRIPT_ERR_MINIMALDATA
  | SCRIPT_ERR_SIG_PUSHONLY
  | SCRIPT_ERR_SIG_HIGH_S
  | SCRIPT_ERR_SIG_NULLDUMMY
  | SCRIPT_ERR_PUBKEYTYPE
  | SCRIPT_ERR_DISCOURAGE_UPGRADABLE_NOPS
  | SCRIPT_ERR_ERROR_COUNT

abbreviation (input) SIGHASH_ALL :: uint32 where "SIGHASH_ALL \<equiv> 1"
abbreviation (input) SIGHASH_NONE :: uint32 where "SIGHASH_NONE \<equiv> 2"
abbreviation (input) SIGHASH_SINGLE :: uint32 where "SIGHASH_SINGLE \<equiv> 3"
abbreviation (input) SIGHASH_ANYONECANPAY :: uint32 where "SIGHASH_ANYONECANPAY \<equiv> 0x80"

type_synonym script_flags = uint32

abbreviation (input) SCRIPT_VERIFY_NONE :: script_flags where "SCRIPT_VERIFY_NONE \<equiv> 0"
abbreviation (input) SCRIPT_VERIFY_P2SH :: script_flags where "SCRIPT_VERIFY_P2SH \<equiv> 1"
abbreviation (input) SCRIPT_VERIFY_STRICTENC :: script_flags where "SCRIPT_VERIFY_STRICTENC \<equiv> 2"
abbreviation (input) SCRIPT_VERIFY_DERSIG :: script_flags where "SCRIPT_VERIFY_DERSIG \<equiv> 4"
abbreviation (input) SCRIPT_VERIFY_LOW_S :: script_flags where "SCRIPT_VERIFY_LOW_S \<equiv> 8"
abbreviation (input) SCRIPT_VERIFY_NULLDUMMY :: script_flags where "SCRIPT_VERIFY_NULLDUMMY \<equiv> 16"
abbreviation (input) SCRIPT_VERIFY_SIGPUSHONLY :: script_flags where "SCRIPT_VERIFY_SIGPUSHONLY \<equiv> 32"
abbreviation (input) SCRIPT_VERIFY_MINIMALDATA :: script_flags where "SCRIPT_VERIFY_MINIMALDATA \<equiv> 64"
abbreviation (input) SCRIPT_VERIFY_DISCOURAGE_UPGRADABLE_NOPS :: script_flags
  where "SCRIPT_VERIFY_DISCOURAGE_UPGRADABLE_NOPS \<equiv> 128"

section \<open>Big-endian comparison and the group order\<close>

fun cmp_same_length :: "bytes \<Rightarrow> bytes \<Rightarrow> int" where
  "cmp_same_length (a # c1) (b # c2) = (if a > b then 1 else if b > a then -1 else cmp_same_length c1 c2)"
| "cmp_same_length _ _ = 0"

fun CompareBigEndian :: "bytes \<Rightarrow> bytes \<Rightarrow> int" where
  "CompareBigEndian c1 c2 =
     (if length c1 > length c2 then (if hd c1 \<noteq> 0 then 1 else CompareBigEndian (tl c1) c2)
      else if length c2 > length c1 then (if hd c2 \<noteq> 0 then -1 else CompareBigEndian c1 (tl c2))
      else cmp_same_length c1 c2)"

declare CompareBigEndian.simps [simp del]

definition vchMaxModOrder :: bytes where
  "vchMaxModOrder =
    [0xFF, 0xFF, 0xFF, 0xFF, 0xFF, 0xFF, 0xFF, 0xFF,
     0xFF, 0xFF, 0xFF, 0xFF, 0xFF, 0xFF, 0xFF, 0xFE,
     0xBA, 0xAE, 0xDC, 0xE6, 0xAF, 0x48, 0xA0, 0x3B,
     0xBF, 0xD2, 0x5E, 0x8C, 0xD0, 0x36, 0x41, 0x40]"

definition vchMaxModHalfOrder :: bytes where
  "vchMaxModHalfOrder =
    [0x7F, 0xFF, 0xFF, 0xFF, 0xFF, 0xFF, 0xFF, 0xFF,
     0xFF, 0xFF, 0xFF, 0xFF, 0xFF, 0xFF, 0xFF, 0xFF,
     0x5D, 0x57, 0x6E, 0x73, 0x57, 0xA4, 0x50, 0x1D,
     0xDF, 0xE9, 0x2F, 0x46, 0x68, 0x1B, 0x20, 0xA0]"

text \<open>The second argument of the lower bound test is \<^verbatim>\<open>vchZero\<close> with length 0.\<close>

definition eccrypto_Check :: "bytes \<Rightarrow> bool" where
  "eccrypto_Check vch \<longleftrightarrow>
     CompareBigEndian (take 32 vch) [] > 0 \<and> CompareBigEndian (take 32 vch) vchMaxModOrder \<le> 0"

definition CheckSignatureElement :: "bytes \<Rightarrow> bool \<Rightarrow> bool" where
  "CheckSignatureElement vch half \<longleftrightarrow>
     CompareBigEndian vch [] > 0 \<and>
     CompareBigEndian vch (if half then vchMaxModHalfOrder else vchMaxModOrder) \<le> 0"

section \<open>Signatures and public keys\<close>

definition IsCompressedOrUncompressedPubKey :: "valtype \<Rightarrow> bool" where
  "IsCompressedOrUncompressedPubKey vchPubKey =
     (if length vchPubKey < 33 then False
      else if vchPubKey ! 0 = 0x04 then length vchPubKey = 65
      else if vchPubKey ! 0 = 0x02 \<or> vchPubKey ! 0 = 0x03 then length vchPubKey = 33
      else False)"

definition IsValidSignatureEncoding :: "valtype \<Rightarrow> bool" where
  "IsValidSignatureEncoding sig =
    (if length sig < 9 then False
     else if length sig > 73 then False
     else if sig ! 0 \<noteq> 0x30 then False
     else if unat (sig ! 1) \<noteq> length sig - 3 then False
     else let lenR = unat (sig ! 3) in
       if 5 + lenR \<ge> length sig then False
       else let lenS = unat (sig ! (5 + lenR)) in
         if lenR + lenS + 7 \<noteq> length sig then False
         else if sig ! 2 \<noteq> 0x02 then False
         else if lenR = 0 then False
         else if (sig ! 4) AND 0x80 \<noteq> 0 then False
         else if lenR > 1 \<and> sig ! 4 = 0x00 \<and> \<not> (sig ! 5) AND 0x80 \<noteq> 0 then False
         else if sig ! (lenR + 4) \<noteq> 0x02 then False
         else if lenS = 0 then False
         else if (sig ! (lenR + 6)) AND 0x80 \<noteq> 0 then False
         else if lenS > 1 \<and> sig ! (lenR + 6) = 0x00 \<and> \<not> (sig ! (lenR + 7)) AND 0x80 \<noteq> 0 then False
         else True)"

text \<open>
  The functions below return the error they set, or \<open>None\<close> where the C++ function
  returns true.
\<close>

definition IsLowDERSignature :: "valtype \<Rightarrow> ScriptError option" where
  "IsLowDERSignature vchSig =
     (if \<not> IsValidSignatureEncoding vchSig then Some SCRIPT_ERR_SIG_DER
      else
        let nLenR = unat (vchSig ! 3);
            nLenS = unat (vchSig ! (5 + nLenR));
            S = take nLenS (drop (6 + nLenR) vchSig)
        in if \<not> CheckSignatureElement S True then Some SCRIPT_ERR_SIG_HIGH_S else None)"

definition IsDefinedHashtypeSignature :: "valtype \<Rightarrow> bool" where
  "IsDefinedHashtypeSignature vchSig =
     (if length vchSig = 0 then False
      else let nHashType = last vchSig AND NOT (ucast SIGHASH_ANYONECANPAY) in
        if nHashType < ucast SIGHASH_ALL \<or> nHashType > ucast SIGHASH_SINGLE then False else True)"

definition CheckSignatureEncoding :: "script_flags \<Rightarrow> valtype \<Rightarrow> ScriptError option" where
  "CheckSignatureEncoding flags vchSig =
     (if length vchSig = 0 then None
      else if flags AND (SCRIPT_VERIFY_DERSIG OR SCRIPT_VERIFY_LOW_S OR SCRIPT_VERIFY_STRICTENC) \<noteq> 0
              \<and> \<not> IsValidSignatureEncoding vchSig then Some SCRIPT_ERR_SIG_DER
      else if flags AND SCRIPT_VERIFY_LOW_S \<noteq> 0 \<and> IsLowDERSignature vchSig \<noteq> None
           then IsLowDERSignature vchSig
      else if flags AND SCRIPT_VERIFY_STRICTENC \<noteq> 0 \<and> \<not> IsDefinedHashtypeSignature vchSig
           then Some SCRIPT_ERR_SIG_HASHTYPE
      else None)"

definition CheckPubKeyEncoding :: "script_flags \<Rightarrow> valtype \<Rightarrow> ScriptError option" where
  "CheckPubKeyEncoding flags vchPubKey =
     (if flags AND SCRIPT_VERIFY_STRICTENC \<noteq> 0 \<and> \<not> IsCompressedOrUncompressedPubKey vchPubKey
      then Some SCRIPT_ERR_PUBKEYTYPE else None)"

definition CheckMinimalPush :: "valtype \<Rightarrow> opcodetype \<Rightarrow> bool" where
  "CheckMinimalPush data opcode =
     (if length data = 0 then opcode = OP_0
      else if length data = 1 \<and> data ! 0 \<ge> 1 \<and> data ! 0 \<le> 16 then opcode = OP_1 + (data ! 0 - 1)
      else if length data = 1 \<and> data ! 0 = 0x81 then opcode = OP_1NEGATE
      else if length data \<le> 75 then unat opcode = length data
      else if length data \<le> 255 then opcode = OP_PUSHDATA1
      else if length data \<le> 65535 then opcode = OP_PUSHDATA2
      else True)"

end
