(* ===== verification/Interpreter.thy ===== *)
theory Interpreter
  imports Sig_Encoding
begin

unbundle bit_operations_syntax

text \<open>
  The stack machine \<^verbatim>\<open>EvalScript\<close> and the spending check \<^verbatim>\<open>VerifyScript\<close> of
  \<^verbatim>\<open>src/src/script/interpreter.cpp\<close>. A stack is a list whose head is the back of
  the C++ vector, so \<^verbatim>\<open>stacktop(-i)\<close> is element \<open>i - 1\<close>; \<open>vfExec\<close> is kept
  the same way. Every \<^verbatim>\<open>return set_error(...)\<close> is an \<open>Inl\<close>; a thrown
  \<^verbatim>\<open>scriptnum_error\<close> reaches the \<^verbatim>\<open>catch (...)\<close> and is
  \<open>SCRIPT_ERR_UNKNOWN_ERROR\<close>. The signature checker (a virtual class) and the hash
  functions are fields of the context.
\<close>

section \<open>State\<close>

record script_ctx =
  flags :: script_flags
  CheckSig :: "valtype \<Rightarrow> valtype \<Rightarrow> script \<Rightarrow> bool"
  h_RIPEMD160 :: "bytes \<Rightarrow> bytes"
  h_SHA1 :: "bytes \<Rightarrow> bytes"
  h_SHA256 :: "bytes \<Rightarrow> bytes"
  h_HASH160 :: "bytes \<Rightarrow> bytes"
  h_HASH256 :: "bytes \<Rightarrow> bytes"

record eval_state =
  stack :: "valtype list"
  altstack :: "valtype list"
  vfExec :: "bool list"
  pbegincodehash :: bytes
  nOpCount :: int

type_synonym 'a scriptres = "ScriptError + 'a"

definition vchFalse :: valtype where "vchFalse = []"
definition vchTrue :: valtype where "vchTrue = [1]"

definition bool_vch :: "bool \<Rightarrow> valtype" where
  "bool_vch b = (if b then vchTrue else vchFalse)"

fun CastToBool :: "valtype \<Rightarrow> bool" where
  "CastToBool [] = False"
| "CastToBool (b # vch) = (if b \<noteq> 0 then \<not> (vch = [] \<and> b = 0x80) else CastToBool vch)"

text \<open>A script number read inside the \<^verbatim>\<open>try\<close> block.\<close>

definition read_num :: "bool \<Rightarrow> valtype \<Rightarrow> int scriptres" where
  "read_num fRequireMinimal vch =
     (case CScriptNum vch fRequireMinimal of Inl _ \<Rightarrow> Inl SCRIPT_ERR_UNKNOWN_ERROR | Inr n \<Rightarrow> Inr n)"

definition rthen :: "'a scriptres \<Rightarrow> ('a \<Rightarrow> 'b scriptres) \<Rightarrow> 'b scriptres" where
  "rthen r f = (case r of Inl e \<Rightarrow> Inl e | Inr x \<Rightarrow> f x)"

abbreviation (input) stack_err :: "'a scriptres" where
  "stack_err \<equiv> Inl SCRIPT_ERR_INVALID_STACK_OPERATION"

section \<open>Constants and control\<close>

definition op_constant :: "opcodetype \<Rightarrow> eval_state \<Rightarrow> eval_state scriptres" where
  "op_constant opcode st =
     Inr (st\<lparr>stack := scriptnum_serialize (uint opcode - (uint OP_1 - 1)) # stack st\<rparr>)"

definition op_if :: "bool \<Rightarrow> opcodetype \<Rightarrow> eval_state \<Rightarrow> eval_state scriptres" where
  "op_if fExec opcode st =
     (if fExec then
        (case stack st of
           [] \<Rightarrow> Inl SCRIPT_ERR_UNBALANCED_CONDITIONAL
         | vch # s \<Rightarrow>
             let fValue = CastToBool vch;
                 fValue = (if opcode = OP_NOTIF then \<not> fValue else fValue)
             in Inr (st\<lparr>stack := s, vfExec := fValue # vfExec st\<rparr>))
      else Inr (st\<lparr>vfExec := False # vfExec st\<rparr>))"

definition op_else :: "eval_state \<Rightarrow> eval_state scriptres" where
  "op_else st =
     (case vfExec st of
        [] \<Rightarrow> Inl SCRIPT_ERR_UNBALANCED_CONDITIONAL
      | b # bs \<Rightarrow> Inr (st\<lparr>vfExec := (\<not> b) # bs\<rparr>))"

definition op_endif :: "eval_state \<Rightarrow> eval_state scriptres" where
  "op_endif st =
     (case vfExec st of
        [] \<Rightarrow> Inl SCRIPT_ERR_UNBALANCED_CONDITIONAL
      | b # bs \<Rightarrow> Inr (st\<lparr>vfExec := bs\<rparr>))"

definition op_verify :: "eval_state \<Rightarrow> eval_state scriptres" where
  "op_verify st =
     (case stack st of
        [] \<Rightarrow> stack_err
      | vch # s \<Rightarrow> if CastToBool vch then Inr (st\<lparr>stack := s\<rparr>) else Inl SCRIPT_ERR_VERIFY)"

definition op_nopx :: "script_ctx \<Rightarrow> eval_state \<Rightarrow> eval_state scriptres" where
  "op_nopx ctx st =
     (if flags ctx AND SCRIPT_VERIFY_DISCOURAGE_UPGRADABLE_NOPS \<noteq> 0
      then Inl SCRIPT_ERR_DISCOURAGE_UPGRADABLE_NOPS else Inr st)"

section \<open>Stack operations\<close>

definition op_altstack :: "opcodetype \<Rightarrow> eval_state \<Rightarrow> eval_state scriptres" where
  "op_altstack opcode st =
     (if opcode = OP_TOALTSTACK then
        (case stack st of
           [] \<Rightarrow> stack_err
         | x # s \<Rightarrow> Inr (st\<lparr>stack := s, altstack := x # altstack st\<rparr>))
      else
        (case altstack st of
           [] \<Rightarrow> Inl SCRIPT_ERR_INVALID_ALTSTACK_OPERATION
         | x # s \<Rightarrow> Inr (st\<lparr>stack := x # stack st, altstack := s\<rparr>)))"

text \<open>
  The operations that only rearrange the stack, as functions on it; \<open>None\<close> is the
  failed size check.
\<close>

fun stack_2drop :: "valtype list \<Rightarrow> valtype list option" where
  "stack_2drop (x2 # x1 # s) = Some s"
| "stack_2drop _ = None"

fun stack_2dup :: "valtype list \<Rightarrow> valtype list option" where
  "stack_2dup (x2 # x1 # s) = Some (x2 # x1 # x2 # x1 # s)"
| "stack_2dup _ = None"

fun stack_3dup :: "valtype list \<Rightarrow> valtype list option" where
  "stack_3dup (x3 # x2 # x1 # s) = Some (x3 # x2 # x1 # x3 # x2 # x1 # s)"
| "stack_3dup _ = None"

fun stack_2over :: "valtype list \<Rightarrow> valtype list option" where
  "stack_2over (x4 # x3 # x2 # x1 # s) = Some (x2 # x1 # x4 # x3 # x2 # x1 # s)"
| "stack_2over _ = None"

fun stack_2rot :: "valtype list \<Rightarrow> valtype list option" where
  "stack_2rot (x6 # x5 # x4 # x3 # x2 # x1 # s) = Some (x2 # x1 # x6 # x5 # x4 # x3 # s)"
| "stack_2rot _ = None"

fun stack_2swap :: "valtype list \<Rightarrow> valtype list option" where
  "stack_2swap (x4 # x3 # x2 # x1 # s) = Some (x2 # x1 # x4 # x3 # s)"
| "stack_2swap _ = None"

fun stack_ifdup :: "valtype list \<Rightarrow> valtype list option" where
  "stack_ifdup (x # s) = Some (if CastToBool x then x # x # s else x # s)"
| "stack_ifdup _ = None"

definition stack_depth :: "valtype list \<Rightarrow> valtype list option" where
  "stack_depth s = Some (scriptnum_serialize (int (length s)) # s)"

fun stack_drop :: "valtype list \<Rightarrow> valtype list option" where
  "stack_drop (x # s) = Some s"
| "stack_drop _ = None"

fun stack_dup :: "valtype list \<Rightarrow> valtype list option" where
  "stack_dup (x # s) = Some (x # x # s)"
| "stack_dup _ = None"

fun stack_nip :: "valtype list \<Rightarrow> valtype list option" where
  "stack_nip (x2 # x1 # s) = Some (x2 # s)"
| "stack_nip _ = None"

fun stack_over :: "valtype list \<Rightarrow> valtype list option" where
  "stack_over (x2 # x1 # s) = Some (x1 # x2 # x1 # s)"
| "stack_over _ = None"

fun stack_rot :: "valtype list \<Rightarrow> valtype list option" where
  "stack_rot (x3 # x2 # x1 # s) = Some (x1 # x3 # x2 # s)"
| "stack_rot _ = None"

fun stack_swap :: "valtype list \<Rightarrow> valtype list option" where
  "stack_swap (x2 # x1 # s) = Some (x1 # x2 # s)"
| "stack_swap _ = None"

fun stack_tuck :: "valtype list \<Rightarrow> valtype list option" where
  "stack_tuck (x2 # x1 # s) = Some (x2 # x1 # x2 # s)"
| "stack_tuck _ = None"

fun stack_size :: "valtype list \<Rightarrow> valtype list option" where
  "stack_size (x # s) = Some (scriptnum_serialize (int (length x)) # x # s)"
| "stack_size _ = None"

definition stack_op :: "opcodetype \<Rightarrow> (valtype list \<Rightarrow> valtype list option) option" where
  "stack_op opcode = map_of
     [(OP_2DROP, stack_2drop), (OP_2DUP, stack_2dup), (OP_3DUP, stack_3dup), (OP_2OVER, stack_2over),
      (OP_2ROT, stack_2rot), (OP_2SWAP, stack_2swap), (OP_IFDUP, stack_ifdup), (OP_DEPTH, stack_depth),
      (OP_DROP, stack_drop), (OP_DUP, stack_dup), (OP_NIP, stack_nip), (OP_OVER, stack_over),
      (OP_ROT, stack_rot), (OP_SWAP, stack_swap), (OP_TUCK, stack_tuck), (OP_SIZE, stack_size)] opcode"

definition op_stack :: "(valtype list \<Rightarrow> valtype list option) \<Rightarrow> eval_state \<Rightarrow> eval_state scriptres" where
  "op_stack f st =
     (case f (stack st) of None \<Rightarrow> stack_err | Some s \<Rightarrow> Inr (st\<lparr>stack := s\<rparr>))"

definition op_pick_roll :: "bool \<Rightarrow> opcodetype \<Rightarrow> eval_state \<Rightarrow> eval_state scriptres" where
  "op_pick_roll fRequireMinimal opcode st =
     (if length (stack st) < 2 then stack_err
      else rthen (read_num fRequireMinimal (hd (stack st))) (\<lambda>bn.
        let n = scriptnum_getint bn;
            s = tl (stack st)
        in if n < 0 \<or> n \<ge> int (length s) then stack_err
           else
             let k = nat n;
                 vch = s ! k;
                 s' = (if opcode = OP_ROLL then take k s @ drop (Suc k) s else s)
             in Inr (st\<lparr>stack := vch # s'\<rparr>)))"

section \<open>Comparison and numbers\<close>

definition op_equal :: "opcodetype \<Rightarrow> eval_state \<Rightarrow> eval_state scriptres" where
  "op_equal opcode st =
     (case stack st of
        vch2 # vch1 # s \<Rightarrow>
          let fEqual = (vch1 = vch2) in
          if opcode = OP_EQUALVERIFY
          then (if fEqual then Inr (st\<lparr>stack := s\<rparr>) else Inl SCRIPT_ERR_EQUALVERIFY)
          else Inr (st\<lparr>stack := bool_vch fEqual # s\<rparr>)
      | _ \<Rightarrow> stack_err)"

definition bool_num :: "bool \<Rightarrow> int" where
  "bool_num b = (if b then 1 else 0)"

definition unary_num :: "opcodetype \<Rightarrow> int \<Rightarrow> int" where
  "unary_num opcode bn =
     (if opcode = OP_1ADD then bn + 1
      else if opcode = OP_1SUB then bn - 1
      else if opcode = OP_NEGATE then - bn
      else if opcode = OP_ABS then (if bn < 0 then - bn else bn)
      else if opcode = OP_NOT then bool_num (bn = 0)
      else bool_num (bn \<noteq> 0))"

definition op_unary :: "bool \<Rightarrow> opcodetype \<Rightarrow> eval_state \<Rightarrow> eval_state scriptres" where
  "op_unary fRequireMinimal opcode st =
     (case stack st of
        [] \<Rightarrow> stack_err
      | x # s \<Rightarrow> rthen (read_num fRequireMinimal x) (\<lambda>bn.
          Inr (st\<lparr>stack := scriptnum_serialize (unary_num opcode bn) # s\<rparr>)))"

definition binary_num :: "opcodetype \<Rightarrow> int \<Rightarrow> int \<Rightarrow> int" where
  "binary_num opcode bn1 bn2 =
     (if opcode = OP_ADD then bn1 + bn2
      else if opcode = OP_SUB then bn1 - bn2
      else if opcode = OP_BOOLAND then bool_num (bn1 \<noteq> 0 \<and> bn2 \<noteq> 0)
      else if opcode = OP_BOOLOR then bool_num (bn1 \<noteq> 0 \<or> bn2 \<noteq> 0)
      else if opcode = OP_NUMEQUAL then bool_num (bn1 = bn2)
      else if opcode = OP_NUMEQUALVERIFY then bool_num (bn1 = bn2)
      else if opcode = OP_NUMNOTEQUAL then bool_num (bn1 \<noteq> bn2)
      else if opcode = OP_LESSTHAN then bool_num (bn1 < bn2)
      else if opcode = OP_GREATERTHAN then bool_num (bn1 > bn2)
      else if opcode = OP_LESSTHANOREQUAL then bool_num (bn1 \<le> bn2)
      else if opcode = OP_GREATERTHANOREQUAL then bool_num (bn1 \<ge> bn2)
      else if opcode = OP_MIN then (if bn1 < bn2 then bn1 else bn2)
      else (if bn1 > bn2 then bn1 else bn2))"

definition op_binary :: "bool \<Rightarrow> opcodetype \<Rightarrow> eval_state \<Rightarrow> eval_state scriptres" where
  "op_binary fRequireMinimal opcode st =
     (case stack st of
        x2 # x1 # s \<Rightarrow>
          rthen (read_num fRequireMinimal x1) (\<lambda>bn1.
          rthen (read_num fRequireMinimal x2) (\<lambda>bn2.
            let vch = scriptnum_serialize (binary_num opcode bn1 bn2) in
            if opcode = OP_NUMEQUALVERIFY
            then (if CastToBool vch then Inr (st\<lparr>stack := s\<rparr>) else Inl SCRIPT_ERR_NUMEQUALVERIFY)
            else Inr (st\<lparr>stack := vch # s\<rparr>)))
      | _ \<Rightarrow> stack_err)"

definition op_within :: "bool \<Rightarrow> eval_state \<Rightarrow> eval_state scriptres" where
  "op_within fRequireMinimal st =
     (case stack st of
        x3 # x2 # x1 # s \<Rightarrow>
          rthen (read_num fRequireMinimal x1) (\<lambda>bn1.
          rthen (read_num fRequireMinimal x2) (\<lambda>bn2.
          rthen (read_num fRequireMinimal x3) (\<lambda>bn3.
            Inr (st\<lparr>stack := bool_vch (bn2 \<le> bn1 \<and> bn1 < bn3) # s\<rparr>))))
      | _ \<Rightarrow> stack_err)"

section \<open>Hashes and signatures\<close>

definition hash_op :: "script_ctx \<Rightarrow> opcodetype \<Rightarrow> bytes \<Rightarrow> bytes" where
  "hash_op ctx opcode =
     (if opcode = OP_RIPEMD160 then h_RIPEMD160 ctx
      else if opcode = OP_SHA1 then h_SHA1 ctx
      else if opcode = OP_SHA256 then h_SHA256 ctx
      else if opcode = OP_HASH160 then h_HASH160 ctx
      else h_HASH256 ctx)"

definition op_hash :: "script_ctx \<Rightarrow> opcodetype \<Rightarrow> eval_state \<Rightarrow> eval_state scriptres" where
  "op_hash ctx opcode st =
     (case stack st of
        [] \<Rightarrow> stack_err
      | vch # s \<Rightarrow> Inr (st\<lparr>stack := hash_op ctx opcode vch # s\<rparr>))"

text \<open>\<^verbatim>\<open>CheckSignatureEncoding(...)\<close>, then \<^verbatim>\<open>CheckPubKeyEncoding(...)\<close>.\<close>

definition check_encodings :: "script_ctx \<Rightarrow> valtype \<Rightarrow> valtype \<Rightarrow> ScriptError option" where
  "check_encodings ctx vchSig vchPubKey =
     (case CheckSignatureEncoding (flags ctx) vchSig of
        Some e \<Rightarrow> Some e
      | None \<Rightarrow> CheckPubKeyEncoding (flags ctx) vchPubKey)"

definition op_checksig :: "script_ctx \<Rightarrow> opcodetype \<Rightarrow> eval_state \<Rightarrow> eval_state scriptres" where
  "op_checksig ctx opcode st =
     (case stack st of
        vchPubKey # vchSig # s \<Rightarrow>
          let scriptCode = snd (FindAndDelete (pbegincodehash st) (push_vch vchSig)) in
          (case check_encodings ctx vchSig vchPubKey of
             Some e \<Rightarrow> Inl e
           | None \<Rightarrow>
               let fSuccess = CheckSig ctx vchSig vchPubKey scriptCode in
               if opcode = OP_CHECKSIGVERIFY
               then (if fSuccess then Inr (st\<lparr>stack := s\<rparr>) else Inl SCRIPT_ERR_CHECKSIGVERIFY)
               else Inr (st\<lparr>stack := bool_vch fSuccess # s\<rparr>))
      | _ \<Rightarrow> stack_err)"

text \<open>
  The matching loop: the lists are the signatures and the keys not yet passed by
  \<open>isig\<close> and \<open>ikey\<close>. The counts checked before the loop keep the second list at
  least as long as the first, so the last equation is never reached from the opcode.
\<close>

fun multisig_loop :: "script_ctx \<Rightarrow> script \<Rightarrow> valtype list \<Rightarrow> valtype list \<Rightarrow> bool scriptres" where
  "multisig_loop ctx scriptCode [] keys = Inr True"
| "multisig_loop ctx scriptCode (vchSig # sigs) (vchPubKey # keys) =
     (case check_encodings ctx vchSig vchPubKey of
        Some e \<Rightarrow> Inl e
      | None \<Rightarrow>
          let fOk = CheckSig ctx vchSig vchPubKey scriptCode;
              sigs' = (if fOk then sigs else vchSig # sigs)
          in if length sigs' > length keys then Inr False
             else multisig_loop ctx scriptCode sigs' keys)"
| "multisig_loop ctx scriptCode (vchSig # sigs) [] = Inr False"

fun delete_sigs :: "script \<Rightarrow> valtype list \<Rightarrow> script" where
  "delete_sigs scriptCode [] = scriptCode"
| "delete_sigs scriptCode (vchSig # sigs) = delete_sigs (snd (FindAndDelete scriptCode (push_vch vchSig))) sigs"

definition multisig_finish ::
  "script_ctx \<Rightarrow> opcodetype \<Rightarrow> bool \<Rightarrow> valtype list \<Rightarrow> eval_state \<Rightarrow> eval_state scriptres" where
  "multisig_finish ctx opcode fSuccess s st =
     (case s of
        [] \<Rightarrow> stack_err
      | dummy # s' \<Rightarrow>
          if flags ctx AND SCRIPT_VERIFY_NULLDUMMY \<noteq> 0 \<and> length dummy \<noteq> 0 then Inl SCRIPT_ERR_SIG_NULLDUMMY
          else if opcode = OP_CHECKMULTISIGVERIFY
          then (if fSuccess then Inr (st\<lparr>stack := s'\<rparr>) else Inl SCRIPT_ERR_CHECKMULTISIGVERIFY)
          else Inr (st\<lparr>stack := bool_vch fSuccess # s'\<rparr>))"

definition op_checkmultisig ::
  "script_ctx \<Rightarrow> bool \<Rightarrow> opcodetype \<Rightarrow> eval_state \<Rightarrow> eval_state scriptres" where
  "op_checkmultisig ctx fRequireMinimal opcode st =
     (let stk = stack st in
      if length stk < 1 then stack_err
      else rthen (read_num fRequireMinimal (stk ! 0)) (\<lambda>bnKeys.
        let nKeysCount = scriptnum_getint bnKeys in
        if nKeysCount < 0 \<or> nKeysCount > 20 then Inl SCRIPT_ERR_PUBKEY_COUNT
        else
          let st' = st\<lparr>nOpCount := nOpCount st + nKeysCount\<rparr>;
              nk = nat nKeysCount
          in if nOpCount st' > 201 then Inl SCRIPT_ERR_OP_COUNT
          else if length stk < 2 + nk then stack_err
          else rthen (read_num fRequireMinimal (stk ! (1 + nk))) (\<lambda>bnSigs.
            let nSigsCount = scriptnum_getint bnSigs in
            if nSigsCount < 0 \<or> nSigsCount > nKeysCount then Inl SCRIPT_ERR_SIG_COUNT
            else
              let ns = nat nSigsCount in
              if length stk < 3 + nk + ns then stack_err
              else
                let keys = take nk (drop 1 stk);
                    sigs = take ns (drop (2 + nk) stk);
                    scriptCode = delete_sigs (pbegincodehash st) sigs
                in rthen (multisig_loop ctx scriptCode sigs keys) (\<lambda>fSuccess.
                     multisig_finish ctx opcode fSuccess (drop (2 + nk + ns) stk) st'))))"

section \<open>One instruction and the main loop\<close>

definition is_disabled :: "opcodetype \<Rightarrow> bool" where
  "is_disabled opcode \<longleftrightarrow> opcode \<in> set
     [OP_CAT, OP_SUBSTR, OP_LEFT, OP_RIGHT, OP_INVERT, OP_AND, OP_OR, OP_XOR, OP_2MUL, OP_2DIV,
      OP_MUL, OP_DIV, OP_MOD, OP_LSHIFT, OP_RSHIFT]"

definition exec_opcode ::
  "script_ctx \<Rightarrow> bool \<Rightarrow> opcodetype \<Rightarrow> bytes \<Rightarrow> eval_state \<Rightarrow> eval_state scriptres" where
  "exec_opcode ctx fExec opcode pc st =
    (let fRequireMinimal = flags ctx AND SCRIPT_VERIFY_MINIMALDATA \<noteq> 0 in
     if opcode = OP_1NEGATE \<or> (OP_1 \<le> opcode \<and> opcode \<le> OP_16) then op_constant opcode st
     else if opcode = OP_NOP then Inr st
     else if OP_NOP1 \<le> opcode \<and> opcode \<le> OP_NOP10 then op_nopx ctx st
     else if opcode = OP_IF \<or> opcode = OP_NOTIF then op_if fExec opcode st
     else if opcode = OP_ELSE then op_else st
     else if opcode = OP_ENDIF then op_endif st
     else if opcode = OP_VERIFY then op_verify st
     else if opcode = OP_RETURN then Inl SCRIPT_ERR_OP_RETURN
     else if opcode = OP_TOALTSTACK \<or> opcode = OP_FROMALTSTACK then op_altstack opcode st
     else if stack_op opcode \<noteq> None then op_stack (the (stack_op opcode)) st
     else if opcode = OP_PICK \<or> opcode = OP_ROLL then op_pick_roll fRequireMinimal opcode st
     else if opcode = OP_EQUAL \<or> opcode = OP_EQUALVERIFY then op_equal opcode st
     else if opcode \<in> set [OP_1ADD, OP_1SUB, OP_NEGATE, OP_ABS, OP_NOT, OP_0NOTEQUAL]
          then op_unary fRequireMinimal opcode st
     else if opcode \<in> set [OP_ADD, OP_SUB, OP_BOOLAND, OP_BOOLOR, OP_NUMEQUAL, OP_NUMEQUALVERIFY,
            OP_NUMNOTEQUAL, OP_LESSTHAN, OP_GREATERTHAN, OP_LESSTHANOREQUAL, OP_GREATERTHANOREQUAL,
            OP_MIN, OP_MAX] then op_binary fRequireMinimal opcode st
     else if opcode = OP_WITHIN then op_within fRequireMinimal st
     else if opcode \<in> set [OP_RIPEMD160, OP_SHA1, OP_SHA256, OP_HASH160, OP_HASH256]
          then op_hash ctx opcode st
     else if opcode = OP_CODESEPARATOR then Inr (st\<lparr>pbegincodehash := pc\<rparr>)
     else if opcode = OP_CHECKSIG \<or> opcode = OP_CHECKSIGVERIFY then op_checksig ctx opcode st
     else if opcode = OP_CHECKMULTISIG \<or> opcode = OP_CHECKMULTISIGVERIFY
          then op_checkmultisig ctx fRequireMinimal opcode st
     else Inl SCRIPT_ERR_BAD_OPCODE)"

definition count_op :: "opcodetype \<Rightarrow> eval_state \<Rightarrow> eval_state" where
  "count_op opcode st = (if opcode > OP_16 then st\<lparr>nOpCount := nOpCount st + 1\<rparr> else st)"

definition dispatch ::
  "script_ctx \<Rightarrow> opcodetype \<Rightarrow> valtype \<Rightarrow> bytes \<Rightarrow> eval_state \<Rightarrow> eval_state scriptres" where
  "dispatch ctx opcode vchPushValue pc st =
     (let fExec = list_all id (vfExec st) in
      if fExec \<and> opcode \<le> OP_PUSHDATA4 then
        if flags ctx AND SCRIPT_VERIFY_MINIMALDATA \<noteq> 0 \<and> \<not> CheckMinimalPush vchPushValue opcode
        then Inl SCRIPT_ERR_MINIMALDATA
        else Inr (st\<lparr>stack := vchPushValue # stack st\<rparr>)
      else if fExec \<or> (OP_IF \<le> opcode \<and> opcode \<le> OP_ENDIF)
      then exec_opcode ctx fExec opcode pc st
      else Inr st)"

definition eval_step ::
  "script_ctx \<Rightarrow> opcodetype \<Rightarrow> valtype \<Rightarrow> bytes \<Rightarrow> eval_state \<Rightarrow> eval_state scriptres" where
  "eval_step ctx opcode vchPushValue pc st =
     (if length vchPushValue > MAX_SCRIPT_ELEMENT_SIZE then Inl SCRIPT_ERR_PUSH_SIZE
      else if opcode > OP_16 \<and> nOpCount (count_op opcode st) > 201 then Inl SCRIPT_ERR_OP_COUNT
      else if is_disabled opcode then Inl SCRIPT_ERR_DISABLED_OPCODE
      else rthen (dispatch ctx opcode vchPushValue pc (count_op opcode st)) (\<lambda>st'.
        if length (stack st') + length (altstack st') > 1000 then Inl SCRIPT_ERR_STACK_SIZE
        else Inr st'))"

function eval_loop :: "script_ctx \<Rightarrow> bytes \<Rightarrow> eval_state \<Rightarrow> eval_state scriptres" where
  "eval_loop ctx pc st =
     (if pc = [] then Inr st
      else case GetOp pc of
             None \<Rightarrow> Inl SCRIPT_ERR_BAD_OPCODE
           | Some (opcode, vchPushValue, pc') \<Rightarrow>
               (case eval_step ctx opcode vchPushValue pc' st of
                  Inl e \<Rightarrow> Inl e
                | Inr st' \<Rightarrow> eval_loop ctx pc' st'))"
  by pat_completeness auto
termination
  by (relation "measure (\<lambda>(_, pc, _). length pc)") (auto dest: GetOp_shrinks)

declare eval_loop.simps [simp del]

definition init_state :: "valtype list \<Rightarrow> script \<Rightarrow> eval_state" where
  "init_state stk s =
     \<lparr>stack = stk, altstack = [], vfExec = [], pbegincodehash = s, nOpCount = 0\<rparr>"

definition EvalScript :: "script_ctx \<Rightarrow> valtype list \<Rightarrow> script \<Rightarrow> valtype list scriptres" where
  "EvalScript ctx stk s =
     (if length s > 10000 then Inl SCRIPT_ERR_SCRIPT_SIZE
      else rthen (eval_loop ctx s (init_state stk s)) (\<lambda>st.
        if vfExec st \<noteq> [] then Inl SCRIPT_ERR_UNBALANCED_CONDITIONAL else Inr (stack st)))"

text \<open>The test of the top element after an evaluation.\<close>

definition top_true :: "valtype list \<Rightarrow> bool" where
  "top_true stk \<longleftrightarrow> stk \<noteq> [] \<and> CastToBool (hd stk)"

text \<open>
  \<^verbatim>\<open>VerifyScript\<close>: success is \<open>Inr ()\<close>. The \<^verbatim>\<open>assert(!stackCopy.empty())\<close> is
  the case that the copied stack is empty; it does not happen, as shown below.
\<close>

definition VerifyScript :: "script_ctx \<Rightarrow> script \<Rightarrow> script \<Rightarrow> unit scriptres" where
  "VerifyScript ctx scriptSig scriptPubKey =
     (if flags ctx AND SCRIPT_VERIFY_SIGPUSHONLY \<noteq> 0 \<and> \<not> IsPushOnly scriptSig
      then Inl SCRIPT_ERR_SIG_PUSHONLY
      else rthen (EvalScript ctx [] scriptSig) (\<lambda>stackCopy.
        rthen (EvalScript ctx stackCopy scriptPubKey) (\<lambda>stk.
          if \<not> top_true stk then Inl SCRIPT_ERR_EVAL_FALSE
          else if flags ctx AND SCRIPT_VERIFY_P2SH \<noteq> 0 \<and> IsPayToScriptHash scriptPubKey then
            if \<not> IsPushOnly scriptSig then Inl SCRIPT_ERR_SIG_PUSHONLY
            else (case stackCopy of
                    [] \<Rightarrow> Inl SCRIPT_ERR_UNKNOWN_ERROR
                  | pubKeySerialized # stackCopy' \<Rightarrow>
                      rthen (EvalScript ctx stackCopy' pubKeySerialized) (\<lambda>stk2.
                        if \<not> top_true stk2 then Inl SCRIPT_ERR_EVAL_FALSE else Inr ()))
          else Inr ())))"

end
