(* ===== verification/Interpreter_Props.thy ===== *)
theory Interpreter_Props
  imports Interpreter
begin

unbundle bit_operations_syntax

text \<open>
  Properties of the script interpreter: resource limits, the fate of disabled and
  unspendable scripts, the meaning of \<^verbatim>\<open>OP_CHECKMULTISIG\<close>, the safety of dropping
  verification flags, and the standard payment scripts from end to end.
\<close>

section \<open>Running a script\<close>

named_theorems op_defs \<open>the definitions of the instruction groups\<close>

declare op_constant_def [op_defs] op_if_def [op_defs] op_else_def [op_defs] op_endif_def [op_defs]
  op_verify_def [op_defs] op_nopx_def [op_defs] op_altstack_def [op_defs] op_stack_def [op_defs]
  op_pick_roll_def [op_defs] op_equal_def [op_defs] op_unary_def [op_defs] op_binary_def [op_defs]
  op_within_def [op_defs] op_hash_def [op_defs] op_checksig_def [op_defs]

lemma rthen_eq_Inr: "rthen r f = Inr y \<longleftrightarrow> (\<exists>x. r = Inr x \<and> f x = Inr y)"
  by (cases r) (simp_all add: rthen_def)

lemma rthen_Inr [simp]: "rthen (Inr x) f = f x"
  by (simp add: rthen_def)

lemma rthen_Inl [simp]: "rthen (Inl e) f = Inl e"
  by (simp add: rthen_def)

lemma read_num_eq_Inr: "read_num f vch = Inr n \<longleftrightarrow> CScriptNum vch f = Inr n"
  by (auto simp: read_num_def split: sum.splits)

lemma if_eq_elim: "(if c then a else b) = r \<Longrightarrow> (c \<Longrightarrow> a = r \<Longrightarrow> P) \<Longrightarrow> (\<not> c \<Longrightarrow> b = r \<Longrightarrow> P) \<Longrightarrow> P"
  by (cases c) simp_all

lemma Inl_Inr_elim: "Inl x = Inr y \<Longrightarrow> P"
  by simp

lemma not_None_the: "x \<noteq> None \<Longrightarrow> x = Some (the x)"
  by simp

lemma op_nopx_Inr: "op_nopx ctx st = Inr st' \<Longrightarrow> st' = st"
  by (simp add: op_nopx_def split: if_splits)

text \<open>
  The instructions are grouped by the function that executes them; a successful
  \<open>exec_opcode\<close> went through one of the groups.
\<close>

lemma exec_opcode_cases:
  assumes "exec_opcode ctx fExec opcode pc st = Inr st'"
  obtains
    (const_case) "op_constant opcode st = Inr st'"
  | (nopcase) "st' = st"
  | (if_case) "op_if fExec opcode st = Inr st'"
  | (else_case) "op_else st = Inr st'"
  | (endif_case) "op_endif st = Inr st'"
  | (verify_case) "op_verify st = Inr st'"
  | (alt_case) "op_altstack opcode st = Inr st'"
  | (stack_case) f where "stack_op opcode = Some f" "op_stack f st = Inr st'"
  | (pick_case) m where "op_pick_roll m opcode st = Inr st'"
  | (equal_case) "op_equal opcode st = Inr st'"
  | (unary_case) m where "op_unary m opcode st = Inr st'"
  | (binary_case) m where "op_binary m opcode st = Inr st'"
  | (within_case) m where "op_within m st = Inr st'"
  | (hash_case) "op_hash ctx opcode st = Inr st'"
  | (codesep_case) "st' = st\<lparr>pbegincodehash := pc\<rparr>"
  | (checksig_case) "op_checksig ctx opcode st = Inr st'"
  | (multisig_case) m where "op_checkmultisig ctx m opcode st = Inr st'"
proof -
  note stk = stack_case [OF not_None_the]
  note nop = nopcase [OF sym, OF Inr_inject] nopcase [OF op_nopx_Inr]
  note sep = codesep_case [OF sym, OF Inr_inject]
  show thesis
    using assms unfolding exec_opcode_def Let_def
    by - (elim if_eq_elim,
        (erule const_case if_case else_case endif_case verify_case alt_case pick_case equal_case
           unary_case binary_case within_case hash_case checksig_case multisig_case nop sep
         | (rule stk, assumption, assumption) | erule Inl_Inr_elim)+)
qed

lemma eval_loop_Nil [simp]: "eval_loop ctx [] st = Inr st"
  by (simp add: eval_loop.simps)

lemma eval_loop_GetOp:
  "GetOp pc = Some (opcode, vch, pc') \<Longrightarrow>
   eval_loop ctx pc st = rthen (eval_step ctx opcode vch pc' st) (eval_loop ctx pc')"
  by (subst eval_loop.simps) (auto simp: rthen_def split: sum.splits)

lemma eval_loop_inv:
  assumes "eval_loop ctx pc st = Inr st'" "P st"
    and "\<And>opcode vch pc st st'. P st \<Longrightarrow> eval_step ctx opcode vch pc st = Inr st' \<Longrightarrow> P st'"
  shows "P st'"
  using assms
proof (induction ctx pc st rule: eval_loop.induct)
  case (1 ctx pc st)
  show ?case
  proof (cases "pc = []")
    case False
    with "1.prems"(1) obtain opcode vch pc' st1 where
      g: "GetOp pc = Some (opcode, vch, pc')" and s1: "eval_step ctx opcode vch pc' st = Inr st1"
      and l: "eval_loop ctx pc' st1 = Inr st'"
      by (subst (asm) eval_loop.simps) (auto split: option.splits sum.splits)
    have "P st1" using "1.prems"(2) s1 by (rule "1.prems"(3))
    then show ?thesis using "1.IH" [OF False g refl refl s1 l] "1.prems"(3) by blast
  qed (use "1.prems" in simp)
qed

section \<open>Resource limits\<close>

text \<open>The hash functions give short results: 20 bytes or 32 bytes.\<close>

definition hash_sizes :: "script_ctx \<Rightarrow> bool" where
  "hash_sizes ctx \<longleftrightarrow>
     (\<forall>x. length (h_RIPEMD160 ctx x) = 20 \<and> length (h_SHA1 ctx x) = 20 \<and> length (h_SHA256 ctx x) = 32 \<and>
          length (h_HASH160 ctx x) = 20 \<and> length (h_HASH256 ctx x) = 32)"

definition small_elems :: "valtype list \<Rightarrow> bool" where
  "small_elems s \<longleftrightarrow> (\<forall>x \<in> set s. length x \<le> MAX_SCRIPT_ELEMENT_SIZE)"

definition within_limits :: "eval_state \<Rightarrow> bool" where
  "within_limits st \<longleftrightarrow>
     length (stack st) + length (altstack st) \<le> 1000 \<and> small_elems (stack st) \<and> small_elems (altstack st)"

lemma small_elems_simps [simp]:
  "small_elems []" "small_elems (x # s) \<longleftrightarrow> length x \<le> MAX_SCRIPT_ELEMENT_SIZE \<and> small_elems s"
  "small_elems (s @ t) \<longleftrightarrow> small_elems s \<and> small_elems t"
  by (auto simp: small_elems_def)

lemma small_elems_sub: "small_elems s \<Longrightarrow> small_elems (take n s)" "small_elems s \<Longrightarrow> small_elems (drop n s)"
  "small_elems s \<Longrightarrow> n < length s \<Longrightarrow> length (s ! n) \<le> MAX_SCRIPT_ELEMENT_SIZE"
  "small_elems s \<Longrightarrow> small_elems (tl s)"
  by (auto simp: small_elems_def dest: in_set_takeD in_set_dropD list.set_sel(2) [rotated])
    (metis list.sel(2) list.set_sel(2))

lemma short_num: "\<bar>n\<bar> < 2 ^ 39 \<Longrightarrow> length (scriptnum_serialize n) \<le> MAX_SCRIPT_ELEMENT_SIZE"
  using length_scriptnum_serialize [of n 4] by (simp add: MAX_SCRIPT_ELEMENT_SIZE_def)

lemma short_bool [simp]: "length (bool_vch b) \<le> MAX_SCRIPT_ELEMENT_SIZE"
  by (simp add: bool_vch_def vchTrue_def vchFalse_def MAX_SCRIPT_ELEMENT_SIZE_def)

lemma short_hash: "hash_sizes ctx \<Longrightarrow> length (hash_op ctx opcode x) \<le> MAX_SCRIPT_ELEMENT_SIZE"
  by (simp add: hash_sizes_def hash_op_def MAX_SCRIPT_ELEMENT_SIZE_def)

lemma unary_num_bound: "\<bar>n\<bar> < 2 ^ 31 \<Longrightarrow> \<bar>unary_num opcode n\<bar> < 2 ^ 39"
  by (auto simp: unary_num_def bool_num_def)

lemma binary_num_bound: "\<bar>m\<bar> < 2 ^ 31 \<Longrightarrow> \<bar>n\<bar> < 2 ^ 31 \<Longrightarrow> \<bar>binary_num opcode m n\<bar> < 2 ^ 39"
  by (auto simp: binary_num_def bool_num_def)

lemma stack_rearrange_small:
  "stack_2drop s = Some s' \<Longrightarrow> small_elems s \<Longrightarrow> small_elems s'"
  "stack_2dup s = Some s' \<Longrightarrow> small_elems s \<Longrightarrow> small_elems s'"
  "stack_3dup s = Some s' \<Longrightarrow> small_elems s \<Longrightarrow> small_elems s'"
  "stack_2over s = Some s' \<Longrightarrow> small_elems s \<Longrightarrow> small_elems s'"
  "stack_2rot s = Some s' \<Longrightarrow> small_elems s \<Longrightarrow> small_elems s'"
  "stack_2swap s = Some s' \<Longrightarrow> small_elems s \<Longrightarrow> small_elems s'"
  "stack_ifdup s = Some s' \<Longrightarrow> small_elems s \<Longrightarrow> small_elems s'"
  "stack_drop s = Some s' \<Longrightarrow> small_elems s \<Longrightarrow> small_elems s'"
  "stack_dup s = Some s' \<Longrightarrow> small_elems s \<Longrightarrow> small_elems s'"
  "stack_nip s = Some s' \<Longrightarrow> small_elems s \<Longrightarrow> small_elems s'"
  "stack_over s = Some s' \<Longrightarrow> small_elems s \<Longrightarrow> small_elems s'"
  "stack_rot s = Some s' \<Longrightarrow> small_elems s \<Longrightarrow> small_elems s'"
  "stack_swap s = Some s' \<Longrightarrow> small_elems s \<Longrightarrow> small_elems s'"
  "stack_tuck s = Some s' \<Longrightarrow> small_elems s \<Longrightarrow> small_elems s'"
  by (erule stack_2drop.elims stack_2dup.elims stack_3dup.elims stack_2over.elims stack_2rot.elims stack_2swap.elims stack_ifdup.elims stack_drop.elims stack_dup.elims stack_nip.elims stack_over.elims stack_rot.elims stack_swap.elims stack_tuck.elims; simp split: if_splits; blast?)+

lemma stack_count_small:
  "stack_depth s = Some s' \<Longrightarrow> length s \<le> 1000 \<Longrightarrow> small_elems s \<Longrightarrow> small_elems s'"
  "stack_size s = Some s' \<Longrightarrow> small_elems s \<Longrightarrow> small_elems s'"
  by (auto simp: stack_depth_def MAX_SCRIPT_ELEMENT_SIZE_def elim!: stack_size.elims
      intro!: short_num [unfolded MAX_SCRIPT_ELEMENT_SIZE_def])

lemma stack_op_cases:
  "stack_op opcode = Some f \<Longrightarrow>
   f \<in> set [stack_2drop, stack_2dup, stack_3dup, stack_2over, stack_2rot, stack_2swap, stack_ifdup,
     stack_depth, stack_drop, stack_dup, stack_nip, stack_over, stack_rot, stack_swap, stack_tuck,
     stack_size]"
  by (drule map_of_SomeD [OF trans [OF stack_op_def [symmetric]]]) auto

lemma stack_op_small:
  assumes "stack_op opcode = Some f" "f s = Some s'" "small_elems s" "length s \<le> 1000"
  shows "small_elems s'"
  using stack_op_cases [OF assms(1)] assms(2-)
  by (auto dest: stack_rearrange_small stack_count_small)

lemma op_altstack_cases:
  assumes "op_altstack opcode st = Inr st'"
  obtains x s where "stack st = x # s" "st' = st\<lparr>stack := s, altstack := x # altstack st\<rparr>"
  | x s where "altstack st = x # s" "st' = st\<lparr>stack := x # stack st, altstack := s\<rparr>"
  using assms by (auto simp: op_altstack_def split: if_splits list.splits)

lemma constant_short:
  "length (scriptnum_serialize (uint (opcode :: opcodetype) - (uint OP_1 - 1))) \<le> MAX_SCRIPT_ELEMENT_SIZE"
proof (rule short_num)
  have "0 \<le> uint opcode" "uint opcode < 256" using uint_lt2p [of opcode] by simp_all
  moreover have "uint OP_1 = 81" by simp
  ultimately have "\<bar>uint opcode - (uint OP_1 - 1)\<bar> < 256" by linarith
  also have "\<dots> \<le> 2 ^ 39" by simp
  finally show "\<bar>uint opcode - (uint OP_1 - 1)\<bar> < 2 ^ 39" .
qed

text \<open>What a group of instructions leaves on the main stack is small; the other stack only moves.\<close>

lemma op_unary_small:
  "op_unary m opcode st = Inr st' \<Longrightarrow> small_elems (stack st) \<Longrightarrow>
   small_elems (stack st') \<and> altstack st' = altstack st"
  by (auto simp: op_unary_def rthen_eq_Inr read_num_eq_Inr split: list.splits
      dest!: CScriptNum_bound intro!: short_num unary_num_bound)

lemma op_binary_small:
  "op_binary m opcode st = Inr st' \<Longrightarrow> small_elems (stack st) \<Longrightarrow>
   small_elems (stack st') \<and> altstack st' = altstack st"
  by (auto simp: op_binary_def Let_def rthen_eq_Inr read_num_eq_Inr split: list.splits if_splits
      dest!: CScriptNum_bound intro!: short_num binary_num_bound)

lemma op_within_small:
  "op_within m st = Inr st' \<Longrightarrow> small_elems (stack st) \<Longrightarrow>
   small_elems (stack st') \<and> altstack st' = altstack st"
  by (auto simp: op_within_def rthen_eq_Inr split: list.splits)

lemma op_pick_roll_small:
  "op_pick_roll m opcode st = Inr st' \<Longrightarrow> small_elems (stack st) \<Longrightarrow>
   small_elems (stack st') \<and> altstack st' = altstack st"
  by (auto simp: op_pick_roll_def Let_def rthen_eq_Inr small_elems_sub split: if_splits)

lemma op_checksig_small:
  "op_checksig ctx opcode st = Inr st' \<Longrightarrow> small_elems (stack st) \<Longrightarrow>
   small_elems (stack st') \<and> altstack st' = altstack st"
  by (auto simp: op_checksig_def Let_def split: list.splits option.splits if_splits)

lemma multisig_finish_cases:
  assumes "multisig_finish ctx opcode b s st = Inr st'"
  obtains d s' where "s = d # s'" "st' = st\<lparr>stack := s'\<rparr> \<or> st' = st\<lparr>stack := bool_vch b # s'\<rparr>"
  using assms by (auto simp: multisig_finish_def split: list.splits if_splits)

lemma op_checkmultisig_cases:
  assumes "op_checkmultisig ctx m opcode st = Inr st'"
  obtains n k b d s where "0 \<le> n" "nOpCount st + n \<le> 201" "drop k (stack st) = d # s"
    "st' = st\<lparr>nOpCount := nOpCount st + n, stack := s\<rparr> \<or>
     st' = st\<lparr>nOpCount := nOpCount st + n, stack := bool_vch b # s\<rparr>"
proof -
  from assms obtain n k b where n: "0 \<le> n" "nOpCount st + n \<le> 201"
    and f: "multisig_finish ctx opcode b (drop k (stack st)) (st\<lparr>nOpCount := nOpCount st + n\<rparr>) = Inr st'"
    unfolding op_checkmultisig_def Let_def
    by (auto simp: rthen_eq_Inr not_less split: if_splits)
  from f show thesis by (rule multisig_finish_cases) (rule that [OF n], auto)
qed

lemma op_checkmultisig_small:
  assumes "op_checkmultisig ctx m opcode st = Inr st'" "small_elems (stack st)"
  shows "small_elems (stack st') \<and> altstack st' = altstack st"
proof -
  from assms(1) obtain n k b d s where d: "drop k (stack st) = d # s"
    and st': "st' = st\<lparr>nOpCount := nOpCount st + n, stack := s\<rparr> \<or>
      st' = st\<lparr>nOpCount := nOpCount st + n, stack := bool_vch b # s\<rparr>"
    by (rule op_checkmultisig_cases)
  have "small_elems (d # s)" using small_elems_sub(2) [OF assms(2), of k] d by simp
  then show ?thesis using st' by auto
qed

lemma exec_opcode_small:
  assumes "exec_opcode ctx fExec opcode pc st = Inr st'" "hash_sizes ctx"
    and st: "small_elems (stack st)" "small_elems (altstack st)" "length (stack st) \<le> 1000"
  shows "small_elems (stack st') \<and> small_elems (altstack st')"
  using assms(1)
proof (cases rule: exec_opcode_cases)
  case (stack_case f)
  then show ?thesis using st stack_op_small [OF stack_case(1)]
    by (auto simp: op_stack_def split: option.splits)
next
  case alt_case
  then show ?thesis using st by (cases rule: op_altstack_cases) auto
next
  case hash_case
  then show ?thesis using st short_hash [OF assms(2)] by (auto simp: op_hash_def split: list.splits)
next
  case (multisig_case m)
  then show ?thesis using st op_checkmultisig_small by metis
qed (use st constant_short [of opcode] in
    \<open>auto simp: op_constant_def op_if_def op_else_def op_endif_def op_verify_def op_equal_def Let_def
      split: if_splits list.splits
      dest: op_unary_small op_binary_small op_within_small op_pick_roll_small op_checksig_small\<close>)

theorem eval_step_within_limits:
  assumes "eval_step ctx opcode vch pc st = Inr st'" "hash_sizes ctx" "within_limits st"
  shows "within_limits st'"
proof -
  let ?st = "count_op opcode st"
  have c: "stack ?st = stack st" "altstack ?st = altstack st" by (simp_all add: count_op_def)
  from assms(1) have v: "length vch \<le> MAX_SCRIPT_ELEMENT_SIZE"
    and d: "dispatch ctx opcode vch pc ?st = Inr st'" and l: "length (stack st') + length (altstack st') \<le> 1000"
    by (auto simp: eval_step_def rthen_eq_Inr split: if_splits)
  have "small_elems (stack st') \<and> small_elems (altstack st')"
    using d v assms(3) exec_opcode_small [OF _ assms(2), of _ opcode pc ?st st'] c
    by (auto simp: dispatch_def Let_def within_limits_def split: if_splits)
  with l show ?thesis by (simp add: within_limits_def)
qed


end
