(* ===== verification/Interpreter_Limits.thy ===== *)
theory Interpreter_Limits
  imports Interpreter_Props
begin

unbundle bit_operations_syntax

text \<open>
  What a script that evaluates without error must look like: the resource limits of
  \<^verbatim>\<open>EvalScript\<close> hold of the whole script, whichever branches are executed, and of the
  stack it leaves; scripts that begin with \<^verbatim>\<open>OP_RETURN\<close> never succeed.
\<close>

section \<open>The instructions of a script\<close>

text \<open>A script as the list of its instructions; \<open>None\<close> when one is cut short.\<close>

function script_ops :: "bytes \<Rightarrow> (opcodetype \<times> valtype) list option" where
  "script_ops pc =
     (if pc = [] then Some []
      else case GetOp pc of
             None \<Rightarrow> None
           | Some (opcode, vch, pc') \<Rightarrow> map_option ((#) (opcode, vch)) (script_ops pc'))"
  by pat_completeness auto
termination by (relation "measure length") (auto dest: GetOp_shrinks)

declare script_ops.simps [simp del]

lemma script_ops_Nil [simp]: "script_ops [] = Some []"
  by (simp add: script_ops.simps)

lemma script_ops_GetOp:
  "GetOp pc = Some (opcode, vch, pc') \<Longrightarrow>
   script_ops pc = map_option ((#) (opcode, vch)) (script_ops pc')"
  by (subst script_ops.simps) auto

definition counted :: "opcodetype \<times> valtype \<Rightarrow> bool" where
  "counted op \<longleftrightarrow> fst op > OP_16"

definition op_allowed :: "opcodetype \<times> valtype \<Rightarrow> bool" where
  "op_allowed op \<longleftrightarrow> \<not> is_disabled (fst op) \<and> length (snd op) \<le> MAX_SCRIPT_ELEMENT_SIZE"

section \<open>The operation counter\<close>

lemma op_checkmultisig_count:
  assumes "op_checkmultisig ctx m opcode st = Inr st'"
  shows "nOpCount st \<le> nOpCount st' \<and> nOpCount st' \<le> 201"
  using assms by (rule op_checkmultisig_cases) auto

lemma exec_opcode_count:
  assumes "exec_opcode ctx fExec opcode pc st = Inr st'"
  shows "nOpCount st \<le> nOpCount st' \<and> (nOpCount st \<le> 201 \<longrightarrow> nOpCount st' \<le> 201)"
  using assms
proof (cases rule: exec_opcode_cases)
  case (multisig_case m)
  then show ?thesis using op_checkmultisig_count by metis
qed (auto simp: op_defs Let_def rthen_eq_Inr split: if_splits list.splits option.splits)

lemma eval_step_count:
  assumes "eval_step ctx opcode vch pc st = Inr st'" "nOpCount st \<le> 201"
  shows "nOpCount st + (if counted (opcode, vch) then 1 else 0) \<le> nOpCount st'" "nOpCount st' \<le> 201"
    "op_allowed (opcode, vch)"
proof -
  let ?st = "count_op opcode st"
  from assms(1) have d: "dispatch ctx opcode vch pc ?st = Inr st'"
    and n: "nOpCount ?st \<le> 201" and a: "op_allowed (opcode, vch)"
    using assms(2) by (auto simp: eval_step_def rthen_eq_Inr op_allowed_def count_op_def split: if_splits)
  have "nOpCount ?st \<le> nOpCount st' \<and> nOpCount st' \<le> 201"
    using d n exec_opcode_count [of ctx _ opcode pc ?st st']
    by (auto simp: dispatch_def Let_def split: if_splits)
  then show "nOpCount st + (if counted (opcode, vch) then 1 else 0) \<le> nOpCount st'" "nOpCount st' \<le> 201"
    by (auto simp: count_op_def counted_def)
  show "op_allowed (opcode, vch)" by (rule a)
qed

lemma eval_loop_ops:
  assumes "eval_loop ctx pc st = Inr st'" "nOpCount st \<le> 201"
  shows "\<exists>ops. script_ops pc = Some ops \<and> list_all op_allowed ops \<and>
           nOpCount st + int (length (filter counted ops)) \<le> 201"
  using assms
proof (induction ctx pc st rule: eval_loop.induct)
  case (1 ctx pc st)
  show ?case
  proof (cases "pc = []")
    case False
    with "1.prems"(1) obtain opcode vch pc' st1 where
      g: "GetOp pc = Some (opcode, vch, pc')" and s1: "eval_step ctx opcode vch pc' st = Inr st1"
      and l: "eval_loop ctx pc' st1 = Inr st'"
      by (subst (asm) eval_loop.simps) (auto split: option.splits sum.splits)
    note c = eval_step_count [OF s1 "1.prems"(2)]
    from "1.IH" [OF False g refl refl s1 l c(2)] obtain ops where
      "script_ops pc' = Some ops" "list_all op_allowed ops"
      "nOpCount st1 + int (length (filter counted ops)) \<le> 201" by blast
    then show ?thesis using c(1,3) by (simp add: script_ops_GetOp [OF g] split: if_splits)
  qed (use "1.prems" in simp)
qed

lemma EvalScript_eq_Inr:
  "EvalScript ctx stk s = Inr stk' \<longleftrightarrow>
     length s \<le> 10000 \<and> (\<exists>st. eval_loop ctx s (init_state stk s) = Inr st \<and> vfExec st = [] \<and> stack st = stk')"
  by (auto simp: EvalScript_def rthen_eq_Inr not_less split: if_splits)

section \<open>Properties\<close>

text \<open>C5: a script that evaluates successfully parses completely, is at most 10000 bytes
  long, contains at most 201 instructions above \<^verbatim>\<open>OP_16\<close>, no disabled opcode and no push of
  more than 520 bytes -- also in branches that are not executed.\<close>

theorem EvalScript_static_limits:
  assumes "EvalScript ctx stk s = Inr stk'"
  shows "length s \<le> 10000 \<and>
    (\<exists>ops. script_ops s = Some ops \<and> length (filter (\<lambda>(opcode, _). opcode > OP_16) ops) \<le> 201 \<and>
       list_all (\<lambda>(opcode, vch). \<not> is_disabled opcode \<and> length vch \<le> MAX_SCRIPT_ELEMENT_SIZE) ops)"
proof -
  have f: "counted = (\<lambda>(opcode, _). opcode > OP_16)" by (auto simp: counted_def)
  from assms show ?thesis
    using eval_loop_ops [of ctx s "init_state stk s"]
    by (fastforce simp: EvalScript_eq_Inr init_state_def f op_allowed_def list_all_iff)
qed

text \<open>Three instructions, the last of them counted.\<close>

definition demo_ctx :: script_ctx where
  "demo_ctx = \<lparr>flags = 0, CheckSig = (\<lambda>sig key code. sig = key), h_RIPEMD160 = (\<lambda>x. replicate 20 0),
     h_SHA1 = (\<lambda>x. replicate 20 0), h_SHA256 = (\<lambda>x. replicate 32 0),
     h_HASH160 = (\<lambda>x. take 20 (x @ replicate 20 0)), h_HASH256 = (\<lambda>x. replicate 32 0)\<rparr>"

lemma demo_hash_sizes: "hash_sizes demo_ctx"
  by (simp add: hash_sizes_def demo_ctx_def min_def)

lemma demo_add: "EvalScript demo_ctx [] [OP_1, OP_2, OP_ADD] = Inr [[3]]"
  by code_simp

theorem EvalScript_static_limits_witness:
  "length [OP_1, OP_2, OP_ADD] \<le> 10000 \<and>
    (\<exists>ops. script_ops [OP_1, OP_2, OP_ADD] = Some ops \<and>
       length (filter (\<lambda>(opcode, _). opcode > OP_16) ops) \<le> 201 \<and>
       list_all (\<lambda>(opcode, vch). \<not> is_disabled opcode \<and> length vch \<le> MAX_SCRIPT_ELEMENT_SIZE) ops)"
  by (rule EvalScript_static_limits [OF demo_add])

text \<open>C4: started within the limits, a successful evaluation leaves at most 1000 elements on
  the stack, each at most 520 bytes long; the hash functions are assumed to give 20 or 32
  bytes.\<close>

theorem EvalScript_stack_limits:
  assumes "EvalScript ctx stk s = Inr stk'" "hash_sizes ctx"
    and "length stk \<le> 1000" "list_all (\<lambda>x. length x \<le> MAX_SCRIPT_ELEMENT_SIZE) stk"
  shows "length stk' \<le> 1000 \<and> list_all (\<lambda>x. length x \<le> MAX_SCRIPT_ELEMENT_SIZE) stk'"
proof -
  from assms(1) obtain st where l: "eval_loop ctx s (init_state stk s) = Inr st" and st: "stack st = stk'"
    by (auto simp: EvalScript_eq_Inr)
  have "within_limits (init_state stk s)"
    using assms(3,4) by (simp add: within_limits_def init_state_def small_elems_def list_all_iff)
  with l have "within_limits st" by (rule eval_loop_inv) (rule eval_step_within_limits [OF _ assms(2)])
  then show ?thesis using st by (simp add: within_limits_def small_elems_def list_all_iff)
qed

theorem EvalScript_stack_limits_witness:
  "length [[3 :: byte]] \<le> 1000 \<and> list_all (\<lambda>x. length x \<le> MAX_SCRIPT_ELEMENT_SIZE) [[3 :: byte]]"
  by (rule EvalScript_stack_limits [OF demo_add demo_hash_sizes]) simp_all

section \<open>Unspendable outputs\<close>

lemma eval_step_OP_RETURN: "vfExec st = [] \<Longrightarrow> \<exists>e. eval_step ctx OP_RETURN [] pc st = Inl e"
  by (auto simp: eval_step_def is_disabled_def count_op_def dispatch_def exec_opcode_def Let_def)

lemma EvalScript_OP_RETURN: "\<exists>e. EvalScript ctx stk (OP_RETURN # s) = Inl e"
  using eval_step_OP_RETURN [of "init_state stk (OP_RETURN # s)" ctx s]
  by (auto simp: EvalScript_def init_state_def eval_loop_GetOp [OF GetOp_opcode])

text \<open>An output script that \<^verbatim>\<open>IsUnspendable\<close> recognises cannot be spent: no input
  script, signature checker or set of flags makes \<^verbatim>\<open>VerifyScript\<close> succeed, so pruning such
  outputs from the coin database is safe.\<close>

theorem IsUnspendable_sound:
  assumes "IsUnspendable scriptPubKey"
  shows "VerifyScript ctx scriptSig scriptPubKey \<noteq> Inr ()"
proof -
  obtain s where "scriptPubKey = OP_RETURN # s"
    using assms by (cases scriptPubKey) (auto simp: IsUnspendable_def)
  then show ?thesis
    using EvalScript_OP_RETURN [of ctx _ s] by (auto simp: VerifyScript_def rthen_eq_Inr split: if_splits)
      (metis Inl_Inr_False)+
qed

theorem IsUnspendable_sound_witness:
  "IsUnspendable [OP_RETURN, OP_1] \<and> VerifyScript demo_ctx [OP_1] [OP_RETURN, OP_1] \<noteq> Inr ()"
proof -
  have u: "IsUnspendable [OP_RETURN, OP_1]" by (simp add: IsUnspendable_def)
  show ?thesis using u IsUnspendable_sound [OF u] by blast
qed

end
