(* ===== verification/Sighash.thy ===== *)
theory Sighash
  imports Transaction Interpreter_Limits
begin

unbundle bit_operations_syntax

text \<open>
  The signature hash of \<^verbatim>\<open>src/src/script/interpreter.cpp\<close>: the wrapper
  \<^verbatim>\<open>CTransactionSignatureSerializer\<close>, which serializes a transaction with the
  modifications of the hash type done in place, \<^verbatim>\<open>SignatureHash\<close> and the signature checker.
  The hash function (\<^verbatim>\<open>CHashWriter\<close>) and the ECDSA verification are parameters.
\<close>

section \<open>The serializer\<close>

record CTransactionSignatureSerializer =
  txTo :: CTransaction
  scriptCode :: script
  nIn :: nat
  fAnyoneCanPay :: bool
  fHashSingle :: bool
  fHashNone :: bool

definition make_serializer :: "CTransaction \<Rightarrow> script \<Rightarrow> nat \<Rightarrow> uint32 \<Rightarrow> CTransactionSignatureSerializer" where
  "make_serializer tx code i nHashType =
     \<lparr>txTo = tx, scriptCode = code, nIn = i,
      fAnyoneCanPay = (nHashType AND SIGHASH_ANYONECANPAY \<noteq> 0),
      fHashSingle = (nHashType AND 0x1f = SIGHASH_SINGLE),
      fHashNone = (nHashType AND 0x1f = SIGHASH_NONE)\<rparr>"

function count_separators :: "bytes \<Rightarrow> nat" where
  "count_separators pc =
     (case GetOp pc of
        None \<Rightarrow> 0
      | Some (opcode, _, pc') \<Rightarrow> (if opcode = OP_CODESEPARATOR then 1 else 0) + count_separators pc')"
  by pat_completeness auto
termination by (relation "measure length") (auto dest: GetOp_shrinks)

lemma GetOp2_True_shrinks: "(True, opcode, v, pc') = GetOp2 pc \<Longrightarrow> length pc' < length pc"
  using GetOp_shrinks [of pc opcode v pc'] by (simp add: GetOp_eq_Some)

text \<open>
  The second loop; \<open>seg\<close> holds the bytes between \<^verbatim>\<open>itBegin\<close> and \<^verbatim>\<open>it\<close>. The
  \<^verbatim>\<open>const_iterator\<close> version of \<^verbatim>\<open>GetOp\<close> moves the iterator also when it fails, and the
  last write goes up to wherever it was left.
\<close>

function write_code :: "bytes \<Rightarrow> bytes \<Rightarrow> bytes" where
  "write_code seg pc =
     (case GetOp2 pc of (fRet, opcode, _, pc') \<Rightarrow>
        let seg' = seg @ take (length pc - length pc') pc in
        if \<not> fRet then (if seg @ pc \<noteq> [] then seg' else [])
        else if opcode = OP_CODESEPARATOR then take (length seg' - 1) seg' @ write_code [] pc'
        else write_code seg' pc')"
  by pat_completeness auto
termination
  by (relation "measure (\<lambda>(_, pc). length pc)") (auto dest!: GetOp2_True_shrinks)

declare count_separators.simps [simp del] write_code.simps [simp del]

definition SerializeScriptCode :: "script \<Rightarrow> bytes" where
  "SerializeScriptCode code =
     WriteCompactSize (of_nat (length code - count_separators code)) @ write_code [] code"

definition SerializeInput :: "CTransactionSignatureSerializer \<Rightarrow> nat \<Rightarrow> bytes" where
  "SerializeInput s nInput0 =
     (let nInput = (if fAnyoneCanPay s then nIn s else nInput0);
          i = vin (txTo s) ! nInput
      in SerializeOutPoint (prevout i) @
         (if nInput \<noteq> nIn s then SerializeBytes [] else SerializeScriptCode (scriptCode s)) @
         (if nInput \<noteq> nIn s \<and> (fHashSingle s \<or> fHashNone s) then WRITEDATA (0 :: uint32)
          else WRITEDATA (nSequence i)))"

definition SerializeOutput :: "CTransactionSignatureSerializer \<Rightarrow> nat \<Rightarrow> bytes" where
  "SerializeOutput s nOutput =
     (if fHashSingle s \<and> nOutput \<noteq> nIn s then SerializeTxOut CTxOut_null
      else SerializeTxOut (vout (txTo s) ! nOutput))"

definition sig_serialize :: "CTransactionSignatureSerializer \<Rightarrow> bytes" where
  "sig_serialize s =
     (let nInputs = (if fAnyoneCanPay s then 1 else length (vin (txTo s)));
          nOutputs = (if fHashNone s then 0 else if fHashSingle s then nIn s + 1 else length (vout (txTo s)))
      in WRITEDATA (nVersion (txTo s)) @
         WriteCompactSize (of_nat nInputs) @ concat (map (SerializeInput s) [0 ..< nInputs]) @
         WriteCompactSize (of_nat nOutputs) @ concat (map (SerializeOutput s) [0 ..< nOutputs]) @
         WRITEDATA (nLockTime (txTo s)))"

definition SignatureHash ::
  "(bytes \<Rightarrow> uint256) \<Rightarrow> script \<Rightarrow> CTransaction \<Rightarrow> nat \<Rightarrow> uint32 \<Rightarrow> uint256" where
  "SignatureHash Hash code tx i nHashType =
     (if i \<ge> length (vin tx) then 1
      else if nHashType AND 0x1f = SIGHASH_SINGLE \<and> i \<ge> length (vout tx) then 1
      else Hash (sig_serialize (make_serializer tx code i nHashType) @ WRITEDATA nHashType))"

text \<open>
  \<^verbatim>\<open>TransactionSignatureChecker::CheckSig\<close>; \<open>IsValid\<close> is \<^verbatim>\<open>CPubKey::IsValid\<close> after the
  constructor, \<open>Verify\<close> the ECDSA verification.
\<close>

definition TransactionCheckSig ::
  "(bytes \<Rightarrow> uint256) \<Rightarrow> (valtype \<Rightarrow> bool) \<Rightarrow> (valtype \<Rightarrow> uint256 \<Rightarrow> valtype \<Rightarrow> bool) \<Rightarrow>
   CTransaction \<Rightarrow> nat \<Rightarrow> valtype \<Rightarrow> valtype \<Rightarrow> script \<Rightarrow> bool" where
  "TransactionCheckSig Hash IsValid Verify tx i vchSigIn vchPubKey code =
     (if \<not> IsValid vchPubKey then False
      else if vchSigIn = [] then False
      else
        let nHashType = ucast (last vchSigIn);
            vchSig = butlast vchSigIn;
            sighash = SignatureHash Hash code tx i nHashType
        in if \<not> Verify vchPubKey sighash vchSig then False else True)"

section \<open>Reference: the transaction that is signed\<close>

text \<open>
  The modified copy whose serialization the wrapper produces: separators are removed from the
  script code, which stands in the signed input; other inputs have empty scripts, and
  sequence number 0 unless all outputs are signed.
\<close>

function strip_separators :: "bytes \<Rightarrow> bytes" where
  "strip_separators pc =
     (case GetOp pc of
        None \<Rightarrow> pc
      | Some (opcode, _, pc') \<Rightarrow>
          (if opcode = OP_CODESEPARATOR then [] else take (length pc - length pc') pc) @ strip_separators pc')"
  by pat_completeness auto
termination by (relation "measure length") (auto dest: GetOp_shrinks)

declare strip_separators.simps [simp del]

definition signed_input :: "script \<Rightarrow> nat \<Rightarrow> bool \<Rightarrow> nat \<Rightarrow> CTxIn \<Rightarrow> CTxIn" where
  "signed_input code i keep_others j txin =
     (if j = i then txin\<lparr>scriptSig := strip_separators code\<rparr>
      else if keep_others then txin\<lparr>scriptSig := []\<rparr>
      else txin\<lparr>scriptSig := [], nSequence := 0\<rparr>)"

definition signed_inputs :: "CTransaction \<Rightarrow> script \<Rightarrow> nat \<Rightarrow> uint32 \<Rightarrow> CTxIn list" where
  "signed_inputs tx code i nHashType =
     (if nHashType AND SIGHASH_ANYONECANPAY \<noteq> 0 then [(vin tx ! i)\<lparr>scriptSig := strip_separators code\<rparr>]
      else map2 (signed_input code i
          (nHashType AND 0x1f \<noteq> SIGHASH_SINGLE \<and> nHashType AND 0x1f \<noteq> SIGHASH_NONE))
        [0 ..< length (vin tx)] (vin tx))"

definition signed_outputs :: "CTransaction \<Rightarrow> nat \<Rightarrow> uint32 \<Rightarrow> CTxOut list" where
  "signed_outputs tx i nHashType =
     (if nHashType AND 0x1f = SIGHASH_NONE then []
      else if nHashType AND 0x1f = SIGHASH_SINGLE then replicate i CTxOut_null @ [vout tx ! i]
      else vout tx)"

definition SerializeTxCore :: "uint32 \<Rightarrow> CTxIn list \<Rightarrow> CTxOut list \<Rightarrow> uint32 \<Rightarrow> bytes" where
  "SerializeTxCore v is os l =
     WRITEDATA v @ SerializeVec SerializeTxIn is @ SerializeVec SerializeTxOut os @ WRITEDATA l"

section \<open>Removing separators\<close>

lemma GetOp_codesep:
  assumes "GetOp pc = Some (OP_CODESEPARATOR, v, pc')"
  shows "pc = OP_CODESEPARATOR # pc'"
proof -
  have "GetOp2 pc = (True, OP_CODESEPARATOR, v, pc')" using assms by (simp add: GetOp_eq_Some)
  then show ?thesis
    by (auto simp: GetOp2_def getop_fail_def getop_data_def split: list.splits if_splits)
qed

lemma GetOp_consumed:
  assumes "GetOp pc = Some (opcode, v, pc')"
  shows "pc = take (length pc - length pc') pc @ pc'"
proof -
  obtain hdr where "pc = hdr @ v @ pc'" using GetOp_prefix [OF assms] by blast
  then show ?thesis by simp
qed

lemma write_code_strip:
  "script_ops pc \<noteq> None \<Longrightarrow> write_code seg pc = seg @ strip_separators pc"
proof (induction pc arbitrary: seg rule: script_ops.induct)
  case (1 pc)
  show ?case
  proof (cases "pc = []")
    case True
    then show ?thesis
      by (simp add: write_code.simps strip_separators.simps GetOp2_def getop_fail_def Let_def)
  next
    case False
    with "1.prems" obtain opcode v pc' where g: "GetOp pc = Some (opcode, v, pc')" and s: "script_ops pc' \<noteq> None"
      by (subst (asm) (2) script_ops.simps) (auto split: option.splits)
    have g2: "GetOp2 pc = (True, opcode, v, pc')" using g by (simp add: GetOp_eq_Some)
    note IH = "1.IH" [OF False g refl refl s]
    have c: "opcode = OP_CODESEPARATOR \<Longrightarrow> pc = OP_CODESEPARATOR # pc'" using GetOp_codesep g by blast
    show ?thesis
      using IH c by (subst write_code.simps, subst strip_separators.simps) (auto simp: g g2 Let_def)
  qed
qed

lemma length_strip: "length (strip_separators pc) + count_separators pc = length pc"
proof (induction pc rule: count_separators.induct)
  case (1 pc)
  show ?case
  proof (cases "GetOp pc")
    case (Some r)
    obtain opcode v pc' where r: "r = (opcode, v, pc')" by (cases r)
    have c: "opcode = OP_CODESEPARATOR \<Longrightarrow> pc = OP_CODESEPARATOR # pc'" using GetOp_codesep Some r by blast
    have l: "length pc' \<le> length pc" using GetOp_shrinks Some r by fastforce
    show ?thesis
      using "1.IH" [OF Some r [symmetric] refl] c l
      by (subst strip_separators.simps, subst count_separators.simps) (auto simp: Some r)
  qed (simp add: strip_separators.simps count_separators.simps)
qed

lemma SerializeScriptCode_strip:
  "script_ops code \<noteq> None \<Longrightarrow> SerializeScriptCode code = SerializeBytes (strip_separators code)"
  using length_strip [of code]
  by (simp add: SerializeScriptCode_def SerializeBytes_def write_code_strip
      add_implies_diff [of _ "count_separators code" "length code", symmetric])

section \<open>The serializer produces the signed transaction\<close>

definition sighash_ok :: "CTransaction \<Rightarrow> nat \<Rightarrow> uint32 \<Rightarrow> bool" where
  "sighash_ok tx i nHashType \<longleftrightarrow>
     i < length (vin tx) \<and> \<not> (nHashType AND 0x1f = SIGHASH_SINGLE \<and> i \<ge> length (vout tx))"

lemma SerializeInput_signed:
  assumes "sighash_ok tx i ht" "script_ops code \<noteq> None"
  shows "concat (map (SerializeInput (make_serializer tx code i ht))
           [0 ..< (if ht AND SIGHASH_ANYONECANPAY \<noteq> 0 then 1 else length (vin tx))]) =
         concat (map SerializeTxIn (signed_inputs tx code i ht))"
proof -
  have "map (SerializeInput (make_serializer tx code i ht))
           [0 ..< (if ht AND SIGHASH_ANYONECANPAY \<noteq> 0 then 1 else length (vin tx))] =
         map SerializeTxIn (signed_inputs tx code i ht)"
    using assms
    by (intro nth_equalityI) (auto simp: signed_inputs_def signed_input_def SerializeInput_def make_serializer_def
        SerializeTxIn_def SerializeScriptCode_strip sighash_ok_def Let_def)
  then show ?thesis by simp
qed

lemma SerializeOutput_signed:
  assumes "sighash_ok tx i ht"
  shows "concat (map (SerializeOutput (make_serializer tx code i ht))
           [0 ..< (if ht AND 0x1f = SIGHASH_NONE then 0 else if ht AND 0x1f = SIGHASH_SINGLE then i + 1
                   else length (vout tx))]) =
         concat (map SerializeTxOut (signed_outputs tx i ht))"
proof -
  have "map (SerializeOutput (make_serializer tx code i ht))
           [0 ..< (if ht AND 0x1f = SIGHASH_NONE then 0 else if ht AND 0x1f = SIGHASH_SINGLE then i + 1
                   else length (vout tx))] =
         map SerializeTxOut (signed_outputs tx i ht)"
    using assms
    by (intro nth_equalityI) (auto simp: signed_outputs_def SerializeOutput_def make_serializer_def
        sighash_ok_def nth_append less_Suc_eq)
  then show ?thesis by simp
qed

lemma length_signed:
  "length (signed_inputs tx code i ht) = (if ht AND SIGHASH_ANYONECANPAY \<noteq> 0 then 1 else length (vin tx))"
  "length (signed_outputs tx i ht) =
     (if ht AND 0x1f = SIGHASH_NONE then 0 else if ht AND 0x1f = SIGHASH_SINGLE then i + 1 else length (vout tx))"
  by (simp_all add: signed_inputs_def signed_outputs_def)

lemma make_serializer_fields:
  "txTo (make_serializer tx code i ht) = tx" "nIn (make_serializer tx code i ht) = i"
  "fAnyoneCanPay (make_serializer tx code i ht) \<longleftrightarrow> ht AND SIGHASH_ANYONECANPAY \<noteq> 0"
  "fHashSingle (make_serializer tx code i ht) \<longleftrightarrow> ht AND 0x1f = SIGHASH_SINGLE"
  "fHashNone (make_serializer tx code i ht) \<longleftrightarrow> ht AND 0x1f = SIGHASH_NONE"
  by (simp_all add: make_serializer_def)

lemma sig_serialize_core:
  assumes "sighash_ok tx i ht" "script_ops code \<noteq> None"
  shows "sig_serialize (make_serializer tx code i ht) =
    SerializeTxCore (nVersion tx) (signed_inputs tx code i ht) (signed_outputs tx i ht) (nLockTime tx)"
  by (simp only: sig_serialize_def SerializeTxCore_def SerializeVec_def length_signed Let_def
      make_serializer_fields SerializeInput_signed [OF assms] SerializeOutput_signed [OF assms(1)] append_assoc)

text \<open>C8: the in-place signature serializer is equivalent to copying the transaction, blanking
  what the hash type does not sign, and serializing the copy (without the \<^verbatim>\<open>blob\<close> field):
  \<^verbatim>\<open>SignatureHash\<close> hashes exactly that.\<close>

theorem SignatureHash_reference:
  assumes "i < length (vin tx)" "ht AND 0x1f = SIGHASH_SINGLE \<longrightarrow> i < length (vout tx)"
    and "script_ops code \<noteq> None"
  shows "SignatureHash Hash code tx i ht =
    Hash (SerializeTxCore (nVersion tx) (signed_inputs tx code i ht) (signed_outputs tx i ht) (nLockTime tx) @
          WRITEDATA ht)"
proof -
  have "sighash_ok tx i ht" using assms(1,2) by (auto simp: sighash_ok_def)
  with assms(3) show ?thesis
    by (simp add: SignatureHash_def sig_serialize_core) (auto simp: sighash_ok_def)
qed

theorem SignatureHash_reference_witness:
  "SignatureHash (\<lambda>b. of_nat (length b)) [OP_DUP, OP_CODESEPARATOR] demo_tx 0 SIGHASH_ALL =
    of_nat (length (SerializeTxCore (nVersion demo_tx)
      (signed_inputs demo_tx [OP_DUP, OP_CODESEPARATOR] 0 SIGHASH_ALL)
      (signed_outputs demo_tx 0 SIGHASH_ALL) (nLockTime demo_tx) @ WRITEDATA (SIGHASH_ALL :: uint32)))"
proof -
  have "script_ops [OP_DUP, OP_CODESEPARATOR] \<noteq> None" by code_simp
  then show ?thesis
    by (intro SignatureHash_reference [of 0 demo_tx SIGHASH_ALL _ "\<lambda>b. of_nat (length b)"])
      (simp_all add: demo_tx_def)
qed

section \<open>What a signature commits to\<close>

lemma SerializeTxCore_inj:
  assumes "SerializeTxCore v is os l = SerializeTxCore v' is' os' l'"
    and "length is \<le> 0x02000000" "list_all valid_txin is" "length os \<le> 0x02000000" "list_all valid_txout os"
    and "length is' \<le> 0x02000000" "list_all valid_txin is'" "length os' \<le> 0x02000000" "list_all valid_txout os'"
  shows "v = v' \<and> is = is' \<and> os = os' \<and> l = l'"
proof -
  have v: "v = v' \<and> SerializeVec SerializeTxIn is @ SerializeVec SerializeTxOut os @ WRITEDATA l =
      SerializeVec SerializeTxIn is' @ SerializeVec SerializeTxOut os' @ WRITEDATA l'"
    using u32.prefix_free [OF TrueI TrueI] assms(1) by (simp add: SerializeTxCore_def)
  then have i: "is = is' \<and> SerializeVec SerializeTxOut os @ WRITEDATA l = SerializeVec SerializeTxOut os' @ WRITEDATA l'"
    using assms by (intro codec.prefix_free [OF txin_codec.vector_codec]) (auto simp: list_all_iff)
  then have o: "os = os' \<and> WRITEDATA l = WRITEDATA l'"
    using assms by (intro codec.prefix_free [OF txout_codec.vector_codec]) (auto simp: list_all_iff)
  then have "l = l'" using u32.ser_inj by blast
  with v i o show ?thesis by blast
qed

lemma valid_signed_inputs:
  assumes "valid_tx tx" "length code \<le> 0x02000000" "i < length (vin tx)"
  shows "length (signed_inputs tx code i ht) \<le> 0x02000000" "list_all valid_txin (signed_inputs tx code i ht)"
  using assms length_strip [of code]
  by (auto simp: signed_inputs_def signed_input_def valid_tx_def valid_txin_def list_all_length)

lemma signs_all_simps:
  assumes "ht AND SIGHASH_ANYONECANPAY = 0" "ht AND 0x1f \<noteq> SIGHASH_NONE" "ht AND 0x1f \<noteq> SIGHASH_SINGLE"
  shows "signed_outputs tx i ht = vout tx"
    and "map prevout (signed_inputs tx code i ht) = map prevout (vin tx)"
    and "map nSequence (signed_inputs tx code i ht) = map nSequence (vin tx)"
    and "i < length (vin tx) \<Longrightarrow> scriptSig (signed_inputs tx code i ht ! i) = strip_separators code"
  using assms
  by (auto simp: signed_outputs_def signed_inputs_def signed_input_def intro!: nth_equalityI)

text \<open>C9: with a hash type that signs everything, the hashed bytes determine the version, the
  outpoints and sequence numbers of all inputs, all outputs, the lock time and the executed
  script: two transactions with the same signature preimage agree in all of these.\<close>

theorem sighash_all_commits:
  assumes "sig_serialize (make_serializer tx1 code1 i ht) = sig_serialize (make_serializer tx2 code2 i ht)"
    and "ht AND SIGHASH_ANYONECANPAY = 0" "ht AND 0x1f \<noteq> SIGHASH_NONE" "ht AND 0x1f \<noteq> SIGHASH_SINGLE"
    and "valid_tx tx1" "i < length (vin tx1)" "script_ops code1 \<noteq> None" "length code1 \<le> 0x02000000"
    and "valid_tx tx2" "i < length (vin tx2)" "script_ops code2 \<noteq> None" "length code2 \<le> 0x02000000"
  shows "nVersion tx1 = nVersion tx2 \<and> map prevout (vin tx1) = map prevout (vin tx2) \<and>
    map nSequence (vin tx1) = map nSequence (vin tx2) \<and> vout tx1 = vout tx2 \<and>
    nLockTime tx1 = nLockTime tx2 \<and> strip_separators code1 = strip_separators code2"
proof -
  note all = signs_all_simps [OF assms(2-4)]
  have ok: "sighash_ok tx1 i ht" "sighash_ok tx2 i ht" using assms(4,6,10) by (auto simp: sighash_ok_def)
  have "nVersion tx1 = nVersion tx2 \<and> signed_inputs tx1 code1 i ht = signed_inputs tx2 code2 i ht \<and>
      signed_outputs tx1 i ht = signed_outputs tx2 i ht \<and> nLockTime tx1 = nLockTime tx2"
    using assms(1) sig_serialize_core [OF ok(1) assms(7)] sig_serialize_core [OF ok(2) assms(11)]
      valid_signed_inputs [OF assms(5,8,6)] valid_signed_inputs [OF assms(9,12,10)] assms(5,9)
    by (intro SerializeTxCore_inj) (simp_all add: all(1) valid_tx_def)
  then show ?thesis
    using all(1) [of tx1 i] all(1) [of tx2 i] all(2) [of tx1 code1 i] all(2) [of tx2 code2 i]
      all(3) [of tx1 code1 i] all(3) [of tx2 code2 i] all(4) [OF assms(6), of code1] all(4) [OF assms(10), of code2]
    by simp
qed

theorem sighash_all_commits_witness:
  "nVersion demo_tx = nVersion (demo_tx\<lparr>blob := [1]\<rparr>) \<and>
   map prevout (vin demo_tx) = map prevout (vin (demo_tx\<lparr>blob := [1]\<rparr>)) \<and>
   map nSequence (vin demo_tx) = map nSequence (vin (demo_tx\<lparr>blob := [1]\<rparr>)) \<and>
   vout demo_tx = vout (demo_tx\<lparr>blob := [1]\<rparr>) \<and> nLockTime demo_tx = nLockTime (demo_tx\<lparr>blob := [1]\<rparr>) \<and>
   strip_separators [OP_DUP] = strip_separators [OP_DUP]"
proof -
  have s: "script_ops [OP_DUP] \<noteq> None" by code_simp
  have v: "valid_tx demo_tx" "valid_tx (demo_tx\<lparr>blob := [1]\<rparr>)"
    by (simp_all add: demo_tx_def valid_tx_def valid_txin_def valid_txout_def in_int64_def)
  have e: "sig_serialize (make_serializer demo_tx [OP_DUP] 0 SIGHASH_ALL) =
      sig_serialize (make_serializer (demo_tx\<lparr>blob := [1]\<rparr>) [OP_DUP] 0 SIGHASH_ALL)"
    by (simp add: sig_serialize_def make_serializer_def demo_tx_def SerializeInput_def SerializeOutput_def)
  show ?thesis
    by (rule sighash_all_commits [OF e _ _ _ v(1) _ s _ v(2) _ s]) (simp_all add: demo_tx_def)
qed

section \<open>What a signature leaves open\<close>

lemma sig_serialize_cong:
  assumes "nVersion tx = nVersion tx'" "nLockTime tx = nLockTime tx'" "vout tx = vout tx'"
    and "map prevout (vin tx) = map prevout (vin tx')" "map nSequence (vin tx) = map nSequence (vin tx')"
    and "i < length (vin tx)"
  shows "sig_serialize (make_serializer tx code i ht) = sig_serialize (make_serializer tx' code i ht)"
proof -
  have l: "length (vin tx) = length (vin tx')" using assms(4) by (rule map_eq_imp_length_eq)
  have n: "prevout (vin tx ! j) = prevout (vin tx' ! j)" "nSequence (vin tx ! j) = nSequence (vin tx' ! j)"
    if "j < length (vin tx)" for j
    using that l arg_cong [OF assms(4), of "\<lambda>x. x ! j"] arg_cong [OF assms(5), of "\<lambda>x. x ! j"] by simp_all
  let ?k = "if ht AND SIGHASH_ANYONECANPAY \<noteq> 0 then 1 else length (vin tx')"
  have "map (SerializeInput (make_serializer tx code i ht)) [0 ..< ?k] =
      map (SerializeInput (make_serializer tx' code i ht)) [0 ..< ?k]"
    using assms(6) l n by (auto simp: SerializeInput_def make_serializer_def Let_def split: if_splits)
  moreover have "SerializeOutput (make_serializer tx code i ht) = SerializeOutput (make_serializer tx' code i ht)"
    using assms(3) by (auto simp: SerializeOutput_def make_serializer_def)
  ultimately show ?thesis
    by (simp only: sig_serialize_def make_serializer_fields Let_def assms(1-3) l)
qed

text \<open>No hash type commits to the \<^verbatim>\<open>blob\<close> field: whoever relays a
  signed transaction can replace the blob, all signatures stay valid, and the serialization
  (hence the transaction id) changes.\<close>

theorem SignatureHash_blob_malleable:
  assumes "length b \<le> 0x02000000" "length (blob tx) \<le> 0x02000000" "b \<noteq> blob tx"
  shows "SignatureHash Hash code (tx\<lparr>blob := b\<rparr>) i ht = SignatureHash Hash code tx i ht \<and>
    SerializeTx (tx\<lparr>blob := b\<rparr>) \<noteq> SerializeTx tx"
proof
  show "SignatureHash Hash code (tx\<lparr>blob := b\<rparr>) i ht = SignatureHash Hash code tx i ht"
    using sig_serialize_cong [of "tx\<lparr>blob := b\<rparr>" tx i code ht] by (simp add: SignatureHash_def)
  show "SerializeTx (tx\<lparr>blob := b\<rparr>) \<noteq> SerializeTx tx"
    using string_codec.ser_inj [OF assms(1,2)] assms(3) by (auto simp: SerializeTx_def)
qed

theorem SignatureHash_blob_malleable_witness:
  "SignatureHash (\<lambda>b. of_nat (length b)) [OP_DUP] (demo_tx\<lparr>blob := [7]\<rparr>) 0 SIGHASH_ALL =
     SignatureHash (\<lambda>b. of_nat (length b)) [OP_DUP] demo_tx 0 SIGHASH_ALL \<and>
   SerializeTx (demo_tx\<lparr>blob := [7]\<rparr>) \<noteq> SerializeTx demo_tx"
  by (rule SignatureHash_blob_malleable) (simp_all add: demo_tx_def)

end
