(* ===== verification/Compressor.thy ===== *)
theory Compressor
  imports Transaction
begin

unbundle bit_operations_syntax

text \<open>
  The compact encodings used in the coin database (\<^verbatim>\<open>src/src/compressor.cpp\<close>,
  \<^verbatim>\<open>compressor.h\<close>): amounts, the three special kinds of scripts, and outputs. Amounts are
  \<^verbatim>\<open>uint64_t\<close>, so the arithmetic is that of 64-bit words. Point validation and decompression
  of public keys (\<^verbatim>\<open>CPubKey::IsFullyValid\<close>, \<^verbatim>\<open>CPubKey::Decompress\<close>) are parameters.
\<close>

section \<open>Amounts\<close>

text \<open>The loop that divides by ten; \<open>e\<close> counts the divisions.\<close>

function compress_loop :: "uint64 \<Rightarrow> nat \<Rightarrow> uint64 \<times> nat" where
  "compress_loop n e = (if n mod 10 = 0 \<and> e < 9 then compress_loop (n div 10) (e + 1) else (n, e))"
  by pat_completeness auto
termination by (relation "measure (\<lambda>(_, e). 9 - e)") auto

declare compress_loop.simps [simp del]

definition CompressAmount :: "uint64 \<Rightarrow> uint64" where
  "CompressAmount n0 =
     (if n0 = 0 then 0
      else case compress_loop n0 0 of (n, e) \<Rightarrow>
        if e < 9 then
          let d = n mod 10;
              n = n div 10
          in 1 + (n * 9 + d - 1) * 10 + of_nat e
        else 1 + (n - 1) * 10 + 9)"

fun decompress_loop :: "uint64 \<Rightarrow> nat \<Rightarrow> uint64" where
  "decompress_loop n 0 = n"
| "decompress_loop n (Suc e) = decompress_loop (n * 10) e"

definition DecompressAmount :: "uint64 \<Rightarrow> uint64" where
  "DecompressAmount x0 =
     (if x0 = 0 then 0
      else
        let x = x0 - 1;
            e = x mod 10;
            x = x div 10;
            n = (if e < 9 then
                   let d = (x mod 9) + 1;
                       x = x div 9
                   in x * 10 + d
                 else x + 1)
        in decompress_loop n (unat e))"

section \<open>Scripts\<close>

definition IsToKeyID :: "script \<Rightarrow> bytes option" where
  "IsToKeyID script =
     (if length script = 25 \<and> script ! 0 = OP_DUP \<and> script ! 1 = OP_HASH160 \<and> script ! 2 = 20 \<and>
         script ! 23 = OP_EQUALVERIFY \<and> script ! 24 = OP_CHECKSIG
      then Some (take 20 (drop 3 script)) else None)"

definition IsToScriptID :: "script \<Rightarrow> bytes option" where
  "IsToScriptID script =
     (if length script = 23 \<and> script ! 0 = OP_HASH160 \<and> script ! 1 = 20 \<and> script ! 22 = OP_EQUAL
      then Some (take 20 (drop 2 script)) else None)"

definition IsToPubKey :: "(bytes \<Rightarrow> bool) \<Rightarrow> script \<Rightarrow> bytes option" where
  "IsToPubKey IsFullyValid script =
     (if length script = 35 \<and> script ! 0 = 33 \<and> script ! 34 = OP_CHECKSIG \<and>
         (script ! 1 = 0x02 \<or> script ! 1 = 0x03)
      then Some (take 33 (drop 1 script))
      else if length script = 67 \<and> script ! 0 = 65 \<and> script ! 66 = OP_CHECKSIG \<and> script ! 1 = 0x04
      then (let pubkey = take 65 (drop 1 script) in if IsFullyValid pubkey then Some pubkey else None)
      else None)"

definition Compress :: "(bytes \<Rightarrow> bool) \<Rightarrow> script \<Rightarrow> bytes option" where
  "Compress IsFullyValid script =
     (case IsToKeyID script of
        Some keyID \<Rightarrow> Some (0x00 # keyID)
      | None \<Rightarrow>
        (case IsToScriptID script of
           Some scriptID \<Rightarrow> Some (0x01 # scriptID)
         | None \<Rightarrow>
           (case IsToPubKey IsFullyValid script of
              Some pubkey \<Rightarrow>
                if pubkey ! 0 = 0x02 \<or> pubkey ! 0 = 0x03 then Some (pubkey ! 0 # take 32 (drop 1 pubkey))
                else if pubkey ! 0 = 0x04
                then Some ((0x04 OR (pubkey ! 64 AND 0x01)) # take 32 (drop 1 pubkey))
                else None
            | None \<Rightarrow> None)))"

definition GetSpecialSize :: "uint32 \<Rightarrow> nat" where
  "GetSpecialSize nSize =
     (if nSize = 0 \<or> nSize = 1 then 20
      else if nSize = 2 \<or> nSize = 3 \<or> nSize = 4 \<or> nSize = 5 then 32
      else 0)"

text \<open>\<open>None\<close> is the result \<^verbatim>\<open>false\<close>, in which the script is left as it was.\<close>

definition Decompress :: "(bytes \<Rightarrow> bytes option) \<Rightarrow> uint32 \<Rightarrow> bytes \<Rightarrow> script option" where
  "Decompress PubKeyDecompress nSize data =
     (if nSize = 0 then Some ([OP_DUP, OP_HASH160, 20] @ take 20 data @ [OP_EQUALVERIFY, OP_CHECKSIG])
      else if nSize = 1 then Some ([OP_HASH160, 20] @ take 20 data @ [OP_EQUAL])
      else if nSize = 2 \<or> nSize = 3 then Some ([33, ucast nSize] @ take 32 data @ [OP_CHECKSIG])
      else if nSize = 4 \<or> nSize = 5 then
        (case PubKeyDecompress (ucast (nSize - 2) # take 32 data) of
           None \<Rightarrow> None
         | Some pubkey \<Rightarrow> Some ([65] @ pubkey @ [OP_CHECKSIG]))
      else None)"

definition nSpecialScripts :: uint32 where
  "nSpecialScripts = 6"

definition SerializeScript :: "(bytes \<Rightarrow> bool) \<Rightarrow> script \<Rightarrow> bytes" where
  "SerializeScript IsFullyValid script =
     (case Compress IsFullyValid script of
        Some compr \<Rightarrow> compr
      | None \<Rightarrow> WriteVarInt (of_nat (length script) + nSpecialScripts) @ script)"

text \<open>The first argument after the parameter is the script before the call.\<close>

definition UnserializeScript :: "(bytes \<Rightarrow> bytes option) \<Rightarrow> script \<Rightarrow> script reader" where
  "UnserializeScript PubKeyDecompress script =
     rbind ReadVarInt (\<lambda>nSize.
       if nSize < nSpecialScripts then
         rbind (read_bytes (GetSpecialSize nSize)) (\<lambda>vch.
           rret (case Decompress PubKeyDecompress nSize vch of Some s \<Rightarrow> s | None \<Rightarrow> script))
       else read_bytes (unat (nSize - nSpecialScripts)))"

section \<open>Outputs\<close>

definition SerializeTxOutC :: "(bytes \<Rightarrow> bool) \<Rightarrow> CTxOut \<Rightarrow> bytes" where
  "SerializeTxOutC IsFullyValid t =
     WriteVarInt (CompressAmount (word_of_int (nValue t))) @ SerializeScript IsFullyValid (scriptPubKey t)"

definition UnserializeTxOutC :: "(bytes \<Rightarrow> bytes option) \<Rightarrow> CTxOut \<Rightarrow> CTxOut reader" where
  "UnserializeTxOutC PubKeyDecompress t0 =
     rbind ReadVarInt (\<lambda>nVal.
     rbind (UnserializeScript PubKeyDecompress (scriptPubKey t0)) (\<lambda>s.
       rret \<lparr>nValue = sint (DecompressAmount nVal), scriptPubKey = s\<rparr>))"

section \<open>Amounts round trip\<close>

text \<open>The same computation on natural numbers, where no step overflows.\<close>

lemma unat_mod_numeral: "unat ((n :: uint64) mod 10) = unat n mod 10" "unat (n div 10) = unat n div 10"
  "unat (n mod 9) = unat n mod 9" "unat (n div 9) = unat n div 9"
  by (simp_all add: unat_mod unat_div)

lemma compress_loop_nat:
  assumes "compress_loop n e = (m, e')" "e \<le> 9"
  shows "e \<le> e' \<and> e' \<le> 9 \<and> unat n = unat m * 10 ^ (e' - e) \<and> (e' < 9 \<longrightarrow> unat m mod 10 \<noteq> 0)"
  using assms
proof (induction n e rule: compress_loop.induct)
  case (1 n e)
  show ?case
  proof (cases "n mod 10 = 0 \<and> e < 9")
    case True
    with "1.prems" have l: "compress_loop (n div 10) (e + 1) = (m, e')"
      by (subst (asm) compress_loop.simps) simp
    have h: "e + 1 \<le> e' \<and> e' \<le> 9 \<and> unat (n div 10) = unat m * 10 ^ (e' - (e + 1)) \<and>
        (e' < 9 \<longrightarrow> unat m mod 10 \<noteq> 0)"
      using "1.IH" [OF True l] True by simp
    have "unat n mod 10 = 0" using True by (metis unat_0 unat_mod_numeral(1))
    then have "unat n = 10 * unat (n div 10)" using mult_div_mod_eq [of 10 "unat n"] by (simp add: unat_mod_numeral)
    moreover have "(10 :: nat) ^ (e' - e) = 10 * 10 ^ (e' - (e + 1))"
      using h by (metis Suc_diff_le Suc_eq_plus1 diff_Suc_Suc power_Suc)
    ultimately show ?thesis using h by simp
  next
    case False
    with "1.prems" have "m = n" "e' = e" by (subst (asm) compress_loop.simps; simp)+
    moreover have "unat n mod 10 \<noteq> 0" if "e < 9"
      using False that by (metis unat_eq_0 unat_mod_numeral(1))
    ultimately show ?thesis using "1.prems" by simp
  qed
qed

lemma decompress_loop_eq: "decompress_loop n e = n * 10 ^ e"
  by (induction e arbitrary: n) (simp_all add: mult.assoc)

lemma unat_of_nat64: "k < 2 ^ 64 \<Longrightarrow> unat (of_nat k :: uint64) = k"
  by (simp add: unat_of_nat)

text \<open>Compression, when the arithmetic does not overflow.\<close>

lemma CompressAmount_low:
  assumes "compress_loop n 0 = (m, e)" "e < 9" "n \<noteq> 0" "unat m < 2 ^ 60"
  shows "unat (CompressAmount n) = 1 + (9 * (unat m div 10) + (unat m mod 10 - 1)) * 10 + e"
proof -
  let ?q = "unat m div 10" and ?d = "unat m mod 10"
  have d: "?d \<noteq> 0" using compress_loop_nat [OF assms(1)] assms(2) by simp
  have qd: "m div 10 = of_nat ?q" "m mod 10 = of_nat ?d"
    by (simp_all flip: unat_mod_numeral)
  have "CompressAmount n = 1 + (of_nat ?q * 9 + of_nat ?d - 1) * 10 + of_nat e"
    using assms(1-3) by (simp add: CompressAmount_def Let_def qd)
  also have "\<dots> = of_nat (1 + (9 * ?q + (?d - 1)) * 10 + e)"
    using d by (simp add: of_nat_diff algebra_simps)
  finally have c: "CompressAmount n = of_nat (1 + (9 * ?q + (?d - 1)) * 10 + e)" .
  show ?thesis unfolding c using assms(2,4) by (intro unat_of_nat64) simp
qed

lemma CompressAmount_high:
  assumes "compress_loop n 0 = (m, 9)" "n \<noteq> 0" "unat m < 2 ^ 60"
  shows "unat (CompressAmount n) = 1 + (unat m - 1) * 10 + 9"
proof -
  have m: "unat m \<noteq> 0" using compress_loop_nat [OF assms(1)] assms(2) unat_eq_0 [of n] by auto
  have "CompressAmount n = 1 + (of_nat (unat m) - 1) * 10 + 9"
    using assms(1,2) by (simp add: CompressAmount_def)
  also have "\<dots> = of_nat (1 + (unat m - 1) * 10 + 9)"
    using m by (simp only: of_nat_add of_nat_mult of_nat_numeral of_nat_diff [of 1] Suc_le_eq One_nat_def) simp
  finally have c: "CompressAmount n = of_nat (1 + (unat m - 1) * 10 + 9)" .
  show ?thesis unfolding c using assms(3) by (intro unat_of_nat64) simp
qed

lemma DecompressAmount_low:
  assumes "unat x = 1 + (9 * q + d) * 10 + e" "e < 9" "d < 9" "10 * q + d + 1 = unat m"
  shows "DecompressAmount x = m * 10 ^ e"
proof -
  have x: "unat (x - 1) = (9 * q + d) * 10 + e" using assms(1) by (subst unat_minus_one) auto
  have e: "unat ((x - 1) mod 10) = e" "unat ((x - 1) div 10) = 9 * q + d"
    unfolding unat_mod_numeral x mod_mult_self3 using assms(2) by (simp_all del: distrib_right_numeral)
  have d: "unat ((x - 1) div 10 mod 9) = d" "unat ((x - 1) div 10 div 9) = q"
    using assms(3) by (simp_all add: unat_mod_numeral(3,4) e)
  have lt: "(x - 1) mod 10 < 9" using assms(2) e(1) by (simp add: unat_cmp)
  have "(x - 1) div 10 div 9 * 10 + ((x - 1) div 10 mod 9 + 1) = of_nat (unat m)"
    unfolding assms(4) [symmetric] of_nat_add of_nat_mult
    by (simp flip: d)
  then show ?thesis
    using assms(1) lt e(1) by (auto simp: DecompressAmount_def Let_def decompress_loop_eq)
qed

lemma DecompressAmount_high:
  assumes "unat x = 1 + (unat m - 1) * 10 + 9" "unat m \<noteq> 0"
  shows "DecompressAmount x = m * 10 ^ 9"
proof -
  have x: "unat (x - 1) = (unat m - 1) * 10 + 9" using assms(1) by (subst unat_minus_one) auto
  have e: "unat ((x - 1) mod 10) = 9" "unat ((x - 1) div 10) = unat m - 1"
    by (simp_all add: unat_mod_numeral x)
  have "\<not> (x - 1) mod 10 < 9" using e(1) by (simp add: unat_cmp)
  moreover have "(x - 1) div 10 + 1 = of_nat (unat m - 1 + 1)"
    unfolding of_nat_add e(2) [symmetric] by simp
  ultimately show ?thesis
    using assms e(1) by (auto simp: DecompressAmount_def Let_def decompress_loop_eq)
qed

lemma DecompressAmount_Compress:
  assumes "unat n < 2 ^ 60"
  shows "DecompressAmount (CompressAmount n) = n"
proof (cases "n = 0")
  case False
  obtain m e where l: "compress_loop n 0 = (m, e)" by (cases "compress_loop n 0")
  have h: "e \<le> 9" "unat n = unat m * 10 ^ e" "e < 9 \<Longrightarrow> unat m mod 10 \<noteq> 0"
    using compress_loop_nat [OF l] by simp_all
  have "unat m * 1 \<le> unat m * 10 ^ e" by (intro mult_left_mono) simp_all
  then have m: "unat m < 2 ^ 60" using assms unfolding h(2) by linarith
  have n: "n = m * 10 ^ e" using arg_cong [OF h(2), of "of_nat :: nat \<Rightarrow> uint64"] by simp
  have "unat m \<noteq> 0" using h(2) False unat_eq_0 [of n] by auto
  show ?thesis
  proof (cases "e < 9")
    case True
    have "10 * (unat m div 10) + (unat m mod 10 - 1) + 1 = unat m"
      using h(3) [OF True] mult_div_mod_eq [of 10 "unat m"] by linarith
    moreover have "unat m mod 10 - 1 < 9" using mod_less_divisor [of 10 "unat m"] by linarith
    ultimately show ?thesis
      using DecompressAmount_low [OF CompressAmount_low [OF l True False m] True] n by simp
  next
    case e9: False
    then have "e = 9" using h(1) by simp
    then show ?thesis
      using DecompressAmount_high [OF CompressAmount_high [OF _ False m]] l n \<open>unat m \<noteq> 0\<close> by simp
  qed
qed (simp add: CompressAmount_def DecompressAmount_def)

section \<open>Scripts and outputs round trip\<close>

lemma list_middle:
  assumes "length s = a + b + c"
  shows "s = map ((!) s) [0 ..< a] @ take b (drop a s) @ map ((!) s) [a + b ..< a + b + c]"
proof -
  have "map ((!) s) [0 ..< a] = take a s" "map ((!) s) [a + b ..< a + b + c] = drop (a + b) s"
    using assms by (auto intro!: nth_equalityI)
  then show ?thesis
    by (metis append_take_drop_id add.commute drop_drop)
qed

lemma IsToKeyID_Some:
  assumes "IsToKeyID s = Some k"
  shows "s = [OP_DUP, OP_HASH160, 20] @ k @ [OP_EQUALVERIFY, OP_CHECKSIG] \<and> length k = 20"
  using assms list_middle [of s 3 20 2]
  by (auto simp: IsToKeyID_def upt_conv_Cons numeral_2_eq_2 split: if_splits)

lemma IsToScriptID_Some:
  assumes "IsToScriptID s = Some k"
  shows "s = [OP_HASH160, 20] @ k @ [OP_EQUAL] \<and> length k = 20"
  using assms list_middle [of s 2 20 1]
  by (auto simp: IsToScriptID_def upt_conv_Cons split: if_splits)

lemma IsToPubKey_Some:
  assumes "IsToPubKey V s = Some pk"
  shows "(s = [33] @ pk @ [OP_CHECKSIG] \<and> length pk = 33 \<and> (pk ! 0 = 2 \<or> pk ! 0 = 3)) \<or>
    (s = [65] @ pk @ [OP_CHECKSIG] \<and> length pk = 65 \<and> pk ! 0 = 4 \<and> V pk)"
  using assms list_middle [of s 1 33 1] list_middle [of s 1 65 1]
  by (auto simp: IsToPubKey_def Let_def upt_conv_Cons nth_append split: if_splits)

text \<open>
  What is relied on of the elliptic curve code: decompressing the x-coordinate and parity of a
  valid uncompressed key gives the key back.
\<close>

definition pubkey_laws :: "(bytes \<Rightarrow> bool) \<Rightarrow> (bytes \<Rightarrow> bytes option) \<Rightarrow> bool" where
  "pubkey_laws V D \<longleftrightarrow>
     (\<forall>pk. length pk = 65 \<and> pk ! 0 = 0x04 \<and> V pk \<longrightarrow>
        D ((0x02 OR (pk ! 64 AND 1)) # take 32 (drop 1 pk)) = Some pk)"

lemma ReadVarInt_small: "b < 0x80 \<Longrightarrow> ReadVarInt (b # s) = Inr (ucast b :: uint32, s)"
proof -
  assume b: "b < 0x80"
  then have "unat b < 128" by (simp add: unat_cmp)
  then have "b AND 0x7F = b" "b AND 0x80 = 0" by (auto simp: byte_and_0x80 byte_and_0x7f word_unat_eq_iff)
  then show ?thesis by (simp add: ReadVarInt_def)
qed

lemma byte_lowbit_cases: "(b :: byte) AND 1 = 0 \<or> b AND 1 = 1"
  by (cases "odd b") (simp_all add: and_one_eq mod_2_eq_odd)

lemma Compress_roundtrip:
  assumes "pubkey_laws V D" "Compress V script = Some compr"
  shows "\<exists>b data. compr = b # data \<and> b < 0x80 \<and> ucast b < nSpecialScripts \<and>
    length data = GetSpecialSize (ucast b) \<and> Decompress D (ucast b) data = Some script"
proof -
  consider k where "IsToKeyID script = Some k" "compr = 0 # k"
    | k where "IsToScriptID script = Some k" "compr = 1 # k"
    | pk where "IsToPubKey V script = Some pk" "pk ! 0 = 2 \<or> pk ! 0 = 3" "compr = pk ! 0 # take 32 (drop 1 pk)"
    | pk where "IsToPubKey V script = Some pk" "pk ! 0 = 4"
        "compr = (0x04 OR (pk ! 64 AND 0x01)) # take 32 (drop 1 pk)"
    using assms(2) by (auto simp: Compress_def split: option.splits if_splits)
  then show ?thesis
  proof cases
    case 1
    then show ?thesis using IsToKeyID_Some [OF 1(1)]
      by (simp add: Decompress_def GetSpecialSize_def nSpecialScripts_def)
  next
    case 2
    then show ?thesis using IsToScriptID_Some [OF 2(1)]
      by (simp add: Decompress_def GetSpecialSize_def nSpecialScripts_def)
  next
    case 3
    then have pk: "script = [33] @ pk @ [OP_CHECKSIG]" "length pk = 33"
      using IsToPubKey_Some [OF 3(1)] by auto
    then obtain b data where d: "pk = b # data" "length data = 32" by (cases pk) auto
    have "b = 2 \<or> b = 3" "compr = b # data" using 3(2,3) d by simp_all
    then show ?thesis using d pk(1)
      by (intro exI [of _ b] exI [of _ data]) (auto simp: Decompress_def GetSpecialSize_def nSpecialScripts_def)
  next
    case 4
    then have pk: "script = [65] @ pk @ [OP_CHECKSIG]" "length pk = 65" "V pk"
      using IsToPubKey_Some [OF 4(1)] by auto
    have d: "D ((0x02 OR (pk ! 64 AND 1)) # take 32 (drop 1 pk)) = Some pk"
      using assms(1) pk 4(2) by (simp add: pubkey_laws_def)
    from byte_lowbit_cases [of "pk ! 64"] show ?thesis
      using 4(3) d pk by (auto simp: Decompress_def GetSpecialSize_def nSpecialScripts_def)
  qed
qed

lemma special_offset:
  assumes "n < 2 ^ 32 - 6"
  shows "\<not> of_nat n + nSpecialScripts < nSpecialScripts" "unat (of_nat n + nSpecialScripts - nSpecialScripts) = n"
proof -
  have "of_nat n + nSpecialScripts = of_nat (n + 6)" by (simp add: nSpecialScripts_def)
  moreover have "unat (of_nat (n + 6) :: uint32) = n + 6" using assms by (simp add: unat_of_nat del: of_nat_add)
  ultimately show "\<not> of_nat n + nSpecialScripts < nSpecialScripts"
    by (simp add: unat_cmp nSpecialScripts_def)
  show "unat (of_nat n + nSpecialScripts - nSpecialScripts) = n" using assms by (simp add: unat_of_nat)
qed

lemma UnserializeScript_Serialize:
  assumes "pubkey_laws V D" "length script < 2 ^ 32 - 6"
  shows "UnserializeScript D s0 (SerializeScript V script @ rest) = Inr (script, rest)"
proof (cases "Compress V script")
  case None
  then show ?thesis
    using special_offset [OF assms(2)]
    by (simp add: UnserializeScript_def SerializeScript_def reader_simps varint.roundtrip)
next
  case (Some compr)
  then obtain b data where c: "compr = b # data" "b < 0x80" "ucast b < nSpecialScripts"
    "length data = GetSpecialSize (ucast b)" "Decompress D (ucast b) data = Some script"
    using Compress_roundtrip [OF assms(1)] by blast
  then show ?thesis using Some
    by (simp add: UnserializeScript_def SerializeScript_def reader_simps ReadVarInt_small)
qed

text \<open>The compact output encoding of the coin database loses nothing: for every output with
  an amount in \<open>0 ..< 2^60\<close> (all legal amounts) and every script shorter than four gigabytes,
  decoding what was encoded gives the output back, given the law of public key decompression.\<close>

theorem UnserializeTxOutC_Serialize:
  assumes "pubkey_laws V D" "0 \<le> nValue t" "nValue t < 2 ^ 60" "length (scriptPubKey t) < 2 ^ 32 - 6"
  shows "UnserializeTxOutC D t0 (SerializeTxOutC V t @ rest) = Inr (t, rest)"
proof -
  have "unat (word_of_int (nValue t) :: uint64) < 2 ^ 60"
    using assms(2,3) by (simp add: unat_eq_nat_uint uint_word_of_int_eq take_bit_int_eq_self nat_less_iff)
  then have "DecompressAmount (CompressAmount (word_of_int (nValue t))) = word_of_int (nValue t)"
    by (rule DecompressAmount_Compress)
  moreover have "sint (word_of_int (nValue t) :: uint64) = nValue t"
    using assms(2,3) by (intro sint_of_int64) (simp add: in_int64_def)
  ultimately show ?thesis
    using UnserializeScript_Serialize [OF assms(1,4)]
    by (simp add: UnserializeTxOutC_def SerializeTxOutC_def reader_simps varint.roundtrip)
qed

text \<open>A pay-to-public-key-hash output of one coin.\<close>

theorem UnserializeTxOutC_Serialize_witness:
  "UnserializeTxOutC (\<lambda>_. None) CTxOut_null
     (SerializeTxOutC (\<lambda>_. False) \<lparr>nValue = 100000000,
        scriptPubKey = [OP_DUP, OP_HASH160, 20] @ replicate 20 7 @ [OP_EQUALVERIFY, OP_CHECKSIG]\<rparr> @ [1, 2]) =
   Inr (\<lparr>nValue = 100000000,
        scriptPubKey = [OP_DUP, OP_HASH160, 20] @ replicate 20 7 @ [OP_EQUALVERIFY, OP_CHECKSIG]\<rparr>, [1, 2])"
  by (rule UnserializeTxOutC_Serialize) (simp_all add: pubkey_laws_def)

end
