(* ===== verification/Coins.thy ===== *)
theory Coins
  imports Compressor
begin

unbundle bit_operations_syntax

text \<open>
  The unspent outputs of one transaction (\<^verbatim>\<open>class CCoins\<close>, \<^verbatim>\<open>src/src/coins.h\<close> and
  \<^verbatim>\<open>coins.cpp\<close>), the undo record of one spent output (\<^verbatim>\<open>CTxInUndo\<close>, \<^verbatim>\<open>src/src/undo.h\<close>)
  and their encodings in the coin database. \<^verbatim>\<open>int\<close> members are integers, serialized as
  \<^verbatim>\<open>VARINT\<close> of a signed type, which differs from the unsigned one on negative values.
\<close>

section \<open>State\<close>

record CCoins =
  fCoinBase :: bool
  fCoinStake :: bool
  coins_vout :: "CTxOut list"
  nHeight :: int
  coins_nVersion :: int

record CTxInUndo =
  undo_txout :: CTxOut
  undo_fCoinBase :: bool
  undo_fCoinStake :: bool
  undo_nHeight :: uint32
  undo_nVersion :: int

definition CCoins_empty :: CCoins where
  "CCoins_empty = \<lparr>fCoinBase = False, fCoinStake = False, coins_vout = [], nHeight = 0, coins_nVersion = 0\<rparr>"

text \<open>\<^verbatim>\<open>Cleanup\<close> drops the spent outputs at the end.\<close>

definition drop_null :: "CTxOut list \<Rightarrow> CTxOut list" where
  "drop_null os = rev (dropWhile CTxOut_IsNull (rev os))"

definition Cleanup :: "CCoins \<Rightarrow> CCoins" where
  "Cleanup c = c\<lparr>coins_vout := drop_null (coins_vout c)\<rparr>"

definition ClearUnspendable :: "CCoins \<Rightarrow> CCoins" where
  "ClearUnspendable c =
     Cleanup (c\<lparr>coins_vout := map (\<lambda>t. if IsUnspendable (scriptPubKey t) then CTxOut_null else t) (coins_vout c)\<rparr>)"

definition FromTx :: "CTransaction \<Rightarrow> int \<Rightarrow> CCoins" where
  "FromTx tx nHeightIn =
     ClearUnspendable \<lparr>fCoinBase = IsCoinBase tx, fCoinStake = IsCoinStake tx, coins_vout = vout tx,
       nHeight = nHeightIn, coins_nVersion = sint (nVersion tx)\<rparr>"

definition IsAvailable :: "CCoins \<Rightarrow> uint32 \<Rightarrow> bool" where
  "IsAvailable c nPos \<longleftrightarrow> unat nPos < length (coins_vout c) \<and> \<not> CTxOut_IsNull (coins_vout c ! unat nPos)"

definition IsPruned :: "CCoins \<Rightarrow> bool" where
  "IsPruned c \<longleftrightarrow> list_all CTxOut_IsNull (coins_vout c)"

definition CCoins_eq :: "CCoins \<Rightarrow> CCoins \<Rightarrow> bool" where
  "CCoins_eq a b \<longleftrightarrow>
     (if IsPruned a \<and> IsPruned b then True
      else fCoinBase a = fCoinBase b \<and> fCoinStake a = fCoinStake b \<and> nHeight a = nHeight b \<and>
           coins_nVersion a = coins_nVersion b \<and> coins_vout a = coins_vout b)"

text \<open>\<^verbatim>\<open>Spend\<close>: \<open>None\<close> is the result \<^verbatim>\<open>false\<close>.\<close>

definition Spend :: "CCoins \<Rightarrow> COutPoint \<Rightarrow> (CCoins \<times> CTxInUndo) option" where
  "Spend c out =
     (if unat (outpoint_n out) \<ge> length (coins_vout c) then None
      else if CTxOut_IsNull (coins_vout c ! unat (outpoint_n out)) then None
      else
        let undo = \<lparr>undo_txout = coins_vout c ! unat (outpoint_n out), undo_fCoinBase = False,
                    undo_fCoinStake = False, undo_nHeight = 0, undo_nVersion = 0\<rparr>;
            c' = Cleanup (c\<lparr>coins_vout := (coins_vout c)[unat (outpoint_n out) := CTxOut_null]\<rparr>)
        in Some (c',
             if length (coins_vout c') = 0
             then undo\<lparr>undo_nHeight := word_of_int (nHeight c), undo_fCoinBase := fCoinBase c,
                       undo_fCoinStake := fCoinStake c, undo_nVersion := coins_nVersion c\<rparr>
             else undo))"

section \<open>Encodings\<close>

text \<open>\<^verbatim>\<open>WriteVarInt\<close> and \<^verbatim>\<open>ReadVarInt\<close> at type \<^verbatim>\<open>int\<close>.\<close>

function varint_tmp_int :: "int \<Rightarrow> bool \<Rightarrow> bytes" where
  "varint_tmp_int n len =
     (let b = word_of_int (n AND 0x7F) OR (if len then 0x80 else 0x00) in
      if n \<le> 0x7F then [b] else b # varint_tmp_int (drop_bit 7 n - 1) True)"
  by pat_completeness auto
termination
  by (relation "measure (\<lambda>(n, _). nat n)") (auto simp: drop_bit_eq_div nat_less_iff intro: div_less_dividend)

declare varint_tmp_int.simps [simp del]

definition WriteVarInt_int :: "int \<Rightarrow> bytes" where
  "WriteVarInt_int n = rev (varint_tmp_int n False)"

definition ReadVarInt_int :: "int reader" where
  "ReadVarInt_int = rbind (ReadVarInt :: uint32 reader) (\<lambda>w. rret (sint w))"

text \<open>
  Byte \<open>b\<close> of the mask covers the outputs from \<open>2 + 8 b\<close> on; \<open>CalcMaskSize\<close> is the index of
  the last nonzero byte plus one and the number of nonzero bytes.
\<close>

definition avail :: "CTxOut list \<Rightarrow> nat \<Rightarrow> bool" where
  "avail os i \<longleftrightarrow> i < length os \<and> \<not> CTxOut_IsNull (os ! i)"

definition mask_byte_zero :: "CTxOut list \<Rightarrow> nat \<Rightarrow> bool" where
  "mask_byte_zero os b \<longleftrightarrow> list_all (\<lambda>i. \<not> avail os (2 + b * 8 + i)) [0 ..< 8]"

function mask_loop :: "CTxOut list \<Rightarrow> nat \<Rightarrow> nat \<Rightarrow> nat \<Rightarrow> nat \<times> nat" where
  "mask_loop os b nLastUsedByte nNonzeroBytes =
     (if 2 + b * 8 < length os then
        if mask_byte_zero os b then mask_loop os (b + 1) nLastUsedByte nNonzeroBytes
        else mask_loop os (b + 1) (b + 1) (nNonzeroBytes + 1)
      else (nLastUsedByte, nNonzeroBytes))"
  by pat_completeness auto
termination by (relation "measure (\<lambda>(os, b, _). length os - b * 8)") auto

declare mask_loop.simps [simp del]

definition CalcMaskSize :: "CCoins \<Rightarrow> nat \<times> nat" where
  "CalcMaskSize c = mask_loop (coins_vout c) 0 0 0"

definition mask_byte :: "CTxOut list \<Rightarrow> nat \<Rightarrow> byte" where
  "mask_byte os b =
     foldr (\<lambda>i chAvail. if avail os (2 + b * 8 + i) then chAvail OR push_bit i 1 else chAvail) [0 ..< 8] 0"

definition header_code :: "nat \<Rightarrow> CCoins \<Rightarrow> uint32" where
  "header_code factor c =
     (case CalcMaskSize c of (nMaskSize, nMaskCode) \<Rightarrow>
        let fFirst = avail (coins_vout c) 0;
            fSecond = avail (coins_vout c) 1
        in of_nat factor * (of_nat nMaskCode - (if fFirst \<or> fSecond then 0 else 1)) +
           (if fCoinBase c then 1 else 0) + (if fCoinStake c then 2 else 0) +
           (if fFirst then 4 else 0) + (if fSecond then 8 else 0))"

definition CCoins_Serialize :: "(bytes \<Rightarrow> bool) \<Rightarrow> CCoins \<Rightarrow> bytes" where
  "CCoins_Serialize V c =
     WriteVarInt_int (coins_nVersion c) @
     WriteVarInt (header_code 16 c) @
     map (mask_byte (coins_vout c)) [0 ..< fst (CalcMaskSize c)] @
     concat (map (SerializeTxOutC V) (filter (\<lambda>t. \<not> CTxOut_IsNull t) (coins_vout c))) @
     WriteVarInt_int (nHeight c)"

text \<open>The size computation uses the factor 8 where the serialization uses 16.\<close>

definition CCoins_GetSerializeSize :: "(bytes \<Rightarrow> bool) \<Rightarrow> CCoins \<Rightarrow> nat" where
  "CCoins_GetSerializeSize V c =
     length (WriteVarInt_int (coins_nVersion c)) +
     GetSizeOfVarInt (header_code 8 c) +
     fst (CalcMaskSize c) +
     sum_list (map (\<lambda>t. length (SerializeTxOutC V t)) (filter (\<lambda>t. \<not> CTxOut_IsNull t) (coins_vout c))) +
     length (WriteVarInt_int (nHeight c))"

fun byte_bits :: "byte \<Rightarrow> bool list" where
  "byte_bits chAvail = map (\<lambda>p. chAvail AND push_bit p 1 \<noteq> 0) [0 ..< 8]"

fun read_mask :: "nat \<Rightarrow> bool list reader" where
  "read_mask nMaskCode [] = (if nMaskCode > 0 then Inl EndOfData else Inr ([], []))"
| "read_mask nMaskCode (chAvail # s) =
     (if nMaskCode > 0 then
        (case read_mask (if chAvail \<noteq> 0 then nMaskCode - 1 else nMaskCode) s of
           Inl e \<Rightarrow> Inl e
         | Inr (bs, s') \<Rightarrow> Inr (byte_bits chAvail @ bs, s'))
      else Inr ([], chAvail # s))"

fun read_outs :: "(bytes \<Rightarrow> bytes option) \<Rightarrow> bool list \<Rightarrow> CTxOut list reader" where
  "read_outs D [] = rret []"
| "read_outs D (f # fs) =
     (if f then rbind (UnserializeTxOutC D CTxOut_null) (\<lambda>t. rbind (read_outs D fs) (\<lambda>ts. rret (t # ts)))
      else rbind (read_outs D fs) (\<lambda>ts. rret (CTxOut_null # ts)))"

definition CCoins_Unserialize :: "(bytes \<Rightarrow> bytes option) \<Rightarrow> CCoins reader" where
  "CCoins_Unserialize D =
     rbind ReadVarInt_int (\<lambda>ver.
     rbind (ReadVarInt :: uint32 reader) (\<lambda>nCode.
       let nMaskCode = unat nCode div 16 + (if nCode AND 12 \<noteq> 0 then 0 else 1) in
       rbind (read_mask nMaskCode) (\<lambda>bits.
       rbind (read_outs D ([nCode AND 4 \<noteq> 0, nCode AND 8 \<noteq> 0] @ bits)) (\<lambda>os.
       rbind ReadVarInt_int (\<lambda>h.
         rret (Cleanup \<lparr>fCoinBase = (nCode AND 1 \<noteq> 0), fCoinStake = (nCode AND 2 \<noteq> 0), coins_vout = os,
                         nHeight = h, coins_nVersion = ver\<rparr>))))))"

definition undo_code :: "CTxInUndo \<Rightarrow> uint32" where
  "undo_code u =
     undo_nHeight u * 4 + (if undo_fCoinBase u then 2 else 0) + (if undo_fCoinStake u then 1 else 0)"

definition CTxInUndo_Serialize :: "(bytes \<Rightarrow> bool) \<Rightarrow> CTxInUndo \<Rightarrow> bytes" where
  "CTxInUndo_Serialize V u =
     WriteVarInt (undo_code u) @
     (if undo_nHeight u > 0 then WriteVarInt_int (undo_nVersion u) else []) @
     SerializeTxOutC V (undo_txout u)"

text \<open>The version is not touched when the height is zero; the constructor leaves 0 there.\<close>

definition CTxInUndo_Unserialize :: "(bytes \<Rightarrow> bytes option) \<Rightarrow> CTxInUndo reader" where
  "CTxInUndo_Unserialize D =
     rbind (ReadVarInt :: uint32 reader) (\<lambda>nCode.
       let h = drop_bit 2 nCode in
       rbind (if h > 0 then ReadVarInt_int else rret 0) (\<lambda>ver.
       rbind (UnserializeTxOutC D CTxOut_null) (\<lambda>t.
         rret \<lparr>undo_txout = t, undo_fCoinBase = (nCode AND 2 \<noteq> 0), undo_fCoinStake = (nCode AND 1 \<noteq> 0),
               undo_nHeight = h, undo_nVersion = ver\<rparr>)))"

section \<open>Availability and values\<close>

lemma drop_null_split:
  "\<exists>zs. os = drop_null os @ zs \<and> list_all CTxOut_IsNull zs"
proof -
  have "os = rev (dropWhile CTxOut_IsNull (rev os)) @ rev (takeWhile CTxOut_IsNull (rev os))"
    by (metis rev_append rev_rev_ident takeWhile_dropWhile_id)
  moreover have "list_all CTxOut_IsNull (rev (takeWhile CTxOut_IsNull (rev os)))"
    by (auto simp: list_all_iff dest: set_takeWhileD)
  ultimately show ?thesis unfolding drop_null_def by blast
qed

lemma drop_null_last: "drop_null os \<noteq> [] \<Longrightarrow> \<not> CTxOut_IsNull (last (drop_null os))"
  unfolding drop_null_def by (metis hd_dropWhile last_rev rev_is_Nil_conv)

lemma drop_null_id: "os = [] \<or> \<not> CTxOut_IsNull (last os) \<Longrightarrow> drop_null os = os"
  by (cases os rule: rev_cases) (auto simp: drop_null_def)

lemma drop_null_append: "list_all CTxOut_IsNull zs \<Longrightarrow> drop_null (os @ zs) = drop_null os"
  unfolding drop_null_def rev_append by (subst dropWhile_append2) (auto simp: list_all_iff)

lemma avail_drop_null [simp]: "avail (drop_null os) i \<longleftrightarrow> avail os i"
proof -
  obtain zs where zs: "os = drop_null os @ zs" "list_all CTxOut_IsNull zs" using drop_null_split by blast
  have "avail (ds @ zs) i \<longleftrightarrow> avail ds i" for ds
    using zs(2) by (auto simp: avail_def nth_append list_all_length)
  then show ?thesis by (metis zs(1))
qed

lemma avail_update: "avail (os[j := CTxOut_null]) i \<longleftrightarrow> avail os i \<and> i \<noteq> j"
  by (cases "i = j") (auto simp: avail_def CTxOut_IsNull_def CTxOut_null_def)

lemma IsAvailable_avail: "IsAvailable c n \<longleftrightarrow> avail (coins_vout c) (unat n)"
  by (simp add: IsAvailable_def avail_def)

lemma IsPruned_avail: "IsPruned c \<longleftrightarrow> (\<forall>i. \<not> avail (coins_vout c) i)"
  by (auto simp: IsPruned_def avail_def list_all_length)

text \<open>The unspent outputs of a record by their position.\<close>

definition unspent_at :: "CCoins \<Rightarrow> nat \<Rightarrow> CTxOut option" where
  "unspent_at c i = (if avail (coins_vout c) i then Some (coins_vout c ! i) else None)"

lemma unspent_at_drop_null: "unspent_at (c\<lparr>coins_vout := drop_null os\<rparr>) = unspent_at (c\<lparr>coins_vout := os\<rparr>)"
proof
  fix i
  obtain zs where zs: "os = drop_null os @ zs" using drop_null_split by blast
  show "unspent_at (c\<lparr>coins_vout := drop_null os\<rparr>) i = unspent_at (c\<lparr>coins_vout := os\<rparr>) i"
  proof (cases "avail os i")
    case True
    then have "i < length (drop_null os)" by (metis avail_def avail_drop_null)
    then have "drop_null os ! i = os ! i" by (metis nth_append zs)
    then show ?thesis by (simp add: unspent_at_def)
  qed (simp add: unspent_at_def)
qed

lemma unspent_at_update: "unspent_at (c\<lparr>coins_vout := os[j := CTxOut_null]\<rparr>) = (unspent_at (c\<lparr>coins_vout := os\<rparr>))(j := None)"
  by (auto simp: unspent_at_def avail_update fun_eq_iff)

lemma unspent_at_empty: "unspent_at c = Map.empty \<longleftrightarrow> IsPruned c"
  by (auto simp: unspent_at_def IsPruned_avail fun_eq_iff)

lemma Spend_Some:
  assumes "Spend c out = Some (c', undo)"
  shows "IsAvailable c (outpoint_n out)"
    and "c' = c\<lparr>coins_vout := drop_null ((coins_vout c)[unat (outpoint_n out) := CTxOut_null])\<rparr>"
    and "unspent_at c' = (unspent_at c)(unat (outpoint_n out) := None)"
proof -
  let ?os = "(coins_vout c)[unat (outpoint_n out) := CTxOut_null]"
  show "IsAvailable c (outpoint_n out)" using assms by (auto simp: Spend_def IsAvailable_def split: if_splits)
  show c': "c' = c\<lparr>coins_vout := drop_null ?os\<rparr>"
    using assms by (auto simp: Spend_def Cleanup_def Let_def split: if_splits)
  show "unspent_at c' = (unspent_at c)(unat (outpoint_n out) := None)"
    unfolding c' unspent_at_drop_null unspent_at_update by simp
qed

text \<open>C7: \<^verbatim>\<open>Spend\<close> fails exactly if the output is not available. Otherwise the unspent outputs afterwards are
  those from before, values and scripts included, without the spent one; nothing else of the record
  changes, except that no spent output remains at its end; and the undo record holds the spent output
  and, exactly when no unspent output is left, the flags, the height (as 32 bits) and the version of the record.\<close>

theorem Spend_spec:
  "case Spend c out of
     None \<Rightarrow> \<not> IsAvailable c (outpoint_n out)
   | Some (c', undo) \<Rightarrow>
       IsAvailable c (outpoint_n out) \<and>
       unspent_at c' = (unspent_at c)(unat (outpoint_n out) := None) \<and>
       c'\<lparr>coins_vout := coins_vout c\<rparr> = c \<and>
       (case rev (coins_vout c') of [] \<Rightarrow> True | t # _ \<Rightarrow> \<not> CTxOut_IsNull t) \<and>
       undo = (if unspent_at c' = Map.empty
         then \<lparr>undo_txout = coins_vout c ! unat (outpoint_n out), undo_fCoinBase = fCoinBase c,
           undo_fCoinStake = fCoinStake c, undo_nHeight = word_of_int (nHeight c), undo_nVersion = coins_nVersion c\<rparr>
         else \<lparr>undo_txout = coins_vout c ! unat (outpoint_n out), undo_fCoinBase = False,
           undo_fCoinStake = False, undo_nHeight = 0, undo_nVersion = 0\<rparr>)"
proof (cases "Spend c out")
  case None
  then show ?thesis by (auto simp: Spend_def IsAvailable_def Let_def split: if_splits)
next
  case (Some r)
  obtain c' undo where r: "r = (c', undo)" by (cases r)
  note s = Spend_Some [OF Some [unfolded r]]
  have dl: "coins_vout c' \<noteq> [] \<Longrightarrow> \<not> CTxOut_IsNull (last (coins_vout c'))"
    using drop_null_last by (simp add: s(2))
  have last: "case rev (coins_vout c') of [] \<Rightarrow> True | t # _ \<Rightarrow> \<not> CTxOut_IsNull t"
    using dl by (auto simp: last_rev split: list.splits)
  have "unspent_at c' = Map.empty \<longleftrightarrow> coins_vout c' = []"
    using dl last_in_set [of "coins_vout c'"] unfolding unspent_at_empty IsPruned_def list_all_iff by fastforce
  then have "undo = (if unspent_at c' = Map.empty
         then \<lparr>undo_txout = coins_vout c ! unat (outpoint_n out), undo_fCoinBase = fCoinBase c,
           undo_fCoinStake = fCoinStake c, undo_nHeight = word_of_int (nHeight c), undo_nVersion = coins_nVersion c\<rparr>
         else \<lparr>undo_txout = coins_vout c ! unat (outpoint_n out), undo_fCoinBase = False,
           undo_fCoinStake = False, undo_nHeight = 0, undo_nVersion = 0\<rparr>)"
    using Some by (auto simp: r Spend_def Let_def split: if_splits)
  then show ?thesis using s last by (simp add: Some r)
qed

end
