(* ===== verification/Coins_Encoding.thy ===== *)
theory Coins_Encoding
  imports Coins
begin

unbundle bit_operations_syntax

text \<open>
  What the encodings of \<^verbatim>\<open>CCoins\<close> and \<^verbatim>\<open>CTxInUndo\<close> keep: the unspentness bitmask, the
  header code and the outputs are read back as they were written. Only negative numbers are lost: of a
  negative \<^verbatim>\<open>int\<close> the variable-length integer keeps the seven low bits.
\<close>

section \<open>Signed variable-length integers\<close>

lemma word_of_int_and7: "0 \<le> n \<Longrightarrow> (word_of_int (n AND 0x7F) :: byte) = ucast ((word_of_int n :: uint32) AND 0x7F)"
proof -
  have "(0x7F :: int) = mask 7" "(0x7F :: uint32) = mask 7" by (simp_all add: mask_eq_exp_minus_1)
  then show ?thesis
    by (simp only: flip: take_bit_eq_mask) (rule bit_word_eqI, auto simp: bit_simps)
qed

lemma varint_tmp_int_word:
  "0 \<le> n \<Longrightarrow> n < 2 ^ 31 \<Longrightarrow> varint_tmp_int n f = varint_tmp (word_of_int n :: uint32) f"
proof (induction n f rule: varint_tmp_int.induct)
  case (1 n f)
  have u: "uint (word_of_int n :: uint32) = n"
    using "1.prems" by (simp add: uint_word_of_int_eq take_bit_int_eq_self)
  have le: "(word_of_int n :: uint32) \<le> 0x7F \<longleftrightarrow> n \<le> 0x7F" by (simp add: word_le_def u)
  show ?case
  proof (cases "n \<le> 0x7F")
    case True
    then show ?thesis
      using "1.prems" le by (subst varint_tmp_int.simps, subst varint_tmp.simps) (simp add: word_of_int_and7 Let_def)
  next
    case False
    have d: "drop_bit 7 n = n div 128" by (simp add: drop_bit_eq_div)
    have w: "word_of_int (drop_bit 7 n - 1) = drop_bit 7 (word_of_int n :: uint32) - 1"
    proof -
      have "drop_bit 7 (word_of_int n :: uint32) = word_of_int (drop_bit 7 n)"
        using "1.prems"
        by (simp add: word_uint_eq_iff unsigned_drop_bit_eq u uint_word_of_int_eq d take_bit_int_eq_self)
      then show ?thesis by simp
    qed
    have "varint_tmp_int (drop_bit 7 n - 1) True = varint_tmp (drop_bit 7 (word_of_int n :: uint32) - 1) True"
      using "1.IH" [OF refl False] "1.prems" False unfolding w by (simp add: d)
    then show ?thesis
      using "1.prems" le False
      by (subst varint_tmp_int.simps, subst varint_tmp.simps) (simp add: word_of_int_and7 Let_def)
  qed
qed

interpretation varint_int: codec WriteVarInt_int ReadVarInt_int "\<lambda>n. 0 \<le> n \<and> n < 2 ^ 31"
proof
  fix n rest
  assume n: "0 \<le> n \<and> n < (2 :: int) ^ 31"
  then have w: "WriteVarInt_int n = WriteVarInt (word_of_int n :: uint32)"
    by (simp add: WriteVarInt_int_def WriteVarInt_def varint_tmp_int_word)
  have "sint (word_of_int n :: uint32) = n"
    using n by (simp add: sint_sbintrunc' signed_take_bit_int_eq_self)
  then show "ReadVarInt_int (WriteVarInt_int n @ rest) = Inr (n, rest)"
    unfolding w by (simp add: ReadVarInt_int_def reader_simps varint.roundtrip)
qed

text \<open>A negative number is written as one byte with its seven low bits.\<close>

definition stored_int :: "int \<Rightarrow> int" where
  "stored_int n = (if n < 0 then n AND 0x7F else n)"

lemma stored_int_pos [simp]: "0 \<le> n \<Longrightarrow> stored_int n = n"
  by (simp add: stored_int_def)

lemma WriteVarInt_int_stored: "WriteVarInt_int n = WriteVarInt_int (stored_int n)"
proof (cases "n < 0")
  case True
  have m: "k AND 0x7F = take_bit 7 k" for k :: int using take_bit_eq_mask [of 7 k] by (simp add: mask_eq_exp_minus_1)
  have le: "take_bit 7 n \<le> 0x7F" using take_bit_int_less_exp [of 7 n] by simp
  have "varint_tmp_int (take_bit 7 n) False = [word_of_int (take_bit 7 n)]"
    using le by (subst varint_tmp_int.simps) (simp add: m)
  moreover have "varint_tmp_int n False = [word_of_int (take_bit 7 n)]"
    using True by (subst varint_tmp_int.simps) (simp add: m)
  ultimately show ?thesis using True by (simp add: WriteVarInt_int_def stored_int_def m)
qed simp

lemma stored_int_range: "in_int32 n \<Longrightarrow> 0 \<le> stored_int n \<and> stored_int n < 2 ^ 31"
proof (cases "n < 0")
  case True
  have "stored_int n = take_bit 7 n" using True take_bit_eq_mask [of 7 n] by (simp add: stored_int_def mask_eq_exp_minus_1)
  then show ?thesis using take_bit_int_less_exp [of 7 n] by simp
qed (simp add: in_int32_def stored_int_def)

lemma read_stored_int: "in_int32 n \<Longrightarrow> ReadVarInt_int (WriteVarInt_int n @ rest) = Inr (stored_int n, rest)"
  by (subst WriteVarInt_int_stored) (rule varint_int.roundtrip [OF stored_int_range])

section \<open>The bitmask\<close>

definition mask_ok :: "CTxOut list \<Rightarrow> nat \<Rightarrow> nat \<Rightarrow> bool" where
  "mask_ok os l k \<longleftrightarrow>
     (l = 0 \<or> \<not> mask_byte_zero os (l - 1)) \<and> k = length (filter (\<lambda>b. \<not> mask_byte_zero os b) [0 ..< l])"

lemma mask_byte_zero_beyond: "length os \<le> 2 + b * 8 \<Longrightarrow> mask_byte_zero os b"
  by (auto simp: mask_byte_zero_def avail_def list_all_iff)

lemma mask_loop_ok:
  assumes "mask_loop os b l k = (l', k')" "mask_ok os l k" "l \<le> b" "\<forall>j. l \<le> j \<and> j < b \<longrightarrow> mask_byte_zero os j"
  shows "mask_ok os l' k' \<and> (\<forall>j \<ge> l'. mask_byte_zero os j)"
  using assms
proof (induction os b l k rule: mask_loop.induct)
  case (1 os b l k)
  show ?case
  proof (cases "2 + b * 8 < length os")
    case False
    then have "l' = l" "k' = k" using "1.prems"(1) by (subst (asm) mask_loop.simps; simp)+
    moreover have "mask_byte_zero os j" if "b \<le> j" for j
      using False that by (intro mask_byte_zero_beyond) simp
    ultimately show ?thesis using "1.prems"(2-4) by (metis not_le)
  next
    case True
    show ?thesis
    proof (cases "mask_byte_zero os b")
      case zero: True
      then have "mask_loop os (b + 1) l k = (l', k')"
        using "1.prems"(1) True by (subst (asm) mask_loop.simps) simp
      then show ?thesis using "1.IH"(1) [OF True zero] "1.prems"(2-4) zero
        by (metis le_SucI Suc_eq_plus1 less_Suc_eq)
    next
      case nz: False
      then have m: "mask_loop os (b + 1) (b + 1) (k + 1) = (l', k')"
        using "1.prems"(1) True by (subst (asm) mask_loop.simps) simp
      have "filter (\<lambda>b. \<not> mask_byte_zero os b) [l ..< b] = []" using "1.prems"(4) by (auto simp: filter_empty_conv)
      moreover have "[0 ..< b + 1] = [0 ..< l] @ [l ..< b] @ [b]"
        using "1.prems"(3) upt_add_eq_append [of 0 l "b - l"] by simp
      ultimately have "mask_ok os (b + 1) (k + 1)" using nz "1.prems"(2) by (simp add: mask_ok_def)
      then show ?thesis using "1.IH"(2) [OF True nz m] by fastforce
    qed
  qed
qed

lemma bit_mask_fold:
  "bit (foldr (\<lambda>i ch. if P i then ch OR push_bit i 1 else ch) is (0 :: byte)) p \<longleftrightarrow> p < 8 \<and> p \<in> set is \<and> P p"
  by (induction "is") (auto simp: bit_simps)

lemma bit_mask_byte: "bit (mask_byte os b) p \<longleftrightarrow> p < 8 \<and> avail os (2 + b * 8 + p)"
  unfolding mask_byte_def bit_mask_fold by auto

lemma byte_bits_bit: "byte_bits ch = map (bit ch) [0 ..< 8]"
  by (simp only: byte_bits.simps flip: bit_iff_and_push_bit_not_eq_0)

lemma byte_bits_mask: "byte_bits (mask_byte os b) = map (\<lambda>p. avail os (2 + b * 8 + p)) [0 ..< 8]"
  by (auto simp: byte_bits_bit bit_mask_byte simp del: byte_bits.simps)

lemma mask_byte_eq_0: "mask_byte os b = 0 \<longleftrightarrow> mask_byte_zero os b"
proof -
  have "mask_byte os b = 0 \<longleftrightarrow> (\<forall>p < 8. \<not> bit (mask_byte os b) p)" by (auto intro: bit_word_eqI)
  then show ?thesis by (auto simp: bit_mask_byte mask_byte_zero_def list_all_iff)
qed

lemma read_mask_0 [simp]: "read_mask 0 s = Inr ([], s)"
  by (cases s) simp_all

lemma read_mask_append:
  "ms = [] \<or> last ms \<noteq> 0 \<Longrightarrow>
   read_mask (length (filter (\<lambda>m. m \<noteq> 0) ms)) (ms @ s) = Inr (concat (map byte_bits ms), s)"
proof (induction ms)
  case (Cons m ms)
  have "length (filter (\<lambda>m. m \<noteq> 0) (m # ms)) > 0"
    using last_in_set [of "m # ms"] Cons.prems by (auto simp del: last.simps simp: filter_empty_conv)
  moreover have "ms = [] \<or> last ms \<noteq> 0" using Cons.prems by (auto split: if_splits)
  ultimately show ?case using Cons.IH by (auto simp del: byte_bits.simps)
qed simp

lemma mask_bits:
  "concat (map byte_bits (map (mask_byte os) [0 ..< n])) = map (\<lambda>i. avail os (2 + i)) [0 ..< 8 * n]"
proof (induction n)
  case (Suc n)
  have "map (\<lambda>p. avail os (2 + n * 8 + p)) [0 ..< 8] = map (\<lambda>i. avail os (2 + i)) [8 * n ..< 8 * n + 8]"
    by (rule nth_equalityI) (auto simp: algebra_simps)
  moreover have "[0 ..< 8 * Suc n] = [0 ..< 8 * n] @ [8 * n ..< 8 * n + 8]"
    using upt_add_eq_append [of 0 "8 * n" 8] by (simp add: add.commute)
  ultimately show ?case using Suc by (simp add: byte_bits_mask del: byte_bits.simps)
qed simp

section \<open>The header code\<close>

lemma and_bit32: "(w :: uint32) AND 1 \<noteq> 0 \<longleftrightarrow> odd (unat w)" "w AND 2 \<noteq> 0 \<longleftrightarrow> odd (unat w div 2)"
  "w AND 4 \<noteq> 0 \<longleftrightarrow> odd (unat w div 4)" "w AND 8 \<noteq> 0 \<longleftrightarrow> odd (unat w div 8)"
proof -
  have b: "w AND push_bit k 1 \<noteq> 0 \<longleftrightarrow> odd (unat w div 2 ^ k)" for k
    by (simp only: flip: bit_iff_and_push_bit_not_eq_0) (simp add: bit_unsigned_iff flip: bit_iff_odd)
  show "w AND 1 \<noteq> 0 \<longleftrightarrow> odd (unat w)" "w AND 2 \<noteq> 0 \<longleftrightarrow> odd (unat w div 2)"
    "w AND 4 \<noteq> 0 \<longleftrightarrow> odd (unat w div 4)" "w AND 8 \<noteq> 0 \<longleftrightarrow> odd (unat w div 8)"
    using b [of 0] b [of 1] b [of 2] b [of 3] by simp_all
qed

lemma and_12: "(w :: uint32) AND 12 \<noteq> 0 \<longleftrightarrow> w AND 4 \<noteq> 0 \<or> w AND 8 \<noteq> 0"
proof -
  have "w AND 12 = w AND (4 OR 8)" by simp
  also have "\<dots> = (w AND 4) OR (w AND 8)" by (rule bit.conj_disj_distrib)
  finally have "w AND 12 = (w AND 4) OR (w AND 8)" .
  then show ?thesis by (simp add: or_eq_0_iff)
qed

text \<open>The code is sixteen times the mask count (minus one when no flag says otherwise) plus four flags.\<close>

definition bool_nat :: "bool \<Rightarrow> nat" where
  "bool_nat b = (if b then 1 else 0)"

lemma code_flags:
  assumes "unat (w :: uint32) = 16 * k + bool_nat cb + 2 * bool_nat cs + 4 * bool_nat f + 8 * bool_nat s"
  shows "w AND 1 \<noteq> 0 \<longleftrightarrow> cb" "w AND 2 \<noteq> 0 \<longleftrightarrow> cs" "w AND 4 \<noteq> 0 \<longleftrightarrow> f" "w AND 8 \<noteq> 0 \<longleftrightarrow> s"
    "unat w div 16 = k"
  unfolding and_bit32 assms bool_nat_def
  by (cases cb; cases cs; cases f; cases s; simp only: if_True if_False; presburger)+

lemma unat_header_code:
  assumes "CalcMaskSize c = (l, k)" "k < 2 ^ 27" "avail (coins_vout c) 0 \<or> avail (coins_vout c) 1 \<or> 0 < k"
  shows "unat (header_code 16 c) =
    16 * (k - bool_nat (\<not> (avail (coins_vout c) 0 \<or> avail (coins_vout c) 1))) + bool_nat (fCoinBase c) +
    2 * bool_nat (fCoinStake c) + 4 * bool_nat (avail (coins_vout c) 0) + 8 * bool_nat (avail (coins_vout c) 1)"
    (is "_ = ?n")
proof -
  have "header_code 16 c = of_nat ?n"
    using assms(1,3) by (auto simp: header_code_def bool_nat_def of_nat_diff Let_def)
  moreover have "?n < 2 ^ 32"
  proof -
    have "16 * (k - bool_nat b) \<le> 16 * k" "bool_nat b \<le> 1" for b by (simp_all add: bool_nat_def)
    then have "?n \<le> 16 * k + 1 + 2 * 1 + 4 * 1 + 8 * 1" by (intro add_mono mult_le_mono) simp_all
    also have "\<dots> < 2 ^ 32" using assms(2) by simp
    finally show ?thesis .
  qed
  ultimately show ?thesis by (simp add: unat_of_nat del: of_nat_add)
qed

section \<open>Outputs\<close>

definition storable :: "CTxOut \<Rightarrow> bool" where
  "storable t \<longleftrightarrow> t = CTxOut_null \<or>
     (0 \<le> nValue t \<and> nValue t < 2 ^ 60 \<and> length (scriptPubKey t) < 2 ^ 32 - 6)"

lemma storable_out:
  assumes "pubkey_laws V D" "storable t" "\<not> CTxOut_IsNull t"
  shows "UnserializeTxOutC D t0 (SerializeTxOutC V t @ rest) = Inr (t, rest)"
proof -
  have t: "0 \<le> nValue t" "nValue t < 2 ^ 60" "length (scriptPubKey t) < 2 ^ 32 - 6"
    using assms(2,3) by (auto simp: storable_def CTxOut_IsNull_def CTxOut_null_def)
  have "unat (word_of_int (nValue t) :: uint64) < 2 ^ 60"
    using t by (simp add: unat_eq_nat_uint uint_word_of_int_eq take_bit_int_eq_self nat_less_iff)
  then show ?thesis
    using t UnserializeScript_Serialize [OF assms(1) t(3)] DecompressAmount_Compress sint_of_int64
    by (simp add: UnserializeTxOutC_def SerializeTxOutC_def reader_simps varint.roundtrip in_int64_def)
qed

lemma read_outs_append:
  assumes "pubkey_laws V D" "list_all storable os"
  shows "read_outs D (map (\<lambda>t. \<not> CTxOut_IsNull t) os)
      (concat (map (SerializeTxOutC V) (filter (\<lambda>t. \<not> CTxOut_IsNull t) os)) @ rest) = Inr (os, rest)"
  using assms(2)
proof (induction os)
  case (Cons t os)
  then show ?case
    using storable_out [OF assms(1), of t] by (auto simp: reader_simps storable_def CTxOut_IsNull_def)
qed (simp add: reader_simps)

text \<open>A coin record that can be in the database: not pruned, cleaned up, every spent output null, the unspent
  ones with a value and a script that the compressed form represents, the numbers of type \<^verbatim>\<open>int\<close>.\<close>

definition coins_ok :: "CCoins \<Rightarrow> bool" where
  "coins_ok c \<longleftrightarrow>
     coins_vout c \<noteq> [] \<and> \<not> CTxOut_IsNull (last (coins_vout c)) \<and> list_all storable (coins_vout c) \<and>
     length (coins_vout c) < 2 ^ 27 \<and> in_int32 (nHeight c) \<and> in_int32 (coins_nVersion c)"

lemma CalcMaskSize_props:
  assumes "CalcMaskSize c = (l, k)" "coins_vout c \<noteq> []" "\<not> CTxOut_IsNull (last (coins_vout c))"
  shows "k = length (filter (\<lambda>m. m \<noteq> 0) (map (mask_byte (coins_vout c)) [0 ..< l]))"
    and "l = 0 \<or> mask_byte (coins_vout c) (l - 1) \<noteq> 0"
    and "length (coins_vout c) \<le> 2 + 8 * l" "k \<le> l" "8 * l < length (coins_vout c) + 8"
proof -
  let ?os = "coins_vout c"
  have m: "mask_ok ?os l k" "\<forall>j \<ge> l. mask_byte_zero ?os j"
    using mask_loop_ok [of ?os 0 0 0 l k] assms(1) by (simp_all add: CalcMaskSize_def mask_ok_def)
  show k: "k = length (filter (\<lambda>m. m \<noteq> 0) (map (mask_byte ?os) [0 ..< l]))"
    using m(1) by (simp add: mask_ok_def filter_map o_def mask_byte_eq_0)
  show nz: "l = 0 \<or> mask_byte ?os (l - 1) \<noteq> 0" using m(1) by (simp add: mask_ok_def mask_byte_eq_0)
  show "k \<le> l" unfolding k using length_filter_le by (metis length_map length_upt minus_nat.diff_0)
  show "8 * l < length ?os + 8"
  proof (cases l)
    case (Suc l')
    then have "\<not> length ?os \<le> 2 + l' * 8" using nz mask_byte_zero_beyond by (auto simp: mask_byte_eq_0)
    then show ?thesis using Suc by simp
  qed (use assms(2) in simp)
  show "length ?os \<le> 2 + 8 * l"
  proof (rule ccontr)
    define i where "i = length ?os - 3"
    assume "\<not> length ?os \<le> 2 + 8 * l"
    then have i: "8 * l \<le> i" "length ?os = i + 3" by (simp_all add: i_def)
    then have "avail ?os (2 + i div 8 * 8 + i mod 8)" using assms(2,3) by (simp add: avail_def last_conv_nth)
    then have "\<not> mask_byte_zero ?os (i div 8)"
      by (auto simp: mask_byte_zero_def list_all_iff intro!: bexI [of _ "i mod 8"])
    moreover have "l \<le> i div 8" using i(1) by simp
    ultimately show False using m(2) by blast
  qed
qed

lemma avail_pad:
  "length os \<le> n \<Longrightarrow>
   map (avail os) [0 ..< n] = map (\<lambda>t. \<not> CTxOut_IsNull t) (os @ replicate (n - length os) CTxOut_null)"
  by (rule nth_equalityI) (auto simp: avail_def nth_append CTxOut_IsNull_def CTxOut_null_def)

lemma coins_ok_pad:
  assumes "coins_ok c"
  shows "drop_null (coins_vout c @ replicate n CTxOut_null) = coins_vout c"
    and "list_all storable (coins_vout c @ replicate n CTxOut_null)"
    and "filter (\<lambda>t. \<not> CTxOut_IsNull t) (coins_vout c @ replicate n CTxOut_null) =
         filter (\<lambda>t. \<not> CTxOut_IsNull t) (coins_vout c)"
  using assms by (auto simp: coins_ok_def storable_def list_all_iff drop_null_append drop_null_id CTxOut_IsNull_def
      CTxOut_null_def filter_empty_conv)

lemma bits_avail:
  "length os \<le> 2 + 8 * l \<Longrightarrow>
   [avail os 0, avail os 1] @ concat (map byte_bits (map (mask_byte os) [0 ..< l])) =
   map (\<lambda>t. \<not> CTxOut_IsNull t) (os @ replicate (2 + 8 * l - length os) CTxOut_null)"
proof -
  assume a: "length os \<le> 2 + 8 * l"
  have "[0 ..< 2 + 8 * l] = [0, 1] @ map (\<lambda>i. 2 + i) [0 ..< 8 * l]"
    by (rule nth_equalityI) (auto simp: nth_append nth_Cons')
  then have "map (avail os) [0 ..< 2 + 8 * l] =
      [avail os 0, avail os 1] @ map (\<lambda>i. avail os (2 + i)) [0 ..< 8 * l]" by simp
  then show ?thesis using avail_pad [OF a] mask_bits [of os l] by metis
qed

lemma read_code:
  assumes "coins_ok c" "CalcMaskSize c = (l, k)"
  defines "w \<equiv> header_code 16 c"
  shows "(w AND 1 \<noteq> 0) = fCoinBase c" "(w AND 2 \<noteq> 0) = fCoinStake c"
    "(w AND 4 \<noteq> 0) = avail (coins_vout c) 0" "(w AND 8 \<noteq> 0) = avail (coins_vout c) 1"
    "unat w div 16 + (if w AND 12 \<noteq> 0 then 0 else 1) = k"
proof -
  let ?os = "coins_vout c"
  have os: "?os \<noteq> []" "\<not> CTxOut_IsNull (last ?os)" using assms(1) by (simp_all add: coins_ok_def)
  note m = CalcMaskSize_props [OF assms(2) os]
  have "k < 2 ^ 27" using m(4,5) assms(1) by (simp add: coins_ok_def)
  moreover have pos: "avail ?os 0 \<or> avail ?os 1 \<or> 0 < k"
  proof (cases "l = 0")
    case True
    then have "avail ?os (length ?os - 1)" "length ?os - 1 = 0 \<or> length ?os - 1 = 1"
      using os m(3) by (auto simp: avail_def last_conv_nth)
    then show ?thesis by metis
  next
    case False
    then have "mask_byte ?os (l - 1) \<in> set (filter (\<lambda>m. m \<noteq> 0) (map (mask_byte ?os) [0 ..< l]))"
      using m(2) by auto
    then show ?thesis unfolding m(1) by (metis length_pos_if_in_set)
  qed
  ultimately have u: "unat w = 16 * (k - bool_nat (\<not> (avail ?os 0 \<or> avail ?os 1))) + bool_nat (fCoinBase c) +
      2 * bool_nat (fCoinStake c) + 4 * bool_nat (avail ?os 0) + 8 * bool_nat (avail ?os 1)"
    unfolding w_def by (intro unat_header_code [OF assms(2)])
  note f = code_flags [OF u]
  show "(w AND 1 \<noteq> 0) = fCoinBase c" "(w AND 2 \<noteq> 0) = fCoinStake c"
    "(w AND 4 \<noteq> 0) = avail ?os 0" "(w AND 8 \<noteq> 0) = avail ?os 1" by (fact f)+
  show "unat w div 16 + (if w AND 12 \<noteq> 0 then 0 else 1) = k"
    using pos f(5) by (auto simp only: and_12 f(3,4) bool_nat_def split: if_splits)
qed

text \<open>C11: a coin record written to the database is read back, with exactly the written bytes consumed, and is
  the same record, except that a negative version or height comes back as its seven low bits. The header
  code, the unspentness bitmask and the compact outputs determine all the rest. This holds for every record that is
  not pruned and ends with an unspent output, that has fewer than \<open>2^27\<close> outputs, the spent ones null and the unspent
  ones with a value in \<open>[0, 2^60)\<close> and a script shorter than \<open>2^32 - 6\<close> bytes, and whose version and height are
  \<^verbatim>\<open>int\<close> values; the point decompression is the inverse of the compression.\<close>

theorem CCoins_roundtrip:
  assumes "pubkey_laws V D" "coins_ok c"
  shows "CCoins_Unserialize D (CCoins_Serialize V c @ rest) =
    Inr (c\<lparr>coins_nVersion := stored_int (coins_nVersion c), nHeight := stored_int (nHeight c)\<rparr>, rest)"
proof -
  obtain l k where lk: "CalcMaskSize c = (l, k)" by (cases "CalcMaskSize c")
  let ?os = "coins_vout c" and ?w = "header_code 16 c"
  let ?pad = "?os @ replicate (2 + 8 * l - length ?os) CTxOut_null"
  have os: "?os \<noteq> []" "\<not> CTxOut_IsNull (last ?os)" using assms(2) by (simp_all add: coins_ok_def)
  note m = CalcMaskSize_props [OF lk os] and w = read_code [OF assms(2) lk]
  have "map (mask_byte ?os) [0 ..< l] = [] \<or> last (map (mask_byte ?os) [0 ..< l]) \<noteq> 0"
    using m(2) by (auto simp: last_map)
  then have mask: "read_mask k (map (mask_byte ?os) [0 ..< l] @ s) =
      Inr (concat (map byte_bits (map (mask_byte ?os) [0 ..< l])), s)" for s
    using read_mask_append m(1) by metis
  have outs: "read_outs D ([avail ?os 0, avail ?os 1] @ concat (map byte_bits (map (mask_byte ?os) [0 ..< l])))
      (concat (map (SerializeTxOutC V) (filter (\<lambda>t. \<not> CTxOut_IsNull t) ?os)) @ s) = Inr (?pad, s)" for s
    unfolding bits_avail [OF m(3)]
    using read_outs_append [OF assms(1) coins_ok_pad(2) [OF assms(2)]] coins_ok_pad(3) [OF assms(2)] by metis
  have num: "ReadVarInt_int (WriteVarInt_int (coins_nVersion c) @ s) = Inr (stored_int (coins_nVersion c), s)"
    "ReadVarInt_int (WriteVarInt_int (nHeight c) @ s) = Inr (stored_int (nHeight c), s)" for s
    using assms(2) by (auto intro!: read_stored_int simp: coins_ok_def)
  show ?thesis
    unfolding CCoins_Unserialize_def CCoins_Serialize_def append_assoc
    by (simp only: rbind_def num varint.roundtrip [OF TrueI] lk fst_conv Let_def w mask outs sum.case prod.case
        rret_apply Cleanup_def) (simp add: coins_ok_pad(1) [OF assms(2)])
qed

text \<open>The coins of a transaction with two outputs, the first one spent, and with the version \<open>-2\<close>.\<close>

theorem CCoins_roundtrip_witness:
  "CCoins_Unserialize (\<lambda>_. None) (CCoins_Serialize (\<lambda>_. False)
     \<lparr>fCoinBase = False, fCoinStake = True, coins_vout = [CTxOut_null, \<lparr>nValue = 5, scriptPubKey = [OP_1]\<rparr>],
      nHeight = 12, coins_nVersion = -2\<rparr> @ [9]) =
   Inr (\<lparr>fCoinBase = False, fCoinStake = True, coins_vout = [CTxOut_null, \<lparr>nValue = 5, scriptPubKey = [OP_1]\<rparr>],
      nHeight = 12, coins_nVersion = 126\<rparr>, [9])"
  using CCoins_roundtrip [of "\<lambda>_. False" "\<lambda>_. None"
     "\<lparr>fCoinBase = False, fCoinStake = True, coins_vout = [CTxOut_null, \<lparr>nValue = 5, scriptPubKey = [OP_1]\<rparr>],
      nHeight = 12, coins_nVersion = -2\<rparr>" "[9]"]
  by (simp add: pubkey_laws_def coins_ok_def storable_def CTxOut_IsNull_def in_int32_def stored_int_def)

section \<open>The size computation\<close>

lemma length_CCoins_Serialize:
  "length (CCoins_Serialize V c) + GetSizeOfVarInt (header_code 8 c) =
   CCoins_GetSerializeSize V c + GetSizeOfVarInt (header_code 16 c)"
  by (simp add: CCoins_Serialize_def CCoins_GetSerializeSize_def length_WriteVarInt length_concat o_def)

text \<open>Sixty-seven unspent outputs of one unit.\<close>

definition wide_coins :: CCoins where
  "wide_coins = \<lparr>fCoinBase = False, fCoinStake = False,
     coins_vout = replicate 67 \<lparr>nValue = 1, scriptPubKey = [OP_1]\<rparr>, nHeight = 1, coins_nVersion = 1\<rparr>"

lemma wide_coins_codes: "GetSizeOfVarInt (header_code 8 wide_coins) = 1" "GetSizeOfVarInt (header_code 16 wide_coins) = 2"
  by code_simp+

text \<open>\<^verbatim>\<open>CCoins::GetSerializeSize\<close> does not compute the size of what \<^verbatim>\<open>CCoins::Serialize\<close>
  writes: it builds the header code with the factor 8, the serialization with 16, and for
  records with many outputs the two codes have different lengths.\<close>

theorem CCoins_GetSerializeSize_differs:
  "coins_ok wide_coins \<and> CCoins_GetSerializeSize V wide_coins \<noteq> length (CCoins_Serialize V wide_coins)"
proof -
  have "coins_ok wide_coins"
    by (simp add: coins_ok_def wide_coins_def storable_def CTxOut_IsNull_def list_all_iff in_int32_def)
  then show ?thesis using length_CCoins_Serialize [of V wide_coins] wide_coins_codes by simp
qed

section \<open>Undo records\<close>

definition undo_ok :: "CTxInUndo \<Rightarrow> bool" where
  "undo_ok u \<longleftrightarrow>
     unat (undo_nHeight u) < 2 ^ 30 \<and> storable (undo_txout u) \<and> \<not> CTxOut_IsNull (undo_txout u) \<and>
     (if undo_nHeight u = 0 then undo_nVersion u = 0 else in_int32 (undo_nVersion u))"

lemma undo_code_props:
  assumes "unat (undo_nHeight u) < 2 ^ 30"
  shows "drop_bit 2 (undo_code u) = undo_nHeight u" "(undo_code u AND 2 \<noteq> 0) = undo_fCoinBase u"
    "(undo_code u AND 1 \<noteq> 0) = undo_fCoinStake u"
proof -
  let ?n = "4 * unat (undo_nHeight u) + 2 * bool_nat (undo_fCoinBase u) + bool_nat (undo_fCoinStake u)"
  have "undo_code u = of_nat ?n" by (simp add: undo_code_def bool_nat_def)
  moreover have "?n < 2 ^ 32" using assms by (simp add: bool_nat_def)
  ultimately have n: "unat (undo_code u) = ?n" by (simp add: unat_of_nat del: of_nat_add)
  show "(undo_code u AND 2 \<noteq> 0) = undo_fCoinBase u" "(undo_code u AND 1 \<noteq> 0) = undo_fCoinStake u"
    unfolding and_bit32 n bool_nat_def
    by (cases "undo_fCoinBase u"; cases "undo_fCoinStake u"; simp only: if_True if_False; presburger)+
  have "unat (drop_bit 2 (undo_code u)) = ?n div 4" by (simp only: unat_drop_bit_eq n) (simp add: drop_bit_eq_div)
  also have "\<dots> = unat (undo_nHeight u)" unfolding bool_nat_def
    by (cases "undo_fCoinBase u"; cases "undo_fCoinStake u"; simp only: if_True if_False; presburger)
  finally show "drop_bit 2 (undo_code u) = undo_nHeight u" by (simp add: word_unat_eq_iff)
qed

text \<open>Undo records are read back as written, including the coinbase and coinstake flags and
  the height, for heights below \<open>2^30\<close>; a negative version comes back as its seven low bits.\<close>

theorem CTxInUndo_roundtrip:
  assumes "pubkey_laws V D" "undo_ok u"
  shows "CTxInUndo_Unserialize D (CTxInUndo_Serialize V u @ rest) =
    Inr (u\<lparr>undo_nVersion := stored_int (undo_nVersion u)\<rparr>, rest)"
proof -
  have h: "unat (undo_nHeight u) < 2 ^ 30" using assms(2) by (simp add: undo_ok_def)
  have t: "UnserializeTxOutC D CTxOut_null (SerializeTxOutC V (undo_txout u) @ rest) = Inr (undo_txout u, rest)"
    using assms by (intro storable_out) (simp_all add: undo_ok_def)
  have v: "ReadVarInt_int (WriteVarInt_int (undo_nVersion u) @ s) = Inr (stored_int (undo_nVersion u), s)"
    if "undo_nHeight u > 0" for s
    using assms(2) that by (intro read_stored_int) (auto simp: undo_ok_def split: if_splits)
  have z: "undo_nVersion u = 0" if "\<not> undo_nHeight u > 0"
    using assms(2) that by (simp add: undo_ok_def word_neq_0_conv split: if_splits)
  show ?thesis
    unfolding CTxInUndo_Unserialize_def CTxInUndo_Serialize_def append_assoc
    by (cases "undo_nHeight u > 0")
      (simp_all only: rbind_def varint.roundtrip [OF TrueI] Let_def undo_code_props [OF h] if_True if_False
        v t z sum.case prod.case rret_apply append_Nil simp_thms, simp_all add: z)
qed

theorem CTxInUndo_roundtrip_witness:
  "CTxInUndo_Unserialize (\<lambda>_. None) (CTxInUndo_Serialize (\<lambda>_. False)
     \<lparr>undo_txout = \<lparr>nValue = 5, scriptPubKey = [OP_1]\<rparr>, undo_fCoinBase = False, undo_fCoinStake = True,
      undo_nHeight = 12, undo_nVersion = 1\<rparr> @ [9]) =
   Inr (\<lparr>undo_txout = \<lparr>nValue = 5, scriptPubKey = [OP_1]\<rparr>, undo_fCoinBase = False, undo_fCoinStake = True,
      undo_nHeight = 12, undo_nVersion = 1\<rparr>, [9])"
  using CTxInUndo_roundtrip [of "\<lambda>_. False" "\<lambda>_. None"
     "\<lparr>undo_txout = \<lparr>nValue = 5, scriptPubKey = [OP_1]\<rparr>, undo_fCoinBase = False, undo_fCoinStake = True,
      undo_nHeight = 12, undo_nVersion = 1\<rparr>" "[9]"]
  by (simp add: pubkey_laws_def undo_ok_def storable_def CTxOut_IsNull_def in_int32_def)

end
