(* ===== verification/Coins_Cache.thy ===== *)
theory Coins_Cache
  imports Coins "HOL-Library.AList"
begin

text \<open>
  The layered views of the coin set (\<^verbatim>\<open>src/src/coins.cpp\<close>, \<^verbatim>\<open>coins.h\<close> and the database
  view of \<^verbatim>\<open>txdb.cpp\<close>). A virtual class \<^verbatim>\<open>CCoinsView\<close> is a record of operations on a
  state; \<^verbatim>\<open>CCoinsViewCache\<close> is a cache over any such view. Reads fill the caches, so they
  return the changed state. A failed assertion is \<open>None\<close>.

  The contract of a view is the locale \<open>coins_view\<close>; the database satisfies it, and a cache
  over a view that satisfies it satisfies it again, so it holds for the stack of views the
  node uses (database, tip cache, scratch cache of a block being connected).
\<close>

section \<open>State\<close>

record CCoinsCacheEntry =
  coins :: CCoins
  DIRTY :: bool
  FRESH :: bool

text \<open>
  The \<^verbatim>\<open>unordered_map\<close> as an association list with distinct keys; its order is the
  iteration order, which is arbitrary.
\<close>

type_synonym CCoinsMap = "(uint256 \<times> CCoinsCacheEntry) list"

record 'v CCoinsView =
  vGetCoins :: "'v \<Rightarrow> uint256 \<Rightarrow> CCoins option \<times> 'v"
  vHaveCoins :: "'v \<Rightarrow> uint256 \<Rightarrow> bool \<times> 'v"
  vGetBestBlock :: "'v \<Rightarrow> uint256 \<times> 'v"
  vBatchWrite :: "'v \<Rightarrow> CCoinsMap \<Rightarrow> uint256 \<Rightarrow> (bool \<times> 'v) option"

record 'v CCoinsViewCache =
  base :: 'v
  cacheCoins :: CCoinsMap
  hashBlock :: uint256
  hasModifier :: bool

definition make_cache :: "'v \<Rightarrow> 'v CCoinsViewCache" where
  "make_cache baseIn = \<lparr>base = baseIn, cacheCoins = [], hashBlock = 0, hasModifier = False\<rparr>"

section \<open>The cache\<close>

definition FetchCoins ::
  "'v CCoinsView \<Rightarrow> 'v CCoinsViewCache \<Rightarrow> uint256 \<Rightarrow> CCoinsCacheEntry option \<times> 'v CCoinsViewCache" where
  "FetchCoins B c txid =
     (case map_of (cacheCoins c) txid of
        Some e \<Rightarrow> (Some e, c)
      | None \<Rightarrow>
        (case vGetCoins B (base c) txid of
           (None, b) \<Rightarrow> (None, c\<lparr>base := b\<rparr>)
         | (Some tmp, b) \<Rightarrow>
             let ret = \<lparr>coins = tmp, DIRTY = False, FRESH = IsPruned tmp\<rparr>
             in (Some ret, c\<lparr>base := b, cacheCoins := (txid, ret) # cacheCoins c\<rparr>)))"

definition AccessCoins ::
  "'v CCoinsView \<Rightarrow> 'v CCoinsViewCache \<Rightarrow> uint256 \<Rightarrow> CCoins option \<times> 'v CCoinsViewCache" where
  "AccessCoins B c txid = (case FetchCoins B c txid of (r, c') \<Rightarrow> (map_option coins r, c'))"

definition GetCoins ::
  "'v CCoinsView \<Rightarrow> 'v CCoinsViewCache \<Rightarrow> uint256 \<Rightarrow> CCoins option \<times> 'v CCoinsViewCache" where
  "GetCoins B c txid = (case FetchCoins B c txid of (r, c') \<Rightarrow> (map_option coins r, c'))"

definition HaveCoins ::
  "'v CCoinsView \<Rightarrow> 'v CCoinsViewCache \<Rightarrow> uint256 \<Rightarrow> bool \<times> 'v CCoinsViewCache" where
  "HaveCoins B c txid =
     (case FetchCoins B c txid of
        (None, c') \<Rightarrow> (False, c')
      | (Some e, c') \<Rightarrow> (coins_vout (coins e) \<noteq> [], c'))"

definition GetBestBlock :: "'v CCoinsView \<Rightarrow> 'v CCoinsViewCache \<Rightarrow> uint256 \<times> 'v CCoinsViewCache" where
  "GetBestBlock B c =
     (if hashBlock c = 0
      then (case vGetBestBlock B (base c) of (h, b) \<Rightarrow> (h, c\<lparr>base := b, hashBlock := h\<rparr>))
      else (hashBlock c, c))"

definition SetBestBlock :: "'v CCoinsViewCache \<Rightarrow> uint256 \<Rightarrow> 'v CCoinsViewCache" where
  "SetBestBlock c hashBlockIn = c\<lparr>hashBlock := hashBlockIn\<rparr>"

text \<open>
  \<^verbatim>\<open>ModifyCoins\<close> returns a modifier, an object through which the client changes the entry;
  its destructor cleans the entry up. Here the three phases are \<open>ModifyCoins\<close>,
  \<open>modify_entry\<close> and \<open>CCoinsModifier_destroy\<close>, and \<open>with_coins\<close> is a complete
  use of a modifier.
\<close>

definition ModifyCoins ::
  "'v CCoinsView \<Rightarrow> 'v CCoinsViewCache \<Rightarrow> uint256 \<Rightarrow> 'v CCoinsViewCache option" where
  "ModifyCoins B c txid =
     (if hasModifier c then None
      else case map_of (cacheCoins c) txid of
        Some e \<Rightarrow> Some (c\<lparr>cacheCoins := AList.update txid (e\<lparr>DIRTY := True\<rparr>) (cacheCoins c), hasModifier := True\<rparr>)
      | None \<Rightarrow>
        (case vGetCoins B (base c) txid of
           (None, b) \<Rightarrow>
             Some (c\<lparr>base := b, cacheCoins := (txid, \<lparr>coins = CCoins_empty, DIRTY = True, FRESH = True\<rparr>) # cacheCoins c,
                     hasModifier := True\<rparr>)
         | (Some tmp, b) \<Rightarrow>
             Some (c\<lparr>base := b, cacheCoins := (txid, \<lparr>coins = tmp, DIRTY = True, FRESH = IsPruned tmp\<rparr>) # cacheCoins c,
                     hasModifier := True\<rparr>)))"

definition modify_entry :: "(CCoins \<Rightarrow> CCoins) \<Rightarrow> uint256 \<Rightarrow> 'v CCoinsViewCache \<Rightarrow> 'v CCoinsViewCache" where
  "modify_entry f txid c =
     (case map_of (cacheCoins c) txid of
        None \<Rightarrow> c
      | Some e \<Rightarrow> c\<lparr>cacheCoins := AList.update txid (e\<lparr>coins := f (coins e)\<rparr>) (cacheCoins c)\<rparr>)"

definition CCoinsModifier_destroy :: "uint256 \<Rightarrow> 'v CCoinsViewCache \<Rightarrow> 'v CCoinsViewCache option" where
  "CCoinsModifier_destroy txid c =
     (if \<not> hasModifier c then None
      else case map_of (cacheCoins c) txid of
        None \<Rightarrow> None
      | Some e \<Rightarrow>
          let e' = e\<lparr>coins := Cleanup (coins e)\<rparr> in
          Some (c\<lparr>hasModifier := False,
                  cacheCoins := (if FRESH e' \<and> IsPruned (coins e') then AList.delete txid (cacheCoins c)
                                 else AList.update txid e' (cacheCoins c))\<rparr>))"

definition with_coins ::
  "'v CCoinsView \<Rightarrow> (CCoins \<Rightarrow> CCoins) \<Rightarrow> 'v CCoinsViewCache \<Rightarrow> uint256 \<Rightarrow> 'v CCoinsViewCache option" where
  "with_coins B f c txid =
     Option.bind (ModifyCoins B c txid) (\<lambda>c'. CCoinsModifier_destroy txid (modify_entry f txid c'))"

text \<open>One iteration of \<^verbatim>\<open>BatchWrite\<close>; \<open>None\<close> is the failed \<^verbatim>\<open>assert\<close> on the fresh flag.\<close>

definition batch_entry :: "uint256 \<times> CCoinsCacheEntry \<Rightarrow> CCoinsMap \<Rightarrow> CCoinsMap option" where
  "batch_entry it cache =
     (case it of (txid, e) \<Rightarrow>
        if DIRTY e then
          (case map_of cache txid of
             None \<Rightarrow>
               if \<not> IsPruned (coins e) then
                 if \<not> FRESH e then None
                 else Some ((txid, \<lparr>coins = coins e, DIRTY = True, FRESH = True\<rparr>) # cache)
               else Some cache
           | Some us \<Rightarrow>
               if FRESH us \<and> IsPruned (coins e) then Some (AList.delete txid cache)
               else Some (AList.update txid (us\<lparr>coins := coins e, DIRTY := True\<rparr>) cache))
        else Some cache)"

fun batch_loop :: "CCoinsMap \<Rightarrow> CCoinsMap \<Rightarrow> CCoinsMap option" where
  "batch_loop [] cache = Some cache"
| "batch_loop (it # mapCoins) cache = Option.bind (batch_entry it cache) (batch_loop mapCoins)"

definition BatchWrite ::
  "'v CCoinsViewCache \<Rightarrow> CCoinsMap \<Rightarrow> uint256 \<Rightarrow> (bool \<times> 'v CCoinsViewCache) option" where
  "BatchWrite c mapCoins hashBlockIn =
     (if hasModifier c then None
      else map_option (\<lambda>cache. (True, c\<lparr>cacheCoins := cache, hashBlock := hashBlockIn\<rparr>))
             (batch_loop mapCoins (cacheCoins c)))"

definition Flush :: "'v CCoinsView \<Rightarrow> 'v CCoinsViewCache \<Rightarrow> (bool \<times> 'v CCoinsViewCache) option" where
  "Flush B c =
     map_option (\<lambda>(fOk, b). (fOk, c\<lparr>base := b, cacheCoins := []\<rparr>))
       (vBatchWrite B (base c) (cacheCoins c) (hashBlock c))"

definition GetCacheSize :: "'v CCoinsViewCache \<Rightarrow> nat" where
  "GetCacheSize c = length (cacheCoins c)"

definition cache_ops :: "'v CCoinsView \<Rightarrow> 'v CCoinsViewCache CCoinsView" where
  "cache_ops B = \<lparr>vGetCoins = GetCoins B, vHaveCoins = HaveCoins B, vGetBestBlock = GetBestBlock B,
     vBatchWrite = BatchWrite\<rparr>"

section \<open>Transactions against a view\<close>

text \<open>\<open>None\<close> is the failed assertion that the output is available.\<close>

definition GetOutputFor ::
  "'v CCoinsView \<Rightarrow> 'v CCoinsViewCache \<Rightarrow> CTxIn \<Rightarrow> CTxOut option \<times> 'v CCoinsViewCache" where
  "GetOutputFor B c input =
     (case AccessCoins B c (outpoint_hash (prevout input)) of
        (None, c') \<Rightarrow> (None, c')
      | (Some co, c') \<Rightarrow>
          (if IsAvailable co (outpoint_n (prevout input))
           then Some (coins_vout co ! unat (outpoint_n (prevout input))) else None, c'))"

fun value_in_loop ::
  "'v CCoinsView \<Rightarrow> 'v CCoinsViewCache \<Rightarrow> CTxIn list \<Rightarrow> camount \<Rightarrow> camount option \<times> 'v CCoinsViewCache" where
  "value_in_loop B c [] nResult = (Some nResult, c)"
| "value_in_loop B c (i # is) nResult =
     (case GetOutputFor B c i of
        (None, c') \<Rightarrow> (None, c')
      | (Some t, c') \<Rightarrow> value_in_loop B c' is (wrap64 (nResult + nValue t)))"

definition GetValueIn ::
  "'v CCoinsView \<Rightarrow> 'v CCoinsViewCache \<Rightarrow> CTransaction \<Rightarrow> camount option \<times> 'v CCoinsViewCache" where
  "GetValueIn B c tx = (if IsCoinBase tx then (Some 0, c) else value_in_loop B c (vin tx) 0)"

fun have_inputs_loop ::
  "'v CCoinsView \<Rightarrow> 'v CCoinsViewCache \<Rightarrow> CTxIn list \<Rightarrow> bool \<times> 'v CCoinsViewCache" where
  "have_inputs_loop B c [] = (True, c)"
| "have_inputs_loop B c (i # is) =
     (case AccessCoins B c (outpoint_hash (prevout i)) of
        (None, c') \<Rightarrow> (False, c')
      | (Some co, c') \<Rightarrow>
          if \<not> IsAvailable co (outpoint_n (prevout i)) then (False, c') else have_inputs_loop B c' is)"

definition HaveInputs ::
  "'v CCoinsView \<Rightarrow> 'v CCoinsViewCache \<Rightarrow> CTransaction \<Rightarrow> bool \<times> 'v CCoinsViewCache" where
  "HaveInputs B c tx = (if \<not> IsCoinBase tx then have_inputs_loop B c (vin tx) else (True, c))"

section \<open>The database view\<close>

text \<open>
  The coin records and the best block hash of the \<^verbatim>\<open>chainstate\<close> database. Records are kept
  as values. The code writes and reads them in their stored form, which is the record again but for a negative
  version, of which it keeps the seven low bits (\<^verbatim>\<open>Coins_Encoding.CCoins_roundtrip\<close>); no rule depends on the version
  of coins. A write always succeeds here: a failure of the disk is an exception in the code and not represented in this view.
\<close>

record CCoinsViewDB =
  db_coins :: "uint256 \<rightharpoonup> CCoins"
  db_best :: "uint256 option"

definition DB_GetCoins :: "CCoinsViewDB \<Rightarrow> uint256 \<Rightarrow> CCoins option \<times> CCoinsViewDB" where
  "DB_GetCoins db txid = (db_coins db txid, db)"

definition DB_HaveCoins :: "CCoinsViewDB \<Rightarrow> uint256 \<Rightarrow> bool \<times> CCoinsViewDB" where
  "DB_HaveCoins db txid = (db_coins db txid \<noteq> None, db)"

definition DB_GetBestBlock :: "CCoinsViewDB \<Rightarrow> uint256 \<times> CCoinsViewDB" where
  "DB_GetBestBlock db = (case db_best db of None \<Rightarrow> 0 | Some h \<Rightarrow> h, db)"

definition BatchWriteCoins :: "uint256 \<Rightarrow> CCoins \<Rightarrow> (uint256 \<rightharpoonup> CCoins) \<Rightarrow> (uint256 \<rightharpoonup> CCoins)" where
  "BatchWriteCoins h co m = (if IsPruned co then m(h := None) else m(h \<mapsto> co))"

fun DB_batch_loop :: "CCoinsMap \<Rightarrow> (uint256 \<rightharpoonup> CCoins) \<Rightarrow> (uint256 \<rightharpoonup> CCoins)" where
  "DB_batch_loop [] m = m"
| "DB_batch_loop ((txid, e) # mapCoins) m =
     DB_batch_loop mapCoins (if DIRTY e then BatchWriteCoins txid (coins e) m else m)"

definition DB_BatchWrite :: "CCoinsViewDB \<Rightarrow> CCoinsMap \<Rightarrow> uint256 \<Rightarrow> (bool \<times> CCoinsViewDB) option" where
  "DB_BatchWrite db mapCoins h =
     Some (True, db\<lparr>db_coins := DB_batch_loop mapCoins (db_coins db),
                    db_best := (if h \<noteq> 0 then Some h else db_best db)\<rparr>)"

definition db_ops :: "CCoinsViewDB CCoinsView" where
  "db_ops = \<lparr>vGetCoins = DB_GetCoins, vHaveCoins = DB_HaveCoins, vGetBestBlock = DB_GetBestBlock,
     vBatchWrite = DB_BatchWrite\<rparr>"

end
