(* ===== verification/Coins_View.thy ===== *)
theory Coins_View
  imports Coins_Cache
begin

text \<open>
  The contract of a coin view and its proof for the database and for caches of any depth:
  a cache shows the coins of its base overlaid with its own entries, reading never changes
  what is shown, and flushing moves exactly the shown state down one level.
\<close>

section \<open>The contract\<close>

text \<open>A pruned record stands for no record.\<close>

definition live :: "CCoins option \<Rightarrow> CCoins option" where
  "live r = (case r of None \<Rightarrow> None | Some c \<Rightarrow> if IsPruned c then None else Some c)"

definition overlay :: "CCoinsMap \<Rightarrow> (uint256 \<Rightarrow> CCoins option) \<Rightarrow> uint256 \<Rightarrow> CCoins option" where
  "overlay m f txid = (case map_of m txid of None \<Rightarrow> f txid | Some e \<Rightarrow> live (Some (coins e)))"

text \<open>
  What holds of an entry over a base that shows \<open>f\<close> and keeps the transactions \<open>h\<close>
  itself: a fresh entry is absent below, an entry that is not dirty agrees with the base, and
  one that is not fresh was pulled through the base.
\<close>

definition entry_ok :: "(uint256 \<Rightarrow> CCoins option) \<Rightarrow> (uint256 \<Rightarrow> bool) \<Rightarrow> uint256 \<Rightarrow> CCoinsCacheEntry \<Rightarrow> bool" where
  "entry_ok f h txid e \<longleftrightarrow>
     (FRESH e \<longrightarrow> f txid = None) \<and> (\<not> DIRTY e \<longrightarrow> live (Some (coins e)) = f txid) \<and> (\<not> FRESH e \<longrightarrow> h txid)"

definition map_ok :: "(uint256 \<Rightarrow> CCoins option) \<Rightarrow> (uint256 \<Rightarrow> bool) \<Rightarrow> CCoinsMap \<Rightarrow> bool" where
  "map_ok f h m \<longleftrightarrow> distinct (map fst m) \<and> (\<forall>txid e. map_of m txid = Some e \<longrightarrow> entry_ok f h txid e)"

locale coins_reader =
  fixes B :: "'v CCoinsView"
    and ok :: "'v \<Rightarrow> bool"
    and content :: "'v \<Rightarrow> uint256 \<Rightarrow> CCoins option"
    and held :: "'v \<Rightarrow> uint256 \<Rightarrow> bool"
    and best :: "'v \<Rightarrow> uint256"
  assumes get: "ok v \<Longrightarrow> vGetCoins B v txid = (r, v') \<Longrightarrow>
      ok v' \<and> content v' = content v \<and> best v' = best v \<and> held v \<le> held v' \<and>
      live r = content v txid \<and> (live r \<noteq> None \<longrightarrow> held v' txid)"
    and get_best: "ok v \<Longrightarrow> vGetBestBlock B v = (h, v') \<Longrightarrow>
      ok v' \<and> content v' = content v \<and> best v' = best v \<and> held v \<le> held v' \<and> h = best v"

text \<open>A view that can also be written to.\<close>

locale coins_view = coins_reader +
  assumes batch: "ok v \<Longrightarrow> map_ok (content v) (held v) m \<Longrightarrow>
      \<exists>v'. vBatchWrite B v m h = Some (True, v') \<and> ok v' \<and> content v' = overlay m (content v) \<and>
           (h \<noteq> 0 \<longrightarrow> best v' = h)"

definition cache_inv ::
  "('v \<Rightarrow> bool) \<Rightarrow> ('v \<Rightarrow> uint256 \<Rightarrow> CCoins option) \<Rightarrow> ('v \<Rightarrow> uint256 \<Rightarrow> bool) \<Rightarrow> 'v CCoinsViewCache \<Rightarrow> bool" where
  "cache_inv ok content held c \<longleftrightarrow>
     ok (base c) \<and> \<not> hasModifier c \<and> map_ok (content (base c)) (held (base c)) (cacheCoins c)"

definition cache_content ::
  "('v \<Rightarrow> uint256 \<Rightarrow> CCoins option) \<Rightarrow> 'v CCoinsViewCache \<Rightarrow> uint256 \<Rightarrow> CCoins option" where
  "cache_content content c = overlay (cacheCoins c) (content (base c))"

definition cache_held :: "'v CCoinsViewCache \<Rightarrow> uint256 \<Rightarrow> bool" where
  "cache_held c txid \<longleftrightarrow> map_of (cacheCoins c) txid \<noteq> None"

definition cache_best :: "('v \<Rightarrow> uint256) \<Rightarrow> 'v CCoinsViewCache \<Rightarrow> uint256" where
  "cache_best best c = (if hashBlock c = 0 then best (base c) else hashBlock c)"

text \<open>The unspent output at an outpoint.\<close>

definition content_out :: "(uint256 \<Rightarrow> CCoins option) \<Rightarrow> COutPoint \<Rightarrow> CTxOut option" where
  "content_out f p =
     (case f (outpoint_hash p) of
        None \<Rightarrow> None
      | Some co \<Rightarrow> if IsAvailable co (outpoint_n p) then Some (coins_vout co ! unat (outpoint_n p)) else None)"

section \<open>Shared lemmas\<close>

lemma live_simps [simp]: "live None = None" "live (live r) = live r" "IsPruned c \<Longrightarrow> live (Some c) = None"
  "\<not> IsPruned c \<Longrightarrow> live (Some c) = Some c" "live (Some c) = None \<longleftrightarrow> IsPruned c"
  by (auto simp: live_def split: option.splits)

lemma IsPruned_Cleanup [simp]: "IsPruned (Cleanup c) \<longleftrightarrow> IsPruned c"
  by (simp add: IsPruned_avail Cleanup_def)

lemma IsPruned_empty [simp]: "IsPruned CCoins_empty"
  by (simp add: IsPruned_def CCoins_empty_def)

lemma overlay_Nil [simp]: "overlay [] f = f"
  by (simp add: overlay_def fun_eq_iff)

lemma overlay_Cons: "overlay ((txid, e) # m) f = (overlay m f)(txid := live (Some (coins e)))"
  by (simp add: overlay_def fun_eq_iff)

lemma overlay_update: "overlay (AList.update txid e m) f = (overlay m f)(txid := live (Some (coins e)))"
  by (simp add: overlay_def fun_eq_iff update_conv')

lemma overlay_delete: "overlay (AList.delete txid m) f = (overlay m f)(txid := f txid)"
  by (simp add: overlay_def fun_eq_iff delete_conv')

lemma overlay_Some: "map_of m txid = Some e \<Longrightarrow> overlay m f txid = live (Some (coins e))"
  by (simp add: overlay_def)

lemma overlay_None: "map_of m txid = None \<Longrightarrow> overlay m f txid = f txid"
  by (simp add: overlay_def)

lemma overlay_fun_upd: "map_of m txid = None \<Longrightarrow> overlay m (f(txid := x)) = (overlay m f)(txid := x)"
  by (auto simp: overlay_def fun_eq_iff split: option.splits)

lemma map_ok_Cons:
  "map_of m txid = None \<Longrightarrow> map_ok f h m \<Longrightarrow> entry_ok f h txid e \<Longrightarrow> map_ok f h ((txid, e) # m)"
  by (auto simp: map_ok_def map_of_eq_None_iff)

lemma map_ok_update: "map_ok f h m \<Longrightarrow> entry_ok f h txid e \<Longrightarrow> map_ok f h (AList.update txid e m)"
  by (auto simp: map_ok_def update_conv' distinct_update split: if_splits)

lemma map_ok_delete: "map_ok f h m \<Longrightarrow> map_ok f h (AList.delete txid m)"
  by (auto simp: map_ok_def delete_conv' distinct_delete split: if_splits)

lemma map_ok_held: "map_ok f h m \<Longrightarrow> h \<le> h' \<Longrightarrow> map_ok f h' m"
  by (auto simp: map_ok_def entry_ok_def le_fun_def)

lemma map_ok_entry: "map_ok f h m \<Longrightarrow> map_of m txid = Some e \<Longrightarrow> entry_ok f h txid e"
  by (simp add: map_ok_def)

section \<open>Writing a batch\<close>

lemma batch_entry_ok:
  assumes "map_ok f h cache" "entry_ok (overlay cache f) (\<lambda>t. map_of cache t \<noteq> None) txid e"
  shows "\<exists>cache'. batch_entry (txid, e) cache = Some cache' \<and> map_ok f h cache' \<and>
    overlay cache' f = (overlay cache f)(txid := live (Some (coins e))) \<and>
    (\<forall>t. t \<noteq> txid \<longrightarrow> map_of cache' t = map_of cache t)"
proof (cases "DIRTY e")
  case False
  then show ?thesis using assms by (auto simp: batch_entry_def entry_ok_def fun_eq_iff)
next
  case dirty: True
  show ?thesis
  proof (cases "map_of cache txid")
    case None
    then have "FRESH e" "f txid = None" using assms(2) by (auto simp: entry_ok_def overlay_None)
    then show ?thesis
      using dirty None assms(1) map_ok_Cons [OF None assms(1)]
      by (auto simp: batch_entry_def overlay_Cons entry_ok_def fun_eq_iff overlay_None)
  next
    case (Some us)
    have us: "entry_ok f h txid us" using map_ok_entry [OF assms(1) Some] .
    show ?thesis
      using dirty Some us assms(1) map_ok_update [OF assms(1)] map_ok_delete [OF assms(1)]
      by (auto simp: batch_entry_def overlay_update overlay_delete entry_ok_def fun_eq_iff update_conv' delete_conv')
  qed
qed

lemma batch_loop_ok:
  assumes "map_ok f h cache" "map_ok (overlay cache f) (\<lambda>t. map_of cache t \<noteq> None) m"
  shows "\<exists>cache'. batch_loop m cache = Some cache' \<and> map_ok f h cache' \<and>
    overlay cache' f = overlay m (overlay cache f)"
  using assms
proof (induction m arbitrary: cache)
  case (Cons it m)
  obtain txid e where it: "it = (txid, e)" by (cases it)
  have m: "map_ok (overlay cache f) (\<lambda>t. map_of cache t \<noteq> None) m" "map_of m txid = None"
    and e: "entry_ok (overlay cache f) (\<lambda>t. map_of cache t \<noteq> None) txid e"
    using Cons.prems(2) by (auto simp: it map_ok_def map_of_eq_None_iff split: if_splits)
  obtain cache1 where c1: "batch_entry (txid, e) cache = Some cache1" "map_ok f h cache1"
    "overlay cache1 f = (overlay cache f)(txid := live (Some (coins e)))"
    "\<And>t. t \<noteq> txid \<Longrightarrow> map_of cache1 t = map_of cache t"
    using batch_entry_ok [OF Cons.prems(1) e] by blast
  have "map_ok (overlay cache1 f) (\<lambda>t. map_of cache1 t \<noteq> None) m"
    using m c1(4) by (auto simp: map_ok_def entry_ok_def c1(3))
  then obtain cache' where "batch_loop m cache1 = Some cache'" "map_ok f h cache'"
    "overlay cache' f = overlay m (overlay cache1 f)" using Cons.IH [OF c1(2)] by blast
  moreover have "overlay (it # m) (overlay cache f) = overlay m (overlay cache1 f)"
    unfolding it overlay_Cons c1(3) using overlay_fun_upd [OF m(2)] by simp
  ultimately show ?case using c1(1) by (auto simp: it)
qed simp

section \<open>Reading through a cache\<close>

context coins_reader
begin

abbreviation cok where "cok \<equiv> cache_inv ok content held"
abbreviation ccontent where "ccontent \<equiv> cache_content content"

lemma fetch:
  assumes "cok c" "FetchCoins B c txid = (r, c')"
  shows "cok c' \<and> ccontent c' = ccontent c \<and> cache_best best c' = cache_best best c \<and> cache_held c \<le> cache_held c' \<and>
    live (map_option coins r) = ccontent c txid \<and> (r \<noteq> None \<longrightarrow> map_of (cacheCoins c') txid = r)"
proof (cases "map_of (cacheCoins c) txid")
  case (Some e)
  then have "r = Some e" "c' = c" using assms(2) by (simp_all add: FetchCoins_def)
  then show ?thesis using assms(1) Some by (simp add: cache_content_def overlay_Some)
next
  case None
  obtain g b where g: "vGetCoins B (base c) txid = (g, b)" by fastforce
  note b = get [OF _ g]
  have c: "ok (base c)" "map_ok (content (base c)) (held (base c)) (cacheCoins c)" "\<not> hasModifier c"
    using assms(1) by (simp_all add: cache_inv_def)
  have m: "map_ok (content b) (held b) (cacheCoins c)" using map_ok_held [OF c(2)] b [OF c(1)] by simp
  show ?thesis
  proof (cases g)
    case gn: None
    then show ?thesis using assms(2) None g b [OF c(1)] c m
      by (auto simp: FetchCoins_def cache_inv_def cache_content_def cache_best_def cache_held_def overlay_None)
  next
    case gs: (Some tmp)
    let ?e = "\<lparr>coins = tmp, DIRTY = False, FRESH = IsPruned tmp\<rparr>"
    have "entry_ok (content b) (held b) txid ?e" using b [OF c(1)] gs by (auto simp: entry_ok_def)
    note m' = map_ok_Cons [OF None m this]
    have rc: "r = Some ?e" "c' = c\<lparr>base := b, cacheCoins := (txid, ?e) # cacheCoins c\<rparr>"
      using assms(2) None g gs by (simp_all add: FetchCoins_def Let_def)
    have o: "live (Some tmp) = content (base c) txid" using b [OF c(1)] gs by simp
    have cb: "content b = content (base c)" using b [OF c(1)] by simp
    have "overlay ((txid, ?e) # cacheCoins c) (content b) = overlay (cacheCoins c) (content (base c))"
      using o None by (auto simp: overlay_Cons cb fun_eq_iff overlay_None)
    then show ?thesis using m' b [OF c(1)] c(3) o None unfolding rc
      by (auto simp: cache_inv_def cache_content_def cache_best_def cache_held_def overlay_None)
  qed
qed

lemma cache_get:
  assumes "cok c" "GetCoins B c txid = (r, c')"
  shows "cok c' \<and> ccontent c' = ccontent c \<and> cache_best best c' = cache_best best c \<and> cache_held c \<le> cache_held c' \<and>
    live r = ccontent c txid \<and> (live r \<noteq> None \<longrightarrow> cache_held c' txid)"
proof -
  obtain e where f: "FetchCoins B c txid = (e, c')" and r: "r = map_option coins e"
    using assms(2) by (auto simp: GetCoins_def split: prod.splits)
  have "live r \<noteq> None \<Longrightarrow> e \<noteq> None" by (cases e) (simp_all add: r)
  then show ?thesis using fetch [OF assms(1) f] by (auto simp: r cache_held_def)
qed

lemma cache_get_best:
  assumes "cok c" "GetBestBlock B c = (h, c')"
  shows "cok c' \<and> ccontent c' = ccontent c \<and> cache_best best c' = cache_best best c \<and> cache_held c \<le> cache_held c' \<and>
    h = cache_best best c"
proof (cases "hashBlock c = 0")
  case True
  obtain h' b where g: "vGetBestBlock B (base c) = (h', b)" by fastforce
  have c: "ok (base c)" "map_ok (content (base c)) (held (base c)) (cacheCoins c)"
    using assms(1) by (simp_all add: cache_inv_def)
  have c': "c' = c\<lparr>base := b, hashBlock := h'\<rparr>" "h = h'"
    using assms(2) True g by (auto simp: GetBestBlock_def)
  have "\<not> hasModifier c" "held (base c) \<le> held b" "content b = content (base c)" "ok b" "h' = best (base c)"
    "best b = best (base c)" using assms(1) get_best [OF c(1) g] by (simp_all add: cache_inv_def)
  then show ?thesis using True map_ok_held [OF c(2)] unfolding c'
    by (simp add: cache_inv_def cache_content_def cache_best_def cache_held_def [abs_def])
next
  case False
  then show ?thesis using assms by (auto simp: GetBestBlock_def cache_best_def)
qed

lemma make_cache_ok: "ok v \<Longrightarrow> cok (make_cache v) \<and> ccontent (make_cache v) = content v"
  by (simp add: make_cache_def cache_inv_def cache_content_def map_ok_def)

section \<open>Modifiers\<close>

lemma modify:
  assumes "cok c" "ModifyCoins B c txid = Some c'"
  shows "\<exists>e. hasModifier c' \<and> ok (base c') \<and> content (base c') = content (base c) \<and> best (base c') = best (base c) \<and>
    hashBlock c' = hashBlock c \<and> map_ok (content (base c')) (held (base c')) (cacheCoins c') \<and>
    map_of (cacheCoins c') txid = Some e \<and> DIRTY e \<and> live (Some (coins e)) = ccontent c txid \<and>
    overlay (cacheCoins c') (content (base c')) = ccontent c"
proof -
  have c: "ok (base c)" "map_ok (content (base c)) (held (base c)) (cacheCoins c)" "\<not> hasModifier c"
    using assms(1) by (simp_all add: cache_inv_def)
  show ?thesis
  proof (cases "map_of (cacheCoins c) txid")
    case (Some e)
    let ?e = "e\<lparr>DIRTY := True\<rparr>"
    have e: "entry_ok (content (base c)) (held (base c)) txid ?e"
      using map_ok_entry [OF c(2) Some] by (simp add: entry_ok_def)
    have c': "c' = c\<lparr>cacheCoins := AList.update txid ?e (cacheCoins c), hasModifier := True\<rparr>"
      using assms(2) c(3) Some by (simp add: ModifyCoins_def)
    show ?thesis using c(1) map_ok_update [OF c(2) e] Some unfolding c'
      by (intro exI [of _ ?e]) (auto simp: cache_content_def overlay_update overlay_Some update_conv' fun_eq_iff)
  next
    case None
    obtain g b where g: "vGetCoins B (base c) txid = (g, b)" by fastforce
    note b = get [OF c(1) g]
    let ?e = "\<lparr>coins = (case g of None \<Rightarrow> CCoins_empty | Some tmp \<Rightarrow> tmp), DIRTY = True,
        FRESH = (case g of None \<Rightarrow> True | Some tmp \<Rightarrow> IsPruned tmp)\<rparr>"
    have l: "live (Some (coins ?e)) = content (base c) txid" using b by (cases g) auto
    have e: "entry_ok (content b) (held b) txid ?e" using b l by (cases g) (auto simp: entry_ok_def)
    have m: "map_ok (content b) (held b) (cacheCoins c)" using map_ok_held [OF c(2)] b by simp
    have c': "c' = c\<lparr>base := b, cacheCoins := (txid, ?e) # cacheCoins c, hasModifier := True\<rparr>"
      using assms(2) c(3) None g by (cases g) (simp_all add: ModifyCoins_def)
    have cb: "content b = content (base c)" using b by simp
    have "overlay ((txid, ?e) # cacheCoins c) (content b) = overlay (cacheCoins c) (content (base c))"
      using l None by (auto simp: overlay_Cons cb overlay_None fun_eq_iff)
    then show ?thesis using b l map_ok_Cons [OF None m e] None unfolding c'
      by (intro exI [of _ ?e]) (simp add: cache_content_def overlay_None)
  qed
qed

text \<open>
  A complete use of a modifier replaces the record of one transaction and nothing else. The
  record the client sees is the one shown, or some pruned record if none is shown.
\<close>

lemma with_coins_entry:
  assumes "cok c"
  shows "\<exists>c' c1 e. ModifyCoins B c txid = Some c1 \<and> map_of (cacheCoins c1) txid = Some e \<and>
    with_coins B f c txid = Some c' \<and> cok c' \<and> cache_best best c' = cache_best best c \<and>
    content (base c') = content (base c) \<and>
    live (Some (coins e)) = ccontent c txid \<and> ccontent c' = (ccontent c)(txid := live (Some (Cleanup (f (coins e)))))"
proof -
  have "\<not> hasModifier c" using assms by (simp add: cache_inv_def)
  then have "ModifyCoins B c txid \<noteq> None" by (auto simp: ModifyCoins_def split: option.splits prod.splits)
  then obtain c1 where m: "ModifyCoins B c txid = Some c1" by blast
  obtain e where c1: "hasModifier c1" "ok (base c1)" "best (base c1) = best (base c)" "hashBlock c1 = hashBlock c"
    "content (base c1) = content (base c)"
    and mok: "map_ok (content (base c1)) (held (base c1)) (cacheCoins c1)"
    and e: "map_of (cacheCoins c1) txid = Some e" "DIRTY e" "live (Some (coins e)) = ccontent c txid"
    and o: "overlay (cacheCoins c1) (content (base c1)) = ccontent c"
    using modify [OF assms m] by blast
  let ?e1 = "e\<lparr>coins := f (coins e)\<rparr>" and ?e2 = "e\<lparr>coins := Cleanup (f (coins e))\<rparr>"
  have en: "entry_ok (content (base c1)) (held (base c1)) txid ?e1"
    "entry_ok (content (base c1)) (held (base c1)) txid ?e2"
    using map_ok_entry [OF mok e(1)] e(2) by (simp_all add: entry_ok_def)
  let ?m1 = "AList.update txid ?e1 (cacheCoins c1)"
  let ?m2 = "if FRESH e \<and> IsPruned (f (coins e)) then AList.delete txid ?m1 else AList.update txid ?e2 ?m1"
  have w: "with_coins B f c txid = Some (c1\<lparr>cacheCoins := ?m2, hasModifier := False\<rparr>)"
    using c1(1) e(1) by (simp add: with_coins_def m modify_entry_def CCoinsModifier_destroy_def update_conv' Let_def)
  have "map_ok (content (base c1)) (held (base c1)) ?m2"
    using map_ok_delete [OF map_ok_update [OF mok en(1)]] map_ok_update [OF map_ok_update [OF mok en(1)] en(2)] by simp
  moreover have "overlay ?m2 (content (base c1)) = (ccontent c)(txid := live (Some (Cleanup (f (coins e)))))"
    using en(2) by (auto simp: overlay_update overlay_delete o fun_eq_iff entry_ok_def)
  ultimately show ?thesis
    using w c1 e m
    by (intro exI [of _ "c1\<lparr>cacheCoins := ?m2, hasModifier := False\<rparr>"] exI [of _ c1] exI [of _ e])
      (simp add: cache_inv_def cache_content_def cache_best_def)
qed

lemma with_coins_spec:
  assumes "cok c"
  shows "\<exists>c' x. with_coins B f c txid = Some c' \<and> cok c' \<and> cache_best best c' = cache_best best c \<and>
    content (base c') = content (base c) \<and>
    live (Some x) = ccontent c txid \<and> ccontent c' = (ccontent c)(txid := live (Some (Cleanup (f x))))"
  using with_coins_entry [OF assms, of txid f] by blast

section \<open>Transactions against a view\<close>

lemma access:
  assumes "cok c" "AccessCoins B c (outpoint_hash p) = (r, c')"
  shows "cok c' \<and> ccontent c' = ccontent c \<and> content_out (ccontent c) p =
    (case r of None \<Rightarrow> None
     | Some co \<Rightarrow> if IsAvailable co (outpoint_n p) then Some (coins_vout co ! unat (outpoint_n p)) else None)"
proof -
  have "GetCoins B c (outpoint_hash p) = (r, c')" using assms(2) by (simp add: AccessCoins_def GetCoins_def)
  note g = cache_get [OF assms(1) this]
  have "\<not> IsAvailable co (outpoint_n p)" if "IsPruned co" for co using that by (simp add: IsPruned_avail IsAvailable_avail)
  then show ?thesis using g by (auto simp: content_out_def live_def split: option.splits if_splits)
qed

lemma output_for:
  assumes "cok c" "GetOutputFor B c i = (r, c')"
  shows "cok c' \<and> ccontent c' = ccontent c \<and> r = content_out (ccontent c) (prevout i)"
proof -
  obtain r0 c0 where a: "AccessCoins B c (outpoint_hash (prevout i)) = (r0, c0)" by fastforce
  show ?thesis using assms(2) a access [OF assms(1) a]
    by (auto simp: GetOutputFor_def split: option.splits if_splits)
qed

lemma have_inputs:
  assumes "cok c" "have_inputs_loop B c is = (r, c')"
  shows "cok c' \<and> ccontent c' = ccontent c \<and> r = list_all (\<lambda>i. content_out (ccontent c) (prevout i) \<noteq> None) is"
  using assms
proof (induction "is" arbitrary: c)
  case (Cons i "is")
  obtain r0 c0 where a: "AccessCoins B c (outpoint_hash (prevout i)) = (r0, c0)" by fastforce
  note acc = access [OF Cons.prems(1) a]
  show ?case
    using Cons.prems(2) Cons.IH [of c0] a acc by (auto split: option.splits if_splits)
qed simp

lemma value_in:
  assumes "cok c" "value_in_loop B c is acc = (r, c')"
    and "list_all (\<lambda>i. \<exists>t. content_out (ccontent c) (prevout i) = Some t \<and> 0 \<le> nValue t) is"
    and "0 \<le> acc" "acc + sum_list (map (\<lambda>i. nValue (the (content_out (ccontent c) (prevout i)))) is) < 2 ^ 63"
  shows "cok c' \<and> ccontent c' = ccontent c \<and>
    r = Some (acc + sum_list (map (\<lambda>i. nValue (the (content_out (ccontent c) (prevout i)))) is))"
  using assms
proof (induction "is" arbitrary: c acc)
  case (Cons i "is")
  obtain r0 c0 where o: "GetOutputFor B c i = (r0, c0)" by fastforce
  note g = output_for [OF Cons.prems(1) o]
  obtain t where t: "content_out (ccontent c) (prevout i) = Some t" "0 \<le> nValue t" using Cons.prems(3) by auto
  have "0 \<le> sum_list (map (\<lambda>i. nValue (the (content_out (ccontent c) (prevout i)))) is)"
    using Cons.prems(3) by (intro sum_list_nonneg) (fastforce simp: list_all_iff)
  then have "in_int64 (acc + nValue t)" using Cons.prems(4,5) t by (simp add: in_int64_def)
  then show ?case
    using Cons.IH [of c0 "acc + nValue t"] Cons.prems o g t by (simp add: add.assoc)
qed simp

end

section \<open>A cache over a view is a view\<close>

context coins_view
begin

lemma cache_batch:
  assumes "cok c" "map_ok (ccontent c) (cache_held c) m"
  shows "\<exists>c'. BatchWrite c m h = Some (True, c') \<and> cok c' \<and> ccontent c' = overlay m (ccontent c) \<and>
    (h \<noteq> 0 \<longrightarrow> cache_best best c' = h)"
proof -
  have c: "map_ok (content (base c)) (held (base c)) (cacheCoins c)" using assms(1) by (simp add: cache_inv_def)
  have "map_ok (overlay (cacheCoins c) (content (base c))) (\<lambda>t. map_of (cacheCoins c) t \<noteq> None) m"
    using assms(2) unfolding cache_content_def cache_held_def [abs_def] .
  then obtain m' where m': "batch_loop m (cacheCoins c) = Some m'"
    "map_ok (content (base c)) (held (base c)) m'"
    "overlay m' (content (base c)) = overlay m (overlay (cacheCoins c) (content (base c)))"
    using batch_loop_ok [OF c] by blast
  then show ?thesis
    using assms(1)
    by (intro exI [of _ "c\<lparr>cacheCoins := m', hashBlock := h\<rparr>"])
      (simp add: BatchWrite_def cache_inv_def cache_content_def cache_best_def)
qed

lemma cache_view: "coins_view (cache_ops B) cok ccontent cache_held (cache_best best)"
proof (unfold_locales, unfold cache_ops_def CCoinsView.simps)
qed (use cache_get cache_get_best cache_batch in blast)+

text \<open>Flushing moves what the cache shows to the base, and never fails an assertion below.\<close>

lemma flush:
  assumes "cok c"
  shows "\<exists>c'. Flush B c = Some (True, c') \<and> cok c' \<and> ccontent c' = ccontent c \<and>
    content (base c') = ccontent c \<and> cacheCoins c' = [] \<and> (hashBlock c \<noteq> 0 \<longrightarrow> best (base c') = hashBlock c)"
proof -
  have c: "ok (base c)" "map_ok (content (base c)) (held (base c)) (cacheCoins c)" "\<not> hasModifier c"
    using assms by (simp_all add: cache_inv_def)
  from batch [OF c(1,2), of "hashBlock c"] show ?thesis
    using c(3) by (auto simp: Flush_def cache_inv_def cache_content_def map_ok_def)
qed

end

section \<open>The views of the node\<close>

definition db_ok :: "CCoinsViewDB \<Rightarrow> bool" where
  "db_ok db \<longleftrightarrow> (\<forall>txid co. db_coins db txid = Some co \<longrightarrow> \<not> IsPruned co)"

definition db_hash :: "CCoinsViewDB \<Rightarrow> uint256" where
  "db_hash db = (case db_best db of None \<Rightarrow> 0 | Some h \<Rightarrow> h)"

lemma DB_batch_loop_overlay:
  assumes "\<forall>txid co. m txid = Some co \<longrightarrow> \<not> IsPruned co" "map_ok m h mapCoins"
  shows "DB_batch_loop mapCoins m = overlay mapCoins m \<and>
    (\<forall>txid co. DB_batch_loop mapCoins m txid = Some co \<longrightarrow> \<not> IsPruned co)"
  using assms
proof (induction mapCoins m rule: DB_batch_loop.induct)
  case (2 txid e mapCoins m)
  let ?m = "if DIRTY e then BatchWriteCoins txid (coins e) m else m"
  have ok: "map_ok m h mapCoins" "map_of mapCoins txid = None" "entry_ok m h txid e"
    using "2.prems"(2) by (auto simp: map_ok_def map_of_eq_None_iff split: if_splits)
  have m: "?m = m(txid := live (Some (coins e)))"
    using ok(3) by (auto simp: BatchWriteCoins_def entry_ok_def fun_eq_iff)
  have "map_ok ?m h mapCoins"
    unfolding m using ok(1,2) by (auto simp: map_ok_def entry_ok_def)
  moreover have "\<forall>txid co. ?m txid = Some co \<longrightarrow> \<not> IsPruned co"
    using "2.prems"(1) by (auto simp: m live_def split: if_splits)
  ultimately have "DB_batch_loop mapCoins ?m = overlay mapCoins ?m \<and>
      (\<forall>txid co. DB_batch_loop mapCoins ?m txid = Some co \<longrightarrow> \<not> IsPruned co)" using "2.IH" by blast
  moreover have "overlay mapCoins ?m = overlay ((txid, e) # mapCoins) m"
    unfolding m overlay_Cons by (rule overlay_fun_upd [OF ok(2)])
  ultimately show ?case unfolding DB_batch_loop.simps by metis
qed simp

interpretation db: coins_view db_ops db_ok db_coins "\<lambda>_ _. True" db_hash
proof
  show "db_ok v' \<and> db_coins v' = db_coins v \<and> db_hash v' = db_hash v \<and> (\<lambda>_. True) \<le> (\<lambda>_. True) \<and>
      live r = db_coins v txid \<and> (live r \<noteq> None \<longrightarrow> True)"
    if "db_ok v" "vGetCoins db_ops v txid = (r, v')" for v txid r v'
    using that by (auto simp: db_ops_def DB_GetCoins_def db_ok_def live_def split: option.splits)
  show "db_ok v' \<and> db_coins v' = db_coins v \<and> db_hash v' = db_hash v \<and> (\<lambda>_. True) \<le> (\<lambda>_. True) \<and> h = db_hash v"
    if "db_ok v" "vGetBestBlock db_ops v = (h, v')" for v h v'
    using that by (auto simp: db_ops_def DB_GetBestBlock_def db_hash_def)
  show "\<exists>v'. vBatchWrite db_ops v m h = Some (True, v') \<and> db_ok v' \<and> db_coins v' = overlay m (db_coins v) \<and>
      (h \<noteq> 0 \<longrightarrow> db_hash v' = h)"
    if "db_ok v" "map_ok (db_coins v) (\<lambda>_. True) m" for v m h
    using DB_batch_loop_overlay [OF that(1) [unfolded db_ok_def] that(2)]
    by (auto simp: db_ops_def DB_BatchWrite_def db_ok_def db_hash_def)
qed

type_synonym tip_cache = "CCoinsViewDB CCoinsViewCache"
type_synonym block_view = "tip_cache CCoinsViewCache"

definition tip_ok :: "tip_cache \<Rightarrow> bool" where
  "tip_ok = cache_inv db_ok db_coins (\<lambda>_ _. True)"

definition tip_content :: "tip_cache \<Rightarrow> uint256 \<Rightarrow> CCoins option" where
  "tip_content = cache_content db_coins"

definition view_ok :: "block_view \<Rightarrow> bool" where
  "view_ok = cache_inv tip_ok tip_content cache_held"

definition view_content :: "block_view \<Rightarrow> uint256 \<Rightarrow> CCoins option" where
  "view_content = cache_content tip_content"

abbreviation (input) tip_ops :: "tip_cache CCoinsView" where
  "tip_ops \<equiv> cache_ops db_ops"

interpretation tip: coins_view tip_ops tip_ok tip_content cache_held "cache_best db_hash"
  unfolding tip_ok_def tip_content_def by (rule db.cache_view)

interpretation view: coins_view "cache_ops tip_ops" view_ok view_content cache_held "cache_best (cache_best db_hash)"
  unfolding view_ok_def view_content_def by (rule tip.cache_view)

lemmas tip_defs = tip_ok_def [symmetric] tip_content_def [symmetric]
lemmas view_defs = view_ok_def [symmetric] view_content_def [symmetric]

text \<open>The states the views go through: any sequence of operations, with block views opened on the tip.\<close>

inductive tip_reach :: "tip_cache \<Rightarrow> bool" and view_reach :: "block_view \<Rightarrow> bool" where
  start: "db_ok db \<Longrightarrow> tip_reach (make_cache db)"
| tip_get: "tip_reach t \<Longrightarrow> GetCoins db_ops t txid = (r, t') \<Longrightarrow> tip_reach t'"
| tip_get_best: "tip_reach t \<Longrightarrow> GetBestBlock db_ops t = (h, t') \<Longrightarrow> tip_reach t'"
| tip_modify: "tip_reach t \<Longrightarrow> with_coins db_ops f t txid = Some t' \<Longrightarrow> tip_reach t'"
| tip_set_best: "tip_reach t \<Longrightarrow> tip_reach (SetBestBlock t h)"
| tip_flush: "tip_reach t \<Longrightarrow> Flush db_ops t = Some (fOk, t') \<Longrightarrow> tip_reach t'"
| view_open: "tip_reach t \<Longrightarrow> view_reach (make_cache t)"
| view_get: "view_reach v \<Longrightarrow> GetCoins tip_ops v txid = (r, v') \<Longrightarrow> view_reach v'"
| view_get_best: "view_reach v \<Longrightarrow> GetBestBlock tip_ops v = (h, v') \<Longrightarrow> view_reach v'"
| view_modify: "view_reach v \<Longrightarrow> with_coins tip_ops f v txid = Some v' \<Longrightarrow> view_reach v'"
| view_set_best: "view_reach v \<Longrightarrow> view_reach (SetBestBlock v h)"
| view_flush: "view_reach v \<Longrightarrow> Flush tip_ops v = Some (fOk, v') \<Longrightarrow> view_reach v'"
| view_close: "view_reach v \<Longrightarrow> tip_reach (base v)"

lemma cache_inv_SetBestBlock: "cache_inv i f k (SetBestBlock c h) \<longleftrightarrow> cache_inv i f k c"
  by (cases c) (simp add: cache_inv_def SetBestBlock_def)

lemma set_best_ok: "tip_ok t \<Longrightarrow> tip_ok (SetBestBlock t h)" "view_ok v \<Longrightarrow> view_ok (SetBestBlock v h)"
  by (simp_all add: tip_ok_def view_ok_def cache_inv_SetBestBlock)

lemma reach_ok: "(tip_reach t \<longrightarrow> tip_ok t) \<and> (view_reach v \<longrightarrow> view_ok v)"
proof (induction rule: tip_reach_view_reach.induct)
  case (start db)
  then show ?case using db.make_cache_ok [OF start] by (simp add: tip_defs)
next
  case (tip_get t txid r t')
  then show ?case using db.cache_get [of t txid r t'] by (simp add: tip_defs)
next
  case (tip_get_best t h t')
  then show ?case using db.cache_get_best [of t h t'] by (simp add: tip_defs)
next
  case (tip_modify t f txid t')
  then show ?case using db.with_coins_spec [of t f txid] by (auto simp: tip_defs)
next
  case (tip_flush t fOk t')
  then show ?case using db.flush [of t] by (auto simp: tip_defs)
next
  case (view_open t)
  then show ?case using tip.make_cache_ok [of t] by (simp add: view_defs)
next
  case (view_get v txid r v')
  then show ?case using tip.cache_get [of v txid r v'] by (simp add: view_defs)
next
  case (view_get_best v h v')
  then show ?case using tip.cache_get_best [of v h v'] by (simp add: view_defs)
next
  case (view_modify v f txid v')
  then show ?case using tip.with_coins_spec [of v f txid] by (auto simp: view_defs)
next
  case (view_flush v fOk v')
  then show ?case using tip.flush [of v] by (auto simp: view_defs)
next
  case (view_close v)
  then show ?case by (simp add: view_ok_def cache_inv_def)
qed (simp_all add: set_best_ok)

lemma view_reach_ok: "view_reach v \<Longrightarrow> view_ok v"
  using reach_ok by blast

section \<open>Properties\<close>

text \<open>A database with the coins of one transaction, a tip over it and a block view that spent its first output.\<close>

definition demo_db :: CCoinsViewDB where
  "demo_db = \<lparr>db_coins = [7 \<mapsto> FromTx demo_tx 5], db_best = Some 99\<rparr>"

definition demo_view :: block_view where
  "demo_view = the (with_coins tip_ops (\<lambda>co. fst (the (Spend co \<lparr>outpoint_hash = 7, outpoint_n = 0\<rparr>)))
     (make_cache (make_cache demo_db)) 7)"

lemma demo_live: "\<not> IsPruned (FromTx demo_tx 5)"
  by code_simp

lemma demo_reach: "view_reach demo_view"
proof -
  have "db_ok demo_db" using demo_live by (auto simp: db_ok_def demo_db_def split: if_splits)
  then have v: "view_reach (make_cache (make_cache demo_db))"
    by (intro tip_reach_view_reach.view_open tip_reach_view_reach.start)
  then have "view_ok (make_cache (make_cache demo_db))" by (rule view_reach_ok)
  then obtain v' where "with_coins tip_ops (\<lambda>co. fst (the (Spend co \<lparr>outpoint_hash = 7, outpoint_n = 0\<rparr>)))
      (make_cache (make_cache demo_db)) 7 = Some v'" using tip.with_coins_spec [of _ _ 7] by (metis view_ok_def)
  then show ?thesis using view_modify [OF v] unfolding demo_view_def by fastforce
qed

text \<open>C6: whatever sequence of reads, modifications, flushes and nested views led to a state, flushing
  a block view into the tip succeeds -- the assertion on the fresh flag in \<^verbatim>\<open>BatchWrite\<close> never
  fails -- and afterwards the tip shows exactly the coins the view showed, with its best block.\<close>

theorem Flush_refines:
  assumes "view_reach v"
  shows "\<exists>v'. Flush tip_ops v = Some (True, v') \<and> cacheCoins v' = [] \<and>
    tip_content (base v') = view_content v \<and> view_content v' = view_content v \<and>
    (if hashBlock v \<noteq> 0 then cache_best db_hash (base v') = hashBlock v else True)"
  using tip.flush [OF view_reach_ok [OF assms, unfolded view_ok_def]] by (auto simp: view_defs)

theorem Flush_refines_witness:
  "\<exists>v'. Flush tip_ops demo_view = Some (True, v') \<and> cacheCoins v' = [] \<and>
    tip_content (base v') = view_content demo_view \<and> view_content v' = view_content demo_view \<and>
    (if hashBlock demo_view \<noteq> 0 then cache_best db_hash (base v') = hashBlock demo_view else True)"
  by (rule Flush_refines [OF demo_reach])

text \<open>Changing the coins of a transaction through a modifier replaces that record in the view,
  leaves every other record and what the tip shows untouched, and cannot fail an assertion: a
  block view can be discarded without a trace.\<close>

theorem ModifyCoins_local:
  assumes "view_reach v"
  shows "\<exists>v' x. with_coins tip_ops f v txid = Some v' \<and> live (Some x) = view_content v txid \<and>
    view_content v' = (view_content v)(txid := live (Some (Cleanup (f x)))) \<and>
    tip_content (base v') = tip_content (base v)"
  using tip.with_coins_spec [OF view_reach_ok [OF assms, unfolded view_ok_def], of f txid]
  by (auto simp: view_defs)

theorem ModifyCoins_local_witness:
  "\<exists>v' x. with_coins tip_ops (\<lambda>_. CCoins_empty) demo_view 7 = Some v' \<and> live (Some x) = view_content demo_view 7 \<and>
    view_content v' = (view_content demo_view)(7 := live (Some (Cleanup CCoins_empty))) \<and>
    tip_content (base v') = tip_content (base demo_view)"
  by (rule ModifyCoins_local [OF demo_reach])

text \<open>\<^verbatim>\<open>HaveInputs\<close> answers exactly whether every input of a transaction that is not a
  coinbase refers to an output the view shows as unspent, and \<^verbatim>\<open>GetValueIn\<close> is then the sum of
  their values if that fits in 63 bits; filling the caches changes nothing that is shown.\<close>

theorem inputs_of_view:
  assumes "view_reach v" "\<not> IsCoinBase tx"
  shows "fst (HaveInputs tip_ops v tx) = list_all (\<lambda>i. content_out (view_content v) (prevout i) \<noteq> None) (vin tx) \<and>
    view_content (snd (HaveInputs tip_ops v tx)) = view_content v \<and>
    (if list_all (\<lambda>i. case content_out (view_content v) (prevout i) of None \<Rightarrow> False | Some t \<Rightarrow> 0 \<le> nValue t) (vin tx) \<and>
        sum_list (map (\<lambda>i. nValue (the (content_out (view_content v) (prevout i)))) (vin tx)) < 2 ^ 63
     then fst (GetValueIn tip_ops v tx) =
            Some (sum_list (map (\<lambda>i. nValue (the (content_out (view_content v) (prevout i)))) (vin tx)))
     else True)"
proof -
  have ok: "cache_inv tip_ok tip_content cache_held v" using view_reach_ok [OF assms(1)] by (simp add: view_ok_def)
  obtain r c' where h: "have_inputs_loop tip_ops v (vin tx) = (r, c')" by fastforce
  obtain r2 c2 where g: "value_in_loop tip_ops v (vin tx) 0 = (r2, c2)" by fastforce
  have l: "list_all (\<lambda>i. case content_out (view_content v) (prevout i) of None \<Rightarrow> False | Some t \<Rightarrow> 0 \<le> nValue t) xs \<longleftrightarrow>
      list_all (\<lambda>i. \<exists>t. content_out (view_content v) (prevout i) = Some t \<and> 0 \<le> nValue t) xs" for xs
    by (auto simp: list_all_iff split: option.splits)
  show ?thesis
    using tip.have_inputs [OF ok h] tip.value_in [OF ok g] assms(2) h g
    by (simp add: HaveInputs_def GetValueIn_def view_defs l)
qed

theorem inputs_of_view_witness:
  "fst (HaveInputs tip_ops demo_view demo_tx) =
      list_all (\<lambda>i. content_out (view_content demo_view) (prevout i) \<noteq> None) (vin demo_tx) \<and>
    view_content (snd (HaveInputs tip_ops demo_view demo_tx)) = view_content demo_view"
proof -
  have "\<not> IsCoinBase demo_tx" by (simp add: IsCoinBase_def demo_tx_def COutPoint_IsNull_def)
  then show ?thesis using inputs_of_view [OF demo_reach] by blast
qed

end
