(* ===== verification/Script_Verify.thy ===== *)
theory Script_Verify
  imports Interpreter_Limits "HOL-Library.Sublist"
begin

unbundle bit_operations_syntax

text \<open>
  The meaning of the spending checks: \<^verbatim>\<open>OP_CHECKMULTISIG\<close> finds the signatures among the
  keys in order, removing verification flags never makes a valid spend invalid,
  pay-to-script-hash and pay-to-public-key-hash scripts do what their names say.
\<close>

section \<open>Matching signatures with keys\<close>

definition sigs_match :: "(valtype \<Rightarrow> valtype \<Rightarrow> bool) \<Rightarrow> valtype list \<Rightarrow> valtype list \<Rightarrow> bool" where
  "sigs_match ok sigs keys \<longleftrightarrow> (\<exists>ks. subseq ks keys \<and> list_all2 ok sigs ks)"

lemma sigs_match_Nil [simp]: "sigs_match ok [] keys"
  by (simp add: sigs_match_def)

lemma sigs_match_no_keys [simp]: "\<not> sigs_match ok (s # sigs) []"
  by (auto simp: sigs_match_def dest: list_emb_Nil2)

lemma sigs_match_length: "sigs_match ok sigs keys \<Longrightarrow> length sigs \<le> length keys"
  using list_emb_length by (fastforce simp: sigs_match_def dest: list_all2_lengthD)

lemma sigs_match_tl: "sigs_match ok (s # sigs) keys \<Longrightarrow> sigs_match ok sigs keys"
  by (fastforce simp: sigs_match_def list_all2_Cons1 dest: subseq_Cons')

lemma sigs_match_Cons:
  "sigs_match ok (s # sigs) (k # keys) \<longleftrightarrow>
     (if ok s k then sigs_match ok sigs keys else sigs_match ok (s # sigs) keys)"
proof -
  have "sigs_match ok (s # sigs) (k # keys) \<longleftrightarrow>
      ok s k \<and> sigs_match ok sigs keys \<or> sigs_match ok (s # sigs) keys"
    unfolding sigs_match_def list_all2_Cons1
    by (auto simp: subseq_Cons2_iff split: if_splits)
  then show ?thesis using sigs_match_tl by auto
qed

lemma multisig_loop_iff:
  "multisig_loop ctx code sigs keys = Inr b \<Longrightarrow> b \<longleftrightarrow> sigs_match (\<lambda>s k. CheckSig ctx s k code) sigs keys"
proof (induction ctx code sigs keys rule: multisig_loop.induct)
  case (2 ctx code s sigs k keys)
  let ?sigs' = "if CheckSig ctx s k code then sigs else s # sigs"
  have e: "check_encodings ctx s k = None" using "2.prems" by (auto split: option.splits)
  show ?case
  proof (cases "length keys < length ?sigs'")
    case True
    then have "\<not> sigs_match (\<lambda>s k. CheckSig ctx s k code) ?sigs' keys" "b = False"
      using sigs_match_length [of _ ?sigs' keys] "2.prems" e by (auto simp: Let_def split: if_splits)
    then show ?thesis by (simp add: sigs_match_Cons split: if_splits)
  next
    case False
    then have "multisig_loop ctx code ?sigs' keys = Inr b" using "2.prems" e by (simp add: Let_def)
    then show ?thesis using "2.IH" [OF e refl refl] False by (simp add: sigs_match_Cons split: if_splits)
  qed
qed simp_all

text \<open>C2: when the matching loop of \<^verbatim>\<open>OP_CHECKMULTISIG\<close> ends without an encoding error, it
  succeeds exactly if the signatures verify, in order, against a subsequence of the public
  keys: the greedy single pass loses no solution.\<close>

theorem multisig_loop_correct:
  assumes "multisig_loop ctx code sigs keys = Inr b"
  shows "b \<longleftrightarrow> (\<exists>ks. subseq ks keys \<and> list_all2 (\<lambda>s k. CheckSig ctx s k code) sigs ks)"
  using multisig_loop_iff [OF assms] by (simp add: sigs_match_def)

theorem multisig_loop_correct_witness:
  "True \<longleftrightarrow> (\<exists>ks. subseq ks [[1], [2], [3]] \<and>
      list_all2 (\<lambda>s k. CheckSig demo_ctx s k []) [[1], [3]] ks)"
  by (rule multisig_loop_correct [where ctx = demo_ctx and code = "[]"]) code_simp

section \<open>Dropping verification flags\<close>

definition fewer_flags :: "script_flags \<Rightarrow> script_flags \<Rightarrow> bool" where
  "fewer_flags f' f \<longleftrightarrow> f' AND f = f'"

lemma fewer_flags_mono: "fewer_flags f' f \<Longrightarrow> f' AND m \<noteq> 0 \<Longrightarrow> f AND m \<noteq> 0"
  unfolding fewer_flags_def by (metis and.assoc and_zero_eq)

lemmas flag_mono = fewer_flags_mono [rotated]

lemma CScriptNum_flag_mono:
  "CScriptNum vch m = Inr n \<Longrightarrow> (m' \<Longrightarrow> m) \<Longrightarrow> CScriptNum vch m' = Inr n"
  by (auto simp: CScriptNum_def split: if_splits)

lemma read_num_mono: "read_num m vch = Inr n \<Longrightarrow> (m' \<Longrightarrow> m) \<Longrightarrow> read_num m' vch = Inr n"
  by (auto simp: read_num_eq_Inr intro: CScriptNum_flag_mono)

lemma CheckSignatureEncoding_mono:
  "CheckSignatureEncoding f sig = None \<Longrightarrow> fewer_flags f' f \<Longrightarrow> CheckSignatureEncoding f' sig = None"
  by (auto simp: CheckSignatureEncoding_def split: if_splits dest: fewer_flags_mono)

lemma CheckPubKeyEncoding_mono:
  "CheckPubKeyEncoding f key = None \<Longrightarrow> fewer_flags f' f \<Longrightarrow> CheckPubKeyEncoding f' key = None"
  by (auto simp: CheckPubKeyEncoding_def split: if_splits dest: fewer_flags_mono)

lemma check_encodings_mono:
  "check_encodings ctx sig key = None \<Longrightarrow> fewer_flags f' (flags ctx) \<Longrightarrow>
   check_encodings (ctx\<lparr>flags := f'\<rparr>) sig key = None"
  by (auto simp: check_encodings_def split: option.splits
      dest: CheckSignatureEncoding_mono CheckPubKeyEncoding_mono)

lemma multisig_loop_mono:
  "multisig_loop ctx code sigs keys = Inr b \<Longrightarrow> fewer_flags f' (flags ctx) \<Longrightarrow>
   multisig_loop (ctx\<lparr>flags := f'\<rparr>) code sigs keys = Inr b"
proof (induction ctx code sigs keys rule: multisig_loop.induct)
  case (2 ctx code s sigs k keys)
  have e: "check_encodings ctx s k = None" using "2.prems" by (auto split: option.splits)
  show ?case
    using "2.prems" "2.IH" [OF e refl refl] check_encodings_mono [OF e "2.prems"(2)] e
    by (auto simp: Let_def split: if_splits)
qed simp_all

lemma multisig_finish_mono:
  "multisig_finish ctx opcode b s st = Inr st' \<Longrightarrow> fewer_flags f' (flags ctx) \<Longrightarrow>
   multisig_finish (ctx\<lparr>flags := f'\<rparr>) opcode b s st = Inr st'"
  by (auto simp: multisig_finish_def split: list.splits if_splits dest: fewer_flags_mono)

lemma rthen_mono:
  "rthen r f = Inr y \<Longrightarrow> (\<And>x. r = Inr x \<Longrightarrow> r' = Inr x) \<Longrightarrow> (\<And>x. f x = Inr y \<Longrightarrow> f' x = Inr y) \<Longrightarrow>
   rthen r' f' = Inr y"
  by (auto simp: rthen_eq_Inr)

lemma if_mono_Inr:
  "((if c then a else b) = Inr x) \<Longrightarrow> (a = Inr x \<Longrightarrow> a' = Inr x) \<Longrightarrow> (b = Inr x \<Longrightarrow> b' = Inr x) \<Longrightarrow>
   (if c then a' else b') = Inr x"
  by auto

lemma list_case_mono_Inr:
  "case_list a f xs = Inr z \<Longrightarrow> (a = Inr z \<Longrightarrow> a' = Inr z) \<Longrightarrow>
   (\<And>y ys. f y ys = Inr z \<Longrightarrow> f' y ys = Inr z) \<Longrightarrow> case_list a' f' xs = Inr z"
  by (cases xs) simp_all

lemmas mono_Inr = rthen_mono if_mono_Inr list_case_mono_Inr

lemma op_checkmultisig_mono:
  assumes "op_checkmultisig ctx m opcode st = Inr st'" "fewer_flags f' (flags ctx)" "m' \<Longrightarrow> m"
  shows "op_checkmultisig (ctx\<lparr>flags := f'\<rparr>) m' opcode st = Inr st'"
  using assms(1) unfolding op_checkmultisig_def Let_def
  by - ((erule mono_Inr | assumption | erule read_num_mono [OF _ assms(3)]
    | erule multisig_loop_mono [OF _ assms(2)] | erule multisig_finish_mono [OF _ assms(2)])+)

lemma op_pick_roll_mono:
  assumes "op_pick_roll m opcode st = Inr st'" "m' \<Longrightarrow> m" shows "op_pick_roll m' opcode st = Inr st'"
  using assms(1) unfolding op_pick_roll_def
  by - ((erule mono_Inr | assumption | erule read_num_mono [OF _ assms(2)])+)

lemma op_unary_mono:
  assumes "op_unary m opcode st = Inr st'" "m' \<Longrightarrow> m" shows "op_unary m' opcode st = Inr st'"
  using assms(1) unfolding op_unary_def
  by - ((erule mono_Inr | assumption | erule read_num_mono [OF _ assms(2)])+)

lemma op_binary_mono:
  assumes "op_binary m opcode st = Inr st'" "m' \<Longrightarrow> m" shows "op_binary m' opcode st = Inr st'"
  using assms(1) unfolding op_binary_def
  by - ((erule mono_Inr | assumption | erule read_num_mono [OF _ assms(2)])+)

lemma op_within_mono:
  assumes "op_within m st = Inr st'" "m' \<Longrightarrow> m" shows "op_within m' st = Inr st'"
  using assms(1) unfolding op_within_def
  by - ((erule mono_Inr | assumption | erule read_num_mono [OF _ assms(2)])+)

lemma op_checksig_mono:
  "op_checksig ctx opcode st = Inr st' \<Longrightarrow> fewer_flags f' (flags ctx) \<Longrightarrow>
   op_checksig (ctx\<lparr>flags := f'\<rparr>) opcode st = Inr st'"
  by (auto simp: op_checksig_def Let_def check_encodings_mono
      split: list.splits option.splits if_splits)

lemma op_nopx_mono:
  "op_nopx ctx st = Inr st' \<Longrightarrow> fewer_flags f' (flags ctx) \<Longrightarrow> op_nopx (ctx\<lparr>flags := f'\<rparr>) st = Inr st'"
  by (auto simp: op_nopx_def split: if_splits dest: fewer_flags_mono)

lemma op_hash_flags [simp]: "op_hash (ctx\<lparr>flags := f'\<rparr>) opcode st = op_hash ctx opcode st"
  by (simp add: op_hash_def hash_op_def cong: list.case_cong)

lemma exec_opcode_mono:
  assumes "exec_opcode ctx fExec opcode pc st = Inr st'" "fewer_flags f' (flags ctx)"
  shows "exec_opcode (ctx\<lparr>flags := f'\<rparr>) fExec opcode pc st = Inr st'"
proof -
  have m: "flags (ctx\<lparr>flags := f'\<rparr>) AND SCRIPT_VERIFY_MINIMALDATA \<noteq> 0 \<Longrightarrow>
      flags ctx AND SCRIPT_VERIFY_MINIMALDATA \<noteq> 0"
    using fewer_flags_mono [OF assms(2)] by simp
  note mono = op_pick_roll_mono [OF _ m] op_unary_mono [OF _ m] op_binary_mono [OF _ m]
    op_within_mono [OF _ m] op_checkmultisig_mono [OF _ assms(2) m] op_checksig_mono [OF _ assms(2)]
    op_nopx_mono [OF _ assms(2)]
  show ?thesis
    using assms(1) unfolding exec_opcode_def Let_def op_hash_flags
    by - ((erule if_mono_Inr | assumption | erule mono)+)
qed

lemma dispatch_mono:
  assumes "dispatch ctx opcode vch pc st = Inr st'" "fewer_flags f' (flags ctx)"
  shows "dispatch (ctx\<lparr>flags := f'\<rparr>) opcode vch pc st = Inr st'"
  using assms by (auto simp: dispatch_def Let_def exec_opcode_mono split: if_splits dest: fewer_flags_mono)

lemma eval_step_mono:
  "eval_step ctx opcode vch pc st = Inr st' \<Longrightarrow> fewer_flags f' (flags ctx) \<Longrightarrow>
   eval_step (ctx\<lparr>flags := f'\<rparr>) opcode vch pc st = Inr st'"
  by (auto simp: eval_step_def rthen_eq_Inr dispatch_mono split: if_splits)

lemma eval_loop_mono:
  "eval_loop ctx pc st = Inr st' \<Longrightarrow> fewer_flags f' (flags ctx) \<Longrightarrow>
   eval_loop (ctx\<lparr>flags := f'\<rparr>) pc st = Inr st'"
proof (induction ctx pc st rule: eval_loop.induct)
  case (1 ctx pc st)
  show ?case
  proof (cases "pc = []")
    case False
    with "1.prems"(1) obtain opcode vch pc' st1 where
      g: "GetOp pc = Some (opcode, vch, pc')" and s1: "eval_step ctx opcode vch pc' st = Inr st1"
      and l: "eval_loop ctx pc' st1 = Inr st'"
      by (subst (asm) eval_loop.simps) (auto split: option.splits sum.splits)
    show ?thesis
      using "1.IH" [OF False g refl refl s1 l "1.prems"(2)] eval_step_mono [OF s1 "1.prems"(2)]
      by (simp add: eval_loop_GetOp [OF g])
  qed (use "1.prems" in simp)
qed

lemma EvalScript_mono:
  "EvalScript ctx stk s = Inr stk' \<Longrightarrow> fewer_flags f' (flags ctx) \<Longrightarrow>
   EvalScript (ctx\<lparr>flags := f'\<rparr>) stk s = Inr stk'"
  by (auto simp: EvalScript_eq_Inr intro: eval_loop_mono)

text \<open>C1: the verification flags only restrict. If a spend is valid under some flags, it is
  valid under every subset of them, so a block accepted by a node that enforces more rules is
  accepted by one that enforces fewer (each rule is a soft fork).\<close>

theorem VerifyScript_flag_mono:
  assumes "VerifyScript ctx scriptSig scriptPubKey = Inr ()" "f' AND flags ctx = f'"
  shows "VerifyScript (ctx\<lparr>flags := f'\<rparr>) scriptSig scriptPubKey = Inr ()"
proof -
  have f: "fewer_flags f' (flags ctx)" using assms(2) by (simp add: fewer_flags_def)
  from assms(1) obtain s1 s2 where
    e: "EvalScript ctx [] scriptSig = Inr s1" "EvalScript ctx s1 scriptPubKey = Inr s2" "top_true s2"
    by (auto simp: VerifyScript_def rthen_eq_Inr split: if_splits)
  show ?thesis
    using assms(1) e fewer_flags_mono [OF f] EvalScript_mono [OF _ f]
    by (auto simp: VerifyScript_def rthen_eq_Inr split: if_splits list.splits)
qed

theorem VerifyScript_flag_mono_witness:
  "VerifyScript (demo_ctx\<lparr>flags := SCRIPT_VERIFY_P2SH\<rparr>) [OP_1] [OP_1] = Inr ()"
proof -
  have "VerifyScript ((demo_ctx\<lparr>flags := SCRIPT_VERIFY_P2SH OR SCRIPT_VERIFY_SIGPUSHONLY\<rparr>)
      \<lparr>flags := SCRIPT_VERIFY_P2SH\<rparr>) [OP_1] [OP_1] = Inr ()"
    by (rule VerifyScript_flag_mono) code_simp+
  then show ?thesis by simp
qed

section \<open>Pay to script hash\<close>

lemma IsPayToScriptHash_iff:
  "IsPayToScriptHash s \<longleftrightarrow> (\<exists>h. length h = 20 \<and> s = OP_HASH160 # 0x14 # h @ [OP_EQUAL])"
proof
  assume a: "IsPayToScriptHash s"
  then have l: "length s = 23" and n: "s ! 0 = OP_HASH160" "s ! 1 = 0x14" "s ! 22 = OP_EQUAL"
    by (simp_all add: IsPayToScriptHash_def)
  have "s = [s ! 0, s ! 1] @ take 20 (drop 2 s) @ [s ! 22]"
  proof (rule nth_equalityI)
    fix i assume i: "i < length s"
    consider "i = 0" | "i = 1" | "i = 22" | "2 \<le> i" "i < 22" using i l by linarith
    then show "s ! i = ([s ! 0, s ! 1] @ take 20 (drop 2 s) @ [s ! 22]) ! i"
      using l by cases (auto simp: nth_append dest!: le_Suc_ex)
  qed (use l in simp)
  then show "\<exists>h. length h = 20 \<and> s = OP_HASH160 # 0x14 # h @ [OP_EQUAL]"
    using l unfolding n by (intro exI [of _ "take 20 (drop 2 s)"]) simp
qed (auto simp: IsPayToScriptHash_def nth_append)

lemma GetOp_push20: "length h = 20 \<Longrightarrow> GetOp (0x14 # h @ rest) = Some (0x14, h, rest)"
  by (simp add: GetOp_def GetOp2_def getop_data_def)

lemmas step_simps = eval_step_def dispatch_def exec_opcode_def Let_def is_disabled_def count_op_def
  MAX_SCRIPT_ELEMENT_SIZE_def stack_op_def

lemma eval_step_HASH160:
  "vfExec st = [] \<Longrightarrow> nOpCount st < 201 \<Longrightarrow> length (stack st) + length (altstack st) \<le> 1000 \<Longrightarrow> stack st \<noteq> [] \<Longrightarrow>
   eval_step ctx OP_HASH160 [] pc st =
     Inr (st\<lparr>nOpCount := nOpCount st + 1, stack := h_HASH160 ctx (hd (stack st)) # tl (stack st)\<rparr>)"
  by (cases "stack st") (simp_all add: step_simps op_hash_def hash_op_def)

lemma eval_step_push20:
  "vfExec st = [] \<Longrightarrow> length h = 20 \<Longrightarrow> length (stack st) + length (altstack st) < 1000 \<Longrightarrow>
   eval_step ctx 0x14 h pc st = Inr (st\<lparr>stack := h # stack st\<rparr>)"
  by (simp add: step_simps CheckMinimalPush_def)

lemma eval_step_EQUAL:
  "vfExec st = [] \<Longrightarrow> nOpCount st < 201 \<Longrightarrow> 2 \<le> length (stack st) \<Longrightarrow>
   length (stack st) + length (altstack st) \<le> 1001 \<Longrightarrow>
   eval_step ctx OP_EQUAL [] pc st =
     Inr (st\<lparr>nOpCount := nOpCount st + 1,
             stack := bool_vch (stack st ! 1 = stack st ! 0) # drop 2 (stack st)\<rparr>)"
  by (cases "stack st"; cases "tl (stack st)") (auto simp: step_simps op_equal_def)

lemma EvalScript_P2SH:
  assumes "length h = 20" "length stk < 999"
  shows "EvalScript ctx (r # stk) (OP_HASH160 # 0x14 # h @ [OP_EQUAL]) = Inr (bool_vch (h_HASH160 ctx r = h) # stk)"
  using assms
  by (simp add: EvalScript_def init_state_def eval_loop_GetOp [OF GetOp_opcode] eval_step_HASH160
      eval_loop_GetOp [OF GetOp_push20] eval_step_push20 eval_step_EQUAL)

lemma EvalScript_P2SH_empty: "\<exists>e. EvalScript ctx [] (OP_HASH160 # s) = Inl e"
  by (simp add: EvalScript_def init_state_def eval_loop_GetOp [OF GetOp_opcode])
    (simp add: step_simps op_hash_def)

text \<open>The assertion \<^verbatim>\<open>!stackCopy.empty()\<close> in \<^verbatim>\<open>VerifyScript\<close> cannot fail: when a
  pay-to-script-hash output script evaluates without error, the stack it started from had an
  element.\<close>

theorem VerifyScript_assert_holds:
  assumes "EvalScript ctx stackCopy scriptPubKey = Inr stk" "IsPayToScriptHash scriptPubKey"
  shows "stackCopy \<noteq> []"
  using assms EvalScript_P2SH_empty [of ctx] by (auto simp: IsPayToScriptHash_iff) (metis Inl_Inr_False)

theorem VerifyScript_assert_holds_witness: "[[7 :: byte]] \<noteq> []"
  by (rule VerifyScript_assert_holds [where ctx = demo_ctx and stk = "[[]]"
        and scriptPubKey = "OP_HASH160 # 0x14 # replicate 20 0 @ [OP_EQUAL]"]) code_simp+

lemma bool_vch_true [simp]: "top_true (bool_vch b # s) \<longleftrightarrow> b"
  by (simp add: top_true_def bool_vch_def vchTrue_def vchFalse_def)

text \<open>C3: spending a pay-to-script-hash output: when the input script is push-only and leaves
  the redeem script \<open>r\<close> on top of the arguments \<open>stk\<close>, the spend is valid exactly if
  \<open>r\<close> hashes to the committed value and \<open>r\<close> itself, run on the arguments, succeeds with a
  true result.\<close>

theorem VerifyScript_P2SH:
  assumes "flags ctx AND SCRIPT_VERIFY_P2SH \<noteq> 0" "IsPushOnly scriptSig"
    and "EvalScript ctx [] scriptSig = Inr (r # stk)" "length stk < 999" "length h = 20"
  shows "VerifyScript ctx scriptSig (OP_HASH160 # 0x14 # h @ [OP_EQUAL]) = Inr () \<longleftrightarrow>
    h_HASH160 ctx r = h \<and> (\<exists>stk'. EvalScript ctx stk r = Inr stk' \<and> top_true stk')"
proof -
  have p: "IsPayToScriptHash (OP_HASH160 # 0x14 # h @ [OP_EQUAL])"
    using assms(5) by (auto simp: IsPayToScriptHash_iff)
  show ?thesis
    using assms p by (auto simp: VerifyScript_def EvalScript_P2SH rthen_eq_Inr split: if_splits)
qed

theorem VerifyScript_P2SH_witness:
  "VerifyScript (demo_ctx\<lparr>flags := SCRIPT_VERIFY_P2SH\<rparr>) [OP_3, 1, OP_1]
      (OP_HASH160 # 0x14 # (OP_1 # replicate 19 0) @ [OP_EQUAL]) = Inr () \<longleftrightarrow>
    h_HASH160 (demo_ctx\<lparr>flags := SCRIPT_VERIFY_P2SH\<rparr>) [OP_1] = OP_1 # replicate 19 0 \<and>
    (\<exists>stk'. EvalScript (demo_ctx\<lparr>flags := SCRIPT_VERIFY_P2SH\<rparr>) [[3]] [OP_1] = Inr stk' \<and> top_true stk')"
  by (rule VerifyScript_P2SH) (code_simp | simp)+

end
