(* ===== verification/Standard.thy ===== *)
theory Standard
  imports Script_Verify Transaction
begin

text \<open>
  Standard output scripts (\<^verbatim>\<open>src/src/script/standard.cpp\<close>): the template matcher
  \<^verbatim>\<open>Solver\<close>, destinations, and the scripts built from them. A 160-bit hash is kept as its
  20 bytes; \<open>Hash160\<close> is a parameter. A public key is its serialized bytes
  (\<^verbatim>\<open>src/src/pubkey.h\<close>).
\<close>

section \<open>Public keys and destinations\<close>

definition CPubKey_GetLen :: "byte \<Rightarrow> nat" where
  "CPubKey_GetLen chHeader =
     (if chHeader = 2 \<or> chHeader = 3 then 33
      else if chHeader = 4 \<or> chHeader = 6 \<or> chHeader = 7 then 65
      else 0)"

text \<open>The constructor keeps the bytes or makes the key invalid; \<^verbatim>\<open>IsValid\<close> tests which.\<close>

definition CPubKey_IsValid :: "bytes \<Rightarrow> bool" where
  "CPubKey_IsValid vch \<longleftrightarrow>
     (let len = (if vch = [] then 0 else CPubKey_GetLen (hd vch)) in len \<noteq> 0 \<and> len = length vch)"

datatype CTxDestination = CNoDestination | CKeyID bytes | CScriptID bytes

datatype txnouttype =
    TX_NONSTANDARD
  | TX_PUBKEY
  | TX_PUBKEYHASH
  | TX_SCRIPTHASH
  | TX_MULTISIG
  | TX_NULL_DATA
  | TX_COLDSTAKE

definition GetTxnOutputType :: "txnouttype \<Rightarrow> string option" where
  "GetTxnOutputType t =
     (case t of
        TX_NONSTANDARD \<Rightarrow> Some ''nonstandard''
      | TX_PUBKEY \<Rightarrow> Some ''pubkey''
      | TX_PUBKEYHASH \<Rightarrow> Some ''pubkeyhash''
      | TX_SCRIPTHASH \<Rightarrow> Some ''scripthash''
      | TX_MULTISIG \<Rightarrow> Some ''multisig''
      | TX_NULL_DATA \<Rightarrow> Some ''nulldata''
      | TX_COLDSTAKE \<Rightarrow> None)"

section \<open>Template matching\<close>

definition mTemplates :: "(txnouttype \<times> script) list" where
  "mTemplates =
     [(TX_PUBKEY, [OP_PUBKEY, OP_CHECKSIG]),
      (TX_PUBKEYHASH, [OP_DUP, OP_HASH160, OP_PUBKEYHASH, OP_EQUALVERIFY, OP_CHECKSIG]),
      (TX_MULTISIG, [OP_SMALLINTEGER, OP_PUBKEYS, OP_SMALLINTEGER, OP_CHECKMULTISIG])]"

text \<open>
  The loop for \<^verbatim>\<open>OP_PUBKEYS\<close>: the state is the last instruction read from the script and
  what follows it. When the script ends inside the loop, \<^verbatim>\<open>GetOp\<close> leaves an invalid opcode.
\<close>

function pubkeys_loop ::
  "opcodetype \<Rightarrow> valtype \<Rightarrow> bytes \<Rightarrow> valtype list \<Rightarrow> opcodetype \<times> valtype \<times> bytes \<times> valtype list" where
  "pubkeys_loop opcode1 vch1 pc1 sols =
     (if 33 \<le> length vch1 \<and> length vch1 \<le> 65 then
        (case GetOp2 pc1 of (fRet, opcode, vch, pc) \<Rightarrow>
           if fRet then pubkeys_loop opcode vch pc (sols @ [vch1]) else (opcode, vch, pc, sols @ [vch1]))
      else (opcode1, vch1, pc1, sols))"
  by pat_completeness auto

lemma GetOp2_step: "(True, opcode, v, pc') = GetOp2 pc \<Longrightarrow> length pc' < length pc"
  using GetOp_shrinks [of pc opcode v pc'] by (simp add: GetOp_eq_Some)

termination pubkeys_loop
  by (relation "measure (\<lambda>(_, _, pc, _). length pc)") (auto dest: GetOp2_step)

declare pubkeys_loop.simps [simp del]

definition template_op ::
  "opcodetype \<Rightarrow> valtype \<Rightarrow> opcodetype \<Rightarrow> valtype \<Rightarrow> valtype list \<Rightarrow> valtype list option" where
  "template_op opcode1 vch1 opcode2 vch2 sols =
     (if opcode2 = OP_PUBKEY then
        if length vch1 < 33 \<or> length vch1 > 65 then None else Some (sols @ [vch1])
      else if opcode2 = OP_PUBKEYHASH then
        if length vch1 \<noteq> 20 then None else Some (sols @ [vch1])
      else if opcode2 = OP_SMALLINTEGER then
        if opcode1 = OP_0 \<or> (opcode1 \<ge> OP_1 \<and> opcode1 \<le> OP_16)
        then Some (sols @ [[of_nat (the (DecodeOP_N opcode1))]]) else None
      else if opcode1 \<noteq> opcode2 \<or> vch1 \<noteq> vch2 then None
      else Some sols)"

function match_template :: "bytes \<Rightarrow> bytes \<Rightarrow> valtype list \<Rightarrow> valtype list option" where
  "match_template pc1 pc2 sols =
     (if pc1 = [] \<and> pc2 = [] then Some sols
      else case GetOp pc1 of None \<Rightarrow> None | Some (opcode1, vch1, pc1') \<Rightarrow>
      (case GetOp pc2 of None \<Rightarrow> None | Some (opcode2, vch2, pc2') \<Rightarrow>
         if opcode2 = OP_PUBKEYS then
           (case pubkeys_loop opcode1 vch1 pc1' sols of (opcode1, vch1, pc1'', sols') \<Rightarrow>
              case GetOp pc2' of None \<Rightarrow> None | Some (opcode2, vch2, pc2'') \<Rightarrow>
                (case template_op opcode1 vch1 opcode2 vch2 sols' of
                   None \<Rightarrow> None
                 | Some sols'' \<Rightarrow> match_template pc1'' pc2'' sols''))
         else
           (case template_op opcode1 vch1 opcode2 vch2 sols of
              None \<Rightarrow> None
            | Some sols' \<Rightarrow> match_template pc1' pc2' sols')))"
  by pat_completeness auto
termination
  by (relation "measure (\<lambda>(_, pc2, _). length pc2)") (auto dest!: GetOp_shrinks)

declare match_template.simps [simp del]

text \<open>The result, the type and the solutions; a bad multisig keeps its type and solutions.\<close>

fun scan_templates :: "script \<Rightarrow> (txnouttype \<times> script) list \<Rightarrow> bool \<times> txnouttype \<times> valtype list" where
  "scan_templates s [] = (False, TX_NONSTANDARD, [])"
| "scan_templates s ((t, script2) # ts) =
     (case match_template s script2 [] of
        None \<Rightarrow> scan_templates s ts
      | Some sols \<Rightarrow>
          if t = TX_MULTISIG then
            let m = hd sols ! 0;
                n = last sols ! 0
            in (if m < 1 \<or> n < 1 \<or> m > n \<or> length sols - 2 \<noteq> unat n then (False, t, sols) else (True, t, sols))
          else (True, t, sols))"

definition Solver :: "script \<Rightarrow> bool \<times> txnouttype \<times> valtype list" where
  "Solver s =
     (if IsPayToScriptHash s then (True, TX_SCRIPTHASH, [take 20 (drop 2 s)])
      else if length s \<ge> 1 \<and> s ! 0 = OP_RETURN \<and> IsPushOnly (drop 1 s) then (True, TX_NULL_DATA, [])
      else scan_templates s mTemplates)"

definition ScriptSigArgsExpected :: "txnouttype \<Rightarrow> valtype list \<Rightarrow> int" where
  "ScriptSigArgsExpected t vSolutions =
     (case t of
        TX_NONSTANDARD \<Rightarrow> -1
      | TX_NULL_DATA \<Rightarrow> -1
      | TX_PUBKEY \<Rightarrow> 1
      | TX_PUBKEYHASH \<Rightarrow> 2
      | TX_MULTISIG \<Rightarrow>
          if length vSolutions < 1 \<or> length (vSolutions ! 0) < 1 then -1 else uint (vSolutions ! 0 ! 0) + 1
      | TX_SCRIPTHASH \<Rightarrow> 1
      | TX_COLDSTAKE \<Rightarrow> -1)"

text \<open>\<open>datacarrier\<close> and \<open>nMaxDatacarrierBytes\<close> are the node's settings.\<close>

definition IsStandard :: "bool \<Rightarrow> nat \<Rightarrow> script \<Rightarrow> bool \<times> txnouttype" where
  "IsStandard datacarrier nMaxDatacarrierBytes s =
     (case Solver s of (fRet, whichType, vSolutions) \<Rightarrow>
        if \<not> fRet then (False, whichType)
        else if whichType = TX_MULTISIG then
          let m = hd vSolutions ! 0;
              n = last vSolutions ! 0
          in (if n < 1 \<or> n > 3 then False else if m < 1 \<or> m > n then False else True, whichType)
        else if whichType = TX_NULL_DATA \<and> (\<not> datacarrier \<or> length s > nMaxDatacarrierBytes)
        then (False, whichType)
        else (whichType \<noteq> TX_NONSTANDARD, whichType))"

section \<open>Destinations of scripts\<close>

definition ExtractDestination :: "(bytes \<Rightarrow> bytes) \<Rightarrow> script \<Rightarrow> CTxDestination option" where
  "ExtractDestination Hash160 s =
     (case Solver s of (fRet, whichType, vSolutions) \<Rightarrow>
        if \<not> fRet then None
        else if whichType = TX_PUBKEY then
          if \<not> CPubKey_IsValid (vSolutions ! 0) then None else Some (CKeyID (Hash160 (vSolutions ! 0)))
        else if whichType = TX_PUBKEYHASH then Some (CKeyID (vSolutions ! 0))
        else if whichType = TX_SCRIPTHASH then Some (CScriptID (vSolutions ! 0))
        else None)"

definition ExtractDestinations ::
  "(bytes \<Rightarrow> bytes) \<Rightarrow> script \<Rightarrow> (txnouttype \<times> CTxDestination list \<times> nat) option" where
  "ExtractDestinations Hash160 s =
     (case Solver s of (fRet, typeRet, vSolutions) \<Rightarrow>
        if \<not> fRet then None
        else if typeRet = TX_NULL_DATA then None
        else if typeRet = TX_MULTISIG then
          let addressRet = map (\<lambda>k. CKeyID (Hash160 k)) (filter CPubKey_IsValid (butlast (tl vSolutions)))
          in if addressRet = [] then None else Some (typeRet, addressRet, unat (hd vSolutions ! 0))
        else
          (case ExtractDestination Hash160 s of
             None \<Rightarrow> None
           | Some address \<Rightarrow> Some (typeRet, [address], 1)))"

fun GetScriptForDestination :: "CTxDestination \<Rightarrow> script" where
  "GetScriptForDestination CNoDestination = []"
| "GetScriptForDestination (CKeyID keyID) =
     [OP_DUP, OP_HASH160] @ push_vch keyID @ [OP_EQUALVERIFY, OP_CHECKSIG]"
| "GetScriptForDestination (CScriptID scriptID) = [OP_HASH160] @ push_vch scriptID @ [OP_EQUAL]"

text \<open>\<open>None\<close> is the failed assertion of \<^verbatim>\<open>EncodeOP_N\<close>.\<close>

definition GetScriptForMultisig :: "int \<Rightarrow> bytes list \<Rightarrow> script option" where
  "GetScriptForMultisig nRequired keys =
     (case EncodeOP_N nRequired of
        None \<Rightarrow> None
      | Some m \<Rightarrow>
        (case EncodeOP_N (int (length keys)) of
           None \<Rightarrow> None
         | Some n \<Rightarrow> Some ([m] @ concat (map push_vch keys) @ [n, OP_CHECKMULTISIG])))"

definition GetKeyIDFromUTXO :: "(bytes \<Rightarrow> bytes) \<Rightarrow> CTxOut \<Rightarrow> bytes option" where
  "GetKeyIDFromUTXO Hash160 t =
     (case Solver (scriptPubKey t) of (fRet, whichType, vSolutions) \<Rightarrow>
        if scriptPubKey t = [] \<or> \<not> fRet then None
        else if whichType = TX_PUBKEY then
          Some (Hash160 (if CPubKey_IsValid (vSolutions ! 0) then vSolutions ! 0 else []))
        else if whichType = TX_PUBKEYHASH \<or> whichType = TX_COLDSTAKE then Some (vSolutions ! 0)
        else None)"

section \<open>Matching the scripts the node builds\<close>

lemma push_vch_20: "length h = 20 \<Longrightarrow> push_vch h = 0x14 # h"
  by (simp add: push_vch_def)

lemma template_op_same: "opcode \<noteq> OP_PUBKEY \<Longrightarrow> opcode \<noteq> OP_PUBKEYHASH \<Longrightarrow> opcode \<noteq> OP_SMALLINTEGER \<Longrightarrow>
  template_op opcode v opcode v sols = Some sols"
  by (simp add: template_op_def)

lemma match_step:
  assumes "GetOp pc1 = Some (opcode1, vch1, pc1')" "GetOp pc2 = Some (opcode2, vch2, pc2')" "opcode2 \<noteq> OP_PUBKEYS"
  shows "match_template pc1 pc2 sols =
    (case template_op opcode1 vch1 opcode2 vch2 sols of
       None \<Rightarrow> None | Some sols' \<Rightarrow> match_template pc1' pc2' sols')"
  using assms by (subst match_template.simps) (auto split: option.splits)

lemma match_done [simp]: "match_template [] [] sols = Some sols"
  by (simp add: match_template.simps)

lemmas match_op = match_step [OF GetOp_opcode GetOp_opcode]

lemma scan_P2PKH:
  assumes "length h = 20"
  shows "Solver ([OP_DUP, OP_HASH160] @ push_vch h @ [OP_EQUALVERIFY, OP_CHECKSIG]) = (True, TX_PUBKEYHASH, [h])"
proof -
  let ?s = "[OP_DUP, OP_HASH160] @ push_vch h @ [OP_EQUALVERIFY, OP_CHECKSIG]"
  have "\<not> IsPayToScriptHash ?s" "?s ! 0 \<noteq> OP_RETURN" by (simp_all add: IsPayToScriptHash_def)
  moreover have "match_template ?s [OP_PUBKEY, OP_CHECKSIG] [] = None"
    by (simp add: match_op template_op_def)
  moreover have "match_template ?s [OP_DUP, OP_HASH160, OP_PUBKEYHASH, OP_EQUALVERIFY, OP_CHECKSIG] [] = Some [h]"
    using assms by (simp add: push_vch_20 match_op match_step [OF GetOp_push20 GetOp_opcode] template_op_def)
  ultimately show ?thesis by (simp add: Solver_def mTemplates_def)
qed

lemma Solver_P2SH: "length h = 20 \<Longrightarrow> Solver ([OP_HASH160] @ push_vch h @ [OP_EQUAL]) = (True, TX_SCRIPTHASH, [h])"
  by (simp add: Solver_def push_vch_20 IsPayToScriptHash_iff)

text \<open>The script built for a key or script destination is recognised as that destination again:
  \<^verbatim>\<open>ExtractDestination\<close> inverts \<^verbatim>\<open>GetScriptForDestination\<close>.\<close>

theorem ExtractDestination_GetScript:
  assumes "length h = 20"
  shows "ExtractDestination Hash160 (GetScriptForDestination (CKeyID h)) = Some (CKeyID h) \<and>
    ExtractDestination Hash160 (GetScriptForDestination (CScriptID h)) = Some (CScriptID h)"
  using scan_P2PKH [OF assms] Solver_P2SH [OF assms] by (simp add: ExtractDestination_def)

theorem ExtractDestination_GetScript_witness:
  "ExtractDestination (\<lambda>x. x) (GetScriptForDestination (CKeyID (replicate 20 9))) = Some (CKeyID (replicate 20 9)) \<and>
    ExtractDestination (\<lambda>x. x) (GetScriptForDestination (CScriptID (replicate 20 9))) = Some (CScriptID (replicate 20 9))"
  by (rule ExtractDestination_GetScript) simp

section \<open>Multisignature scripts\<close>

definition keylike :: "bytes \<Rightarrow> bool" where
  "keylike k \<longleftrightarrow> 33 \<le> length k \<and> length k \<le> 65"

lemma GetOp_key:
  assumes "keylike k"
  obtains opcode where "GetOp (push_vch k @ rest) = Some (opcode, k, rest)"
  using GetOp_push_vch [of k rest] assms by (auto simp: keylike_def)

lemma pubkeys_loop_keys:
  assumes "list_all keylike (k # ks)" "GetOp pc = Some (opcode, v, pc')" "\<not> keylike v"
  shows "pubkeys_loop oc k (concat (map push_vch ks) @ pc) sols = (opcode, v, pc', sols @ k # ks)"
  using assms(1)
proof (induction ks arbitrary: k oc sols)
  case Nil
  then show ?case
    using assms(2,3) by (subst pubkeys_loop.simps)
      (simp add: keylike_def GetOp_eq_Some, subst pubkeys_loop.simps, auto simp: keylike_def)
next
  case (Cons k' ks)
  obtain oc' where g: "GetOp (push_vch k' @ concat (map push_vch ks) @ pc) = Some (oc', k', concat (map push_vch ks) @ pc)"
    using GetOp_key [of k'] Cons.prems by auto
  have "pubkeys_loop oc k (concat (map push_vch (k' # ks)) @ pc) sols =
      pubkeys_loop oc' k' (concat (map push_vch ks) @ pc) (sols @ [k])"
    using Cons.prems g by (subst pubkeys_loop.simps) (simp add: keylike_def GetOp_eq_Some)
  then show ?case using Cons.IH [of k' oc' "sols @ [k]"] Cons.prems by simp
qed

lemma EncodeOP_N_range:
  assumes "1 \<le> n" "n \<le> 16" "EncodeOP_N n = Some m"
  shows "OP_1 \<le> m" "m \<le> OP_16" "DecodeOP_N m = Some (nat n)" "m > OP_PUSHDATA4"
    "(of_nat (nat n) :: byte) = word_of_int n" "unat (word_of_int n :: byte) = nat n"
proof -
  have "uint (OP_1 :: opcodetype) + n - 1 = 80 + n" by simp
  then have m: "m = word_of_int (80 + n)" using assms unfolding EncodeOP_N_def by (simp split: if_splits)
  have small: "uint (word_of_int k :: byte) = k" if "0 \<le> k" "k < 256" for k
    using that by (simp add: uint_word_of_int)
  then have u: "unat m = nat (80 + n)" using assms(1,2) by (simp only: m unat_eq_nat_uint)
  show "OP_1 \<le> m" "m \<le> OP_16" "m > OP_PUSHDATA4" using u assms(1,2) by (simp_all add: unat_cmp nat_le_iff)
  have "m \<noteq> OP_0" using u assms(1) by auto
  with \<open>OP_1 \<le> m\<close> \<open>m \<le> OP_16\<close> show "DecodeOP_N m = Some (nat n)"
    using u assms(1) by (simp add: DecodeOP_N_def nat_diff_distrib')
  show "(of_nat (nat n) :: byte) = word_of_int n"
    using assms(1) of_int_of_nat_eq [of "nat n", where 'a = byte] by simp
  show "unat (word_of_int n :: byte) = nat n" using small [of n] assms(1,2) by (simp only: unat_eq_nat_uint)
qed

text \<open>The script built for an m-of-n multisignature (with \<open>1 \<le> m \<le> n \<le> 16\<close> and keys of 33 to
  65 bytes) is recognised by \<^verbatim>\<open>Solver\<close> as a multisignature with exactly these parameters and
  keys.\<close>

theorem Solver_GetScriptForMultisig:
  assumes "GetScriptForMultisig m keys = Some s" "1 \<le> m" "m \<le> int (length keys)" "list_all keylike keys"
  shows "Solver s = (True, TX_MULTISIG, [word_of_int m] # keys @ [[of_nat (length keys)]])"
proof -
  obtain k ks where keys: "keys = k # ks" using assms(2,3) by (cases keys) auto
  obtain om on where e: "EncodeOP_N m = Some om" "EncodeOP_N (int (length keys)) = Some on"
    and s: "s = om # push_vch k @ concat (map push_vch ks) @ [on, OP_CHECKMULTISIG]"
    using assms(1) by (auto simp: GetScriptForMultisig_def keys split: option.splits)
  have le: "m \<le> 16" "int (length keys) \<le> 16" using assms(3) e(2) by (auto simp: EncodeOP_N_def split: if_splits)
  note M = EncodeOP_N_range [OF assms(2) le(1) e(1)]
  note N = EncodeOP_N_range [OF order_trans [OF assms(2,3)] le(2) e(2)]
  have gm: "GetOp s = Some (om, [], push_vch k @ concat (map push_vch ks) @ [on, OP_CHECKMULTISIG])"
    unfolding s by (rule GetOp_opcode [OF M(4)])
  obtain oc where gk: "GetOp (push_vch k @ concat (map push_vch ks) @ [on, OP_CHECKMULTISIG]) =
      Some (oc, k, concat (map push_vch ks) @ [on, OP_CHECKMULTISIG])"
    using GetOp_key [of k] assms(4) keys by auto
  have gn: "GetOp [on, OP_CHECKMULTISIG] = Some (on, [], [OP_CHECKMULTISIG])" by (rule GetOp_opcode [OF N(4)])
  have ne: "om \<noteq> OP_DUP" "om \<noteq> OP_HASH160" "om \<noteq> OP_RETURN" using M(2) by auto
  have sm: "template_op om [] OP_SMALLINTEGER [] [] = Some [[word_of_int m]]"
    using M(1-3,5) by (simp add: template_op_def)
  have sn: "template_op on [] OP_SMALLINTEGER [] sols = Some (sols @ [[of_nat (length keys)]])" for sols
    using N(1-3,5) by (simp add: template_op_def)
  have "match_template s [OP_SMALLINTEGER, OP_PUBKEYS, OP_SMALLINTEGER, OP_CHECKMULTISIG] [] =
      match_template (push_vch k @ concat (map push_vch ks) @ [on, OP_CHECKMULTISIG])
        [OP_PUBKEYS, OP_SMALLINTEGER, OP_CHECKMULTISIG] [[word_of_int m]]"
    using match_step [OF gm GetOp_opcode] sm by simp
  also have "\<dots> = match_template [OP_CHECKMULTISIG] [OP_CHECKMULTISIG]
      ([word_of_int m] # keys @ [[of_nat (length keys)]])"
    using pubkeys_loop_keys [OF _ gn, of k ks oc "[[word_of_int m]]"] assms(4) sn [of "[word_of_int m] # keys"]
    by (subst match_template.simps) (simp add: gk keys GetOp_opcode keylike_def)
  finally have "match_template s [OP_SMALLINTEGER, OP_PUBKEYS, OP_SMALLINTEGER, OP_CHECKMULTISIG] [] =
      Some ([word_of_int m] # keys @ [[of_nat (length keys)]])"
    by (simp add: match_op template_op_def)
  moreover have "match_template s [OP_PUBKEY, OP_CHECKSIG] [] = None"
    using match_step [OF gm GetOp_opcode] by (simp add: template_op_def)
  moreover have "match_template s [OP_DUP, OP_HASH160, OP_PUBKEYHASH, OP_EQUALVERIFY, OP_CHECKSIG] [] = None"
    using match_step [OF gm GetOp_opcode] ne by (simp add: template_op_def)
  moreover have "\<not> IsPayToScriptHash s" "s ! 0 \<noteq> OP_RETURN" using ne by (auto simp: IsPayToScriptHash_def s)
  moreover have "unat (word_of_int m :: byte) = nat m" "unat (of_nat (length keys) :: byte) = length keys"
    using M(6) N(5,6) by simp_all
  moreover have "keys \<noteq> []" "\<not> length keys < nat m" using keys assms(3) by auto
  ultimately show ?thesis using assms(2)
    by (simp add: Solver_def mTemplates_def Let_def unat_cmp)
qed

theorem Solver_GetScriptForMultisig_witness:
  "Solver ([OP_1] @ push_vch (replicate 33 2) @ push_vch (replicate 33 3) @ [OP_2, OP_CHECKMULTISIG]) =
     (True, TX_MULTISIG, [word_of_int 1] # [replicate 33 2, replicate 33 3] @
        [[of_nat (length [replicate 33 (2 :: byte), replicate 33 3])]])"
  by (rule Solver_GetScriptForMultisig) (simp_all add: GetScriptForMultisig_def EncodeOP_N_def keylike_def)

section \<open>Data outputs and standardness\<close>

lemma scan_templates_not_null_data: "scan_templates s mTemplates \<noteq> (True, TX_NULL_DATA, sols)"
  by (auto simp: mTemplates_def Let_def split: option.splits)

lemma null_data_unspendable: "Solver s = (True, TX_NULL_DATA, sols) \<Longrightarrow> IsUnspendable s"
  using scan_templates_not_null_data by (cases s) (auto simp: Solver_def IsUnspendable_def split: if_splits)

end
