(* ===== verification/P2PKH.thy ===== *)
theory P2PKH
  imports Standard
begin

unbundle bit_operations_syntax

text \<open>
  Pay to public key hash, from end to end: the script built for a key destination, run by the
  interpreter against the usual input script, accepts exactly the owner's signature.
\<close>

section \<open>Single steps\<close>

lemma of_nat_byte_small: "n \<le> 75 \<Longrightarrow> unat (of_nat n :: byte) = n"
  by (simp add: unat_of_nat)

lemma GetOp_direct_push:
  assumes "1 \<le> length d" "length d \<le> 75"
  shows "push_vch d = of_nat (length d) # d" "GetOp (push_vch d @ rest) = Some (of_nat (length d), d, rest)"
proof -
  show p: "push_vch d = of_nat (length d) # d" using assms by (simp add: push_vch_def)
  note u = of_nat_byte_small [OF assms(2)]
  have "(of_nat (length d) :: byte) < OP_PUSHDATA1" "(of_nat (length d) :: byte) \<le> OP_PUSHDATA4"
    using assms(2) by (simp_all add: unat_cmp u)
  then show "GetOp (push_vch d @ rest) = Some (of_nat (length d), d, rest)"
    unfolding p by (simp add: GetOp_def GetOp2_def getop_data_def u)
qed

lemma eval_step_push:
  assumes "vfExec st = []" "2 \<le> length d" "length d \<le> 75" "length (stack st) + length (altstack st) < 1000"
  shows "eval_step ctx (of_nat (length d)) d pc st = Inr (st\<lparr>stack := d # stack st\<rparr>)"
proof -
  note u = of_nat_byte_small [OF assms(3)]
  have "(of_nat (length d) :: byte) \<le> OP_PUSHDATA4" "\<not> (of_nat (length d) :: byte) > OP_16"
    "\<not> is_disabled (of_nat (length d))"
    using assms(3) u by (auto simp: unat_cmp is_disabled_def dest: arg_cong [where f = unat])
  then show ?thesis using assms u
    by (simp add: eval_step_def dispatch_def count_op_def Let_def CheckMinimalPush_def MAX_SCRIPT_ELEMENT_SIZE_def)
qed

lemma eval_step_DUP:
  "vfExec st = [] \<Longrightarrow> nOpCount st < 201 \<Longrightarrow> stack st \<noteq> [] \<Longrightarrow> length (stack st) + length (altstack st) < 1000 \<Longrightarrow>
   eval_step ctx OP_DUP [] pc st =
     Inr (st\<lparr>nOpCount := nOpCount st + 1, stack := hd (stack st) # stack st\<rparr>)"
  by (cases "stack st") (simp_all add: step_simps op_stack_def)

lemma eval_step_EQUALVERIFY:
  "vfExec st = [] \<Longrightarrow> nOpCount st < 201 \<Longrightarrow> 2 \<le> length (stack st) \<Longrightarrow>
   length (stack st) + length (altstack st) \<le> 1000 \<Longrightarrow>
   eval_step ctx OP_EQUALVERIFY [] pc st =
     (if stack st ! 1 = stack st ! 0 then Inr (st\<lparr>nOpCount := nOpCount st + 1, stack := drop 2 (stack st)\<rparr>)
      else Inl SCRIPT_ERR_EQUALVERIFY)"
  by (cases "stack st"; cases "tl (stack st)") (auto simp: step_simps op_equal_def)

lemma eval_step_CHECKSIG:
  assumes "vfExec st = []" "nOpCount st < 201" "stack st = [key, sig]" "altstack st = []"
  shows "eval_step ctx OP_CHECKSIG [] pc st =
    (case check_encodings ctx sig key of
       Some e \<Rightarrow> Inl e
     | None \<Rightarrow> Inr (st\<lparr>nOpCount := nOpCount st + 1,
         stack := [bool_vch (CheckSig ctx sig key (snd (FindAndDelete (pbegincodehash st) (push_vch sig))))]\<rparr>))"
  using assms by (simp add: step_simps op_checksig_def split: option.splits)

section \<open>The two scripts\<close>

lemma EvalScript_two_pushes:
  assumes "2 \<le> length a" "length a \<le> 75" "2 \<le> length b" "length b \<le> 75"
  shows "EvalScript ctx [] (push_vch a @ push_vch b) = Inr [b, a]" "IsPushOnly (push_vch a @ push_vch b)"
proof -
  have g: "GetOp (push_vch a @ push_vch b) = Some (of_nat (length a), a, push_vch b)"
    "GetOp (push_vch b) = Some (of_nat (length b), b, [])"
    using GetOp_direct_push(2) [of a "push_vch b"] GetOp_direct_push(2) [of b "[]"] assms by simp_all
  have l: "length (push_vch a @ push_vch b) \<le> 10000" using assms by (simp add: push_vch_def)
  show "EvalScript ctx [] (push_vch a @ push_vch b) = Inr [b, a]"
    using assms l by (simp add: EvalScript_def init_state_def eval_loop_GetOp [OF g(1)] eval_loop_GetOp [OF g(2)]
        eval_step_push del: length_append)
  have "\<not> (of_nat (length d) :: byte) > OP_16" if "length d \<le> 75" for d :: bytes
    using of_nat_byte_small [OF that] that by (simp add: unat_cmp)
  moreover have "push_vch a @ push_vch b \<noteq> []" "push_vch b \<noteq> []" by (simp_all add: push_vch_def)
  ultimately show "IsPushOnly (push_vch a @ push_vch b)"
    using assms by (subst IsPushOnly.simps, simp add: g(1), subst IsPushOnly.simps, simp add: g(2) IsPushOnly.simps)
qed

lemma find_none_step:
  assumes "GetOp pc = Some (opcode, v, pc')" "b \<noteq> []" "hd pc \<noteq> hd b" "find_and_delete_loop b pc' = (0, pc')"
  shows "find_and_delete_loop b pc = (0, pc)"
proof -
  have ne: "pc \<noteq> []" using assms(1) by auto
  have "take (length b) pc \<noteq> b" using assms(2,3) ne by (cases pc; cases b) auto
  then have "erase_at b pc = (0, pc)" by (simp add: erase_at.simps)
  moreover have "pc = take (length pc - length pc') pc @ pc'"
    using GetOp_prefix [OF assms(1)] by auto
  ultimately show ?thesis using assms(1,4) by (subst find_and_delete_loop.simps) simp
qed

lemma find_none_Nil: "b \<noteq> [] \<Longrightarrow> find_and_delete_loop b [] = (0, [])"
  by (simp add: find_and_delete_loop.simps erase_at.simps)

definition p2pkh_script :: "bytes \<Rightarrow> script" where
  "p2pkh_script h = OP_DUP # OP_HASH160 # 0x14 # h @ [OP_EQUALVERIFY, OP_CHECKSIG]"

lemma p2pkh_script_dest: "length h = 20 \<Longrightarrow> GetScriptForDestination (CKeyID h) = p2pkh_script h"
  by (simp add: p2pkh_script_def push_vch_20)

lemma FindAndDelete_p2pkh:
  assumes "length h = 20" "20 < length sig" "length sig \<le> 75"
  shows "snd (FindAndDelete (p2pkh_script h) (push_vch sig)) = p2pkh_script h"
proof -
  let ?b = "push_vch sig"
  have b: "?b \<noteq> []" "hd ?b = of_nat (length sig)" using assms by (simp_all add: GetOp_direct_push(1))
  have ne: "x \<noteq> hd ?b" if "unat x \<le> 20 \<or> 75 < unat x" for x
    using that of_nat_byte_small [OF assms(3)] assms(2,3) b(2) by auto
  have "find_and_delete_loop ?b [OP_CHECKSIG] = (0, [OP_CHECKSIG])"
    by (rule find_none_step [OF GetOp_opcode b(1)]) (simp_all add: ne find_none_Nil b(1))
  then have "find_and_delete_loop ?b [OP_EQUALVERIFY, OP_CHECKSIG] = (0, [OP_EQUALVERIFY, OP_CHECKSIG])"
    by (rule find_none_step [OF GetOp_opcode b(1), rotated 2]) (simp_all add: ne)
  then have "find_and_delete_loop ?b (0x14 # h @ [OP_EQUALVERIFY, OP_CHECKSIG]) =
      (0, 0x14 # h @ [OP_EQUALVERIFY, OP_CHECKSIG])"
    by (rule find_none_step [OF GetOp_push20 [OF assms(1)] b(1), rotated]) (simp add: ne)
  then have "find_and_delete_loop ?b (OP_HASH160 # 0x14 # h @ [OP_EQUALVERIFY, OP_CHECKSIG]) =
      (0, OP_HASH160 # 0x14 # h @ [OP_EQUALVERIFY, OP_CHECKSIG])"
    by (rule find_none_step [OF GetOp_opcode b(1), rotated 2]) (simp_all add: ne)
  then have "find_and_delete_loop ?b (p2pkh_script h) = (0, p2pkh_script h)"
    unfolding p2pkh_script_def by (rule find_none_step [OF GetOp_opcode b(1), rotated 2]) (simp_all add: ne)
  then show ?thesis using b(1) by (simp add: FindAndDelete_def)
qed

lemma EvalScript_p2pkh:
  assumes "length h = 20" "20 < length sig" "length sig \<le> 75"
  shows "EvalScript ctx [key, sig] (p2pkh_script h) =
    (if h_HASH160 ctx key = h then
       (case check_encodings ctx sig key of
          Some e \<Rightarrow> Inl e
        | None \<Rightarrow> Inr [bool_vch (CheckSig ctx sig key (p2pkh_script h))])
     else Inl SCRIPT_ERR_EQUALVERIFY)"
proof -
  have l: "length (p2pkh_script h) \<le> 10000" using assms(1) by (simp add: p2pkh_script_def)
  let ?st = "init_state [key, sig] (p2pkh_script h)"
  have "eval_loop ctx (p2pkh_script h) ?st =
      eval_loop ctx [OP_EQUALVERIFY, OP_CHECKSIG]
        (?st\<lparr>nOpCount := 2, stack := [h, h_HASH160 ctx key, key, sig]\<rparr>)"
    using assms(1) unfolding p2pkh_script_def
    by (simp add: init_state_def eval_loop_GetOp [OF GetOp_opcode] eval_step_DUP eval_step_HASH160
        eval_loop_GetOp [OF GetOp_push20] eval_step_push20)
  also have "\<dots> = (if h_HASH160 ctx key = h then eval_loop ctx [OP_CHECKSIG] (?st\<lparr>nOpCount := 3\<rparr>)
      else Inl SCRIPT_ERR_EQUALVERIFY)"
    by (simp add: init_state_def eval_loop_GetOp [OF GetOp_opcode, of OP_EQUALVERIFY] eval_step_EQUALVERIFY)
  also have "eval_loop ctx [OP_CHECKSIG] (?st\<lparr>nOpCount := 3\<rparr>) =
      (case check_encodings ctx sig key of
         Some e \<Rightarrow> Inl e
       | None \<Rightarrow> Inr (?st\<lparr>nOpCount := 4, stack := [bool_vch (CheckSig ctx sig key (p2pkh_script h))]\<rparr>))"
    using FindAndDelete_p2pkh [OF assms]
    by (simp add: init_state_def eval_loop_GetOp [OF GetOp_opcode] eval_step_CHECKSIG split: option.splits)
  finally show ?thesis using l by (auto simp: EvalScript_def init_state_def split: option.splits)
qed

section \<open>Spending\<close>

text \<open>C10: an output paying to a key hash is spent by the input script \<open>sig key\<close> exactly if the key
  hashes to the committed value, the encodings satisfy the active rules, and the signature
  verifies for this key and this output script (for signatures of 21 to 75 and keys of 2 to 75
  bytes), whatever the verification flags.\<close>

theorem VerifyScript_P2PKH:
  assumes "length h = 20" "20 < length sig" "length sig \<le> 75" "2 \<le> length key" "length key \<le> 75"
  shows "VerifyScript ctx (push_vch sig @ push_vch key) (GetScriptForDestination (CKeyID h)) = Inr () \<longleftrightarrow>
    h_HASH160 ctx key = h \<and> check_encodings ctx sig key = None \<and>
    CheckSig ctx sig key (GetScriptForDestination (CKeyID h))"
proof -
  have "2 \<le> length sig" using assms(2) by simp
  note p = EvalScript_two_pushes [OF this assms(3-5)]
  have "\<not> IsPayToScriptHash (p2pkh_script h)" by (simp add: IsPayToScriptHash_def p2pkh_script_def)
  then show ?thesis
    unfolding p2pkh_script_dest [OF assms(1)]
    by (cases "h_HASH160 ctx key = h"; cases "check_encodings ctx sig key")
      (simp_all add: VerifyScript_def p EvalScript_p2pkh [OF assms(1-3)])
qed

theorem VerifyScript_P2PKH_witness:
  "VerifyScript demo_ctx (push_vch (replicate 30 5) @ push_vch (replicate 30 5))
      (GetScriptForDestination (CKeyID (replicate 20 5))) = Inr () \<longleftrightarrow>
    h_HASH160 demo_ctx (replicate 30 5) = replicate 20 5 \<and>
    check_encodings demo_ctx (replicate 30 5) (replicate 30 5) = None \<and>
    CheckSig demo_ctx (replicate 30 5) (replicate 30 5) (GetScriptForDestination (CKeyID (replicate 20 5)))"
  by (rule VerifyScript_P2PKH) simp_all

end
