(* ===== verification/Amount.thy ===== *)
theory Amount
  imports Prelude "HOL-Library.Signed_Division" "HOL-Library.Char_ord"
begin

text \<open>
  Amounts, fee rates and their textual form (\<^verbatim>\<open>src/src/amount.h\<close>, \<^verbatim>\<open>amount.cpp\<close>,
  \<^verbatim>\<open>utilmoneystr.cpp\<close>). A \<^verbatim>\<open>CAmount\<close> is an integer in the range of \<^verbatim>\<open>int64_t\<close>; products
  with a \<^verbatim>\<open>size_t\<close> are computed in unsigned 64-bit arithmetic, as C++ does.
\<close>

section \<open>Constants and fee rates\<close>

definition COIN :: camount where "COIN = 100000000"
definition CENT :: camount where "CENT = 1000000"

definition CONSENSUS_FORK_PROTO :: int where "CONSENSUS_FORK_PROTO = 70223"

record CFeeRate =
  nSatoshisPerK :: camount

text \<open>The constructor from a fee and a size.\<close>

definition CFeeRate_paid :: "camount \<Rightarrow> uint64 \<Rightarrow> CFeeRate" where
  "CFeeRate_paid nFeePaid nSize =
     \<lparr>nSatoshisPerK = (if nSize > 0 then sint (word_of_int (wrap64 (nFeePaid * 1000)) div nSize) else 0)\<rparr>"

text \<open>\<open>activeProtocol\<close> is the value of \<^verbatim>\<open>ActiveProtocol()\<close>.\<close>

definition GetFee :: "int \<Rightarrow> CFeeRate \<Rightarrow> uint64 \<Rightarrow> camount" where
  "GetFee activeProtocol r nSize =
     (let nFeePerK = nSatoshisPerK r;
          nFeePerK = (if activeProtocol \<ge> CONSENSUS_FORK_PROTO \<and> nFeePerK = 10000 then 250000 else nFeePerK);
          nFee = sint (word_of_int nFeePerK * nSize div 1000)
      in if nFee = 0 \<and> nFeePerK > 0 then nFeePerK else nFee)"

definition GetFeePerK :: "int \<Rightarrow> CFeeRate \<Rightarrow> camount" where
  "GetFeePerK activeProtocol r = GetFee activeProtocol r 1000"

section \<open>Decimal text\<close>

definition isdigit :: "char \<Rightarrow> bool" where
  "isdigit c \<longleftrightarrow> CHR ''0'' \<le> c \<and> c \<le> CHR ''9''"

definition isspace :: "char \<Rightarrow> bool" where
  "isspace c \<longleftrightarrow> c \<in> set [CHR '' '', CHR 0x09, CHR 0x0A, CHR 0x0B, CHR 0x0C, CHR 0x0D]"

definition digit_char :: "nat \<Rightarrow> char" where
  "digit_char d = char_of (48 + d)"

definition char_digit :: "char \<Rightarrow> int" where
  "char_digit c = of_char c - 48"

text \<open>The decimal digits of a number that is not negative.\<close>

function show_digits :: "int \<Rightarrow> string" where
  "show_digits n = (if n < 10 then [digit_char (nat n)] else show_digits (n div 10) @ [digit_char (nat (n mod 10))])"
  by pat_completeness auto
termination by (relation "measure nat") auto

declare show_digits.simps [simp del]

text \<open>The conversions \<^verbatim>\<open>%d\<close> and \<^verbatim>\<open>%08d\<close>.\<close>

definition printf_d :: "int \<Rightarrow> string" where
  "printf_d i = (if i < 0 then CHR ''-'' # show_digits (- i) else show_digits i)"

definition printf_08d :: "int \<Rightarrow> string" where
  "printf_08d i =
     (if i < 0 then let s = show_digits (- i) in CHR ''-'' # replicate (7 - length s) (CHR ''0'') @ s
      else let s = show_digits i in replicate (8 - length s) (CHR ''0'') @ s)"

text \<open>The trimming loop, on the reversed string.\<close>

fun trim_zeros :: "string \<Rightarrow> string" where
  "trim_zeros (c # c1 # c2 # s) =
     (if c = CHR ''0'' \<and> isdigit c2 then trim_zeros (c1 # c2 # s) else c # c1 # c2 # s)"
| "trim_zeros s = s"

definition FormatMoney :: "camount \<Rightarrow> bool \<Rightarrow> string" where
  "FormatMoney n fPlus =
     (let n_abs = (if n > 0 then n else wrap64 (- n));
          quotient = n_abs sdiv COIN;
          remainder = n_abs smod COIN;
          str = printf_d quotient @ CHR ''.'' # printf_08d remainder;
          str = rev (trim_zeros (rev str))
      in if n < 0 then CHR ''-'' # str
         else if fPlus \<and> n > 0 then CHR ''+'' # str
         else str)"

text \<open>
  \<^verbatim>\<open>ParseMoney\<close>: the digits after the point with their weight, then the digits before it. A
  C string ends at its terminator, here the end of the list.
\<close>

fun parse_frac :: "string \<Rightarrow> int \<Rightarrow> int \<Rightarrow> int \<times> string" where
  "parse_frac [] nMult nUnits = (nUnits, [])"
| "parse_frac (c # p) nMult nUnits =
     (if isdigit c \<and> nMult > 0 then parse_frac p (nMult sdiv 10) (nUnits + nMult * char_digit c)
      else (nUnits, c # p))"

fun parse_whole :: "string \<Rightarrow> string \<Rightarrow> (string \<times> int \<times> string) option" where
  "parse_whole [] strWhole = Some (strWhole, 0, [])"
| "parse_whole (c # p) strWhole =
     (if c = CHR ''.'' then
        (case parse_frac p (CENT * 10) 0 of (nUnits, rest) \<Rightarrow> Some (strWhole, nUnits, rest))
      else if isspace c then Some (strWhole, 0, c # p)
      else if \<not> isdigit c then None
      else parse_whole p (strWhole @ [c]))"

text \<open>\<^verbatim>\<open>atoi64\<close> is \<^verbatim>\<open>strtoll\<close> at base ten: blanks, a sign, the longest run of digits, saturation.\<close>

definition digits_value :: "string \<Rightarrow> int" where
  "digits_value str = foldl (\<lambda>a c. a * 10 + char_digit c) 0 str"

definition atoi64 :: "string \<Rightarrow> int" where
  "atoi64 str =
     (let s = dropWhile isspace str;
          neg = (case s of c # _ \<Rightarrow> c = CHR ''-'' | [] \<Rightarrow> False);
          s = (case s of c # s' \<Rightarrow> if c = CHR ''-'' \<or> c = CHR ''+'' then s' else s | [] \<Rightarrow> s);
          v = digits_value (takeWhile isdigit s)
      in if neg then max (- (2 ^ 63)) (- v) else min (2 ^ 63 - 1) v)"

definition ParseMoney :: "string \<Rightarrow> camount option" where
  "ParseMoney pszIn =
     (case parse_whole (dropWhile isspace pszIn) [] of
        None \<Rightarrow> None
      | Some (strWhole, nUnits, p) \<Rightarrow>
          if \<not> list_all isspace p then None
          else if length strWhole > 10 then None
          else if nUnits < 0 \<or> nUnits > COIN then None
          else Some (wrap64 (wrap64 (atoi64 strWhole * COIN) + nUnits)))"

section \<open>Fees\<close>

lemma sint_of_nat64: "0 \<le> k \<Longrightarrow> k < 2 ^ 63 \<Longrightarrow> sint (word_of_int k :: uint64) = k"
  by (intro sint_of_int64) (simp add: in_int64_def)

lemma word_div_1000: "0 \<le> k \<Longrightarrow> k < 2 ^ 63 \<Longrightarrow> (word_of_int k :: uint64) div 1000 = word_of_int (k div 1000)"
  by (simp add: word_div_def uint_word_of_int)

lemma GetFee_eq:
  assumes "0 \<le> nSatoshisPerK r" "nSatoshisPerK r \<noteq> 10000 \<or> proto < CONSENSUS_FORK_PROTO"
    and "nSatoshisPerK r * uint nSize < 2 ^ 63"
  shows "GetFee proto r nSize =
    (let fee = nSatoshisPerK r * uint nSize div 1000 in if fee = 0 then nSatoshisPerK r else fee)"
proof -
  let ?k = "nSatoshisPerK r * uint nSize"
  have k: "0 \<le> ?k" using assms(1) by simp
  have "(word_of_int (nSatoshisPerK r) :: uint64) * nSize = word_of_int ?k" by simp
  then have "(word_of_int (nSatoshisPerK r) :: uint64) * nSize div 1000 = word_of_int (?k div 1000)"
    using word_div_1000 [OF k assms(3)] by (simp only:)
  moreover have "sint (word_of_int (?k div 1000) :: uint64) = ?k div 1000"
    using k assms(3) by (intro sint_of_nat64) (simp add: pos_imp_zdiv_nonneg_iff, linarith)
  ultimately show ?thesis using assms(1,2) by (auto simp: GetFee_def Let_def)
qed

section \<open>Digit strings\<close>

lemma of_char_digit_char: "d < 10 \<Longrightarrow> of_char (digit_char d) = (48 + d :: nat)"
  by (simp add: digit_char_def)

lemma isdigit_iff: "isdigit c \<longleftrightarrow> (48 :: nat) \<le> of_char c \<and> of_char c \<le> (57 :: nat)"
  by (simp add: isdigit_def less_eq_char_def)

lemma isdigit_digit_char [simp]: "d < 10 \<Longrightarrow> isdigit (digit_char d)"
  by (simp add: isdigit_iff of_char_digit_char)

lemma char_digit_nat: "char_digit c = int (of_char c) - 48"
  by (simp add: char_digit_def of_nat_of_char)

lemma char_digit_digit_char [simp]: "d < 10 \<Longrightarrow> char_digit (digit_char d) = int d"
  by (simp only: char_digit_nat of_char_digit_char)

lemma char_digit_zero [simp]: "char_digit (CHR ''0'') = 0"
  by (simp add: char_digit_def)

lemma char_digit_bounds: "isdigit c \<Longrightarrow> 0 \<le> char_digit c \<and> char_digit c \<le> 9"
  unfolding char_digit_nat isdigit_iff by linarith

lemma digit_not_other [simp]:
  "isdigit c \<Longrightarrow> \<not> isspace c" "isdigit c \<Longrightarrow> c \<noteq> CHR ''.''" "isdigit c \<Longrightarrow> c \<noteq> CHR ''-''"
  "isdigit c \<Longrightarrow> c \<noteq> CHR ''+''"
  by (auto simp: isdigit_iff isspace_def)

lemma digits_value_Nil [simp]: "digits_value [] = 0"
  by (simp add: digits_value_def)

lemma digits_value_snoc [simp]: "digits_value (s @ [c]) = digits_value s * 10 + char_digit c"
  by (simp add: digits_value_def)

lemma digits_value_Cons: "digits_value (c # s) = char_digit c * 10 ^ length s + digits_value s"
  by (induction s rule: rev_induct) (simp_all add: digits_value_snoc [of "c # _", simplified] digits_value_def algebra_simps)

lemma digits_value_zeros: "digits_value (replicate k (CHR ''0'') @ s) = digits_value s"
  by (induction k) (simp_all add: digits_value_Cons)

lemma show_digits_spec:
  "0 \<le> n \<Longrightarrow> list_all isdigit (show_digits n) \<and> digits_value (show_digits n) = n \<and> show_digits n \<noteq> []"
  by (induction n rule: show_digits.induct) (subst (1 2 3) show_digits.simps, auto simp: digits_value_def)

lemma show_digits_length: "0 \<le> n \<Longrightarrow> n < 10 ^ Suc k \<Longrightarrow> length (show_digits n) \<le> Suc k"
proof (induction n arbitrary: k rule: show_digits.induct)
  case (1 n)
  show ?case
  proof (cases "n < 10")
    case False
    then obtain j where j: "k = Suc j" using 1 by (cases k) auto
    have "n div 10 < 10 ^ Suc j" using 1(3) by (simp add: j)
    then show ?thesis using 1(1) [OF False, of j] 1(2) False j by (subst show_digits.simps) simp
  qed (subst show_digits.simps, simp)
qed

section \<open>The text of an amount reads back\<close>

lemma parse_frac_digits:
  "list_all isdigit fs \<Longrightarrow> length fs \<le> Suc j \<Longrightarrow>
   parse_frac fs (10 ^ j) u = (u + digits_value (fs @ replicate (Suc j - length fs) (CHR ''0'')), [])"
proof (induction fs arbitrary: j u)
  case Nil
  then show ?case using digits_value_zeros [of "Suc j" "[]"] by simp
next
  case (Cons c fs)
  then show ?case
  proof (cases j)
    case (Suc i)
    have "(10 ^ j :: int) sdiv 10 = 10 ^ i" by (simp add: Suc signed_divide_int_def)
    then show ?thesis using Cons Suc by (simp add: digits_value_Cons)
  qed (auto simp: digits_value_def)
qed

lemma parse_whole_digits:
  "list_all isdigit ws \<Longrightarrow>
   parse_whole (ws @ CHR ''.'' # p) acc =
     (case parse_frac p (CENT * 10) 0 of (nUnits, rest) \<Rightarrow> Some (acc @ ws, nUnits, rest))"
  by (induction ws arbitrary: acc) auto

lemma trim_zeros_spec:
  "list_all isdigit ds \<Longrightarrow> 2 \<le> length ds \<Longrightarrow>
   \<exists>k t. ds = replicate k (CHR ''0'') @ t \<and> trim_zeros (ds @ CHR ''.'' # rest) = t @ CHR ''.'' # rest"
proof (induction ds)
  case (Cons c ds)
  show ?case
  proof (cases "c = CHR ''0'' \<and> 2 \<le> length ds")
    case True
    then obtain c1 c2 s where ds: "ds = c1 # c2 # s"
      by (cases ds rule: remdups_adj.cases) auto
    obtain k t where "ds = replicate k (CHR ''0'') @ t" "trim_zeros (ds @ CHR ''.'' # rest) = t @ CHR ''.'' # rest"
      using Cons True by auto
    moreover have "trim_zeros (c # ds @ CHR ''.'' # rest) = trim_zeros (ds @ CHR ''.'' # rest)"
      using True Cons(2) by (simp add: ds)
    ultimately show ?thesis using True by (intro exI [of _ "Suc k"] exI [of _ t]) simp
  next
    case False
    then show ?thesis using Cons(2,3)
      by (intro exI [of _ 0] exI [of _ "c # ds"]) (cases ds rule: remdups_adj.cases; auto simp: isdigit_def)
  qed
qed simp

lemma atoi64_digits: "list_all isdigit s \<Longrightarrow> digits_value s < 2 ^ 63 \<Longrightarrow> atoi64 s = digits_value s"
proof -
  assume s: "list_all isdigit s" "digits_value s < 2 ^ 63"
  have "list_all isdigit u \<Longrightarrow> takeWhile isdigit u = u" for u
    by (induction u) auto
  then show ?thesis using s by (cases s) (auto simp: atoi64_def Let_def simp del: takeWhile_eq_all_conv)
qed

text \<open>The text that \<^verbatim>\<open>FormatMoney\<close> prints for an amount below ten billion coins is read back by
  \<^verbatim>\<open>ParseMoney\<close> as that amount, trimmed zeros and all.\<close>

theorem ParseMoney_FormatMoney:
  assumes "0 \<le> n" "n < 10 ^ 18"
  shows "ParseMoney (FormatMoney n False) = Some n"
proof -
  let ?q = "n div COIN" and ?r = "n mod COIN"
  let ?w = "show_digits ?q" and ?f = "printf_08d ?r"
  have q: "0 \<le> ?q" "?q < 10 ^ Suc 9" and r: "0 \<le> ?r" "?r < 10 ^ Suc 7"
    using assms by (simp_all add: COIN_def pos_imp_zdiv_nonneg_iff)
  have w: "list_all isdigit ?w" "digits_value ?w = ?q" "length ?w \<le> 10" "?w \<noteq> []"
    using show_digits_spec [OF q(1)] show_digits_length [OF q] by simp_all
  have f: "list_all isdigit ?f" "digits_value ?f = ?r" "length ?f = 8"
    using show_digits_spec [OF r(1)] show_digits_length [OF r] r(1)
    by (auto simp: printf_08d_def Let_def digits_value_zeros list_all_iff isdigit_iff)
  obtain k t where t: "rev ?f = replicate k (CHR ''0'') @ t"
    "trim_zeros (rev ?f @ CHR ''.'' # rev ?w) = t @ CHR ''.'' # rev ?w"
    using trim_zeros_spec [of "rev ?f" "rev ?w"] f by auto
  have ft: "?f = rev t @ replicate k (CHR ''0'')" using arg_cong [OF t(1), of rev] by simp
  then have lt: "length t + k = 8" "list_all isdigit (rev t)" using f(1,3) by simp_all
  have "n sdiv COIN = ?q" "n smod COIN = ?r" "(if n > 0 then n else wrap64 (- n)) = n"
    using assms by (cases "n = 0"; auto simp: COIN_def signed_divide_int_def signed_modulo_int_def in_int64_def)+
  then have "FormatMoney n False = ?w @ CHR ''.'' # rev t"
    using assms q(1) t(2) by (simp add: FormatMoney_def Let_def printf_d_def)
  moreover have "parse_frac (rev t) (CENT * 10) 0 = (?r, [])"
  proof -
    have "Suc 7 - length (rev t) = k" "length (rev t) \<le> Suc 7" "CENT * 10 = 10 ^ 7"
      using lt(1) by (simp_all add: CENT_def)
    then show ?thesis
      using parse_frac_digits [OF lt(2), of 7 0] f(2) by (simp only: ft [symmetric] add_0)
  qed
  moreover have "dropWhile isspace (?w @ CHR ''.'' # rev t) = ?w @ CHR ''.'' # rev t"
    using w(1,4) by (cases ?w) auto
  moreover have "atoi64 ?w = ?q" using atoi64_digits [OF w(1)] w(2) q by simp
  moreover have "wrap64 (?q * COIN) = ?q * COIN" "wrap64 (?q * COIN + ?r) = n"
    using assms q by (simp_all add: in_int64_def COIN_def)
  moreover have "\<not> ?r < 0" "\<not> ?r > COIN" using r by (simp_all add: COIN_def)
  ultimately show ?thesis
    using w by (simp add: ParseMoney_def parse_whole_digits)
qed

theorem ParseMoney_FormatMoney_witness:
  "ParseMoney (FormatMoney 1234567800 False) = Some 1234567800"
  using ParseMoney_FormatMoney [of 1234567800] by simp

end
