(* ===== verification/Tx_Checks.thy ===== *)
theory Tx_Checks
  imports Standard Coins_Cache Amount
begin

text \<open>
  The checks a transaction passes before it is relayed or put into a block
  (\<^verbatim>\<open>src/src/main.cpp\<close>): the context-free rules of \<^verbatim>\<open>CheckTransaction\<close> with the
  address filter, finality, the relay policy and the counting of signature operations,
  and the validation state through which they report (\<^verbatim>\<open>main.h\<close>).

  The parts of the node these functions read are the record \<open>node_env\<close>. A value
  \<open>None\<close> stands for a step that has no defined result: a failed assertion or an access
  outside a vector.
\<close>

section \<open>Parameters and validation state\<close>

record CChainParams =
  testnet :: bool
  MaxMoneyOut :: camount
  COINBASE_MATURITY :: int
  LAST_POW_BLOCK :: int
  MaxReorganizationDepth :: int

definition mainParams :: CChainParams where
  "mainParams = \<lparr>testnet = False, MaxMoneyOut = 25481245 * COIN, COINBASE_MATURITY = 40, LAST_POW_BLOCK = 200,
     MaxReorganizationDepth = 100\<rparr>"

definition testNetParams :: CChainParams where
  "testNetParams = mainParams\<lparr>testnet := True, MaxMoneyOut := 1000000000 * COIN, COINBASE_MATURITY := 15\<rparr>"

datatype mode_state = MODE_VALID | MODE_INVALID | MODE_ERROR

record CValidationState =
  mode :: mode_state
  nDoS :: int
  strRejectReason :: string
  chRejectCode :: byte
  corruptionPossible :: bool

definition CValidationState_new :: CValidationState where
  "CValidationState_new =
     \<lparr>mode = MODE_VALID, nDoS = 0, strRejectReason = '''', chRejectCode = 0, corruptionPossible = False\<rparr>"

text \<open>\<^verbatim>\<open>DoS\<close> returns its argument \<^verbatim>\<open>ret\<close>, which is false at every call of these files.\<close>

definition DoS :: "CValidationState \<Rightarrow> int \<Rightarrow> byte \<Rightarrow> string \<Rightarrow> bool \<Rightarrow> CValidationState" where
  "DoS st level chRejectCodeIn strRejectReasonIn corruptionIn =
     (let st' = st\<lparr>chRejectCode := chRejectCodeIn, strRejectReason := strRejectReasonIn,
                   corruptionPossible := corruptionIn\<rparr>
      in if mode st = MODE_ERROR then st' else st'\<lparr>nDoS := nDoS st + level, mode := MODE_INVALID\<rparr>)"

definition Invalid :: "CValidationState \<Rightarrow> byte \<Rightarrow> string \<Rightarrow> CValidationState" where
  "Invalid st chRejectCodeIn strRejectReasonIn = DoS st 0 chRejectCodeIn strRejectReasonIn False"

definition State_Error :: "CValidationState \<Rightarrow> string \<Rightarrow> CValidationState" where
  "State_Error st strRejectReasonIn =
     (if mode st = MODE_VALID then st\<lparr>strRejectReason := strRejectReasonIn, mode := MODE_ERROR\<rparr>
      else st\<lparr>mode := MODE_ERROR\<rparr>)"

definition REJECT_INVALID :: byte where "REJECT_INVALID = 0x10"
definition REJECT_NONSTANDARD :: byte where "REJECT_NONSTANDARD = 0x40"

definition MAX_BLOCK_SIZE :: nat where "MAX_BLOCK_SIZE = 2000000"
definition MAX_STANDARD_TX_SIZE :: nat where "MAX_STANDARD_TX_SIZE = 100000"
definition MAX_BLOCK_SIGOPS :: nat where "MAX_BLOCK_SIGOPS = MAX_BLOCK_SIZE div 50"
definition MAX_P2SH_SIGOPS :: nat where "MAX_P2SH_SIGOPS = 15"
definition LOCKTIME_THRESHOLD :: int where "LOCKTIME_THRESHOLD = 500000000"

record node_env =
  Params :: CChainParams
  chainHeight :: int
  AdjustedTime :: int
  InitialBlockDownload :: bool
  mapFilterAddress :: "(CTxDestination \<times> int) list"
  GetTransaction :: "uint256 \<Rightarrow> CTransaction option"
  env_Hash160 :: "bytes \<Rightarrow> bytes"

section \<open>Rules without context\<close>

definition MoneyRange :: "CChainParams \<Rightarrow> camount \<Rightarrow> bool" where
  "MoneyRange P nValueOut \<longleftrightarrow> nValueOut \<ge> 0 \<and> nValueOut \<le> MaxMoneyOut P"

text \<open>
  The address filter. The previous output is looked up by index without a range check;
  \<open>None\<close> is an index outside the outputs of the previous transaction.
\<close>

fun filter_dests :: "(CTxDestination \<times> int) list \<Rightarrow> int \<Rightarrow> CTxDestination list \<Rightarrow> bool" where
  "filter_dests m nBlockTime [] = True"
| "filter_dests m nBlockTime (txDest # vDest) =
     (case map_of m txDest of
        Some t \<Rightarrow> if nBlockTime = 0 \<or> nBlockTime > t then False else filter_dests m nBlockTime vDest
      | None \<Rightarrow> filter_dests m nBlockTime vDest)"

fun filter_loop :: "node_env \<Rightarrow> int \<Rightarrow> CTxIn list \<Rightarrow> bool option" where
  "filter_loop env nBlockTime [] = Some True"
| "filter_loop env nBlockTime (txin # txins) =
     (case GetTransaction env (outpoint_hash (prevout txin)) of
        None \<Rightarrow> filter_loop env nBlockTime txins
      | Some prevoutTx \<Rightarrow>
          if length (vout prevoutTx) \<le> unat (outpoint_n (prevout txin)) then None
          else
            (case ExtractDestinations (env_Hash160 env) (scriptPubKey (vout prevoutTx ! unat (outpoint_n (prevout txin)))) of
               None \<Rightarrow> filter_loop env nBlockTime txins
             | Some (txType, vDest, nRequired) \<Rightarrow>
                 if \<not> filter_dests (mapFilterAddress env) nBlockTime vDest then Some False
                 else filter_loop env nBlockTime txins))"

definition CheckTxFilter :: "node_env \<Rightarrow> CTransaction \<Rightarrow> int \<Rightarrow> bool option" where
  "CheckTxFilter env tx nBlockTime =
     (if nBlockTime \<noteq> 0 \<and> nBlockTime < AdjustedTime env - 24 * 60 * 60 then Some True
      else if mapFilterAddress env \<noteq> [] then filter_loop env nBlockTime (vin tx)
      else Some True)"

text \<open>The loop over the outputs: the rejection it reports, if any.\<close>

fun check_outs :: "CChainParams \<Rightarrow> CTransaction \<Rightarrow> camount \<Rightarrow> CTxOut list \<Rightarrow> (int \<times> byte \<times> string) option" where
  "check_outs P tx nValueOut [] = None"
| "check_outs P tx nValueOut (txout # txouts) =
     (if CTxOut_IsEmpty txout \<and> \<not> IsCoinBase tx \<and> \<not> IsCoinStake tx then Some (100, 0, '''')
      else if nValue txout < 0 then Some (100, REJECT_INVALID, ''bad-txns-vout-negative'')
      else if nValue txout > MaxMoneyOut P then Some (100, REJECT_INVALID, ''bad-txns-vout-toolarge'')
      else let nValueOut' = wrap64 (nValueOut + nValue txout) in
        if \<not> MoneyRange P nValueOut' then Some (100, REJECT_INVALID, ''bad-txns-txouttotal-toolarge'')
        else check_outs P tx nValueOut' txouts)"

fun check_dups :: "COutPoint list \<Rightarrow> CTxIn list \<Rightarrow> bool" where
  "check_dups vInOutPoints [] = True"
| "check_dups vInOutPoints (txin # txins) =
     (if prevout txin \<in> set vInOutPoints then False else check_dups (prevout txin # vInOutPoints) txins)"

definition CheckTransaction ::
  "node_env \<Rightarrow> CTransaction \<Rightarrow> CValidationState \<Rightarrow> int \<Rightarrow> (bool \<times> CValidationState) option" where
  "CheckTransaction env tx st nBlockTime =
     (if vin tx = [] then Some (False, DoS st 10 REJECT_INVALID ''bad-txns-vin-empty'' False)
      else if vout tx = [] then Some (False, DoS st 10 REJECT_INVALID ''bad-txns-vout-empty'' False)
      else if GetSerializeSize tx > MAX_BLOCK_SIZE then Some (False, DoS st 100 REJECT_INVALID ''bad-txns-oversize'' False)
      else case check_outs (Params env) tx 0 (vout tx) of
        Some (level, code, reason) \<Rightarrow> Some (False, DoS st level code reason False)
      | None \<Rightarrow>
          if \<not> check_dups [] (vin tx) then Some (False, DoS st 100 REJECT_INVALID ''bad-txns-inputs-duplicate'' False)
          else if IsCoinBase tx \<and> (length (scriptSig (vin tx ! 0)) < 2 \<or> length (scriptSig (vin tx ! 0)) > 150)
          then Some (False, DoS st 100 REJECT_INVALID ''bad-cb-length'' False)
          else if \<not> IsCoinBase tx \<and> list_ex (\<lambda>txin. COutPoint_IsNull (prevout txin)) (vin tx)
          then Some (False, DoS st 10 REJECT_INVALID ''bad-txns-prevout-null'' False)
          else if \<not> InitialBlockDownload env then
            (case CheckTxFilter env tx nBlockTime of
               None \<Rightarrow> None
             | Some True \<Rightarrow> Some (True, st)
             | Some False \<Rightarrow> Some (False, DoS st 100 REJECT_INVALID ''filtered-address'' False))
          else Some (True, st))"

section \<open>Finality\<close>

definition IsFinalTx :: "node_env \<Rightarrow> CTransaction \<Rightarrow> int \<Rightarrow> int \<Rightarrow> bool" where
  "IsFinalTx env tx nBlockHeight nBlockTime =
     (if nLockTime tx = 0 then True
      else let nBlockHeight' = (if nBlockHeight = 0 then chainHeight env else nBlockHeight);
               nBlockTime' = (if nBlockTime = 0 then AdjustedTime env else nBlockTime);
               lock = uint (nLockTime tx)
           in if lock < (if lock < LOCKTIME_THRESHOLD then nBlockHeight' else nBlockTime') then True
              else list_all CTxIn_IsFinal (vin tx))"

text \<open>
  \<^verbatim>\<open>CheckFinalTx\<close> asks whether a transaction can go into the next block; bit 1 of the flags
  selects the median time of the tip, the parameter \<open>medianTimePast\<close>.
\<close>

definition LOCKTIME_MEDIAN_TIME_PAST :: int where "LOCKTIME_MEDIAN_TIME_PAST = 2"

definition CheckFinalTx :: "node_env \<Rightarrow> int \<Rightarrow> CTransaction \<Rightarrow> int \<Rightarrow> bool" where
  "CheckFinalTx env medianTimePast tx fl =
     (let fl' = max fl 0;
          nBlockTime = (if fl' AND LOCKTIME_MEDIAN_TIME_PAST \<noteq> 0 then medianTimePast else AdjustedTime env)
      in IsFinalTx env tx (chainHeight env + 1) nBlockTime)"

section \<open>Relay policy\<close>

text \<open>The settings the policy reads: \<^verbatim>\<open>-datacarrier\<close>, its size limit, \<^verbatim>\<open>-permitbaremultisig\<close>
  and the relay fee, with the protocol version in force for \<^verbatim>\<open>CFeeRate::GetFee\<close>.\<close>

record relay_policy =
  datacarrier :: bool
  nMaxDatacarrierBytes :: nat
  fIsBareMultisigStd :: bool
  minRelayTxFee :: CFeeRate
  ActiveProtocol :: int

definition IsDust :: "int \<Rightarrow> CTxOut \<Rightarrow> CFeeRate \<Rightarrow> bool" where
  "IsDust activeProtocol txout relayFee \<longleftrightarrow>
     nValue txout < wrap64 (3 * GetFee activeProtocol relayFee (word_of_nat (length (SerializeTxOut txout)) + 148))"

fun standard_ins :: "CTxIn list \<Rightarrow> string option" where
  "standard_ins [] = None"
| "standard_ins (txin # txins) =
     (if length (scriptSig txin) > 1650 then Some ''scriptsig-size''
      else if \<not> IsPushOnly (scriptSig txin) then Some ''scriptsig-not-pushonly''
      else standard_ins txins)"

fun standard_outs :: "relay_policy \<Rightarrow> nat \<Rightarrow> CTxOut list \<Rightarrow> string + nat" where
  "standard_outs pol nDataOut [] = Inr nDataOut"
| "standard_outs pol nDataOut (txout # txouts) =
     (case IsStandard (datacarrier pol) (nMaxDatacarrierBytes pol) (scriptPubKey txout) of
        (False, whichType) \<Rightarrow> Inl ''scriptpubkey''
      | (True, whichType) \<Rightarrow>
          if whichType = TX_NULL_DATA then standard_outs pol (nDataOut + 1) txouts
          else if whichType = TX_MULTISIG \<and> \<not> fIsBareMultisigStd pol then Inl ''bare-multisig''
          else if IsDust (ActiveProtocol pol) txout (minRelayTxFee pol) then Inl ''dust''
          else standard_outs pol nDataOut txouts)"

text \<open>The reason why a transaction is not standard, \<open>None\<close> if it is.\<close>

definition IsStandardTx :: "node_env \<Rightarrow> relay_policy \<Rightarrow> CTransaction \<Rightarrow> string option" where
  "IsStandardTx env pol tx =
     (if sint (nVersion tx) > 1 \<or> sint (nVersion tx) < 1 then Some ''version''
      else if \<not> IsFinalTx env tx (chainHeight env + 1) 0 then Some ''non-final''
      else if GetSerializeSize tx \<ge> MAX_STANDARD_TX_SIZE then Some ''tx-size''
      else case standard_ins (vin tx) of
        Some reason \<Rightarrow> Some reason
      | None \<Rightarrow>
          (case standard_outs pol 0 (vout tx) of
             Inl reason \<Rightarrow> Some reason
           | Inr nDataOut \<Rightarrow> if nDataOut > 1 then Some ''multi-op-return'' else None))"

text \<open>
  \<^verbatim>\<open>AreInputsStandard\<close> on the previous outputs, with the checker that accepts no signature.
  \<open>Inl r\<close> is a \<^verbatim>\<open>return r\<close> out of the loop, \<open>Inr ()\<close> the next iteration.
\<close>

definition base_ctx :: "script_ctx \<Rightarrow> script_ctx" where
  "base_ctx ctx = ctx\<lparr>flags := SCRIPT_VERIFY_NONE, CheckSig := \<lambda>_ _ _. False\<rparr>"

definition input_standard :: "script_ctx \<Rightarrow> CTxIn \<Rightarrow> CTxOut \<Rightarrow> bool + unit" where
  "input_standard ctx txin prev =
     (case Solver (scriptPubKey prev) of (fRet, whichType, vSolutions) \<Rightarrow>
        if \<not> fRet then Inl False
        else let nArgsExpected = ScriptSigArgsExpected whichType vSolutions in
          if nArgsExpected < 0 then Inl False
          else case EvalScript (base_ctx ctx) [] (scriptSig txin) of
            Inl _ \<Rightarrow> Inl False
          | Inr stk \<Rightarrow>
              if whichType = TX_SCRIPTHASH then
                (case stk of
                   [] \<Rightarrow> Inl False
                 | subscript # _ \<Rightarrow>
                     (case Solver subscript of (fRet2, whichType2, vSolutions2) \<Rightarrow>
                        if fRet2 then
                          let tmpExpected = ScriptSigArgsExpected whichType2 vSolutions2 in
                          if tmpExpected < 0 then Inl False
                          else if int (length stk) \<noteq> nArgsExpected + tmpExpected then Inl False
                          else Inr ()
                        else Inl (GetSigOpCount subscript True \<le> MAX_P2SH_SIGOPS)))
              else if int (length stk) \<noteq> nArgsExpected then Inl False
              else Inr ())"

fun inputs_standard_loop ::
  "script_ctx \<Rightarrow> 'v CCoinsView \<Rightarrow> 'v CCoinsViewCache \<Rightarrow> CTxIn list \<Rightarrow> bool option \<times> 'v CCoinsViewCache" where
  "inputs_standard_loop ctx B c [] = (Some True, c)"
| "inputs_standard_loop ctx B c (txin # txins) =
     (case GetOutputFor B c txin of
        (None, c') \<Rightarrow> (None, c')
      | (Some prev, c') \<Rightarrow>
          (case input_standard ctx txin prev of
             Inl r \<Rightarrow> (Some r, c')
           | Inr _ \<Rightarrow> inputs_standard_loop ctx B c' txins))"

definition AreInputsStandard ::
  "script_ctx \<Rightarrow> 'v CCoinsView \<Rightarrow> CTransaction \<Rightarrow> 'v CCoinsViewCache \<Rightarrow> bool option \<times> 'v CCoinsViewCache" where
  "AreInputsStandard ctx B tx mapInputs =
     (if IsCoinBase tx then (Some True, mapInputs) else inputs_standard_loop ctx B mapInputs (vin tx))"

section \<open>Signature operations\<close>

text \<open>The counts are below the range of \<^verbatim>\<open>unsigned int\<close>: a script of \<open>n\<close> bytes counts at most \<open>20 n\<close>.\<close>

definition GetLegacySigOpCount :: "CTransaction \<Rightarrow> nat" where
  "GetLegacySigOpCount tx =
     sum_list (map (\<lambda>txin. GetSigOpCount (scriptSig txin) False) (vin tx)) +
     sum_list (map (\<lambda>txout. GetSigOpCount (scriptPubKey txout) False) (vout tx))"

fun p2sh_sigops_loop ::
  "'v CCoinsView \<Rightarrow> 'v CCoinsViewCache \<Rightarrow> CTxIn list \<Rightarrow> nat \<Rightarrow> nat option \<times> 'v CCoinsViewCache" where
  "p2sh_sigops_loop B c [] nSigOps = (Some nSigOps, c)"
| "p2sh_sigops_loop B c (txin # txins) nSigOps =
     (case GetOutputFor B c txin of
        (None, c') \<Rightarrow> (None, c')
      | (Some prevo, c') \<Rightarrow>
          p2sh_sigops_loop B c' txins
            (if IsPayToScriptHash (scriptPubKey prevo) then nSigOps + GetSigOpCount_P2SH (scriptPubKey prevo) (scriptSig txin)
             else nSigOps))"

definition GetP2SHSigOpCount ::
  "'v CCoinsView \<Rightarrow> CTransaction \<Rightarrow> 'v CCoinsViewCache \<Rightarrow> nat option \<times> 'v CCoinsViewCache" where
  "GetP2SHSigOpCount B tx inputs =
     (if IsCoinBase tx then (Some 0, inputs) else p2sh_sigops_loop B inputs (vin tx) 0)"

section \<open>Properties\<close>

definition out_ok :: "CTransaction \<Rightarrow> CTxOut \<Rightarrow> bool" where
  "out_ok tx out \<longleftrightarrow> 0 \<le> nValue out \<and> (IsCoinBase tx \<or> IsCoinStake tx \<or> \<not> CTxOut_IsEmpty out)"

text \<open>The rules a transaction must satisfy by itself.\<close>

definition well_formed_tx :: "camount \<Rightarrow> CTransaction \<Rightarrow> bool" where
  "well_formed_tx limit tx \<longleftrightarrow>
     vin tx \<noteq> [] \<and> vout tx \<noteq> [] \<and> GetSerializeSize tx \<le> MAX_BLOCK_SIZE \<and>
     list_all (out_ok tx) (vout tx) \<and>
     sum_list (map nValue (vout tx)) \<le> limit \<and>
     distinct (map prevout (vin tx)) \<and>
     (if IsCoinBase tx then length (scriptSig (vin tx ! 0)) \<in> {2..150}
      else list_all (\<lambda>i. \<not> COutPoint_IsNull (prevout i)) (vin tx))"

lemma sum_nonneg_outs: "list_all (out_ok tx) outs \<Longrightarrow> 0 \<le> sum_list (map nValue outs)"
  by (induction outs) (auto simp: out_ok_def)

lemma check_outs_None:
  assumes "0 \<le> acc" "acc \<le> MaxMoneyOut P" "MaxMoneyOut P < 2 ^ 62"
  shows "check_outs P tx acc outs = None \<longleftrightarrow>
    list_all (out_ok tx) outs \<and>
    acc + sum_list (map nValue outs) \<le> MaxMoneyOut P"
  using assms
proof (induction outs arbitrary: acc)
  case (Cons out outs)
  show ?case
  proof (cases "0 \<le> nValue out \<and> nValue out \<le> MaxMoneyOut P")
    case True
    then have w: "wrap64 (acc + nValue out) = acc + nValue out"
      using Cons.prems by (intro wrap64_id) (simp add: in_int64_def)
    show ?thesis
    proof (cases "acc + nValue out \<le> MaxMoneyOut P")
      case le: True
      have "0 \<le> acc + nValue out" using True Cons.prems by simp
      from Cons.IH [OF this le Cons.prems(3)] show ?thesis
        using True le w \<open>0 \<le> acc + nValue out\<close> by (auto simp: MoneyRange_def Let_def add.assoc out_ok_def [of tx out])
    next
      case False
      have "\<not> (list_all (out_ok tx) outs \<and>
          acc + (nValue out + sum_list (map nValue outs)) \<le> MaxMoneyOut P)"
        using False sum_nonneg_outs [of tx outs] by fastforce
      then show ?thesis using True False w by (auto simp: MoneyRange_def Let_def out_ok_def [of tx out])
    qed
  next
    case False
    have "\<not> (0 \<le> nValue out \<and> list_all (out_ok tx) outs \<and>
        acc + (nValue out + sum_list (map nValue outs)) \<le> MaxMoneyOut P)"
      using False Cons.prems(1) sum_nonneg_outs [of tx outs] by fastforce
    then show ?thesis using False by (auto simp: out_ok_def [of tx out])
  qed
qed simp

lemma check_dups_iff:
  "check_dups seen txins \<longleftrightarrow> distinct (map prevout txins) \<and> set (map prevout txins) \<inter> set seen = {}"
  by (induction txins arbitrary: seen) auto

lemma CheckTransaction_cases:
  assumes "0 \<le> MaxMoneyOut (Params env)" "MaxMoneyOut (Params env) < 2 ^ 62"
  shows "well_formed_tx (MaxMoneyOut (Params env)) tx \<Longrightarrow>
      CheckTransaction env tx st t =
        (if InitialBlockDownload env then Some (True, st)
         else case CheckTxFilter env tx t of
           None \<Rightarrow> None
         | Some True \<Rightarrow> Some (True, st)
         | Some False \<Rightarrow> Some (False, DoS st 100 REJECT_INVALID ''filtered-address'' False))"
    and "\<not> well_formed_tx (MaxMoneyOut (Params env)) tx \<Longrightarrow> \<exists>st'. CheckTransaction env tx st t = Some (False, st')"
proof -
  note outs = check_outs_None [of 0 "Params env" tx "vout tx", OF order.refl assms(1,2)]
  show "CheckTransaction env tx st t =
      (if InitialBlockDownload env then Some (True, st)
       else case CheckTxFilter env tx t of
         None \<Rightarrow> None
       | Some True \<Rightarrow> Some (True, st)
       | Some False \<Rightarrow> Some (False, DoS st 100 REJECT_INVALID ''filtered-address'' False))"
    if "well_formed_tx (MaxMoneyOut (Params env)) tx"
    using that outs by (simp add: well_formed_tx_def CheckTransaction_def check_dups_iff list_ex_iff list_all_iff)
      (auto simp: list_all_iff)
  show "\<exists>st'. CheckTransaction env tx st t = Some (False, st')"
    if "\<not> well_formed_tx (MaxMoneyOut (Params env)) tx"
  proof (cases "check_outs (Params env) tx 0 (vout tx)")
    case None
    then show ?thesis using that outs
      by (cases "IsCoinBase tx")
        (auto simp: well_formed_tx_def CheckTransaction_def check_dups_iff list_ex_iff list_all_iff not_le)
  next
    case (Some r)
    then show ?thesis by (cases r) (auto simp: CheckTransaction_def)
  qed
qed

lemma well_formed_value:
  assumes "well_formed_tx limit tx" "limit < 2 ^ 62"
  shows "GetValueOut tx = Inr (sum_list (map nValue (vout tx)))"
proof -
  have v: "list_all (out_ok tx) (vout tx)" "sum_list (map nValue (vout tx)) \<le> limit"
    using assms(1) by (simp_all add: well_formed_tx_def)
  have nn: "list_all (\<lambda>t. 0 \<le> nValue t) (vout tx)" using v(1) by (auto simp: list_all_iff out_ok_def)
  have "nValue t \<le> sum_list (map nValue (vout tx))" if "t \<in> set (vout tx)" for t
    using that nn by (intro member_le_sum_list) (auto simp: list_all_iff)
  then have "list_all (\<lambda>t. in_int64 (nValue t)) (vout tx)"
    using nn v(2) assms(2) by (fastforce simp: list_all_iff in_int64_def)
  then show ?thesis using GetValueOut_loop_eq [of 0 "vout tx"] nn v(2) assms(2)
    by (simp add: GetValueOut_def in_int64_def)
qed

lemma CheckTransaction_iff:
  assumes "0 \<le> MaxMoneyOut (Params env)" "MaxMoneyOut (Params env) < 2 ^ 62"
  shows "CheckTransaction env tx st t = Some (True, st') \<longleftrightarrow>
      st' = st \<and> well_formed_tx (MaxMoneyOut (Params env)) tx \<and>
      (InitialBlockDownload env \<or> CheckTxFilter env tx t = Some True)"
proof (cases "well_formed_tx (MaxMoneyOut (Params env)) tx")
  case True
  then show ?thesis using CheckTransaction_cases(1) [OF assms True, of st t]
    by (auto split: option.splits bool.splits if_splits)
next
  case False
  then show ?thesis using CheckTransaction_cases(2) [OF assms False, of st t] by auto
qed

text \<open>C16: \<^verbatim>\<open>CheckTransaction\<close> accepts exactly the well-formed transactions that pass the address
  filter or are checked in the initial download, when the filter is off, and leaves the validation state alone. The rules
  of form are those of the transaction alone; the filter is not, it reads the outputs that earlier
  transactions have at the inputs, and the state of the node. The outputs of a well-formed transaction have a true sum of at most
  the money limit, which is what \<^verbatim>\<open>GetValueOut\<close> computes. The limit is within \<open>[0, 2^62)\<close>.\<close>

theorem CheckTransaction_correct:
  assumes "0 \<le> MaxMoneyOut (Params env)" "MaxMoneyOut (Params env) < 2 ^ 62"
  shows "(CheckTransaction env tx st t = Some (True, st') \<longleftrightarrow>
      st' = st \<and> well_formed_tx (MaxMoneyOut (Params env)) tx \<and>
      (InitialBlockDownload env \<or> CheckTxFilter env tx t = Some True)) \<and>
    (if well_formed_tx (MaxMoneyOut (Params env)) tx
     then GetValueOut tx = Inr (sum_list (map nValue (vout tx))) \<and> MoneyRange (Params env) (sum_list (map nValue (vout tx)))
     else True)"
  using CheckTransaction_iff [OF assms, of tx st t st'] well_formed_value [OF _ assms(2), of tx] sum_nonneg_outs [of tx "vout tx"]
  by (auto simp: well_formed_tx_def MoneyRange_def)

text \<open>A node that filters one address, and knows one transaction with two outputs.\<close>

definition demo_env :: node_env where
  "demo_env = \<lparr>Params = mainParams, chainHeight = 1000, AdjustedTime = 2000000000, InitialBlockDownload = False,
     mapFilterAddress = [(CKeyID [1], 1545731364)], GetTransaction = [17 \<mapsto> demo_tx], env_Hash160 = id\<rparr>"

lemma demo_env_limit: "0 \<le> MaxMoneyOut (Params demo_env)" "MaxMoneyOut (Params demo_env) < 2 ^ 62"
  by (simp_all add: demo_env_def mainParams_def COIN_def)

lemma demo_tx_size: "GetSerializeSize demo_tx \<le> 200"
  by (simp add: GetSerializeSize_def SerializeTx_def demo_tx_def SerializeVec_def SerializeTxIn_def SerializeTxOut_def
      SerializeOutPoint_def SerializeAmount_def SerializeBytes_def SerializeString_def WriteCompactSize_def)

lemma demo_tx_well_formed: "well_formed_tx (MaxMoneyOut (Params demo_env)) demo_tx"
  using demo_tx_size
  by (simp add: well_formed_tx_def MAX_BLOCK_SIZE_def out_ok_def demo_tx_def demo_env_def mainParams_def COIN_def
      IsCoinBase_def COutPoint_IsNull_def CTxOut_IsEmpty_def)

lemma demo_tx_filter: "CheckTxFilter demo_env demo_tx 0 = Some True"
  by (simp add: CheckTxFilter_def demo_env_def demo_tx_def) code_simp

theorem CheckTransaction_correct_witness:
  "CheckTransaction demo_env demo_tx CValidationState_new 0 = Some (True, CValidationState_new) \<and>
    GetValueOut demo_tx = Inr 12"
  using CheckTransaction_correct [OF demo_env_limit, of demo_tx CValidationState_new 0 CValidationState_new]
    demo_tx_well_formed demo_tx_filter
  by (simp add: demo_tx_def)

text \<open>A well-formed transaction whose first input names an output that its known previous
  transaction does not have makes \<^verbatim>\<open>CheckTransaction\<close> read past the end of that transaction's
  outputs as soon as an address is filtered: the check has no defined result, although the
  transaction spends nothing and should be rejected.\<close>

theorem CheckTransaction_reads_past_end:
  assumes "0 \<le> MaxMoneyOut (Params env)" "MaxMoneyOut (Params env) < 2 ^ 62"
    and "\<not> InitialBlockDownload env" "mapFilterAddress env \<noteq> []"
    and "well_formed_tx (MaxMoneyOut (Params env)) tx"
    and "GetTransaction env (outpoint_hash (prevout (hd (vin tx)))) = Some prevTx"
    and "length (vout prevTx) \<le> unat (outpoint_n (prevout (hd (vin tx))))"
  shows "CheckTransaction env tx st 0 = None"
proof -
  obtain i ins where "vin tx = i # ins" using assms(5) by (cases "vin tx") (auto simp: well_formed_tx_def)
  then have "CheckTxFilter env tx 0 = None" using assms(4,6,7) by (simp add: CheckTxFilter_def)
  then show ?thesis using CheckTransaction_cases(1) [OF assms(1,2,5), of st 0] assms(3) by simp
qed

definition bad_index_tx :: CTransaction where
  "bad_index_tx = demo_tx\<lparr>vin := [\<lparr>prevout = \<lparr>outpoint_hash = 17, outpoint_n = 2\<rparr>, scriptSig = [OP_1], nSequence = 0\<rparr>]\<rparr>"

theorem CheckTransaction_reads_past_end_witness:
  "CheckTransaction demo_env bad_index_tx CValidationState_new 0 = None"
proof (rule CheckTransaction_reads_past_end [OF demo_env_limit, where prevTx = demo_tx])
  have "GetSerializeSize bad_index_tx \<le> 200"
    by (simp add: bad_index_tx_def GetSerializeSize_def SerializeTx_def demo_tx_def SerializeVec_def SerializeTxIn_def
        SerializeTxOut_def SerializeOutPoint_def SerializeAmount_def SerializeBytes_def SerializeString_def
        WriteCompactSize_def)
  then show "well_formed_tx (MaxMoneyOut (Params demo_env)) bad_index_tx"
    by (simp add: well_formed_tx_def MAX_BLOCK_SIZE_def out_ok_def bad_index_tx_def demo_tx_def demo_env_def mainParams_def
        COIN_def IsCoinBase_def COutPoint_IsNull_def CTxOut_IsEmpty_def)
qed (simp_all add: demo_env_def bad_index_tx_def demo_tx_def)

text \<open>Finality is stable: a transaction that is final for a block height and time stays final later.\<close>

lemma IsFinalTx_stable:
  assumes "IsFinalTx env tx h t" "0 < h" "0 < t" "h \<le> h'" "t \<le> t'"
  shows "IsFinalTx env tx h' t'"
  using assms by (auto simp: IsFinalTx_def Let_def split: if_splits)

text \<open>An input that spends a pay-to-script-hash output with a redeem script of no standard form ends
  \<^verbatim>\<open>AreInputsStandard\<close> with the verdict on that input alone: the inputs after it are not
  examined, whatever they are.\<close>

theorem AreInputsStandard_stops_early:
  assumes "GetOutputFor B c i = (Some prev, c')" "IsPayToScriptHash (scriptPubKey prev)"
    and "EvalScript (base_ctx ctx) [] (scriptSig i) = Inr (subscript # stk)" "\<not> fst (Solver subscript)"
    and "vin tx = i # ins" "\<not> IsCoinBase tx"
  shows "AreInputsStandard ctx B tx c = (Some (GetSigOpCount subscript True \<le> MAX_P2SH_SIGOPS), c')"
proof -
  have "Solver (scriptPubKey prev) = (True, TX_SCRIPTHASH, [take 20 (drop 2 (scriptPubKey prev))])"
    using assms(2) by (simp add: Solver_def)
  then have "input_standard ctx i prev = Inl (GetSigOpCount subscript True \<le> MAX_P2SH_SIGOPS)"
    using assms(3,4) by (auto simp: input_standard_def ScriptSigArgsExpected_def split: prod.splits)
  then show ?thesis using assms(1,5,6) by (simp add: AreInputsStandard_def)
qed

text \<open>A coin locked by a script hash, and a spend whose redeem script has no standard form, with a second
  input that refers to nothing.\<close>

definition p2sh_out :: CTxOut where
  "p2sh_out = \<lparr>nValue = 5, scriptPubKey = [OP_HASH160, 20] @ replicate 20 0 @ [OP_EQUAL]\<rparr>"

definition p2sh_cache :: "CCoinsViewDB CCoinsViewCache" where
  "p2sh_cache = make_cache \<lparr>db_coins = [7 \<mapsto> \<lparr>fCoinBase = False, fCoinStake = False, coins_vout = [p2sh_out],
     nHeight = 1, coins_nVersion = 1\<rparr>], db_best = None\<rparr>"

definition p2sh_in :: CTxIn where
  "p2sh_in = \<lparr>prevout = \<lparr>outpoint_hash = 7, outpoint_n = 0\<rparr>, scriptSig = [1, OP_1], nSequence = 0\<rparr>"

definition p2sh_tx :: CTransaction where
  "p2sh_tx = demo_tx\<lparr>vin := [p2sh_in, \<lparr>prevout = \<lparr>outpoint_hash = 8, outpoint_n = 0\<rparr>, scriptSig = [], nSequence = 0\<rparr>]\<rparr>"

lemma p2sh_eval: "EvalScript (base_ctx demo_ctx) [] [1, OP_1] = Inr [[OP_1]]"
  by code_simp

lemma p2sh_subscript: "\<not> fst (Solver [OP_1]) \<and> GetSigOpCount [OP_1] True \<le> MAX_P2SH_SIGOPS"
  by code_simp

theorem AreInputsStandard_stops_early_witness:
  "fst (AreInputsStandard demo_ctx db_ops p2sh_tx p2sh_cache) = Some True"
proof -
  have "fst (GetOutputFor db_ops p2sh_cache p2sh_in) = Some p2sh_out"
    by (simp add: GetOutputFor_def AccessCoins_def FetchCoins_def p2sh_cache_def p2sh_in_def make_cache_def db_ops_def
        DB_GetCoins_def IsAvailable_def p2sh_out_def CTxOut_IsNull_def Let_def)
  then obtain c' where c: "GetOutputFor db_ops p2sh_cache p2sh_in = (Some p2sh_out, c')"
    by (cases "GetOutputFor db_ops p2sh_cache p2sh_in") simp
  have h: "IsPayToScriptHash (scriptPubKey p2sh_out)"
    by (simp add: p2sh_out_def IsPayToScriptHash_def nth_append)
  have e: "EvalScript (base_ctx demo_ctx) [] (scriptSig p2sh_in) = Inr [[OP_1]]"
    using p2sh_eval by (simp add: p2sh_in_def)
  have "vin p2sh_tx = [p2sh_in, \<lparr>prevout = \<lparr>outpoint_hash = 8, outpoint_n = 0\<rparr>, scriptSig = [], nSequence = 0\<rparr>]"
    "\<not> IsCoinBase p2sh_tx" by (simp_all add: p2sh_tx_def IsCoinBase_def)
  from AreInputsStandard_stops_early [OF c h e _ this] p2sh_subscript show ?thesis by simp
qed

end
