(* ===== verification/Utxo_Update.thy ===== *)
theory Utxo_Update
  imports Coins_View Tx_Checks
begin

text \<open>
  How blocks change the coin view (\<^verbatim>\<open>src/src/main.cpp\<close>): \<^verbatim>\<open>UpdateCoins\<close> spends the
  inputs of a transaction, records undo data and adds its outputs; \<^verbatim>\<open>DisconnectBlock\<close> takes a
  block out of the view again with the undo data. A failed assertion and an access outside a
  vector are \<open>None\<close>.
\<close>

section \<open>Modifiers that return a value\<close>

text \<open>A use of a modifier whose body also returns a value, as \<^verbatim>\<open>ModifyCoins(h)->Spend(out, undo)\<close> does.\<close>

definition modify_with ::
  "'v CCoinsView \<Rightarrow> (CCoins \<Rightarrow> 'a \<times> CCoins) \<Rightarrow> 'v CCoinsViewCache \<Rightarrow> uint256 \<Rightarrow> ('a \<times> 'v CCoinsViewCache) option" where
  "modify_with B f c txid =
     Option.bind (ModifyCoins B c txid) (\<lambda>c'.
       case map_of (cacheCoins c') txid of
         None \<Rightarrow> None
       | Some e \<Rightarrow>
           map_option (Pair (fst (f (coins e)))) (CCoinsModifier_destroy txid (modify_entry (\<lambda>co. snd (f co)) txid c')))"

section \<open>UpdateCoins\<close>

record CTxUndo =
  vprevout :: "CTxInUndo list"

definition spend_entry :: "COutPoint \<Rightarrow> CCoins \<Rightarrow> CTxInUndo option \<times> CCoins" where
  "spend_entry out co = (case Spend co out of None \<Rightarrow> (None, co) | Some (co', undo) \<Rightarrow> (Some undo, co'))"

fun spend_inputs ::
  "'v CCoinsView \<Rightarrow> 'v CCoinsViewCache \<Rightarrow> CTxIn list \<Rightarrow> CTxInUndo list \<Rightarrow> (CTxInUndo list \<times> 'v CCoinsViewCache) option" where
  "spend_inputs B c [] undos = Some (undos, c)"
| "spend_inputs B c (txin # txins) undos =
     (case modify_with B (spend_entry (prevout txin)) c (outpoint_hash (prevout txin)) of
        None \<Rightarrow> None
      | Some (None, c') \<Rightarrow> None
      | Some (Some undo, c') \<Rightarrow> spend_inputs B c' txins (undos @ [undo]))"

definition UpdateCoins ::
  "(bytes \<Rightarrow> uint256) \<Rightarrow> 'v CCoinsView \<Rightarrow> CTransaction \<Rightarrow> 'v CCoinsViewCache \<Rightarrow> CTxUndo \<Rightarrow> int \<Rightarrow>
   (CTxUndo \<times> 'v CCoinsViewCache) option" where
  "UpdateCoins Hash B tx inputs txundo nHeightIn =
     Option.bind
       (if \<not> IsCoinBase tx
        then map_option (\<lambda>(us, c). (txundo\<lparr>vprevout := us\<rparr>, c)) (spend_inputs B inputs (vin tx) (vprevout txundo))
        else Some (txundo, inputs))
       (\<lambda>(txundo', c). map_option (Pair txundo') (with_coins B (\<lambda>_. FromTx tx nHeightIn) c (GetHash Hash tx)))"

text \<open>The loop of \<^verbatim>\<open>ConnectBlock\<close> over \<^verbatim>\<open>UpdateCoins\<close>: the undo data of the first transaction are dropped.\<close>

fun update_block ::
  "(bytes \<Rightarrow> uint256) \<Rightarrow> 'v CCoinsView \<Rightarrow> CTransaction list \<Rightarrow> 'v CCoinsViewCache \<Rightarrow> int \<Rightarrow>
   (CTxUndo list \<times> 'v CCoinsViewCache) option" where
  "update_block Hash B [] c h = Some ([], c)"
| "update_block Hash B (tx # txs) c h =
     Option.bind (UpdateCoins Hash B tx c \<lparr>vprevout = []\<rparr> h) (\<lambda>(u, c').
       map_option (\<lambda>(us, c''). (u # us, c'')) (update_block Hash B txs c' h))"

section \<open>DisconnectBlock\<close>

text \<open>The removal of the outputs of a transaction, with the comparison that decides \<^verbatim>\<open>fClean\<close>.\<close>

definition clear_outs :: "CTransaction \<Rightarrow> int \<Rightarrow> CCoins \<Rightarrow> bool \<times> CCoins" where
  "clear_outs tx nHeightIn co =
     (let outs = ClearUnspendable co;
          outsBlock = FromTx tx nHeightIn;
          outs' = (if coins_nVersion outsBlock < 0 then outs\<lparr>coins_nVersion := coins_nVersion outsBlock\<rparr> else outs)
      in (CCoins_eq outs' outsBlock, CCoins_empty))"

text \<open>
  The restoration of one input. The size test \<^verbatim>\<open>vout.size() < out.n + 1\<close> is in 32-bit unsigned
  arithmetic; the value is \<open>None\<close> when the following store is outside the vector.
\<close>

definition restore_entry :: "COutPoint \<Rightarrow> CTxInUndo \<Rightarrow> CCoins \<Rightarrow> bool option \<times> CCoins" where
  "restore_entry out undo co =
     (let (clean1, co1) =
            (if undo_nHeight undo \<noteq> 0
             then (IsPruned co, CCoins_empty\<lparr>fCoinBase := undo_fCoinBase undo, nHeight := sint (undo_nHeight undo),
                                 coins_nVersion := undo_nVersion undo\<rparr>)
             else (\<not> IsPruned co, co));
          clean2 = (clean1 \<and> \<not> IsAvailable co1 (outpoint_n out));
          n1 = unat (outpoint_n out + 1);
          vout1 = (if length (coins_vout co1) < n1
                   then coins_vout co1 @ replicate (n1 - length (coins_vout co1)) CTxOut_null else coins_vout co1)
      in if unat (outpoint_n out) < length vout1
         then (Some clean2, co1\<lparr>coins_vout := vout1[unat (outpoint_n out) := undo_txout undo]\<rparr>)
         else (None, co1))"

text \<open>The inputs are restored from the last to the first; the lists here are already reversed.\<close>

fun restore_inputs ::
  "'v CCoinsView \<Rightarrow> 'v CCoinsViewCache \<Rightarrow> (CTxIn \<times> CTxInUndo) list \<Rightarrow> bool \<Rightarrow> (COutPoint \<rightharpoonup> int) \<Rightarrow>
   (bool \<times> (COutPoint \<rightharpoonup> int) \<times> 'v CCoinsViewCache) option" where
  "restore_inputs B c [] fClean mapStakeSpent = Some (fClean, mapStakeSpent, c)"
| "restore_inputs B c ((txin, undo) # rest) fClean mapStakeSpent =
     (case modify_with B (restore_entry (prevout txin) undo) c (outpoint_hash (prevout txin)) of
        None \<Rightarrow> None
      | Some (None, c') \<Rightarrow> None
      | Some (Some clean, c') \<Rightarrow>
          restore_inputs B c' rest (fClean \<and> clean) (mapStakeSpent(prevout txin := None)))"

text \<open>One iteration; \<open>Inl\<close> is the early return on inconsistent undo data. Only the first transaction has no
  undo data; if it were not a coinbase, \<^verbatim>\<open>vtxundo[i - 1]\<close> would be outside the vector.\<close>

definition disconnect_tx ::
  "(bytes \<Rightarrow> uint256) \<Rightarrow> 'v CCoinsView \<Rightarrow> int \<Rightarrow> CTransaction \<times> CTxUndo option \<Rightarrow>
   bool \<times> (COutPoint \<rightharpoonup> int) \<times> 'v CCoinsViewCache \<Rightarrow>
   ((COutPoint \<rightharpoonup> int) \<times> 'v CCoinsViewCache + bool \<times> (COutPoint \<rightharpoonup> int) \<times> 'v CCoinsViewCache) option" where
  "disconnect_tx Hash B h txu s =
     (case (txu, s) of ((tx, undo), (fClean, mapStakeSpent, c)) \<Rightarrow>
        (case modify_with B (clear_outs tx h) c (GetHash Hash tx) of
           None \<Rightarrow> None
         | Some (clean, c') \<Rightarrow>
             let fClean' = (fClean \<and> clean) in
             if \<not> IsCoinBase tx then
               (case undo of
                  None \<Rightarrow> None
                | Some txundo \<Rightarrow>
                    if length (vprevout txundo) \<noteq> length (vin tx) then Some (Inl (mapStakeSpent, c'))
                    else map_option Inr (restore_inputs B c' (rev (zip (vin tx) (vprevout txundo))) fClean' mapStakeSpent))
             else Some (Inr (fClean', mapStakeSpent, c'))))"

fun disconnect_loop ::
  "(bytes \<Rightarrow> uint256) \<Rightarrow> 'v CCoinsView \<Rightarrow> int \<Rightarrow> (CTransaction \<times> CTxUndo option) list \<Rightarrow>
   bool \<times> (COutPoint \<rightharpoonup> int) \<times> 'v CCoinsViewCache \<Rightarrow>
   ((COutPoint \<rightharpoonup> int) \<times> 'v CCoinsViewCache + bool \<times> (COutPoint \<rightharpoonup> int) \<times> 'v CCoinsViewCache) option" where
  "disconnect_loop Hash B h [] s = Some (Inr s)"
| "disconnect_loop Hash B h (txu # txus) s =
     (case disconnect_tx Hash B h txu s of
        None \<Rightarrow> None
      | Some (Inl r) \<Rightarrow> Some (Inl r)
      | Some (Inr s') \<Rightarrow> disconnect_loop Hash B h txus s')"

text \<open>
  The whole function. \<open>pindex\<close> gives the hash of the block, of its predecessor and its
  height; \<open>blockUndo\<close> is the result of reading the undo file, \<open>None\<close> if there are no data or
  they cannot be read. A block has at least one transaction; \<^verbatim>\<open>vtxundo[i - 1]\<close> belongs to
  transaction \<open>i\<close> and the first transaction has none. The result has the return value, the
  value stored through \<^verbatim>\<open>pfClean\<close>, the map of spent stakes and the view. Resetting the address
  filter does not touch these.
\<close>

record disconnect_index =
  pindex_hash :: uint256
  pprev_hash :: uint256
  pindex_nHeight :: int

definition DisconnectBlock ::
  "(bytes \<Rightarrow> uint256) \<Rightarrow> 'v CCoinsView \<Rightarrow> CTransaction list \<Rightarrow> disconnect_index \<Rightarrow> CTxUndo list option \<Rightarrow>
   (COutPoint \<rightharpoonup> int) \<Rightarrow> 'v CCoinsViewCache \<Rightarrow> bool \<Rightarrow>
   (bool \<times> bool \<times> (COutPoint \<rightharpoonup> int) \<times> 'v CCoinsViewCache) option" where
  "DisconnectBlock Hash B vtx pindex blockUndo mapStakeSpent view havePfClean =
     (case GetBestBlock B view of (bestBlock, view1) \<Rightarrow>
        if pindex_hash pindex \<noteq> bestBlock then None
        else case blockUndo of
          None \<Rightarrow> Some (False, False, mapStakeSpent, view1)
        | Some vtxundo \<Rightarrow>
            if length vtxundo + 1 \<noteq> length vtx then Some (False, False, mapStakeSpent, view1)
            else case disconnect_loop Hash B (pindex_nHeight pindex)
                   (rev (zip vtx (None # map Some vtxundo))) (True, mapStakeSpent, view1) of
              None \<Rightarrow> None
            | Some (Inl (m, view2)) \<Rightarrow> Some (False, False, m, view2)
            | Some (Inr (fClean, m, view2)) \<Rightarrow>
                Some (if havePfClean then True else fClean, fClean, m, SetBestBlock view2 (pprev_hash pindex)))"

end
