(* ===== verification/Utxo_Undo.thy ===== *)
theory Utxo_Undo
  imports Utxo_Update
begin

text \<open>
  What the coin updates of a block do to the coins a view shows, and that disconnecting a block
  undoes them. The lemmas are proved once for every view that satisfies the contract
  \<open>coins_reader\<close> and used for the block view over the tip.
\<close>

section \<open>Undo data\<close>

text \<open>
  The records from which undo data restore everything but a coinstake mark: no spent output at the end, spent
  outputs in normal form, a positive height.
\<close>

definition normal_outs :: "CTxOut list \<Rightarrow> bool" where
  "normal_outs os \<longleftrightarrow> os \<noteq> [] \<and> \<not> CTxOut_IsNull (last os) \<and> list_all (\<lambda>t. CTxOut_IsNull t \<longrightarrow> t = CTxOut_null) os"

definition restorable :: "CCoins \<Rightarrow> bool" where
  "restorable x \<longleftrightarrow> normal_outs (coins_vout x) \<and> length (coins_vout x) < 2 ^ 32 \<and> 0 < nHeight x \<and> nHeight x < 2 ^ 31"

definition pad_outs :: "nat \<Rightarrow> CTxOut list \<Rightarrow> CTxOut list" where
  "pad_outs k os = (if length os < k then os @ replicate (k - length os) CTxOut_null else os)"

lemma IsNull_null [simp]: "CTxOut_IsNull CTxOut_null"
  by (simp add: CTxOut_IsNull_def CTxOut_null_def)

lemma all_null_replicate:
  "list_all CTxOut_IsNull zs \<Longrightarrow> list_all (\<lambda>t. CTxOut_IsNull t \<longrightarrow> t = CTxOut_null) zs \<Longrightarrow> zs = replicate (length zs) CTxOut_null"
  by (induction zs) auto

lemma normal_outs_update:
  assumes "normal_outs xs" "n < length xs"
  shows "list_all (\<lambda>t. CTxOut_IsNull t \<longrightarrow> t = CTxOut_null) (xs[n := CTxOut_null])"
  using assms by (auto simp: normal_outs_def list_all_iff dest!: subsetD [OF set_update_subset_insert])

lemma pad_drop_null:
  assumes "normal_outs xs" "n < length xs" "\<not> CTxOut_IsNull (xs ! n)"
  shows "(pad_outs (Suc n) (drop_null (xs[n := CTxOut_null])))[n := xs ! n] = xs"
proof -
  let ?os = "xs[n := CTxOut_null]"
  obtain zs where zs: "?os = drop_null ?os @ zs" "list_all CTxOut_IsNull zs" using drop_null_split by blast
  show ?thesis
  proof (cases "n = length xs - 1")
    case False
    have xs: "xs \<noteq> []" using assms(2) by auto
    then have "last ?os = last xs" "?os \<noteq> []" using False by (simp_all add: last_list_update [OF xs])
    then have "drop_null ?os = ?os" using assms(1) by (intro drop_null_id) (auto simp: normal_outs_def)
    then show ?thesis using assms(2) by (simp add: pad_outs_def)
  next
    case True
    have nz: "zs = replicate (length zs) CTxOut_null"
      using zs normal_outs_update [OF assms(1,2)] by (intro all_null_replicate) (auto simp: list_all_iff, metis Un_iff set_append)
    have len: "length (drop_null ?os) + length zs = Suc n" using arg_cong [OF zs(1), of length] True assms(2) by simp
    have "pad_outs (Suc n) ys = ys @ zs" if "length ys + length zs = Suc n" for ys
    proof (cases "zs = []")
      case False
      then have "length ys < Suc n" "Suc n - length ys = length zs" using that by (cases zs; simp)+
      then show ?thesis using nz by (simp add: pad_outs_def)
    qed (use that in \<open>simp add: pad_outs_def\<close>)
    then have "pad_outs (Suc n) (drop_null ?os) = ?os" using len zs(1) by metis
    then show ?thesis using assms(2) by simp
  qed
qed

lemma IsPruned_drop_null: "IsPruned x \<longleftrightarrow> drop_null (coins_vout x) = []"
  by (auto simp: IsPruned_def drop_null_def list_all_iff dropWhile_eq_Nil_conv)

text \<open>Restoring right after spending gives the record back and finds nothing unclean; a record that was spent
  completely comes back without the mark of a coinstake, and a record without its mark stays so.\<close>

lemma restore_pad:
  assumes "unat (outpoint_n out) < 2 ^ 32 - 1" "clean1 \<longleftrightarrow> (if undo_nHeight u \<noteq> 0 then IsPruned co else \<not> IsPruned co)"
    and "co1 = (if undo_nHeight u \<noteq> 0 then CCoins_empty\<lparr>fCoinBase := undo_fCoinBase u, nHeight := sint (undo_nHeight u),
           coins_nVersion := undo_nVersion u\<rparr> else co)"
  shows "restore_entry out u co =
    (Some (clean1 \<and> \<not> IsAvailable co1 (outpoint_n out)),
     co1\<lparr>coins_vout := (pad_outs (Suc (unat (outpoint_n out))) (coins_vout co1))[unat (outpoint_n out) := undo_txout u]\<rparr>)"
proof -
  have "unat (outpoint_n out + 1) = Suc (unat (outpoint_n out))"
    using assms(1) by (simp add: unat_word_ariths)
  then show ?thesis using assms(2,3) by (auto simp: restore_entry_def Let_def pad_outs_def)
qed

lemma spend_restore:
  assumes "restorable x" "Spend x out = Some (x', u)"
  shows "IsPruned x' \<Longrightarrow> IsPruned y \<Longrightarrow> restore_entry out u y = (Some True, x\<lparr>fCoinStake := False\<rparr>)"
    and "\<not> IsPruned x' \<Longrightarrow> restore_entry out u (x'\<lparr>fCoinStake := b\<rparr>) = (Some True, x\<lparr>fCoinStake := b\<rparr>)"
    and "\<not> IsPruned x' \<Longrightarrow> restorable x' \<and> fCoinStake x' = fCoinStake x \<and> nHeight x' = nHeight x"
proof -
  let ?n = "unat (outpoint_n out)" and ?xs = "coins_vout x"
  let ?ys = "drop_null (?xs[?n := CTxOut_null])"
  have n: "?n < length ?xs" "\<not> CTxOut_IsNull (?xs ! ?n)" using assms(2) by (auto simp: Spend_def split: if_splits)
  have x': "x' = x\<lparr>coins_vout := ?ys\<rparr>" and ut: "undo_txout u = ?xs ! ?n"
    using assms(2) n by (auto simp: Spend_def Let_def Cleanup_def split: if_splits)
  have norm: "normal_outs ?xs" and lim: "?n < 2 ^ 32 - 1" and h: "0 < nHeight x" "nHeight x < 2 ^ 31"
    using assms(1) n(1) by (auto simp: restorable_def)
  have "drop_null ?ys = ?ys" using drop_null_last by (intro drop_null_id) blast
  then have pruned: "IsPruned x' \<longleftrightarrow> ?ys = []" by (simp add: IsPruned_drop_null x')
  have pad: "(pad_outs (Suc ?n) ?ys)[?n := ?xs ! ?n] = ?xs" by (rule pad_drop_null [OF norm n])
  show "restore_entry out u y = (Some True, x\<lparr>fCoinStake := False\<rparr>)" if p: "IsPruned x'" and y: "IsPruned y"
  proof -
    have e: "?ys = []" using p pruned by simp
    have u: "undo_nHeight u = word_of_int (nHeight x)" "undo_fCoinBase u = fCoinBase x" "undo_nVersion u = coins_nVersion x"
      using assms(2) n e by (auto simp: Spend_def Let_def Cleanup_def split: if_splits)
    have "sint (word_of_int (nHeight x) :: uint32) = nHeight x" using h by (simp add: sint_of_int32 in_int32_def)
    moreover have "(word_of_int (nHeight x) :: uint32) \<noteq> 0"
      using h by (metis calculation less_irrefl sint_0)
    ultimately show ?thesis
      using restore_pad [OF lim refl refl, of u y] y u pad e by (simp add: ut CCoins_empty_def IsAvailable_def)
  qed
  assume p: "\<not> IsPruned x'"
  then have e: "?ys \<noteq> []" using pruned by simp
  let ?z = "x'\<lparr>fCoinStake := b\<rparr>"
  have u: "undo_nHeight u = 0" using assms(2) n e by (auto simp: Spend_def Let_def Cleanup_def split: if_splits)
  have "\<not> IsAvailable x' (outpoint_n out)"
    using n by (simp add: IsAvailable_avail x' avail_update)
  then have "\<not> IsAvailable ?z (outpoint_n out)" "\<not> IsPruned ?z" using p by (simp_all add: IsAvailable_def IsPruned_def)
  then show "restore_entry out u ?z = (Some True, x\<lparr>fCoinStake := b\<rparr>)"
    using restore_pad [OF lim refl refl, of u ?z] u pad by (simp add: ut x')
  have "set ?ys \<subseteq> set (?xs[?n := CTxOut_null])"
    using drop_null_split [of "?xs[?n := CTxOut_null]"] by (metis Un_upper1 set_append)
  then have "list_all (\<lambda>t. CTxOut_IsNull t \<longrightarrow> t = CTxOut_null) ?ys"
    using normal_outs_update [OF norm n(1)] by (auto simp: list_all_iff)
  moreover have "length ?ys \<le> length ?xs"
    using drop_null_split [of "?xs[?n := CTxOut_null]"] by (metis length_append length_list_update le_add1)
  ultimately show "restorable x' \<and> fCoinStake x' = fCoinStake x \<and> nHeight x' = nHeight x"
    using assms(1) e drop_null_last [OF e] by (simp add: restorable_def normal_outs_def x')
qed

text \<open>Two contents that differ only in that records of \<open>S\<close> in the first one have lost their coinstake mark; the records
  of height \<open>h\<close> agree.\<close>

definition unmarked :: "uint256 set \<Rightarrow> int \<Rightarrow> (uint256 \<Rightarrow> CCoins option) \<Rightarrow> (uint256 \<Rightarrow> CCoins option) \<Rightarrow> bool" where
  "unmarked S h f g \<longleftrightarrow>
     (\<forall>t. f t = g t \<or>
       t \<in> S \<and> (\<exists>x. g t = Some x \<and> fCoinStake x \<and> nHeight x \<noteq> h \<and> f t = Some (x\<lparr>fCoinStake := False\<rparr>)))"

lemma unmarked_refl [simp]: "unmarked S h f f"
  by (simp add: unmarked_def)

lemma unmarked_upd: "unmarked S h f g \<Longrightarrow> unmarked S h (f(t := y)) (g(t := y))"
  by (simp add: unmarked_def)

lemma unmarked_stake:
  "unmarked S h f g \<Longrightarrow> t \<in> S \<Longrightarrow> fCoinStake x \<longrightarrow> nHeight x \<noteq> h \<Longrightarrow>
   unmarked S h (f(t := Some (x\<lparr>fCoinStake := False\<rparr>))) (g(t := Some x))"
  by (cases "fCoinStake x") (auto simp: unmarked_def)

text \<open>The effect of a transaction on the coins a view shows.\<close>

definition spend_out :: "(uint256 \<Rightarrow> CCoins option) \<Rightarrow> COutPoint \<Rightarrow> (uint256 \<Rightarrow> CCoins option)" where
  "spend_out f out = f(outpoint_hash out :=
     (case f (outpoint_hash out) of
        None \<Rightarrow> None
      | Some x \<Rightarrow> (case Spend x out of None \<Rightarrow> Some x | Some (x', _) \<Rightarrow> live (Some x'))))"

definition apply_tx ::
  "(bytes \<Rightarrow> uint256) \<Rightarrow> int \<Rightarrow> (uint256 \<Rightarrow> CCoins option) \<Rightarrow> CTransaction \<Rightarrow> (uint256 \<Rightarrow> CCoins option)" where
  "apply_tx Hash h f tx =
     (if IsCoinBase tx then f else foldl (\<lambda>g txin. spend_out g (prevout txin)) f (vin tx))
       (GetHash Hash tx := live (Some (FromTx tx h)))"

text \<open>The spent records can be restored, and no coinstake is spent at its own height; a transaction does not recreate
  one that is still unspent.\<close>

definition inputs_restorable :: "int \<Rightarrow> (uint256 \<Rightarrow> CCoins option) \<Rightarrow> CTxIn list \<Rightarrow> bool" where
  "inputs_restorable h f txins \<longleftrightarrow>
     list_all (\<lambda>i. case f (outpoint_hash (prevout i)) of None \<Rightarrow> True
       | Some x \<Rightarrow> restorable x \<and> (if fCoinStake x then nHeight x \<noteq> h else True)) txins"

fun block_undoable ::
  "(bytes \<Rightarrow> uint256) \<Rightarrow> int \<Rightarrow> (uint256 \<Rightarrow> CCoins option) \<Rightarrow> CTransaction list \<Rightarrow> bool" where
  "block_undoable Hash h f [] \<longleftrightarrow> True"
| "block_undoable Hash h f (tx # txs) \<longleftrightarrow>
     f (GetHash Hash tx) = None \<and> (IsCoinBase tx \<or> inputs_restorable h f (vin tx)) \<and>
     block_undoable Hash h (apply_tx Hash h f tx) txs"

lemma Cleanup_idem [simp]: "Cleanup (Cleanup x) = Cleanup x"
proof -
  have "drop_null (drop_null os) = drop_null os" for os using drop_null_last by (intro drop_null_id) blast
  then show ?thesis by (simp add: Cleanup_def)
qed

lemma Cleanup_Spend: "Spend x out = Some (x', u) \<Longrightarrow> Cleanup x' = x'"
  by (auto simp: Spend_def Let_def split: if_splits)

lemma Cleanup_FromTx [simp]: "Cleanup (FromTx tx h) = FromTx tx h"
  by (simp add: FromTx_def ClearUnspendable_def)

lemma restorable_live: "restorable x \<Longrightarrow> Cleanup x = x \<and> live (Some x) = Some x"
  by (auto simp: restorable_def normal_outs_def Cleanup_def drop_null_id IsPruned_drop_null live_def)

lemma restorable_stake [simp]: "restorable (x\<lparr>fCoinStake := b\<rparr>) = restorable x"
  by (simp add: restorable_def)

lemma Spend_live: "Spend x out = Some (x', u) \<Longrightarrow> live (Some x) = Some x"
  by (force simp: Spend_def live_def IsPruned_def list_all_length not_le split: if_splits)

lemma IsUnspendable_Nil: "\<not> IsUnspendable []"
  by (simp add: IsUnspendable_def)

lemma ClearUnspendable_FromTx: "ClearUnspendable (FromTx tx h) = FromTx tx h"
proof -
  define f where "f t = (if IsUnspendable (scriptPubKey t) then CTxOut_null else t)" for t
  have ff: "f (f t) = f t" for t by (simp add: f_def CTxOut_null_def IsUnspendable_Nil)
  have "map f (drop_null (map f os)) = drop_null (map f os)" for os
  proof (rule map_idI)
    fix t assume "t \<in> set (drop_null (map f os))"
    then have "t \<in> set (map f os)" using drop_null_split [of "map f os"] by (metis UnCI set_append)
    then show "f t = t" using ff by auto
  qed
  moreover have "drop_null (drop_null os) = drop_null os" for os using drop_null_last by (intro drop_null_id) blast
  ultimately show ?thesis by (simp add: FromTx_def ClearUnspendable_def Cleanup_def flip: f_def)
qed

lemma IsPruned_ClearUnspendable: "IsPruned x \<Longrightarrow> IsPruned (ClearUnspendable x)"
  unfolding ClearUnspendable_def IsPruned_Cleanup by (auto simp: IsPruned_def list_all_iff)

lemma clear_outs_clean: "live (Some x) = live (Some (FromTx tx h)) \<Longrightarrow> clear_outs tx h x = (True, CCoins_empty)"
proof (cases "IsPruned (FromTx tx h)")
  case True
  assume "live (Some x) = live (Some (FromTx tx h))"
  then have p: "IsPruned x" using True by simp
  have "IsPruned (ClearUnspendable x\<lparr>coins_nVersion := v\<rparr>)" for v
    using IsPruned_ClearUnspendable [OF p] by (simp add: IsPruned_def)
  then show ?thesis using True IsPruned_ClearUnspendable [OF p] by (simp add: clear_outs_def CCoins_eq_def Let_def)
next
  case False
  assume l: "live (Some x) = live (Some (FromTx tx h))"
  then have "x = FromTx tx h" using False by (auto simp: live_def split: if_splits)
  then show ?thesis by (simp add: clear_outs_def CCoins_eq_def Let_def ClearUnspendable_FromTx)
qed

text \<open>Spending one output leaves every other output as it was.\<close>

lemma Spend_other:
  assumes "Spend x out = Some (x', u)"
  shows "IsAvailable x' n \<longleftrightarrow> IsAvailable x n \<and> n \<noteq> outpoint_n out"
    and "IsAvailable x' n \<Longrightarrow> coins_vout x' ! unat n = coins_vout x ! unat n"
proof -
  have at: "unspent_at x' (unat n) = (if n = outpoint_n out then None else unspent_at x (unat n))"
    by (simp add: Spend_Some(3) [OF assms] word_unat_eq_iff)
  show av: "IsAvailable x' n \<longleftrightarrow> IsAvailable x n \<and> n \<noteq> outpoint_n out"
    using at by (auto simp: unspent_at_def IsAvailable_avail split: if_splits)
  show "IsAvailable x' n \<Longrightarrow> coins_vout x' ! unat n = coins_vout x ! unat n"
    using at av by (auto simp: unspent_at_def IsAvailable_avail split: if_splits)
qed

lemma content_out_spend:
  assumes "f (outpoint_hash out) = Some x" "Spend x out = Some (x', u)"
  shows "content_out (f(outpoint_hash out := live (Some x'))) p = (if p = out then None else content_out f p)"
proof (cases "outpoint_hash p = outpoint_hash out")
  case True
  have "p = out \<longleftrightarrow> outpoint_n p = outpoint_n out" using True by (cases p; cases out) simp
  moreover have "IsPruned x' \<Longrightarrow> \<not> IsAvailable x' n" for n
    by (simp add: IsAvailable_avail IsPruned_avail)
  ultimately show ?thesis
    using True assms(1) Spend_other [OF assms(2), of "outpoint_n p"]
    by (cases "IsPruned x'") (auto simp: content_out_def)
next
  case False
  then have "p \<noteq> out" by auto
  then show ?thesis using False by (simp add: content_out_def)
qed

lemma Spend_None: "Spend x out = None \<longleftrightarrow> \<not> IsAvailable x (outpoint_n out)"
  by (auto simp: Spend_def IsAvailable_def Let_def)

lemma Spend_iff_content:
  assumes "live (Some x) = f (outpoint_hash out)"
  shows "Spend x out \<noteq> None \<longleftrightarrow> content_out f out \<noteq> None"
proof (cases "IsPruned x")
  case True
  then show ?thesis using assms by (simp add: content_out_def Spend_None IsAvailable_avail IsPruned_avail)
next
  case False
  then have "f (outpoint_hash out) = Some x" using assms by simp
  then show ?thesis by (simp add: content_out_def Spend_None)
qed

lemma restore_inputs_append:
  "restore_inputs B c (xs @ ys) cl m =
    Option.bind (restore_inputs B c xs cl m) (\<lambda>(cl', m', c'). restore_inputs B c' ys cl' m')"
  by (induction xs arbitrary: c cl m) (auto split: option.splits prod.splits)

section \<open>Transactions and blocks on a view\<close>

context coins_reader
begin

lemma modify_with_spec:
  assumes "cok c"
  shows "\<exists>c' x. modify_with B f c txid = Some (fst (f x), c') \<and> cok c' \<and> cache_best best c' = cache_best best c \<and>
    live (Some x) = ccontent c txid \<and> ccontent c' = (ccontent c)(txid := live (Some (Cleanup (snd (f x)))))"
  using with_coins_entry [OF assms, of txid "\<lambda>co. snd (f co)"]
  by (fastforce simp: modify_with_def with_coins_def)

lemma spend_step:
  assumes "cok c" "modify_with B (spend_entry out) c (outpoint_hash out) = Some (Some u, c')"
  shows "\<exists>x x'. cok c' \<and> cache_best best c' = cache_best best c \<and> ccontent c (outpoint_hash out) = Some x \<and>
    Spend x out = Some (x', u) \<and> ccontent c' = (ccontent c)(outpoint_hash out := live (Some x'))"
proof -
  obtain x where c': "cok c'" "cache_best best c' = cache_best best c" "live (Some x) = ccontent c (outpoint_hash out)"
      "ccontent c' = (ccontent c)(outpoint_hash out := live (Some (Cleanup (snd (spend_entry out x)))))"
    and u: "fst (spend_entry out x) = Some u"
    using modify_with_spec [OF assms(1), of "spend_entry out" "outpoint_hash out"] assms(2) by auto
  obtain x' where s: "Spend x out = Some (x', u)" using u by (auto simp: spend_entry_def split: option.splits)
  then have "snd (spend_entry out x) = x'" by (simp add: spend_entry_def)
  then show ?thesis using c' s Spend_live [OF s] Cleanup_Spend [OF s]
    by (intro exI [of _ x] exI [of _ x']) simp
qed

lemma restore_step:
  assumes "cok d" "restorable x" "Spend x out = Some (x', u)" "unmarked S h (ccontent d) (g(outpoint_hash out := live (Some x')))"
    and "fCoinStake x \<longrightarrow> nHeight x \<noteq> h" "outpoint_hash out \<in> S"
  shows "\<exists>d'. modify_with B (restore_entry out u) d (outpoint_hash out) = Some (Some True, d') \<and> cok d' \<and>
    cache_best best d' = cache_best best d \<and> unmarked S h (ccontent d') (g(outpoint_hash out := Some x))"
proof -
  let ?t = "outpoint_hash out"
  obtain d' y where d': "modify_with B (restore_entry out u) d ?t = Some (fst (restore_entry out u y), d')"
      "cok d'" "cache_best best d' = cache_best best d" "live (Some y) = ccontent d ?t"
      "ccontent d' = (ccontent d)(?t := live (Some (Cleanup (snd (restore_entry out u y)))))"
    using modify_with_spec [OF assms(1)] by blast
  have at: "ccontent d ?t = live (Some x') \<or> (\<exists>z. live (Some x') = Some z \<and> fCoinStake z \<and> ccontent d ?t = Some (z\<lparr>fCoinStake := False\<rparr>))"
    using assms(4) unfolding unmarked_def by (metis fun_upd_same)
  have "restore_entry out u y = (Some True, x) \<or> restore_entry out u y = (Some True, x\<lparr>fCoinStake := False\<rparr>)"
  proof (cases "IsPruned x'")
    case True
    then show ?thesis using spend_restore(1) [OF assms(2,3) True, of y] d'(4) at by (auto simp: live_def split: if_splits)
  next
    case False
    have "y = x'\<lparr>fCoinStake := fCoinStake x\<rparr> \<or> y = x'\<lparr>fCoinStake := False\<rparr>"
      using d'(4) at False spend_restore(3) [OF assms(2,3) False] by (auto simp: live_def split: if_splits)
    then show ?thesis using spend_restore(2) [OF assms(2,3) False] by auto
  qed
  then obtain z where z: "restore_entry out u y = (Some True, z)" "z = x \<or> z = x\<lparr>fCoinStake := False\<rparr>" by blast
  then have "ccontent d' = (ccontent d)(?t := Some z)"
    using d'(5) restorable_live [of z] assms(2) by auto
  moreover have "unmarked S h ((ccontent d)(?t := Some z)) (g(?t := Some x))"
    using z(2) unmarked_upd [OF assms(4), of ?t "Some x"] unmarked_stake [OF assms(4,6,5)] by auto
  ultimately show ?thesis using d'(1-3) z(1) by auto
qed

lemma spend_inputs_undo:
  assumes "cok c" "spend_inputs B c ins us0 = Some (us, c')" "inputs_restorable h (ccontent c) ins"
    and "\<forall>i \<in> set ins. outpoint_hash (prevout i) \<in> S"
  shows "cok c' \<and> cache_best best c' = cache_best best c \<and>
    ccontent c' = foldl (\<lambda>g i. spend_out g (prevout i)) (ccontent c) ins \<and>
    (\<forall>t. ccontent c t = None \<longrightarrow> ccontent c' t = None) \<and>
    (\<exists>us1. us = us0 @ us1 \<and> length us1 = length ins \<and>
      (\<forall>d cl m. cok d \<longrightarrow> unmarked S h (ccontent d) (ccontent c') \<longrightarrow>
        (\<exists>d'. restore_inputs B d (rev (zip ins us1)) cl m = Some (cl, m |` (- (prevout ` set ins)), d') \<and> cok d' \<and>
          cache_best best d' = cache_best best d \<and> unmarked S h (ccontent d') (ccontent c))))"
  using assms
proof (induction ins arbitrary: c us0)
  case Nil
  then show ?case by simp
next
  case (Cons i ins)
  let ?h = "outpoint_hash (prevout i)"
  obtain u c1 where m: "modify_with B (spend_entry (prevout i)) c ?h = Some (Some u, c1)"
    and rest: "spend_inputs B c1 ins (us0 @ [u]) = Some (us, c')"
    using Cons.prems(2) by (auto split: option.splits)
  obtain x x' where c1: "cok c1" "cache_best best c1 = cache_best best c" "ccontent c ?h = Some x"
      "Spend x (prevout i) = Some (x', u)" "ccontent c1 = (ccontent c)(?h := live (Some x'))"
    using spend_step [OF Cons.prems(1) m] by auto
  have x: "restorable x" "fCoinStake x \<longrightarrow> nHeight x \<noteq> h" and S: "?h \<in> S"
    using Cons.prems(3,4) c1(3) by (simp_all add: inputs_restorable_def split: if_splits)
  have x': "restorable x' \<and> fCoinStake x' = fCoinStake x \<and> nHeight x' = nHeight x" if "\<not> IsPruned x'"
    using spend_restore(3) [OF x(1) c1(4) that] .
  have "inputs_restorable h (ccontent c1) ins" "\<forall>i \<in> set ins. outpoint_hash (prevout i) \<in> S"
    using Cons.prems(3,4) x' x(2)
    by (auto simp: inputs_restorable_def c1(5) list_all_iff live_def split: option.splits if_splits)
  note IH = Cons.IH [OF c1(1) rest this]
  obtain us1 where us1: "us = (us0 @ [u]) @ us1" "length us1 = length ins"
    and undo: "\<And>d cl m. cok d \<Longrightarrow> unmarked S h (ccontent d) (ccontent c') \<Longrightarrow>
      \<exists>d'. restore_inputs B d (rev (zip ins us1)) cl m = Some (cl, m |` (- (prevout ` set ins)), d') \<and> cok d' \<and>
        cache_best best d' = cache_best best d \<and> unmarked S h (ccontent d') (ccontent c1)"
    using IH by blast
  have "\<exists>d'. restore_inputs B d (rev (zip (i # ins) (u # us1))) cl m =
      Some (cl, m |` (- (prevout ` set (i # ins))), d') \<and> cok d' \<and>
      cache_best best d' = cache_best best d \<and> unmarked S h (ccontent d') (ccontent c)"
    if d: "cok d" "unmarked S h (ccontent d) (ccontent c')" for d cl m
  proof -
    obtain d1 where d1: "restore_inputs B d (rev (zip ins us1)) cl m = Some (cl, m |` (- (prevout ` set ins)), d1)"
      "cok d1" "cache_best best d1 = cache_best best d" "unmarked S h (ccontent d1) (ccontent c1)"
      using undo [OF d, of cl m] by blast
    obtain d2 where "modify_with B (restore_entry (prevout i) u) d1 ?h = Some (Some True, d2)" "cok d2"
      "cache_best best d2 = cache_best best d1" "unmarked S h (ccontent d2) ((ccontent c)(?h := Some x))"
      using restore_step [OF d1(2) x(1) c1(4) d1(4) [unfolded c1(5)] x(2) S] by blast
    moreover have "(ccontent c)(?h := Some x) = ccontent c" using c1(3) by auto
    ultimately show ?thesis using d1
      by (auto simp: restore_inputs_append restrict_map_def fun_eq_iff)
  qed
  moreover have "ccontent c1 = spend_out (ccontent c) (prevout i)"
    by (simp add: spend_out_def c1)
  moreover have "ccontent c t = None \<Longrightarrow> ccontent c1 t = None" for t using c1(3,5) by auto
  ultimately show ?case using IH us1 c1(2) by (intro conjI exI [of _ "u # us1"] allI impI) (auto simp del: zip_Cons_Cons)
qed

lemma update_undo:
  assumes "cok c" "UpdateCoins Hash B tx c \<lparr>vprevout = []\<rparr> h = Some (u, c')" "ccontent c (GetHash Hash tx) = None"
    and "IsCoinBase tx \<or> inputs_restorable h (ccontent c) (vin tx)" "\<forall>i \<in> set (vin tx). outpoint_hash (prevout i) \<in> S"
  shows "cok c' \<and> cache_best best c' = cache_best best c \<and> ccontent c' = apply_tx Hash h (ccontent c) tx"
    and "cok d \<Longrightarrow> unmarked S h (ccontent d) (ccontent c') \<Longrightarrow> uo = Some u \<or> IsCoinBase tx \<Longrightarrow>
      \<exists>d' m'. disconnect_tx Hash B h (tx, uo) (cl, m, d) = Some (Inr (cl, m', d')) \<and> cok d' \<and>
        cache_best best d' = cache_best best d \<and> unmarked S h (ccontent d') (ccontent c)"
proof -
  let ?t = "GetHash Hash tx"
  obtain us c1 where s: "if IsCoinBase tx then us = [] \<and> c1 = c else spend_inputs B c (vin tx) [] = Some (us, c1)"
    and u: "u = \<lparr>vprevout = us\<rparr>" and w: "with_coins B (\<lambda>_. FromTx tx h) c1 ?t = Some c'"
    using assms(2) by (auto simp: UpdateCoins_def bind_eq_Some_conv split: if_splits)
  note si = spend_inputs_undo [OF assms(1)]
  have c1: "cok c1" "cache_best best c1 = cache_best best c" "ccontent c1 ?t = None"
    "ccontent c1 = (if IsCoinBase tx then ccontent c else foldl (\<lambda>g i. spend_out g (prevout i)) (ccontent c) (vin tx))"
    using s assms(1,3,4) si [of "vin tx" "[]" us c1 h S] assms(5) by (auto split: if_splits)
  have c': "cok c'" "cache_best best c' = cache_best best c1" "ccontent c' = (ccontent c1)(?t := live (Some (FromTx tx h)))"
    using with_coins_spec [OF c1(1), of "\<lambda>_. FromTx tx h" ?t] w by auto
  show "cok c' \<and> cache_best best c' = cache_best best c \<and> ccontent c' = apply_tx Hash h (ccontent c) tx"
    using c' c1 by (simp add: apply_tx_def)
  show "\<exists>d' m'. disconnect_tx Hash B h (tx, uo) (cl, m, d) = Some (Inr (cl, m', d')) \<and> cok d' \<and>
      cache_best best d' = cache_best best d \<and> unmarked S h (ccontent d') (ccontent c)"
    if d: "cok d" "unmarked S h (ccontent d) (ccontent c')" and uo: "uo = Some u \<or> IsCoinBase tx"
  proof -
    obtain d1 x where d1: "modify_with B (clear_outs tx h) d ?t = Some (fst (clear_outs tx h x), d1)" "cok d1"
      "cache_best best d1 = cache_best best d" "live (Some x) = ccontent d ?t"
      "ccontent d1 = (ccontent d)(?t := live (Some (Cleanup (snd (clear_outs tx h x)))))"
      using modify_with_spec [OF d(1)] by blast
    have "nHeight (FromTx tx h) = h" by (simp add: FromTx_def ClearUnspendable_def Cleanup_def)
    then have "ccontent d ?t = live (Some (FromTx tx h))"
      using d(2) [unfolded unmarked_def, rule_format, of ?t] by (auto simp: c'(3) live_def split: if_splits)
    then have x: "clear_outs tx h x = (True, CCoins_empty)" using d1(4) by (intro clear_outs_clean) simp
    have "ccontent d1 = (ccontent d)(?t := None)" "(ccontent c')(?t := None) = ccontent c1"
      using d1(5) x c'(3) c1(3) by (auto simp: fun_eq_iff)
    then have cc: "unmarked S h (ccontent d1) (ccontent c1)" using unmarked_upd [OF d(2)] by metis
    have clr: "modify_with B (clear_outs tx h) d ?t = Some (True, d1)" using d1(1) x by simp
    show ?thesis
    proof (cases "IsCoinBase tx")
      case True
      then show ?thesis using s cc clr d1(2,3) by (simp add: disconnect_tx_def)
    next
      case False
      then have sp: "spend_inputs B c (vin tx) [] = Some (us, c1)" "inputs_restorable h (ccontent c) (vin tx)"
        using s assms(4) by simp_all
      obtain d2 where "restore_inputs B d1 (rev (zip (vin tx) us)) cl m = Some (cl, m |` (- (prevout ` set (vin tx))), d2)"
        "cok d2" "cache_best best d2 = cache_best best d1" "unmarked S h (ccontent d2) (ccontent c)" "length us = length (vin tx)"
        using si [OF sp assms(5)] d1(2) cc unfolding append_Nil by blast
      then show ?thesis using False u uo clr d1(3) by (simp add: disconnect_tx_def)
    qed
  qed
qed

lemma disconnect_loop_append:
  "disconnect_loop Hash B h (xs @ ys) s =
    (case disconnect_loop Hash B h xs s of
       None \<Rightarrow> None
     | Some (Inl r) \<Rightarrow> Some (Inl r)
     | Some (Inr s') \<Rightarrow> disconnect_loop Hash B h ys s')"
  by (induction xs arbitrary: s) (auto split: option.splits sum.splits)

lemma block_undo:
  assumes "cok c" "update_block Hash B txs c h = Some (us, c')" "block_undoable Hash h (ccontent c) txs"
    and "\<forall>tx \<in> set txs. \<forall>i \<in> set (vin tx). outpoint_hash (prevout i) \<in> S"
  shows "cok c' \<and> cache_best best c' = cache_best best c \<and> length us = length txs \<and>
    ccontent c' = foldl (apply_tx Hash h) (ccontent c) txs \<and>
    (\<forall>d cl m uos. cok d \<longrightarrow> unmarked S h (ccontent d) (ccontent c') \<longrightarrow> length uos = length txs \<longrightarrow>
      list_all (\<lambda>((tx, u), uo). uo = Some u \<or> IsCoinBase tx) (zip (zip txs us) uos) \<longrightarrow>
      (\<exists>d' m'. disconnect_loop Hash B h (rev (zip txs uos)) (cl, m, d) = Some (Inr (cl, m', d')) \<and> cok d' \<and>
        cache_best best d' = cache_best best d \<and> unmarked S h (ccontent d') (ccontent c)))"
  using assms
proof (induction txs arbitrary: c us)
  case (Cons tx txs)
  obtain u c1 us1 where u: "UpdateCoins Hash B tx c \<lparr>vprevout = []\<rparr> h = Some (u, c1)"
    and rest: "update_block Hash B txs c1 h = Some (us1, c')" and us: "us = u # us1"
    using Cons.prems(2) by (auto simp: bind_eq_Some_conv)
  have ok: "ccontent c (GetHash Hash tx) = None" "IsCoinBase tx \<or> inputs_restorable h (ccontent c) (vin tx)"
    "\<forall>i \<in> set (vin tx). outpoint_hash (prevout i) \<in> S"
    using Cons.prems(3,4) by simp_all
  note tx = update_undo [OF Cons.prems(1) u ok]
  have c1: "cok c1" "cache_best best c1 = cache_best best c" "ccontent c1 = apply_tx Hash h (ccontent c) tx"
    using tx(1) by simp_all
  note IH = Cons.IH [OF c1(1) rest]
  have und: "block_undoable Hash h (ccontent c1) txs" "\<forall>tx \<in> set txs. \<forall>i \<in> set (vin tx). outpoint_hash (prevout i) \<in> S"
    using Cons.prems(3,4) c1(3) by simp_all
  have "\<exists>d' m'. disconnect_loop Hash B h (rev (zip (tx # txs) uos)) (cl, m, d) = Some (Inr (cl, m', d')) \<and> cok d' \<and>
      cache_best best d' = cache_best best d \<and> unmarked S h (ccontent d') (ccontent c)"
    if d: "cok d" "unmarked S h (ccontent d) (ccontent c')" "length uos = length (tx # txs)"
      "list_all (\<lambda>((tx, u), uo). uo = Some u \<or> IsCoinBase tx) (zip (zip (tx # txs) us) uos)" for d cl m uos
  proof -
    obtain uo uos1 where uos: "uos = uo # uos1" using d(3) by (cases uos) auto
    have uo: "uo = Some u \<or> IsCoinBase tx" "length uos1 = length txs"
      "list_all (\<lambda>((tx, u), uo). uo = Some u \<or> IsCoinBase tx) (zip (zip txs us1) uos1)"
      using d(3,4) by (auto simp: uos us)
    obtain d1 m1 where d1: "disconnect_loop Hash B h (rev (zip txs uos1)) (cl, m, d) = Some (Inr (cl, m1, d1))" "cok d1"
      "cache_best best d1 = cache_best best d" "unmarked S h (ccontent d1) (ccontent c1)"
      using IH [OF und] d(1,2) uo(2,3) by blast
    obtain d2 m2 where "disconnect_tx Hash B h (tx, uo) (cl, m1, d1) = Some (Inr (cl, m2, d2))" "cok d2"
      "cache_best best d2 = cache_best best d1" "unmarked S h (ccontent d2) (ccontent c)"
      using tx(2) [OF d1(2,4) uo(1)] by blast
    then show ?thesis using d1 by (simp add: uos disconnect_loop_append)
  qed
  then show ?case using IH [OF und] c1 us by auto
qed simp

lemma spend_inputs_refines:
  assumes "cok c"
  shows "case spend_inputs B c ins us0 of
      None \<Rightarrow> \<not> (list_all (\<lambda>i. content_out (ccontent c) (prevout i) \<noteq> None) ins \<and> distinct (map prevout ins))
    | Some (us, c') \<Rightarrow> list_all (\<lambda>i. content_out (ccontent c) (prevout i) \<noteq> None) ins \<and> distinct (map prevout ins) \<and>
        cok c' \<and> ccontent c' = foldl (\<lambda>g i. spend_out g (prevout i)) (ccontent c) ins"
  using assms
proof (induction ins arbitrary: c us0)
  case (Cons i ins)
  let ?h = "outpoint_hash (prevout i)"
  obtain c1 x where m: "modify_with B (spend_entry (prevout i)) c ?h = Some (fst (spend_entry (prevout i) x), c1)"
    "live (Some x) = ccontent c ?h" using modify_with_spec [OF Cons.prems] by blast
  show ?case
  proof (cases "Spend x (prevout i)")
    case None
    then have "content_out (ccontent c) (prevout i) = None" using Spend_iff_content [of x "ccontent c"] m(2) by blast
    then show ?thesis using m(1) None by (simp add: spend_entry_def)
  next
    case (Some r)
    then obtain x' u where r: "r = (x', u)" "fst (spend_entry (prevout i) x) = Some u" by (cases r) (simp add: spend_entry_def)
    obtain y y' where c1: "cok c1" "ccontent c ?h = Some y" "Spend y (prevout i) = Some (y', u)"
      "ccontent c1 = (ccontent c)(?h := live (Some y'))"
      using spend_step [OF Cons.prems] m(1) r(2) by metis
    have av: "content_out (ccontent c) (prevout i) \<noteq> None"
      using Spend_iff_content [of y "ccontent c" "prevout i"] Spend_live [OF c1(3)] c1(2,3) by simp
    have so: "ccontent c1 = spend_out (ccontent c) (prevout i)" by (simp add: spend_out_def c1)
    have "list_all (\<lambda>j. content_out (ccontent c1) (prevout j) \<noteq> None) ins \<longleftrightarrow>
        prevout i \<notin> prevout ` set ins \<and> list_all (\<lambda>j. content_out (ccontent c) (prevout j) \<noteq> None) ins"
      using content_out_spend [of "ccontent c" "prevout i", OF c1(2,3)] by (auto simp: c1(4) list_all_iff image_iff)
    then show ?thesis using Cons.IH [OF c1(1), of "us0 @ [u]"] m(1) r(2) av so
      by (auto split: option.splits)
  qed
qed simp

lemma update_refines:
  assumes "cok c"
  shows "case UpdateCoins Hash B tx c u0 h of
      None \<Rightarrow> \<not> IsCoinBase tx \<and>
        \<not> (list_all (\<lambda>i. content_out (ccontent c) (prevout i) \<noteq> None) (vin tx) \<and> distinct (map prevout (vin tx)))
    | Some (u, c') \<Rightarrow> ccontent c' = apply_tx Hash h (ccontent c) tx \<and> cok c' \<and>
        (IsCoinBase tx \<or>
         list_all (\<lambda>i. content_out (ccontent c) (prevout i) \<noteq> None) (vin tx) \<and> distinct (map prevout (vin tx)))"
proof (cases "IsCoinBase tx")
  case True
  then show ?thesis using with_coins_spec [OF assms, of "\<lambda>_. FromTx tx h" "GetHash Hash tx"]
    by (auto simp: UpdateCoins_def apply_tx_def)
next
  case False
  note si = spend_inputs_refines [OF assms, of "vin tx" "vprevout u0"]
  show ?thesis
  proof (cases "spend_inputs B c (vin tx) (vprevout u0)")
    case None
    then show ?thesis using si False by (simp add: UpdateCoins_def)
  next
    case (Some r)
    then obtain us c1 where r: "spend_inputs B c (vin tx) (vprevout u0) = Some (us, c1)" "cok c1" using si by (cases r) auto
    then show ?thesis using si False with_coins_spec [OF r(2), of "\<lambda>_. FromTx tx h" "GetHash Hash tx"]
      by (auto simp: UpdateCoins_def apply_tx_def)
  qed
qed

end

section \<open>Properties\<close>

lemma cache_content_SetBestBlock [simp]: "cache_content f (SetBestBlock c h) = cache_content f c"
  by (cases c) (simp add: cache_content_def SetBestBlock_def)

lemma hashBlock_SetBestBlock [simp]: "hashBlock (SetBestBlock c h) = h"
  by (cases c) (simp add: SetBestBlock_def)

text \<open>C13: connecting a block and disconnecting it again restores the coins, but for the mark of coinstakes: after the
  coin updates of a block, \<^verbatim>\<open>DisconnectBlock\<close> with the recorded undo data succeeds, reports a clean undo, makes the
  predecessor the best block again, and every record is the one from before the block, except that the record of a
  coinstake from which the block spends may have lost its mark \<^verbatim>\<open>fCoinStake\<close> and nothing else. For a block with a nonzero hash whose first
  transaction is its coinbase, which does not recreate a transaction that is still unspent, does not spend a coinstake of
  its own height, and spends records with a height in \<open>(0, 2^31)\<close>, no spent output at their end, the spent outputs null,
  and fewer than \<open>2^32\<close> outputs. The undo data are those recorded, as values.\<close>

theorem DisconnectBlock_restores:
  assumes "view_reach v" "update_block Hash tip_ops vtx v h = Some (us, v1)" "vtx \<noteq> []" "IsCoinBase (hd vtx)"
    and "block_undoable Hash h (view_content v) vtx" "bh \<noteq> 0"
  shows "\<exists>m' v2. DisconnectBlock Hash tip_ops vtx \<lparr>pindex_hash = bh, pprev_hash = ph, pindex_nHeight = h\<rparr> (Some (tl us)) m
      (SetBestBlock v1 bh) False = Some (True, True, m', v2) \<and> hashBlock v2 = ph \<and>
    (\<forall>t. view_content v2 t = view_content v t \<or>
      t \<in> outpoint_hash ` prevout ` (\<Union>tx \<in> set vtx. set (vin tx)) \<and>
      (\<exists>x. view_content v t = Some x \<and> fCoinStake x \<and> view_content v2 t = Some (x\<lparr>fCoinStake := False\<rparr>)))"
proof -
  let ?inv = "cache_inv tip_ok tip_content cache_held" and ?cc = "cache_content tip_content"
  have v: "?inv v" using view_reach_ok [OF assms(1)] by (simp add: view_ok_def)
  have und: "block_undoable Hash h (?cc v) vtx" using assms(5) by (simp add: view_content_def)
  let ?S = "outpoint_hash ` prevout ` (\<Union>tx \<in> set vtx. set (vin tx))"
  have "\<forall>tx \<in> set vtx. \<forall>i \<in> set (vin tx). outpoint_hash (prevout i) \<in> ?S" by auto
  note bu = tip.block_undo [OF v assms(2) und this]
  let ?d = "SetBestBlock v1 bh" and ?uos = "None # map Some (tl us)"
  have d: "?inv ?d" "?cc ?d = ?cc v1" using bu by (simp_all add: cache_inv_SetBestBlock)
  obtain tx txs u us1 where vtx: "vtx = tx # txs" "us = u # us1" using assms(3) bu by (cases vtx; cases us) auto
  have len: "length us1 = length txs" using bu vtx by simp
  have "list_all (\<lambda>((tx, u), uo). uo = Some u \<or> IsCoinBase tx) (zip (zip txs us1) (map Some us1))"
    using len by (induction us1 txs rule: list_induct2) auto
  then have "list_all (\<lambda>((tx, u), uo). uo = Some u \<or> IsCoinBase tx) (zip (zip vtx us) ?uos)"
    using assms(4) by (simp add: vtx)
  moreover have "length ?uos = length vtx" using len by (simp add: vtx)
  ultimately obtain d' m' where l: "disconnect_loop Hash tip_ops h (rev (zip vtx ?uos)) (True, m, ?d) = Some (Inr (True, m', d'))"
    and d': "unmarked ?S h (?cc d') (?cc v)"
    using bu d unmarked_refl by metis
  have "GetBestBlock tip_ops ?d = (bh, ?d)" using assms(6) by (simp add: GetBestBlock_def)
  then have "DisconnectBlock Hash tip_ops vtx \<lparr>pindex_hash = bh, pprev_hash = ph, pindex_nHeight = h\<rparr> (Some (tl us)) m ?d False =
      Some (True, True, m', SetBestBlock d' ph)"
    using l len by (simp add: DisconnectBlock_def vtx)
  moreover have "\<forall>t. ?cc d' t = ?cc v t \<or>
      t \<in> ?S \<and> (\<exists>x. ?cc v t = Some x \<and> fCoinStake x \<and> ?cc d' t = Some (x\<lparr>fCoinStake := False\<rparr>))"
    using d' unfolding unmarked_def by blast
  ultimately show ?thesis by (intro exI [of _ m'] exI [of _ "SetBestBlock d' ph"]) (simp add: view_content_def)
qed

text \<open>C14: \<^verbatim>\<open>UpdateCoins\<close> fails its assertion exactly if some input is not unspent in the view or two inputs
  are the same; otherwise the view afterwards shows the coins with the inputs spent and the
  outputs of the transaction added.\<close>

theorem UpdateCoins_refines:
  assumes "view_reach v" "\<not> IsCoinBase tx"
  shows "case UpdateCoins Hash tip_ops tx v u h of
      None \<Rightarrow> \<not> (list_all (\<lambda>i. content_out (view_content v) (prevout i) \<noteq> None) (vin tx) \<and> distinct (map prevout (vin tx)))
    | Some (u', v') \<Rightarrow>
        list_all (\<lambda>i. content_out (view_content v) (prevout i) \<noteq> None) (vin tx) \<and> distinct (map prevout (vin tx)) \<and>
        view_content v' = apply_tx Hash h (view_content v) tx \<and> view_ok v'"
  using tip.update_refines [OF view_reach_ok [OF assms(1), unfolded view_ok_def], where Hash = Hash and tx = tx and ?u0.0 = u and h = h] assms(2)
  by (auto simp: view_ok_def view_content_def split: option.splits)

text \<open>A view on the demonstration database, the hash of a transaction being its size, a block that spends both
  outputs of the stored transaction.\<close>

definition fresh_view :: block_view where
  "fresh_view = make_cache (make_cache demo_db)"

definition size_hash :: "bytes \<Rightarrow> uint256" where
  "size_hash bs = 1000 + of_nat (length bs)"

definition spend_both :: CTransaction where
  "spend_both = \<lparr>nVersion = 1,
     vin = [\<lparr>prevout = \<lparr>outpoint_hash = 7, outpoint_n = 0\<rparr>, scriptSig = [], nSequence = 0\<rparr>,
            \<lparr>prevout = \<lparr>outpoint_hash = 7, outpoint_n = 1\<rparr>, scriptSig = [], nSequence = 0\<rparr>],
     vout = [\<lparr>nValue = 12, scriptPubKey = [OP_3]\<rparr>], nLockTime = 0, blob = []\<rparr>"

definition demo_coinbase :: CTransaction where
  "demo_coinbase = \<lparr>nVersion = 1, vin = [\<lparr>prevout = COutPoint_null, scriptSig = [OP_1, OP_1], nSequence = 0\<rparr>],
     vout = [\<lparr>nValue = 50, scriptPubKey = [OP_1]\<rparr>], nLockTime = 0, blob = []\<rparr>"

lemmas tx_size_simps = SerializeTx_def SerializeVec_def SerializeTxIn_def SerializeTxOut_def SerializeOutPoint_def
  SerializeAmount_def SerializeBytes_def SerializeString_def WriteCompactSize_def

lemma demo_hashes: "GetHash size_hash spend_both = 1103" "GetHash size_hash demo_coinbase = 1064"
  by (simp_all add: GetHash_def size_hash_def spend_both_def demo_coinbase_def tx_size_simps)

lemma fresh_reach: "view_reach fresh_view"
proof -
  have "db_ok demo_db" using demo_live by (auto simp: db_ok_def demo_db_def split: if_splits)
  then show ?thesis unfolding fresh_view_def by (intro tip_reach_view_reach.view_open tip_reach_view_reach.start)
qed

lemma fresh_content: "view_content fresh_view = [7 \<mapsto> FromTx demo_tx 5]"
  by (simp add: fresh_view_def view_content_def tip_content_def cache_content_def make_cache_def demo_db_def)

lemma demo_coins: "FromTx demo_tx 5 =
  \<lparr>fCoinBase = False, fCoinStake = False, coins_vout = [\<lparr>nValue = 7, scriptPubKey = [OP_1]\<rparr>, \<lparr>nValue = 5, scriptPubKey = [OP_2]\<rparr>],
    nHeight = 5, coins_nVersion = 1\<rparr>"
  by (simp add: FromTx_def ClearUnspendable_def Cleanup_def drop_null_def demo_tx_def IsUnspendable_def IsCoinBase_def
      IsCoinStake_def COutPoint_IsNull_def CTxOut_IsNull_def CTxOut_IsEmpty_def)

lemma demo_restorable: "restorable (FromTx demo_tx 5)"
  by (simp add: restorable_def normal_outs_def demo_coins CTxOut_IsNull_def)

lemma demo_no_stake: "\<not> fCoinStake (FromTx demo_tx 5)"
  by (simp add: demo_coins)

lemma spend_both_inputs:
  "\<not> IsCoinBase spend_both" "distinct (map prevout (vin spend_both))"
  "list_all (\<lambda>i. content_out (view_content fresh_view) (prevout i) \<noteq> None) (vin spend_both)"
  by (simp_all add: IsCoinBase_def spend_both_def fresh_content content_out_def demo_coins IsAvailable_def
      CTxOut_IsNull_def)

theorem UpdateCoins_refines_witness:
  "case UpdateCoins size_hash tip_ops spend_both fresh_view \<lparr>vprevout = []\<rparr> 6 of
     None \<Rightarrow> False
   | Some (u', v') \<Rightarrow> view_content v' = apply_tx size_hash 6 [7 \<mapsto> FromTx demo_tx 5] spend_both \<and> view_ok v'"
  using UpdateCoins_refines [OF fresh_reach spend_both_inputs(1), where Hash = size_hash and u = "\<lparr>vprevout = []\<rparr>" and h = 6] spend_both_inputs
  by (auto simp: fresh_content split: option.splits)

lemma demo_coinbase_first: "IsCoinBase demo_coinbase"
  by (simp add: IsCoinBase_def demo_coinbase_def COutPoint_IsNull_def COutPoint_null_def)

lemma demo_block: "\<exists>us v1. update_block size_hash tip_ops [demo_coinbase, spend_both] fresh_view 6 = Some (us, v1)"
proof -
  let ?inv = "cache_inv tip_ok tip_content cache_held" and ?cc = "cache_content tip_content"
  have v: "?inv fresh_view" "?cc fresh_view = [7 \<mapsto> FromTx demo_tx 5]"
    using view_reach_ok [OF fresh_reach] fresh_content by (simp_all add: view_ok_def view_content_def)
  note cb = demo_coinbase_first
  obtain u1 v1 where v1: "UpdateCoins size_hash tip_ops demo_coinbase fresh_view \<lparr>vprevout = []\<rparr> 6 = Some (u1, v1)" "?inv v1"
    "?cc v1 = apply_tx size_hash 6 (?cc fresh_view) demo_coinbase"
    using tip.update_refines [OF v(1), where Hash = size_hash and tx = demo_coinbase and ?u0.0 = "\<lparr>vprevout = []\<rparr>" and h = 6] cb
    by (auto split: option.splits)
  have "?cc v1 7 = Some (FromTx demo_tx 5)" using v1(3) v(2) cb by (simp add: apply_tx_def demo_hashes)
  then have "list_all (\<lambda>i. content_out (?cc v1) (prevout i) \<noteq> None) (vin spend_both)"
    by (simp add: spend_both_def content_out_def demo_coins IsAvailable_def CTxOut_IsNull_def)
  then obtain u2 v2 where "UpdateCoins size_hash tip_ops spend_both v1 \<lparr>vprevout = []\<rparr> 6 = Some (u2, v2)"
    using tip.update_refines [OF v1(2), where Hash = size_hash and tx = spend_both and ?u0.0 = "\<lparr>vprevout = []\<rparr>" and h = 6]
      spend_both_inputs by (auto split: option.splits)
  then show ?thesis using v1(1) by simp
qed

lemma demo_undoable: "block_undoable size_hash 6 (view_content fresh_view) [demo_coinbase, spend_both]"
  using demo_restorable demo_no_stake
  by (simp add: fresh_content demo_hashes apply_tx_def inputs_restorable_def demo_coinbase_first) (simp add: spend_both_def)

theorem DisconnectBlock_restores_witness:
  "\<exists>us v1 m' v2. update_block size_hash tip_ops [demo_coinbase, spend_both] fresh_view 6 = Some (us, v1) \<and>
    DisconnectBlock size_hash tip_ops [demo_coinbase, spend_both] \<lparr>pindex_hash = 500, pprev_hash = 99, pindex_nHeight = 6\<rparr>
      (Some (tl us)) Map.empty (SetBestBlock v1 500) False = Some (True, True, m', v2) \<and>
    view_content v2 = [7 \<mapsto> FromTx demo_tx 5]"
proof -
  obtain us v1 where u: "update_block size_hash tip_ops [demo_coinbase, spend_both] fresh_view 6 = Some (us, v1)"
    using demo_block by blast
  have "IsCoinBase (hd [demo_coinbase, spend_both])" by (simp add: demo_coinbase_first)
  from DisconnectBlock_restores [OF fresh_reach u _ this demo_undoable, where bh = 500 and ph = 99 and m = Map.empty]
  obtain m' v2 where d: "DisconnectBlock size_hash tip_ops [demo_coinbase, spend_both]
      \<lparr>pindex_hash = 500, pprev_hash = 99, pindex_nHeight = 6\<rparr> (Some (tl us)) Map.empty (SetBestBlock v1 500) False =
      Some (True, True, m', v2)"
    and c: "view_content v2 t = view_content fresh_view t \<or>
      (\<exists>x. view_content fresh_view t = Some x \<and> fCoinStake x \<and> view_content v2 t = Some (x\<lparr>fCoinStake := False\<rparr>))" for t
    by auto
  have "view_content v2 t = view_content fresh_view t" for t
    using c [of t] by (auto simp: fresh_content demo_coins split: if_splits)
  then have "view_content v2 = [7 \<mapsto> FromTx demo_tx 5]" by (simp add: fresh_content fun_eq_iff)
  then show ?thesis using u d by blast
qed

text \<open>The coinstake mark does not survive a disconnect: when the last output of a coinstake is spent, the undo
  record has the mark, but the restored record is an ordinary transaction, and the undo is
  reported as clean.\<close>

theorem undo_loses_coinstake:
  assumes "fCoinStake x" "restorable x" "Spend x out = Some (x', u)" "IsPruned x'" "IsPruned y"
  shows "undo_fCoinStake u \<and> restore_entry out u y = (Some True, x\<lparr>fCoinStake := False\<rparr>)"
proof
  have "coins_vout x' = []" using assms(3,4) Cleanup_Spend [OF assms(3)]
    by (simp add: IsPruned_drop_null Cleanup_def) (metis CCoins.ext_inject CCoins.surjective CCoins.update_convs(3))
  then show "undo_fCoinStake u" using assms(1,3) by (auto simp: Spend_def Let_def split: if_splits)
qed (rule spend_restore(1) [OF assms(2,3,4,5)])

definition stake_coins :: CCoins where
  "stake_coins = \<lparr>fCoinBase = False, fCoinStake = True, coins_vout = [CTxOut_null, \<lparr>nValue = 5, scriptPubKey = [OP_1]\<rparr>],
     nHeight = 5, coins_nVersion = 1\<rparr>"

theorem undo_loses_coinstake_witness:
  "case Spend stake_coins \<lparr>outpoint_hash = 3, outpoint_n = 1\<rparr> of
     None \<Rightarrow> False
   | Some (x', u) \<Rightarrow> undo_fCoinStake u \<and>
       restore_entry \<lparr>outpoint_hash = 3, outpoint_n = 1\<rparr> u CCoins_empty = (Some True, stake_coins\<lparr>fCoinStake := False\<rparr>)"
proof -
  let ?out = "\<lparr>outpoint_hash = 3, outpoint_n = 1\<rparr>"
  obtain x' u where s: "Spend stake_coins ?out = Some (x', u)" "IsPruned x'"
    by (simp add: Spend_def stake_coins_def CTxOut_IsNull_def CTxOut_null_def Cleanup_def drop_null_def IsPruned_def Let_def)
  have "restorable stake_coins"
    by (simp add: restorable_def normal_outs_def stake_coins_def CTxOut_IsNull_def CTxOut_null_def)
  then show ?thesis using undo_loses_coinstake [OF _ _ s, of CCoins_empty] s(1) by (simp add: stake_coins_def)
qed

end
