(* ===== verification/Block.thy ===== *)
theory Block
  imports Standard
begin

text \<open>
  Blocks (\<^verbatim>\<open>src/src/primitives/block.h\<close>, \<^verbatim>\<open>block.cpp\<close>): header and body, their wire format,
  the Merkle tree over the transactions with its branches, and the block signature.
  The hash of a pair of nodes, of a header (Keccak) and ECDSA are parameters. The header hash reads
  the 80 bytes from \<^verbatim>\<open>nVersion\<close> to \<^verbatim>\<open>nNonce\<close> in memory, which on the little-endian machines the
  code supports are the serialized header.
\<close>

section \<open>Data\<close>

record CBlockHeader =
  hdr_nVersion :: uint32
  hashPrevBlock :: uint256
  hashMerkleRoot :: uint256
  nTime :: uint32
  nBits :: uint32
  nNonce :: uint32

record CBlock = CBlockHeader +
  vtx :: "CTransaction list"
  vchBlockSig :: bytes

definition Header_IsNull :: "'a CBlockHeader_scheme \<Rightarrow> bool" where
  "Header_IsNull b \<longleftrightarrow> nBits b = 0"

definition GetBlockTime :: "'a CBlockHeader_scheme \<Rightarrow> int" where
  "GetBlockTime b = uint (nTime b)"

definition GetBlockHeader :: "CBlock \<Rightarrow> CBlockHeader" where
  "GetBlockHeader b = \<lparr>hdr_nVersion = hdr_nVersion b, hashPrevBlock = hashPrevBlock b, hashMerkleRoot = hashMerkleRoot b,
     nTime = nTime b, nBits = nBits b, nNonce = nNonce b\<rparr>"

definition IsProofOfStake :: "CBlock \<Rightarrow> bool" where
  "IsProofOfStake b \<longleftrightarrow> length (vtx b) > 1 \<and> IsCoinStake (vtx b ! 1)"

definition IsProofOfWork :: "CBlock \<Rightarrow> bool" where
  "IsProofOfWork b \<longleftrightarrow> \<not> IsProofOfStake b"

definition GetProofOfStake :: "CBlock \<Rightarrow> COutPoint \<times> uint32" where
  "GetProofOfStake b = (if IsProofOfStake b then (prevout (vin (vtx b ! 1) ! 0), nTime b) else (COutPoint_null, 0))"

section \<open>Wire format\<close>

definition SerializeHeader :: "'a CBlockHeader_scheme \<Rightarrow> bytes" where
  "SerializeHeader b =
     WRITEDATA (hdr_nVersion b) @ WRITEDATA (hashPrevBlock b) @ WRITEDATA (hashMerkleRoot b) @ WRITEDATA (nTime b) @
     WRITEDATA (nBits b) @ WRITEDATA (nNonce b)"

definition UnserializeHeader :: "CBlockHeader reader" where
  "UnserializeHeader =
     rbind READDATA (\<lambda>v. rbind READDATA (\<lambda>p. rbind READDATA (\<lambda>m. rbind READDATA (\<lambda>t. rbind READDATA (\<lambda>b. rbind READDATA (\<lambda>n.
       rret \<lparr>hdr_nVersion = v, hashPrevBlock = p, hashMerkleRoot = m, nTime = t, nBits = b, nNonce = n\<rparr>))))))"

definition SerializeBlock :: "CBlock \<Rightarrow> bytes" where
  "SerializeBlock b =
     SerializeHeader b @ SerializeVec SerializeTx (vtx b) @
     (if length (vtx b) > 1 \<and> IsCoinStake (vtx b ! 1) then SerializeBytes (vchBlockSig b) else [])"

text \<open>A block that is read starts out null, so its signature is empty if none is read.\<close>

definition UnserializeBlock :: "CBlock reader" where
  "UnserializeBlock =
     rbind UnserializeHeader (\<lambda>h.
     rbind (UnserializeVec UnserializeTx) (\<lambda>txs.
     rbind (if length txs > 1 \<and> IsCoinStake (txs ! 1) then UnserializeBytes else rret []) (\<lambda>sig.
       rret \<lparr>hdr_nVersion = hdr_nVersion h, hashPrevBlock = hashPrevBlock h, hashMerkleRoot = hashMerkleRoot h,
             nTime = nTime h, nBits = nBits h, nNonce = nNonce h, vtx = txs, vchBlockSig = sig\<rparr>)))"

definition Header_GetHash :: "(bytes \<Rightarrow> uint256) \<Rightarrow> 'a CBlockHeader_scheme \<Rightarrow> uint256" where
  "Header_GetHash HashKeccak256 b = HashKeccak256 (SerializeHeader b)"

section \<open>Merkle tree\<close>

text \<open>
  \<open>H\<close> is the double hash of two concatenated nodes. The tree is one array, level after level;
  \<open>j\<close> is the offset of the current level of \<open>nSize\<close> nodes.
\<close>

function merkle_level ::
  "(uint256 \<Rightarrow> uint256 \<Rightarrow> uint256) \<Rightarrow> nat \<Rightarrow> nat \<Rightarrow> nat \<Rightarrow> uint256 list \<times> bool \<Rightarrow> uint256 list \<times> bool" where
  "merkle_level H j nSize i s =
     (if i < nSize then
        case s of (vMerkleTree, mutated) \<Rightarrow>
          let i2 = min (i + 1) (nSize - 1);
              mutated' = (if i2 = i + 1 \<and> i2 + 1 = nSize \<and> vMerkleTree ! (j + i) = vMerkleTree ! (j + i2) then True else mutated)
          in merkle_level H j nSize (i + 2) (vMerkleTree @ [H (vMerkleTree ! (j + i)) (vMerkleTree ! (j + i2))], mutated')
      else s)"
  by pat_completeness auto
termination by (relation "measure (\<lambda>(H, j, nSize, i, s). nSize - i)") auto

function merkle_loop ::
  "(uint256 \<Rightarrow> uint256 \<Rightarrow> uint256) \<Rightarrow> nat \<Rightarrow> nat \<Rightarrow> uint256 list \<times> bool \<Rightarrow> uint256 list \<times> bool" where
  "merkle_loop H j nSize s =
     (if nSize > 1 then merkle_loop H (j + nSize) ((nSize + 1) div 2) (merkle_level H j nSize 0 s) else s)"
  by pat_completeness auto
termination by (relation "measure (\<lambda>(H, j, nSize, s). nSize)") auto

declare merkle_level.simps [simp del] merkle_loop.simps [simp del]

text \<open>The result is the root, the mutation flag and the tree that is kept in the block.\<close>

definition BuildMerkleTree ::
  "(uint256 \<Rightarrow> uint256 \<Rightarrow> uint256) \<Rightarrow> uint256 list \<Rightarrow> uint256 \<times> bool \<times> uint256 list" where
  "BuildMerkleTree H txids =
     (case merkle_loop H 0 (length txids) (txids, False) of (vMerkleTree, mutated) \<Rightarrow>
        (if vMerkleTree = [] then 0 else last vMerkleTree, mutated, vMerkleTree))"

function branch_loop :: "uint256 list \<Rightarrow> nat \<Rightarrow> nat \<Rightarrow> nat \<Rightarrow> uint256 list" where
  "branch_loop vMerkleTree j nSize nIndex =
     (if nSize > 1
      then vMerkleTree ! (j + min (nIndex XOR 1) (nSize - 1)) #
           branch_loop vMerkleTree (j + nSize) ((nSize + 1) div 2) (nIndex div 2)
      else [])"
  by pat_completeness auto
termination by (relation "measure (\<lambda>(t, j, nSize, i). nSize)") auto

declare branch_loop.simps [simp del]

text \<open>The tree that an earlier call left in the block is used if there is one.\<close>

definition GetMerkleBranch ::
  "(uint256 \<Rightarrow> uint256 \<Rightarrow> uint256) \<Rightarrow> uint256 list \<Rightarrow> uint256 list \<Rightarrow> nat \<Rightarrow> uint256 list" where
  "GetMerkleBranch H vMerkleTree txids nIndex =
     branch_loop (if vMerkleTree = [] then snd (snd (BuildMerkleTree H txids)) else vMerkleTree) 0 (length txids) nIndex"

fun check_branch_loop :: "(uint256 \<Rightarrow> uint256 \<Rightarrow> uint256) \<Rightarrow> uint256 \<Rightarrow> uint256 list \<Rightarrow> int \<Rightarrow> uint256" where
  "check_branch_loop H hash [] nIndex = hash"
| "check_branch_loop H hash (b # vMerkleBranch) nIndex =
     check_branch_loop H (if nIndex AND 1 \<noteq> 0 then H b hash else H hash b) vMerkleBranch (nIndex div 2)"

definition CheckMerkleBranch :: "(uint256 \<Rightarrow> uint256 \<Rightarrow> uint256) \<Rightarrow> uint256 \<Rightarrow> uint256 list \<Rightarrow> int \<Rightarrow> uint256" where
  "CheckMerkleBranch H hash vMerkleBranch nIndex =
     (if nIndex = -1 then 0 else check_branch_loop H hash vMerkleBranch nIndex)"

section \<open>Block signature\<close>

text \<open>
  \<open>GetKey\<close> is the key store, \<open>Sign\<close> and \<open>Verify\<close> ECDSA. The outer \<open>None\<close> is an
  access outside a vector or the exception of the constructor of \<^verbatim>\<open>uint160\<close> on a vector that
  has not 20 bytes.
\<close>

definition uint160_of :: "bytes \<Rightarrow> bytes option" where
  "uint160_of vch = (if length vch \<noteq> 20 then None else Some vch)"

definition sign_with ::
  "(bytes \<Rightarrow> 'k option) \<Rightarrow> ('k \<Rightarrow> uint256 \<Rightarrow> bytes option) \<Rightarrow> uint256 \<Rightarrow> CBlock \<Rightarrow> bytes \<Rightarrow> bool \<times> CBlock" where
  "sign_with GetKey Sign h b keyID =
     (case GetKey keyID of
        None \<Rightarrow> (False, b)
      | Some key \<Rightarrow> (case Sign key h of None \<Rightarrow> (False, b) | Some sig \<Rightarrow> (True, b\<lparr>vchBlockSig := sig\<rparr>)))"

fun sign_work ::
  "(bytes \<Rightarrow> 'k option) \<Rightarrow> ('k \<Rightarrow> uint256 \<Rightarrow> bytes option) \<Rightarrow> uint256 \<Rightarrow> CBlock \<Rightarrow> CTxOut list \<Rightarrow> (bool \<times> CBlock) option" where
  "sign_work GetKey Sign h b [] = Some (False, b)"
| "sign_work GetKey Sign h b (txout # txouts) =
     (case Solver (scriptPubKey txout) of (fRet, whichType, vSolutions) \<Rightarrow>
        if \<not> fRet then sign_work GetKey Sign h b txouts
        else if whichType = TX_PUBKEY then map_option (sign_with GetKey Sign h b) (uint160_of (vSolutions ! 0))
        else sign_work GetKey Sign h b txouts)"

definition SignBlock ::
  "(bytes \<Rightarrow> uint256) \<Rightarrow> (bytes \<Rightarrow> bytes) \<Rightarrow> (bytes \<Rightarrow> 'k option) \<Rightarrow> ('k \<Rightarrow> uint256 \<Rightarrow> bytes option) \<Rightarrow> CBlock \<Rightarrow>
   (bool \<times> CBlock) option" where
  "SignBlock HashKeccak256 Hash160 GetKey Sign b =
     (let h = Header_GetHash HashKeccak256 b in
      if \<not> IsProofOfStake b then
        if vtx b = [] then None else sign_work GetKey Sign h b (vout (vtx b ! 0))
      else
        (case Solver (scriptPubKey (vout (vtx b ! 1) ! 1)) of (fRet, whichType, vSolutions) \<Rightarrow>
           if \<not> fRet then Some (False, b)
           else if whichType = TX_PUBKEYHASH then map_option (sign_with GetKey Sign h b) (uint160_of (vSolutions ! 0))
           else if whichType = TX_PUBKEY then
             Some (sign_with GetKey Sign h b (Hash160 (if CPubKey_IsValid (vSolutions ! 0) then vSolutions ! 0 else [])))
           else Some (False, b)))"

definition CheckBlockSignature ::
  "(bytes \<Rightarrow> uint256) \<Rightarrow> (bytes \<Rightarrow> uint256 \<Rightarrow> bytes \<Rightarrow> bool) \<Rightarrow> CBlock \<Rightarrow> bool option" where
  "CheckBlockSignature HashKeccak256 Verify b =
     (if IsProofOfWork b then Some (vchBlockSig b = [])
      else
        (case Solver (scriptPubKey (vout (vtx b ! 1) ! 1)) of (fRet, whichType, vSolutions) \<Rightarrow>
           if \<not> fRet then Some False
           else if whichType = TX_PUBKEY then
             if \<not> CPubKey_IsValid (vSolutions ! 0) then Some False
             else if vchBlockSig b = [] then Some False
             else Some (Verify (vSolutions ! 0) (Header_GetHash HashKeccak256 b) (vchBlockSig b))
           else if whichType = TX_PUBKEYHASH then
             (case uint160_of (vSolutions ! 0) of
                None \<Rightarrow> None
              | Some keyID \<Rightarrow>
                  if \<not> CPubKey_IsValid (vSolutions ! 0) then Some False
                  else if vchBlockSig b = [] then Some False
                  else Some (Verify (vSolutions ! 0) (Header_GetHash HashKeccak256 b) (vchBlockSig b)))
           else Some False))"

end
