(* ===== verification/Merkle.thy ===== *)
theory Merkle
  imports Block
begin

text \<open>
  Correctness of the Merkle tree of a block: the loop over one array computes the level-wise
  reference, branches verify, and a root that was not flagged as mutated binds the list of
  transactions.
\<close>

section \<open>Reference\<close>

fun pair_up :: "('a \<Rightarrow> 'a \<Rightarrow> 'a) \<Rightarrow> 'a list \<Rightarrow> 'a list" where
  "pair_up H [] = []"
| "pair_up H [x] = [H x x]"
| "pair_up H (x # y # xs) = H x y # pair_up H xs"

lemma length_pair_up [simp, termination_simp]: "length (pair_up H xs) = (length xs + 1) div 2"
  by (induction H xs rule: pair_up.induct) auto

fun merkle_root :: "(uint256 \<Rightarrow> uint256 \<Rightarrow> uint256) \<Rightarrow> uint256 list \<Rightarrow> uint256" where
  "merkle_root H [] = 0"
| "merkle_root H [x] = x"
| "merkle_root H (x # y # xs) = merkle_root H (pair_up H (x # y # xs))"

text \<open>The last two nodes of a level of even length are the same.\<close>

definition level_dup :: "'a list \<Rightarrow> bool" where
  "level_dup xs \<longleftrightarrow> xs \<noteq> [] \<and> even (length xs) \<and> xs ! (length xs - 2) = xs ! (length xs - 1)"

fun merkle_mutated :: "('a \<Rightarrow> 'a \<Rightarrow> 'a) \<Rightarrow> 'a list \<Rightarrow> bool" where
  "merkle_mutated H [] = False"
| "merkle_mutated H [x] = False"
| "merkle_mutated H (x # y # xs) = (level_dup (x # y # xs) \<or> merkle_mutated H (pair_up H (x # y # xs)))"

fun merkle_nodes :: "('a \<Rightarrow> 'a \<Rightarrow> 'a) \<Rightarrow> 'a list \<Rightarrow> 'a list" where
  "merkle_nodes H [] = []"
| "merkle_nodes H [x] = [x]"
| "merkle_nodes H (x # y # xs) = (x # y # xs) @ merkle_nodes H (pair_up H (x # y # xs))"

lemma merkle_unfold:
  "1 < length xs \<Longrightarrow> merkle_root H xs = merkle_root H (pair_up H xs)"
  "1 < length zs \<Longrightarrow> merkle_mutated G zs = (level_dup zs \<or> merkle_mutated G (pair_up G zs))"
  "1 < length zs \<Longrightarrow> merkle_nodes G zs = zs @ merkle_nodes G (pair_up G zs)"
  by (cases xs rule: remdups_adj.cases; simp) (cases zs rule: remdups_adj.cases; simp)+

lemma pair_up_nth:
  "i < length xs \<Longrightarrow>
   pair_up H xs ! (i div 2) =
     (if even i then H (xs ! i) (xs ! min (i + 1) (length xs - 1)) else H (xs ! (i - 1)) (xs ! i))"
proof (induction H xs arbitrary: i rule: pair_up.induct)
  case (3 H x y xs)
  show ?case
  proof (cases i)
    case (Suc i')
    show ?thesis
    proof (cases i')
      case (Suc k)
      then have k: "i = Suc (Suc k)" "k < length xs" using \<open>i = Suc i'\<close> 3(2) by simp_all
      then show ?thesis using 3(1) [OF k(2)] by (auto simp: min_def nth_Cons' elim!: oddE)
    qed (simp add: \<open>i = Suc i'\<close>)
  qed simp
qed (auto simp: less_Suc_eq)

fun pairs_of :: "'a list \<Rightarrow> ('a \<times> 'a) list" where
  "pairs_of [] = []"
| "pairs_of [x] = [(x, x)]"
| "pairs_of (x # y # xs) = (x, y) # pairs_of xs"

text \<open>The pairs that are hashed, and the number of levels above the leaves.\<close>

fun merkle_pairs :: "('a \<Rightarrow> 'a \<Rightarrow> 'a) \<Rightarrow> 'a list \<Rightarrow> ('a \<times> 'a) list" where
  "merkle_pairs H [] = []"
| "merkle_pairs H [x] = []"
| "merkle_pairs H (x # y # xs) = pairs_of (x # y # xs) @ merkle_pairs H (pair_up H (x # y # xs))"

fun merkle_depth :: "('a \<Rightarrow> 'a \<Rightarrow> 'a) \<Rightarrow> 'a list \<Rightarrow> nat" where
  "merkle_depth H [] = 0"
| "merkle_depth H [x] = 0"
| "merkle_depth H (x # y # xs) = Suc (merkle_depth H (pair_up H (x # y # xs)))"

lemma pair_up_map: "pair_up H xs = map (case_prod H) (pairs_of xs)"
  by (induction xs rule: pairs_of.induct) auto

section \<open>The loops\<close>

lemma merkle_level_eq:
  assumes "even i" "j + n \<le> length t"
  shows "merkle_level H j n i (t, m) =
    (t @ pair_up H (drop i (take n (drop j t))), m \<or> (i < n \<and> level_dup (take n (drop j t))))"
  using assms
proof (induction "n - i" arbitrary: i t m rule: less_induct)
  case less
  let ?l = "take n (drop j t)"
  have l: "length ?l = n" "\<And>k. k < n \<Longrightarrow> ?l ! k = t ! (j + k)" using less.prems by simp_all
  show ?case
  proof (cases "i < n")
    case True
    let ?i2 = "min (i + 1) (n - 1)"
    let ?t = "t @ [H (t ! (j + i)) (t ! (j + ?i2))]"
    let ?m = "if ?i2 = i + 1 \<and> ?i2 + 1 = n \<and> t ! (j + i) = t ! (j + ?i2) then True else m"
    have IH: "merkle_level H j n (i + 2) (?t, ?m) =
        (?t @ pair_up H (drop (i + 2) ?l), ?m \<or> (i + 2 < n \<and> level_dup ?l))"
      using less.hyps [of "i + 2" ?t ?m] True less.prems by simp
    have "merkle_level H j n i (t, m) = merkle_level H j n (i + 2) (?t, ?m)"
      by (subst merkle_level.simps) (simp only: True if_True prod.case Let_def)
    moreover have "pair_up H (drop i ?l) = H (t ! (j + i)) (t ! (j + ?i2)) # pair_up H (drop (i + 2) ?l)"
    proof (cases "i + 1 < n")
      case True
      then have "drop i ?l = ?l ! i # ?l ! (i + 1) # drop (i + 2) ?l"
        using l(1) by (metis Cons_nth_drop_Suc Suc_eq_plus1 add_2_eq_Suc' add_lessD1)
      moreover have "?i2 = i + 1" using True by simp
      ultimately show ?thesis using True l(2) [of i] l(2) [of "i + 1"] by (simp only: pair_up.simps add.assoc)
    next
      case False
      then have n: "n = Suc i" using \<open>i < n\<close> by simp
      then have "drop i ?l = [?l ! i]" using l(1) by (metis Cons_nth_drop_Suc drop_all lessI order_refl)
      then show ?thesis using n l(2) [of i] l(1) by simp
    qed
    moreover have "(?m \<or> (i + 2 < n \<and> level_dup ?l)) = (m \<or> (i < n \<and> level_dup ?l))"
    proof -
      have "?i2 = i + 1 \<and> ?i2 + 1 = n \<longleftrightarrow> n = i + 2" using True by auto
      moreover have "level_dup ?l \<longleftrightarrow> even n \<and> t ! (j + (n - 2)) = t ! (j + (n - 1))"
        using l True by (auto simp: level_dup_def)
      moreover have "i + 2 < n \<or> n = i + 2" if "even n" using that less.prems(1) True by presburger
      ultimately show ?thesis using True less.prems(1) by (cases "n = i + 2") auto
    qed
    ultimately show ?thesis using IH by simp
  qed (subst merkle_level.simps, simp)
qed

lemma merkle_loop_eq:
  assumes "j + length xs = length t" "drop j t = xs"
  shows "merkle_loop H j (length xs) (t, m) = (take j t @ merkle_nodes H xs, m \<or> merkle_mutated H xs)"
  using assms
proof (induction "length xs" arbitrary: j xs t m rule: less_induct)
  case less
  have t: "t = take j t @ xs" using less.prems(2) by (metis append_take_drop_id)
  show ?case
  proof (cases "1 < length xs")
    case True
    have lev: "merkle_level H j (length xs) 0 (t, m) = (t @ pair_up H xs, m \<or> level_dup xs)"
      using merkle_level_eq [of 0 j "length xs" t H m] less.prems True by (auto simp: level_dup_def)
    have "merkle_loop H (j + length xs) (length (pair_up H xs)) (t @ pair_up H xs, m \<or> level_dup xs) =
        (take (j + length xs) (t @ pair_up H xs) @ merkle_nodes H (pair_up H xs),
         (m \<or> level_dup xs) \<or> merkle_mutated H (pair_up H xs))"
      using True less.prems(1) by (intro less.hyps) auto
    moreover have "merkle_loop H j (length xs) (t, m) =
        merkle_loop H (j + length xs) (length (pair_up H xs)) (t @ pair_up H xs, m \<or> level_dup xs)"
      by (subst merkle_loop.simps) (use True lev in simp)
    moreover have "take (j + length xs) (t @ pair_up H xs) = take j t @ xs" using less.prems(1) t by simp
    ultimately show ?thesis using merkle_unfold(2,3) [OF True, of H] by simp
  next
    case False
    then show ?thesis using t by (cases xs rule: remdups_adj.cases) (subst merkle_loop.simps, simp)+
  qed
qed

lemma last_merkle_nodes: "xs \<noteq> [] \<Longrightarrow> merkle_nodes H xs \<noteq> [] \<and> last (merkle_nodes H xs) = merkle_root H xs"
proof (induction H xs rule: merkle_nodes.induct)
  case (3 H x y xs)
  moreover have "pair_up H (x # y # xs) \<noteq> []" by simp
  ultimately show ?case by (simp del: pair_up.simps)
qed simp_all

lemma BuildMerkleTree_eq: "BuildMerkleTree H txids = (merkle_root H txids, merkle_mutated H txids, merkle_nodes H txids)"
  using merkle_loop_eq [of 0 txids txids H False] last_merkle_nodes [of txids H]
  by (cases "txids = []") (simp_all add: BuildMerkleTree_def)

section \<open>Branches\<close>

fun ref_branch :: "('a \<Rightarrow> 'a \<Rightarrow> 'a) \<Rightarrow> 'a list \<Rightarrow> nat \<Rightarrow> 'a list" where
  "ref_branch H [] i = []"
| "ref_branch H [x] i = []"
| "ref_branch H (x # y # xs) i =
     (x # y # xs) ! min (i XOR 1) (length xs + 1) # ref_branch H (pair_up H (x # y # xs)) (i div 2)"

lemma branch_loop_eq: "branch_loop (pre @ merkle_nodes H xs) (length pre) (length xs) i = ref_branch H xs i"
proof (induction H xs i arbitrary: pre rule: ref_branch.induct)
  case (3 H x y xs i)
  let ?l = "x # y # xs"
  have "branch_loop ((pre @ ?l) @ merkle_nodes H (pair_up H ?l)) (length (pre @ ?l)) (length (pair_up H ?l)) (i div 2) =
      ref_branch H (pair_up H ?l) (i div 2)" by (rule 3)
  moreover have "(pre @ merkle_nodes H ?l) ! (length pre + k) = ?l ! k" if "k < length ?l" for k
    using that by (simp only: merkle_nodes.simps) (simp add: nth_append del: append_Cons)
  moreover have "min (i XOR 1) (length xs + 1) < length ?l" by simp
  moreover have "pre @ merkle_nodes H ?l = (pre @ ?l) @ merkle_nodes H (pair_up H ?l)" by simp
  ultimately have "branch_loop (pre @ merkle_nodes H ?l) (length pre) (length ?l) i =
      ?l ! min (i XOR 1) (length xs + 1) # ref_branch H (pair_up H ?l) (i div 2)"
    by (subst branch_loop.simps) (simp only: length_append length_pair_up, simp)
  then show ?case by simp
qed (subst branch_loop.simps, simp)+

lemma xor_one: "(i :: nat) XOR 1 = (if even i then i + 1 else i - 1)"
  by (simp add: xor_one_eq xor_Suc_0_eq)

lemma check_ref_branch:
  "i < length xs \<Longrightarrow> check_branch_loop H (xs ! i) (ref_branch H xs i) (int i) = merkle_root H xs"
proof (induction H xs i rule: ref_branch.induct)
  case (3 H x y xs i)
  let ?l = "x # y # xs"
  have odd: "int i AND 1 \<noteq> 0 \<longleftrightarrow> odd i" unfolding and_one_eq by presburger
  have "(if int i AND 1 \<noteq> 0 then H (?l ! min (i XOR 1) (length xs + 1)) (?l ! i) else H (?l ! i) (?l ! min (i XOR 1) (length xs + 1))) =
      pair_up H ?l ! (i div 2)"
    unfolding odd pair_up_nth [OF 3(2)] xor_one using 3(2) by (auto simp: min_def)
  moreover have "int i div 2 = int (i div 2)" by simp
  ultimately have "check_branch_loop H (?l ! i) (ref_branch H ?l i) (int i) =
      check_branch_loop H (pair_up H ?l ! (i div 2)) (ref_branch H (pair_up H ?l) (i div 2)) (int (i div 2))"
    by (simp only: ref_branch.simps check_branch_loop.simps)
  also have "\<dots> = merkle_root H (pair_up H ?l)" using 3(2) by (intro 3(1)) simp
  finally show ?case by simp
qed simp_all

text \<open>The Merkle branch that \<^verbatim>\<open>GetMerkleBranch\<close> extracts for a transaction of a block leads from its
  hash to the Merkle root: \<^verbatim>\<open>CheckMerkleBranch\<close> returns the root that \<^verbatim>\<open>BuildMerkleTree\<close> computes,
  for every number of transactions and every position, whether or not the block already holds its tree.\<close>

theorem MerkleBranch_complete:
  assumes "i < length txids" "vMerkleTree = [] \<or> vMerkleTree = snd (snd (BuildMerkleTree H txids))"
  shows "CheckMerkleBranch H (txids ! i) (GetMerkleBranch H vMerkleTree txids i) (int i) = fst (BuildMerkleTree H txids)"
  using check_ref_branch [OF assms(1)] branch_loop_eq [of "[]" H txids i] assms(2)
  by (auto simp add: CheckMerkleBranch_def GetMerkleBranch_def BuildMerkleTree_eq)

theorem MerkleBranch_complete_witness:
  "CheckMerkleBranch (\<lambda>a b. 3 * a + b) 30 (GetMerkleBranch (\<lambda>a b. 3 * a + b) [] [10, 20, 30] 2) 2 =
    fst (BuildMerkleTree (\<lambda>a b. 3 * a + b) [10, 20, 30])"
  using MerkleBranch_complete [of 2 "[10, 20, 30]" "[]"] by simp

section \<open>The root binds the transactions\<close>

lemma pair_up_eq_Nil [simp]: "pair_up H xs = [] \<longleftrightarrow> xs = []"
  by (cases xs rule: pairs_of.cases) auto

lemma pairs_of_eq_Nil [simp]: "pairs_of xs = [] \<longleftrightarrow> xs = []" "[] = pairs_of xs \<longleftrightarrow> xs = []"
  by (cases xs rule: pairs_of.cases; simp)+

lemma level_dup_simps [simp]:
  "\<not> level_dup [x]" "level_dup (x # y # xs) \<longleftrightarrow> (if xs = [] then x = y else level_dup xs)"
proof -
  show "level_dup (x # y # xs) \<longleftrightarrow> (if xs = [] then x = y else level_dup xs)"
  proof (cases xs rule: pairs_of.cases)
    case (3 u v zs)
    then have "(x # y # xs) ! (length (x # y # xs) - 2) = xs ! (length xs - 2)"
      "(x # y # xs) ! (length (x # y # xs) - 1) = xs ! (length xs - 1)" by simp_all
    then show ?thesis using 3 by (simp add: level_dup_def del: One_nat_def)
  qed (simp_all add: level_dup_def)
qed (simp add: level_dup_def)

lemma pairs_of_inj:
  "pairs_of xs = pairs_of ys \<Longrightarrow> \<not> level_dup xs \<Longrightarrow> \<not> level_dup ys \<Longrightarrow> xs = ys"
proof (induction xs arbitrary: ys rule: pairs_of.induct)
  case 1
  then show ?case by (cases ys rule: pairs_of.cases) auto
next
  case (2 x)
  then show ?case by (cases ys rule: pairs_of.cases) auto
next
  case (3 x y xs)
  show ?case
  proof (cases ys rule: pairs_of.cases)
    case (3 u v zs)
    then have zs: "u = x" "v = y" "pairs_of xs = pairs_of zs" using "3.prems"(1) by simp_all
    show ?thesis
    proof (cases "xs = [] \<or> zs = []")
      case True
      then have "xs = [] \<and> zs = []" using zs(3) by auto
      then show ?thesis using 3 zs by simp
    next
      case False
      then show ?thesis using "3.IH" [of zs] "3.prems" 3 zs by simp
    qed
  qed (use "3.prems" in \<open>auto split: if_splits\<close>)
qed

lemma merkle_same_depth:
  assumes "merkle_depth H xs = merkle_depth H ys" "xs \<noteq> []" "ys \<noteq> []"
    "\<not> merkle_mutated H xs" "\<not> merkle_mutated H ys"
    "inj_on (case_prod H) (set (merkle_pairs H xs) \<union> set (merkle_pairs H ys))"
    "merkle_root H xs = merkle_root H ys"
  shows "xs = ys"
  using assms
proof (induction H xs arbitrary: ys rule: merkle_depth.induct)
  case (2 H x)
  then show ?case by (cases ys rule: remdups_adj.cases) auto
next
  case (3 H x y xs)
  let ?l = "x # y # xs"
  obtain u v zs where ys: "ys = u # v # zs" using "3.prems"(1,3) by (cases ys rule: remdups_adj.cases) auto
  have "inj_on (case_prod H) (set (merkle_pairs H (pair_up H ?l)) \<union> set (merkle_pairs H (pair_up H ys)))"
    using "3.prems"(6) unfolding ys by (rule inj_on_subset) (auto simp del: pairs_of.simps pair_up.simps)
  moreover have "merkle_depth H (pair_up H ?l) = merkle_depth H (pair_up H ys)"
    "\<not> merkle_mutated H (pair_up H ?l)" "\<not> merkle_mutated H (pair_up H ys)"
    "merkle_root H (pair_up H ?l) = merkle_root H (pair_up H ys)"
    using "3.prems"(1,4,5,7) unfolding ys by (simp_all del: pair_up.simps)
  ultimately have "pair_up H ?l = pair_up H ys" by (intro "3.IH") (simp_all add: ys)
  then have "map (case_prod H) (pairs_of ?l) = map (case_prod H) (pairs_of ys)" by (simp only: pair_up_map)
  moreover have "inj_on (case_prod H) (set (pairs_of ?l) \<union> set (pairs_of ys))"
    using "3.prems"(6) unfolding ys by (rule inj_on_subset) (auto simp del: pairs_of.simps)
  ultimately have "pairs_of ?l = pairs_of ys" by (simp only: inj_on_map_eq_map)
  moreover have "\<not> level_dup ?l" "\<not> level_dup ys" using "3.prems"(4,5) unfolding ys merkle_mutated.simps by blast+
  ultimately show ?case by (rule pairs_of_inj)
qed simp

lemma merkle_lift:
  assumes "d \<le> merkle_depth H ys" "ys \<noteq> []" "\<not> merkle_mutated H ys"
  shows "\<exists>zs. merkle_depth H zs = d \<and> zs \<noteq> [] \<and> \<not> merkle_mutated H zs \<and> merkle_root H zs = merkle_root H ys \<and>
    set (merkle_pairs H zs) \<subseteq> set (merkle_pairs H ys) \<and>
    (d < merkle_depth H ys \<longrightarrow> set zs \<subseteq> case_prod H ` set (merkle_pairs H ys))"
  using assms
proof (induction H ys rule: merkle_depth.induct)
  case (3 H x y xs)
  let ?l = "x # y # xs"
  have m: "\<not> merkle_mutated H (pair_up H ?l)" and pairs: "set (merkle_pairs H (pair_up H ?l)) \<subseteq> set (merkle_pairs H ?l)"
    using "3.prems"(3) by auto
  have up: "set (pair_up H ?l) \<subseteq> case_prod H ` set (merkle_pairs H ?l)" unfolding pair_up_map by auto
  consider "d = merkle_depth H ?l" | "d = merkle_depth H (pair_up H ?l)" | "d < merkle_depth H (pair_up H ?l)"
    using "3.prems"(1) by (simp del: pair_up.simps) linarith
  then show ?case
  proof cases
    case 1
    then show ?thesis using "3.prems"(3) by blast
  next
    case 2
    then show ?thesis using m pairs up by (intro exI [of _ "pair_up H ?l"]) (simp del: pair_up.simps merkle_pairs.simps)
  next
    case 3
    then obtain zs where "merkle_depth H zs = d" "zs \<noteq> []" "\<not> merkle_mutated H zs"
      "merkle_root H zs = merkle_root H (pair_up H ?l)" "set (merkle_pairs H zs) \<subseteq> set (merkle_pairs H (pair_up H ?l))"
      "set zs \<subseteq> case_prod H ` set (merkle_pairs H (pair_up H ?l))"
      using "3.IH" m by (metis less_imp_le_nat pair_up_eq_Nil list.distinct(1))
    moreover from this(6) pairs have "set zs \<subseteq> case_prod H ` set (merkle_pairs H ?l)" by blast
    ultimately show ?thesis using pairs
      by (intro exI [of _ zs]) (auto simp del: pair_up.simps merkle_pairs.simps)
  qed
next
  case (2 H x)
  then show ?case by (intro exI [of _ "[x]"]) simp
qed simp

lemma merkle_not_deeper:
  assumes "merkle_depth H xs < merkle_depth H ys" "xs \<noteq> []" "ys \<noteq> []"
    "\<not> merkle_mutated H xs" "\<not> merkle_mutated H ys"
    "inj_on (case_prod H) (set (merkle_pairs H xs) \<union> set (merkle_pairs H ys))"
    "merkle_root H xs = merkle_root H ys"
  shows "\<exists>x \<in> set xs. x \<in> case_prod H ` set (merkle_pairs H ys)"
proof -
  obtain zs where zs: "merkle_depth H zs = merkle_depth H xs" "zs \<noteq> []" "\<not> merkle_mutated H zs"
    "merkle_root H zs = merkle_root H ys" "set (merkle_pairs H zs) \<subseteq> set (merkle_pairs H ys)"
    "set zs \<subseteq> case_prod H ` set (merkle_pairs H ys)"
    using merkle_lift [of "merkle_depth H xs" H ys] assms(1,3,5) by auto
  have "inj_on (case_prod H) (set (merkle_pairs H xs) \<union> set (merkle_pairs H zs))"
    using assms(6) zs(5) by (auto intro: inj_on_subset)
  then have "xs = zs" using zs assms by (intro merkle_same_depth [of H]) auto
  then show ?thesis using zs(2,6) by (cases zs) auto
qed

lemma merkle_root_binding:
  assumes "fst (BuildMerkleTree H xs) = fst (BuildMerkleTree H ys)"
    and "\<not> fst (snd (BuildMerkleTree H xs))" "\<not> fst (snd (BuildMerkleTree H ys))"
    and "xs \<noteq> []" "ys \<noteq> []"
    and inj: "inj_on (case_prod H) (set (merkle_pairs H xs) \<union> set (merkle_pairs H ys))"
    and fresh: "(set xs \<union> set ys) \<inter> case_prod H ` (set (merkle_pairs H xs) \<union> set (merkle_pairs H ys)) = {}"
  shows "xs = ys"
proof -
  note root = assms(1-5) [unfolded BuildMerkleTree_eq fst_conv snd_conv]
  have inj': "inj_on (case_prod H) (set (merkle_pairs H ys) \<union> set (merkle_pairs H xs))" using inj by (simp add: Un_commute)
  consider "merkle_depth H xs = merkle_depth H ys" | "merkle_depth H xs < merkle_depth H ys" | "merkle_depth H ys < merkle_depth H xs"
    by linarith
  then show ?thesis
  proof cases
    case 1
    then show ?thesis using merkle_same_depth inj root by blast
  next
    case 2
    then show ?thesis using merkle_not_deeper [OF 2 root(4,5,2,3) inj root(1)] fresh by blast
  next
    case 3
    then show ?thesis using merkle_not_deeper [OF 3 root(5,4,3,2) inj' root(1) [symmetric]] fresh by blast
  qed
qed

text \<open>C15: the Merkle root binds the transactions of a block. Two non-empty lists of transaction ids that
  \<^verbatim>\<open>BuildMerkleTree\<close> does not flag as mutated and that give the same root are the same list, provided
  no two of the pairs hashed in the two trees collide and no id is the hash of such a pair. The
  flag is what excludes the known attack of repeating the last transactions of a block.\<close>

theorem BuildMerkleTree_binding:
  assumes "fst (BuildMerkleTree H xs) = fst (BuildMerkleTree H ys)"
    and "\<not> fst (snd (BuildMerkleTree H xs))" "\<not> fst (snd (BuildMerkleTree H ys))"
    and "xs \<noteq> []" "ys \<noteq> []"
    and inj: "inj_on (case_prod H) (set (merkle_pairs H xs) \<union> set (merkle_pairs H ys))"
    and fresh: "(set xs \<union> set ys) \<inter> case_prod H ` (set (merkle_pairs H xs) \<union> set (merkle_pairs H ys)) = {}"
  shows "xs = ys"
  using assms by (rule merkle_root_binding)

theorem BuildMerkleTree_binding_witness:
  "(\<not> fst (snd (BuildMerkleTree (\<lambda>a b. 100 * a + b) [1, 2, 3])) \<and> \<not> fst (snd (BuildMerkleTree (\<lambda>a b. 100 * a + b) [1, 3, 2]))) \<and>
   fst (BuildMerkleTree (\<lambda>a b. 100 * a + b) [1, 2, 3]) \<noteq> fst (BuildMerkleTree (\<lambda>a b. 100 * a + b) [1, 3, 2])"
proof -
  have m: "\<not> fst (snd (BuildMerkleTree (\<lambda>a b. 100 * a + b) [1, 2, 3]))" "\<not> fst (snd (BuildMerkleTree (\<lambda>a b. 100 * a + b) [1, 3, 2]))"
    unfolding BuildMerkleTree_eq by (simp_all add: level_dup_def)
  have "fst (BuildMerkleTree (\<lambda>a b. 100 * a + b) [1, 2, 3]) = fst (BuildMerkleTree (\<lambda>a b. 100 * a + b) [1, 3, 2]) \<longrightarrow>
      [1, 2, 3] = [1, 3, 2 :: uint256]"
    by (intro impI, rule BuildMerkleTree_binding [OF _ m]) (simp_all add: inj_on_def)
  then show ?thesis using m by simp
qed

end
