(* ===== verification/Block_Props.thy ===== *)
theory Block_Props
  imports Block
begin

text \<open>
  The wire format of blocks is canonical, and what the block signature check accepts.
\<close>

section \<open>Wire format\<close>

definition valid_block :: "CBlock \<Rightarrow> bool" where
  "valid_block b \<longleftrightarrow> length (vtx b) \<le> 0x02000000 \<and> list_all valid_tx (vtx b) \<and>
     (if IsProofOfStake b then length (vchBlockSig b) \<le> 0x02000000 else vchBlockSig b = [])"

interpretation header_codec: canonical_codec "SerializeHeader :: CBlockHeader \<Rightarrow> bytes" UnserializeHeader "\<lambda>_. True"
  by unfold_locales
    (auto simp: UnserializeHeader_def SerializeHeader_def reader_simps rbind_eq_Inr data_iff)

lemmas vtx_roundtrip = codec.roundtrip [OF tx_codec.vector_codec]
lemmas vtx_iff = canonical_codec.unser_iff [OF tx_codec.vector_canonical]

lemma SerializeHeader_GetBlockHeader: "SerializeHeader (GetBlockHeader b) = SerializeHeader b"
  by (simp add: SerializeHeader_def GetBlockHeader_def)

lemma length_SerializeHeader: "length (SerializeHeader b) = 80"
  by (simp add: SerializeHeader_def)

interpretation block_codec: canonical_codec SerializeBlock UnserializeBlock valid_block
proof
  show "UnserializeBlock (SerializeBlock b @ rest) = Inr (b, rest)" if "valid_block b" for b rest
  proof -
    have "SerializeHeader b = SerializeHeader (GetBlockHeader b)" by (rule SerializeHeader_GetBlockHeader [symmetric])
    moreover have "b = \<lparr>hdr_nVersion = hdr_nVersion b, hashPrevBlock = hashPrevBlock b, hashMerkleRoot = hashMerkleRoot b,
        nTime = nTime b, nBits = nBits b, nNonce = nNonce b, vtx = vtx b, vchBlockSig = vchBlockSig b\<rparr>" by simp
    ultimately show ?thesis using that
      by (auto simp: UnserializeBlock_def SerializeBlock_def valid_block_def IsProofOfStake_def reader_simps
        header_codec.roundtrip vtx_roundtrip bytes_codec.roundtrip list_all_iff GetBlockHeader_def rbind_def)
  qed
  show "valid_block b \<and> s = SerializeBlock b @ rest" if "UnserializeBlock s = Inr (b, rest)" for s b rest
    using that
    by (auto simp: UnserializeBlock_def SerializeBlock_def valid_block_def IsProofOfStake_def rret_apply rbind_eq_Inr
      header_codec.unser_iff vtx_iff bytes_codec.unser_iff list_all_iff SerializeHeader_def split: if_splits)
qed

text \<open>C17: reading a block succeeds exactly if the stream starts with the serialization of that block:
  the format round-trips and is canonical. The signature is on the wire exactly for
  proof-of-stake blocks; a proof-of-work block is read with an empty one.\<close>

theorem UnserializeBlock_iff:
  "UnserializeBlock s = Inr (b, rest) \<longleftrightarrow> valid_block b \<and> s = SerializeBlock b @ rest"
  by (rule block_codec.unser_iff)

section \<open>Block signature\<close>

lemma CPubKey_valid_length: "CPubKey_IsValid vch \<Longrightarrow> length vch = 33 \<or> length vch = 65"
  by (auto simp: CPubKey_IsValid_def CPubKey_GetLen_def Let_def split: if_splits)

lemma Solver_KeyID: "length h = 20 \<Longrightarrow> Solver (GetScriptForDestination (CKeyID h)) = (True, TX_PUBKEYHASH, [h])"
  using scan_P2PKH [of h] by simp

text \<open>C18: \<^verbatim>\<open>SignBlock\<close> signs a proof-of-stake block whose stake output pays to the hash of a key, but
  \<^verbatim>\<open>CheckBlockSignature\<close> rejects every such block, whatever the signature: it takes the 20-byte
  hash for a public key.\<close>

theorem CheckBlockSignature_rejects_keyhash:
  assumes "IsProofOfStake b" "length h = 20" "scriptPubKey (vout (vtx b ! 1) ! 1) = GetScriptForDestination (CKeyID h)"
    and "GetKey h = Some key" "Sign key (Header_GetHash HashKeccak256 b) = Some sig"
  shows "case SignBlock HashKeccak256 Hash160 GetKey Sign b of
      Some (ok, b') \<Rightarrow> ok \<and> vchBlockSig b' = sig \<and> CheckBlockSignature HashKeccak256 Verify b' = Some False
    | None \<Rightarrow> False"
proof -
  have "\<not> CPubKey_IsValid h" using CPubKey_valid_length [of h] assms(2) by auto
  moreover have "IsProofOfStake (b\<lparr>vchBlockSig := sig\<rparr>)" using assms(1) by (simp add: IsProofOfStake_def)
  ultimately show ?thesis
    using assms Solver_KeyID [OF assms(2)]
    by (simp add: SignBlock_def CheckBlockSignature_def IsProofOfWork_def uint160_of_def sign_with_def Let_def)
qed

text \<open>A coinstake transaction that pays to a key hash.\<close>

definition demo_stake :: CBlock where
  "demo_stake = \<lparr>hdr_nVersion = 4, hashPrevBlock = 1, hashMerkleRoot = 2, nTime = 3, nBits = 4, nNonce = 0,
     vtx = [demo_tx, demo_tx\<lparr>vout := [\<lparr>nValue = 0, scriptPubKey = []\<rparr>,
       \<lparr>nValue = 9, scriptPubKey = GetScriptForDestination (CKeyID (replicate 20 7))\<rparr>]\<rparr>], vchBlockSig = []\<rparr>"

theorem CheckBlockSignature_rejects_keyhash_witness:
  "case SignBlock (\<lambda>_. 5) id (\<lambda>_. Some ()) (\<lambda>_ _. Some [1]) demo_stake of
      Some (ok, b') \<Rightarrow> ok \<and> vchBlockSig b' = [1] \<and> CheckBlockSignature (\<lambda>_. 5) (\<lambda>_ _ _. True) b' = Some False
    | None \<Rightarrow> False"
  by (rule CheckBlockSignature_rejects_keyhash [where h = "replicate 20 7" and key = "()"])
    (simp_all add: demo_stake_def demo_tx_def IsProofOfStake_def IsCoinStake_def COutPoint_IsNull_def CTxOut_IsEmpty_def)

text \<open>For a proof-of-stake block whose stake output pays to a public key, the check accepts
  what \<^verbatim>\<open>SignBlock\<close> wrote, if the key store has the key and ECDSA verifies its own signatures.\<close>

lemma CheckBlockSignature_SignBlock:
  assumes "IsProofOfStake b" "Solver (scriptPubKey (vout (vtx b ! 1) ! 1)) = (True, TX_PUBKEY, [pk])"
    and "CPubKey_IsValid pk" "GetKey (Hash160 pk) = Some key" "Sign key (Header_GetHash HashKeccak256 b) = Some sig"
    and "sig \<noteq> []" "Verify pk (Header_GetHash HashKeccak256 b) sig"
  shows "SignBlock HashKeccak256 Hash160 GetKey Sign b = Some (True, b\<lparr>vchBlockSig := sig\<rparr>) \<and>
    CheckBlockSignature HashKeccak256 Verify (b\<lparr>vchBlockSig := sig\<rparr>) = Some True"
proof -
  have "IsProofOfStake (b\<lparr>vchBlockSig := sig\<rparr>)" using assms(1) by (simp add: IsProofOfStake_def)
  moreover have "Header_GetHash HashKeccak256 (b\<lparr>vchBlockSig := sig\<rparr>) = Header_GetHash HashKeccak256 b"
    by (simp add: Header_GetHash_def SerializeHeader_def)
  ultimately show ?thesis using assms
    by (simp add: SignBlock_def CheckBlockSignature_def IsProofOfWork_def sign_with_def Let_def)
qed

end
