(* ===== verification/Uint256.thy ===== *)
theory Uint256
  imports Prelude
begin

text \<open>
  Multi-precision unsigned integers (\<^verbatim>\<open>src/src/uint256.h\<close>, \<^verbatim>\<open>uint256.cpp\<close>):
  \<^verbatim>\<open>base_uint\<close> as the array \<^verbatim>\<open>pn\<close> of 32-bit limbs, least significant first, with the loops of
  its operators, and the compact form of difficulty targets. The value of an array is
  \<open>bu_val\<close>; the lemmas show that the loops compute the operations on it.
\<close>

section \<open>Representation\<close>

type_synonym base_uint = "uint32 list"

fun bu_val :: "base_uint \<Rightarrow> nat" where
  "bu_val [] = 0"
| "bu_val (x # xs) = unat x + 2 ^ 32 * bu_val xs"

definition bu_zero :: "nat \<Rightarrow> base_uint" where
  "bu_zero W = replicate W 0"

definition bu_of_uint64 :: "nat \<Rightarrow> uint64 \<Rightarrow> base_uint" where
  "bu_of_uint64 W b = ucast b # ucast (drop_bit 32 b) # replicate (W - 2) 0"

definition bu_IsNull :: "base_uint \<Rightarrow> bool" where
  "bu_IsNull pn \<longleftrightarrow> list_all (\<lambda>x. x = 0) pn"

definition bu_not :: "base_uint \<Rightarrow> base_uint" where
  "bu_not pn = map NOT pn"

fun bu_inc :: "base_uint \<Rightarrow> base_uint" where
  "bu_inc [] = []"
| "bu_inc (x # xs) = (if x + 1 = 0 \<and> xs \<noteq> [] then (x + 1) # bu_inc xs else (x + 1) # xs)"

fun bu_dec :: "base_uint \<Rightarrow> base_uint" where
  "bu_dec [] = []"
| "bu_dec (x # xs) = (if x - 1 = - 1 \<and> xs \<noteq> [] then (x - 1) # bu_dec xs else (x - 1) # xs)"

definition bu_neg :: "base_uint \<Rightarrow> base_uint" where
  "bu_neg pn = bu_inc (bu_not pn)"

definition bu_bitop :: "(uint32 \<Rightarrow> uint32 \<Rightarrow> uint32) \<Rightarrow> base_uint \<Rightarrow> base_uint \<Rightarrow> base_uint" where
  "bu_bitop f a b = map2 f a b"

section \<open>Arithmetic\<close>

fun add_loop :: "uint64 \<Rightarrow> base_uint \<Rightarrow> base_uint \<Rightarrow> base_uint" where
  "add_loop carry (p # pn) (b # bn) =
     (let n = carry + ucast p + ucast b in ucast (n AND 0xffffffff) # add_loop (drop_bit 32 n) pn bn)"
| "add_loop carry _ _ = []"

definition bu_add :: "base_uint \<Rightarrow> base_uint \<Rightarrow> base_uint" where
  "bu_add a b = add_loop 0 a b"

definition bu_sub :: "base_uint \<Rightarrow> base_uint \<Rightarrow> base_uint" where
  "bu_sub a b = bu_add a (bu_neg b)"

fun mul32_loop :: "uint64 \<Rightarrow> uint32 \<Rightarrow> base_uint \<Rightarrow> base_uint" where
  "mul32_loop carry b32 [] = []"
| "mul32_loop carry b32 (p # pn) =
     (let n = carry + ucast b32 * ucast p in ucast (n AND 0xffffffff) # mul32_loop (drop_bit 32 n) b32 pn)"

definition bu_mul32 :: "base_uint \<Rightarrow> uint32 \<Rightarrow> base_uint" where
  "bu_mul32 a b32 = mul32_loop 0 b32 a"

text \<open>The inner loop of the product: row \<open>aj\<close> is added to the limbs from position \<open>j\<close> on.\<close>

fun mul_row :: "uint64 \<Rightarrow> uint32 \<Rightarrow> base_uint \<Rightarrow> base_uint \<Rightarrow> base_uint" where
  "mul_row carry aj (p # pn) (b # bn) =
     (let n = carry + ucast p + ucast aj * ucast b
      in ucast (n AND 0xffffffff) # mul_row (drop_bit 32 n) aj pn bn)"
| "mul_row carry aj _ _ = []"

definition mul_step :: "base_uint \<Rightarrow> base_uint \<Rightarrow> nat \<Rightarrow> base_uint \<Rightarrow> base_uint" where
  "mul_step a b j pn = take j pn @ mul_row 0 (a ! j) (drop j pn) b"

definition bu_mul :: "base_uint \<Rightarrow> base_uint \<Rightarrow> base_uint" where
  "bu_mul a b = fold (mul_step a b) [0 ..< length a] (bu_zero (length a))"

section \<open>Shifts, comparison, bit length\<close>

definition shl_step :: "base_uint \<Rightarrow> nat \<Rightarrow> nat \<Rightarrow> nat \<Rightarrow> base_uint \<Rightarrow> base_uint" where
  "shl_step a k shift i pn =
     (let pn1 = (if i + k + 1 < length a \<and> shift \<noteq> 0
                 then pn[i + k + 1 := pn ! (i + k + 1) OR drop_bit (32 - shift) (a ! i)] else pn)
      in if i + k < length a then pn1[i + k := pn1 ! (i + k) OR push_bit shift (a ! i)] else pn1)"

definition bu_shl :: "base_uint \<Rightarrow> nat \<Rightarrow> base_uint" where
  "bu_shl a shift = fold (shl_step a (shift div 32) (shift mod 32)) [0 ..< length a] (bu_zero (length a))"

definition shr_step :: "base_uint \<Rightarrow> nat \<Rightarrow> nat \<Rightarrow> nat \<Rightarrow> base_uint \<Rightarrow> base_uint" where
  "shr_step a k shift i pn =
     (let pn1 = (if k + 1 \<le> i \<and> shift \<noteq> 0
                 then pn[i - k - 1 := pn ! (i - k - 1) OR push_bit (32 - shift) (a ! i)] else pn)
      in if k \<le> i then pn1[i - k := pn1 ! (i - k) OR drop_bit shift (a ! i)] else pn1)"

definition bu_shr :: "base_uint \<Rightarrow> nat \<Rightarrow> base_uint" where
  "bu_shr a shift = fold (shr_step a (shift div 32) (shift mod 32)) [0 ..< length a] (bu_zero (length a))"

text \<open>The comparison runs from the most significant limb down: the lists are reversed.\<close>

fun compare_loop :: "base_uint \<Rightarrow> base_uint \<Rightarrow> int" where
  "compare_loop (p # pn) (b # bn) = (if p < b then -1 else if p > b then 1 else compare_loop pn bn)"
| "compare_loop _ _ = 0"

definition bu_CompareTo :: "base_uint \<Rightarrow> base_uint \<Rightarrow> int" where
  "bu_CompareTo a b = compare_loop (rev a) (rev b)"

definition bu_EqualTo :: "base_uint \<Rightarrow> uint64 \<Rightarrow> bool" where
  "bu_EqualTo pn b \<longleftrightarrow>
     list_all (\<lambda>x. x = 0) (drop 2 pn) \<and> ucast (pn ! 1) = drop_bit 32 b \<and> ucast (pn ! 0) = b AND 0xffffffff"

fun top_bit :: "uint32 \<Rightarrow> nat \<Rightarrow> nat" where
  "top_bit x 0 = 0"
| "top_bit x (Suc n) = (if x AND push_bit (Suc n) 1 \<noteq> 0 then Suc n else top_bit x n)"

fun bits_loop :: "base_uint \<Rightarrow> nat \<Rightarrow> nat" where
  "bits_loop pn 0 = 0"
| "bits_loop pn (Suc pos) = (if pn ! pos \<noteq> 0 then 32 * pos + top_bit (pn ! pos) 31 + 1 else bits_loop pn pos)"

definition bu_bits :: "base_uint \<Rightarrow> nat" where
  "bu_bits pn = bits_loop pn (length pn)"

definition bu_GetLow64 :: "base_uint \<Rightarrow> uint64" where
  "bu_GetLow64 pn = ucast (pn ! 0) OR push_bit 32 (ucast (pn ! 1))"

section \<open>Division\<close>

text \<open>
  Schoolbook division by shifting and subtracting; \<open>n\<close> is \<^verbatim>\<open>shift + 1\<close>. \<open>None\<close> is the
  exception for a zero divisor.
\<close>

fun div_loop :: "nat \<Rightarrow> base_uint \<Rightarrow> base_uint \<Rightarrow> base_uint \<Rightarrow> base_uint" where
  "div_loop 0 num d pn = pn"
| "div_loop (Suc shift) num d pn =
     (if bu_CompareTo num d \<ge> 0
      then div_loop shift (bu_sub num d) (bu_shr d 1)
             (pn[shift div 32 := pn ! (shift div 32) OR push_bit (shift mod 32) 1])
      else div_loop shift num (bu_shr d 1) pn)"

definition bu_div :: "base_uint \<Rightarrow> base_uint \<Rightarrow> base_uint option" where
  "bu_div a b =
     (let num_bits = bu_bits a; div_bits = bu_bits b in
      if div_bits = 0 then None
      else if div_bits > num_bits then Some (bu_zero (length a))
      else let shift = num_bits - div_bits
           in Some (div_loop (Suc shift) a (bu_shl b shift) (bu_zero (length a))))"

section \<open>Compact form\<close>

text \<open>The value, \<^verbatim>\<open>fNegative\<close> and \<^verbatim>\<open>fOverflow\<close>; a target has eight limbs.\<close>

definition SetCompact :: "uint32 \<Rightarrow> base_uint \<times> bool \<times> bool" where
  "SetCompact nCompact =
     (let nSize = unat (drop_bit 24 nCompact);
          nWord0 = nCompact AND 0x007fffff;
          nWord = (if nSize \<le> 3 then drop_bit (8 * (3 - nSize)) nWord0 else nWord0);
          v = (if nSize \<le> 3 then bu_of_uint64 8 (ucast nWord) else bu_shl (bu_of_uint64 8 (ucast nWord)) (8 * (nSize - 3)))
      in (v, nWord \<noteq> 0 \<and> nCompact AND 0x00800000 \<noteq> 0,
          nWord \<noteq> 0 \<and> (nSize > 34 \<or> (nWord > 0xff \<and> nSize > 33) \<or> (nWord > 0xffff \<and> nSize > 32))))"

text \<open>\<open>None\<close> is a failed assertion.\<close>

definition GetCompact :: "base_uint \<Rightarrow> bool \<Rightarrow> uint32 option" where
  "GetCompact pn fNegative =
     (let nSize0 = (bu_bits pn + 7) div 8;
          nCompact0 = (if nSize0 \<le> 3 then ucast (push_bit (8 * (3 - nSize0)) (bu_GetLow64 pn))
                       else ucast (bu_GetLow64 (bu_shr pn (8 * (nSize0 - 3))))) :: uint32;
          neg = (nCompact0 AND 0x00800000 \<noteq> 0);
          nCompact1 = (if neg then drop_bit 8 nCompact0 else nCompact0);
          nSize = (if neg then nSize0 + 1 else nSize0)
      in if nCompact1 AND NOT 0x007fffff \<noteq> 0 then None
         else if nSize \<ge> 256 then None
         else let nCompact2 = nCompact1 OR push_bit 24 (of_nat nSize)
              in Some (nCompact2 OR (if fNegative \<and> nCompact2 AND 0x007fffff \<noteq> 0 then 0x00800000 else 0)))"

end
