(* ===== verification/Chain.thy ===== *)
theory Chain
  imports Block Uint256
begin

text \<open>
  The tree of block headers and the active chain (\<^verbatim>\<open>src/src/chain.h\<close>, \<^verbatim>\<open>chain.cpp\<close>,
  \<^verbatim>\<open>main.cpp\<close>). The objects of type \<^verbatim>\<open>CBlockIndex\<close> stand in a list, in the order of their
  allocation, and a pointer is a position in it; a null pointer is \<open>None\<close>. Heights are never negative
  and are natural numbers. A loop that follows pointers and need not end is a partial function:
  \<open>None\<close> is its non-termination or an access through a null pointer or outside a vector.
\<close>

section \<open>Data\<close>

record CBlockIndex =
  phashBlock :: "uint256 option"
  pprev :: "nat option"
  pnext :: "nat option"
  pskip :: "nat option"
  bnChainTrust :: uint256
  bi_nHeight :: nat
  nFile :: int
  nDataPos :: uint32
  nUndoPos :: uint32
  nChainWork :: uint256
  nTx :: uint32
  nChainTx :: uint32
  nStatus :: uint32
  nFlags :: uint32
  nStakeModifier :: uint64
  nStakeModifierChecksum :: uint32
  prevoutStake :: COutPoint
  nStakeTime :: uint32
  hashProofOfStake :: uint256
  nMint :: camount
  nMoneySupply :: camount
  bi_nVersion :: uint32
  bi_hashMerkleRoot :: uint256
  bi_nTime :: uint32
  bi_nBits :: uint32
  bi_nNonce :: uint32
  nSequenceId :: uint32

type_synonym block_store = "CBlockIndex list"

definition CBlockIndex_null :: CBlockIndex where
  "CBlockIndex_null =
     \<lparr>phashBlock = None, pprev = None, pnext = None, pskip = None, bnChainTrust = 0, bi_nHeight = 0, nFile = 0, nDataPos = 0,
      nUndoPos = 0, nChainWork = 0, nTx = 0, nChainTx = 0, nStatus = 0, nFlags = 0, nStakeModifier = 0,
      nStakeModifierChecksum = 0, prevoutStake = COutPoint_null, nStakeTime = 0, hashProofOfStake = 0, nMint = 0,
      nMoneySupply = 0, bi_nVersion = 0, bi_hashMerkleRoot = 0, bi_nTime = 0, bi_nBits = 0, bi_nNonce = 0, nSequenceId = 0\<rparr>"

definition BLOCK_PROOF_OF_STAKE :: uint32 where "BLOCK_PROOF_OF_STAKE = 1"
definition BLOCK_STAKE_ENTROPY :: uint32 where "BLOCK_STAKE_ENTROPY = 2"
definition BLOCK_STAKE_MODIFIER :: uint32 where "BLOCK_STAKE_MODIFIER = 4"

definition BLOCK_VALID_TREE :: uint32 where "BLOCK_VALID_TREE = 2"
definition BLOCK_VALID_TRANSACTIONS :: uint32 where "BLOCK_VALID_TRANSACTIONS = 3"
definition BLOCK_VALID_CHAIN :: uint32 where "BLOCK_VALID_CHAIN = 4"
definition BLOCK_VALID_SCRIPTS :: uint32 where "BLOCK_VALID_SCRIPTS = 5"
definition BLOCK_VALID_MASK :: uint32 where "BLOCK_VALID_MASK = 1 OR 2 OR 3 OR 4 OR 5"
definition BLOCK_HAVE_DATA :: uint32 where "BLOCK_HAVE_DATA = 8"
definition BLOCK_HAVE_UNDO :: uint32 where "BLOCK_HAVE_UNDO = 16"
definition BLOCK_FAILED_VALID :: uint32 where "BLOCK_FAILED_VALID = 32"
definition BLOCK_FAILED_CHILD :: uint32 where "BLOCK_FAILED_CHILD = 64"
definition BLOCK_FAILED_MASK :: uint32 where "BLOCK_FAILED_MASK = BLOCK_FAILED_VALID OR BLOCK_FAILED_CHILD"

definition Index_IsProofOfStake :: "CBlockIndex \<Rightarrow> bool" where
  "Index_IsProofOfStake p \<longleftrightarrow> nFlags p AND BLOCK_PROOF_OF_STAKE \<noteq> 0"

definition SetProofOfStake :: "CBlockIndex \<Rightarrow> CBlockIndex" where
  "SetProofOfStake p = p\<lparr>nFlags := nFlags p OR BLOCK_PROOF_OF_STAKE\<rparr>"

definition CBlockIndex_of_block :: "CBlock \<Rightarrow> CBlockIndex" where
  "CBlockIndex_of_block b =
     (let p = CBlockIndex_null\<lparr>bi_nVersion := hdr_nVersion b, bi_hashMerkleRoot := hashMerkleRoot b, bi_nTime := nTime b,
                               bi_nBits := nBits b, bi_nNonce := nNonce b\<rparr>
      in if IsProofOfStake b
         then SetProofOfStake (p\<lparr>prevoutStake := prevout (vin (vtx b ! 1) ! 0), nStakeTime := nTime b\<rparr>) else p)"

definition Index_GetBlockHeader :: "block_store \<Rightarrow> CBlockIndex \<Rightarrow> CBlockHeader" where
  "Index_GetBlockHeader st p =
     \<lparr>hdr_nVersion = bi_nVersion p,
      hashPrevBlock = (case pprev p of None \<Rightarrow> 0 | Some q \<Rightarrow> (case phashBlock (st ! q) of None \<Rightarrow> 0 | Some h \<Rightarrow> h)),
      hashMerkleRoot = bi_hashMerkleRoot p, nTime = bi_nTime p, nBits = bi_nBits p, nNonce = bi_nNonce p\<rparr>"

definition Index_GetBlockTime :: "CBlockIndex \<Rightarrow> int" where
  "Index_GetBlockTime p = uint (bi_nTime p)"

definition SetStakeEntropyBit :: "uint32 \<Rightarrow> CBlockIndex \<Rightarrow> bool \<times> CBlockIndex" where
  "SetStakeEntropyBit nEntropyBit p =
     (if nEntropyBit > 1 then (False, p)
      else (True, p\<lparr>nFlags := nFlags p OR (if nEntropyBit \<noteq> 0 then BLOCK_STAKE_ENTROPY else 0)\<rparr>))"

definition GeneratedStakeModifier :: "CBlockIndex \<Rightarrow> bool" where
  "GeneratedStakeModifier p \<longleftrightarrow> nFlags p AND BLOCK_STAKE_MODIFIER \<noteq> 0"

definition SetStakeModifier :: "uint64 \<Rightarrow> bool \<Rightarrow> CBlockIndex \<Rightarrow> CBlockIndex" where
  "SetStakeModifier nModifier fGenerated p =
     (let p' = p\<lparr>nStakeModifier := nModifier\<rparr>
      in if fGenerated then p'\<lparr>nFlags := nFlags p' OR BLOCK_STAKE_MODIFIER\<rparr> else p')"

text \<open>The assertion on the argument holds for the levels that the code passes.\<close>

definition Index_IsValid :: "uint32 \<Rightarrow> CBlockIndex \<Rightarrow> bool" where
  "Index_IsValid nUpTo p =
     (if nStatus p AND BLOCK_FAILED_MASK \<noteq> 0 then False else nStatus p AND BLOCK_VALID_MASK \<ge> nUpTo)"

definition RaiseValidity :: "uint32 \<Rightarrow> CBlockIndex \<Rightarrow> bool \<times> CBlockIndex" where
  "RaiseValidity nUpTo p =
     (if nStatus p AND BLOCK_FAILED_MASK \<noteq> 0 then (False, p)
      else if nStatus p AND BLOCK_VALID_MASK < nUpTo
      then (True, p\<lparr>nStatus := (nStatus p AND NOT BLOCK_VALID_MASK) OR nUpTo\<rparr>)
      else (False, p))"

section \<open>Walks to the root\<close>

text \<open>The times of the last eleven blocks.\<close>

primrec median_times :: "block_store \<Rightarrow> nat \<Rightarrow> nat option \<Rightarrow> int list" where
  "median_times st 0 pindex = []"
| "median_times st (Suc n) pindex =
     (case pindex of None \<Rightarrow> [] | Some p \<Rightarrow> Index_GetBlockTime (st ! p) # median_times st n (pprev (st ! p)))"

definition GetMedianTimePast :: "block_store \<Rightarrow> nat \<Rightarrow> int" where
  "GetMedianTimePast st p = (let ts = sort (median_times st 11 (Some p)) in ts ! (length ts div 2))"

primrec majority_loop :: "block_store \<Rightarrow> int \<Rightarrow> nat \<Rightarrow> nat \<Rightarrow> nat \<Rightarrow> nat option \<Rightarrow> nat" where
  "majority_loop st minVersion nRequired 0 nFound pstart = nFound"
| "majority_loop st minVersion nRequired (Suc n) nFound pstart =
     (case pstart of
        None \<Rightarrow> nFound
      | Some p \<Rightarrow>
          if nFound \<ge> nRequired then nFound
          else majority_loop st minVersion nRequired n
                 (if sint (bi_nVersion (st ! p)) \<ge> minVersion then nFound + 1 else nFound) (pprev (st ! p)))"

definition IsSuperMajority :: "nat \<Rightarrow> block_store \<Rightarrow> int \<Rightarrow> nat option \<Rightarrow> nat \<Rightarrow> bool" where
  "IsSuperMajority nToCheck st minVersion pstart nRequired \<longleftrightarrow>
     majority_loop st minVersion nRequired nToCheck 0 pstart \<ge> nRequired"

definition InvertLowestOne :: "nat \<Rightarrow> nat" where
  "InvertLowestOne n = n AND (n - 1)"

definition GetSkipHeight :: "nat \<Rightarrow> nat" where
  "GetSkipHeight height =
     (if height < 2 then 0
      else if height AND 1 \<noteq> 0 then InvertLowestOne (InvertLowestOne (height - 1)) + 1
      else InvertLowestOne height)"

lemma and_nat_le: "(x :: nat) AND y \<le> y"
proof -
  have "int (x AND y) \<le> int y" using AND_upper2 [of "int y" "int x"] by (simp add: and_nat_def)
  then show ?thesis by simp
qed

lemma InvertLowestOne_less: "0 < n \<Longrightarrow> InvertLowestOne n < n"
  using and_nat_le [of n "n - 1"] by (simp add: InvertLowestOne_def)

lemma GetSkipHeight_less: "0 < h \<Longrightarrow> GetSkipHeight h < h"
proof -
  assume "0 < h"
  have "InvertLowestOne (InvertLowestOne (h - 1)) < h - 1" if "2 \<le> h"
  proof (cases "InvertLowestOne (h - 1) = 0")
    case True
    then show ?thesis using that by (simp add: InvertLowestOne_def)
  next
    case False
    then show ?thesis using InvertLowestOne_less [of "InvertLowestOne (h - 1)"] InvertLowestOne_less [of "h - 1"] that by simp
  qed
  then show ?thesis using \<open>0 < h\<close> InvertLowestOne_less [of h] by (auto simp: GetSkipHeight_def)
qed

text \<open>The loop of \<^verbatim>\<open>GetAncestor\<close>: \<open>hw\<close> is \<^verbatim>\<open>heightWalk\<close>.\<close>

function ancestor_walk :: "block_store \<Rightarrow> nat \<Rightarrow> nat \<Rightarrow> nat \<Rightarrow> nat option" where
  "ancestor_walk st height p hw =
     (if hw > height then
        let heightSkip = GetSkipHeight hw; heightSkipPrev = GetSkipHeight (hw - 1)
        in if heightSkip = height \<or>
              (heightSkip > height \<and> \<not> (heightSkipPrev + 2 < heightSkip \<and> heightSkipPrev \<ge> height))
           then (case pskip (st ! p) of None \<Rightarrow> None | Some q \<Rightarrow> ancestor_walk st height q heightSkip)
           else (case pprev (st ! p) of None \<Rightarrow> None | Some q \<Rightarrow> ancestor_walk st height q (hw - 1))
      else Some p)"
  by pat_completeness auto
termination
  by (relation "measure (\<lambda>(st, height, p, hw). hw)") (auto simp: GetSkipHeight_less)

declare ancestor_walk.simps [simp del]

definition GetAncestor :: "block_store \<Rightarrow> nat \<Rightarrow> int \<Rightarrow> nat option" where
  "GetAncestor st p height =
     (if height > int (bi_nHeight (st ! p)) \<or> height < 0 then None
      else ancestor_walk st (nat height) p (bi_nHeight (st ! p)))"

definition BuildSkip :: "block_store \<Rightarrow> CBlockIndex \<Rightarrow> CBlockIndex" where
  "BuildSkip st p =
     (case pprev p of
        None \<Rightarrow> p
      | Some q \<Rightarrow> p\<lparr>pskip := GetAncestor st q (int (GetSkipHeight (bi_nHeight p)))\<rparr>)"

partial_function (option) common_loop :: "block_store \<Rightarrow> nat option \<Rightarrow> nat option \<Rightarrow> (nat option \<times> nat option) option" where
  "common_loop st pa pb =
     (case (pa, pb) of
        (Some a, Some b) \<Rightarrow> if a \<noteq> b then common_loop st (pprev (st ! a)) (pprev (st ! b)) else Some (pa, pb)
      | _ \<Rightarrow> Some (pa, pb))"

text \<open>The result of a call that ends is not null: the assertion fails for different pointers, and both cannot be null.\<close>

definition LastCommonAncestor :: "block_store \<Rightarrow> nat \<Rightarrow> nat \<Rightarrow> nat option" where
  "LastCommonAncestor st pa pb =
     (let ha = bi_nHeight (st ! pa); hb = bi_nHeight (st ! pb);
          pa' = (if ha > hb then GetAncestor st pa (int hb) else Some pa);
          pb' = (if hb > ha then GetAncestor st pb (int ha) else Some pb)
      in Option.bind (common_loop st pa' pb') (\<lambda>(a, b). if a = b then a else None))"

section \<open>The active chain\<close>

type_synonym CChain = "nat option list"

definition Genesis :: "CChain \<Rightarrow> nat option" where
  "Genesis vChain = (if length vChain > 0 then vChain ! 0 else None)"

definition Tip :: "CChain \<Rightarrow> nat option" where
  "Tip vChain = (if length vChain < 1 then None else vChain ! (length vChain - 1))"

definition Chain_at :: "CChain \<Rightarrow> int \<Rightarrow> nat option" where
  "Chain_at vChain nHeightIn =
     (if nHeightIn < 0 \<or> nHeightIn \<ge> int (length vChain) then None else vChain ! nat nHeightIn)"

definition Contains :: "block_store \<Rightarrow> CChain \<Rightarrow> nat \<Rightarrow> bool" where
  "Contains st vChain p \<longleftrightarrow> Chain_at vChain (int (bi_nHeight (st ! p))) = Some p"

definition Chain_Next :: "block_store \<Rightarrow> CChain \<Rightarrow> nat \<Rightarrow> nat option" where
  "Chain_Next st vChain p = (if Contains st vChain p then Chain_at vChain (int (bi_nHeight (st ! p)) + 1) else None)"

definition Chain_Height :: "CChain \<Rightarrow> int" where
  "Chain_Height vChain = int (length vChain) - 1"

partial_function (option) set_tip_loop :: "block_store \<Rightarrow> nat option \<Rightarrow> CChain \<Rightarrow> CChain option" where
  "set_tip_loop st pindex vChain =
     (case pindex of
        None \<Rightarrow> Some vChain
      | Some p \<Rightarrow>
          if bi_nHeight (st ! p) \<ge> length vChain then None
          else if vChain ! bi_nHeight (st ! p) \<noteq> Some p
          then set_tip_loop st (pprev (st ! p)) (vChain[bi_nHeight (st ! p) := Some p])
          else Some vChain)"

definition SetTip :: "block_store \<Rightarrow> CChain \<Rightarrow> nat option \<Rightarrow> CChain option" where
  "SetTip st vChain pindex =
     (case pindex of
        None \<Rightarrow> Some []
      | Some p \<Rightarrow>
          let n = bi_nHeight (st ! p) + 1
          in set_tip_loop st pindex (take n vChain @ replicate (n - length vChain) None))"

partial_function (option) find_fork_loop :: "block_store \<Rightarrow> CChain \<Rightarrow> nat option \<Rightarrow> nat option option" where
  "find_fork_loop st vChain pindex =
     (case pindex of
        None \<Rightarrow> Some None
      | Some p \<Rightarrow> if \<not> Contains st vChain p then find_fork_loop st vChain (pprev (st ! p)) else Some pindex)"

definition FindFork :: "block_store \<Rightarrow> CChain \<Rightarrow> nat \<Rightarrow> nat option option" where
  "FindFork st vChain p =
     find_fork_loop st vChain
       (if int (bi_nHeight (st ! p)) > Chain_Height vChain then GetAncestor st p (Chain_Height vChain) else Some p)"

text \<open>
  The locator: the hashes from the block back to the genesis block, in steps that double after
  the first ten. A block in the map always has its hash.
\<close>

partial_function (option) locator_loop ::
  "block_store \<Rightarrow> CChain \<Rightarrow> nat option \<Rightarrow> nat \<Rightarrow> nat list \<Rightarrow> nat list option" where
  "locator_loop st vChain pindex nStep vHave =
     (case pindex of
        None \<Rightarrow> Some vHave
      | Some p \<Rightarrow>
          if bi_nHeight (st ! p) = 0 then Some (vHave @ [p])
          else locator_loop st vChain
                 (if Contains st vChain p then Chain_at vChain (int (bi_nHeight (st ! p) - nStep))
                  else GetAncestor st p (int (bi_nHeight (st ! p) - nStep)))
                 (if length (vHave @ [p]) > 10 then nStep * 2 else nStep) (vHave @ [p]))"

definition GetLocator :: "block_store \<Rightarrow> CChain \<Rightarrow> nat option \<Rightarrow> uint256 option list option" where
  "GetLocator st vChain pindex =
     map_option (map (\<lambda>p. phashBlock (st ! p)))
       (locator_loop st vChain (case pindex of None \<Rightarrow> Tip vChain | Some p \<Rightarrow> Some p) 1 [])"

fun FindForkInGlobalIndex :: "block_store \<Rightarrow> (uint256 \<rightharpoonup> nat) \<Rightarrow> CChain \<Rightarrow> uint256 list \<Rightarrow> nat option" where
  "FindForkInGlobalIndex st mapBlockIndex vChain [] = Genesis vChain"
| "FindForkInGlobalIndex st mapBlockIndex vChain (hash # vHave) =
     (case mapBlockIndex hash of
        None \<Rightarrow> FindForkInGlobalIndex st mapBlockIndex vChain vHave
      | Some p \<Rightarrow> if Contains st vChain p then Some p else FindForkInGlobalIndex st mapBlockIndex vChain vHave)"

declare common_loop.simps [code] set_tip_loop.simps [code] find_fork_loop.simps [code] locator_loop.simps [code]

end
