(* ===== verification/Chain_Props.thy ===== *)
theory Chain_Props
  imports Chain
begin

text \<open>
  Walks in the tree of block headers: ancestors by skip pointers are ancestors by parents,
  \<^verbatim>\<open>SetTip\<close> rebuilds exactly the path to the new tip, \<^verbatim>\<open>FindFork\<close> finds the highest
  common block, and all of these loops end.
\<close>

section \<open>Well-formed trees\<close>

primrec up :: "block_store \<Rightarrow> nat \<Rightarrow> nat \<Rightarrow> nat option" where
  "up st 0 p = Some p"
| "up st (Suc n) p = Option.bind (pprev (st ! p)) (up st n)"

definition node_ok :: "block_store \<Rightarrow> CBlockIndex \<Rightarrow> bool" where
  "node_ok st b \<longleftrightarrow>
     (case pprev b of
        None \<Rightarrow> bi_nHeight b = 0
      | Some q \<Rightarrow> q < length st \<and> bi_nHeight b = Suc (bi_nHeight (st ! q)))"

definition tree_ok :: "block_store \<Rightarrow> bool" where
  "tree_ok st \<longleftrightarrow> list_all (node_ok st) st"

text \<open>The ancestor at a height, by parents.\<close>

definition anc :: "block_store \<Rightarrow> nat \<Rightarrow> nat \<Rightarrow> nat option" where
  "anc st p h = up st (bi_nHeight (st ! p) - h) p"

definition skip_ok :: "block_store \<Rightarrow> nat \<Rightarrow> bool" where
  "skip_ok st p \<longleftrightarrow> (if pprev (st ! p) = None then True else pskip (st ! p) = anc st p (GetSkipHeight (bi_nHeight (st ! p))))"

definition skips_ok :: "block_store \<Rightarrow> bool" where
  "skips_ok st \<longleftrightarrow> list_all (skip_ok st) [0 ..< length st]"

lemma tree_node: "tree_ok st \<Longrightarrow> p < length st \<Longrightarrow> node_ok st (st ! p)"
  by (simp add: tree_ok_def list_all_length)

lemma tree_parent:
  assumes "tree_ok st" "p < length st" "pprev (st ! p) = Some q"
  shows "q < length st" "bi_nHeight (st ! p) = Suc (bi_nHeight (st ! q))"
  using tree_node [OF assms(1,2)] assms(3) by (simp_all add: node_ok_def)

lemma tree_root: "tree_ok st \<Longrightarrow> p < length st \<Longrightarrow> pprev (st ! p) = None \<longleftrightarrow> bi_nHeight (st ! p) = 0"
  using tree_node [of st p] by (auto simp: node_ok_def split: option.splits)

lemma up_height:
  "tree_ok st \<Longrightarrow> p < length st \<Longrightarrow> n \<le> bi_nHeight (st ! p) \<Longrightarrow>
   \<exists>q. up st n p = Some q \<and> q < length st \<and> bi_nHeight (st ! q) = bi_nHeight (st ! p) - n"
proof (induction n arbitrary: p)
  case (Suc n)
  then obtain q where q: "pprev (st ! p) = Some q" using tree_root by (metis not_None_eq not_less_eq_eq le0)
  then show ?case using Suc.IH [of q] Suc.prems tree_parent [OF Suc.prems(1,2) q] by simp
qed simp

lemma up_add: "up st (m + n) p = Option.bind (up st m p) (up st n)"
  by (induction m arbitrary: p) (auto simp: Option.bind_assoc split: bind_splits)

lemma anc_spec:
  assumes "tree_ok st" "p < length st" "h \<le> bi_nHeight (st ! p)"
  obtains q where "anc st p h = Some q" "q < length st" "bi_nHeight (st ! q) = h"
  using up_height [OF assms(1,2), of "bi_nHeight (st ! p) - h"] assms(3) by (auto simp: anc_def)

lemma anc_self [simp]: "anc st p (bi_nHeight (st ! p)) = Some p"
  by (simp add: anc_def)

lemma anc_parent:
  assumes "tree_ok st" "p < length st" "pprev (st ! p) = Some q" "h \<le> bi_nHeight (st ! q)"
  shows "anc st p h = anc st q h"
  using tree_parent [OF assms(1-3)] assms(3,4) by (simp add: anc_def Suc_diff_le)

lemma anc_trans:
  assumes "tree_ok st" "p < length st" "anc st p h = Some q" "h' \<le> h" "h \<le> bi_nHeight (st ! p)"
  shows "anc st p h' = anc st q h'"
proof -
  obtain q' where "anc st p h = Some q'" "q' < length st" "bi_nHeight (st ! q') = h"
    using anc_spec [OF assms(1,2,5)] .
  then have q: "bi_nHeight (st ! q) = h" using assms(3) by simp
  have "bi_nHeight (st ! p) - h' = (bi_nHeight (st ! p) - h) + (h - h')" using assms(4,5) by simp
  then have "anc st p h' = Option.bind (anc st p h) (up st (h - h'))" by (simp only: anc_def up_add)
  then show ?thesis using assms(3) q by (simp add: anc_def)
qed

section \<open>Ancestors\<close>

lemma ancestor_walk_correct:
  assumes "tree_ok st" "skips_ok st"
  shows "p < length st \<Longrightarrow> hw = bi_nHeight (st ! p) \<Longrightarrow> height \<le> hw \<Longrightarrow> ancestor_walk st height p hw = anc st p height"
proof (induction hw arbitrary: p rule: less_induct)
  case (less hw)
  show ?case
  proof (cases "hw > height")
    case False
    then show ?thesis using less.prems by (subst ancestor_walk.simps) simp
  next
    case True
    then obtain q where q: "pprev (st ! p) = Some q" using tree_root [OF assms(1) less.prems(1)] less.prems(2) by (metis not_None_eq not_less0)
    note pq = tree_parent [OF assms(1) less.prems(1) q]
    have prev: "ancestor_walk st height q (hw - 1) = anc st p height"
      using less.IH [of "hw - 1" q] pq less.prems(2) True anc_parent [OF assms(1) less.prems(1) q, of height] by simp
    have sk: "pskip (st ! p) = anc st p (GetSkipHeight hw)"
      using assms(2) less.prems(1,2) q by (simp add: skips_ok_def list_all_length skip_ok_def)
    have lt: "GetSkipHeight hw < hw" using True by (intro GetSkipHeight_less) simp
    obtain s where s: "anc st p (GetSkipHeight hw) = Some s" "s < length st" "bi_nHeight (st ! s) = GetSkipHeight hw"
      using anc_spec [OF assms(1) less.prems(1), of "GetSkipHeight hw"] lt less.prems(2) by auto
    have skip: "ancestor_walk st height s (GetSkipHeight hw) = anc st p height" if "height \<le> GetSkipHeight hw"
      using less.IH [OF lt, of s] s that anc_trans [OF assms(1) less.prems(1) s(1) that] lt less.prems(2) by simp
    show ?thesis using True prev skip q sk s(1) by (subst ancestor_walk.simps) (auto simp: Let_def)
  qed
qed

text \<open>C20: following skip pointers, \<^verbatim>\<open>GetAncestor\<close> ends and returns the ancestor of the requested height
  that one reaches by following parents, and null exactly for a height that no ancestor has.\<close>

theorem GetAncestor_correct:
  assumes "tree_ok st" "skips_ok st" "p < length st"
  shows "GetAncestor st p height =
    (if 0 \<le> height \<and> height \<le> int (bi_nHeight (st ! p)) then up st (bi_nHeight (st ! p) - nat height) p else None)"
  using ancestor_walk_correct [OF assms(1,2,3) refl, of "nat height"]
  by (auto simp: GetAncestor_def anc_def nat_le_iff)

text \<open>A chain of six blocks with its skip pointers.\<close>

definition demo_index :: "nat \<Rightarrow> CBlockIndex" where
  "demo_index h = CBlockIndex_null\<lparr>phashBlock := Some (of_nat h + 100), bi_nHeight := h,
     pprev := (if h = 0 then None else Some (h - 1)), pskip := (if h = 0 then None else Some (GetSkipHeight h))\<rparr>"

definition demo_tree :: block_store where
  "demo_tree = map demo_index [0, 1, 2, 3, 4, 5]"

lemma demo_tree_ok: "tree_ok demo_tree" "skips_ok demo_tree" "length demo_tree = 6"
  by code_simp+

theorem GetAncestor_correct_witness:
  "GetAncestor demo_tree 5 2 =
    (if 0 \<le> (2 :: int) \<and> 2 \<le> int (bi_nHeight (demo_tree ! 5)) then up demo_tree (bi_nHeight (demo_tree ! 5) - nat 2) 5 else None)"
  by (rule GetAncestor_correct [OF demo_tree_ok(1,2)]) (simp add: demo_tree_ok)

text \<open>The skip pointer of a new block is right if those of the others are.\<close>

lemma BuildSkip_ok:
  assumes "tree_ok st" "skips_ok st" "q < length st" "pprev b = Some q" "bi_nHeight b = Suc (bi_nHeight (st ! q))"
  shows "pskip (BuildSkip st b) = anc st q (GetSkipHeight (bi_nHeight b))"
proof -
  have "GetSkipHeight (bi_nHeight b) \<le> bi_nHeight (st ! q)" using GetSkipHeight_less [of "bi_nHeight b"] assms(5) by simp
  then show ?thesis using ancestor_walk_correct [OF assms(1,2,3) refl, of "GetSkipHeight (bi_nHeight b)"] assms(4)
    by (simp add: BuildSkip_def GetAncestor_def)
qed

section \<open>The active chain\<close>

definition path :: "block_store \<Rightarrow> nat \<Rightarrow> CChain" where
  "path st t = map (anc st t) [0 ..< Suc (bi_nHeight (st ! t))]"

text \<open>The vector of the active chain is the path from the genesis block to its tip.\<close>

definition chain_ok :: "block_store \<Rightarrow> CChain \<Rightarrow> bool" where
  "chain_ok st vChain \<longleftrightarrow> (case Tip vChain of None \<Rightarrow> vChain = [] | Some t \<Rightarrow> t < length st \<and> vChain = path st t)"

lemma length_path [simp]: "length (path st t) = Suc (bi_nHeight (st ! t))"
  by (simp add: path_def)

lemma path_nth: "h \<le> bi_nHeight (st ! t) \<Longrightarrow> path st t ! h = anc st t h"
  by (simp add: path_def del: upt_Suc)

lemma Tip_path [simp]: "Tip (path st t) = Some t"
  by (simp add: Tip_def path_nth)

lemma path_ok: "t < length st \<Longrightarrow> chain_ok st (path st t)"
  by (simp add: chain_ok_def)

lemma chain_okE:
  assumes "chain_ok st v"
  obtains "v = []" | t where "t < length st" "v = path st t"
  using assms by (auto simp: chain_ok_def split: option.splits)

lemma Contains_path:
  "Contains st (path st t) p \<longleftrightarrow> bi_nHeight (st ! p) \<le> bi_nHeight (st ! t) \<and> anc st t (bi_nHeight (st ! p)) = Some p"
  by (auto simp: Contains_def Chain_at_def path_nth)

lemma set_tip_loop_correct:
  assumes "tree_ok st"
  shows "q < length st \<Longrightarrow> bi_nHeight (st ! q) < length v \<Longrightarrow>
    (\<And>h h'. h \<le> bi_nHeight (st ! q) \<Longrightarrow> v ! h = anc st q h \<Longrightarrow> h' \<le> h \<Longrightarrow> v ! h' = anc st q h') \<Longrightarrow>
    set_tip_loop st (Some q) v = Some (map (\<lambda>h. if h \<le> bi_nHeight (st ! q) then anc st q h else v ! h) [0 ..< length v])"
proof (induction "bi_nHeight (st ! q)" arbitrary: q v rule: less_induct)
  case less
  let ?h = "bi_nHeight (st ! q)"
  let ?r = "map (\<lambda>h. if h \<le> ?h then anc st q h else v ! h) [0 ..< length v]"
  show ?case
  proof (cases "v ! ?h = Some q")
    case True
    then have "\<And>h. h \<le> ?h \<Longrightarrow> v ! h = anc st q h" using less.prems(3) [of ?h] by simp
    then have "v = ?r" by (intro nth_equalityI) auto
    then show ?thesis using True less.prems(2) by (subst set_tip_loop.simps) simp
  next
    case False
    let ?v = "v[?h := Some q]"
    have step: "set_tip_loop st (Some q) v = set_tip_loop st (pprev (st ! q)) ?v"
      using False less.prems(2) by (subst set_tip_loop.simps) simp
    show ?thesis
    proof (cases "pprev (st ! q)")
      case None
      then have "?h = 0" using tree_root [OF assms less.prems(1)] by simp
      moreover have "anc st q 0 = Some q" using anc_self [of st q] \<open>?h = 0\<close> by simp
      ultimately have "?v = ?r" by (intro nth_equalityI) (auto simp: nth_list_update)
      then show ?thesis using step None by (simp add: set_tip_loop.simps [of st None])
    next
      case (Some r)
      note qr = tree_parent [OF assms less.prems(1) Some]
      have anc: "h \<le> bi_nHeight (st ! r) \<Longrightarrow> anc st r h = anc st q h" for h
        using anc_parent [OF assms less.prems(1) Some] by simp
      have "set_tip_loop st (Some r) ?v =
          Some (map (\<lambda>h. if h \<le> bi_nHeight (st ! r) then anc st r h else ?v ! h) [0 ..< length ?v])"
      proof (rule less.hyps)
        show "?v ! h' = anc st r h'" if "h \<le> bi_nHeight (st ! r)" "?v ! h = anc st r h" "h' \<le> h" for h h'
          using that less.prems(3) [of h h'] qr anc [of h] anc [of h'] by simp
      qed (use qr less.prems in simp_all)
      moreover have "map (\<lambda>h. if h \<le> bi_nHeight (st ! r) then anc st r h else ?v ! h) [0 ..< length ?v] = ?r"
        using qr anc less.prems(2) anc_self [of st q] by (intro map_cong) (auto simp: nth_list_update le_Suc_eq)
      ultimately show ?thesis using step Some by simp
    qed
  qed
qed

lemma SetTip_path:
  assumes "tree_ok st" "chain_ok st vChain" "p < length st"
  shows "SetTip st vChain (Some p) = Some (path st p)"
proof -
  let ?n = "bi_nHeight (st ! p) + 1"
  let ?v = "take ?n vChain @ replicate (?n - length vChain) None"
  have nth: "?v ! h = (if h < length vChain then vChain ! h else None)" if "h \<le> bi_nHeight (st ! p)" for h
    using that by (auto simp: nth_append)
  have "?v ! h' = anc st p h'" if h: "h \<le> bi_nHeight (st ! p)" "?v ! h = anc st p h" "h' \<le> h" for h h'
  proof -
    obtain s where s: "anc st p h = Some s" "bi_nHeight (st ! s) = h" using anc_spec [OF assms(1,3) h(1)] by metis
    have "h < length vChain" using nth [OF h(1)] h(2) s(1) by (auto split: if_splits)
    then obtain t where t: "t < length st" "vChain = path st t" using assms(2) by (auto elim: chain_okE)
    have ht: "h \<le> bi_nHeight (st ! t)" using \<open>h < length vChain\<close> t(2) by simp
    then have "anc st t h = Some s" using nth [OF h(1)] h(2) s(1) t(2) by (simp add: path_nth)
    then have "anc st t h' = anc st p h'"
      using anc_trans [OF assms(1) t(1) _ h(3) ht] anc_trans [OF assms(1,3) s(1) h(3,1)] by simp
    then show ?thesis using nth [of h'] h ht t(2) by (simp add: path_nth)
  qed
  moreover have len: "length ?v = ?n" by simp
  ultimately have "set_tip_loop st (Some p) ?v =
      Some (map (\<lambda>h. if h \<le> bi_nHeight (st ! p) then anc st p h else ?v ! h) [0 ..< length ?v])"
    by (intro set_tip_loop_correct [OF assms(1,3)]) auto
  also have "map (\<lambda>h. if h \<le> bi_nHeight (st ! p) then anc st p h else ?v ! h) [0 ..< length ?v] = path st p"
    unfolding path_def len by (intro map_cong) (auto simp del: upt_Suc)
  finally show ?thesis by (simp add: SetTip_def)
qed

text \<open>C19: \<^verbatim>\<open>SetTip\<close> ends and turns the vector of any well-formed chain into the path from the
  genesis block to the new tip, although it stops at the first block that is already in place: after a
  reorganization no block of the old branch is left.\<close>

theorem SetTip_correct:
  assumes "tree_ok st" "chain_ok st vChain" "p < length st"
  shows "SetTip st vChain (Some p) = Some (path st p)"
  using assms by (rule SetTip_path)

text \<open>A tree with a fork: block 6 has block 3 as its parent.\<close>

definition demo_fork :: block_store where
  "demo_fork = demo_tree @ [BuildSkip demo_tree (CBlockIndex_null\<lparr>phashBlock := Some 200, bi_nHeight := 4, pprev := Some 3\<rparr>)]"

lemma demo_fork_ok: "tree_ok demo_fork" "skips_ok demo_fork" "length demo_fork = 7"
  by code_simp+

theorem SetTip_correct_witness:
  "SetTip demo_fork (path demo_fork 5) (Some 6) = Some (path demo_fork 6) \<and> path demo_fork 6 = map Some [0, 1, 2, 3, 6]"
proof
  show "SetTip demo_fork (path demo_fork 5) (Some 6) = Some (path demo_fork 6)"
    by (rule SetTip_correct [OF demo_fork_ok(1) path_ok]) (simp_all add: demo_fork_ok)
  show "path demo_fork 6 = map Some [0, 1, 2, 3, 6]" by code_simp
qed

section \<open>Forks\<close>

definition shared :: "block_store \<Rightarrow> nat \<Rightarrow> nat \<Rightarrow> nat \<Rightarrow> bool" where
  "shared st p t h \<longleftrightarrow> h \<le> bi_nHeight (st ! p) \<and> h \<le> bi_nHeight (st ! t) \<and> anc st p h = anc st t h"

lemma find_fork_loop_correct:
  assumes "tree_ok st" "t < length st"
  shows "q < length st \<Longrightarrow> \<exists>r. find_fork_loop st (path st t) (Some q) = Some r \<and>
    (case r of
       None \<Rightarrow> \<forall>h. \<not> shared st q t h
     | Some f \<Rightarrow> shared st q t (bi_nHeight (st ! f)) \<and> anc st q (bi_nHeight (st ! f)) = Some f \<and>
                 (\<forall>h > bi_nHeight (st ! f). \<not> shared st q t h))"
proof (induction "bi_nHeight (st ! q)" arbitrary: q rule: less_induct)
  case less
  show ?case
  proof (cases "Contains st (path st t) q")
    case True
    then have "find_fork_loop st (path st t) (Some q) = Some (Some q)" by (subst find_fork_loop.simps) simp
    then show ?thesis using True by (auto simp: Contains_path shared_def)
  next
    case False
    then have step: "find_fork_loop st (path st t) (Some q) = find_fork_loop st (path st t) (pprev (st ! q))"
      by (subst find_fork_loop.simps) simp
    have top: "\<not> shared st q t (bi_nHeight (st ! q))" using False by (auto simp: Contains_path shared_def)
    show ?thesis
    proof (cases "pprev (st ! q)")
      case None
      then have "bi_nHeight (st ! q) = 0" using tree_root [OF assms(1) less.prems] by simp
      then have "\<forall>h. \<not> shared st q t h" using top by (auto simp: shared_def)
      then show ?thesis using step None by (simp add: find_fork_loop.simps [of st _ None])
    next
      case (Some r)
      note qr = tree_parent [OF assms(1) less.prems Some]
      have sh: "shared st q t h \<longleftrightarrow> shared st r t h" for h
        using top qr(2) anc_parent [OF assms(1) less.prems Some, of h] by (auto simp: shared_def le_Suc_eq)
      have anc: "anc st r h = anc st q h" if "shared st q t h" for h
        using that [unfolded sh] anc_parent [OF assms(1) less.prems Some, of h] by (simp add: shared_def)
      obtain f where "find_fork_loop st (path st t) (Some r) = Some f"
        "case f of None \<Rightarrow> \<forall>h. \<not> shared st r t h
         | Some f \<Rightarrow> shared st r t (bi_nHeight (st ! f)) \<and> anc st r (bi_nHeight (st ! f)) = Some f \<and>
             (\<forall>h > bi_nHeight (st ! f). \<not> shared st r t h)"
        using less.hyps [of r] qr by auto
      then show ?thesis using step Some anc by (intro exI [of _ f]) (auto simp: sh split: option.splits)
    qed
  qed
qed

text \<open>\<^verbatim>\<open>FindFork\<close> ends and returns the highest block that the active chain and the branch of a block
  have in common, and null exactly if they have none.\<close>

theorem FindFork_correct:
  assumes "tree_ok st" "skips_ok st" "t < length st" "p < length st"
  shows "case FindFork st (path st t) p of
      None \<Rightarrow> False
    | Some None \<Rightarrow> (\<forall>h. \<not> shared st p t h)
    | Some (Some f) \<Rightarrow> shared st p t (bi_nHeight (st ! f)) \<and> anc st p (bi_nHeight (st ! f)) = Some f \<and>
        (\<forall>h. bi_nHeight (st ! f) < h \<longrightarrow> \<not> shared st p t h)"
proof (cases "bi_nHeight (st ! t) < bi_nHeight (st ! p)")
  case False
  then have "FindFork st (path st t) p = find_fork_loop st (path st t) (Some p)"
    by (simp add: FindFork_def Chain_Height_def)
  then show ?thesis using find_fork_loop_correct [OF assms(1,3,4)] by (auto split: option.splits)
next
  case True
  then obtain q where q: "anc st p (bi_nHeight (st ! t)) = Some q" "q < length st" "bi_nHeight (st ! q) = bi_nHeight (st ! t)"
    using anc_spec [OF assms(1,4), of "bi_nHeight (st ! t)"] by auto
  have "GetAncestor st p (int (bi_nHeight (st ! t))) = Some q"
    using GetAncestor_correct [OF assms(1,2,4), of "int (bi_nHeight (st ! t))"] True q(1) by (simp add: anc_def)
  then have "FindFork st (path st t) p = find_fork_loop st (path st t) (Some q)"
    using True by (simp add: FindFork_def Chain_Height_def)
  moreover have anc: "h \<le> bi_nHeight (st ! t) \<Longrightarrow> anc st p h = anc st q h" for h
    using anc_trans [OF assms(1,4) q(1)] True by simp
  moreover have "shared st p t h \<longleftrightarrow> shared st q t h" for h using anc q(3) True by (auto simp: shared_def)
  ultimately show ?thesis using find_fork_loop_correct [OF assms(1,3) q(2)] q(3)
    by (auto simp: shared_def split: option.splits)
qed

theorem FindFork_correct_witness:
  "case FindFork demo_fork (path demo_fork 5) 6 of
      None \<Rightarrow> False
    | Some None \<Rightarrow> (\<forall>h. \<not> shared demo_fork 6 5 h)
    | Some (Some f) \<Rightarrow> shared demo_fork 6 5 (bi_nHeight (demo_fork ! f)) \<and> anc demo_fork 6 (bi_nHeight (demo_fork ! f)) = Some f \<and>
        (\<forall>h. bi_nHeight (demo_fork ! f) < h \<longrightarrow> \<not> shared demo_fork 6 5 h)"
  by (rule FindFork_correct [OF demo_fork_ok(1,2)]) (simp_all add: demo_fork_ok)

lemma common_loop_correct:
  assumes "tree_ok st"
  shows "a < length st \<Longrightarrow> b < length st \<Longrightarrow> bi_nHeight (st ! a) = bi_nHeight (st ! b) \<Longrightarrow>
    \<exists>r. common_loop st (Some a) (Some b) = Some (r, r) \<and> (case r of None \<Rightarrow> \<forall>h. \<not> shared st a b h | Some f \<Rightarrow>
      shared st a b (bi_nHeight (st ! f)) \<and> anc st a (bi_nHeight (st ! f)) = Some f \<and> (\<forall>h > bi_nHeight (st ! f). \<not> shared st a b h))"
proof (induction "bi_nHeight (st ! a)" arbitrary: a b rule: less_induct)
  case less
  show ?case
  proof (cases "a = b")
    case True
    then have "common_loop st (Some a) (Some b) = Some (Some a, Some a)" by (subst common_loop.simps) simp
    then show ?thesis using True by (simp add: shared_def)
  next
    case False
    then have step: "common_loop st (Some a) (Some b) = common_loop st (pprev (st ! a)) (pprev (st ! b))"
      by (subst common_loop.simps) simp
    have "anc st b (bi_nHeight (st ! a)) = Some b" using less.prems(3) by simp
    then have top: "\<not> shared st a b (bi_nHeight (st ! a))" using False by (simp add: shared_def)
    show ?thesis
    proof (cases "pprev (st ! a)")
      case None
      then have "bi_nHeight (st ! a) = 0" "pprev (st ! b) = None"
        using tree_root [OF assms] less.prems by metis+
      then have "\<forall>h. \<not> shared st a b h" using top by (auto simp: shared_def)
      then show ?thesis using step None \<open>pprev (st ! b) = None\<close> by (simp add: common_loop.simps [of st None])
    next
      case (Some r)
      then obtain s where s: "pprev (st ! b) = Some s"
        using tree_root [OF assms less.prems(1)] tree_root [OF assms less.prems(2)] less.prems(3) by (cases "pprev (st ! b)") auto
      note ar = tree_parent [OF assms less.prems(1) Some] and bs = tree_parent [OF assms less.prems(2) s]
      have ancr: "h \<le> bi_nHeight (st ! r) \<Longrightarrow> anc st a h = anc st r h \<and> anc st b h = anc st s h" for h
        using anc_parent [OF assms less.prems(1) Some] anc_parent [OF assms less.prems(2) s] ar bs less.prems(3) by simp
      have sh: "shared st a b h \<longleftrightarrow> shared st r s h" for h
        using top ar bs less.prems(3) ancr [of h] by (auto simp: shared_def le_Suc_eq)
      have anc: "anc st r h = anc st a h" if "shared st a b h" for h
        using that [unfolded sh] ancr [of h] by (simp add: shared_def)
      obtain f where "common_loop st (Some r) (Some s) = Some (f, f)"
        "case f of None \<Rightarrow> \<forall>h. \<not> shared st r s h
         | Some f \<Rightarrow> shared st r s (bi_nHeight (st ! f)) \<and> anc st r (bi_nHeight (st ! f)) = Some f \<and>
             (\<forall>h > bi_nHeight (st ! f). \<not> shared st r s h)"
        using less.hyps [of r s] ar bs less.prems(3) by auto
      then show ?thesis using step Some s anc by (intro exI [of _ f]) (auto simp: sh split: option.splits)
    qed
  qed
qed

section \<open>Locators\<close>

definition locator_ok :: "block_store \<Rightarrow> nat \<Rightarrow> nat list \<Rightarrow> bool" where
  "locator_ok st p ps \<longleftrightarrow>
     ps \<noteq> [] \<and> hd ps = p \<and> bi_nHeight (st ! last ps) = 0 \<and>
     sorted_wrt (\<lambda>a b. bi_nHeight (st ! b) < bi_nHeight (st ! a)) ps \<and>
     list_all (\<lambda>q. anc st p (bi_nHeight (st ! q)) = Some q) ps"

text \<open>\<open>n\<close> blocks are already in the locator.\<close>

lemma locator_ok_Cons:
  assumes "tree_ok st" "p < length st" "anc st p h = Some q" "h < bi_nHeight (st ! p)" "locator_ok st q ps"
  shows "locator_ok st p (p # ps)"
proof -
  obtain q' where "anc st p h = Some q'" "q' < length st" "bi_nHeight (st ! q') = h"
    using anc_spec [OF assms(1,2), of h] assms(4) by auto
  then have q: "bi_nHeight (st ! q) = h" using assms(3) by simp
  have ps: "ps \<noteq> []" "hd ps = q" "bi_nHeight (st ! last ps) = 0" "sorted_wrt (\<lambda>a b. bi_nHeight (st ! b) < bi_nHeight (st ! a)) ps"
    "\<And>x. x \<in> set ps \<Longrightarrow> anc st q (bi_nHeight (st ! x)) = Some x"
    using assms(5) by (auto simp: locator_ok_def list_all_iff)
  have le: "bi_nHeight (st ! x) \<le> h" if "x \<in> set ps" for x
    using ps(1,2,4) q that by (cases ps) auto
  have "anc st p (bi_nHeight (st ! x)) = Some x" if "x \<in> set ps" for x
    using anc_trans [OF assms(1,2,3) le [OF that]] assms(4) ps(5) [OF that] by simp
  moreover have "bi_nHeight (st ! x) < bi_nHeight (st ! p)" if "x \<in> set ps" for x
    using le [OF that] assms(4) by simp
  ultimately show ?thesis using ps(1,3,4) by (simp add: locator_ok_def list_all_iff)
qed

lemma locator_step:
  assumes "tree_ok st" "skips_ok st" "chain_ok st vChain" "p < length st" "bi_nHeight (st ! p) \<noteq> 0" "0 < s"
  obtains q where "q < length st" "bi_nHeight (st ! q) = bi_nHeight (st ! p) - s" "anc st p (bi_nHeight (st ! p) - s) = Some q"
    "locator_loop st vChain (Some p) s pre = locator_loop st vChain (Some q) (if length pre \<ge> 10 then s * 2 else s) (pre @ [p])"
proof -
  let ?h = "bi_nHeight (st ! p) - s"
  obtain q where q: "anc st p ?h = Some q" "q < length st" "bi_nHeight (st ! q) = ?h"
    using anc_spec [OF assms(1,4), of ?h] by auto
  have "Chain_at vChain (int ?h) = Some q" if c: "Contains st vChain p"
  proof -
    have "vChain \<noteq> []" using c by (auto simp: Contains_def Chain_at_def)
    then obtain t where t: "t < length st" "vChain = path st t" using assms(3) by (auto elim: chain_okE)
    then have "bi_nHeight (st ! p) \<le> bi_nHeight (st ! t)" "anc st t (bi_nHeight (st ! p)) = Some p"
      using c by (simp_all add: Contains_path)
    then have "anc st t ?h = Some q" using anc_trans [OF assms(1) t(1), of "bi_nHeight (st ! p)" p ?h] q(1) by simp
    then show ?thesis using t \<open>bi_nHeight (st ! p) \<le> bi_nHeight (st ! t)\<close> by (simp add: Chain_at_def path_nth)
  qed
  moreover have "GetAncestor st p (int ?h) = Some q"
    using GetAncestor_correct [OF assms(1,2,4), of "int ?h"] q(1) by (simp add: anc_def)
  ultimately have "locator_loop st vChain (Some p) s pre =
      locator_loop st vChain (Some q) (if length pre \<ge> 10 then s * 2 else s) (pre @ [p])"
    using assms(5) by (subst locator_loop.simps) auto
  then show ?thesis by (rule that [OF q(2,3,1)])
qed

lemma locator_root: "bi_nHeight (st ! p) = 0 \<Longrightarrow> locator_loop st vChain (Some p) s pre = Some (pre @ [p]) \<and> locator_ok st p [p]"
  using anc_self [of st p] by (subst locator_loop.simps) (simp add: locator_ok_def)

lemma locator_loop_doubling:
  assumes "tree_ok st" "skips_ok st" "chain_ok st vChain"
  shows "p < length st \<Longrightarrow> 0 < s \<Longrightarrow> 10 \<le> length pre \<Longrightarrow>
    \<exists>ps. locator_loop st vChain (Some p) s pre = Some (pre @ ps) \<and> locator_ok st p ps \<and>
      (\<forall>m. bi_nHeight (st ! p) \<le> s * (2 ^ m - 1) \<longrightarrow> length ps \<le> m + 1)"
proof (induction "bi_nHeight (st ! p)" arbitrary: p s pre rule: less_induct)
  case less
  show ?case
  proof (cases "bi_nHeight (st ! p) = 0")
    case True
    then show ?thesis using locator_root by force
  next
    case False
    obtain q where q: "q < length st" "bi_nHeight (st ! q) = bi_nHeight (st ! p) - s" "anc st p (bi_nHeight (st ! p) - s) = Some q"
      "locator_loop st vChain (Some p) s pre = locator_loop st vChain (Some q) (s * 2) (pre @ [p])"
      using locator_step [OF assms less.prems(1) False less.prems(2), of pre] less.prems(3) by (metis (full_types))
    have "bi_nHeight (st ! q) < bi_nHeight (st ! p)" using q(2) False less.prems(2) by simp
    then obtain ps where ps: "locator_loop st vChain (Some q) (s * 2) (pre @ [p]) = Some ((pre @ [p]) @ ps)" "locator_ok st q ps"
      "\<forall>m. bi_nHeight (st ! q) \<le> s * 2 * (2 ^ m - 1) \<longrightarrow> length ps \<le> m + 1"
      using less.hyps [of q "s * 2" "pre @ [p]"] q(1) less.prems(2,3) by auto
    have "length (p # ps) \<le> m + 1" if "bi_nHeight (st ! p) \<le> s * (2 ^ m - 1)" for m
    proof (cases m)
      case 0
      then show ?thesis using that False by simp
    next
      case (Suc k)
      have "s * (2 ^ m - 1) - s = s * 2 * (2 ^ k - 1)" using Suc by (simp add: algebra_simps diff_mult_distrib2)
      then have "bi_nHeight (st ! q) \<le> s * 2 * (2 ^ k - 1)" using that q(2) by linarith
      then show ?thesis using ps(3) Suc by simp
    qed
    moreover have "locator_ok st p (p # ps)"
      using locator_ok_Cons [OF assms(1) less.prems(1) q(3) _ ps(2)] False less.prems(2) by simp
    ultimately show ?thesis using q(4) ps(1) by (intro exI [of _ "p # ps"]) simp
  qed
qed

lemma locator_loop_correct:
  assumes "tree_ok st" "skips_ok st" "chain_ok st vChain"
  shows "p < length st \<Longrightarrow> length pre \<le> 10 \<Longrightarrow>
    \<exists>ps. locator_loop st vChain (Some p) 1 pre = Some (pre @ ps) \<and> locator_ok st p ps \<and>
      (\<forall>m. bi_nHeight (st ! p) < 2 ^ m \<longrightarrow> length ps + length pre \<le> 10 + m + 1)"
proof (induction "bi_nHeight (st ! p)" arbitrary: p pre rule: less_induct)
  case less
  show ?case
  proof (cases "bi_nHeight (st ! p) = 0 \<or> length pre = 10")
    case True
    then show ?thesis
    proof
      assume "length pre = 10"
      then obtain ps where "locator_loop st vChain (Some p) 1 pre = Some (pre @ ps)" "locator_ok st p ps"
        "\<forall>m. bi_nHeight (st ! p) \<le> 1 * (2 ^ m - 1) \<longrightarrow> length ps \<le> m + 1"
        using locator_loop_doubling [OF assms less.prems(1), of 1 pre] by auto
      then show ?thesis using \<open>length pre = 10\<close> by (intro exI [of _ ps]) auto
    qed (use locator_root less.prems(2) in force)
  next
    case False
    then have np: "bi_nHeight (st ! p) \<noteq> 0" "length pre < 10" using less.prems(2) by auto
    obtain q where q: "q < length st" "bi_nHeight (st ! q) = bi_nHeight (st ! p) - 1" "anc st p (bi_nHeight (st ! p) - 1) = Some q"
      "locator_loop st vChain (Some p) 1 pre = locator_loop st vChain (Some q) (if length pre \<ge> 10 then 1 * 2 else 1) (pre @ [p])"
      using locator_step [OF assms less.prems(1) np(1) zero_less_one, of pre] by blast
    then have step: "locator_loop st vChain (Some p) 1 pre = locator_loop st vChain (Some q) 1 (pre @ [p])" using np(2) by simp
    obtain ps where ps: "locator_loop st vChain (Some q) 1 (pre @ [p]) = Some ((pre @ [p]) @ ps)" "locator_ok st q ps"
      "\<forall>m. bi_nHeight (st ! q) < 2 ^ m \<longrightarrow> length ps + length (pre @ [p]) \<le> 10 + m + 1"
      using less.hyps [of q "pre @ [p]"] np q(1,2) by auto
    have "locator_ok st p (p # ps)"
      using locator_ok_Cons [OF assms(1) less.prems(1) q(3) _ ps(2)] np(1) by simp
    moreover have "length (p # ps) + length pre \<le> 10 + m + 1" if "bi_nHeight (st ! p) < 2 ^ m" for m
      using ps(3) q(2) that by simp
    ultimately show ?thesis using step ps(1) by (intro exI [of _ "p # ps"]) simp
  qed
qed

text \<open>Building a locator ends; the locator starts at the given block, goes strictly down through its
  ancestors and ends at the genesis block, and for a block below height \<open>2 ^ m\<close> it has at most
  \<open>m + 11\<close> entries.\<close>

theorem GetLocator_correct:
  assumes "tree_ok st" "skips_ok st" "chain_ok st vChain" "p < length st" "bi_nHeight (st ! p) < 2 ^ m"
  shows "case locator_loop st vChain (Some p) 1 [] of
      None \<Rightarrow> False
    | Some ps \<Rightarrow> locator_ok st p ps \<and> length ps \<le> m + 11 \<and>
        GetLocator st vChain (Some p) = Some (map (\<lambda>q. phashBlock (st ! q)) ps)"
  using locator_loop_correct [OF assms(1-4), of "[]"] assms(5) by (auto simp: GetLocator_def)

theorem GetLocator_correct_witness:
  "case locator_loop demo_fork (path demo_fork 5) (Some 6) 1 [] of
      None \<Rightarrow> False
    | Some ps \<Rightarrow> locator_ok demo_fork 6 ps \<and> length ps \<le> 3 + 11 \<and>
        GetLocator demo_fork (path demo_fork 5) (Some 6) = Some (map (\<lambda>q. phashBlock (demo_fork ! q)) ps)"
proof (rule GetLocator_correct [OF demo_fork_ok(1,2) path_ok])
  show "bi_nHeight (demo_fork ! 6) < 2 ^ 3" by code_simp
qed (simp_all add: demo_fork_ok)

end
