(* ===== verification/Uint256_Props.thy ===== *)
theory Uint256_Props
  imports Uint256
begin

text \<open>
  The loops over limbs compute the operations modulo \<open>2 ^ (32 W)\<close>; division is exact; the
  compact form of targets.
\<close>

section \<open>Values of limbs\<close>

lemma bu_val_bound: "bu_val pn < 2 ^ (32 * length pn)"
proof (induction pn)
  case (Cons x xs)
  have "unat x < 2 ^ 32" using unsigned_less [of x] by simp
  then have "unat x + 2 ^ 32 * bu_val xs < 2 ^ 32 * Suc (bu_val xs)" by simp
  also have "\<dots> \<le> 2 ^ 32 * 2 ^ (32 * length xs)" using Cons.IH by (intro mult_le_mono) auto
  finally show ?case by (simp add: power_add)
qed simp

lemma bu_val_mod [simp]: "bu_val pn mod 2 ^ (32 * length pn) = bu_val pn"
  using bu_val_bound by simp

lemma bu_val_zero [simp]: "bu_val (bu_zero W) = 0" "length (bu_zero W) = W"
  by (induction W) (simp_all add: bu_zero_def)

lemma bu_val_replicate0 [simp]: "bu_val (replicate W 0) = 0"
  by (induction W) simp_all

lemma bu_val_append: "bu_val (xs @ ys) = bu_val xs + 2 ^ (32 * length xs) * bu_val ys"
  by (induction xs) (simp_all add: power_add algebra_simps)

lemma limb_lo: "unat (ucast (n AND 0xffffffff :: uint64) :: uint32) = unat n mod 2 ^ 32"
proof -
  have "n AND 0xffffffff = take_bit 32 n" by (simp add: take_bit_eq_mask mask_eq_exp_minus_1)
  then show ?thesis by (simp add: unsigned_ucast_eq unsigned_take_bit_eq) (simp add: take_bit_eq_mod)
qed

lemma limb_hi: "unat (drop_bit 32 n :: uint64) = unat n div 2 ^ 32"
  by (simp only: unsigned_drop_bit_eq drop_bit_eq_div [where 'a = nat]) (simp add: take_bit_nat_eq_self unsigned_less [where 'b = 64, simplified])

lemma unat_ucast64 [simp]: "unat (ucast (x :: uint32) :: uint64) = unat x"
  by (simp add: unsigned_ucast_eq take_bit_nat_eq_self unsigned_less [THEN less_trans])

lemma limb_step:
  fixes n y :: nat
  shows "(n + 2 ^ 32 * y) mod 2 ^ (32 + L) = n mod 2 ^ 32 + 2 ^ 32 * ((n div 2 ^ 32 + y) mod 2 ^ L)"
proof -
  have "(n + 2 ^ 32 * y) mod (2 ^ 32 * 2 ^ L) = 2 ^ 32 * ((n + 2 ^ 32 * y) div 2 ^ 32 mod 2 ^ L) + (n + 2 ^ 32 * y) mod 2 ^ 32"
    by (rule mod_mult2_eq)
  then show ?thesis by (simp add: power_add add.commute mult.commute)
qed

lemma limb_lt: "unat (x :: uint32) < 2 ^ 32"
  using unsigned_less [of x] by simp

lemma unat_not: "unat (NOT (x :: uint32)) + unat x + 1 = 2 ^ 32"
proof -
  have "NOT x = - 1 - x" by (simp add: not_eq_complement)
  moreover have "unat (- 1 - x) = unat (- 1 :: uint32) - unat x" by (rule unat_sub) simp
  ultimately show ?thesis using limb_lt [of x] by (simp add: unsigned_minus_1_eq_mask mask_eq_exp_minus_1)
qed

section \<open>Addition and subtraction\<close>

lemma length_add_loop [simp]: "length a = length b \<Longrightarrow> length (add_loop c a b) = length a"
  by (induction c a b rule: add_loop.induct) (auto simp: Let_def)

lemma add_loop_val:
  "length a = length b \<Longrightarrow> unat c \<le> 1 \<Longrightarrow>
   bu_val (add_loop c a b) = (unat c + bu_val a + bu_val b) mod 2 ^ (32 * length a)"
proof (induction c a b rule: add_loop.induct)
  case (1 c p pn b bn)
  let ?n = "c + ucast p + ucast b :: uint64"
  have n: "unat ?n = unat c + unat p + unat b"
    using "1.prems"(2) limb_lt [of p] limb_lt [of b] by (simp add: unat_word_ariths)
  have "unat (drop_bit 32 ?n) \<le> 1" using "1.prems"(2) limb_lt [of p] limb_lt [of b] n by (simp add: limb_hi)
  then have IH: "bu_val (add_loop (drop_bit 32 ?n) pn bn) =
      (unat ?n div 2 ^ 32 + (bu_val pn + bu_val bn)) mod 2 ^ (32 * length pn)"
    using "1.IH" [of ?n] "1.prems"(1) by (simp add: limb_hi add.assoc)
  have "(unat c + bu_val (p # pn) + bu_val (b # bn)) mod 2 ^ (32 * length (p # pn)) =
      (unat ?n + 2 ^ 32 * (bu_val pn + bu_val bn)) mod 2 ^ (32 + 32 * length pn)"
    unfolding n by (simp add: algebra_simps)
  also have "\<dots> = unat ?n mod 2 ^ 32 + 2 ^ 32 * ((unat ?n div 2 ^ 32 + (bu_val pn + bu_val bn)) mod 2 ^ (32 * length pn))"
    by (rule limb_step)
  finally show ?case by (simp only: add_loop.simps Let_def bu_val.simps limb_lo IH)
qed auto

lemma bu_add_val: "length a = length b \<Longrightarrow> bu_val (bu_add a b) = (bu_val a + bu_val b) mod 2 ^ (32 * length a)"
  using add_loop_val [of a b 0] by (simp add: bu_add_def)

lemma length_bu_inc [simp]: "length (bu_inc a) = length a"
  by (induction a) auto

lemma length_bu_simps [simp]: "length (bu_not a) = length a" "length (bu_neg a) = length a"
  "length a = length b \<Longrightarrow> length (bu_add a b) = length a" "length a = length b \<Longrightarrow> length (bu_sub a b) = length a"
  by (simp_all add: bu_not_def bu_neg_def bu_add_def bu_sub_def)

lemma bu_inc_val: "bu_val (bu_inc a) = (bu_val a + 1) mod 2 ^ (32 * length a)"
proof (induction a)
  case (Cons x xs)
  show ?case
  proof (cases "x + 1 = 0")
    case True
    then have x: "unat x + 1 = 2 ^ 32" by (simp add: eq_neg_iff_add_eq_0 [symmetric] unsigned_minus_1_eq_mask mask_eq_exp_minus_1)
    have "(bu_val (x # xs) + 1) mod 2 ^ (32 * length (x # xs)) = (2 ^ 32 + 2 ^ 32 * bu_val xs) mod 2 ^ (32 + 32 * length xs)"
      using x by (simp add: algebra_simps)
    also have "\<dots> = 2 ^ 32 * ((bu_val xs + 1) mod 2 ^ (32 * length xs))"
      using limb_step [of "2 ^ 32" "bu_val xs" "32 * length xs"] by (simp add: add.commute)
    finally show ?thesis using Cons.IH True by (cases xs) simp_all
  next
    case False
    then have x: "unat (x + 1) = unat x + 1" using unatSuc [of x] by (simp add: add.commute)
    then have "bu_val (x # xs) + 1 = bu_val ((x + 1) # xs)" by simp
    then show ?thesis using bu_val_mod [of "(x + 1) # xs"] False by (simp del: bu_val.simps bu_val_mod)
  qed
qed simp

lemma bu_not_val: "bu_val (bu_not a) + bu_val a + 1 = 2 ^ (32 * length a)"
proof (induction a)
  case (Cons x xs)
  have "unat (NOT x) + unat x + 1 = 2 ^ 32" by (rule unat_not)
  then have "bu_val (bu_not (x # xs)) + bu_val (x # xs) + 1 = 2 ^ 32 * (bu_val (bu_not xs) + bu_val xs + 1)"
    by (simp add: bu_not_def algebra_simps)
  then show ?case using Cons.IH by (simp add: power_add)
qed (simp add: bu_not_def)

lemma bu_neg_val: "bu_val (bu_neg a) = (2 ^ (32 * length a) - bu_val a) mod 2 ^ (32 * length a)"
  using bu_not_val [of a] by (simp add: bu_neg_def bu_inc_val) (metis add_diff_cancel_right' add.commute add_Suc_right plus_1_eq_Suc)

lemma bu_sub_val:
  assumes "length a = length b" "bu_val b \<le> bu_val a"
  shows "bu_val (bu_sub a b) = bu_val a - bu_val b"
proof -
  have "bu_val (bu_sub a b) = (bu_val a + (2 ^ (32 * length a) - bu_val b)) mod 2 ^ (32 * length a)"
    using assms(1) by (simp add: bu_sub_def bu_add_val bu_neg_val mod_add_right_eq)
  also have "\<dots> = (bu_val a - bu_val b + 2 ^ (32 * length a)) mod 2 ^ (32 * length a)"
    using bu_val_bound [of b] assms by (simp add: algebra_simps)
  also have "\<dots> = bu_val a - bu_val b" using bu_val_bound [of a] by simp
  finally show ?thesis .
qed

lemma length_bu_dec [simp]: "length (bu_dec a) = length a"
  by (induction a) auto

lemma bu_inc_dec: "a \<noteq> [] \<Longrightarrow> bu_inc (bu_dec a) = a"
  by (induction a) (auto simp: eq_diff_eq)

section \<open>Multiplication\<close>

lemma length_mul32_loop [simp]: "length (mul32_loop c b a) = length a"
  by (induction c b a rule: mul32_loop.induct) (auto simp: Let_def)

lemma prod_limbs: "unat (x :: uint32) * unat (y :: uint32) \<le> (2 ^ 32 - 1) * (2 ^ 32 - 1)"
  using limb_lt [of x] limb_lt [of y] by (intro mult_le_mono) auto

lemma mul32_loop_val:
  "unat c < 2 ^ 32 \<Longrightarrow> bu_val (mul32_loop c b a) = (unat c + unat b * bu_val a) mod 2 ^ (32 * length a)"
proof (induction c b a rule: mul32_loop.induct)
  case (2 c b p pn)
  let ?n = "c + ucast b * ucast p :: uint64"
  have n: "unat ?n = unat c + unat b * unat p"
    using "2.prems" prod_limbs [of b p] by (simp add: unat_word_ariths)
  have "unat (drop_bit 32 ?n) < 2 ^ 32" using "2.prems" prod_limbs [of b p] n by (simp add: limb_hi)
  then have IH: "bu_val (mul32_loop (drop_bit 32 ?n) b pn) = (unat ?n div 2 ^ 32 + unat b * bu_val pn) mod 2 ^ (32 * length pn)"
    using "2.IH" [of ?n] by (simp add: limb_hi)
  have "(unat c + unat b * bu_val (p # pn)) mod 2 ^ (32 * length (p # pn)) =
      (unat ?n + 2 ^ 32 * (unat b * bu_val pn)) mod 2 ^ (32 + 32 * length pn)"
    unfolding n by (simp add: algebra_simps)
  also have "\<dots> = unat ?n mod 2 ^ 32 + 2 ^ 32 * ((unat ?n div 2 ^ 32 + unat b * bu_val pn) mod 2 ^ (32 * length pn))"
    by (rule limb_step)
  finally show ?case by (simp only: mul32_loop.simps Let_def bu_val.simps limb_lo IH)
qed simp

lemma bu_mul32_val: "bu_val (bu_mul32 a b) = (bu_val a * unat b) mod 2 ^ (32 * length a)"
  using mul32_loop_val [of 0 b a] by (simp add: bu_mul32_def mult.commute)

lemma length_mul_row [simp]: "length pn \<le> length b \<Longrightarrow> length (mul_row c aj pn b) = length pn"
  by (induction c aj pn b rule: mul_row.induct) (auto simp: Let_def)

lemma mul_row_val:
  "length pn \<le> length b \<Longrightarrow> unat c < 2 ^ 32 \<Longrightarrow>
   bu_val (mul_row c aj pn b) = (unat c + bu_val pn + unat aj * bu_val b) mod 2 ^ (32 * length pn)"
proof (induction c aj pn b rule: mul_row.induct)
  case (1 c aj p pn b bn)
  let ?n = "c + ucast p + ucast aj * ucast b :: uint64"
  have n: "unat ?n = unat c + unat p + unat aj * unat b"
    using "1.prems"(2) limb_lt [of p] prod_limbs [of aj b] by (simp add: unat_word_ariths)
  have "unat (drop_bit 32 ?n) < 2 ^ 32" using "1.prems"(2) limb_lt [of p] prod_limbs [of aj b] n by (simp add: limb_hi)
  then have IH: "bu_val (mul_row (drop_bit 32 ?n) aj pn bn) =
      (unat ?n div 2 ^ 32 + (bu_val pn + unat aj * bu_val bn)) mod 2 ^ (32 * length pn)"
    using "1.IH" [of ?n] "1.prems"(1) by (simp add: limb_hi add.assoc)
  have "(unat c + bu_val (p # pn) + unat aj * bu_val (b # bn)) mod 2 ^ (32 * length (p # pn)) =
      (unat ?n + 2 ^ 32 * (bu_val pn + unat aj * bu_val bn)) mod 2 ^ (32 + 32 * length pn)"
    unfolding n by (simp add: algebra_simps)
  also have "\<dots> = unat ?n mod 2 ^ 32 + 2 ^ 32 * ((unat ?n div 2 ^ 32 + (bu_val pn + unat aj * bu_val bn)) mod 2 ^ (32 * length pn))"
    by (rule limb_step)
  finally show ?case by (simp only: mul_row.simps Let_def bu_val.simps limb_lo IH)
qed auto

lemma low_high_mod:
  fixes lo x :: nat
  assumes "lo < 2 ^ m"
  shows "lo + 2 ^ m * (x mod 2 ^ n) = (lo + 2 ^ m * x) mod 2 ^ (m + n)"
proof -
  have "(lo + 2 ^ m * x) mod (2 ^ m * 2 ^ n) = 2 ^ m * ((lo + 2 ^ m * x) div 2 ^ m mod 2 ^ n) + (lo + 2 ^ m * x) mod 2 ^ m"
    by (rule mod_mult2_eq)
  then show ?thesis using assms by (simp add: power_add)
qed

lemma mul_step_val:
  assumes "length pn = length a" "length b = length a" "j < length a"
  shows "bu_val (mul_step a b j pn) = (bu_val pn + 2 ^ (32 * j) * (unat (a ! j) * bu_val b)) mod 2 ^ (32 * length a)"
    and "length (mul_step a b j pn) = length a"
proof -
  have lo: "bu_val (take j pn) < 2 ^ (32 * j)" using bu_val_bound [of "take j pn"] assms by simp
  have split: "bu_val pn = bu_val (take j pn) + 2 ^ (32 * j) * bu_val (drop j pn)"
    using bu_val_append [of "take j pn" "drop j pn"] assms by simp
  have "bu_val (mul_step a b j pn) =
      bu_val (take j pn) + 2 ^ (32 * j) * ((bu_val (drop j pn) + unat (a ! j) * bu_val b) mod 2 ^ (32 * (length a - j)))"
    using assms by (simp add: mul_step_def bu_val_append mul_row_val)
  also have "\<dots> = (bu_val (take j pn) + 2 ^ (32 * j) * (bu_val (drop j pn) + unat (a ! j) * bu_val b)) mod 2 ^ (32 * j + 32 * (length a - j))"
    by (rule low_high_mod [OF lo])
  also have "32 * j + 32 * (length a - j) = 32 * length a" using assms(3) by simp
  also have "bu_val (take j pn) + 2 ^ (32 * j) * (bu_val (drop j pn) + unat (a ! j) * bu_val b) =
      bu_val pn + 2 ^ (32 * j) * (unat (a ! j) * bu_val b)"
    using split by (simp add: algebra_simps)
  finally show "bu_val (mul_step a b j pn) = (bu_val pn + 2 ^ (32 * j) * (unat (a ! j) * bu_val b)) mod 2 ^ (32 * length a)" .
  show "length (mul_step a b j pn) = length a" using assms by (simp add: mul_step_def)
qed

lemma bu_val_take_Suc:
  "j < length a \<Longrightarrow> bu_val (take (Suc j) a) = bu_val (take j a) + 2 ^ (32 * j) * unat (a ! j)"
  by (simp add: take_Suc_conv_app_nth bu_val_append)

lemma bu_mul_loop:
  assumes "length b = length a" "n \<le> length a"
  shows "length (fold (mul_step a b) [0 ..< n] (bu_zero (length a))) = length a \<and>
    bu_val (fold (mul_step a b) [0 ..< n] (bu_zero (length a))) = (bu_val (take n a) * bu_val b) mod 2 ^ (32 * length a)"
  using assms(2)
proof (induction n)
  case (Suc n)
  let ?pn = "fold (mul_step a b) [0 ..< n] (bu_zero (length a))"
  have pn: "length ?pn = length a" "bu_val ?pn = (bu_val (take n a) * bu_val b) mod 2 ^ (32 * length a)"
    using Suc by simp_all
  have "bu_val (mul_step a b n ?pn) = (bu_val (take n a) * bu_val b + 2 ^ (32 * n) * (unat (a ! n) * bu_val b)) mod 2 ^ (32 * length a)"
    using mul_step_val(1) [OF pn(1) assms(1)] Suc.prems pn(2) by (simp add: mod_add_left_eq)
  also have "bu_val (take n a) * bu_val b + 2 ^ (32 * n) * (unat (a ! n) * bu_val b) = bu_val (take (Suc n) a) * bu_val b"
    using Suc.prems by (simp add: bu_val_take_Suc algebra_simps)
  finally show ?case using mul_step_val(2) [OF pn(1) assms(1)] Suc.prems by simp
qed simp

lemma bu_mul_val: "length b = length a \<Longrightarrow> bu_val (bu_mul a b) = (bu_val a * bu_val b) mod 2 ^ (32 * length a)"
  using bu_mul_loop [of b a "length a"] by (simp add: bu_mul_def)

section \<open>Comparison and bit length\<close>

lemma sgn_diff_nat: "m < n \<Longrightarrow> sgn (int m - int n) = - 1" "m < n \<Longrightarrow> sgn (int n - int m) = 1"
  by (simp_all add: sgn_if)

lemma compare_loop_val:
  "length xs = length ys \<Longrightarrow> compare_loop xs ys = sgn (int (bu_val (rev xs)) - int (bu_val (rev ys)))"
proof (induction xs ys rule: compare_loop.induct)
  case (1 p pn b bn)
  have less: "bu_val (rev us) + 2 ^ (32 * length us) * unat x < bu_val (rev vs) + 2 ^ (32 * length us) * unat y"
    if "x < y" "length us = length vs" for us vs and x y :: uint32
  proof -
    have "bu_val (rev us) + 2 ^ (32 * length us) * unat x < 2 ^ (32 * length us) * (unat x + 1)"
      using bu_val_bound [of "rev us"] by (simp add: algebra_simps)
    also have "\<dots> \<le> 2 ^ (32 * length us) * unat y" using that(1) by (intro mult_le_mono) (auto simp: word_less_nat_alt)
    finally show ?thesis by simp
  qed
  consider "p < b" | "b < p" | "p = b" by (rule linorder_cases)
  then show ?case
  proof cases
    case 1
    then have "bu_val (rev (p # pn)) < bu_val (rev (b # bn))" using less [of p b pn bn] "1.prems" by (simp add: bu_val_append)
    then show ?thesis using 1 by (simp add: sgn_diff_nat del: rev.simps)
  next
    case 2
    then have "bu_val (rev (b # bn)) < bu_val (rev (p # pn))" using less [of b p bn pn] "1.prems" by (simp add: bu_val_append)
    then show ?thesis using 2 by (simp add: sgn_diff_nat del: rev.simps)
  next
    case 3
    then show ?thesis using "1.IH" "1.prems" by (simp add: bu_val_append)
  qed
qed auto

lemma bu_CompareTo_val:
  assumes "length a = length b"
  shows "bu_CompareTo a b = sgn (int (bu_val a) - int (bu_val b))"
  using compare_loop_val [of "rev a" "rev b"] assms by (simp add: bu_CompareTo_def)

lemma top_bit_val:
  "unat x < 2 ^ Suc n \<Longrightarrow> x \<noteq> 0 \<Longrightarrow> n < 32 \<Longrightarrow> 2 ^ top_bit x n \<le> unat x \<and> unat x < 2 ^ Suc (top_bit x n)"
proof (induction n)
  case 0
  then have "0 < unat x" by (simp add: unat_gt_0)
  then show ?case using 0 by simp
next
  case (Suc n)
  have "x AND push_bit (Suc n) 1 \<noteq> 0 \<longleftrightarrow> bit x (Suc n)"
    by (simp only: push_bit_of_1 and_exp_eq_0_iff_not_bit not_not)
  moreover have "bit x (Suc n) \<longleftrightarrow> 2 ^ Suc n \<le> unat x"
  proof -
    have "unat x div 2 ^ Suc n < 2" using Suc.prems(1) by (simp add: less_mult_imp_div_less)
    then have "odd (unat x div 2 ^ Suc n) \<longleftrightarrow> 2 ^ Suc n \<le> unat x"
      by (metis One_nat_def div_eq_0_iff even_zero less_2_cases not_le odd_one power_not_zero zero_neq_numeral)
    moreover have "bit x (Suc n) \<longleftrightarrow> bit (unat x) (Suc n)" by (simp add: bit_unsigned_iff)
    ultimately show ?thesis by (simp only: bit_iff_odd [where 'a = nat])
  qed
  ultimately show ?case using Suc by (cases "bit x (Suc n)") auto
qed

lemma bits_loop_val:
  "n \<le> length pn \<Longrightarrow>
   (if bu_val (take n pn) = 0 then bits_loop pn n = 0
    else 0 < bits_loop pn n \<and> 2 ^ (bits_loop pn n - 1) \<le> bu_val (take n pn) \<and> bu_val (take n pn) < 2 ^ bits_loop pn n)"
proof (induction n)
  case (Suc n)
  have v: "bu_val (take (Suc n) pn) = bu_val (take n pn) + 2 ^ (32 * n) * unat (pn ! n)"
    using Suc.prems by (intro bu_val_take_Suc) simp
  show ?case
  proof (cases "pn ! n = 0")
    case True
    moreover have "bits_loop pn (Suc n) = bits_loop pn n" "bu_val (take (Suc n) pn) = bu_val (take n pn)"
      using True v by simp_all
    ultimately show ?thesis using Suc.IH Suc.prems by (auto split: if_splits)
  next
    case False
    let ?t = "top_bit (pn ! n) 31"
    have t: "2 ^ ?t \<le> unat (pn ! n)" "unat (pn ! n) < 2 ^ Suc ?t"
      using top_bit_val [of "pn ! n" 31] limb_lt [of "pn ! n"] False by simp_all
    have lo: "bu_val (take n pn) < 2 ^ (32 * n)" using bu_val_bound [of "take n pn"] Suc.prems by simp
    have lower: "2 ^ (32 * n + ?t) \<le> bu_val (take (Suc n) pn)"
      unfolding v using t(1) by (intro trans_le_add2) (simp add: power_add)
    have "bu_val (take (Suc n) pn) < 2 ^ (32 * n) * (unat (pn ! n) + 1)" unfolding v using lo by simp
    also have "\<dots> \<le> 2 ^ (32 * n) * 2 ^ Suc ?t" using t(2) by (intro mult_le_mono) auto
    finally have upper: "bu_val (take (Suc n) pn) < 2 ^ (32 * n + ?t + 1)" by (simp add: power_add)
    have "bits_loop pn (Suc n) = 32 * n + ?t + 1" using False by simp
    moreover have "bu_val (take (Suc n) pn) \<noteq> 0"
      using lower power_not_zero [of "2 :: nat" "32 * n + ?t"] by linarith
    ultimately show ?thesis using lower upper by simp
  qed
qed simp

lemma bu_bits_val:
  "bu_val pn = 0 \<Longrightarrow> bu_bits pn = 0"
  "bu_val pn \<noteq> 0 \<Longrightarrow> 0 < bu_bits pn \<and> 2 ^ (bu_bits pn - 1) \<le> bu_val pn \<and> bu_val pn < 2 ^ bu_bits pn"
  using bits_loop_val [of "length pn" pn] by (simp_all add: bu_bits_def)

lemma bu_bits_eq_0 [simp]: "bu_bits pn = 0 \<longleftrightarrow> bu_val pn = 0"
  using bu_bits_val [of pn] by fastforce

lemma bu_bits_less: "bu_val pn < 2 ^ bu_bits pn"
  using bu_bits_val [of pn] by fastforce

lemma bu_bits_le: "bu_bits pn \<le> 32 * length pn"
proof (cases "bu_val pn = 0")
  case False
  then have "2 ^ (bu_bits pn - 1) < (2 :: nat) ^ (32 * length pn)"
    using bu_bits_val(2) [of pn] bu_val_bound [of pn] by linarith
  then show ?thesis using power_less_imp_less_exp [of "2 :: nat" "bu_bits pn - 1" "32 * length pn"] by linarith
qed (simp add: bu_bits_val)

section \<open>Shifts\<close>

lemma bit_limbs:
  fixes a v :: nat
  assumes "a < 2 ^ 32"
  shows "bit (a + 2 ^ 32 * v) n \<longleftrightarrow> (if n < 32 then bit a n else bit v (n - 32))"
proof (cases "n < 32")
  case True
  have p: "(2 :: nat) ^ 32 = 2 ^ n * 2 ^ (32 - n)" using True by (simp flip: power_add)
  have "(a + 2 ^ 32 * v) div 2 ^ n = a div 2 ^ n + 2 ^ (32 - n) * v"
    unfolding p using div_mult_self2 [of "2 ^ n" a "2 ^ (32 - n) * v"] by (simp only: mult.assoc) simp
  then show ?thesis using True by (simp add: bit_iff_odd)
next
  case False
  then have "(2 :: nat) ^ n = 2 ^ 32 * 2 ^ (n - 32)" by (subst power_add [symmetric]) simp
  then have "(a + 2 ^ 32 * v) div 2 ^ n = v div 2 ^ (n - 32)"
    using assms by (simp only: div_mult2_eq) simp
  then show ?thesis using False by (simp add: bit_iff_odd)
qed

lemma limb_position: "r < 32 \<Longrightarrow> (32 * m + r) div 32 = m \<and> (32 * m + r) mod 32 = (r :: nat)"
  by simp

lemma bit_bu_val: "bit (bu_val pn) n \<longleftrightarrow> n div 32 < length pn \<and> bit (pn ! (n div 32)) (n mod 32)"
proof (induction pn arbitrary: n)
  case (Cons x xs)
  have b: "bit (bu_val (x # xs)) n \<longleftrightarrow> (if n < 32 then bit (unat x) n else bit (bu_val xs) (n - 32))"
    using bit_limbs [OF limb_lt] by simp
  show ?case
  proof (cases "n < 32")
    case True
    then show ?thesis using b by (simp add: bit_unsigned_iff)
  next
    case False
    then obtain m where "n = m + 32" using le_Suc_ex [of 32 n] by (auto simp: add.commute)
    moreover from this have "n div 32 = Suc (m div 32)" "n mod 32 = m mod 32" by simp_all
    ultimately show ?thesis using b Cons.IH [of m] by simp
  qed
qed simp

definition shl_limb :: "base_uint \<Rightarrow> nat \<Rightarrow> nat \<Rightarrow> nat \<Rightarrow> nat \<Rightarrow> uint32" where
  "shl_limb a k s m j =
     (if k \<le> j \<and> j - k < m then push_bit s (a ! (j - k)) else 0) OR
     (if s \<noteq> 0 \<and> k + 1 \<le> j \<and> j - k - 1 < m then drop_bit (32 - s) (a ! (j - k - 1)) else 0)"

lemma shl_loop:
  "length (fold (shl_step a k s) [0 ..< m] (bu_zero (length a))) = length a \<and>
   (\<forall>j < length a. fold (shl_step a k s) [0 ..< m] (bu_zero (length a)) ! j = shl_limb a k s m j)"
proof (induction m)
  case 0
  then show ?case by (simp add: bu_zero_def shl_limb_def)
next
  case (Suc m)
  let ?pn = "fold (shl_step a k s) [0 ..< m] (bu_zero (length a))"
  have l: "length ?pn = length a" and n: "\<And>j. j < length a \<Longrightarrow> ?pn ! j = shl_limb a k s m j" using Suc by auto
  have "shl_step a k s m ?pn ! j = shl_limb a k s (Suc m) j" if j: "j < length a" for j
  proof -
    consider "j = m + k" | "j = m + k + 1" | "j \<noteq> m + k" "j \<noteq> m + k + 1" by blast
    then show ?thesis
    proof cases
      case 1
      then have "?pn ! j = (if s \<noteq> 0 \<and> 0 < m then drop_bit (32 - s) (a ! (m - 1)) else 0)"
        using n [OF j] by (simp add: shl_limb_def)
      then show ?thesis using 1 j l by (auto simp: shl_step_def Let_def shl_limb_def or.commute)
    next
      case 2
      then have "?pn ! j = 0" using n [OF j] by (simp add: shl_limb_def)
      then show ?thesis using 2 j l by (cases "s = 0") (auto simp: shl_step_def Let_def shl_limb_def)
    next
      case 3
      then have "shl_step a k s m ?pn ! j = ?pn ! j" by (auto simp: shl_step_def Let_def)
      moreover have "shl_limb a k s (Suc m) j = shl_limb a k s m j"
      proof -
        have "k \<le> j \<and> j - k < Suc m \<longleftrightarrow> k \<le> j \<and> j - k < m" using 3 by auto
        moreover have "k + 1 \<le> j \<and> j - k - 1 < Suc m \<longleftrightarrow> k + 1 \<le> j \<and> j - k - 1 < m" using 3 by auto
        ultimately show ?thesis by (simp only: shl_limb_def)
      qed
      ultimately show ?thesis using n [OF j] by simp
    qed
  qed
  moreover have "length (shl_step a k s m ?pn) = length a" using l by (simp add: shl_step_def Let_def)
  moreover have "fold (shl_step a k s) [0 ..< Suc m] (bu_zero (length a)) = shl_step a k s m ?pn" by simp
  ultimately show ?case by (simp only:) blast
qed

lemma length_bu_shl [simp]: "length (bu_shl a s) = length a"
  using shl_loop [of a] by (simp add: bu_shl_def)

lemma bu_shl_val: "bu_val (bu_shl a sh) = (bu_val a * 2 ^ sh) mod 2 ^ (32 * length a)"
proof -
  have "bit (bu_val (bu_shl a sh)) n \<longleftrightarrow> bit (take_bit (32 * length a) (push_bit sh (bu_val a))) n" for n
  proof -
    define k s j r where "k = sh div 32" and "s = sh mod 32" and "j = n div 32" and "r = n mod 32"
    have sh: "sh = 32 * k + s" "s < 32" and nr: "n = 32 * j + r" "r < 32" by (simp_all add: k_def s_def j_def r_def)
    have nth: "bu_shl a sh ! j = shl_limb a k s (length a) j" if "j < length a"
      using shl_loop [of a k s "length a"] that by (simp add: bu_shl_def k_def s_def)
    have "bit (bu_val (bu_shl a sh)) n \<longleftrightarrow> j < length a \<and> bit (shl_limb a k s (length a) j) r"
      using bit_bu_val [of "bu_shl a sh" n] nth by (auto simp: j_def r_def)
    also have "\<dots> \<longleftrightarrow> j < length a \<and> sh \<le> n \<and> bit (bu_val a) (n - sh)"
    proof (cases "s \<le> r")
      case True
      then have "sh \<le> n \<longleftrightarrow> k \<le> j" and d: "k \<le> j \<Longrightarrow> n - sh = 32 * (j - k) + (r - s)"
        using sh nr by (auto simp: algebra_simps)
      moreover have "bit (bu_val a) (32 * (j - k) + (r - s)) \<longleftrightarrow> j - k < length a \<and> bit (a ! (j - k)) (r - s)"
        using nr(2) by (simp add: bit_bu_val)
      moreover have "\<not> bit (x :: uint32) (32 - s + r)" for x using True bit_imp_le_length [of x "32 - s + r"] sh(2) by auto
      ultimately show ?thesis using nr(2) True
        by (auto simp: shl_limb_def bit_or_iff bit_push_bit_iff bit_drop_bit_eq)
    next
      case False
      then have "sh \<le> n \<longleftrightarrow> k + 1 \<le> j" and d: "k + 1 \<le> j \<Longrightarrow> n - sh = 32 * (j - k - 1) + (32 - s + r)"
        using sh nr by (auto simp: algebra_simps)
      moreover have "bit (bu_val a) (32 * (j - k - 1) + (32 - s + r)) \<longleftrightarrow> j - k - 1 < length a \<and> bit (a ! (j - k - 1)) (32 - s + r)"
        using limb_position [of "32 - s + r" "j - k - 1"] False sh(2) by (simp only: bit_bu_val)
      ultimately show ?thesis using nr(2) False
        by (auto simp: shl_limb_def bit_or_iff bit_push_bit_iff bit_drop_bit_eq)
    qed
    also have "\<dots> \<longleftrightarrow> bit (take_bit (32 * length a) (push_bit sh (bu_val a))) n"
      using nr by (auto simp: bit_take_bit_iff bit_push_bit_iff)
    finally show ?thesis .
  qed
  then have "bu_val (bu_shl a sh) = take_bit (32 * length a) (push_bit sh (bu_val a))" by (simp add: bit_eq_iff)
  then show ?thesis by (simp add: take_bit_eq_mod push_bit_eq_mult)
qed

definition shr_limb :: "base_uint \<Rightarrow> nat \<Rightarrow> nat \<Rightarrow> nat \<Rightarrow> nat \<Rightarrow> uint32" where
  "shr_limb a k s m j =
     (if s \<noteq> 0 \<and> j + k + 1 < m then push_bit (32 - s) (a ! (j + k + 1)) else 0) OR
     (if j + k < m then drop_bit s (a ! (j + k)) else 0)"

lemma shr_loop:
  "m \<le> length a \<Longrightarrow>
   length (fold (shr_step a k s) [0 ..< m] (bu_zero (length a))) = length a \<and>
   (\<forall>j < length a. fold (shr_step a k s) [0 ..< m] (bu_zero (length a)) ! j = shr_limb a k s m j)"
proof (induction m)
  case 0
  then show ?case by (simp add: bu_zero_def shr_limb_def)
next
  case (Suc m)
  let ?pn = "fold (shr_step a k s) [0 ..< m] (bu_zero (length a))"
  have l: "length ?pn = length a" and n: "\<And>j. j < length a \<Longrightarrow> ?pn ! j = shr_limb a k s m j" using Suc by auto
  have "shr_step a k s m ?pn ! j = shr_limb a k s (Suc m) j" if j: "j < length a" for j
  proof -
    consider "m = j + k" | "m = j + k + 1" | "m \<noteq> j + k" "m \<noteq> j + k + 1" by blast
    then show ?thesis
    proof cases
      case 3
      then have "shr_step a k s m ?pn ! j = ?pn ! j" by (auto simp: shr_step_def Let_def)
      moreover have "shr_limb a k s (Suc m) j = shr_limb a k s m j" using 3 by (auto simp: shr_limb_def less_Suc_eq)
      ultimately show ?thesis using n [OF j] by simp
    next
      case 1
      then have "?pn ! j = 0" using n [OF j] by (simp add: shr_limb_def)
      then show ?thesis using 1 j l by (auto simp: shr_step_def Let_def nth_list_update shr_limb_def)
    next
      case 2
      then have "?pn ! j = drop_bit s (a ! (j + k))" using n [OF j] by (simp add: shr_limb_def)
      then show ?thesis using 2 j l by (auto simp: shr_step_def Let_def nth_list_update shr_limb_def or.commute)
    qed
  qed
  moreover have "length (shr_step a k s m ?pn) = length a" using l by (simp add: shr_step_def Let_def)
  moreover have "fold (shr_step a k s) [0 ..< Suc m] (bu_zero (length a)) = shr_step a k s m ?pn" by simp
  ultimately show ?case by (simp only:) blast
qed

lemma length_bu_shr [simp]: "length (bu_shr a s) = length a"
  using shr_loop [of "length a" a] by (simp add: bu_shr_def)

lemma bu_shr_val: "bu_val (bu_shr a sh) = bu_val a div 2 ^ sh"
proof -
  have "bit (bu_val (bu_shr a sh)) n \<longleftrightarrow> bit (drop_bit sh (bu_val a)) n" for n
  proof -
    define k s j r where "k = sh div 32" and "s = sh mod 32" and "j = n div 32" and "r = n mod 32"
    have sh: "sh = 32 * k + s" "s < 32" and nr: "n = 32 * j + r" "r < 32" by (simp_all add: k_def s_def j_def r_def)
    have nth: "bu_shr a sh ! j = shr_limb a k s (length a) j" if "j < length a"
      using shr_loop [of "length a" a k s] that by (simp add: bu_shr_def k_def s_def)
    have "bit (bu_val (bu_shr a sh)) n \<longleftrightarrow> j < length a \<and> bit (shr_limb a k s (length a) j) r"
      using bit_bu_val [of "bu_shr a sh" n] nth by (auto simp: j_def r_def)
    also have "\<dots> \<longleftrightarrow> bit (bu_val a) (sh + n)"
    proof (cases "r + s < 32")
      case True
      then have "bit (bu_val a) (sh + n) \<longleftrightarrow> j + k < length a \<and> bit (a ! (j + k)) (r + s)"
        using limb_position [of "r + s" "j + k"] sh nr by (simp add: bit_bu_val algebra_simps)
      then show ?thesis using True nr(2) by (auto simp: shr_limb_def bit_or_iff bit_push_bit_iff bit_drop_bit_eq add.commute)
    next
      case False
      then have "sh + n = 32 * (j + k + 1) + (r + s - 32)" using sh nr by simp
      then have "bit (bu_val a) (sh + n) \<longleftrightarrow> j + k + 1 < length a \<and> bit (a ! (j + k + 1)) (r + s - 32)"
        using limb_position [of "r + s - 32" "j + k + 1"] sh(2) nr(2) by (simp only: bit_bu_val)
      moreover have "\<not> bit (x :: uint32) (s + r)" for x using False bit_imp_le_length [of x "s + r"] by auto
      moreover have "r - (32 - s) = r + s - 32" using sh(2) by simp
      ultimately show ?thesis using False nr(2) sh(2)
        by (auto simp: shr_limb_def bit_or_iff bit_push_bit_iff bit_drop_bit_eq)
    qed
    finally show ?thesis by (simp add: bit_drop_bit_eq)
  qed
  then have "bu_val (bu_shr a sh) = drop_bit sh (bu_val a)" by (intro bit_eqI)
  then show ?thesis by (simp add: drop_bit_eq_div)
qed

section \<open>Division\<close>

lemma bu_set_bit:
  assumes "s < 32 * length pn" "\<not> bit (bu_val pn) s"
  shows "bu_val (pn[s div 32 := pn ! (s div 32) OR push_bit (s mod 32) 1]) = bu_val pn + 2 ^ s"
proof -
  have s: "s div 32 < length pn" using assms(1) by (simp add: less_mult_imp_div_less mult.commute)
  have "bit (bu_val (pn[s div 32 := pn ! (s div 32) OR push_bit (s mod 32) 1])) n \<longleftrightarrow> bit (bu_val pn OR 2 ^ s) n" for n
  proof -
    have "n div 32 = s div 32 \<and> n mod 32 = s mod 32 \<longleftrightarrow> n = s" by (metis div_mult_mod_eq)
    then show ?thesis using s
      by (auto simp: bit_bu_val bit_or_iff nth_list_update bit_push_bit_iff bit_exp_iff push_bit_of_1)
  qed
  then have "bu_val (pn[s div 32 := pn ! (s div 32) OR push_bit (s mod 32) 1]) = bu_val pn OR 2 ^ s"
    by (simp add: bit_eq_iff)
  also have "\<dots> = bu_val pn + 2 ^ s"
    using assms(2) by (intro disjunctive_add_eq_or [symmetric] bit_eqI) (auto simp: bit_and_iff bit_exp_iff)
  finally show ?thesis .
qed

lemma div_loop_val:
  assumes "length num = W" "length d = W" "length pn = W" "n \<le> 32 * W" "0 < B"
    and "bu_val num < B * 2 ^ n" "n \<noteq> 0 \<Longrightarrow> bu_val d = B * 2 ^ (n - 1)" "2 ^ n dvd bu_val pn"
  shows "bu_val (div_loop n num d pn) = bu_val pn + bu_val num div B \<and> length (div_loop n num d pn) = W"
  using assms
proof (induction n arbitrary: num d pn)
  case (Suc s)
  have d: "bu_val d = B * 2 ^ s" using Suc.prems(7) by simp
  have shr: "s \<noteq> 0 \<Longrightarrow> bu_val (bu_shr d 1) = B * 2 ^ (s - 1)" using d by (cases s) (simp_all add: bu_shr_val)
  have ge: "bu_CompareTo num d \<ge> 0 \<longleftrightarrow> bu_val d \<le> bu_val num"
    using Suc.prems(1,2) by (auto simp: bu_CompareTo_val sgn_if)
  show ?case
  proof (cases "bu_val d \<le> bu_val num")
    case True
    let ?pn = "pn[s div 32 := pn ! (s div 32) OR push_bit (s mod 32) 1]"
    have "\<not> bit (bu_val pn) s" using Suc.prems(8) by (auto simp: bit_iff_odd dvd_def)
    then have pn: "bu_val ?pn = bu_val pn + 2 ^ s" using Suc.prems(3,4) by (intro bu_set_bit) simp_all
    have sub: "bu_val (bu_sub num d) = bu_val num - B * 2 ^ s" using True Suc.prems(1,2) d by (simp add: bu_sub_val)
    have "2 ^ s dvd bu_val ?pn" using Suc.prems(8) pn by (auto simp: power_Suc intro: dvd_add dvd_mult_left)
    then have "bu_val (div_loop s (bu_sub num d) (bu_shr d 1) ?pn) = bu_val ?pn + bu_val (bu_sub num d) div B \<and>
        length (div_loop s (bu_sub num d) (bu_shr d 1) ?pn) = W"
      using Suc.prems sub shr True d by (intro Suc.IH) simp_all
    moreover have "bu_val num div B = (bu_val num - B * 2 ^ s) div B + 2 ^ s"
      using div_mult_self2 [of B "bu_val num - B * 2 ^ s" "2 ^ s"] True d Suc.prems(5) by simp
    ultimately show ?thesis using True ge pn sub by simp
  next
    case False
    have "2 ^ s dvd bu_val pn" using Suc.prems(8) by (auto intro: dvd_mult_left)
    then show ?thesis using Suc.IH [of num "bu_shr d 1" pn] Suc.prems shr False ge d by simp
  qed
qed simp

lemma bu_div_val:
  assumes "length a = length b" "bu_val b \<noteq> 0"
  obtains q where "bu_div a b = Some q" "length q = length a" "bu_val q = bu_val a div bu_val b"
proof (cases "bu_bits b \<le> bu_bits a")
  case False
  then have "bu_bits a \<le> bu_bits b - 1" by simp
  then have "bu_val a < 2 ^ (bu_bits b - 1)" using bu_bits_less [of a] by (meson less_le_trans one_le_numeral power_increasing)
  then have "bu_val a < bu_val b" using bu_bits_val(2) [OF assms(2)] by simp
  then show ?thesis using that [of "bu_zero (length a)"] False assms(2) by (simp add: bu_div_def)
next
  case True
  let ?s = "bu_bits a - bu_bits b"
  have b: "0 < bu_bits b" "2 ^ (bu_bits b - 1) \<le> bu_val b" using bu_bits_val(2) [OF assms(2)] by auto
  have "bu_val b * 2 ^ ?s < 2 ^ bu_bits b * 2 ^ ?s" using bu_bits_less by simp
  also have "\<dots> = 2 ^ bu_bits a" using True by (simp flip: power_add)
  also have "\<dots> \<le> 2 ^ (32 * length a)" using bu_bits_le by (intro power_increasing) auto
  finally have d: "bu_val (bu_shl b ?s) = bu_val b * 2 ^ ?s" using assms(1) by (simp add: bu_shl_val)
  have "bu_val a < 2 ^ bu_bits a" by (rule bu_bits_less)
  also have "\<dots> = 2 ^ (bu_bits b - 1) * 2 ^ Suc ?s" unfolding power_add [symmetric] using True b(1) by simp
  also have "\<dots> \<le> bu_val b * 2 ^ Suc ?s" using b(2) by (intro mult_le_mono) auto
  finally have num: "bu_val a < bu_val b * 2 ^ Suc ?s" .
  have "Suc ?s \<le> 32 * length a" using b(1) True bu_bits_le [of a] by linarith
  with num have "bu_val (div_loop (Suc ?s) a (bu_shl b ?s) (bu_zero (length a))) = 0 + bu_val a div bu_val b \<and>
      length (div_loop (Suc ?s) a (bu_shl b ?s) (bu_zero (length a))) = length a"
    using div_loop_val [of a "length a" "bu_shl b ?s" "bu_zero (length a)" "Suc ?s" "bu_val b"] assms d b(1) bu_bits_le [of a]
    by (simp del: div_loop.simps)
  then show ?thesis using that assms(2) True by (simp add: bu_div_def Let_def del: div_loop.simps)
qed

text \<open>C21: the division of \<^verbatim>\<open>base_uint\<close>, a loop of shifts, comparisons and subtractions over 32-bit limbs,
  throws exactly for a zero divisor and otherwise returns the exact quotient.\<close>

theorem bu_div_correct:
  assumes "length a = length b"
  shows "case bu_div a b of
      None \<Rightarrow> bu_val b = 0
    | Some q \<Rightarrow> bu_val b \<noteq> 0 \<and> length q = length a \<and> bu_val q = bu_val a div bu_val b"
proof (cases "bu_val b = 0")
  case True
  then show ?thesis by (simp add: bu_div_def)
next
  case False
  then obtain q where "bu_div a b = Some q" "length q = length a" "bu_val q = bu_val a div bu_val b"
    using bu_div_val [OF assms] by blast
  then show ?thesis using False by simp
qed

theorem bu_div_correct_witness:
  "case bu_div [5, 7] [3, 0] of
      None \<Rightarrow> bu_val [3, 0] = 0
    | Some q \<Rightarrow> bu_val [3, 0] \<noteq> 0 \<and> length q = length [5, 7 :: uint32] \<and> bu_val q = bu_val [5, 7] div bu_val [3, 0]"
  by (rule bu_div_correct) simp

section \<open>Compact form\<close>

lemma u64_lt: "unat (x :: uint64) < 2 ^ 64"
  using unsigned_less [of x] by simp

lemma bu_of_uint64_val: "2 \<le> W \<Longrightarrow> bu_val (bu_of_uint64 W b) = unat b \<and> length (bu_of_uint64 W b) = W"
proof -
  have "unat (ucast b :: uint32) = unat b mod 2 ^ 32"
    by (simp add: unsigned_ucast_eq take_bit_eq_mod)
  moreover have "unat (ucast (drop_bit 32 b) :: uint32) = unat b div 2 ^ 32"
    using u64_lt [of b] by (simp only: unsigned_ucast_eq limb_hi) (simp add: take_bit_nat_eq_self less_mult_imp_div_less)
  ultimately show "2 \<le> W \<Longrightarrow> ?thesis" by (simp add: bu_of_uint64_def)
qed

lemma bu_GetLow64_val:
  assumes "2 \<le> length pn"
  shows "unat (bu_GetLow64 pn) = bu_val pn mod 2 ^ 64"
proof -
  obtain x y zs where pn: "pn = x # y # zs" using assms by (cases pn rule: remdups_adj.cases) auto
  have "(ucast x :: uint64) AND push_bit 32 (ucast y) = 0"
    by (intro bit_word_eqI) (auto simp: bit_and_iff bit_push_bit_iff bit_ucast_iff dest: bit_imp_le_length)
  then have "bu_GetLow64 pn = ucast x + push_bit 32 (ucast y)"
    unfolding bu_GetLow64_def pn by (simp add: disjunctive_add_eq_or)
  moreover have "unat (push_bit 32 (ucast y) :: uint64) = unat y * 2 ^ 32"
    using limb_lt [of y] by (subst unsigned_push_bit_eq) (simp add: push_bit_eq_mult take_bit_nat_eq_self)
  ultimately have "unat (bu_GetLow64 pn) = unat x + 2 ^ 32 * unat y"
    using limb_lt [of x] limb_lt [of y] by (simp add: unat_word_ariths)
  moreover have "bu_val pn mod 2 ^ (32 + 32) = unat x mod 2 ^ 32 + 2 ^ 32 * ((unat x div 2 ^ 32 + (unat y + 2 ^ 32 * bu_val zs)) mod 2 ^ 32)"
    unfolding pn bu_val.simps by (rule limb_step)
  ultimately show ?thesis using limb_lt [of x] limb_lt [of y] by simp
qed

lemma compact_word:
  fixes m n :: nat
  assumes "m < 2 ^ 24" "n < 2 ^ 8"
  shows "unat ((of_nat m :: uint32) OR push_bit 24 (of_nat n)) = m + 2 ^ 24 * n"
proof -
  have "\<not> bit m i" if "24 \<le> i" for i
    using assms(1) that by (metis bit_take_bit_iff not_le take_bit_nat_eq_self)
  then have "(of_nat m :: uint32) AND push_bit 24 (of_nat n) = 0"
    by (intro bit_word_eqI) (auto simp: bit_and_iff bit_push_bit_iff bit_of_nat_iff)
  then have "(of_nat m :: uint32) OR push_bit 24 (of_nat n) = of_nat (m + 2 ^ 24 * n)"
    by (simp add: push_bit_eq_mult mult.commute flip: disjunctive_add_eq_or)
  moreover have "m + 2 ^ 24 * n < 2 ^ 32" using assms by simp
  ultimately show ?thesis by (simp only: unat_of_nat) simp
qed

lemma mask23: "unat (c AND 0x007fffff :: uint32) = unat c mod 2 ^ 23"
proof -
  have "c AND 0x007fffff = take_bit 23 c" by (simp add: take_bit_eq_mask mask_eq_exp_minus_1)
  then show ?thesis by (simp add: unsigned_take_bit_eq) (simp add: take_bit_eq_mod)
qed

lemma bit23: "(c AND 0x00800000 \<noteq> (0 :: uint32)) \<longleftrightarrow> odd (unat c div 2 ^ 23)"
proof -
  have "(c AND 2 ^ 23 \<noteq> 0) \<longleftrightarrow> bit c 23" by (simp only: and_exp_eq_0_iff_not_bit not_not)
  moreover have "bit c 23 \<longleftrightarrow> bit (unat c) 23" by (simp add: bit_unsigned_iff)
  ultimately show ?thesis by (simp add: bit_iff_odd)
qed

lemma bit23_small: "unat c < 2 ^ 24 \<Longrightarrow> (c AND 0x00800000 \<noteq> (0 :: uint32)) \<longleftrightarrow> 2 ^ 23 \<le> unat c"
proof -
  assume c: "unat c < 2 ^ 24"
  have "unat c div 2 ^ 23 = (if 2 ^ 23 \<le> unat c then 1 else 0)" using c by (auto intro: div_nat_eqI)
  then show ?thesis unfolding bit23 by simp
qed

lemma drop_bit_unat: "unat (drop_bit k (c :: uint32)) = unat c div 2 ^ k"
  using limb_lt [of c] by (simp only: unsigned_drop_bit_eq drop_bit_eq_div [where 'a = nat]) (simp add: take_bit_nat_eq_self)

lemma SetCompact_val:
  assumes "unat c = m + 2 ^ 24 * n" "m < 2 ^ 23" "n < 2 ^ 8"
  shows "length (fst (SetCompact c)) = 8" "\<not> fst (snd (SetCompact c))"
    "n \<le> 3 \<Longrightarrow> bu_val (fst (SetCompact c)) = m div 2 ^ (8 * (3 - n))"
    "3 < n \<Longrightarrow> bu_val (fst (SetCompact c)) = (m * 2 ^ (8 * (n - 3))) mod 2 ^ 256"
    "n \<le> 32 \<or> (n = 33 \<and> m \<le> 0xffff) \<Longrightarrow> \<not> snd (snd (SetCompact c))"
proof -
  have n: "unat (drop_bit 24 c) = n" using assms by (simp add: drop_bit_unat)
  have m: "unat (c AND 0x007fffff) = m" unfolding mask23 assms(1) using assms(2)
    by (simp add: mod_add_right_eq [symmetric])
  have "(m + 2 ^ 24 * n) div 2 ^ 23 = 2 * n" using assms(2) by (simp add: div_mult_self2)
  then have neg: "c AND 0x00800000 = 0" using bit23 [of c] assms(1) by simp
  note val = bu_of_uint64_val [of 8] bu_shl_val
  show "length (fst (SetCompact c)) = 8" using val by (simp add: SetCompact_def Let_def)
  show "\<not> fst (snd (SetCompact c))" using neg by (simp add: SetCompact_def Let_def)
  show "bu_val (fst (SetCompact c)) = m div 2 ^ (8 * (3 - n))" if "n \<le> 3"
    using that val n m drop_bit_unat [of "8 * (3 - n)" "c AND 0x007fffff"]
    by (simp add: SetCompact_def Let_def del: drop_bit_and)
  show "bu_val (fst (SetCompact c)) = (m * 2 ^ (8 * (n - 3))) mod 2 ^ 256" if "3 < n"
    using that val n m by (simp add: SetCompact_def Let_def)
  show "\<not> snd (snd (SetCompact c))" if "n \<le> 32 \<or> (n = 33 \<and> m \<le> 0xffff)"
    using that n m by (auto simp: SetCompact_def Let_def word_less_nat_alt)
qed

lemma compact_bytes:
  assumes "length pn = 8" "n = (bu_bits pn + 7) div 8"
  shows "bu_val pn < 2 ^ (8 * n)" "0 < n \<Longrightarrow> 2 ^ (8 * (n - 1)) \<le> bu_val pn" "n \<le> 32"
proof -
  have "bu_val pn < 2 ^ bu_bits pn" by (rule bu_bits_less)
  also have "\<dots> \<le> 2 ^ (8 * n)" using assms(2) by (intro power_increasing) auto
  finally show "bu_val pn < 2 ^ (8 * n)" .
  show "n \<le> 32" using assms bu_bits_le [of pn] by auto
  assume "0 < n"
  then have "bu_bits pn \<noteq> 0" using assms(2) by (intro notI) (simp del: bu_bits_eq_0)
  then have "bu_val pn \<noteq> 0" by simp
  moreover have "(2 :: nat) ^ (8 * (n - 1)) \<le> 2 ^ (bu_bits pn - 1)" using assms(2) by (intro power_increasing) auto
  ultimately show "2 ^ (8 * (n - 1)) \<le> bu_val pn" using bu_bits_val(2) [of pn] by linarith
qed

lemma pow8: "(2 :: nat) ^ (8 * Suc k) = 256 * 2 ^ (8 * k)"
  by (simp add: power_add)

text \<open>The mantissa and the exponent that \<^verbatim>\<open>GetCompact\<close> computes; \<open>k\<close> bytes of the value are cut off.\<close>

lemma GetCompact_val:
  assumes "length pn = 8"
  obtains c m N k where "GetCompact pn False = Some c" "unat c = m + 2 ^ 24 * N" "m < 2 ^ 23" "N \<le> 32 \<or> (N = 33 \<and> m \<le> 0xffff)"
    "k = N - 3" "N \<le> 3 \<Longrightarrow> m div 2 ^ (8 * (3 - N)) = bu_val pn" "3 < N \<Longrightarrow> m = bu_val pn div 2 ^ (8 * k) \<and> 2 ^ 15 \<le> m"
proof -
  define v where "v = bu_val pn"
  define n where "n = (bu_bits pn + 7) div 8"
  note b = compact_bytes [OF assms n_def, folded v_def]
  define c0 where "c0 = (if n \<le> 3 then v * 2 ^ (8 * (3 - n)) else v div 2 ^ (8 * (n - 3)))"
  have c0: "c0 < 2 ^ 24"
  proof (cases "n \<le> 3")
    case True
    have "v * 2 ^ (8 * (3 - n)) < 2 ^ (8 * n) * 2 ^ (8 * (3 - n))" using b(1) by simp
    also have "\<dots> = 2 ^ 24" unfolding power_add [symmetric] using True by (simp add: algebra_simps)
    finally show ?thesis using True by (simp add: c0_def)
  next
    case False
    have "2 ^ (8 * n) = 2 ^ 24 * (2 :: nat) ^ (8 * (n - 3))" using False unfolding power_add [symmetric] by simp
    then have "v < 2 ^ 24 * 2 ^ (8 * (n - 3))" using b(1) by (simp only:)
    then show ?thesis using False by (simp add: c0_def less_mult_imp_div_less)
  qed
  define w :: uint32 where "w = (if n \<le> 3 then ucast (push_bit (8 * (3 - n)) (bu_GetLow64 pn)) else ucast (bu_GetLow64 (bu_shr pn (8 * (n - 3)))))"
  have w: "unat w = c0"
  proof (cases "n \<le> 3")
    case True
    have "v < 2 ^ 24" using le_less_trans [OF _ c0, of v] True by (simp add: c0_def)
    then have "unat (bu_GetLow64 pn) = v" using assms by (simp add: bu_GetLow64_val v_def)
    moreover have "c0 = v * 2 ^ (8 * (3 - n))" using True by (simp add: c0_def)
    ultimately have "unat (push_bit (8 * (3 - n)) (bu_GetLow64 pn)) = c0"
      using c0 by (subst unsigned_push_bit_eq) (simp add: push_bit_eq_mult take_bit_nat_eq_self)
    moreover have "w = ucast (push_bit (8 * (3 - n)) (bu_GetLow64 pn))" using True by (simp add: w_def)
    ultimately show ?thesis using c0 by (simp only: unsigned_ucast_eq) (simp add: take_bit_nat_eq_self)
  next
    case False
    then have "unat (bu_GetLow64 (bu_shr pn (8 * (n - 3)))) = c0"
      using c0 assms by (simp add: bu_GetLow64_val bu_shr_val c0_def v_def)
    then show ?thesis using False c0 by (simp add: w_def unsigned_ucast_eq take_bit_nat_eq_self)
  qed
  define ng where "ng = (2 ^ 23 \<le> c0)"
  define m where "m = (if ng then c0 div 256 else c0)"
  define N where "N = (if ng then n + 1 else n)"
  have m: "m < 2 ^ 23" using c0 by (auto simp: m_def ng_def)
  have N: "N \<le> 33" using b(3) by (simp add: N_def)
  let ?w1 = "if ng then drop_bit 8 w else w"
  have "unat ?w1 = m" using w by (auto simp: m_def drop_bit_unat)
  then have w1: "?w1 = of_nat m" by (metis of_nat_unat ucast_id)
  have small: "?w1 AND NOT 0x007fffff = 0"
  proof -
    have "take_bit 23 ?w1 = ?w1" using m by (simp only: w1 take_bit_of_nat) (simp add: take_bit_nat_eq_self)
    moreover have "?w1 AND 0x007fffff = take_bit 23 ?w1" by (simp add: take_bit_eq_mask mask_eq_exp_minus_1)
    ultimately have "?w1 AND NOT 0x007fffff = (?w1 AND 0x007fffff) AND NOT 0x007fffff" by simp
    then show ?thesis by (simp add: and.assoc)
  qed
  have sgn: "w AND 0x00800000 \<noteq> 0 \<longleftrightarrow> ng" using bit23_small [of w] w c0 by (simp add: ng_def)
  let ?c = "(of_nat m :: uint32) OR push_bit 24 (of_nat N)"
  have G: "GetCompact pn False = Some ?c"
  proof -
    have "GetCompact pn False =
        (if ?w1 AND NOT 0x007fffff \<noteq> 0 then None else if N \<ge> 256 then None else Some (?w1 OR push_bit 24 (of_nat N)))"
      unfolding GetCompact_def Let_def n_def [symmetric] w_def [symmetric] sgn N_def by simp
    then show ?thesis using small N by (simp only: w1) simp
  qed
  show ?thesis
  proof (rule that [OF G, where N = N and m = m and k = "N - 3"])
    show "unat ?c = m + 2 ^ 24 * N" using m N by (intro compact_word) auto
    show "m < 2 ^ 23" by (rule m)
    show "N \<le> 32 \<or> (N = 33 \<and> m \<le> 0xffff)" using b(3) c0 by (auto simp: N_def m_def less_mult_imp_div_less)
    show "N - 3 = N - 3" ..
    show "m div 2 ^ (8 * (3 - N)) = bu_val pn" if "N \<le> 3"
    proof (cases ng)
      case True
      then have "3 - n = Suc (3 - N)" "n \<le> 3" using that by (simp_all add: N_def)
      then have "c0 = v * 2 ^ (8 * (3 - N)) * 256" by (simp only: c0_def pow8 if_True mult_ac)
      then show ?thesis using True by (simp add: m_def v_def)
    next
      case False
      then show ?thesis using that by (simp add: m_def c0_def N_def v_def)
    qed
    show "m = bu_val pn div 2 ^ (8 * (N - 3)) \<and> 2 ^ 15 \<le> m" if "3 < N"
    proof (cases ng)
      case True
      then have "2 ^ 15 \<le> m" by (auto simp: m_def ng_def)
      moreover have "m = v div 2 ^ (8 * (N - 3))"
      proof (cases "n = 3")
        case True
        then show ?thesis using \<open>ng\<close> by (simp add: m_def c0_def N_def)
      next
        case False
        then have "N - 3 = Suc (n - 3)" "\<not> n \<le> 3" using True that by (simp_all add: N_def)
        then show ?thesis using True by (simp only: m_def c0_def pow8 if_True if_False div_mult2_eq [symmetric] mult.commute)
      qed
      ultimately show ?thesis by (simp add: v_def)
    next
      case False
      then have n: "3 < n" "N = n" using that by (simp_all add: N_def)
      have "(2 :: nat) ^ (8 * (n - 1)) = 2 ^ 16 * 2 ^ (8 * (n - 3))" using n unfolding power_add [symmetric] by simp
      then have "2 ^ 16 \<le> v div 2 ^ (8 * (n - 3))" using b(2) n by (simp add: less_eq_div_iff_mult_less_eq)
      then show ?thesis using False n by (simp add: m_def c0_def v_def)
    qed
  qed
qed

lemma GetCompact_close:
  assumes "length pn = 8"
  shows "case GetCompact pn False of
      None \<Rightarrow> False
    | Some c \<Rightarrow>
        (case SetCompact c of (v, fNegative, fOverflow) \<Rightarrow>
           \<not> fNegative \<and> \<not> fOverflow \<and> bu_val v \<le> bu_val pn \<and> (bu_val pn - bu_val v) * 2 ^ 15 \<le> bu_val pn)"
proof -
  obtain c m N k where G: "GetCompact pn False = Some c" "unat c = m + 2 ^ 24 * N" "m < 2 ^ 23" "N \<le> 32 \<or> (N = 33 \<and> m \<le> 0xffff)"
    and k: "k = N - 3" and v: "N \<le> 3 \<Longrightarrow> m div 2 ^ (8 * (3 - N)) = bu_val pn"
      "3 < N \<Longrightarrow> m = bu_val pn div 2 ^ (8 * k) \<and> 2 ^ 15 \<le> m"
    by (rule GetCompact_val [OF assms]) (use that in blast)
  have N: "N < 2 ^ 8" using G(4) by auto
  note S = SetCompact_val [OF G(2,3) N]
  have "bu_val (fst (SetCompact c)) \<le> bu_val pn \<and> (bu_val pn - bu_val (fst (SetCompact c))) * 2 ^ 15 \<le> bu_val pn"
  proof (cases "N \<le> 3")
    case True
    then show ?thesis using S(3) v(1) by simp
  next
    case False
    let ?p = "2 ^ (8 * k) :: nat"
    have "bu_val pn mod ?p < ?p" by simp
    moreover have "bu_val pn = m * ?p + bu_val pn mod ?p" using v(2) False by (simp only: not_le div_mult_mod_eq)
    ultimately have m: "m * ?p \<le> bu_val pn" "bu_val pn - m * ?p \<le> ?p" by linarith+
    have "bu_val pn < 2 ^ 256" using bu_val_bound [of pn] assms by simp
    then have "bu_val (fst (SetCompact c)) = m * ?p" using S(4) False m(1) k by simp
    moreover have "(bu_val pn - m * ?p) * 2 ^ 15 \<le> ?p * m" using m(2) v(2) False by (intro mult_le_mono) auto
    ultimately show ?thesis using m(1) by (auto simp: mult.commute)
  qed
  then show ?thesis using S(2,5) G(1,4) by (auto split: prod.split)
qed

text \<open>C22: the compact form of a target is at most the target and loses less than one part in
  32768 of it; the assertions in \<^verbatim>\<open>GetCompact\<close> hold for every target, and what it returns reads back without
  a sign and without overflow.\<close>

theorem GetCompact_rounds_down:
  assumes "length pn = 8"
  shows "case GetCompact pn False of
      None \<Rightarrow> False
    | Some c \<Rightarrow>
        (case SetCompact c of (v, fNegative, fOverflow) \<Rightarrow>
           \<not> fNegative \<and> \<not> fOverflow \<and> bu_val v \<le> bu_val pn \<and> (bu_val pn - bu_val v) * 2 ^ 15 \<le> bu_val pn)"
  using GetCompact_close [OF assms] .

theorem GetCompact_rounds_down_witness:
  "case GetCompact [0xffffffff, 0xffffffff, 0xffffffff, 0xffffffff, 0xffffffff, 0xffffffff, 0xffffffff, 0xff] False of
      None \<Rightarrow> False
    | Some c \<Rightarrow>
        (case SetCompact c of (v, fNegative, fOverflow) \<Rightarrow>
           \<not> fNegative \<and> \<not> fOverflow \<and>
           bu_val v \<le> bu_val [0xffffffff, 0xffffffff, 0xffffffff, 0xffffffff, 0xffffffff, 0xffffffff, 0xffffffff, 0xff] \<and>
           (bu_val [0xffffffff, 0xffffffff, 0xffffffff, 0xffffffff, 0xffffffff, 0xffffffff, 0xffffffff, 0xff] - bu_val v) * 2 ^ 15
             \<le> bu_val [0xffffffff, 0xffffffff, 0xffffffff, 0xffffffff, 0xffffffff, 0xffffffff, 0xffffffff, 0xff])"
  by (rule GetCompact_rounds_down) simp

end
