(* ===== verification/Pow.thy ===== *)
theory Pow
  imports Chain_Props Uint256_Props Amount "HOL-Library.Signed_Division"
begin

text \<open>
  Difficulty (\<^verbatim>\<open>src/src/pow.cpp\<close>, \<^verbatim>\<open>chain.cpp\<close>): the next target, the check of the
  target of a header and the work of a block. Targets are arrays of eight limbs. The factor of a product is
  converted to 32 bits and the divisor to 64 bits, as the overloads of the operators have it. \<open>None\<close> is a
  failed assertion, a division by zero or an access through a null pointer.
\<close>

record pow_params =
  ProofOfWorkLimit :: base_uint
  StartWork :: base_uint
  TargetSpacing :: int
  TargetSpacingSlowLaunch :: int
  PoSTargetSpacing :: int
  pow_LAST_POW_BLOCK :: int
  SkipProofOfWorkCheck :: bool
  pow_ActiveProtocol :: int

definition CONSENSUS_FORK_PROTO_TIME :: int where "CONSENSUS_FORK_PROTO_TIME = 1554746400"

abbreviation (input) bu_all :: base_uint where "bu_all \<equiv> bu_not (bu_zero 8)"

definition mainPow :: pow_params where
  "mainPow = \<lparr>ProofOfWorkLimit = bu_shr bu_all 20, StartWork = bu_shr bu_all 24, TargetSpacing = 120,
     TargetSpacingSlowLaunch = 120, PoSTargetSpacing = 60, pow_LAST_POW_BLOCK = 200, SkipProofOfWorkCheck = True,
     pow_ActiveProtocol = 70223\<rparr>"

definition bu_mul_int :: "base_uint \<Rightarrow> int \<Rightarrow> base_uint" where
  "bu_mul_int a i = bu_mul32 a (word_of_int i)"

definition bu_div_int :: "base_uint \<Rightarrow> int \<Rightarrow> base_uint option" where
  "bu_div_int a i = bu_div a (bu_of_uint64 8 (word_of_int i))"

definition compact_target :: "uint32 \<Rightarrow> base_uint" where
  "compact_target nCompact = fst (SetCompact nCompact)"

section \<open>Next target\<close>

definition pos_spacing :: "pow_params \<Rightarrow> int \<Rightarrow> int" where
  "pos_spacing P t =
     (if pow_ActiveProtocol P \<ge> CONSENSUS_FORK_PROTO \<and> t \<ge> CONSENSUS_FORK_PROTO_TIME then
        if t \<ge> CONSENSUS_FORK_PROTO_TIME + 6 * 7 * 24 * 60 * 60 then 120
        else PoSTargetSpacing P + ((t - CONSENSUS_FORK_PROTO_TIME) div (7 * 24 * 60 * 60) + 1) * 10
      else PoSTargetSpacing P)"

definition pos_retarget :: "pow_params \<Rightarrow> block_store \<Rightarrow> nat \<Rightarrow> uint32 option" where
  "pos_retarget P st pindexLast =
     (let last = st ! pindexLast;
          bnTargetLimit = bu_shr bu_all 24;
          nTargetSpacing = pos_spacing P (Index_GetBlockTime last);
          nTargetTimespan = nTargetSpacing * 40
      in Option.bind
           (if bi_nHeight last \<noteq> 0
            then map_option (\<lambda>q. Index_GetBlockTime last - Index_GetBlockTime (st ! q)) (pprev last) else Some 0)
           (\<lambda>spacing0.
              let nActualSpacing = (if spacing0 < 0 then 1 else spacing0);
                  bnNew0 = (if int (bi_nHeight last) \<ge> pow_LAST_POW_BLOCK P \<and> int (bi_nHeight last) \<le> pow_LAST_POW_BLOCK P + 2
                            then bu_shr bu_all 4 else compact_target (bi_nBits last));
                  nInterval = nTargetTimespan sdiv nTargetSpacing;
                  bnNew1 = bu_mul_int bnNew0 ((nInterval - 1) * nTargetSpacing + nActualSpacing + nActualSpacing)
              in Option.bind (bu_div_int bnNew1 ((nInterval + 1) * nTargetSpacing)) (\<lambda>bnNew2.
                   GetCompact
                     (if bu_CompareTo bnNew2 (bu_zero 8) \<le> 0 \<or> bu_CompareTo bnNew2 bnTargetLimit > 0 then bnTargetLimit
                      else bnNew2) False)))"

text \<open>The loop of DarkGravity over the last 24 blocks: the count, the average target and the time span.\<close>

primrec dgw_loop ::
  "block_store \<Rightarrow> nat \<Rightarrow> nat option \<Rightarrow> nat \<times> base_uint \<times> int \<times> int \<Rightarrow> (nat \<times> base_uint \<times> int) option" where
  "dgw_loop st 0 reading s = (case s of (count, avg, lastTime, span) \<Rightarrow> Some (count, avg, span))"
| "dgw_loop st (Suc n) reading s =
     (case s of (count, avg, lastTime, span) \<Rightarrow>
        (case reading of
           None \<Rightarrow> Some (count, avg, span)
         | Some p \<Rightarrow>
             if bi_nHeight (st ! p) = 0 then Some (count, avg, span)
             else
               let count' = count + 1;
                   t = Index_GetBlockTime (st ! p);
                   target = compact_target (bi_nBits (st ! p));
                   span' = (if lastTime > 0 then span + (lastTime - t) else span)
               in Option.bind
                    (if count' = 1 then Some target
                     else bu_div_int (bu_add (bu_mul_int avg (int count')) target) (int count' + 1))
                    (\<lambda>avg'.
                       if pprev (st ! p) = None then Some (count', avg', span')
                       else dgw_loop st n (pprev (st ! p)) (count', avg', t, span'))))"

definition GetNextWorkRequired :: "pow_params \<Rightarrow> block_store \<Rightarrow> nat option \<Rightarrow> uint32 option" where
  "GetNextWorkRequired P st pindexLast =
     (case pindexLast of
        None \<Rightarrow> GetCompact (StartWork P) False
      | Some p \<Rightarrow>
          if bi_nHeight (st ! p) = 0 \<or> bi_nHeight (st ! p) < 24 then GetCompact (StartWork P) False
          else if int (bi_nHeight (st ! p)) \<ge> pow_LAST_POW_BLOCK P then pos_retarget P st p
          else Option.bind (dgw_loop st 24 pindexLast (0, bu_zero 8, 0, 0)) (\<lambda>(count, avg, span).
            let timespan = int count * (if bi_nHeight (st ! p) > 100 then TargetSpacing P else TargetSpacingSlowLaunch P);
                span1 = (if span < timespan sdiv 3 then timespan sdiv 3 else span);
                span2 = (if span1 > timespan * 3 then timespan * 3 else span1)
            in Option.bind (bu_div_int (bu_mul_int avg span2) timespan) (\<lambda>bnNew.
                 GetCompact (if bu_CompareTo bnNew (ProofOfWorkLimit P) > 0 then ProofOfWorkLimit P else bnNew) False)))"

section \<open>Checks and work\<close>

definition CheckProofOfWork :: "pow_params \<Rightarrow> uint256 \<Rightarrow> uint32 \<Rightarrow> bool" where
  "CheckProofOfWork P hash nBitsIn =
     (if SkipProofOfWorkCheck P then True
      else case SetCompact nBitsIn of (bnTarget, fNegative, fOverflow) \<Rightarrow>
        if fNegative \<or> bu_EqualTo bnTarget 0 \<or> fOverflow \<or> bu_CompareTo bnTarget (ProofOfWorkLimit P) > 0 then False
        else True)"

definition GetBlockProof :: "uint32 \<Rightarrow> base_uint option" where
  "GetBlockProof nBitsIn =
     (case SetCompact nBitsIn of (bnTarget, fNegative, fOverflow) \<Rightarrow>
        if fNegative \<or> fOverflow \<or> bu_EqualTo bnTarget 0 then Some (bu_zero 8)
        else map_option (\<lambda>q. bu_add q (bu_of_uint64 8 1))
               (bu_div (bu_not bnTarget) (bu_add bnTarget (bu_of_uint64 8 1))))"

definition GetBlockTrust :: "CBlockIndex \<Rightarrow> base_uint option" where
  "GetBlockTrust p =
     (let bnTarget = compact_target (bi_nBits p) in
      if bu_CompareTo bnTarget (bu_zero 8) \<le> 0 then Some (bu_zero 8)
      else if Index_IsProofOfStake p
      then bu_div (bu_shl (bu_of_uint64 8 1) 256) (bu_add bnTarget (bu_of_uint64 8 1))
      else map_option (\<lambda>bnPoWTrust. if bu_CompareTo bnPoWTrust (bu_of_uint64 8 1) > 0 then bnPoWTrust else bu_of_uint64 8 1)
             (bu_div (bu_shr bu_all 20) (bu_add bnTarget (bu_of_uint64 8 1))))"

section \<open>Properties\<close>

lemma bu_all_val: "bu_val bu_all = 2 ^ 256 - 1" "length bu_all = 8"
  using bu_not_val [of "bu_zero 8"] by simp_all

lemma length_of_uint64 [simp]: "2 \<le> W \<Longrightarrow> length (bu_of_uint64 W b) = W" "2 \<le> W \<Longrightarrow> bu_val (bu_of_uint64 W b) = unat b"
  using bu_of_uint64_val by simp_all

lemma unat_of_int64: "0 \<le> i \<Longrightarrow> i < 2 ^ 64 \<Longrightarrow> unat (word_of_int i :: uint64) = nat i"
  by (simp add: unsigned_of_int take_bit_int_eq_self nat_take_bit_eq flip: nat_eq_iff2) 

lemma bu_EqualTo_0: "2 \<le> length pn \<Longrightarrow> bu_EqualTo pn 0 \<longleftrightarrow> bu_val pn = 0"
proof -
  assume "2 \<le> length pn"
  then obtain x y zs where pn: "pn = x # y # zs" by (cases pn rule: remdups_adj.cases) auto
  have "list_all (\<lambda>x. x = 0) zs \<longleftrightarrow> bu_val zs = 0" by (induction zs) (auto simp: unat_eq_0)
  moreover have "ucast x = (0 :: uint64) \<longleftrightarrow> x = 0" for x :: uint32
    by (metis unat_ucast64 unsigned_0 unat_eq_0)
  ultimately show ?thesis unfolding pn by (auto simp: bu_EqualTo_def unat_eq_0)
qed

lemma length_SetCompact [simp]: "length (fst (SetCompact c)) = 8"
  by (simp add: SetCompact_def Let_def)

lemma SetCompact_below: "bu_val (fst (SetCompact c)) < 2 ^ 256 - 1"
proof -
  define n where "n = unat (drop_bit 24 c)"
  define w where "w = (if n \<le> 3 then drop_bit (8 * (3 - n)) (c AND 0x007fffff) else c AND 0x007fffff)"
  have "fst (SetCompact c) = (if n \<le> 3 then bu_of_uint64 8 (ucast w) else bu_shl (bu_of_uint64 8 (ucast w)) (8 * (n - 3)))"
    unfolding SetCompact_def Let_def n_def w_def by simp
  moreover have "unat w < 2 ^ 256 - 1" using limb_lt [of w] by simp
  moreover have "(unat w * 2 ^ (8 * (n - 3))) mod 2 ^ 256 < 2 ^ 256 - 1" if "\<not> n \<le> 3"
  proof -
    have "even (unat w * 2 ^ (8 * (n - 3)))" using that by simp
    then have "even ((unat w * 2 ^ (8 * (n - 3))) mod 2 ^ 256)" by (simp add: dvd_mod)
    moreover have "(unat w * 2 ^ (8 * (n - 3))) mod 2 ^ 256 < 2 ^ 256" by simp
    moreover have "odd (2 ^ 256 - 1 :: nat)" by simp
    ultimately have "(unat w * 2 ^ (8 * (n - 3))) mod 2 ^ 256 \<noteq> 2 ^ 256 - 1" by metis
    moreover have "(unat w * 2 ^ (8 * (n - 3))) mod 2 ^ 256 < 2 ^ 256" by simp
    moreover have "x < n - 1" if "x \<noteq> n - 1" "x < n" for x n :: nat using that by linarith
    ultimately show ?thesis by blast
  qed
  ultimately show ?thesis by (simp add: bu_shl_val)
qed

text \<open>The work of a block is exactly \<open>2 ^ 256\<close> divided by its target plus one, rounded down, although
  \<open>2 ^ 256\<close> is not representable; targets with a sign, an overflow or the value zero count nothing.\<close>

theorem GetBlockProof_exact:
  "case GetBlockProof c of
     None \<Rightarrow> False
   | Some w \<Rightarrow>
       (case SetCompact c of (v, fNegative, fOverflow) \<Rightarrow>
          bu_val w = (if fNegative \<or> fOverflow \<or> bu_val v = 0 then 0 else 2 ^ 256 div (bu_val v + 1)))"
proof -
  obtain v fNegative fOverflow where S: "SetCompact c = (v, fNegative, fOverflow)" by (cases "SetCompact c")
  then have len: "length v = 8" using length_SetCompact [of c] by simp
  show ?thesis
  proof (cases "fNegative \<or> fOverflow \<or> bu_val v = 0")
    case True
    then show ?thesis using S len by (auto simp: GetBlockProof_def bu_EqualTo_0)
  next
    case False
    let ?d = "bu_add v (bu_of_uint64 8 1)"
    let ?V = "bu_val v"
    have V: "0 < ?V" "?V < 2 ^ 256 - 1" using False SetCompact_below [of c] S by auto
    have d: "bu_val ?d = ?V + 1" "length ?d = 8" using V(2) len by (simp_all add: bu_add_val)
    have nv: "bu_val (bu_not v) = 2 ^ 256 - 1 - ?V" using bu_not_val [of v] len by simp
    obtain q where q: "bu_div (bu_not v) ?d = Some q" "length q = 8" "bu_val q = (2 ^ 256 - 1 - ?V) div (?V + 1)"
      using bu_div_val [of "bu_not v" ?d] d nv len by auto
    have "(2 ^ 256 - 1 - ?V) div (?V + 1) + 1 = (2 ^ 256 - 1 - ?V + (?V + 1)) div (?V + 1)"
      by (subst div_add_self2) simp_all
    also have "2 ^ 256 - 1 - ?V + (?V + 1) = (2 ^ 256 :: nat)" using V(2) by linarith
    finally have q1: "bu_val q + 1 = 2 ^ 256 div (?V + 1)" using q(3) by simp
    also have "\<dots> \<le> 2 ^ 256 div 2" using V(1) by (intro div_le_mono2) auto
    finally have "bu_val q + 1 < 2 ^ 256" by simp
    then have "bu_val (bu_add q (bu_of_uint64 8 1)) = 2 ^ 256 div (?V + 1)" using q1 q(2) by (simp add: bu_add_val)
    then show ?thesis using S False q(1) len by (simp add: GetBlockProof_def bu_EqualTo_0)
  qed
qed

text \<open>The trust score of a proof-of-stake block is always zero: the dividend \<open>1 << 256\<close> does not fit.\<close>

theorem GetBlockTrust_stake_zero:
  assumes "Index_IsProofOfStake p"
  shows "case GetBlockTrust p of None \<Rightarrow> False | Some w \<Rightarrow> bu_val w = 0"
proof -
  let ?v = "compact_target (bi_nBits p)"
  let ?d = "bu_add ?v (bu_of_uint64 8 1)"
  have v: "length ?v = 8" "bu_val ?v < 2 ^ 256 - 1" using SetCompact_below by (simp_all add: compact_target_def)
  then have d: "bu_val ?d = bu_val ?v + 1" "length ?d = 8" by (simp_all add: bu_add_val)
  have z: "bu_val (bu_shl (bu_of_uint64 8 1) 256) = 0" by (simp add: bu_shl_val)
  obtain q where q: "bu_div (bu_shl (bu_of_uint64 8 1) 256) ?d = Some q" "bu_val q = 0"
    using bu_div_val [of "bu_shl (bu_of_uint64 8 1) 256" ?d] d z by auto
  show ?thesis using assms q by (simp add: GetBlockTrust_def Let_def)
qed

text \<open>The check of the proof of work does not depend on the hash.\<close>

theorem CheckProofOfWork_ignores_hash: "CheckProofOfWork P h c = CheckProofOfWork P h' c"
  by (simp add: CheckProofOfWork_def)

section \<open>Retargeting\<close>

lemma pos_spacing_bounds:
  assumes "PoSTargetSpacing P = 60"
  shows "60 \<le> pos_spacing P t" "pos_spacing P t \<le> 120"
proof -
  have "(t - CONSENSUS_FORK_PROTO_TIME) div (7 * 24 * 60 * 60) \<le> 5"
    if "\<not> t \<ge> CONSENSUS_FORK_PROTO_TIME + 6 * 7 * 24 * 60 * 60"
    using that by simp
  moreover have "0 \<le> (t - CONSENSUS_FORK_PROTO_TIME) div (7 * 24 * 60 * 60)" if "t \<ge> CONSENSUS_FORK_PROTO_TIME"
    using that by simp
  ultimately show "60 \<le> pos_spacing P t" "pos_spacing P t \<le> 120" using assms by (auto simp: pos_spacing_def)
qed

lemma GetCompact_positive:
  assumes "length pn = 8" "0 < bu_val pn"
  obtains c where "GetCompact pn False = Some c" "0 < bu_val (compact_target c)" "bu_val (compact_target c) \<le> bu_val pn"
    "(bu_val pn - bu_val (compact_target c)) * 2 ^ 15 \<le> bu_val pn"
proof -
  obtain c v n ov where "GetCompact pn False = Some c" "SetCompact c = (v, n, ov)" "bu_val v \<le> bu_val pn"
    "(bu_val pn - bu_val v) * 2 ^ 15 \<le> bu_val pn"
    using GetCompact_close [OF assms(1)] by (auto split: option.splits prod.splits)
  then show ?thesis using that [of c] assms(2) by (auto simp: compact_target_def)
qed

lemma unat_of_int32: "0 \<le> i \<Longrightarrow> i < 2 ^ 32 \<Longrightarrow> unat (word_of_int i :: uint32) = nat i"
  by (simp add: unsigned_of_int take_bit_int_eq_self nat_take_bit_eq flip: nat_eq_iff2)

definition stake_limit :: nat where "stake_limit = 2 ^ 232 - 1"

definition clamp_target :: "nat \<Rightarrow> nat" where
  "clamp_target q = (if q = 0 \<or> q > stake_limit then stake_limit else q)"

lemma stake_limit_val: "bu_val (bu_shr bu_all 24) = stake_limit" "length (bu_shr bu_all 24) = 8"
  by (simp_all add: bu_shr_val bu_all_val stake_limit_def)

lemma clamp_limbs:
  assumes "length pn = 8"
  shows "bu_val (if bu_CompareTo pn (bu_zero 8) \<le> 0 \<or> bu_CompareTo pn (bu_shr bu_all 24) > 0 then bu_shr bu_all 24 else pn) =
    clamp_target (bu_val pn)"
  using assms stake_limit_val by (simp add: bu_CompareTo_val clamp_target_def sgn_if)

text \<open>After the first proof-of-stake blocks the next target is the last one times
  \<open>39 S + 2 A\<close> divided by \<open>41 S\<close> in exact integer arithmetic, for the target spacing \<open>S\<close> and the
  actual spacing \<open>A\<close> (1 if the time went back), replaced by the limit if it is zero or above it, and then rounded down to the
  compact form: no product wraps around and no assertion fails.\<close>

theorem GetNextWorkRequired_stake:
  assumes st: "pprev (st ! p) = Some q" "24 \<le> bi_nHeight (st ! p)" "pow_LAST_POW_BLOCK P + 2 < int (bi_nHeight (st ! p))"
    and P: "PoSTargetSpacing P = 60"
    and S: "S = pos_spacing P (Index_GetBlockTime (st ! p))"
    and A: "A = (if Index_GetBlockTime (st ! p) < Index_GetBlockTime (st ! q) then 1
                 else Index_GetBlockTime (st ! p) - Index_GetBlockTime (st ! q))" "A < 2 ^ 22"
    and v: "v = bu_val (compact_target (bi_nBits (st ! p)))" "v \<le> stake_limit"
    and N: "N = clamp_target (v * nat (39 * S + 2 * A) div nat (41 * S))"
  shows "case GetNextWorkRequired P st (Some p) of
      None \<Rightarrow> False
    | Some c \<Rightarrow> 0 < bu_val (compact_target c) \<and> bu_val (compact_target c) \<le> N \<and>
        (N - bu_val (compact_target c)) * 2 ^ 15 \<le> N"
proof -
  have Sb: "60 \<le> S" "S \<le> 120" using pos_spacing_bounds [OF P] S by auto
  have Ab: "0 \<le> A" using A(1) by auto
  let ?T = "compact_target (bi_nBits (st ! p))"
  have T: "length ?T = 8" by (simp add: compact_target_def)
  have div: "(S * 40) sdiv S = 40" using Sb by (simp add: signed_divide_int_def)
  let ?m = "39 * S + A + A"
  let ?n1 = "bu_mul_int ?T ?m"
  have m: "unat (word_of_int ?m :: uint32) = nat (39 * S + 2 * A)" using Sb Ab A(2) by (subst unat_of_int32) auto
  have "v * nat (39 * S + 2 * A) < 2 ^ 232 * 2 ^ 24"
    using v(2) Sb Ab A(2) by (intro mult_strict_mono) (auto simp: stake_limit_def)
  then have "v * nat (39 * S + 2 * A) < 2 ^ 256" by simp
  then have n1: "bu_val ?n1 = v * nat (39 * S + 2 * A)" "length ?n1 = 8"
    using T m v(1) by (simp_all add: bu_mul_int_def bu_mul32_val) (simp add: bu_mul32_def)
  have d: "bu_val (bu_of_uint64 8 (word_of_int (41 * S))) = nat (41 * S)"
    using Sb unat_of_int64 [of "41 * S"] by (simp del: of_int_mult)
  obtain n2 where n2: "bu_div_int ?n1 (41 * S) = Some n2" "length n2 = 8" "bu_val n2 = v * nat (39 * S + 2 * A) div nat (41 * S)"
    using bu_div_val [of ?n1 "bu_of_uint64 8 (word_of_int (41 * S))"] n1 d Sb by (auto simp: bu_div_int_def)
  let ?n3 = "if bu_CompareTo n2 (bu_zero 8) \<le> 0 \<or> bu_CompareTo n2 (bu_shr bu_all 24) > 0 then bu_shr bu_all 24 else n2"
  have n3: "bu_val ?n3 = N" "length ?n3 = 8" using clamp_limbs [OF n2(2)] n2(2,3) N stake_limit_val(2) by auto
  have "0 < N" unfolding N clamp_target_def by (auto simp: stake_limit_def)
  then obtain c where c: "GetCompact ?n3 False = Some c" "0 < bu_val (compact_target c)" "bu_val (compact_target c) \<le> N"
    "(N - bu_val (compact_target c)) * 2 ^ 15 \<le> N"
    using GetCompact_positive [OF n3(2)] n3(1) by metis
  have "pos_retarget P st p = GetCompact ?n3 False"
  proof -
    have "(if Index_GetBlockTime (st ! p) - Index_GetBlockTime (st ! q) < 0 then 1
        else Index_GetBlockTime (st ! p) - Index_GetBlockTime (st ! q)) = A"
      using A(1) by simp
    then show ?thesis using st n2(1) div S by (simp add: pos_retarget_def Let_def)
  qed
  then show ?thesis using st c by (simp add: GetNextWorkRequired_def)
qed

definition demo_stakes :: block_store where
  "demo_stakes = [CBlockIndex_null\<lparr>bi_nHeight := 299, bi_nTime := 1000000000\<rparr>,
     CBlockIndex_null\<lparr>bi_nHeight := 300, pprev := Some 0, bi_nTime := 1000000090, bi_nBits := 0x1c123456\<rparr>]"

theorem GetNextWorkRequired_stake_witness:
  "case GetNextWorkRequired mainPow demo_stakes (Some 1) of
      None \<Rightarrow> False
    | Some c \<Rightarrow> 0 < bu_val (compact_target c) \<and>
        bu_val (compact_target c) \<le> clamp_target (bu_val (compact_target 0x1c123456) * nat (39 * 60 + 2 * 90) div nat (41 * 60)) \<and>
        (clamp_target (bu_val (compact_target 0x1c123456) * nat (39 * 60 + 2 * 90) div nat (41 * 60)) - bu_val (compact_target c)) * 2 ^ 15
          \<le> clamp_target (bu_val (compact_target 0x1c123456) * nat (39 * 60 + 2 * 90) div nat (41 * 60))"
proof (rule GetNextWorkRequired_stake [where q = 0])
  show "60 = pos_spacing mainPow (Index_GetBlockTime (demo_stakes ! 1))" by code_simp
  show "bu_val (compact_target 0x1c123456) \<le> stake_limit"
    using SetCompact_val(4) [where c = "0x1c123456" and m = "0x123456" and n = 28] by (simp add: compact_target_def stake_limit_def)
  show "(90 :: int) = (if Index_GetBlockTime (demo_stakes ! 1) < Index_GetBlockTime (demo_stakes ! 0) then 1
      else Index_GetBlockTime (demo_stakes ! 1) - Index_GetBlockTime (demo_stakes ! 0))"
    by (simp add: demo_stakes_def Index_GetBlockTime_def)
  show "bu_val (compact_target 0x1c123456) = bu_val (compact_target (bi_nBits (demo_stakes ! 1)))"
    by (simp add: demo_stakes_def)
qed (simp_all add: demo_stakes_def mainPow_def)

end
