(* ===== verification/Check_Inputs.thy ===== *)
theory Check_Inputs
  imports Coins_View Tx_Checks Sighash
begin

text \<open>
  The checks of a transaction against the coins it spends (\<^verbatim>\<open>CheckInputs\<close> in
  \<^verbatim>\<open>src/src/main.cpp\<close>): availability, maturity, values and scripts, and the texts of the script
  errors (\<^verbatim>\<open>script/script_error.cpp\<close>). \<open>None\<close> is a failed assertion, an exception or an access outside a
  container.
\<close>

section \<open>Script checks\<close>

definition ScriptErrorString :: "ScriptError \<Rightarrow> string" where
  "ScriptErrorString serror =
     (case serror of
        SCRIPT_ERR_OK \<Rightarrow> ''No error''
      | SCRIPT_ERR_EVAL_FALSE \<Rightarrow> ''Script evaluated without error but finished with a false/empty top stack element''
      | SCRIPT_ERR_VERIFY \<Rightarrow> ''Script failed an OP_VERIFY operation''
      | SCRIPT_ERR_EQUALVERIFY \<Rightarrow> ''Script failed an OP_EQUALVERIFY operation''
      | SCRIPT_ERR_CHECKMULTISIGVERIFY \<Rightarrow> ''Script failed an OP_CHECKMULTISIGVERIFY operation''
      | SCRIPT_ERR_CHECKSIGVERIFY \<Rightarrow> ''Script failed an OP_CHECKSIGVERIFY operation''
      | SCRIPT_ERR_NUMEQUALVERIFY \<Rightarrow> ''Script failed an OP_NUMEQUALVERIFY operation''
      | SCRIPT_ERR_SCRIPT_SIZE \<Rightarrow> ''Script is too big''
      | SCRIPT_ERR_PUSH_SIZE \<Rightarrow> ''Push value size limit exceeded''
      | SCRIPT_ERR_OP_COUNT \<Rightarrow> ''Operation limit exceeded''
      | SCRIPT_ERR_STACK_SIZE \<Rightarrow> ''Stack size limit exceeded''
      | SCRIPT_ERR_SIG_COUNT \<Rightarrow> ''Signature count negative or greater than pubkey count''
      | SCRIPT_ERR_PUBKEY_COUNT \<Rightarrow> ''Pubkey count negative or limit exceeded''
      | SCRIPT_ERR_BAD_OPCODE \<Rightarrow> ''Opcode missing or not understood''
      | SCRIPT_ERR_DISABLED_OPCODE \<Rightarrow> ''Attempted to use a disabled opcode''
      | SCRIPT_ERR_INVALID_STACK_OPERATION \<Rightarrow> ''Operation not valid with the current stack size''
      | SCRIPT_ERR_INVALID_ALTSTACK_OPERATION \<Rightarrow> ''Operation not valid with the current altstack size''
      | SCRIPT_ERR_OP_RETURN \<Rightarrow> ''OP_RETURN was encountered''
      | SCRIPT_ERR_UNBALANCED_CONDITIONAL \<Rightarrow> ''Invalid OP_IF construction''
      | SCRIPT_ERR_SIG_HASHTYPE \<Rightarrow> ''Signature hash type missing or not understood''
      | SCRIPT_ERR_SIG_DER \<Rightarrow> ''Non-canonical DER signature''
      | SCRIPT_ERR_MINIMALDATA \<Rightarrow> ''Data push larger than necessary''
      | SCRIPT_ERR_SIG_PUSHONLY \<Rightarrow> ''Only non-push operators allowed in signatures''
      | SCRIPT_ERR_SIG_HIGH_S \<Rightarrow> ''Non-canonical signature: S value is unnecessarily high''
      | SCRIPT_ERR_SIG_NULLDUMMY \<Rightarrow> ''Dummy CHECKMULTISIG argument must be zero''
      | SCRIPT_ERR_DISCOURAGE_UPGRADABLE_NOPS \<Rightarrow> ''NOPx reserved for soft-fork upgrades''
      | SCRIPT_ERR_PUBKEYTYPE \<Rightarrow> ''Public key is neither compressed or uncompressed''
      | SCRIPT_ERR_UNKNOWN_ERROR \<Rightarrow> ''unknown error''
      | SCRIPT_ERR_ERROR_COUNT \<Rightarrow> ''unknown error'')"

definition MANDATORY_SCRIPT_VERIFY_FLAGS :: script_flags where
  "MANDATORY_SCRIPT_VERIFY_FLAGS = SCRIPT_VERIFY_P2SH"

definition STANDARD_SCRIPT_VERIFY_FLAGS :: script_flags where
  "STANDARD_SCRIPT_VERIFY_FLAGS =
     MANDATORY_SCRIPT_VERIFY_FLAGS OR SCRIPT_VERIFY_DERSIG OR SCRIPT_VERIFY_STRICTENC OR SCRIPT_VERIFY_MINIMALDATA OR
     SCRIPT_VERIFY_NULLDUMMY OR SCRIPT_VERIFY_DISCOURAGE_UPGRADABLE_NOPS"

definition STANDARD_NOT_MANDATORY_VERIFY_FLAGS :: script_flags where
  "STANDARD_NOT_MANDATORY_VERIFY_FLAGS = STANDARD_SCRIPT_VERIFY_FLAGS AND NOT MANDATORY_SCRIPT_VERIFY_FLAGS"

text \<open>
  The cryptographic functions: the hashes of the script context, the hash of the signature
  serializer and ECDSA. The cache of verified signatures is left out here: a lookup in it answers what the
  verification answers.
\<close>

record sig_env =
  se_ctx :: script_ctx
  se_Hash :: "bytes \<Rightarrow> uint256"
  se_Verify :: "valtype \<Rightarrow> uint256 \<Rightarrow> valtype \<Rightarrow> bool"

record CScriptCheck =
  chk_scriptPubKey :: script
  ptxTo :: CTransaction
  chk_nIn :: nat
  chk_nFlags :: script_flags
  cacheStore :: bool

definition CScriptCheck_of :: "CCoins \<Rightarrow> CTransaction \<Rightarrow> nat \<Rightarrow> script_flags \<Rightarrow> bool \<Rightarrow> CScriptCheck option" where
  "CScriptCheck_of txFrom txToIn nInIn nFlagsIn cacheIn =
     (let n = unat (outpoint_n (prevout (vin txToIn ! nInIn))) in
      if n \<ge> length (coins_vout txFrom) then None
      else Some \<lparr>chk_scriptPubKey = scriptPubKey (coins_vout txFrom ! n), ptxTo = txToIn, chk_nIn = nInIn,
                 chk_nFlags = nFlagsIn, cacheStore = cacheIn\<rparr>)"

definition check_ctx :: "sig_env \<Rightarrow> CScriptCheck \<Rightarrow> script_ctx" where
  "check_ctx se chk =
     (se_ctx se)\<lparr>flags := chk_nFlags chk,
                 CheckSig := TransactionCheckSig (se_Hash se) CPubKey_IsValid (se_Verify se) (ptxTo chk) (chk_nIn chk)\<rparr>"

text \<open>The call of a check: the error it stores, \<^verbatim>\<open>SCRIPT_ERR_OK\<close> if it returns true.\<close>

definition run_check :: "sig_env \<Rightarrow> CScriptCheck \<Rightarrow> unit scriptres" where
  "run_check se chk = VerifyScript (check_ctx se chk) (scriptSig (vin (ptxTo chk) ! chk_nIn chk)) (chk_scriptPubKey chk)"

section \<open>CheckInputs\<close>

text \<open>A rejection is the level, the code and the reason of the call of \<^verbatim>\<open>DoS\<close>; \<^verbatim>\<open>Invalid\<close> has level 0.\<close>

type_synonym rejection = "int \<times> byte \<times> string"

definition reject_state :: "CValidationState \<Rightarrow> rejection \<Rightarrow> CValidationState" where
  "reject_state st r = (case r of (level, code, reason) \<Rightarrow> DoS st level code reason False)"

fun inputs_loop ::
  "CChainParams \<Rightarrow> 'v CCoinsView \<Rightarrow> int \<Rightarrow> CTxIn list \<Rightarrow> camount \<Rightarrow> 'v CCoinsViewCache \<Rightarrow>
   ((rejection + camount) \<times> 'v CCoinsViewCache) option" where
  "inputs_loop P B nSpendHeight [] nValueIn c = Some (Inr nValueIn, c)"
| "inputs_loop P B nSpendHeight (txin # txins) nValueIn c =
     (case AccessCoins B c (outpoint_hash (prevout txin)) of
        (None, c') \<Rightarrow> None
      | (Some co, c') \<Rightarrow>
          if (fCoinBase co \<or> fCoinStake co) \<and> nSpendHeight - nHeight co < COINBASE_MATURITY P
          then Some (Inl (0, REJECT_INVALID, ''bad-txns-premature-spend-of-coinbase''), c')
          else if unat (outpoint_n (prevout txin)) \<ge> length (coins_vout co) then None
          else
            let nValue' = nValue (coins_vout co ! unat (outpoint_n (prevout txin)));
                nValueIn' = wrap64 (nValueIn + nValue')
            in if \<not> MoneyRange P nValue' \<or> \<not> MoneyRange P nValueIn'
               then Some (Inl (100, REJECT_INVALID, ''bad-txns-inputvalues-outofrange''), c')
               else inputs_loop P B nSpendHeight txins nValueIn' c')"

text \<open>The rejection for fees; the fee of one transaction is the sum \<^verbatim>\<open>nFees\<close>. \<open>None\<close> is the exception of \<^verbatim>\<open>GetValueOut\<close>.\<close>

definition fee_rejection :: "CChainParams \<Rightarrow> CTransaction \<Rightarrow> camount \<Rightarrow> rejection option option" where
  "fee_rejection P tx nValueIn =
     (if IsCoinStake tx then Some None
      else case GetValueOut tx of
        Inl _ \<Rightarrow> None
      | Inr nValueOut \<Rightarrow>
          if nValueIn < nValueOut then Some (Some (100, REJECT_INVALID, ''bad-txns-in-belowout''))
          else let nTxFee = wrap64 (nValueIn - nValueOut) in
            if nTxFee < 0 then Some (Some (100, REJECT_INVALID, ''bad-txns-fee-negative''))
            else if \<not> MoneyRange P (wrap64 (0 + nTxFee)) then Some (Some (100, REJECT_INVALID, ''bad-txns-fee-outofrange''))
            else Some None)"

text \<open>
  The script checks. In the second check the inner variable \<^verbatim>\<open>check\<close> hides the outer one, so the
  reported error is that of the successful check.
\<close>

fun scripts_loop ::
  "sig_env \<Rightarrow> 'v CCoinsView \<Rightarrow> CTransaction \<Rightarrow> script_flags \<Rightarrow> bool \<Rightarrow> (nat \<times> CTxIn) list \<Rightarrow> CScriptCheck list option \<Rightarrow>
   'v CCoinsViewCache \<Rightarrow> (rejection option \<times> CScriptCheck list option \<times> 'v CCoinsViewCache) option" where
  "scripts_loop se B tx fl store [] pvChecks c = Some (None, pvChecks, c)"
| "scripts_loop se B tx fl store ((i, txin) # rest) pvChecks c =
     (case AccessCoins B c (outpoint_hash (prevout txin)) of
        (None, c') \<Rightarrow> None
      | (Some co, c') \<Rightarrow>
          (case CScriptCheck_of co tx i fl store of
             None \<Rightarrow> None
           | Some chk \<Rightarrow>
               (case pvChecks of
                  Some checks \<Rightarrow> scripts_loop se B tx fl store rest (Some (checks @ [chk])) c'
                | None \<Rightarrow>
                    (case run_check se chk of
                       Inr _ \<Rightarrow> scripts_loop se B tx fl store rest None c'
                     | Inl err \<Rightarrow>
                         if fl AND STANDARD_NOT_MANDATORY_VERIFY_FLAGS \<noteq> 0 \<and>
                            run_check se (chk\<lparr>chk_nFlags := fl AND NOT STANDARD_NOT_MANDATORY_VERIFY_FLAGS\<rparr>) = Inr ()
                         then Some (Some (0, REJECT_NONSTANDARD,
                                ''non-mandatory-script-verify-flag ('' @ ScriptErrorString SCRIPT_ERR_OK @ '')''), None, c')
                         else Some (Some (100, REJECT_INVALID,
                                ''mandatory-script-verify-flag-failed ('' @ ScriptErrorString err @ '')''), None, c')))))"

text \<open>
  \<open>heightOf\<close> is the height that \<^verbatim>\<open>mapBlockIndex\<close> has for a block. The result has the return value,
  the validation state, the collected checks and the view.
\<close>

definition CheckInputs ::
  "sig_env \<Rightarrow> CChainParams \<Rightarrow> (uint256 \<Rightarrow> int option) \<Rightarrow> 'v CCoinsView \<Rightarrow> CTransaction \<Rightarrow> CValidationState \<Rightarrow>
   'v CCoinsViewCache \<Rightarrow> bool \<Rightarrow> script_flags \<Rightarrow> bool \<Rightarrow> CScriptCheck list option \<Rightarrow>
   (bool \<times> CValidationState \<times> CScriptCheck list option \<times> 'v CCoinsViewCache) option" where
  "CheckInputs se P heightOf B tx st inputs fScriptChecks fl store pvChecks =
     (if IsCoinBase tx then Some (True, st, pvChecks, inputs)
      else case HaveInputs B inputs tx of
        (False, c1) \<Rightarrow> Some (False, Invalid st 0 '''', pvChecks, c1)
      | (True, c1) \<Rightarrow>
          (case GetBestBlock B c1 of (hash, c2) \<Rightarrow>
             (case heightOf hash of
                None \<Rightarrow> None
              | Some h \<Rightarrow>
                  (case inputs_loop P B (h + 1) (vin tx) 0 c2 of
                     None \<Rightarrow> None
                   | Some (Inl r, c3) \<Rightarrow> Some (False, reject_state st r, pvChecks, c3)
                   | Some (Inr nValueIn, c3) \<Rightarrow>
                       (case fee_rejection P tx nValueIn of
                          None \<Rightarrow> None
                        | Some (Some r) \<Rightarrow> Some (False, reject_state st r, pvChecks, c3)
                        | Some None \<Rightarrow>
                            if \<not> fScriptChecks then Some (True, st, pvChecks, c3)
                            else (case scripts_loop se B tx fl store (zip [0 ..< length (vin tx)] (vin tx)) pvChecks c3 of
                                    None \<Rightarrow> None
                                  | Some (Some r, pv, c4) \<Rightarrow> Some (False, reject_state st r, pv, c4)
                                  | Some (None, pv, c4) \<Rightarrow> Some (True, st, pv, c4)))))))"

end
