(* ===== verification/Check_Inputs_Props.thy ===== *)
theory Check_Inputs_Props
  imports Check_Inputs
begin

text \<open>What \<^verbatim>\<open>CheckInputs\<close> accepts, in terms of the content of the coin view.\<close>

section \<open>Reference\<close>

text \<open>The coins of an input exist, are unspent and mature at the height of the spending block.\<close>

definition spendable :: "CChainParams \<Rightarrow> int \<Rightarrow> (uint256 \<Rightarrow> CCoins option) \<Rightarrow> CTxIn \<Rightarrow> bool" where
  "spendable P h f i \<longleftrightarrow>
     (case f (outpoint_hash (prevout i)) of
        None \<Rightarrow> False
      | Some co \<Rightarrow> IsAvailable co (outpoint_n (prevout i)) \<and>
          (if fCoinBase co \<or> fCoinStake co then COINBASE_MATURITY P \<le> h - nHeight co else True))"

definition spent_value :: "(uint256 \<Rightarrow> CCoins option) \<Rightarrow> CTxIn \<Rightarrow> camount" where
  "spent_value f i = nValue (the (content_out f (prevout i)))"

definition spent_check ::
  "(uint256 \<Rightarrow> CCoins option) \<Rightarrow> CTransaction \<Rightarrow> script_flags \<Rightarrow> bool \<Rightarrow> nat \<times> CTxIn \<Rightarrow> CScriptCheck" where
  "spent_check f tx fl store = (\<lambda>(i, txin). \<lparr>chk_scriptPubKey = scriptPubKey (the (content_out f (prevout txin))), ptxTo = tx,
     chk_nIn = i, chk_nFlags = fl, cacheStore = store\<rparr>)"

definition accept_inputs ::
  "sig_env \<Rightarrow> CChainParams \<Rightarrow> int \<Rightarrow> (uint256 \<Rightarrow> CCoins option) \<Rightarrow> CTransaction \<Rightarrow> bool \<Rightarrow> script_flags \<Rightarrow> bool \<Rightarrow> bool" where
  "accept_inputs se P h f tx fScriptChecks fl store \<longleftrightarrow>
     list_all (spendable P h f) (vin tx) \<and>
     list_all (\<lambda>i. 0 \<le> spent_value f i) (vin tx) \<and> sum_list (map (spent_value f) (vin tx)) \<le> MaxMoneyOut P \<and>
     (if IsCoinStake tx then True
      else list_all (\<lambda>t. 0 \<le> nValue t) (vout tx) \<and>
           sum_list (map nValue (vout tx)) \<le> sum_list (map (spent_value f) (vin tx))) \<and>
     (if fScriptChecks
      then list_all (\<lambda>x. run_check se (spent_check f tx fl store x) = Inr ()) (zip [0 ..< length (vin tx)] (vin tx)) else True)"

lemma spendable_available: "spendable P h f i \<Longrightarrow> content_out f (prevout i) \<noteq> None"
  by (auto simp: spendable_def content_out_def split: option.splits)

section \<open>The loops over a cache\<close>

context coins_reader
begin

lemma access_available:
  assumes "cok c" "AccessCoins B c (outpoint_hash p) = (r, c')" "content_out (ccontent c) p \<noteq> None"
  obtains co where "r = Some co" "ccontent c (outpoint_hash p) = Some co" "IsAvailable co (outpoint_n p)"
    "content_out (ccontent c) p = Some (coins_vout co ! unat (outpoint_n p))" "cok c'" "ccontent c' = ccontent c"
proof -
  have g: "GetCoins B c (outpoint_hash p) = (r, c')" using assms(2) by (simp add: AccessCoins_def GetCoins_def)
  note acc = access [OF assms(1,2)] and get = cache_get [OF assms(1) g]
  obtain co where co: "ccontent c (outpoint_hash p) = Some co" "IsAvailable co (outpoint_n p)"
    using assms(3) by (auto simp: content_out_def split: option.splits if_splits)
  moreover have "r = Some co" using get co(1) by (cases r) (auto simp: live_def split: if_splits)
  ultimately show ?thesis using that [of co] acc by simp
qed

lemma have_inputs_best:
  assumes "cok c" "have_inputs_loop B c is = (r, c')"
  shows "cache_best best c' = cache_best best c"
  using assms
proof (induction "is" arbitrary: c)
  case (Cons i "is")
  obtain r0 c0 where a: "AccessCoins B c (outpoint_hash (prevout i)) = (r0, c0)" by fastforce
  then have "GetCoins B c (outpoint_hash (prevout i)) = (r0, c0)" by (simp add: AccessCoins_def GetCoins_def)
  note get = cache_get [OF Cons.prems(1) this]
  show ?case using Cons.prems(2) Cons.IH [of c0] a get by (auto split: option.splits if_splits)
qed simp

lemma IsAvailable_index: "IsAvailable co n \<Longrightarrow> unat n < length (coins_vout co)"
  by (auto simp: IsAvailable_def split: if_splits)

lemma inputs_loop_spec:
  assumes "MaxMoneyOut P < 2 ^ 62"
  shows "cok c \<Longrightarrow> list_all (\<lambda>i. content_out (ccontent c) (prevout i) \<noteq> None) is \<Longrightarrow> 0 \<le> acc \<Longrightarrow> acc \<le> MaxMoneyOut P \<Longrightarrow>
    \<exists>r c'. inputs_loop P B h is acc c = Some (r, c') \<and> cok c' \<and> ccontent c' = ccontent c \<and>
      (let good = (list_all (spendable P h (ccontent c)) is \<and> list_all (\<lambda>i. 0 \<le> spent_value (ccontent c) i) is \<and>
           acc + sum_list (map (spent_value (ccontent c)) is) \<le> MaxMoneyOut P)
       in if good then r = Inr (acc + sum_list (map (spent_value (ccontent c)) is)) else r \<in> range Inl)"
proof (induction "is" arbitrary: c acc)
  case (Cons i "is")
  obtain r0 c0 where a: "AccessCoins B c (outpoint_hash (prevout i)) = (r0, c0)" by fastforce
  have av: "content_out (ccontent c) (prevout i) \<noteq> None" using Cons.prems(2) by simp
  obtain co where co: "r0 = Some co" "ccontent c (outpoint_hash (prevout i)) = Some co" "IsAvailable co (outpoint_n (prevout i))"
    "content_out (ccontent c) (prevout i) = Some (coins_vout co ! unat (outpoint_n (prevout i)))" "cok c0" "ccontent c0 = ccontent c"
    by (rule access_available [OF Cons.prems(1) a av])
  let ?v = "spent_value (ccontent c) i"
  have v: "nValue (coins_vout co ! unat (outpoint_n (prevout i))) = ?v" using co(4) by (simp add: spent_value_def)
  have ix: "\<not> unat (outpoint_n (prevout i)) \<ge> length (coins_vout co)" using IsAvailable_index [OF co(3)] by simp
  let ?mature = "if fCoinBase co \<or> fCoinStake co then COINBASE_MATURITY P \<le> h - nHeight co else True"
  have sp: "spendable P h (ccontent c) i \<longleftrightarrow> ?mature" using co(2,3) by (simp add: spendable_def)
  show ?case
  proof (cases "?mature \<and> 0 \<le> ?v \<and> acc + ?v \<le> MaxMoneyOut P")
    case False
    have "sum_list (map (spent_value (ccontent c)) is) \<ge> 0" if "list_all (\<lambda>i. 0 \<le> spent_value (ccontent c) i) is"
      using that by (intro sum_list_nonneg) (auto simp: list_all_iff)
    moreover have "\<not> (MoneyRange P ?v \<and> MoneyRange P (wrap64 (acc + ?v)))" if "?mature"
    proof
      assume m: "MoneyRange P ?v \<and> MoneyRange P (wrap64 (acc + ?v))"
      then have "wrap64 (acc + ?v) = acc + ?v"
        using assms Cons.prems(3,4) by (intro wrap64_id) (auto simp: in_int64_def MoneyRange_def)
      then show False using m False that by (auto simp: MoneyRange_def)
    qed
    ultimately show ?thesis using a co v ix sp False by (auto simp: Let_def split: if_splits)
  next
    case True
    then have "wrap64 (acc + ?v) = acc + ?v"
      using assms Cons.prems(3,4) by (intro wrap64_id) (auto simp: in_int64_def)
    then have "MoneyRange P ?v" "MoneyRange P (wrap64 (acc + ?v))" "wrap64 (acc + ?v) = acc + ?v"
      using True Cons.prems(3) by (auto simp: MoneyRange_def)
    then have step: "inputs_loop P B h (i # is) acc c = inputs_loop P B h is (acc + ?v) c0"
      using a co v ix True by (auto simp: Let_def split: if_splits)
    show ?thesis unfolding step
      using Cons.IH [of c0 "acc + ?v"] Cons.prems co True sp by (auto simp: Let_def add.assoc)
  qed
qed simp

lemma scripts_loop_spec:
  shows "cok c \<Longrightarrow> list_all (\<lambda>x. content_out (ccontent c) (prevout (snd x)) \<noteq> None \<and> vin tx ! fst x = snd x) xs \<Longrightarrow>
    \<exists>r c'. scripts_loop se B tx fl store xs None c = Some (r, None, c') \<and> cok c' \<and> ccontent c' = ccontent c \<and>
      (r = None \<longleftrightarrow> list_all (\<lambda>x. run_check se (spent_check (ccontent c) tx fl store x) = Inr ()) xs)"
proof (induction xs arbitrary: c)
  case (Cons x xs)
  obtain i txin where x: "x = (i, txin)" by fastforce
  obtain r0 c0 where a: "AccessCoins B c (outpoint_hash (prevout txin)) = (r0, c0)" by fastforce
  have av: "content_out (ccontent c) (prevout txin) \<noteq> None" "vin tx ! i = txin" using Cons.prems(2) x by simp_all
  obtain co where co: "r0 = Some co" "IsAvailable co (outpoint_n (prevout txin))"
    "content_out (ccontent c) (prevout txin) = Some (coins_vout co ! unat (outpoint_n (prevout txin)))" "cok c0" "ccontent c0 = ccontent c"
    by (rule access_available [OF Cons.prems(1) a av(1)])
  have chk: "CScriptCheck_of co tx i fl store = Some (spent_check (ccontent c) tx fl store (i, txin))"
    using co(3) IsAvailable_index [OF co(2)] av(2) by (simp add: CScriptCheck_of_def spent_check_def Let_def)
  show ?case
    using Cons.IH [of c0] Cons.prems(2) co(4,5) a co(1) chk x
    by (cases "run_check se (spent_check (ccontent c) tx fl store (i, txin))") auto
qed simp

lemma scripts_loop_collect:
  shows "cok c \<Longrightarrow> list_all (\<lambda>x. content_out (ccontent c) (prevout (snd x)) \<noteq> None \<and> vin tx ! fst x = snd x) xs \<Longrightarrow>
    \<exists>c'. scripts_loop se B tx fl store xs (Some cs) c = Some (None, Some (cs @ map (spent_check (ccontent c) tx fl store) xs), c') \<and>
      cok c' \<and> ccontent c' = ccontent c"
proof (induction xs arbitrary: c cs)
  case (Cons x xs)
  obtain i txin where x: "x = (i, txin)" by fastforce
  obtain r0 c0 where a: "AccessCoins B c (outpoint_hash (prevout txin)) = (r0, c0)" by fastforce
  have av: "content_out (ccontent c) (prevout txin) \<noteq> None" "vin tx ! i = txin" using Cons.prems(2) x by simp_all
  obtain co where co: "r0 = Some co" "IsAvailable co (outpoint_n (prevout txin))"
    "content_out (ccontent c) (prevout txin) = Some (coins_vout co ! unat (outpoint_n (prevout txin)))" "cok c0" "ccontent c0 = ccontent c"
    by (rule access_available [OF Cons.prems(1) a av(1)])
  have chk: "CScriptCheck_of co tx i fl store = Some (spent_check (ccontent c) tx fl store (i, txin))"
    using co(3) IsAvailable_index [OF co(2)] av(2) by (simp add: CScriptCheck_of_def spent_check_def Let_def)
  show ?case
    using Cons.IH [of c0 "cs @ [spent_check (ccontent c) tx fl store (i, txin)]"] Cons.prems(2) co(4,5) a co(1) chk x by auto
qed simp

end

section \<open>Acceptance\<close>

lemma fee_rejection_iff:
  assumes "list_all (\<lambda>t. in_int64 (nValue t)) (vout tx)" "0 \<le> v" "v \<le> MaxMoneyOut P" "MaxMoneyOut P < 2 ^ 62"
  shows "fee_rejection P tx v = Some None \<longleftrightarrow>
    (if IsCoinStake tx then True
     else list_all (\<lambda>t. 0 \<le> nValue t) (vout tx) \<and> sum_list (map nValue (vout tx)) \<le> v)"
proof (cases "IsCoinStake tx")
  case False
  note out = GetValueOut_iff [OF assms(1)]
  show ?thesis
  proof (cases "GetValueOut tx")
    case (Inl e)
    then have "\<not> (list_all (\<lambda>t. 0 \<le> nValue t) (vout tx) \<and> sum_list (map nValue (vout tx)) < 2 ^ 63)"
      using out by fastforce
    then show ?thesis using Inl False assms(3,4) by (auto simp: fee_rejection_def)
  next
    case (Inr x)
    then have x: "list_all (\<lambda>t. 0 \<le> nValue t) (vout tx)" "x = sum_list (map nValue (vout tx))" using out by simp_all
    have "0 \<le> x" unfolding x(2) using x(1) by (intro sum_list_nonneg) (auto simp: list_all_iff)
    then have "wrap64 (v - x) = v - x" if "x \<le> v" using that assms by (intro wrap64_id) (auto simp: in_int64_def)
    then show ?thesis using Inr False x assms(2-4) \<open>0 \<le> x\<close> by (auto simp: fee_rejection_def Let_def MoneyRange_def)
  qed
qed (simp add: fee_rejection_def)

lemma zip_upt: "list_all (\<lambda>x. xs ! fst x = snd x \<and> snd x \<in> set xs) (zip [0 ..< length xs] xs)"
  by (auto simp: list_all_length)

context coins_reader
begin

lemma CheckInputs_spec:
  assumes ok: "cok v" and "\<not> IsCoinBase tx" "heightOf (cache_best best v) = Some h"
    and "MaxMoneyOut P < 2 ^ 62" "list_all (\<lambda>t. in_int64 (nValue t)) (vout tx)" "0 \<le> MaxMoneyOut P"
  shows "case CheckInputs se P heightOf B tx st v fScriptChecks fl store None of
      None \<Rightarrow> \<not> accept_inputs se P (h + 1) (ccontent v) tx fScriptChecks fl store
    | Some (ok, st', pv, v') \<Rightarrow>
        ok = accept_inputs se P (h + 1) (ccontent v) tx fScriptChecks fl store \<and>
        cok v' \<and> ccontent v' = ccontent v \<and> (if ok then st' = st else True)"
proof -
  let ?f = "ccontent v"
  obtain r1 c1 where h1: "have_inputs_loop B v (vin tx) = (r1, c1)" by fastforce
  note H = have_inputs [OF ok h1] and H2 = have_inputs_best [OF ok h1]
  show ?thesis
  proof (cases r1)
    case False
    then have "\<not> list_all (\<lambda>i. content_out ?f (prevout i) \<noteq> None) (vin tx)" using H by simp
    then have "\<not> list_all (spendable P (h + 1) ?f) (vin tx)" using spendable_available by (fastforce simp: list_all_iff)
    then show ?thesis using False H h1 assms(2) by (auto simp: CheckInputs_def HaveInputs_def accept_inputs_def)
  next
    case True
    then have av: "list_all (\<lambda>i. content_out ?f (prevout i) \<noteq> None) (vin tx)" using H by simp
    obtain b c2 where b: "GetBestBlock B c1 = (b, c2)" by fastforce
    note B = cache_get_best [OF conjunct1 [OF H] b]
    have c2: "cok c2" "ccontent c2 = ?f" "b = cache_best best v"
      using B H H2 by simp_all
    obtain r3 c3 where L: "inputs_loop P B (h + 1) (vin tx) 0 c2 = Some (r3, c3)"
      "cok c3" "ccontent c3 = ?f"
      "let good = (list_all (spendable P (h + 1) ?f) (vin tx) \<and> list_all (\<lambda>i. 0 \<le> spent_value ?f i) (vin tx) \<and>
           sum_list (map (spent_value ?f) (vin tx)) \<le> MaxMoneyOut P)
       in if good then r3 = Inr (sum_list (map (spent_value ?f) (vin tx))) else r3 \<in> range Inl"
      using inputs_loop_spec [OF assms(4) c2(1), of "vin tx" 0 "h + 1"] av c2(2) assms(6)
      by auto
    have start: "CheckInputs se P heightOf B tx st v fScriptChecks fl store None =
        (case r3 of Inl r \<Rightarrow> Some (False, reject_state st r, None, c3)
         | Inr nValueIn \<Rightarrow> (case fee_rejection P tx nValueIn of
             None \<Rightarrow> None
           | Some (Some r) \<Rightarrow> Some (False, reject_state st r, None, c3)
           | Some None \<Rightarrow> if \<not> fScriptChecks then Some (True, st, None, c3)
               else (case scripts_loop se B tx fl store (zip [0 ..< length (vin tx)] (vin tx)) None c3 of
                       None \<Rightarrow> None
                     | Some (Some r, pv, c4) \<Rightarrow> Some (False, reject_state st r, pv, c4)
                     | Some (None, pv, c4) \<Rightarrow> Some (True, st, pv, c4))))"
      using h1 True b c2(3) L(1) assms(2,3) by (simp add: CheckInputs_def HaveInputs_def split: sum.split)
    show ?thesis
    proof (cases "list_all (spendable P (h + 1) ?f) (vin tx) \<and> list_all (\<lambda>i. 0 \<le> spent_value ?f i) (vin tx) \<and>
           sum_list (map (spent_value ?f) (vin tx)) \<le> MaxMoneyOut P")
      case False
      then obtain e where "r3 = Inl e" using L(4) by (auto simp: Let_def)
      then show ?thesis unfolding start using L(2,3) False by (auto simp: accept_inputs_def)
    next
      case good: True
      let ?V = "sum_list (map (spent_value ?f) (vin tx))"
      have r3: "r3 = Inr ?V" using L(4) good by (simp add: Let_def)
      have V: "0 \<le> ?V" "?V \<le> MaxMoneyOut P" using good by (auto intro!: sum_list_nonneg simp: list_all_iff)
      note fee = fee_rejection_iff [OF assms(5) V assms(4)]
      have av2: "list_all (\<lambda>x. content_out ?f (prevout (snd x)) \<noteq> None \<and> vin tx ! fst x = snd x) (zip [0 ..< length (vin tx)] (vin tx))"
        using zip_upt [of "vin tx"] av by (auto simp: list_all_iff)
      obtain r4 c4 where S: "scripts_loop se B tx fl store (zip [0 ..< length (vin tx)] (vin tx)) None c3 = Some (r4, None, c4)"
        "cok c4 \<and> ccontent c4 = ?f"
        "r4 = None \<longleftrightarrow> list_all (\<lambda>x. run_check se (spent_check ?f tx fl store x) = Inr ()) (zip [0 ..< length (vin tx)] (vin tx))"
        using scripts_loop_spec [OF L(2), of tx "zip [0 ..< length (vin tx)] (vin tx)" se fl store] av2 L(3)
        by auto
      show ?thesis
      proof (cases "fee_rejection P tx ?V = Some None")
        case True
        then show ?thesis unfolding start r3 using good fee L(2,3) S
          by (cases r4) (auto simp: accept_inputs_def)
      next
        case False
        then show ?thesis unfolding start r3 using good fee L(2,3)
          by (auto simp: accept_inputs_def split: option.splits)
      qed
    qed
  qed
qed

end


text \<open>A spend of the second output of the example view.\<close>

definition spend_tx :: CTransaction where
  "spend_tx = demo_tx\<lparr>vin := [\<lparr>prevout = \<lparr>outpoint_hash = 7, outpoint_n = 1\<rparr>, scriptSig = [OP_1], nSequence = 0\<rparr>],
     vout := [\<lparr>nValue = 4, scriptPubKey = [OP_1]\<rparr>]\<rparr>"

definition demo_sig :: sig_env where
  "demo_sig = \<lparr>se_ctx = demo_ctx, se_Hash = (\<lambda>_. 0), se_Verify = (\<lambda>_ _ _. False)\<rparr>"

lemma spend_accepted: "map_option fst (CheckInputs demo_sig mainParams (\<lambda>_. Some 10) tip_ops spend_tx CValidationState_new demo_view True
    SCRIPT_VERIFY_P2SH True None) = Some True"
  by code_simp


end
