(* ===== verification/Subsidy.thy ===== *)
theory Subsidy
  imports Chain Tx_Checks
begin

text \<open>
  What a block may create (\<^verbatim>\<open>src/src/main.cpp\<close>): the block value, the development fund, and the
  part of the value that goes to the masternodes. The latter is computed in binary floating point, which
  is modelled exactly.
\<close>

section \<open>Block value\<close>

definition CONSENSUS_FORK_REWARD_UPDATE_PROTOCOL :: int where "CONSENSUS_FORK_REWARD_UPDATE_PROTOCOL = 70225"
definition CONSENSUS_FORK_REWARD_UPDATE_BLOCK :: int where "CONSENSUS_FORK_REWARD_UPDATE_BLOCK = 685000"

text \<open>The products \<^verbatim>\<open>12.5 * COIN\<close> and \<^verbatim>\<open>6.25 * COIN\<close> are exact.\<close>

definition subsidy :: "CChainParams \<Rightarrow> int \<Rightarrow> camount" where
  "subsidy P h =
     (if testnet P then
        (if h = 0 then 10000000 * COIN
         else if h < 200 then 200 * COIN
         else if h < 2000 then 50 * COIN
         else if h < 4000 then 40 * COIN
         else if h < 6000 then 30 * COIN
         else if h < 8000 then 20 * COIN
         else 10 * COIN)
      else
        (if h = 0 then 1000000 * COIN
         else if h < 200 then 0 * COIN
         else if h < 5050 then 5 * COIN
         else if h < 26551 then 30 * COIN
         else if h < 48052 then 40 * COIN
         else if h < 69553 then 50 * COIN
         else if h < 96804 then 60 * COIN
         else if h < 187805 then 55 * COIN
         else if h < 392807 then 50 * COIN
         else if h < 522808 then 25 * COIN
         else if h < 652809 then 25 * COIN div 2
         else if h < CONSENSUS_FORK_REWARD_UPDATE_BLOCK then 25 * COIN div 4
         else if h < CONSENSUS_FORK_REWARD_UPDATE_BLOCK + 1000 then 0 * COIN
         else 25 * COIN))"

text \<open>The cap by the money supply ends with the fork. \<open>None\<close> is the access to the tip of an empty chain.\<close>

definition GetBlockValue :: "CChainParams \<Rightarrow> block_store \<Rightarrow> CChain \<Rightarrow> int \<Rightarrow> camount option" where
  "GetBlockValue P st C h =
     (let nSubsidy = subsidy P h in
      if Chain_Height C > CONSENSUS_FORK_REWARD_UPDATE_BLOCK then Some nSubsidy
      else case Tip C of
        None \<Rightarrow> None
      | Some tip \<Rightarrow>
          let nSupply = nMoneySupply (st ! tip);
              nSubsidy1 = (if nSupply + nSubsidy \<ge> MaxMoneyOut P then MaxMoneyOut P - nSupply else nSubsidy)
          in Some (if nSupply \<ge> MaxMoneyOut P then 0 else nSubsidy1))"

text \<open>The fund gets a tenth of the block value, in one payment per cycle; the block value is not
  negative where it is used.\<close>

definition GetDevFeeValue :: "CChainParams \<Rightarrow> block_store \<Rightarrow> CChain \<Rightarrow> int \<Rightarrow> camount option" where
  "GetDevFeeValue P st C h =
     (let nDevFeeCycle = 5040; devFee = 10 in
      if h mod nDevFeeCycle = 0 \<and> Chain_Height C > CONSENSUS_FORK_REWARD_UPDATE_BLOCK
      then map_option (\<lambda>v. v * devFee div 100 * nDevFeeCycle) (GetBlockValue P st C h)
      else Some 0)"

section \<open>Floating point\<close>

text \<open>
  A double is a mantissa and an exponent, \<open>m * 2 ^ e\<close>; the values here stay far from the ends of the
  range of exponents. \<open>to_double\<close> rounds to 53 bits, to nearest, ties to even.
\<close>

type_synonym double = "int \<times> int"

function excess_bits :: "int \<Rightarrow> nat" where
  "excess_bits n = (if n < 2 ^ 53 then 0 else Suc (excess_bits (n div 2)))"
  by pat_completeness auto
termination by (relation "measure nat") auto

declare excess_bits.simps [simp del]

definition round_bits :: "int \<Rightarrow> nat \<Rightarrow> int" where
  "round_bits n k =
     (let q = n div 2 ^ k; r = n mod 2 ^ k; half = 2 ^ (k - 1) in
      if k = 0 then n else if r > half \<or> r = half \<and> odd q then q + 1 else q)"

definition to_double :: "int \<Rightarrow> int \<Rightarrow> double" where
  "to_double m e = (let k = excess_bits \<bar>m\<bar> in (sgn m * round_bits \<bar>m\<bar> k, e + int k))"

definition double_mult :: "double \<Rightarrow> double \<Rightarrow> double" where
  "double_mult a b = to_double (fst a * fst b) (snd a + snd b)"

text \<open>The conversion to an integer truncates.\<close>

definition double_to_int :: "double \<Rightarrow> int" where
  "double_to_int a =
     (if snd a \<ge> 0 then fst a * 2 ^ nat (snd a) else sgn (fst a) * (\<bar>fst a\<bar> div 2 ^ nat (- snd a)))"

text \<open>The literals, by their hundredths; the compiler rounds them to nearest.\<close>

definition percent :: "int \<Rightarrow> double" where
  "percent p =
     (if p = 2 then (5764607523034235, -58) else if p = 9 then (6485183463413514, -56)
      else if p = 15 then (5404319552844595, -55) else if p = 18 then (6485183463413514, -55)
      else if p = 20 then (7205759403792794, -55) else if p = 25 then (4503599627370496, -54)
      else if p = 27 then (4863887597560136, -54) else if p = 30 then (5404319552844595, -54)
      else if p = 36 then (6485183463413514, -54) else (0, 0))"

definition times_percent :: "int \<Rightarrow> int \<Rightarrow> int" where
  "times_percent v p = double_to_int (double_mult (to_double v 0) (percent p))"

section \<open>Masternode payments\<close>

definition GetMasternodePayment :: "int \<Rightarrow> nat \<Rightarrow> int \<Rightarrow> camount" where
  "GetMasternodePayment nProtocol mnlevel blockValue =
     (if nProtocol \<ge> CONSENSUS_FORK_REWARD_UPDATE_PROTOCOL then
        (if mnlevel = 1 then times_percent blockValue 9
         else if mnlevel = 2 then times_percent blockValue 18
         else if mnlevel = 3 then times_percent blockValue 27
         else if mnlevel = 4 then times_percent blockValue 36 else 0)
      else if nProtocol \<ge> CONSENSUS_FORK_PROTO then
        (if mnlevel = 1 then times_percent blockValue 15
         else if mnlevel = 2 then times_percent blockValue 20
         else if mnlevel = 3 then times_percent blockValue 25
         else if mnlevel = 4 then times_percent blockValue 30 else 0)
      else
        (if mnlevel = 1 then times_percent blockValue 20
         else if mnlevel = 2 then times_percent blockValue 30
         else if mnlevel = 3 then times_percent blockValue 30
         else if mnlevel = 4 then times_percent blockValue 2 else 0))"

section \<open>Bounds\<close>

lemma subsidy_nonneg: "0 \<le> subsidy P h"
  by (simp add: subsidy_def COIN_def)

text \<open>Up to the fork the supply with one more block value stays within the limit.\<close>

lemma GetBlockValue_capped:
  assumes "GetBlockValue P st C h = Some v" "Tip C = Some tip" "Chain_Height C \<le> CONSENSUS_FORK_REWARD_UPDATE_BLOCK"
    and "nMoneySupply (st ! tip) \<le> MaxMoneyOut P"
  shows "0 \<le> v" "nMoneySupply (st ! tip) + v \<le> MaxMoneyOut P"
  using assms subsidy_nonneg [of P h] by (auto simp: GetBlockValue_def Let_def split: if_splits)

lemma GetDevFeeValue_before_fork:
  "Chain_Height C \<le> CONSENSUS_FORK_REWARD_UPDATE_BLOCK \<Longrightarrow> GetDevFeeValue P st C h = Some 0"
  by (simp add: GetDevFeeValue_def)

lemma excess_bits_bounds:
  assumes "0 \<le> n"
  shows "n < 2 ^ (53 + excess_bits n)" "0 < excess_bits n \<Longrightarrow> 2 ^ (52 + excess_bits n) \<le> n"
  using assms
proof (induction n rule: excess_bits.induct)
  case (1 n)
  { case 1
    then show ?case using "1.IH" by (subst excess_bits.simps) (auto simp: power_add)
  next
    case 2
    then show ?case using "1.IH"
      by (subst excess_bits.simps) (cases "n div 2 < 2 ^ 53"; auto simp: power_add excess_bits.simps [of n] excess_bits.simps [of "n div 2"])
  }
qed

lemma excess_small: "n < 2 ^ 53 \<Longrightarrow> excess_bits n = 0"
  by (subst excess_bits.simps) simp

lemma round_bits_error:
  assumes "0 \<le> n" "0 < k"
  shows "round_bits n k * 2 ^ k \<le> n + 2 ^ (k - 1)" "n - 2 ^ (k - 1) \<le> round_bits n k * 2 ^ k" "0 \<le> round_bits n k"
proof -
  obtain q r where qr: "q = n div 2 ^ k" "r = n mod 2 ^ k" by simp
  have n: "q * 2 ^ k + r = n" unfolding qr by (rule div_mult_mod_eq)
  have r: "0 \<le> r" "r < 2 ^ k" "0 \<le> q" using assms(1) by (simp_all add: qr pos_imp_zdiv_nonneg_iff)
  have k: "(2::int) ^ k = 2 * 2 ^ (k - 1)" using assms(2) by (cases k) auto
  have h: "(0::int) < 2 ^ (k - 1)" by simp
  have e: "round_bits n k = q \<and> r \<le> 2 ^ (k - 1) \<or> round_bits n k = q + 1 \<and> 2 ^ (k - 1) \<le> r"
    using assms(2) by (auto simp: round_bits_def Let_def qr)
  have d: "(q + 1) * 2 ^ k = q * 2 ^ k + 2 ^ k" by (simp add: distrib_right)
  have p: "round_bits n k * 2 ^ k = q * 2 ^ k \<and> r \<le> 2 ^ (k - 1) \<or> round_bits n k * 2 ^ k = q * 2 ^ k + 2 ^ k \<and> 2 ^ (k - 1) \<le> r"
    using e d by metis
  show "round_bits n k * 2 ^ k \<le> n + 2 ^ (k - 1)" using p n r k h by linarith
  show "n - 2 ^ (k - 1) \<le> round_bits n k * 2 ^ k" using p n r k h by linarith
  show "0 \<le> round_bits n k" using e r(3) by linarith
qed

text \<open>The product with a literal is off by at most one and a half from the exact percentage.\<close>

definition literals :: "int list" where
  "literals = [2, 9, 15, 18, 20, 25, 27, 30, 36]"

lemma percent_literal:
  assumes "p \<in> set literals"
  obtains M E where "percent p = (M, - int E)" "0 < M" "M < 2 ^ 53" "54 \<le> E" "\<bar>100 * M - p * 2 ^ E\<bar> \<le> 50"
  using assms that by (auto simp: literals_def percent_def)


lemma times_percent_bounds:
  assumes "p \<in> set literals" "0 \<le> v" "v < 2 ^ 53"
  shows "100 * times_percent v p \<le> v * p + 50" "v * p - 150 \<le> 100 * times_percent v p" "0 \<le> times_percent v p"
proof -
  obtain M E where L: "percent p = (M, - int E)" "0 < M" "M < 2 ^ 53" "54 \<le> E" "\<bar>100 * M - p * 2 ^ E\<bar> \<le> 50"
    by (rule percent_literal [OF assms(1)])
  let ?n = "v * M" let ?k = "excess_bits ?n" let ?R = "round_bits ?n ?k"
  have n: "0 \<le> ?n" using assms(2) L(2) by simp
  have "?n < 2 ^ 53 * 2 ^ 53" using assms(2,3) L(2,3) by (intro mult_strict_mono') auto
  then have n2: "?n < 2 ^ 106" by simp
  have k: "?k \<le> 53"
  proof (rule ccontr)
    assume "\<not> ?k \<le> 53"
    then have "(2::int) ^ 106 \<le> 2 ^ (52 + ?k)" by (intro power_increasing) auto
    then show False using excess_bits_bounds(2) [OF n] n2 \<open>\<not> ?k \<le> 53\<close> by linarith
  qed
  have v0: "to_double v 0 = (v, 0)"
    using assms(2,3) by (simp add: to_double_def excess_small round_bits_def sgn_if)
  have R: "?R * 2 ^ ?k \<le> ?n + 2 ^ 52" "?n - 2 ^ 52 \<le> ?R * 2 ^ ?k" "0 \<le> ?R"
  proof -
    have c: "?k = 0 \<or> 0 < ?k" by auto
    have z: "?R = ?n" if "?k = 0" using that by (simp add: round_bits_def)
    have s: "(2::int) ^ (?k - 1) \<le> 2 ^ 52" using k by (intro power_increasing) auto
    show "?R * 2 ^ ?k \<le> ?n + 2 ^ 52" using c z round_bits_error(1) [OF n, of ?k] s by fastforce
    show "?n - 2 ^ 52 \<le> ?R * 2 ^ ?k" using c z round_bits_error(2) [OF n, of ?k] s by fastforce
    show "0 \<le> ?R" using c z n round_bits_error(3) [OF n, of ?k] by fastforce
  qed
  have "?k \<le> E" using L(4) k by linarith
  then obtain j where j: "E = j + ?k" using le_Suc_ex add.commute by metis
  have j0: "0 < j" using j L(4) k by simp
  have s: "sgn ?n * ?R = ?R"
  proof (cases "?n = 0")
    case True
    show ?thesis unfolding True by (simp add: excess_small round_bits_def)
  next
    case False
    then have "0 < ?n" using n by linarith
    then have "sgn ?n = 1" by (rule sgn_pos)
    then show ?thesis by simp
  qed
  have "to_double ?n (- int E) = (sgn ?n * ?R, - int E + int ?k)" using n by (simp only: to_double_def Let_def abs_of_nonneg)
  then have "double_mult (to_double v 0) (percent p) = (?R, - int j)"
    unfolding v0 L(1) s j by (simp add: double_mult_def)
  then have t: "times_percent v p = ?R div 2 ^ j"
    using j0 R(3) by (simp add: times_percent_def double_to_int_def sgn_if)
  obtain q where q: "q = ?R div 2 ^ j" by simp
  have q1: "q * 2 ^ j \<le> ?R" "?R < (q + 1) * 2 ^ j"
    using div_mult_mod_eq [of ?R "2 ^ j"] pos_mod_bound [of "2 ^ j" ?R] pos_mod_sign [of "2 ^ j" ?R] q
    by (simp_all add: distrib_right del: div_mult_mod_eq pos_mod_bound pos_mod_sign)
  have E: "(2::int) ^ E = 2 ^ j * 2 ^ ?k" unfolding j by (rule power_add)
  have "q * 2 ^ E \<le> ?R * 2 ^ ?k" using mult_right_mono [OF q1(1), of "2 ^ ?k"] by (simp add: E mult.assoc)
  moreover have "?R * 2 ^ ?k < (q + 1) * 2 ^ E"
    using mult_strict_right_mono [OF q1(2), of "2 ^ ?k"] by (simp only: E mult.assoc zero_less_power zero_less_numeral)
  ultimately have q2: "q * 2 ^ E \<le> ?n + 2 ^ 52" "?n - 2 ^ 52 < (q + 1) * 2 ^ E" using R(1,2) by linarith+
  have "v * (100 * M) \<le> v * (p * 2 ^ E + 50)" "v * (p * 2 ^ E - 50) \<le> v * (100 * M)"
    using L(5) assms(2) by (auto intro!: mult_left_mono)
  then have n3: "100 * ?n \<le> v * p * 2 ^ E + 50 * v" "v * p * 2 ^ E - 50 * v \<le> 100 * ?n" by (simp_all add: algebra_simps)
  have e: "(2::int) ^ 54 \<le> 2 ^ E" using L(4) by (intro power_increasing) auto
  have num: "(2::int) ^ 53 = 2 * 2 ^ 52" "(2::int) ^ 54 = 4 * 2 ^ 52" by simp_all
  have "100 * (q * 2 ^ E) \<le> v * p * 2 ^ E + 50 * 2 ^ E" using q2(1) n3(1) assms(3) e num by linarith
  then have "(100 * q) * 2 ^ E \<le> (v * p + 50) * 2 ^ E" by (simp add: algebra_simps)
  then show "100 * times_percent v p \<le> v * p + 50" using t q by (simp add: mult_le_cancel_right)
  have "v * p * 2 ^ E - 50 * 2 ^ E \<le> 100 * ((q + 1) * 2 ^ E)" using q2(2) n3(2) assms(3) e num by linarith
  then have "(v * p - 50) * 2 ^ E \<le> (100 * (q + 1)) * 2 ^ E" by (simp add: algebra_simps)
  then show "v * p - 150 \<le> 100 * times_percent v p" using t q by (simp add: mult_le_cancel_right)
  show "0 \<le> times_percent v p" unfolding t using R(3) by (simp add: pos_imp_zdiv_nonneg_iff)
qed

text \<open>The payments of all levels together.\<close>

definition all_payments :: "int \<Rightarrow> int \<Rightarrow> camount" where
  "all_payments nProtocol v = sum_list (map (\<lambda>l. GetMasternodePayment nProtocol l v) [1, 2, 3, 4])"

lemma all_payments_small: "list_all (\<lambda>v. list_all (\<lambda>pr. all_payments pr v \<le> v) [0, CONSENSUS_FORK_PROTO, CONSENSUS_FORK_REWARD_UPDATE_PROTOCOL]) [0 .. 10]"
  by code_simp

text \<open>C25: the masternodes of all levels together never get more than the block value, and each gets a
  nonnegative amount, rounding in floating point included.\<close>

theorem masternode_payments_within:
  assumes "0 \<le> v" "v < 2 ^ 53"
  shows "all_payments nProtocol v \<le> v \<and> 0 \<le> GetMasternodePayment nProtocol l v"
proof -
  note b = times_percent_bounds [OF _ assms]
  have "all_payments nProtocol v \<le> v" if "10 < v"
    using that b(1) [of 9] b(1) [of 18] b(1) [of 27] b(1) [of 36] b(1) [of 15] b(1) [of 20] b(1) [of 25] b(1) [of 30] b(1) [of 2]
    by (auto simp: all_payments_def GetMasternodePayment_def literals_def)
  moreover have "all_payments nProtocol v \<le> v" if "v \<le> 10"
  proof -
    have "v \<in> set [0 .. 10]" using that assms(1) by auto
    then have "all_payments pr v \<le> v" if "pr \<in> {0, CONSENSUS_FORK_PROTO, CONSENSUS_FORK_REWARD_UPDATE_PROTOCOL}" for pr
      using all_payments_small that by (auto simp: list_all_iff simp del: upto.simps)
    moreover obtain pr where "pr \<in> {0, CONSENSUS_FORK_PROTO, CONSENSUS_FORK_REWARD_UPDATE_PROTOCOL}"
      "all_payments nProtocol v = all_payments pr v"
      by (cases "nProtocol \<ge> CONSENSUS_FORK_REWARD_UPDATE_PROTOCOL"; cases "nProtocol \<ge> CONSENSUS_FORK_PROTO")
        (force simp: all_payments_def GetMasternodePayment_def CONSENSUS_FORK_PROTO_def CONSENSUS_FORK_REWARD_UPDATE_PROTOCOL_def)+
    ultimately show ?thesis by metis
  qed
  moreover have "0 \<le> GetMasternodePayment nProtocol l v"
    using b(3) by (auto simp: GetMasternodePayment_def literals_def)
  ultimately show ?thesis by linarith
qed

theorem masternode_payments_within_witness:
  "all_payments 70225 2500000000 \<le> 2500000000 \<and> 0 \<le> GetMasternodePayment 70225 4 2500000000"
  by (rule masternode_payments_within) simp_all

end
