(* ===== verification/Base58.thy ===== *)
theory Base58
  imports Standard Amount
begin

text \<open>
  Base58 strings, their checksummed form and addresses (\<^verbatim>\<open>src/src/base58.cpp\<close>, \<^verbatim>\<open>base58.h\<close>).
  A failed assertion on the carry is \<open>None\<close>. A C string ends at its first zero character; the double
  hash of the checksum is a parameter.
\<close>

section \<open>Encoding\<close>

definition pszBase58 :: string where
  "pszBase58 = ''123456789ABCDEFGHJKLMNPQRSTUVWXYZabcdefghijkmnopqrstuvwxyz''"

text \<open>
  The inner loop: \<open>b = b * k + carry\<close> on digits to the given base, the least significant first, as the
  reverse iterators visit them.
\<close>

fun mul_add :: "int \<Rightarrow> int \<Rightarrow> int \<Rightarrow> int list \<Rightarrow> int list \<times> int" where
  "mul_add k B carry [] = ([], carry)"
| "mul_add k B carry (d # ds) =
     (let c = carry + k * d; (ds', carry') = mul_add k B (c div B) ds in (c mod B # ds', carry'))"

fun push_digits :: "int \<Rightarrow> int \<Rightarrow> int list \<Rightarrow> int list \<Rightarrow> int list option" where
  "push_digits k B [] ds = Some ds"
| "push_digits k B (c # cs) ds =
     (case mul_add k B c ds of (ds', carry) \<Rightarrow> if carry = 0 then push_digits k B cs ds' else None)"

definition EncodeBase58 :: "bytes \<Rightarrow> string option" where
  "EncodeBase58 v =
     (let zeroes = length (takeWhile (\<lambda>b. b = 0) v);
          rest = dropWhile (\<lambda>b. b = 0) v
      in map_option (\<lambda>b58.
           replicate zeroes (CHR ''1'') @ map (\<lambda>d. pszBase58 ! nat d) (dropWhile (\<lambda>d. d = 0) (rev b58)))
           (push_digits 256 58 (map uint rest) (replicate (length rest * 138 div 100 + 1) 0)))"

section \<open>Decoding\<close>

definition c_str :: "string \<Rightarrow> string" where
  "c_str s = takeWhile (\<lambda>c. c \<noteq> CHR 0x00) s"

fun strchr :: "string \<Rightarrow> char \<Rightarrow> int option" where
  "strchr [] c = None"
| "strchr (x # xs) c = (if x = c then Some 0 else map_option (\<lambda>i. i + 1) (strchr xs c))"

text \<open>The loop over the characters: it stops at a space or at the end; \<open>Inl\<close> is a character outside the
  alphabet, \<open>Inr\<close> has the digits and the rest of the string.\<close>

fun decode_loop :: "string \<Rightarrow> int list \<Rightarrow> (unit + int list \<times> string) option" where
  "decode_loop [] b256 = Some (Inr (b256, []))"
| "decode_loop (c # cs) b256 =
     (if isspace c then Some (Inr (b256, c # cs))
      else case strchr pszBase58 c of
        None \<Rightarrow> Some (Inl ())
      | Some carry \<Rightarrow>
          (case mul_add 58 256 carry b256 of (b256', carry') \<Rightarrow>
             if carry' = 0 then decode_loop cs b256' else None))"

text \<open>\<open>Some None\<close> is the result false.\<close>

definition DecodeBase58 :: "string \<Rightarrow> bytes option option" where
  "DecodeBase58 str =
     (let psz = dropWhile isspace (c_str str);
          zeroes = length (takeWhile (\<lambda>c. c = CHR ''1'') psz);
          psz1 = dropWhile (\<lambda>c. c = CHR ''1'') psz
      in case decode_loop psz1 (replicate (length psz1 * 733 div 1000 + 1) 0) of
        None \<Rightarrow> None
      | Some (Inl _) \<Rightarrow> Some None
      | Some (Inr (b256, rest)) \<Rightarrow>
          if dropWhile isspace rest \<noteq> [] then Some None
          else Some (Some (replicate zeroes 0 @ map word_of_int (dropWhile (\<lambda>d. d = 0) (rev b256)))))"

section \<open>Checksum\<close>

text \<open>\<open>Hash\<close> is the double hash; its first four bytes in memory are the checksum.\<close>

definition checksum :: "(bytes \<Rightarrow> uint256) \<Rightarrow> bytes \<Rightarrow> bytes" where
  "checksum Hash v = take 4 (WRITEDATA (Hash v))"

definition EncodeBase58Check :: "(bytes \<Rightarrow> uint256) \<Rightarrow> bytes \<Rightarrow> string option" where
  "EncodeBase58Check Hash vchIn = EncodeBase58 (vchIn @ checksum Hash vchIn)"

definition DecodeBase58Check :: "(bytes \<Rightarrow> uint256) \<Rightarrow> string \<Rightarrow> bytes option option" where
  "DecodeBase58Check Hash psz =
     (case DecodeBase58 psz of
        None \<Rightarrow> None
      | Some None \<Rightarrow> Some None
      | Some (Some v) \<Rightarrow>
          if length v < 4 then Some None
          else let n = length v - 4 in
            if checksum Hash (take n v) \<noteq> drop n v then Some None else Some (Some (take n v)))"

section \<open>Addresses\<close>

record CBase58Data =
  vchVersion :: bytes
  vchData :: bytes

definition CBase58Data_new :: CBase58Data where
  "CBase58Data_new = \<lparr>vchVersion = [], vchData = []\<rparr>"

definition SetData :: "bytes \<Rightarrow> bytes \<Rightarrow> CBase58Data" where
  "SetData vchVersionIn pdata = \<lparr>vchVersion = vchVersionIn, vchData = pdata\<rparr>"

definition SetString :: "(bytes \<Rightarrow> uint256) \<Rightarrow> string \<Rightarrow> nat \<Rightarrow> (bool \<times> CBase58Data) option" where
  "SetString Hash psz nVersionBytes =
     (case DecodeBase58Check Hash psz of
        None \<Rightarrow> None
      | Some None \<Rightarrow> Some (False, CBase58Data_new)
      | Some (Some vchTemp) \<Rightarrow>
          if length vchTemp < nVersionBytes then Some (False, CBase58Data_new)
          else Some (True, \<lparr>vchVersion = take nVersionBytes vchTemp, vchData = drop nVersionBytes vchTemp\<rparr>))"

definition Data_ToString :: "(bytes \<Rightarrow> uint256) \<Rightarrow> CBase58Data \<Rightarrow> string option" where
  "Data_ToString Hash d = EncodeBase58Check Hash (vchVersion d @ vchData d)"

text \<open>The prefixes of the network.\<close>

record base58_prefixes =
  PUBKEY_ADDRESS :: bytes
  SCRIPT_ADDRESS :: bytes
  SECRET_KEY :: bytes

definition mainPrefixes :: base58_prefixes where
  "mainPrefixes = \<lparr>PUBKEY_ADDRESS = [92], SCRIPT_ADDRESS = [63], SECRET_KEY = [25]\<rparr>"

definition testNetPrefixes :: base58_prefixes where
  "testNetPrefixes = \<lparr>PUBKEY_ADDRESS = [137], SCRIPT_ADDRESS = [19], SECRET_KEY = [239]\<rparr>"

fun Address_Set :: "base58_prefixes \<Rightarrow> CTxDestination \<Rightarrow> bool \<times> CBase58Data" where
  "Address_Set P (CKeyID i) = (True, SetData (PUBKEY_ADDRESS P) i)"
| "Address_Set P (CScriptID i) = (True, SetData (SCRIPT_ADDRESS P) i)"
| "Address_Set P CNoDestination = (False, CBase58Data_new)"

definition Address_IsValid :: "base58_prefixes \<Rightarrow> CBase58Data \<Rightarrow> bool" where
  "Address_IsValid P d \<longleftrightarrow>
     length (vchData d) = 20 \<and> (vchVersion d = PUBKEY_ADDRESS P \<or> vchVersion d = SCRIPT_ADDRESS P)"

definition Address_Get :: "base58_prefixes \<Rightarrow> CBase58Data \<Rightarrow> CTxDestination" where
  "Address_Get P d =
     (if \<not> Address_IsValid P d then CNoDestination
      else if vchVersion d = PUBKEY_ADDRESS P then CKeyID (vchData d)
      else if vchVersion d = SCRIPT_ADDRESS P then CScriptID (vchData d)
      else CNoDestination)"

definition Address_GetKeyID :: "base58_prefixes \<Rightarrow> CBase58Data \<Rightarrow> bytes option" where
  "Address_GetKeyID P d =
     (if \<not> Address_IsValid P d \<or> vchVersion d \<noteq> PUBKEY_ADDRESS P then None else Some (vchData d))"

definition Address_IsScript :: "base58_prefixes \<Rightarrow> CBase58Data \<Rightarrow> bool" where
  "Address_IsScript P d \<longleftrightarrow> Address_IsValid P d \<and> vchVersion d = SCRIPT_ADDRESS P"

section \<open>Secret keys\<close>

text \<open>A key is its 32 bytes and the flag of compression. \<open>None\<close> is the failed assertion.\<close>

definition Secret_SetKey :: "base58_prefixes \<Rightarrow> bytes \<Rightarrow> bool \<Rightarrow> CBase58Data" where
  "Secret_SetKey P key fCompressed = SetData (SECRET_KEY P) (key @ (if fCompressed then [1] else []))"

definition Secret_GetKey :: "CBase58Data \<Rightarrow> (bytes \<times> bool) option" where
  "Secret_GetKey d =
     (if length (vchData d) < 32 then None
      else Some (take 32 (vchData d), length (vchData d) > 32 \<and> vchData d ! 32 = 1))"

definition Secret_IsValid :: "base58_prefixes \<Rightarrow> CBase58Data \<Rightarrow> bool" where
  "Secret_IsValid P d \<longleftrightarrow>
     (length (vchData d) = 32 \<or> length (vchData d) = 33 \<and> vchData d ! 32 = 1) \<and> vchVersion d = SECRET_KEY P"

definition Secret_SetString :: "base58_prefixes \<Rightarrow> (bytes \<Rightarrow> uint256) \<Rightarrow> string \<Rightarrow> (bool \<times> CBase58Data) option" where
  "Secret_SetString P Hash psz =
     map_option (\<lambda>(ok, d). (ok \<and> Secret_IsValid P d, d)) (SetString Hash psz 1)"

end
