(* ===== verification/Mn_Payments.thy ===== *)
theory Mn_Payments
  imports Subsidy Base58 Block
begin

text \<open>
  Payments to masternodes (\<^verbatim>\<open>src/src/masternode-payments.cpp\<close>, \<^verbatim>\<open>masternode-payments.h\<close>, and
  \<^verbatim>\<open>GetBlockHash\<close> of \<^verbatim>\<open>masternode.cpp\<close>): the votes for the payees of a block, their messages, and the
  check of a block against them. A \<^verbatim>\<open>std::map\<close> is an association list in the order of its keys. \<open>None\<close> is
  an access through a null pointer or outside a vector.
\<close>

section \<open>Maps\<close>

definition emplace :: "'k::linorder \<Rightarrow> 'v \<Rightarrow> ('k \<times> 'v) list \<Rightarrow> bool \<times> ('k \<times> 'v) list" where
  "emplace k v m = (case map_of m k of Some _ \<Rightarrow> (False, m) | None \<Rightarrow> (True, insort_key fst (k, v) m))"

definition erase :: "'k \<Rightarrow> ('k \<times> 'v) list \<Rightarrow> ('k \<times> 'v) list" where
  "erase k m = filter (\<lambda>e. fst e \<noteq> k) m"

definition update_value :: "'k \<Rightarrow> ('v \<Rightarrow> 'v) \<Rightarrow> ('k \<times> 'v) list \<Rightarrow> ('k \<times> 'v) list" where
  "update_value k f m = map (\<lambda>e. if fst e = k then (k, f (snd e)) else e) m"

section \<open>State\<close>

definition MNPAYMENTS_SIGNATURES_REQUIRED :: int where "MNPAYMENTS_SIGNATURES_REQUIRED = 6"
definition MNPAYMENTS_SIGNATURES_TOTAL :: int where "MNPAYMENTS_SIGNATURES_TOTAL = 10"
definition MIN_PEER_PROTO_VERSION_BEFORE_ENFORCEMENT :: int where "MIN_PEER_PROTO_VERSION_BEFORE_ENFORCEMENT = 70223"

record CMasternodePayee =
  pay_script :: script
  mnlevel :: nat
  nVotes :: int

record CMasternodeBlockPayees =
  bp_nBlockHeight :: int
  vecPayments :: "CMasternodePayee list"

record CMasternodePaymentWinner =
  vinMasternode :: CTxIn
  win_nBlockHeight :: int
  payee :: script
  vchSig :: bytes
  payeeLevel :: nat

text \<open>The last field is the cache of block hashes, a variable of \<^verbatim>\<open>masternode.cpp\<close>.\<close>

record CMasternodePayments =
  nLastBlockHeight :: int
  mapMasternodePayeeVotes :: "(uint256 \<times> CMasternodePaymentWinner) list"
  mapMasternodeBlocks :: "(int \<times> CMasternodeBlockPayees) list"
  mapMasternodesLastVote :: "(uint256 \<times> int) list"
  mapCacheBlockHashes :: "(int \<times> uint256) list"

definition CMasternodePayments_new :: CMasternodePayments where
  "CMasternodePayments_new = \<lparr>nLastBlockHeight = 0, mapMasternodePayeeVotes = [], mapMasternodeBlocks = [],
     mapMasternodesLastVote = [], mapCacheBlockHashes = []\<rparr>"

definition Payments_Clear :: "CMasternodePayments \<Rightarrow> CMasternodePayments" where
  "Payments_Clear s = s\<lparr>mapMasternodeBlocks := [], mapMasternodePayeeVotes := [], mapMasternodesLastVote := []\<rparr>"

text \<open>
  What the rest of the node provides: parameters, chain, sporks, synchronisation, and of the masternode
  manager the level of the masternode that a script pays, the protocol version of the one with an
  input, its rank at a height, the number of enabled ones of a level, the size of the list,
  and whether the signature of a vote is that of the masternode it names.
\<close>

record mn_env =
  me_Params :: CChainParams
  me_Prefixes :: base58_prefixes
  me_DevFeeAddress :: "bool \<Rightarrow> string"
  me_Hash :: "bytes \<Rightarrow> uint256"
  me_Hash160 :: "bytes \<Rightarrow> bytes"
  me_store :: block_store
  me_chain :: CChain
  me_SporkDevFee :: int
  me_Enforcement :: bool
  me_IsSynced :: bool
  me_IsBlockchainSynced :: bool
  me_LiteMode :: bool
  me_FindPayee :: "script \<Rightarrow> nat option"
  me_FindVin :: "CTxIn \<Rightarrow> int option"
  me_Rank :: "CTxIn \<Rightarrow> int \<Rightarrow> int"
  me_CountEnabled :: "nat \<Rightarrow> int"
  me_Size :: int
  me_SignatureValid :: "CMasternodePaymentWinner \<Rightarrow> bool"

definition ActiveProtocol :: "CChain \<Rightarrow> int" where
  "ActiveProtocol C =
     (if Chain_Height C > CONSENSUS_FORK_REWARD_UPDATE_BLOCK then CONSENSUS_FORK_REWARD_UPDATE_PROTOCOL
      else MIN_PEER_PROTO_VERSION_BEFORE_ENFORCEMENT)"

definition Index_GetBlockHash :: "CBlockIndex \<Rightarrow> uint256 option" where
  "Index_GetBlockHash p = phashBlock p"

section \<open>Block hashes\<close>

partial_function (option) block_at_height :: "block_store \<Rightarrow> nat option \<Rightarrow> int \<Rightarrow> nat option option" where
  "block_at_height st p h =
     (case p of
        None \<Rightarrow> Some None
      | Some i \<Rightarrow> if int (bi_nHeight (st ! i)) \<noteq> h then block_at_height st (pprev (st ! i)) h else Some (Some i))"

declare block_at_height.simps [code]

text \<open>The result is the hash, if there is one, and the cache.\<close>

definition GetBlockHash ::
  "block_store \<Rightarrow> CChain \<Rightarrow> (int \<times> uint256) list \<Rightarrow> int \<Rightarrow> (uint256 option \<times> (int \<times> uint256) list) option" where
  "GetBlockHash st C cache h =
     (case Tip C of
        None \<Rightarrow> Some (None, cache)
      | Some tip \<Rightarrow>
          let tipHeight = int (bi_nHeight (st ! tip));
              h1 = (if h \<le> 0 then tipHeight else h)
          in if tipHeight < h1 then Some (None, cache)
             else case map_of cache h1 of
               Some hash \<Rightarrow> Some (Some hash, cache)
             | None \<Rightarrow>
                 (case block_at_height st (Some tip) h1 of
                    None \<Rightarrow> None
                  | Some None \<Rightarrow> Some (None, cache)
                  | Some (Some i) \<Rightarrow>
                      map_option (\<lambda>hash. (Some hash, snd (emplace h1 hash cache))) (Index_GetBlockHash (st ! i))))"

section \<open>Payees of a block\<close>

fun add_payee :: "nat \<Rightarrow> script \<Rightarrow> int \<Rightarrow> CMasternodePayee list \<Rightarrow> CMasternodePayee list" where
  "add_payee l payeeIn nIncrement [] = [\<lparr>pay_script = payeeIn, mnlevel = l, nVotes = nIncrement\<rparr>]"
| "add_payee l payeeIn nIncrement (p # ps) =
     (if pay_script p = payeeIn then p\<lparr>nVotes := nVotes p + nIncrement\<rparr> # ps
      else p # add_payee l payeeIn nIncrement ps)"

definition AddPayee :: "nat \<Rightarrow> script \<Rightarrow> int \<Rightarrow> CMasternodeBlockPayees \<Rightarrow> CMasternodeBlockPayees" where
  "AddPayee l payeeIn nIncrement b = b\<lparr>vecPayments := add_payee l payeeIn nIncrement (vecPayments b)\<rparr>"

fun best_payee :: "nat \<Rightarrow> CMasternodePayee list \<Rightarrow> CMasternodePayee option \<Rightarrow> CMasternodePayee option" where
  "best_payee l [] payment = payment"
| "best_payee l (p # ps) payment =
     (if mnlevel p \<noteq> l then best_payee l ps payment
      else if (case payment of None \<Rightarrow> True | Some q \<Rightarrow> nVotes p > nVotes q) then best_payee l ps (Some p)
      else best_payee l ps payment)"

definition GetPayee :: "nat \<Rightarrow> CMasternodeBlockPayees \<Rightarrow> script option" where
  "GetPayee l b = map_option pay_script (best_payee l (vecPayments b) None)"

definition HasPayeeWithVotes :: "script \<Rightarrow> int \<Rightarrow> CMasternodeBlockPayees \<Rightarrow> bool" where
  "HasPayeeWithVotes payeeIn nVotesReq b \<longleftrightarrow> list_ex (\<lambda>p. nVotes p \<ge> nVotesReq \<and> pay_script p = payeeIn) (vecPayments b)"

section \<open>The check of a payment\<close>

text \<open>The levels that some payee has enough signatures for; of the map in the code only the keys are used.\<close>

fun signed_levels :: "CMasternodePayee list \<Rightarrow> (nat \<times> int) list \<Rightarrow> (nat \<times> int) list" where
  "signed_levels [] m = m"
| "signed_levels (p # ps) m =
     (if nVotes p < MNPAYMENTS_SIGNATURES_REQUIRED then signed_levels ps m
      else case emplace (mnlevel p) (nVotes p) m of (inserted, m') \<Rightarrow>
        if inserted then signed_levels ps m'
        else signed_levels ps (update_value (mnlevel p) (\<lambda>v. if nVotes p \<ge> v then nVotes p else v) m'))"

fun pays_levels :: "int \<Rightarrow> camount \<Rightarrow> CTxOut list \<Rightarrow> CMasternodePayee list \<Rightarrow> (nat \<times> int) list \<Rightarrow> bool" where
  "pays_levels proto nReward outs [] m = False"
| "pays_levels proto nReward outs (p # ps) m =
     (if nVotes p < MNPAYMENTS_SIGNATURES_REQUIRED then pays_levels proto nReward outs ps m
      else if list_ex (\<lambda>out. pay_script p = scriptPubKey out \<and> nValue out \<ge> GetMasternodePayment proto (mnlevel p) nReward) outs
      then let m' = erase (mnlevel p) m in if m' \<noteq> [] then pays_levels proto nReward outs ps m' else True
      else pays_levels proto nReward outs ps m)"

definition address_string :: "mn_env \<Rightarrow> CTxDestination \<Rightarrow> string option" where
  "address_string env dest = Data_ToString (me_Hash env) (snd (Address_Set (me_Prefixes env) dest))"

text \<open>The fund of the time after the fork: the third output. The conditions are joined by \<open>and\<close> as in the code.\<close>

definition dev_fund_ok :: "mn_env \<Rightarrow> camount \<Rightarrow> CTransaction \<Rightarrow> bool option" where
  "dev_fund_ok env devFeeFund tx =
     (if devFeeFund > 0 then
        (if length (vout tx) \<le> 2 then None
         else let out = vout tx ! 2;
                  dest = (case ExtractDestination (me_Hash160 env) (scriptPubKey out) of None \<Rightarrow> CNoDestination | Some d \<Rightarrow> d)
              in map_option (\<lambda>a. \<not> (me_DevFeeAddress env True \<noteq> a \<and> nValue out \<noteq> devFeeFund)) (address_string env dest))
      else Some True)"

text \<open>The fee of the time before: the first output to the address of the fund. An output without an
  address leaves the destination of the one before it.\<close>

fun dev_fee_loop :: "mn_env \<Rightarrow> camount \<Rightarrow> CTxOut list \<Rightarrow> CTxDestination \<Rightarrow> bool option" where
  "dev_fee_loop env devFeeFund [] dest = Some False"
| "dev_fee_loop env devFeeFund (out # outs) dest =
     (let dest' = (case ExtractDestination (me_Hash160 env) (scriptPubKey out) of None \<Rightarrow> dest | Some d \<Rightarrow> d) in
      Option.bind (address_string env dest') (\<lambda>a.
        if me_DevFeeAddress env False = a then Some (nValue out \<ge> devFeeFund)
        else dev_fee_loop env devFeeFund outs dest'))"

text \<open>The reward is not negative where the fee is taken from it.\<close>

definition BlockPayees_IsTransactionValid :: "mn_env \<Rightarrow> CTransaction \<Rightarrow> CMasternodeBlockPayees \<Rightarrow> bool option" where
  "BlockPayees_IsTransactionValid env tx b =
     (let levels = signed_levels (vecPayments b) [] in
      if levels = [] then Some True
      else
        Option.bind (GetBlockValue (me_Params env) (me_store env) (me_chain env) (bp_nBlockHeight b - 1)) (\<lambda>nReward.
          let proto = ActiveProtocol (me_chain env);
              check = (\<lambda>reward. pays_levels proto reward (vout tx) (vecPayments b) levels)
          in if Chain_Height (me_chain env) > CONSENSUS_FORK_REWARD_UPDATE_BLOCK then
               Option.bind (GetDevFeeValue (me_Params env) (me_store env) (me_chain env) (bp_nBlockHeight b - 1)) (\<lambda>fund.
                 map_option (\<lambda>ok. ok \<and> check nReward) (dev_fund_ok env fund tx))
             else if me_SporkDevFee env > 0 then
               (let devFee = min (me_SporkDevFee env) 10; fund = nReward * devFee div 100 in
                map_option (\<lambda>ok. ok \<and> check (nReward - fund)) (dev_fee_loop env fund (vout tx) CNoDestination))
             else Some (check nReward)))"

definition Payments_IsTransactionValid :: "mn_env \<Rightarrow> CMasternodePayments \<Rightarrow> CTransaction \<Rightarrow> int \<Rightarrow> bool option" where
  "Payments_IsTransactionValid env s tx h =
     (case map_of (mapMasternodeBlocks s) h of
        Some b \<Rightarrow> BlockPayees_IsTransactionValid env tx b
      | None \<Rightarrow> Some True)"

definition IsBlockPayeeValid :: "mn_env \<Rightarrow> CMasternodePayments \<Rightarrow> CBlock \<Rightarrow> int \<Rightarrow> bool option" where
  "IsBlockPayeeValid env s block h =
     (if \<not> me_IsSynced env then Some True
      else let i = (if h > LAST_POW_BLOCK (me_Params env) then 1 else 0) in
        if length (vtx block) \<le> i then None
        else map_option (\<lambda>ok. if ok then True else \<not> me_Enforcement env) (Payments_IsTransactionValid env s (vtx block ! i) h))"

text \<open>The height that the code computes here is only logged.\<close>

definition IsBlockValueValid :: "mn_env \<Rightarrow> CBlock \<Rightarrow> camount \<Rightarrow> camount \<Rightarrow> bool" where
  "IsBlockValueValid env block nExpectedValue nMinted =
     (case Tip (me_chain env) of None \<Rightarrow> True | Some _ \<Rightarrow> \<not> nMinted > nExpectedValue)"

end
