(* ===== verification/Mn_Votes.thy ===== *)
theory Mn_Votes
  imports Mn_Payments
begin

text \<open>
  Votes for payees (\<^verbatim>\<open>src/src/masternode-payments.cpp\<close>): admission of a vote, the messages \<^verbatim>\<open>mnget\<close>,
  \<^verbatim>\<open>mnw\<close> and \<^verbatim>\<open>mnwp\<close>, the votes a masternode casts itself, and the removal of old ones. A handler
  returns the new state and what it sends or reports, in order.
\<close>

section \<open>Votes\<close>

definition Winner_GetHash :: "(bytes \<Rightarrow> uint256) \<Rightarrow> CMasternodePaymentWinner \<Rightarrow> uint256" where
  "Winner_GetHash Hash w =
     Hash (SerializeBytes (payee w) @ WRITEDATA (word_of_int (win_nBlockHeight w) :: uint32) @
           SerializeOutPoint (prevout (vinMasternode w)))"

definition vote_key :: "COutPoint \<Rightarrow> nat \<Rightarrow> uint256" where
  "vote_key out l = push_bit 4 (outpoint_hash out + ucast (outpoint_n out)) + of_nat l"

definition CanVote :: "COutPoint \<Rightarrow> int \<Rightarrow> nat \<Rightarrow> CMasternodePayments \<Rightarrow> bool \<times> CMasternodePayments" where
  "CanVote outMasternode h l s =
     (let key = vote_key outMasternode l in
      case map_of (mapMasternodesLastVote s) key of
        None \<Rightarrow> (True, s\<lparr>mapMasternodesLastVote := snd (emplace key h (mapMasternodesLastVote s))\<rparr>)
      | Some last_vote \<Rightarrow>
          if last_vote \<ge> h then (False, s)
          else (True, s\<lparr>mapMasternodesLastVote := update_value key (\<lambda>_. h) (mapMasternodesLastVote s)\<rparr>))"

definition AddWinningMasternode ::
  "mn_env \<Rightarrow> CMasternodePaymentWinner \<Rightarrow> CMasternodePayments \<Rightarrow> (bool \<times> CMasternodePayments) option" where
  "AddWinningMasternode env w s =
     (case GetBlockHash (me_store env) (me_chain env) (mapCacheBlockHashes s) (win_nBlockHeight w - 100) of
        None \<Rightarrow> None
      | Some (None, cache) \<Rightarrow> Some (False, s\<lparr>mapCacheBlockHashes := cache\<rparr>)
      | Some (Some blockHash, cache) \<Rightarrow>
          (case emplace (Winner_GetHash (me_Hash env) w) w (mapMasternodePayeeVotes s) of
             (inserted, votes) \<Rightarrow>
               if \<not> inserted then Some (False, s\<lparr>mapCacheBlockHashes := cache\<rparr>)
               else
                 let blocks = snd (emplace (win_nBlockHeight w)
                       \<lparr>bp_nBlockHeight = win_nBlockHeight w, vecPayments = []\<rparr> (mapMasternodeBlocks s))
                 in Some (True, s\<lparr>mapCacheBlockHashes := cache, mapMasternodePayeeVotes := votes,
                      mapMasternodeBlocks :=
                        update_value (win_nBlockHeight w) (AddPayee (payeeLevel w) (payee w) 1) blocks\<rparr>)))"

definition GetBlockPayee :: "CMasternodePayments \<Rightarrow> int \<Rightarrow> nat \<Rightarrow> script option" where
  "GetBlockPayee s h l = (case map_of (mapMasternodeBlocks s) h of None \<Rightarrow> None | Some b \<Rightarrow> GetPayee l b)"

text \<open>Whether a masternode that is paid by \<open>mnpayee\<close> on its level is scheduled; \<open>tipHeight\<close> is the height of the tip.\<close>

definition IsScheduled :: "CMasternodePayments \<Rightarrow> CChain \<Rightarrow> block_store \<Rightarrow> script \<Rightarrow> nat \<Rightarrow> int \<Rightarrow> int \<Rightarrow> bool" where
  "IsScheduled s C st mnpayee l nSameLevelMNCount nNotBlockHeight \<longleftrightarrow>
     (case Tip C of
        None \<Rightarrow> False
      | Some tip \<Rightarrow>
          let upper = int (bi_nHeight (st ! tip)) + 10 in
          list_ex (\<lambda>h. h \<noteq> nNotBlockHeight \<and> GetBlockPayee s h l = Some mnpayee)
            [upper - min 10 (nSameLevelMNCount - 1) .. upper - 1])"

section \<open>Messages\<close>

datatype mn_effect =
    AddedMasternodeWinner uint256
  | AskForMN CTxIn
  | Misbehaving int
  | RelayInv uint256
  | PushWinners bool "CMasternodePaymentWinner list"
  | PushInventory uint256
  | PushSyncCount nat
  | FulfilledRequest
  | ForgetSeen uint256

text \<open>The checks of the sender of a vote.\<close>

definition Winner_IsValid :: "mn_env \<Rightarrow> CMasternodePaymentWinner \<Rightarrow> bool \<times> mn_effect list" where
  "Winner_IsValid env w =
     (case me_FindVin env (vinMasternode w) of
        None \<Rightarrow> (False, [AskForMN (vinMasternode w)])
      | Some protocolVersion \<Rightarrow>
          if protocolVersion < ActiveProtocol (me_chain env) then (False, [])
          else let n = me_Rank env (vinMasternode w) (win_nBlockHeight w - 100) in
            if n = -1 then (False, [])
            else if n > MNPAYMENTS_SIGNATURES_TOTAL
            then (False, if n > MNPAYMENTS_SIGNATURES_TOTAL * 2 \<and> me_IsSynced env then [Misbehaving 20] else [])
            else (True, []))"

text \<open>The number of enabled masternodes times 1.25, exact in floating point, truncated.\<close>

definition times_5_4 :: "int \<Rightarrow> int" where
  "times_5_4 n = n * 5 div 4"

text \<open>
  One vote of a message. \<open>slack\<close> is the additional block of the packed form, \<open>penalty\<close> what a
  bad signature costs, \<open>checkVote\<close> whether a repeated vote is refused (a packed vote that is
  not relayed is counted all the same). The result says whether the vote was added.
\<close>

definition process_winner ::
  "mn_env \<Rightarrow> int \<Rightarrow> int \<Rightarrow> int \<Rightarrow> bool \<Rightarrow> CMasternodePaymentWinner \<Rightarrow> CMasternodePayments \<Rightarrow>
   (bool \<times> CMasternodePaymentWinner \<times> mn_effect list \<times> CMasternodePayments) option" where
  "process_winner env tipHeight slack penalty checkVote w0 s =
     (case me_FindPayee env (payee w0) of
        None \<Rightarrow> Some (False, w0, [], s)
      | Some l \<Rightarrow>
          let w = w0\<lparr>payeeLevel := l\<rparr>; h = Winner_GetHash (me_Hash env) w in
          if map_of (mapMasternodePayeeVotes s) h \<noteq> None then Some (False, w, [AddedMasternodeWinner h], s)
          else case Winner_IsValid env w of
            (False, effs) \<Rightarrow> Some (False, w, effs, s)
          | (True, effs) \<Rightarrow>
              let nFirstBlock = tipHeight - times_5_4 (me_CountEnabled env l) - slack in
              if win_nBlockHeight w < nFirstBlock \<or> win_nBlockHeight w > tipHeight + 20 then Some (False, w, effs, s)
              else case CanVote (prevout (vinMasternode w)) (win_nBlockHeight w) l s of
                (canVote, s1) \<Rightarrow>
                  if \<not> canVote \<and> checkVote then Some (False, w, effs, s1)
                  else if \<not> me_SignatureValid env w
                  then Some (False, w, effs @ (if me_IsSynced env then [Misbehaving penalty] else []) @ [AskForMN (vinMasternode w)], s1)
                  else (case AddWinningMasternode env w s1 of
                          None \<Rightarrow> None
                        | Some (added, s2) \<Rightarrow> Some (added, w, effs, s2)))"

definition process_mnw ::
  "mn_env \<Rightarrow> int \<Rightarrow> CMasternodePaymentWinner \<Rightarrow> CMasternodePayments \<Rightarrow> (mn_effect list \<times> CMasternodePayments) option" where
  "process_mnw env peerVersion w s =
     (if peerVersion < ActiveProtocol (me_chain env) then Some ([], s)
      else case Tip (me_chain env) of
        None \<Rightarrow> Some ([], s)
      | Some tip \<Rightarrow>
          map_option (\<lambda>(added, w', effs, s').
              (if added then effs @ [RelayInv (Winner_GetHash (me_Hash env) w'), AddedMasternodeWinner (Winner_GetHash (me_Hash env) w')]
               else effs, s'))
            (process_winner env (int (bi_nHeight (me_store env ! tip))) 0 20 True w s))"

fun winners_loop ::
  "mn_env \<Rightarrow> int \<Rightarrow> bool \<Rightarrow> CMasternodePaymentWinner list \<Rightarrow> CMasternodePaymentWinner list \<Rightarrow> mn_effect list \<Rightarrow>
   CMasternodePayments \<Rightarrow> (CMasternodePaymentWinner list \<times> mn_effect list \<times> CMasternodePayments) option" where
  "winners_loop env tipHeight bRelay [] winners effs s = Some (winners, effs, s)"
| "winners_loop env tipHeight bRelay (w # ws) winners effs s =
     (case process_winner env tipHeight 1 5 bRelay w s of
        None \<Rightarrow> None
      | Some (added, w', es, s') \<Rightarrow>
          if added
          then winners_loop env tipHeight bRelay ws (if bRelay then winners @ [w'] else winners)
                 (effs @ es @ [AddedMasternodeWinner (Winner_GetHash (me_Hash env) w')]) s'
          else winners_loop env tipHeight bRelay ws winners (effs @ es) s')"

definition process_mnwp ::
  "mn_env \<Rightarrow> int \<Rightarrow> bool \<Rightarrow> CMasternodePaymentWinner list \<Rightarrow> CMasternodePayments \<Rightarrow>
   (mn_effect list \<times> CMasternodePayments) option" where
  "process_mnwp env peerVersion bRelay ws s =
     (if peerVersion < ActiveProtocol (me_chain env) then Some ([], s)
      else case Tip (me_chain env) of
        None \<Rightarrow> None
      | Some tip \<Rightarrow>
          map_option (\<lambda>(winners, effs, s').
              (if winners \<noteq> [] \<and> bRelay then effs @ [PushWinners bRelay winners] else effs, s'))
            (winners_loop env (int (bi_nHeight (me_store env ! tip))) bRelay ws [] [] s))"

section \<open>Synchronisation\<close>

text \<open>The loop of \<^verbatim>\<open>Sync\<close> for the newer protocol: of the past votes for one height and level a payee is sent
  once in a row. \<open>counts\<close> gives the window of a level; the comparison with it is unsigned.\<close>

definition u32 :: "int \<Rightarrow> uint32" where
  "u32 i = word_of_int i"

fun sync_loop ::
  "int \<Rightarrow> (nat \<Rightarrow> int) \<Rightarrow> CMasternodePaymentWinner list \<Rightarrow> (int \<rightharpoonup> script) \<Rightarrow> CMasternodePaymentWinner list" where
  "sync_loop tipHeight counts [] m = []"
| "sync_loop tipHeight counts (w # ws) m =
     (if win_nBlockHeight w \<le> tipHeight then
        (if u32 (win_nBlockHeight w) < u32 tipHeight - u32 (counts (payeeLevel w)) then sync_loop tipHeight counts ws m
         else let i = wrap32 (win_nBlockHeight w * int (payeeLevel w)) in
           if m i = Some (payee w) then sync_loop tipHeight counts ws m
           else w # sync_loop tipHeight counts ws (m(i \<mapsto> payee w)))
      else w # sync_loop tipHeight counts ws m)"

definition level_window :: "mn_env \<Rightarrow> nat \<Rightarrow> int" where
  "level_window env l = (if 1 \<le> l \<and> l \<le> 4 then times_5_4 (me_CountEnabled env l) + 1 else 0)"

definition Sync :: "mn_env \<Rightarrow> int \<Rightarrow> CMasternodePayments \<Rightarrow> mn_effect list" where
  "Sync env nCountNeeded s =
     (case Tip (me_chain env) of
        None \<Rightarrow> []
      | Some tip \<Rightarrow>
          let tipHeight = int (bi_nHeight (me_store env ! tip));
              mx = Max (set (map (\<lambda>l. times_5_4 (me_CountEnabled env l)) [1, 2, 3, 4]));
              max_mn_count = (if u32 mx > u32 nCountNeeded then u32 nCountNeeded else u32 mx)
          in if ActiveProtocol (me_chain env) \<ge> CONSENSUS_FORK_PROTO
             then [PushWinners False (sync_loop tipHeight (level_window env) (map snd (mapMasternodePayeeVotes s)) Map.empty)]
             else let ws = filter (\<lambda>w. u32 (win_nBlockHeight w) \<ge> u32 tipHeight - max_mn_count \<and> win_nBlockHeight w \<le> tipHeight + 20)
                             (map snd (mapMasternodePayeeVotes s))
               in map (\<lambda>w. PushInventory (Winner_GetHash (me_Hash env) w)) ws @ [PushSyncCount (length ws)])"

definition process_mnget :: "mn_env \<Rightarrow> bool \<Rightarrow> int \<Rightarrow> CMasternodePayments \<Rightarrow> mn_effect list" where
  "process_mnget env hasFulfilled nCountNeeded s =
     (if \<not> testnet (me_Params env) \<and> hasFulfilled then [Misbehaving 20]
      else FulfilledRequest # Sync env nCountNeeded s)"

text \<open>A message to the payments: the peer's version and whether it asked before are inputs.\<close>

datatype mn_message =
    Mnget int
  | Mnw CMasternodePaymentWinner
  | Mnwp bool "CMasternodePaymentWinner list"

definition ProcessMessageMasternodePayments ::
  "mn_env \<Rightarrow> int \<Rightarrow> bool \<Rightarrow> mn_message \<Rightarrow> CMasternodePayments \<Rightarrow> (mn_effect list \<times> CMasternodePayments) option" where
  "ProcessMessageMasternodePayments env peerVersion hasFulfilled msg s =
     (if \<not> me_IsBlockchainSynced env then Some ([], s)
      else if me_LiteMode env then Some ([], s)
      else case msg of
        Mnget n \<Rightarrow> Some (process_mnget env hasFulfilled n s, s)
      | Mnw w \<Rightarrow> process_mnw env peerVersion w s
      | Mnwp bRelay ws \<Rightarrow> process_mnwp env peerVersion bRelay ws s)"

section \<open>Own votes\<close>

text \<open>What an active masternode knows: its input, its key, and the next payee of a level.\<close>

record mn_active =
  ma_vin :: CTxIn
  ma_HaveKey :: bool
  ma_Sign :: "CMasternodePaymentWinner \<Rightarrow> bytes option"
  ma_NextPayee :: "int \<Rightarrow> nat \<Rightarrow> script option"

fun cast_votes ::
  "mn_env \<Rightarrow> mn_active \<Rightarrow> int \<Rightarrow> nat list \<Rightarrow> CMasternodePaymentWinner list \<Rightarrow> CMasternodePayments \<Rightarrow>
   (CMasternodePaymentWinner list \<times> CMasternodePayments) option" where
  "cast_votes env ma h [] winners s = Some (winners, s)"
| "cast_votes env ma h (l # ls) winners s =
     (case ma_NextPayee ma h l of
        None \<Rightarrow> cast_votes env ma h ls winners s
      | Some p \<Rightarrow>
          let w = \<lparr>vinMasternode = ma_vin ma, win_nBlockHeight = h, payee = p, vchSig = [], payeeLevel = l\<rparr> in
          (case ma_Sign ma w of
             None \<Rightarrow> cast_votes env ma h ls winners s
           | Some sig \<Rightarrow>
               let w' = w\<lparr>vchSig := sig\<rparr> in
               (case AddWinningMasternode env w' s of
                  None \<Rightarrow> None
                | Some (added, s') \<Rightarrow> cast_votes env ma h ls (if added then winners @ [w'] else winners) s')))"

definition ProcessBlock ::
  "mn_env \<Rightarrow> mn_active option \<Rightarrow> int \<Rightarrow> CMasternodePayments \<Rightarrow> (bool \<times> mn_effect list \<times> CMasternodePayments) option" where
  "ProcessBlock env active nBlockHeight s =
     (case active of
        None \<Rightarrow> Some (False, [], s)
      | Some ma \<Rightarrow>
          let h = nBlockHeight + 10 in
          if h \<le> nLastBlockHeight s then Some (False, [], s)
          else let n = me_Rank env (ma_vin ma) (h - 100) in
            if n = -1 \<or> n > MNPAYMENTS_SIGNATURES_TOTAL \<or> \<not> ma_HaveKey ma then Some (False, [], s)
            else case cast_votes env ma h [1, 2, 3, 4] [] s of
              None \<Rightarrow> None
            | Some (winners, s') \<Rightarrow>
                if winners = [] then Some (False, [], s')
                else Some (True,
                  if ActiveProtocol (me_chain env) \<ge> CONSENSUS_FORK_PROTO then [PushWinners True winners]
                  else map (\<lambda>w. RelayInv (Winner_GetHash (me_Hash env) w)) winners,
                  s'\<lparr>nLastBlockHeight := h\<rparr>))"

section \<open>Payees of the next block\<close>

text \<open>\<open>current\<close> is the payee of the masternode that the manager picks if no votes are known.\<close>

fun fill_payees ::
  "mn_env \<Rightarrow> CMasternodePayments \<Rightarrow> (nat \<Rightarrow> script option) \<Rightarrow> int \<Rightarrow> camount \<Rightarrow> nat list \<Rightarrow> CTxOut list \<Rightarrow> camount \<Rightarrow>
   CTxOut list \<times> camount" where
  "fill_payees env s current h block_value [] outs paid = (outs, paid)"
| "fill_payees env s current h block_value (l # ls) outs paid =
     (case (case GetBlockPayee s h l of Some p \<Rightarrow> Some p | None \<Rightarrow> current l) of
        None \<Rightarrow> fill_payees env s current h block_value ls outs paid
      | Some p \<Rightarrow>
          let payment = GetMasternodePayment (ActiveProtocol (me_chain env)) l block_value in
          if payment = 0 then fill_payees env s current h block_value ls outs paid
          else fill_payees env s current h block_value ls
                 (outs @ [\<lparr>nValue = payment, scriptPubKey = p\<rparr>]) (paid + payment))"

definition FillBlockPayee ::
  "mn_env \<Rightarrow> CMasternodePayments \<Rightarrow> (nat \<Rightarrow> script option) \<Rightarrow> CTransaction \<Rightarrow> camount \<Rightarrow> CTransaction \<times> camount" where
  "FillBlockPayee env s current txNew block_value =
     (case Tip (me_chain env) of
        None \<Rightarrow> (txNew, 0)
      | Some tip \<Rightarrow>
          (case fill_payees env s current (int (bi_nHeight (me_store env ! tip)) + 1) block_value [1, 2, 3, 4] (vout txNew) 0 of
             (outs, paid) \<Rightarrow> (txNew\<lparr>vout := outs\<rparr>, paid)))"

section \<open>Old votes\<close>

definition CleanPaymentList :: "mn_env \<Rightarrow> CMasternodePayments \<Rightarrow> mn_effect list \<times> CMasternodePayments" where
  "CleanPaymentList env s =
     (case Tip (me_chain env) of
        None \<Rightarrow> ([], s)
      | Some tip \<Rightarrow>
          let tipHeight = int (bi_nHeight (me_store env ! tip));
              nLimit = max (times_5_4 (me_Size env)) 1000;
              old = filter (\<lambda>e. tipHeight - win_nBlockHeight (snd e) > nLimit) (mapMasternodePayeeVotes s)
          in (map (\<lambda>e. ForgetSeen (fst e)) old,
              s\<lparr>mapMasternodePayeeVotes := filter (\<lambda>e. \<not> tipHeight - win_nBlockHeight (snd e) > nLimit) (mapMasternodePayeeVotes s),
                mapMasternodeBlocks := filter (\<lambda>b. \<not> list_ex (\<lambda>e. win_nBlockHeight (snd e) = fst b) old) (mapMasternodeBlocks s)\<rparr>))"

end
