(* ===== verification/Base58_Props.thy ===== *)
theory Base58_Props
  imports Base58
begin

text \<open>The strings that base58 accepts, exactly, and the round trip of addresses.\<close>

section \<open>Digits\<close>

definition digits_ok :: "int \<Rightarrow> int list \<Rightarrow> bool" where
  "digits_ok B ds \<longleftrightarrow> list_all (\<lambda>d. 0 \<le> d \<and> d < B) ds"

fun dval :: "int \<Rightarrow> int list \<Rightarrow> int" where
  "dval B [] = 0"
| "dval B (d # ds) = d + B * dval B ds"

definition horner :: "int \<Rightarrow> int list \<Rightarrow> int \<Rightarrow> int" where
  "horner k cs a = foldl (\<lambda>a c. a * k + c) a cs"

lemma horner_simps [simp]: "horner k [] a = a" "horner k (c # cs) a = horner k cs (a * k + c)"
  by (simp_all add: horner_def)

lemma dval_range: "digits_ok B ds \<Longrightarrow> 0 \<le> dval B ds \<and> dval B ds < B ^ length ds"
proof (induction ds)
  case (Cons d ds)
  then have d: "0 \<le> d" "d < B" "0 \<le> dval B ds" "dval B ds + 1 \<le> B ^ length ds" by (auto simp: digits_ok_def)
  then have "B * (dval B ds + 1) \<le> B * B ^ length ds" by (intro mult_left_mono) auto
  then show ?case using d by (simp add: distrib_left)
qed (simp add: digits_ok_def)

lemma dval_append: "dval B (xs @ ys) = dval B xs + B ^ length xs * dval B ys"
  by (induction xs) (simp_all add: algebra_simps)

lemma horner_dval: "horner k cs a = a * k ^ length cs + dval k (rev cs)"
  by (induction cs arbitrary: a) (simp_all add: dval_append algebra_simps)

lemma dval_replicate [simp]: "dval B (replicate n 0) = 0"
  by (induction n) simp_all

lemma mul_add_spec:
  assumes "digits_ok B ds" "0 < B" "0 \<le> k" "0 \<le> c" "mul_add k B c ds = (ds', c')"
  shows "length ds' = length ds \<and> digits_ok B ds' \<and> 0 \<le> c' \<and> dval B ds' + B ^ length ds * c' = k * dval B ds + c"
  using assms
proof (induction ds arbitrary: c ds' c')
  case (Cons d ds)
  obtain es e where e: "mul_add k B ((c + k * d) div B) ds = (es, e)" by fastforce
  have r: "ds' = (c + k * d) mod B # es" "c' = e" using Cons.prems(5) e by (auto simp: Let_def)
  have "0 \<le> (c + k * d) div B" using Cons.prems by (intro pos_imp_zdiv_nonneg_iff [THEN iffD2]) (auto simp: digits_ok_def)
  note IH = Cons.IH [OF _ Cons.prems(2,3) this e]
  have "dval B ds' + B ^ length (d # ds) * c' = (c + k * d) mod B + B * (dval B es + B ^ length ds * e)"
    by (simp add: r algebra_simps)
  also have "\<dots> = (c + k * d) mod B + B * (k * dval B ds + (c + k * d) div B)"
    using IH Cons.prems(1) by (simp add: digits_ok_def)
  also have "\<dots> = k * dval B (d # ds) + c" by (simp add: algebra_simps)
  finally show ?case using IH Cons.prems(1,2) r by (simp add: digits_ok_def)
qed simp

lemma push_digits_spec:
  assumes "digits_ok B ds" "0 < B" "0 < k" "digits_ok k cs" "(dval B ds + 1) * k ^ length cs \<le> B ^ length ds"
  shows "\<exists>ds'. push_digits k B cs ds = Some ds' \<and> digits_ok B ds' \<and> length ds' = length ds \<and>
    dval B ds' = horner k cs (dval B ds)"
  using assms
proof (induction cs arbitrary: ds)
  case (Cons c cs)
  obtain es e where e: "mul_add k B c ds = (es, e)" by fastforce
  have c: "0 \<le> c" "c < k" "digits_ok k cs" using Cons.prems(4) by (auto simp: digits_ok_def)
  note m = mul_add_spec [OF Cons.prems(1,2) _ c(1) e]
  have v: "0 \<le> dval B ds" using dval_range [OF Cons.prems(1)] by simp
  have "k * dval B ds + c < (dval B ds + 1) * k" using c by (simp add: algebra_simps)
  also have "\<dots> \<le> (dval B ds + 1) * k ^ length (c # cs)" using v Cons.prems(3) by (intro mult_left_mono) auto
  finally have "k * dval B ds + c < B ^ length ds" using Cons.prems(5) by simp
  moreover have "B ^ length ds \<le> B ^ length ds * e" if "0 < e" using that Cons.prems(2) by simp
  moreover have "0 \<le> dval B es" using m dval_range Cons.prems(3) by auto
  ultimately have e0: "e = 0" using m Cons.prems(3) by force
  have "(k * dval B ds + c + 1) * k ^ length cs \<le> ((dval B ds + 1) * k) * k ^ length cs"
    using c Cons.prems(3) by (intro mult_right_mono) (auto simp: algebra_simps)
  then have b: "(dval B es + 1) * k ^ length cs \<le> B ^ length es"
    using m e0 Cons.prems(3,5) by (simp add: algebra_simps)
  have "dval B es = dval B ds * k + c" using m e0 Cons.prems(3) by (simp add: mult.commute)
  then show ?case using Cons.IH [OF _ Cons.prems(2,3) c(3) b] m e e0 Cons.prems(3) by simp
qed simp

section \<open>Leading zeros\<close>

definition strip :: "int list \<Rightarrow> int list" where
  "strip ds = rev (dropWhile (\<lambda>d. d = 0) (rev ds))"

lemma dropWhile_snoc: "dropWhile P (xs @ [x]) = (if dropWhile P xs = [] then if P x then [] else [x] else dropWhile P xs @ [x])"
  by (induction xs) auto

lemma strip_simps: "strip [] = []" "strip (d # ds) = (if strip ds = [] \<and> d = 0 then [] else d # strip ds)"
  by (auto simp: strip_def dropWhile_snoc)

lemma strip_unique:
  assumes "digits_ok B ds" "digits_ok B es" "0 < B" "dval B ds = dval B es"
  shows "strip ds = strip es"
  using assms
proof (induction ds arbitrary: es)
  case Nil
  then have "dval B es = 0" by simp
  with Nil(2,3) have "strip es = []"
  proof (induction es)
    case (Cons e es)
    then show ?case using dval_range [of B es]
      by (auto simp: digits_ok_def strip_simps add_nonneg_eq_0_iff)
  qed (simp add: strip_simps)
  then show ?case by (simp add: strip_simps)
next
  case (Cons d ds)
  show ?case
  proof (cases es)
    case Nil
    have "dval B (d # ds) = 0" using Cons.prems(4) Nil by simp
    then have "d = 0" "dval B ds = dval B []"
      using Cons.prems(1,3) dval_range [of B ds] by (auto simp: digits_ok_def add_nonneg_eq_0_iff)
    then show ?thesis using Cons.IH [of "[]"] Cons.prems Nil by (simp add: strip_simps digits_ok_def)
  next
    case (Cons e es')
    have "d = e" using arg_cong [OF Cons.prems(4), of "\<lambda>x. x mod B"] Cons.prems(1,2) Cons by (simp add: digits_ok_def)
    then show ?thesis using Cons.IH [of es'] Cons.prems Cons by (simp add: strip_simps digits_ok_def)
  qed
qed

definition no_zero :: "int list \<Rightarrow> bool" where
  "no_zero ds \<longleftrightarrow> (case ds of [] \<Rightarrow> True | d # _ \<Rightarrow> d \<noteq> 0)"

lemma dval_strip: "dval B (rev (dropWhile (\<lambda>d. d = 0) (rev b))) = dval B b"
proof -
  let ?ds = "dropWhile (\<lambda>d. d = 0) (rev b)"
  have "takeWhile (\<lambda>d. d = 0) (rev b) = replicate (length (takeWhile (\<lambda>d. d = 0) (rev b))) 0"
    by (intro replicate_eqI) (auto dest: set_takeWhileD)
  then obtain n where "rev b = replicate n 0 @ ?ds" using takeWhile_dropWhile_id [of "\<lambda>d. d = 0" "rev b"] by metis
  then have "b = rev ?ds @ replicate n 0" by (metis rev_append rev_replicate rev_rev_ident)
  then show ?thesis using dval_append [of B "rev ?ds" "replicate n 0"] by simp
qed

lemma no_zero_dropWhile: "no_zero (dropWhile (\<lambda>d. d = 0) ds)"
  by (induction ds) (auto simp: no_zero_def)

lemma no_zero_id: "no_zero ds \<Longrightarrow> dropWhile (\<lambda>d. d = 0) ds = ds"
  by (cases ds) (simp_all add: no_zero_def)

lemma push_zeros:
  assumes "0 < B" "0 < k" "digits_ok k cs" "k ^ length cs \<le> B ^ n"
  obtains b where "push_digits k B cs (replicate n 0) = Some b" "digits_ok B b" "dval B b = dval k (rev cs)"
  using push_digits_spec [of B "replicate n 0" k cs] assms by (auto simp: digits_ok_def horner_dval list_all_iff)

lemma leading_digits:
  assumes "digits_ok B b" "digits_ok B ds" "0 < B" "no_zero ds" "dval B b = dval B (rev ds)"
  shows "dropWhile (\<lambda>d. d = 0) (rev b) = ds"
proof -
  have "strip b = strip (rev ds)" using assms by (intro strip_unique) (auto simp: digits_ok_def)
  then show ?thesis using no_zero_id [OF assms(4)] by (simp add: strip_def)
qed

lemma power_scale:
  fixes a b :: int
  assumes "1 \<le> a" "1 \<le> b" "a ^ q \<le> b ^ p" "0 < q"
  shows "a ^ n \<le> b ^ (n * p div q + 1)"
proof (rule power_le_imp_le_base)
  have "p * n \<le> q * (n * p div q + 1)"
    using dividend_less_times_div [OF assms(4), of "n * p"] by (simp add: mult.commute [of p n])
  then have le: "b ^ (p * n) \<le> b ^ (q * (n * p div q + 1))" using assms(2) by (rule power_increasing)
  have "(a ^ q) ^ n \<le> (b ^ p) ^ n" using assms(1,3) by (intro power_mono) auto
  then have "a ^ (q * n) \<le> b ^ (q * (n * p div q + 1))" using le by (simp only: power_mult [symmetric]) 
  then have "(a ^ n) ^ q \<le> (b ^ (n * p div q + 1)) ^ q"
    by (simp only: power_mult [symmetric] mult.commute)
  then show "(a ^ n) ^ Suc (q - 1) \<le> (b ^ (n * p div q + 1)) ^ Suc (q - 1)" using assms(4) by simp
  show "0 \<le> b ^ (n * p div q + 1)" using assms(2) by simp
qed

lemma power_ratio: "(58::int) ^ 1000 \<le> 256 ^ 733"
proof -
  have e: "a ^ 1000 = (a ^ 125) ^ 8" "(a ^ 8) ^ 733 = (a ^ 733) ^ 8" for a :: int by (simp_all flip: power_mult)
  have "((58::int) ^ 125) ^ 8 \<le> (2 ^ 733) ^ 8" by (rule power_mono) simp_all
  then have "(58::int) ^ 1000 \<le> (2 ^ 8) ^ 733" by (simp only: e)
  moreover have "(2::int) ^ 8 = 256" by simp
  ultimately show ?thesis by (simp only:)
qed

lemma b256_size: "(58::int) ^ n \<le> 256 ^ (n * 733 div 1000 + 1)"
  by (rule power_scale [OF _ _ power_ratio]) simp_all

lemma b58_size: "(256::int) ^ n \<le> 58 ^ (n * 138 div 100 + 1)"
  by (rule power_scale) simp_all

section \<open>The alphabet\<close>

abbreviation (input) b58_char :: "int \<Rightarrow> char" where
  "b58_char d \<equiv> pszBase58 ! nat d"

lemma strchr_nth: "strchr xs c = Some i \<Longrightarrow> 0 \<le> i \<and> nat i < length xs \<and> xs ! nat i = c"
  by (induction xs arbitrary: i) (auto split: if_splits simp: nat_add_distrib)

lemma nth_strchr: "distinct xs \<Longrightarrow> i < length xs \<Longrightarrow> strchr xs (xs ! i) = Some (int i)"
  by (induction xs arbitrary: i) (auto simp: nth_Cons split: nat.splits)

lemma alphabet: "length pszBase58 = 58" "distinct pszBase58" "list_all (\<lambda>c. \<not> isspace c \<and> c \<noteq> CHR 0x00) pszBase58"
  by code_simp+

lemma b58_char:
  assumes "0 \<le> d" "d < 58"
  shows "strchr pszBase58 (b58_char d) = Some d" "\<not> isspace (b58_char d)" "b58_char d \<noteq> CHR 0x00"
    "b58_char d = CHR ''1'' \<longleftrightarrow> d = 0"
proof -
  have n: "nat d < length pszBase58" using assms alphabet(1) by simp
  show "strchr pszBase58 (b58_char d) = Some d" using nth_strchr [OF alphabet(2) n] assms(1) by simp
  show "\<not> isspace (b58_char d)" "b58_char d \<noteq> CHR 0x00" using alphabet(3) n by (auto simp: list_all_length)
  have "b58_char 0 = CHR ''1''" by (simp add: pszBase58_def)
  then show "b58_char d = CHR ''1'' \<longleftrightarrow> d = 0"
    using nth_eq_iff_index_eq [OF alphabet(2) n, of 0] alphabet(1) assms(1) by auto
qed

lemma decode_loop_digits:
  assumes "digits_ok 58 ds" "case rest of [] \<Rightarrow> True | c # _ \<Rightarrow> isspace c"
  shows "decode_loop (map b58_char ds @ rest) b = map_option (\<lambda>b'. Inr (b', rest)) (push_digits 58 256 ds b)"
  using assms(1)
proof (induction ds arbitrary: b)
  case Nil
  then show ?case using assms(2) by (cases rest) auto
next
  case (Cons d ds)
  then show ?case using b58_char [of d] by (auto simp: digits_ok_def split: prod.splits)
qed

lemma decode_loop_conv:
  "decode_loop cs b = Some (Inr (b', rest)) \<Longrightarrow>
    \<exists>ds. cs = map b58_char ds @ rest \<and> digits_ok 58 ds \<and> (case rest of [] \<Rightarrow> True | c # _ \<Rightarrow> isspace c)"
proof (induction cs arbitrary: b)
  case (Cons c cs)
  show ?case
  proof (cases "isspace c")
    case True
    then show ?thesis using Cons.prems by (auto simp: digits_ok_def intro: exI [of _ "[]"])
  next
    case False
    then obtain d b1 where d: "strchr pszBase58 c = Some d" "decode_loop cs b1 = Some (Inr (b', rest))"
      using Cons.prems by (auto split: option.splits prod.splits if_splits)
    then obtain ds where ds: "cs = map b58_char ds @ rest" "digits_ok 58 ds"
      "case rest of [] \<Rightarrow> True | c # _ \<Rightarrow> isspace c" using Cons.IH by blast
    then show ?thesis using strchr_nth [OF d(1)] alphabet(1)
      by (intro exI [of _ "d # ds"]) (auto simp: digits_ok_def nat_less_iff)
  qed
qed (auto simp: digits_ok_def intro: exI [of _ "[]"])

section \<open>Strings and vectors\<close>

text \<open>The digits and the bytes of the same number, both without leading zeros.\<close>

definition same_number :: "int list \<Rightarrow> bytes \<Rightarrow> bool" where
  "same_number ds rest \<longleftrightarrow> digits_ok 58 ds \<and> no_zero ds \<and> no_zero (map uint rest) \<and>
     dval 58 (rev ds) = dval 256 (rev (map uint rest))"

definition b58_string :: "nat \<Rightarrow> int list \<Rightarrow> string" where
  "b58_string z ds = replicate z (CHR ''1'') @ map b58_char ds"

lemma bytes_digits: "digits_ok 256 (map uint (rest :: bytes))"
  using unsigned_less [where 'a = int and 'b = 8] by (simp add: digits_ok_def list_all_iff)

lemma split_zeros:
  obtains z rest where "v = replicate z (0 :: byte) @ rest" "no_zero (map uint rest)"
proof
  let ?z = "length (takeWhile (\<lambda>b. b = 0) v)" and ?r = "dropWhile (\<lambda>b. b = 0) v"
  have "takeWhile (\<lambda>b. b = 0) v = replicate ?z 0" by (intro replicate_eqI) (auto dest: set_takeWhileD)
  then show "v = replicate ?z 0 @ ?r" using takeWhile_dropWhile_id [of "\<lambda>b. b = 0" v] by metis
  show "no_zero (map uint ?r)" by (induction v) (auto simp: no_zero_def unsigned_eq_0_iff)
qed

lemma leading_zeros:
  assumes "no_zero (map uint rest)"
  shows "takeWhile (\<lambda>b. b = 0) (replicate z 0 @ rest) = replicate z 0" "dropWhile (\<lambda>b. b = 0) (replicate z 0 @ rest) = rest"
proof -
  have r: "takeWhile (\<lambda>b. b = 0) rest = []" "dropWhile (\<lambda>b. b = 0) rest = rest"
    using assms by (cases rest; simp add: no_zero_def unsigned_eq_0_iff)+
  show "takeWhile (\<lambda>b. b = 0) (replicate z 0 @ rest) = replicate z 0"
    "dropWhile (\<lambda>b. b = 0) (replicate z 0 @ rest) = rest"
    using r by (induction z) simp_all
qed

lemma leading_ones:
  assumes "digits_ok 58 ds" "no_zero ds" "case rest of [] \<Rightarrow> True | c # _ \<Rightarrow> isspace c"
  shows "takeWhile (\<lambda>c. c = CHR ''1'') (b58_string z ds @ rest) = replicate z (CHR ''1'')"
    "dropWhile (\<lambda>c. c = CHR ''1'') (b58_string z ds @ rest) = map b58_char ds @ rest"
proof -
  have r: "takeWhile (\<lambda>c. c = CHR ''1'') (map b58_char ds @ rest) = []"
    "dropWhile (\<lambda>c. c = CHR ''1'') (map b58_char ds @ rest) = map b58_char ds @ rest"
    using assms b58_char(4) [of "hd ds"]
    by (cases ds; cases rest; auto simp: no_zero_def digits_ok_def isspace_def)+
  show "takeWhile (\<lambda>c. c = CHR ''1'') (b58_string z ds @ rest) = replicate z (CHR ''1'')"
    "dropWhile (\<lambda>c. c = CHR ''1'') (b58_string z ds @ rest) = map b58_char ds @ rest"
    using r by (induction z) (simp_all add: b58_string_def)
qed

lemma encode_spec:
  assumes "same_number ds rest"
  shows "EncodeBase58 (replicate z 0 @ rest) = Some (b58_string z ds)"
proof -
  note s = assms [unfolded same_number_def]
  obtain b where b: "push_digits 256 58 (map uint rest) (replicate (length rest * 138 div 100 + 1) 0) = Some b"
    "digits_ok 58 b" "dval 58 b = dval 256 (rev (map uint rest))"
    using push_zeros [of 58 256 "map uint rest" "length rest * 138 div 100 + 1"] b58_size [of "length rest"] bytes_digits
    by auto
  have "dropWhile (\<lambda>d. d = 0) (rev b) = ds" using leading_digits [OF b(2)] s b(3) by simp
  then show ?thesis using leading_zeros [of rest z] s b(1)
    by (simp add: EncodeBase58_def b58_string_def)
qed

lemma same_number_ex:
  assumes "no_zero (map uint rest)"
  obtains ds where "same_number ds rest"
proof -
  obtain b where b: "digits_ok 58 b" "dval 58 b = dval 256 (rev (map uint rest))"
    using push_zeros [of 58 256 "map uint rest" "length rest * 138 div 100 + 1"] b58_size [of "length rest"] bytes_digits
    by auto
  let ?ds = "dropWhile (\<lambda>d. d = 0) (rev b)"
  have "dval 58 (rev ?ds) = dval 58 b" by (rule dval_strip)
  moreover have "digits_ok 58 ?ds" using b(1) by (auto simp: digits_ok_def list_all_iff dest: set_dropWhileD)
  ultimately show ?thesis using that [of ?ds] assms b(2) no_zero_dropWhile [of "rev b"] by (simp add: same_number_def)
qed

lemma decode_loop_bad:
  assumes "digits_ok 58 ds" "\<not> isspace c" "strchr pszBase58 c = None"
  shows "decode_loop (map b58_char ds @ c # rest) b = map_option (\<lambda>_. Inl ()) (push_digits 58 256 ds b)"
  using assms(1)
proof (induction ds arbitrary: b)
  case Nil
  then show ?case using assms(2,3) by simp
next
  case (Cons d ds)
  then show ?case using b58_char [of d] by (auto simp: digits_ok_def split: prod.splits)
qed

lemma split_digits:
  obtains ds rest where "cs = map b58_char ds @ rest" "digits_ok 58 ds"
    "case rest of [] \<Rightarrow> True | c # _ \<Rightarrow> isspace c \<or> strchr pszBase58 c = None"
proof (induction cs arbitrary: thesis)
  case Nil
  show ?case using Nil [of "[]" "[]"] by (simp add: digits_ok_def)
next
  case (Cons c cs)
  obtain ds rest where IH: "cs = map b58_char ds @ rest" "digits_ok 58 ds"
    "case rest of [] \<Rightarrow> True | c # _ \<Rightarrow> isspace c \<or> strchr pszBase58 c = None" using Cons.IH by blast
  show ?case
  proof (cases "isspace c \<or> strchr pszBase58 c = None")
    case True
    then show ?thesis using Cons.prems [of "[]" "c # cs"] by (simp add: digits_ok_def)
  next
    case False
    then obtain d where d: "strchr pszBase58 c = Some d" by auto
    have "0 \<le> d" "d < 58" "b58_char d = c" using strchr_nth [OF d] alphabet(1) by auto
    then show ?thesis using Cons.prems [of "d # ds" rest] IH by (simp add: digits_ok_def)
  qed
qed

lemma push_fits:
  assumes "digits_ok 58 ds" "length ds \<le> n"
  obtains b where "push_digits 58 256 ds (replicate (n * 733 div 1000 + 1) 0) = Some b" "digits_ok 256 b"
    "dval 256 b = dval 58 (rev ds)"
proof -
  have "(58::int) ^ length ds \<le> 58 ^ n" using assms(2) by (intro power_increasing) auto
  then have le: "(58::int) ^ length ds \<le> 256 ^ (n * 733 div 1000 + 1)" using b256_size [of n] by (rule order_trans)
  show ?thesis by (rule push_zeros [OF _ _ assms(1) le]) (simp, simp, erule (2) that)
qed

lemma decode_spec:
  assumes "dropWhile isspace (c_str str) = b58_string z ds @ rest" "digits_ok 58 ds" "no_zero ds"
    and "case rest of [] \<Rightarrow> True | c # _ \<Rightarrow> isspace c"
  obtains r where "same_number ds r"
    "DecodeBase58 str = Some (if dropWhile isspace rest = [] then Some (replicate z 0 @ r) else None)"
proof -
  note ones = leading_ones [OF assms(2-4), of z]
  obtain b where b: "push_digits 58 256 ds (replicate (length (map b58_char ds @ rest) * 733 div 1000 + 1) 0) = Some b"
    "digits_ok 256 b" "dval 256 b = dval 58 (rev ds)" using push_fits [of ds "length (map b58_char ds @ rest)"] assms(2) by auto
  let ?d = "dropWhile (\<lambda>d. d = 0) (rev b)" let ?r = "map word_of_int ?d :: bytes"
  have "list_all (\<lambda>d. 0 \<le> d \<and> d < 256) ?d" using b(2) by (auto simp: digits_ok_def list_all_iff dest: set_dropWhileD)
  then have "map uint ?r = ?d" by (auto simp: list_all_iff o_def uint_word_of_int intro!: map_idI)
  then have "same_number ds ?r"
    using assms(2,3) b(3) dval_strip [of 256 b] no_zero_dropWhile [of "rev b"] by (simp add: same_number_def)
  moreover have "DecodeBase58 str = Some (if dropWhile isspace rest = [] then Some (replicate z 0 @ ?r) else None)"
    using assms(1) ones b(1) decode_loop_digits [OF assms(2,4)] by (simp add: DecodeBase58_def)
  ultimately show ?thesis by (rule that)
qed

lemma split_ones:
  obtains z s where "psz = replicate z (CHR ''1'') @ s" "s = dropWhile (\<lambda>c. c = CHR ''1'') psz"
    "z = length (takeWhile (\<lambda>c. c = CHR ''1'') psz)"
proof -
  have "takeWhile (\<lambda>c. c = CHR ''1'') psz = replicate (length (takeWhile (\<lambda>c. c = CHR ''1'') psz)) (CHR ''1'')"
    by (intro replicate_eqI) (auto dest: set_takeWhileD)
  then show ?thesis using takeWhile_dropWhile_id [of "\<lambda>c. c = CHR ''1''" psz] that by metis
qed

lemma decode_total: "DecodeBase58 str \<noteq> None"
proof -
  let ?psz = "dropWhile (\<lambda>c. c = CHR ''1'') (dropWhile isspace (c_str str))"
  obtain ds rest where s: "?psz = map b58_char ds @ rest" "digits_ok 58 ds"
    "case rest of [] \<Rightarrow> True | c # _ \<Rightarrow> isspace c \<or> strchr pszBase58 c = None" by (rule split_digits)
  obtain b where b: "push_digits 58 256 ds (replicate (length ?psz * 733 div 1000 + 1) 0) = Some b"
    using push_fits [of ds "length ?psz"] s by auto
  have "decode_loop ?psz (replicate (length ?psz * 733 div 1000 + 1) 0) \<noteq> None"
  proof (cases "case rest of [] \<Rightarrow> True | c # _ \<Rightarrow> isspace c")
    case True
    then show ?thesis using decode_loop_digits [OF s(2) True] b s(1) by simp
  next
    case False
    then obtain c cs where "rest = c # cs" "\<not> isspace c" "strchr pszBase58 c = None" using s(3) by (cases rest) auto
    then show ?thesis using decode_loop_bad [OF s(2)] b s(1) by simp
  qed
  then show ?thesis by (auto simp: DecodeBase58_def Let_def split: option.splits sum.splits prod.splits)
qed

section \<open>Properties\<close>

lemma DecodeBase58_accepts:
  assumes "DecodeBase58 str = Some (Some v)"
  obtains ws e ws' where "c_str str = ws @ e @ ws'" "list_all isspace ws" "list_all isspace ws'" "EncodeBase58 v = Some e"
proof -
  let ?psz = "dropWhile isspace (c_str str)"
  obtain z s where s: "?psz = replicate z (CHR ''1'') @ s" "s = dropWhile (\<lambda>c. c = CHR ''1'') ?psz"
    "z = length (takeWhile (\<lambda>c. c = CHR ''1'') ?psz)" by (rule split_ones)
  obtain b rest where "decode_loop s (replicate (length s * 733 div 1000 + 1) 0) = Some (Inr (b, rest))"
    using assms s(2) [symmetric] by (auto simp: DecodeBase58_def Let_def split: option.splits sum.splits)
  then obtain ds where ds: "s = map b58_char ds @ rest" "digits_ok 58 ds" "case rest of [] \<Rightarrow> True | c # _ \<Rightarrow> isspace c"
    using decode_loop_conv by blast
  have "b58_char d \<noteq> CHR ''1''" if "ds = d # ds'" for d ds'
  proof -
    have "s = b58_char d # map b58_char ds' @ rest" using ds(1) that by simp
    then have "hd s = b58_char d" "s \<noteq> []" by simp_all
    then show ?thesis using hd_dropWhile [of "\<lambda>c. c = CHR ''1''" ?psz] unfolding s(2) [symmetric] by metis
  qed
  then have nz: "no_zero ds" using b58_char(4) ds(2) by (cases ds) (auto simp: no_zero_def digits_ok_def)
  have psz: "?psz = b58_string z ds @ rest" using s(1) ds(1) by (simp add: b58_string_def)
  obtain r where r: "same_number ds r"
    "DecodeBase58 str = Some (if dropWhile isspace rest = [] then Some (replicate z 0 @ r) else None)"
    by (rule decode_spec [OF psz ds(2) nz ds(3)])
  then have "list_all isspace rest" "v = replicate z 0 @ r"
    using assms by (auto simp: list_all_iff dropWhile_eq_Nil_conv split: if_splits)
  then show ?thesis using that [of "takeWhile isspace (c_str str)" "b58_string z ds" rest] encode_spec [OF r(1), of z] psz
    by (metis (no_types, lifting) list_all_iff set_takeWhileD takeWhile_dropWhile_id)
qed

lemma b58_string_chars: "digits_ok 58 ds \<Longrightarrow> c \<in> set (b58_string z ds) \<Longrightarrow> \<not> isspace c \<and> c \<noteq> CHR 0x00"
  using b58_char by (auto simp: b58_string_def digits_ok_def list_all_iff isspace_def)

lemma DecodeBase58_complete:
  assumes "c_str str = ws @ e @ ws'" "list_all isspace ws" "list_all isspace ws'" "EncodeBase58 v = Some e"
  shows "DecodeBase58 str = Some (Some v)"
proof -
  obtain z rest where v: "v = replicate z 0 @ rest" "no_zero (map uint rest)" by (rule split_zeros)
  obtain ds where ds: "same_number ds rest" by (rule same_number_ex [OF v(2)])
  then have e: "e = b58_string z ds" using encode_spec assms(4) v(1) by simp
  note n = ds [unfolded same_number_def]
  let ?rest = "if e = [] then [] else ws'"
  have "dropWhile isspace (c_str str) = b58_string z ds @ ?rest"
  proof (cases e)
    case Nil
    then show ?thesis using assms(1-3) e dropWhile_eq_Nil_conv [of isspace "ws @ ws'"] by (auto simp: list_all_iff)
  next
    case (Cons c cs)
    then have "\<not> isspace c" using b58_string_chars [of ds c z] n e by simp
    then have "dropWhile isspace (e @ ws') = e @ ws'" using Cons by simp
    then show ?thesis using assms(1,2) e [symmetric] Cons dropWhile_append2 [of ws isspace "e @ ws'"] by (simp add: list_all_iff)
  qed
  moreover have "case ?rest of [] \<Rightarrow> True | c # _ \<Rightarrow> isspace c" using assms(3) by (cases ws') auto
  ultimately obtain r where r: "same_number ds r"
    "DecodeBase58 str = Some (if dropWhile isspace ?rest = [] then Some (replicate z 0 @ r) else None)"
    using decode_spec n by blast
  have "map uint r = map uint rest"
    using leading_digits [of 256 "rev (map uint r)" "map uint rest"] r(1) n bytes_digits [of r] bytes_digits [of rest]
      no_zero_id [of "map uint r"] by (simp add: same_number_def digits_ok_def)
  then have "map (word_of_int :: int \<Rightarrow> byte) (map uint r) = map word_of_int (map uint rest)" by (rule arg_cong)
  then have "r = rest" by (simp add: o_def)
  moreover have "dropWhile isspace ?rest = []" using assms(3) by (simp add: dropWhile_eq_Nil_conv list_all_iff)
  ultimately show ?thesis using r(2) v(1) by simp
qed

text \<open>C26: the decoder never fails its assertions, and it accepts exactly the encodings, each with any white space
  around it: no vector has two base58 strings.\<close>

theorem DecodeBase58_iff:
  "DecodeBase58 str \<noteq> None \<and>
    (DecodeBase58 str = Some (Some v) \<longleftrightarrow>
      (\<exists>ws e ws'. c_str str = ws @ e @ ws' \<and> list_all isspace ws \<and> list_all isspace ws' \<and> EncodeBase58 v = Some e))"
proof (intro conjI iffI)
  show "DecodeBase58 str \<noteq> None" by (rule decode_total)
next
  assume "DecodeBase58 str = Some (Some v)"
  then show "\<exists>ws e ws'. c_str str = ws @ e @ ws' \<and> list_all isspace ws \<and> list_all isspace ws' \<and> EncodeBase58 v = Some e"
    by (rule DecodeBase58_accepts) blast
next
  assume "\<exists>ws e ws'. c_str str = ws @ e @ ws' \<and> list_all isspace ws \<and> list_all isspace ws' \<and> EncodeBase58 v = Some e"
  then show "DecodeBase58 str = Some (Some v)" using DecodeBase58_complete by metis
qed

lemma encode_exists:
  obtains e where "EncodeBase58 v = Some e" "c_str e = e"
proof -
  obtain z rest where v: "v = replicate z 0 @ rest" "no_zero (map uint rest)" by (rule split_zeros)
  obtain ds where ds: "same_number ds rest" by (rule same_number_ex [OF v(2)])
  have "c_str (b58_string z ds) = b58_string z ds"
    using b58_string_chars [of ds _ z] ds by (auto simp: c_str_def same_number_def takeWhile_eq_all_conv)
  then show ?thesis using that [of "b58_string z ds"] encode_spec [OF ds] v(1) by simp
qed

lemma encode_decode: "EncodeBase58 v = Some e \<Longrightarrow> DecodeBase58 e = Some (Some v)"
  using encode_exists [of v] DecodeBase58_complete [of e "[]" e "[]" v] by auto

lemma length_checksum [simp]: "length (checksum Hash v) = 4"
  by (simp add: checksum_def WRITEDATA_def)

lemma check_roundtrip:
  obtains s where "EncodeBase58Check Hash v = Some s" "DecodeBase58Check Hash s = Some (Some v)"
proof -
  obtain s where "EncodeBase58 (v @ checksum Hash v) = Some s" by (rule encode_exists)
  then show ?thesis using that encode_decode by (simp add: EncodeBase58Check_def DecodeBase58Check_def)
qed

lemma data_roundtrip:
  obtains s where "Data_ToString Hash d = Some s" "SetString Hash s (length (vchVersion d)) = Some (True, d)"
proof -
  obtain s where "EncodeBase58Check Hash (vchVersion d @ vchData d) = Some s"
    "DecodeBase58Check Hash s = Some (Some (vchVersion d @ vchData d))" by (rule check_roundtrip)
  then show ?thesis using that by (simp add: Data_ToString_def SetString_def)
qed

text \<open>The address printed for a destination reads back as a valid address of the same destination.\<close>

theorem address_roundtrip:
  assumes "length (PUBKEY_ADDRESS P) = 1" "length (SCRIPT_ADDRESS P) = 1" "PUBKEY_ADDRESS P \<noteq> SCRIPT_ADDRESS P"
    and "case dest of CNoDestination \<Rightarrow> False | CKeyID i \<Rightarrow> length i = 20 | CScriptID i \<Rightarrow> length i = 20"
  shows "\<exists>s d. Data_ToString Hash (snd (Address_Set P dest)) = Some s \<and> SetString Hash s 1 = Some (True, d) \<and>
    Address_IsValid P d \<and> Address_Get P d = dest"
proof -
  obtain s where "Data_ToString Hash (snd (Address_Set P dest)) = Some s"
    "SetString Hash s (length (vchVersion (snd (Address_Set P dest)))) = Some (True, snd (Address_Set P dest))"
    by (rule data_roundtrip)
  then show ?thesis using assms by (cases dest) (auto simp: SetData_def Address_IsValid_def Address_Get_def)
qed

theorem address_roundtrip_witness:
  "\<exists>s d. Data_ToString (\<lambda>_. 5) (snd (Address_Set mainPrefixes (CKeyID (replicate 20 7)))) = Some s \<and>
    SetString (\<lambda>_. 5) s 1 = Some (True, d) \<and> Address_IsValid mainPrefixes d \<and>
    Address_Get mainPrefixes d = CKeyID (replicate 20 7)"
  by (rule address_roundtrip) (simp_all add: mainPrefixes_def)

text \<open>The same for secret keys.\<close>

lemma secret_roundtrip:
  assumes "length (SECRET_KEY P) = 1" "length key = 32"
  shows "\<exists>s d. Data_ToString Hash (Secret_SetKey P key fc) = Some s \<and> Secret_SetString P Hash s = Some (True, d) \<and>
    Secret_GetKey d = Some (key, fc)"
proof -
  obtain s where "Data_ToString Hash (Secret_SetKey P key fc) = Some s"
    "SetString Hash s (length (vchVersion (Secret_SetKey P key fc))) = Some (True, Secret_SetKey P key fc)"
    by (rule data_roundtrip)
  then show ?thesis using assms
    by (intro exI [of _ s] exI [of _ "Secret_SetKey P key fc"])
      (cases fc; simp add: Secret_SetKey_def SetData_def Secret_SetString_def Secret_IsValid_def Secret_GetKey_def nth_append)
qed

end
