(* ===== verification/Mn_Props.thy ===== *)
theory Mn_Props
  imports Mn_Votes Base58_Props
begin

text \<open>The votes behind the payees of a block, and what the check of a payment accepts.\<close>

section \<open>Maps\<close>

lemma emplace_keys:
  assumes "distinct (map fst m)" "emplace k v m = (b, m')"
  shows "distinct (map fst m')" "map_of m' = (if k \<in> dom (map_of m) then map_of m else (map_of m)(k \<mapsto> v))"
    "b \<longleftrightarrow> map_of m k = None"
proof -
  have f: "map fst (insort_key fst (k, v) xs) = insort k (map fst xs)" for xs :: "('a \<times> 'b) list"
    by (induction xs) auto
  have d: "distinct (map fst (insort_key fst (k, v) m))" if "map_of m k = None"
    using assms(1) that by (simp add: f distinct_insort map_of_eq_None_iff)
  moreover have "map_of (insort_key fst (k, v) m) = (map_of m)(k \<mapsto> v)" if n: "map_of m k = None"
  proof
    fix x
    have "map_of (insort_key fst (k, v) m) x = Some y \<longleftrightarrow> ((map_of m)(k \<mapsto> v)) x = Some y" for y
      using d [OF n] assms(1) n map_of_eq_None_iff [of m k]
      by (auto simp: map_of_eq_Some_iff set_insort_key dest: map_of_SomeD image_eqI [of k fst])
    then show "map_of (insort_key fst (k, v) m) x = ((map_of m)(k \<mapsto> v)) x" by (metis option.exhaust)
  qed
  ultimately show "distinct (map fst m')" "map_of m' = (if k \<in> dom (map_of m) then map_of m else (map_of m)(k \<mapsto> v))"
    "b \<longleftrightarrow> map_of m k = None"
    using assms by (auto simp: emplace_def split: option.splits)
qed

lemma filter_insort:
  "length (filter P (insort_key f x xs)) = length (filter P xs) + (if P x then 1 else 0)"
  by (induction xs) auto

lemma update_value_keys [simp]: "map fst (update_value k f m) = map fst m"
  by (induction m) (auto simp: update_value_def)

lemma update_value_map_of: "map_of (update_value k f m) x = (if x = k then map_option f (map_of m k) else map_of m x)"
  by (induction m) (auto simp: update_value_def)

section \<open>The votes of a payee\<close>

fun vec_votes :: "script \<Rightarrow> CMasternodePayee list \<Rightarrow> int" where
  "vec_votes sc [] = 0"
| "vec_votes sc (p # ps) = (if pay_script p = sc then nVotes p else vec_votes sc ps)"

definition counted_votes :: "CMasternodePayments \<Rightarrow> int \<Rightarrow> script \<Rightarrow> int" where
  "counted_votes s h sc = (case map_of (mapMasternodeBlocks s) h of None \<Rightarrow> 0 | Some b \<Rightarrow> vec_votes sc (vecPayments b))"

definition recorded :: "CMasternodePayments \<Rightarrow> int \<Rightarrow> script \<Rightarrow> int" where
  "recorded s h sc = int (length (filter (\<lambda>e. win_nBlockHeight (snd e) = h \<and> payee (snd e) = sc) (mapMasternodePayeeVotes s)))"

definition block_ok :: "int \<times> CMasternodeBlockPayees \<Rightarrow> bool" where
  "block_ok e \<longleftrightarrow> bp_nBlockHeight (snd e) = fst e \<and> distinct (map pay_script (vecPayments (snd e)))"

definition votes_inv :: "CMasternodePayments \<Rightarrow> bool" where
  "votes_inv s \<longleftrightarrow>
     distinct (map fst (mapMasternodePayeeVotes s)) \<and> distinct (map fst (mapMasternodeBlocks s)) \<and>
     list_all block_ok (mapMasternodeBlocks s) \<and> (\<forall>h sc. counted_votes s h sc = recorded s h sc)"

lemma vec_votes_add: "vec_votes sc (add_payee l x k ps) = vec_votes sc ps + (if sc = x then k else 0)"
  by (induction ps) auto

lemma scripts_add: "set (map pay_script (add_payee l x k ps)) = insert x (set (map pay_script ps))"
  by (induction ps) auto

lemma distinct_add: "distinct (map pay_script ps) \<Longrightarrow> distinct (map pay_script (add_payee l x k ps))"
proof (induction ps)
  case (Cons p ps)
  then show ?case using scripts_add [of l x k ps] by auto
qed simp

lemma vec_votes_member: "distinct (map pay_script ps) \<Longrightarrow> p \<in> set ps \<Longrightarrow> vec_votes (pay_script p) ps = nVotes p"
  by (induction ps) (auto simp: image_iff)

lemma votes_inv_cong:
  "mapMasternodePayeeVotes s' = mapMasternodePayeeVotes s \<Longrightarrow> mapMasternodeBlocks s' = mapMasternodeBlocks s \<Longrightarrow>
    votes_inv s \<Longrightarrow> votes_inv s'"
  by (simp add: votes_inv_def counted_votes_def recorded_def)

lemma votes_inv_new: "votes_inv CMasternodePayments_new"
  by (simp add: votes_inv_def CMasternodePayments_new_def counted_votes_def recorded_def)

lemma add_winning_inv:
  assumes "votes_inv s" "AddWinningMasternode env w s = Some (b, s')"
  shows "votes_inv s'"
proof -
  obtain hash cache where g: "GetBlockHash (me_store env) (me_chain env) (mapCacheBlockHashes s) (win_nBlockHeight w - 100) = Some (hash, cache)"
    using assms(2) by (auto simp: AddWinningMasternode_def split: option.splits)
  obtain ins votes where v: "emplace (Winner_GetHash (me_Hash env) w) w (mapMasternodePayeeVotes s) = (ins, votes)" by fastforce
  let ?b0 = "\<lparr>bp_nBlockHeight = win_nBlockHeight w, vecPayments = []\<rparr>"
  obtain ins2 blocks where bl: "emplace (win_nBlockHeight w) ?b0 (mapMasternodeBlocks s) = (ins2, blocks)" by fastforce
  note inv = assms(1) [unfolded votes_inv_def]
  show ?thesis
  proof (cases "hash = None \<or> \<not> ins")
    case True
    then have "mapMasternodePayeeVotes s' = mapMasternodePayeeVotes s" "mapMasternodeBlocks s' = mapMasternodeBlocks s"
      using assms(2) g v by (auto simp: AddWinningMasternode_def split: option.splits)
    then show ?thesis using assms(1) by (rule votes_inv_cong)
  next
    case False
    let ?blocks = "update_value (win_nBlockHeight w) (AddPayee (payeeLevel w) (payee w) 1) blocks"
    have s': "mapMasternodePayeeVotes s' = votes" "mapMasternodeBlocks s' = ?blocks"
      using False assms(2) g v bl by (auto simp: AddWinningMasternode_def Let_def)
    note e1 = emplace_keys [OF conjunct1 [OF inv] v] and e2 = emplace_keys [OF conjunct1 [OF conjunct2 [OF inv]] bl]
    have vs: "votes = insort_key fst (Winner_GetHash (me_Hash env) w, w) (mapMasternodePayeeVotes s)"
      using v False by (auto simp: emplace_def split: option.splits)
    have rec: "recorded s' h sc = recorded s h sc + (if h = win_nBlockHeight w \<and> sc = payee w then 1 else 0)" for h sc
      by (simp add: recorded_def s' vs filter_insort)
    have old: "counted_votes s h sc = (case map_of blocks h of None \<Rightarrow> 0 | Some b \<Rightarrow> vec_votes sc (vecPayments b))" for h sc
      using e2(2) by (auto simp: counted_votes_def dom_def split: option.splits)
    have "map_of blocks (win_nBlockHeight w) \<noteq> None" using e2(2) by auto
    then have cnt: "counted_votes s' h sc = counted_votes s h sc + (if h = win_nBlockHeight w \<and> sc = payee w then 1 else 0)" for h sc
      unfolding old by (auto simp: counted_votes_def s' update_value_map_of AddPayee_def vec_votes_add split: option.splits)
    have "block_ok e" if "e \<in> set blocks" for e
    proof -
      have "map_of blocks (fst e) = Some (snd e)" using e2(1) that by simp
      then have "e \<in> set (mapMasternodeBlocks s) \<or> e = (win_nBlockHeight w, ?b0)"
        using e2(2) by (auto split: if_splits dest: map_of_SomeD) (metis map_of_SomeD prod.collapse)+
      then show ?thesis using inv by (auto simp: list_all_iff block_ok_def)
    qed
    then have "list_all block_ok ?blocks" by (auto simp: list_all_iff update_value_def block_ok_def AddPayee_def distinct_add)
    then show ?thesis using inv e1(1) e2(1) rec cnt by (simp add: votes_inv_def s')
  qed
qed

lemma can_vote_inv: "votes_inv s \<Longrightarrow> CanVote out h l s = (b, s') \<Longrightarrow> votes_inv s'"
  by (rule votes_inv_cong) (auto simp: CanVote_def Let_def split: option.splits if_splits)

lemma process_winner_inv:
  assumes "votes_inv s" "process_winner env tip slack pen chk w s = Some (b, w', effs, s')"
  shows "votes_inv s'"
  using assms by (auto simp: process_winner_def Let_def split: option.splits if_splits prod.splits bool.splits
      dest: can_vote_inv add_winning_inv)

lemma winners_loop_inv:
  "votes_inv s \<Longrightarrow> winners_loop env tip r ws winners effs s = Some (winners', effs', s') \<Longrightarrow> votes_inv s'"
proof (induction ws arbitrary: winners effs s)
  case (Cons w ws)
  obtain b w1 es s1 where p: "process_winner env tip 1 5 r w s = Some (b, w1, es, s1)"
    using Cons.prems(2) by (auto split: option.splits)
  show ?case using Cons.IH [OF process_winner_inv [OF Cons.prems(1) p]] Cons.prems(2) p by (auto split: if_splits)
qed simp

lemma message_inv:
  assumes "votes_inv s" "ProcessMessageMasternodePayments env v f msg s = Some (effs, s')"
  shows "votes_inv s'"
  using assms by (auto simp: ProcessMessageMasternodePayments_def process_mnw_def process_mnwp_def
      split: if_splits mn_message.splits option.splits dest: process_winner_inv winners_loop_inv)

lemma cast_votes_inv: "votes_inv s \<Longrightarrow> cast_votes env ma h ls winners s = Some (winners', s') \<Longrightarrow> votes_inv s'"
proof (induction ls arbitrary: winners s)
  case (Cons l ls)
  then show ?case by (auto simp: Let_def split: option.splits if_splits dest: add_winning_inv)
qed simp

lemma own_votes_inv:
  assumes "votes_inv s" "ProcessBlock env active h s = Some (b, effs, s')"
  shows "votes_inv s'"
proof (cases active)
  case None
  then show ?thesis using assms by (simp add: ProcessBlock_def)
next
  case ma: (Some ma)
  show ?thesis
  proof (cases "cast_votes env ma (h + 10) [1, 2, 3, 4] [] s")
    case None
    then have "s' = s" using assms(2) ma by (simp add: ProcessBlock_def Let_def split: if_splits)
    then show ?thesis using assms(1) by simp
  next
    case (Some r)
    obtain winners s1 where r: "r = (winners, s1)" by fastforce
    have "s' = s \<or> s' = s1 \<or> s' = s1\<lparr>nLastBlockHeight := h + 10\<rparr>"
      using assms(2) Some ma r by (simp add: ProcessBlock_def Let_def split: if_splits)
    then show ?thesis using assms(1) cast_votes_inv [OF assms(1) Some [unfolded r]]
      votes_inv_cong [of "s1\<lparr>nLastBlockHeight := h + 10\<rparr>" s1] by auto
  qed
qed

lemma map_of_filter_keys:
  "map_of (filter (\<lambda>b. P (fst b)) m) k = (if P k then map_of m k else None)"
  by (induction m) auto

lemma forget_inv:
  fixes old :: "int \<Rightarrow> bool"
  assumes "votes_inv s" "keep = (\<lambda>h. \<not> list_ex (\<lambda>e. win_nBlockHeight (snd e) = h \<and> old h) (mapMasternodePayeeVotes s))"
    and "mapMasternodePayeeVotes s' = filter (\<lambda>e. \<not> old (win_nBlockHeight (snd e))) (mapMasternodePayeeVotes s)"
    and "mapMasternodeBlocks s' = filter (\<lambda>b. keep (fst b)) (mapMasternodeBlocks s)"
  shows "votes_inv s'"
proof -
  note inv = assms(1) [unfolded votes_inv_def]
  have "counted_votes s' h sc = recorded s' h sc" for h sc
  proof -
    have c: "counted_votes s' h sc = (if keep h then counted_votes s h sc else 0)"
      by (simp add: counted_votes_def assms(4) map_of_filter_keys [where P = keep])
    have "filter (\<lambda>e. win_nBlockHeight (snd e) = h \<and> payee (snd e) = sc) (mapMasternodePayeeVotes s') =
        (if old h then [] else filter (\<lambda>e. win_nBlockHeight (snd e) = h \<and> payee (snd e) = sc) (mapMasternodePayeeVotes s))"
      by (auto simp: assms(3) filter_empty_conv intro!: filter_cong)
    then have r: "recorded s' h sc = (if old h then 0 else recorded s h sc)" by (simp add: recorded_def)
    have "recorded s h sc = 0" if "old h" "keep h"
      using that by (auto simp: recorded_def filter_empty_conv list_ex_iff assms(2))
    moreover have "keep h" if "\<not> old h" using that by (auto simp: list_ex_iff assms(2))
    ultimately show ?thesis using inv c r by auto
  qed
  then show ?thesis using inv assms(3,4) by (auto simp: votes_inv_def distinct_map_filter list_all_iff)
qed

lemma clean_inv:
  assumes "votes_inv s"
  shows "votes_inv (snd (CleanPaymentList env s))"
proof (cases "Tip (me_chain env)")
  case None
  then show ?thesis using assms by (simp add: CleanPaymentList_def)
next
  case (Some tip)
  let ?old = "\<lambda>h. int (bi_nHeight (me_store env ! tip)) - h > max (times_5_4 (me_Size env)) 1000"
  have k: "list_ex (\<lambda>e. win_nBlockHeight (snd e) = h) (filter (\<lambda>e. ?old (win_nBlockHeight (snd e))) m) =
      list_ex (\<lambda>e. win_nBlockHeight (snd e) = h \<and> ?old h) m" for h m
    by (induction m) auto
  show ?thesis
    by (rule forget_inv [OF assms refl, where old = ?old]) (simp_all only: CleanPaymentList_def Some Let_def option.case snd_conv k, simp_all)
qed

section \<open>Reachable states\<close>

inductive payments_reach :: "CMasternodePayments \<Rightarrow> bool" where
  start: "payments_reach CMasternodePayments_new"
| message: "payments_reach s \<Longrightarrow> ProcessMessageMasternodePayments env v f msg s = Some (effs, s') \<Longrightarrow> payments_reach s'"
| own_votes: "payments_reach s \<Longrightarrow> ProcessBlock env active h s = Some (b, effs, s') \<Longrightarrow> payments_reach s'"
| clean: "payments_reach s \<Longrightarrow> payments_reach (snd (CleanPaymentList env s))"
| clear: "payments_reach s \<Longrightarrow> payments_reach (Payments_Clear s)"

lemma reach_votes_inv: "payments_reach s \<Longrightarrow> votes_inv s"
proof (induction rule: payments_reach.induct)
  case (clear s)
  then show ?case by (simp add: votes_inv_def Payments_Clear_def counted_votes_def recorded_def)
qed (blast intro: votes_inv_new message_inv own_votes_inv clean_inv)+

text \<open>C24: in every state that messages, own votes and clean-ups can lead to, the number of votes kept for a payee
  of a block is the number of recorded votes for that script and height, whose keys are distinct; a payee with six
  signatures has six votes behind it.\<close>

theorem votes_are_recorded:
  assumes "payments_reach s" "map_of (mapMasternodeBlocks s) h = Some b" "p \<in> set (vecPayments b)"
  shows "bp_nBlockHeight b = h \<and> distinct (map fst (mapMasternodePayeeVotes s)) \<and>
    nVotes p = int (length (filter (\<lambda>e. win_nBlockHeight (snd e) = h \<and> payee (snd e) = pay_script p) (mapMasternodePayeeVotes s)))"
proof -
  have inv: "votes_inv s" using reach_votes_inv [OF assms(1)] .
  then have "block_ok (h, b)" using map_of_SomeD [OF assms(2)] by (auto simp: votes_inv_def list_all_iff)
  then have "bp_nBlockHeight b = h" "vec_votes (pay_script p) (vecPayments b) = nVotes p"
    using vec_votes_member assms(3) by (auto simp: block_ok_def)
  then show ?thesis using inv assms(2) by (auto simp: votes_inv_def counted_votes_def recorded_def split: option.splits)
qed

text \<open>A signed vote of a masternode of level 1 arrives at height 1.\<close>

definition demo_mn_chain :: block_store where
  "demo_mn_chain = [CBlockIndex_null\<lparr>phashBlock := Some 90, bi_nHeight := 0\<rparr>,
     CBlockIndex_null\<lparr>phashBlock := Some 91, pprev := Some 0, bi_nHeight := 1\<rparr>]"

definition demo_mn :: mn_env where
  "demo_mn = \<lparr>me_Params = mainParams, me_Prefixes = mainPrefixes, me_DevFeeAddress = (\<lambda>_. ''e''), me_Hash = (\<lambda>_. 7),
     me_Hash160 = id, me_store = demo_mn_chain, me_chain = [Some 0, Some 1], me_SporkDevFee = 0,
     me_Enforcement = True, me_IsSynced = True, me_IsBlockchainSynced = True, me_LiteMode = False,
     me_FindPayee = (\<lambda>_. Some 1), me_FindVin = (\<lambda>_. Some 70225), me_Rank = (\<lambda>_ _. 1), me_CountEnabled = (\<lambda>_. 20), me_Size = 20,
     me_SignatureValid = (\<lambda>w. vchSig w \<noteq> [])\<rparr>"

definition demo_winner :: CMasternodePaymentWinner where
  "demo_winner = \<lparr>vinMasternode = \<lparr>prevout = \<lparr>outpoint_hash = 3, outpoint_n = 1\<rparr>, scriptSig = [], nSequence = 0\<rparr>,
     win_nBlockHeight = 20, payee = [OP_DUP], vchSig = [1], payeeLevel = 0\<rparr>"

definition demo_payments :: CMasternodePayments where
  "demo_payments = snd (the (ProcessMessageMasternodePayments demo_mn 70225 False (Mnw demo_winner) CMasternodePayments_new))"

lemma demo_vote: "ProcessMessageMasternodePayments demo_mn 70225 False (Mnw demo_winner) CMasternodePayments_new \<noteq> None"
  by code_simp

lemma demo_payees:
  "map_option vecPayments (map_of (mapMasternodeBlocks demo_payments) 20) = Some [\<lparr>pay_script = [OP_DUP], mnlevel = 1, nVotes = 1\<rparr>]"
  by code_simp

lemma demo_payments_reach: "payments_reach demo_payments"
  using demo_vote message [OF start, of demo_mn 70225 False "Mnw demo_winner"]
  by (fastforce simp: demo_payments_def)

theorem votes_are_recorded_witness:
  "\<exists>b. map_of (mapMasternodeBlocks demo_payments) 20 = Some b \<and> bp_nBlockHeight b = 20 \<and>
    (1 :: int) = int (length (filter (\<lambda>e. win_nBlockHeight (snd e) = 20 \<and> payee (snd e) = [OP_DUP]) (mapMasternodePayeeVotes demo_payments)))"
proof -
  obtain b where b: "map_of (mapMasternodeBlocks demo_payments) 20 = Some b"
    "vecPayments b = [\<lparr>pay_script = [OP_DUP], mnlevel = 1, nVotes = 1\<rparr>]" using demo_payees by auto
  then show ?thesis
    using votes_are_recorded [OF demo_payments_reach b(1), of "\<lparr>pay_script = [OP_DUP], mnlevel = 1, nVotes = 1\<rparr>"] by simp
qed

section \<open>The check of a payment\<close>

abbreviation enough_votes :: "CMasternodePayee \<Rightarrow> bool" where
  "enough_votes p \<equiv> MNPAYMENTS_SIGNATURES_REQUIRED \<le> nVotes p"

definition paid_in :: "int \<Rightarrow> camount \<Rightarrow> CTxOut list \<Rightarrow> CMasternodePayee \<Rightarrow> bool" where
  "paid_in proto nReward outs p \<longleftrightarrow>
     list_ex (\<lambda>out. pay_script p = scriptPubKey out \<and> nValue out \<ge> GetMasternodePayment proto (mnlevel p) nReward) outs"

lemma signed_levels_keys:
  "fst ` set (signed_levels ps m) = fst ` set m \<union> mnlevel ` {p \<in> set ps. enough_votes p}"
proof (induction ps arbitrary: m)
  case (Cons p ps)
  obtain b m' where e: "emplace (mnlevel p) (nVotes p) m = (b, m')" by fastforce
  have "fst ` set m' = insert (mnlevel p) (fst ` set m)"
    using e by (auto simp: emplace_def set_insort_key image_iff split: option.splits dest!: map_of_SomeD) force
  moreover have "fst ` set (update_value k f m') = fst ` set m'" for k f
    using update_value_keys [of k f m'] by (metis set_map)
  ultimately show ?case using Cons.IH e by (auto simp: Let_def)
qed simp

lemma pays_levels_iff:
  "m \<noteq> [] \<Longrightarrow> pays_levels proto R outs ps m \<longleftrightarrow>
    (\<forall>l \<in> fst ` set m. \<exists>q \<in> set ps. enough_votes q \<and> mnlevel q = l \<and> paid_in proto R outs q)"
proof (induction ps arbitrary: m)
  case Nil
  then show ?case by (cases m) auto
next
  case (Cons p ps)
  show ?case
  proof (cases "enough_votes p \<and> paid_in proto R outs p")
    case False
    then have "pays_levels proto R outs (p # ps) m = pays_levels proto R outs ps m" by (auto simp: paid_in_def)
    then show ?thesis using Cons.IH [OF Cons.prems] False by auto
  next
    case True
    let ?m = "erase (mnlevel p) m"
    have k: "fst ` set ?m = fst ` set m - {mnlevel p}" by (auto simp: erase_def)
    have step: "pays_levels proto R outs (p # ps) m = (if ?m \<noteq> [] then pays_levels proto R outs ps ?m else True)"
      using True by (simp add: paid_in_def Let_def)
    show ?thesis
    proof (cases "?m = []")
      case True': True
      then have "fst ` set m \<subseteq> {mnlevel p}" using k by auto
      then show ?thesis using step True True' by auto
    next
      case False
      then show ?thesis using step Cons.IH [OF False] True unfolding k by auto
    qed
  qed
qed

text \<open>The reward that the shares are taken of, if the development fund is paid.\<close>

definition shared_reward :: "mn_env \<Rightarrow> CTransaction \<Rightarrow> CMasternodeBlockPayees \<Rightarrow> camount option" where
  "shared_reward env tx b =
     Option.bind (GetBlockValue (me_Params env) (me_store env) (me_chain env) (bp_nBlockHeight b - 1)) (\<lambda>v.
       if Chain_Height (me_chain env) > CONSENSUS_FORK_REWARD_UPDATE_BLOCK then
         Option.bind (GetDevFeeValue (me_Params env) (me_store env) (me_chain env) (bp_nBlockHeight b - 1)) (\<lambda>fund.
           if dev_fund_ok env fund tx = Some True then Some v else None)
       else if me_SporkDevFee env > 0 then
         (let fund = v * min (me_SporkDevFee env) 10 div 100 in
          if dev_fee_loop env fund (vout tx) CNoDestination = Some True then Some (v - fund) else None)
       else Some v)"

text \<open>A block payment is accepted exactly if no payee has enough signatures, or the fund is paid and on every level
  that has a payee with enough signatures one such payee gets at least the share of that level.\<close>

theorem payment_accepted_iff:
  "BlockPayees_IsTransactionValid env tx b = Some True \<longleftrightarrow>
     filter enough_votes (vecPayments b) = [] \<or>
     (case shared_reward env tx b of
        None \<Rightarrow> False
      | Some R \<Rightarrow> list_all (\<lambda>p. list_ex (\<lambda>q. mnlevel q = mnlevel p \<and> paid_in (ActiveProtocol (me_chain env)) R (vout tx) q)
                    (filter enough_votes (vecPayments b))) (filter enough_votes (vecPayments b)))"
proof (cases "signed_levels (vecPayments b) [] = []")
  case True
  then have "mnlevel ` {p \<in> set (vecPayments b). enough_votes p} = {}" using signed_levels_keys [of "vecPayments b" "[]"] by simp
  then have "filter enough_votes (vecPayments b) = []" by (auto simp: filter_empty_conv)
  then show ?thesis using True by (simp add: BlockPayees_IsTransactionValid_def)
next
  case False
  have k: "fst ` set (signed_levels (vecPayments b) []) = mnlevel ` {p \<in> set (vecPayments b). enough_votes p}"
    using signed_levels_keys [of "vecPayments b" "[]"] by simp
  then have ne: "filter enough_votes (vecPayments b) \<noteq> []" 
  proof -
    have "fst ` set (signed_levels (vecPayments b) []) \<noteq> {}" using False by simp
    then show ?thesis unfolding k by (auto simp: filter_empty_conv)
  qed
  have pays: "pays_levels proto R outs (vecPayments b) (signed_levels (vecPayments b) []) \<longleftrightarrow>
      list_all (\<lambda>p. list_ex (\<lambda>q. mnlevel q = mnlevel p \<and> paid_in proto R outs q) (filter enough_votes (vecPayments b)))
        (filter enough_votes (vecPayments b))" for proto R outs
    unfolding pays_levels_iff [OF False] k by (auto simp: list_all_iff list_ex_iff)
  show ?thesis
  proof (cases "GetBlockValue (me_Params env) (me_store env) (me_chain env) (bp_nBlockHeight b - 1)")
    case None
    then show ?thesis using False ne by (simp add: BlockPayees_IsTransactionValid_def shared_reward_def)
  next
    case (Some v)
    show ?thesis
    proof (cases "Chain_Height (me_chain env) > CONSENSUS_FORK_REWARD_UPDATE_BLOCK")
      case fork: True
      have "\<exists>fund. GetDevFeeValue (me_Params env) (me_store env) (me_chain env) (bp_nBlockHeight b - 1) = Some fund"
        using Some by (simp add: GetDevFeeValue_def)
      then obtain fund where "GetDevFeeValue (me_Params env) (me_store env) (me_chain env) (bp_nBlockHeight b - 1) = Some fund" ..
      then show ?thesis using False ne fork Some
        by (cases "dev_fund_ok env fund tx") (simp_all add: BlockPayees_IsTransactionValid_def shared_reward_def pays)
    next
      case fork: False
      show ?thesis
      proof (cases "dev_fee_loop env (v * min (me_SporkDevFee env) 10 div 100) (vout tx) CNoDestination")
        case None
        then show ?thesis using False ne fork Some
          by (simp add: BlockPayees_IsTransactionValid_def shared_reward_def pays Let_def)
      next
        case (Some ok)
        then show ?thesis using False ne fork \<open>GetBlockValue _ _ _ _ = Some v\<close>
          by (cases ok) (simp_all add: BlockPayees_IsTransactionValid_def shared_reward_def pays Let_def)
      qed
    qed
  qed
qed

section \<open>Flaws\<close>

text \<open>The two conditions on the development fund are joined by \<open>and\<close>: the right amount to any address passes.\<close>

lemma dev_fund_any_address:
  assumes "2 < length (vout tx)" "nValue (vout tx ! 2) = fund"
  shows "dev_fund_ok env fund tx = Some True"
proof -
  let ?dest = "case ExtractDestination (me_Hash160 env) (scriptPubKey (vout tx ! 2)) of None \<Rightarrow> CNoDestination | Some d \<Rightarrow> d"
  obtain s where "address_string env ?dest = Some s"
    using data_roundtrip [of "me_Hash env" "snd (Address_Set (me_Prefixes env) ?dest)"] unfolding address_string_def by metis
  then show ?thesis using assms by (simp add: dev_fund_ok_def Let_def)
qed

text \<open>
  A vote takes the place of the masternode it names before its signature is checked: after a forged vote the
  genuine one for the same height and level is refused.
\<close>

lemma forged_vote_blocks:
  assumes "me_FindPayee env (payee w) = Some l" "map_of (mapMasternodePayeeVotes s) (Winner_GetHash (me_Hash env) (w\<lparr>payeeLevel := l\<rparr>)) = None"
    and "Winner_IsValid env (w\<lparr>payeeLevel := l\<rparr>) = (True, effs)"
    and "tip - times_5_4 (me_CountEnabled env l) - slack \<le> win_nBlockHeight w" "win_nBlockHeight w \<le> tip + 20"
    and "fst (CanVote (prevout (vinMasternode w)) (win_nBlockHeight w) l s)" "\<not> me_SignatureValid env (w\<lparr>payeeLevel := l\<rparr>)"
  obtains effs' s' where "process_winner env tip slack penalty True w s = Some (False, w\<lparr>payeeLevel := l\<rparr>, effs', s')"
    "\<not> fst (CanVote (prevout (vinMasternode w)) (win_nBlockHeight w) l s')"
proof -
  obtain s1 where s1: "CanVote (prevout (vinMasternode w)) (win_nBlockHeight w) l s = (True, s1)"
    using assms(6) by (cases "CanVote (prevout (vinMasternode w)) (win_nBlockHeight w) l s") simp
  have "\<not> fst (CanVote (prevout (vinMasternode w)) (win_nBlockHeight w) l s1)"
  proof (cases "map_of (mapMasternodesLastVote s) (vote_key (prevout (vinMasternode w)) l)")
    case None
    have "map_of (insort_key fst (k, v) m) k = Some v" if "map_of m k = None" for k :: uint256 and v :: int and m
      using that by (induction m) (auto split: if_splits)
    then show ?thesis using s1 None by (auto simp: CanVote_def Let_def emplace_def)
  next
    case (Some v)
    then show ?thesis using s1 by (auto simp: CanVote_def Let_def update_value_map_of split: if_splits)
  qed
  then show ?thesis using that assms s1 by (simp add: process_winner_def Let_def)
qed

text \<open>The cache of block hashes is never cleared: after a reorganization it still answers for the old block.\<close>

lemma stale_block_hash:
  assumes "Tip C = Some tip" "0 < h" "h \<le> int (bi_nHeight (st ! tip))" "map_of cache h = Some old"
  shows "GetBlockHash st C cache h = Some (Some old, cache)"
  using assms by (simp add: GetBlockHash_def Let_def)

end
