(* ===== verification/Check_Block.thy ===== *)
theory Check_Block
  imports Mn_Payments Pow
begin

text \<open>
  The checks of a block (\<^verbatim>\<open>src/src/main.cpp\<close>): those without the chain (\<^verbatim>\<open>CheckBlockHeader\<close>,
  \<^verbatim>\<open>CheckBlock\<close>), those against its predecessor (\<^verbatim>\<open>ContextualCheckBlockHeader\<close>,
  \<^verbatim>\<open>ContextualCheckBlock\<close>), and the checkpoints (\<^verbatim>\<open>checkpoints.cpp\<close>). \<open>None\<close> is a failed
  assertion, an access outside a vector or the use of an uninitialised variable.
\<close>

section \<open>Environment\<close>

text \<open>
  What the checks read of the node: the parts of the environment of earlier theories, the hashes, the sporks and
  the locked inputs of SwiftX, the block index, the checkpoints in ascending order of heights, and the clock.
\<close>

record block_env =
  be_node :: node_env
  be_pow :: pow_params
  be_mn :: mn_env
  be_payments :: CMasternodePayments
  be_Hash :: "bytes \<Rightarrow> uint256"
  be_HashKeccak256 :: "bytes \<Rightarrow> uint256"
  be_HashPair :: "uint256 \<Rightarrow> uint256 \<Rightarrow> uint256"
  be_BlockFiltering :: bool
  be_LockedInputs :: "COutPoint \<rightharpoonup> uint256"
  be_mapBlockIndex :: "uint256 \<rightharpoonup> nat"
  be_HashGenesisBlock :: uint256
  be_CheckpointsEnabled :: bool
  be_mapCheckpoints :: "(int \<times> uint256) list"
  be_Time :: int

abbreviation be_chain :: "block_env \<Rightarrow> CChain" where "be_chain env \<equiv> me_chain (be_mn env)"
abbreviation be_store :: "block_env \<Rightarrow> block_store" where "be_store env \<equiv> me_store (be_mn env)"
abbreviation be_Params :: "block_env \<Rightarrow> CChainParams" where "be_Params env \<equiv> Params (be_node env)"
abbreviation Block_GetHash :: "block_env \<Rightarrow> 'a CBlockHeader_scheme \<Rightarrow> uint256" where
  "Block_GetHash env block \<equiv> Header_GetHash (be_HashKeccak256 env) block"

definition REJECT_OBSOLETE :: byte where "REJECT_OBSOLETE = 0x11"
definition REJECT_CHECKPOINT :: byte where "REJECT_CHECKPOINT = 0x43"

text \<open>The limits of the size and of the signature operations of a block, also for evaluation.\<close>

definition too_big :: "nat \<Rightarrow> bool" where "too_big n \<longleftrightarrow> n > MAX_BLOCK_SIZE"
definition too_many_sigops :: "nat \<Rightarrow> bool" where "too_many_sigops n \<longleftrightarrow> n > MAX_BLOCK_SIGOPS"

lemma limits_code [code]:
  "too_big n \<longleftrightarrow> int n > 2000000"
  "too_many_sigops n \<longleftrightarrow> int n > 40000"
  by (auto simp: too_big_def too_many_sigops_def MAX_BLOCK_SIGOPS_def MAX_BLOCK_SIZE_def)

section \<open>Checkpoints\<close>

definition Checkpoints_CheckBlock :: "block_env \<Rightarrow> int \<Rightarrow> uint256 \<Rightarrow> bool \<Rightarrow> bool" where
  "Checkpoints_CheckBlock env h hash fMatchesCheckpoint =
     (if \<not> be_CheckpointsEnabled env then True
      else case map_of (be_mapCheckpoints env) h of
        None \<Rightarrow> \<not> fMatchesCheckpoint
      | Some c \<Rightarrow> hash = c)"

text \<open>The last entry of an empty map does not exist.\<close>

definition GetTotalBlocksEstimate :: "block_env \<Rightarrow> int option" where
  "GetTotalBlocksEstimate env =
     (if \<not> be_CheckpointsEnabled env then Some 0
      else if be_mapCheckpoints env = [] then None else Some (fst (last (be_mapCheckpoints env))))"

fun last_checkpoint :: "(uint256 \<rightharpoonup> nat) \<Rightarrow> (int \<times> uint256) list \<Rightarrow> nat option" where
  "last_checkpoint m [] = None"
| "last_checkpoint m ((h, hash) # cs) = (case m hash of Some p \<Rightarrow> Some p | None \<Rightarrow> last_checkpoint m cs)"

definition GetLastCheckpoint :: "block_env \<Rightarrow> nat option" where
  "GetLastCheckpoint env =
     (if \<not> be_CheckpointsEnabled env then None else last_checkpoint (be_mapBlockIndex env) (rev (be_mapCheckpoints env)))"

section \<open>Checks without the chain\<close>

text \<open>No block has a later time than this.\<close>

definition FREEZE_TIME :: int where "FREEZE_TIME = 1646092800"

definition CheckBlockHeader ::
  "block_env \<Rightarrow> 'a CBlockHeader_scheme \<Rightarrow> CValidationState \<Rightarrow> bool \<Rightarrow> bool \<times> CValidationState" where
  "CheckBlockHeader env block st fCheckPOW =
     (if fCheckPOW \<and> \<not> CheckProofOfWork (be_pow env) (Block_GetHash env block) (nBits block)
      then (False, DoS st 50 REJECT_INVALID ''high-hash'' False)
      else if GetBlockTime block > FREEZE_TIME then (False, Invalid st REJECT_INVALID ''time-end'')
      else (True, st))"

text \<open>The rejected blocks with the time of rejection; an entry is not overwritten.\<close>

type_synonym rejected_blocks = "uint256 \<rightharpoonup> int"

definition reject_block :: "block_env \<Rightarrow> CBlock \<Rightarrow> rejected_blocks \<Rightarrow> rejected_blocks" where
  "reject_block env block rej =
     (case rej (Block_GetHash env block) of Some _ \<Rightarrow> rej | None \<Rightarrow> rej(Block_GetHash env block \<mapsto> be_Time env))"

definition lock_conflict :: "block_env \<Rightarrow> CTransaction \<Rightarrow> bool" where
  "lock_conflict env tx \<longleftrightarrow>
     \<not> IsCoinBase tx \<and>
     list_ex (\<lambda>txin. case be_LockedInputs env (prevout txin) of None \<Rightarrow> False | Some h \<Rightarrow> h \<noteq> GetHash (be_Hash env) tx) (vin tx)"

text \<open>The height the masternode payment is checked for; 0 if it is not.\<close>

definition payee_height :: "block_env \<Rightarrow> CBlock \<Rightarrow> int option" where
  "payee_height env block =
     (case Tip (be_chain env) of
        None \<Rightarrow> Some 0
      | Some tip \<Rightarrow>
          map_option (\<lambda>h.
              if h = hashPrevBlock block then int (bi_nHeight (be_store env ! tip)) + 1
              else case be_mapBlockIndex env (hashPrevBlock block) of
                     Some p \<Rightarrow> int (bi_nHeight (be_store env ! p)) + 1
                   | None \<Rightarrow> 0)
            (Index_GetBlockHash (be_store env ! tip)))"

fun check_transactions ::
  "node_env \<Rightarrow> int \<Rightarrow> CTransaction list \<Rightarrow> CValidationState \<Rightarrow> (bool \<times> CValidationState) option" where
  "check_transactions env t [] st = Some (True, st)"
| "check_transactions env t (tx # txs) st =
     (case CheckTransaction env tx st t of
        None \<Rightarrow> None
      | Some (True, st') \<Rightarrow> check_transactions env t txs st'
      | Some (False, st') \<Rightarrow> Some (False, st'))"

text \<open>The rules of the order of transactions in a proof-of-stake block. \<open>None\<close> is a coinbase without outputs.\<close>

definition stake_shape :: "CBlock \<Rightarrow> bool option" where
  "stake_shape block =
     (if \<not> IsProofOfStake block then Some True
      else if vout (vtx block ! 0) = [] then None
      else Some (CTxOut_IsEmpty (vout (vtx block ! 0) ! 0) \<and> length (vout (vtx block ! 0)) = 1 \<and>
                 IsCoinStake (vtx block ! 1) \<and> list_all (\<lambda>tx. \<not> IsCoinStake tx) (drop 2 (vtx block))))"

text \<open>
  The rest after the Merkle root. The parts that cannot be undone are the validation state and the
  rejected blocks.
\<close>

definition check_body ::
  "block_env \<Rightarrow> CBlock \<Rightarrow> CValidationState \<Rightarrow> rejected_blocks \<Rightarrow> (bool \<times> CValidationState \<times> rejected_blocks) option" where
  "check_body env block st rej =
     (if vtx block = [] \<or> too_big (length (vtx block)) \<or> too_big (length (SerializeBlock block))
      then Some (False, DoS st 100 REJECT_INVALID ''bad-blk-length'' False, rej)
      else if \<not> IsCoinBase (hd (vtx block)) then Some (False, DoS st 100 REJECT_INVALID ''bad-cb-missing'' False, rej)
      else if list_ex IsCoinBase (tl (vtx block)) then Some (False, DoS st 100 REJECT_INVALID ''bad-cb-multiple'' False, rej)
      else case stake_shape block of
        None \<Rightarrow> None
      | Some False \<Rightarrow> Some (False, DoS st 100 0 '''' False, rej)
      | Some True \<Rightarrow>
          if be_BlockFiltering env \<and> list_ex (lock_conflict env) (vtx block)
          then Some (False, DoS st 0 REJECT_INVALID ''conflicting-tx-ix'' False, reject_block env block rej)
          else Option.bind (payee_height env block) (\<lambda>h.
            Option.bind (if h \<noteq> 0 \<and> \<not> InitialBlockDownload (be_node env)
                         then IsBlockPayeeValid (be_mn env) (be_payments env) block h else Some True) (\<lambda>payee_ok.
              if \<not> payee_ok
              then Some (False, DoS st 0 REJECT_INVALID ''bad-cb-payee'' False, reject_block env block rej)
              else (case check_transactions (be_node env) (GetBlockTime block) (vtx block) st of
                      None \<Rightarrow> None
                    | Some (False, st') \<Rightarrow> Some (False, st', rej)
                    | Some (True, st') \<Rightarrow>
                        if too_many_sigops (sum_list (map GetLegacySigOpCount (vtx block)))
                        then Some (False, DoS st' 100 REJECT_INVALID ''bad-blk-sigops'' True, rej)
                        else Some (True, st', rej)))))"

text \<open>After a bad header the level is read from a variable that is only set if the state is invalid.\<close>

definition CheckBlock ::
  "block_env \<Rightarrow> CBlock \<Rightarrow> CValidationState \<Rightarrow> bool \<Rightarrow> rejected_blocks \<Rightarrow> (bool \<times> CValidationState \<times> rejected_blocks) option" where
  "CheckBlock env block st fCheckMerkleRoot rej =
     (case CheckBlockHeader env block st (IsProofOfWork block) of
        (False, st1) \<Rightarrow>
          (if mode st1 \<noteq> MODE_INVALID then None
           else Some (False, DoS st1 (if nDoS st1 > 0 then 100 else 0) REJECT_INVALID ''bad-header'' True, rej))
      | (True, st1) \<Rightarrow>
          if GetBlockTime block > AdjustedTime (be_node env) + (if IsProofOfStake block then 180 else 7200)
          then Some (False, Invalid st1 REJECT_INVALID ''time-too-new'', rej)
          else case BuildMerkleTree (be_HashPair env) (map (GetHash (be_Hash env)) (vtx block)) of
            (hashMerkleRoot2, mutated, _) \<Rightarrow>
              if fCheckMerkleRoot \<and> hashMerkleRoot block \<noteq> hashMerkleRoot2
              then Some (False, DoS st1 100 REJECT_INVALID ''bad-txnmrklroot'' True, rej)
              else if fCheckMerkleRoot \<and> mutated
              then Some (False, DoS st1 100 REJECT_INVALID ''bad-txns-duplicate'' True, rej)
              else check_body env block st1 rej)"

section \<open>Checks against the chain\<close>

definition ContextualCheckBlockHeader ::
  "block_env \<Rightarrow> 'a CBlockHeader_scheme \<Rightarrow> CValidationState \<Rightarrow> nat option \<Rightarrow> (bool \<times> CValidationState) option" where
  "ContextualCheckBlockHeader env block st pindexPrev =
     (let hash = Block_GetHash env block in
      if hash = be_HashGenesisBlock env then Some (True, st)
      else case pindexPrev of
        None \<Rightarrow> None
      | Some p \<Rightarrow>
          let h = int (bi_nHeight (be_store env ! p)) + 1 in
          Some (if Chain_Height (be_chain env) - h \<ge> MaxReorganizationDepth (be_Params env) then (False, DoS st 1 0 '''' False)
            else if GetBlockTime block \<le> GetMedianTimePast (be_store env) p
            then (False, Invalid st REJECT_INVALID ''time-too-old'')
            else if GetBlockTime block > FREEZE_TIME then (False, Invalid st REJECT_INVALID ''time-end'')
            else if \<not> Checkpoints_CheckBlock env h hash False
            then (False, DoS st 100 REJECT_CHECKPOINT ''checkpoint mismatch'' False)
            else if (case GetLastCheckpoint env of None \<Rightarrow> False | Some c \<Rightarrow> h < int (bi_nHeight (be_store env ! c)))
            then (False, DoS st 0 0 '''' False)
            else if sint (hdr_nVersion block) < 2 then (False, Invalid st REJECT_OBSOLETE ''bad-version'')
            else (True, st)))"

text \<open>The coinbase begins with the height, as a script pushes it.\<close>

definition ContextualCheckBlock ::
  "block_env \<Rightarrow> CBlock \<Rightarrow> CValidationState \<Rightarrow> nat option \<Rightarrow> (bool \<times> CValidationState) option" where
  "ContextualCheckBlock env block st pindexPrev =
     (let h = (case pindexPrev of None \<Rightarrow> 0 | Some p \<Rightarrow> int (bi_nHeight (be_store env ! p)) + 1) in
      if \<not> list_all (\<lambda>tx. IsFinalTx (be_node env) tx h (GetBlockTime block)) (vtx block)
      then Some (False, DoS st 10 REJECT_INVALID ''bad-txns-nonfinal'' False)
      else if h = 0 \<and> Block_GetHash env block = be_HashGenesisBlock env then Some (True, st)
      else if vtx block = [] \<or> vin (vtx block ! 0) = [] then None
      else let expect = push_int64 h; sig = scriptSig (vin (vtx block ! 0) ! 0) in
        if length sig < length expect \<or> take (length expect) sig \<noteq> expect
        then Some (False, DoS st 100 REJECT_INVALID ''bad-cb-height'' False)
        else Some (True, st))"

end
