(* ===== verification/Connect_Block.thy ===== *)
theory Connect_Block
  imports Check_Inputs Check_Block Utxo_Update
begin

text \<open>
  The connection of a block to the active chain (\<^verbatim>\<open>ConnectBlock\<close> in \<^verbatim>\<open>src/src/main.cpp\<close>): the rules
  against the coin view, the change of the view with its undo data, the money supply, the deferred script
  checks and what is written to disk. \<open>None\<close> is a failed assertion, an exception or an access through a null
  pointer or outside a vector.
\<close>

section \<open>State of the loop over the transactions\<close>

text \<open>\<open>bw_checks\<close> are the script checks handed to the queue, \<open>bw_pos\<close> the positions for the transaction
  index.\<close>

record 'v block_work =
  bw_view :: "'v CCoinsViewCache"
  bw_sigops :: nat
  bw_fees :: camount
  bw_in :: camount
  bw_out :: camount
  bw_undo :: "CTxUndo list"
  bw_checks :: "CScriptCheck list"
  bw_pos :: "(uint256 \<times> nat) list"
  bw_offset :: nat

text \<open>An early return has the validation state and the view.\<close>

type_synonym 'v early = "CValidationState \<times> 'v CCoinsViewCache"

definition sigops_reject :: "CValidationState \<Rightarrow> CValidationState" where
  "sigops_reject st = DoS st 100 REJECT_INVALID ''bad-blk-sigops'' False"

text \<open>The part for a transaction that is not a coinbase.\<close>

definition connect_inputs ::
  "sig_env \<Rightarrow> block_env \<Rightarrow> 'v CCoinsView \<Rightarrow> bool \<Rightarrow> script_flags \<Rightarrow> bool \<Rightarrow> CTransaction \<Rightarrow> CValidationState \<Rightarrow> 'v block_work \<Rightarrow>
   ('v early + 'v block_work) option" where
  "connect_inputs se env B fScriptChecks fl threads tx st w =
     (case HaveInputs B (bw_view w) tx of
        (False, c1) \<Rightarrow> Some (Inl (DoS st 100 REJECT_INVALID ''bad-txns-inputs-missingorspent'' False, c1))
      | (True, c1) \<Rightarrow>
          (case GetP2SHSigOpCount B tx c1 of
             (None, c2) \<Rightarrow> None
           | (Some n, c2) \<Rightarrow>
               let ops = bw_sigops w + n in
               if too_many_sigops ops then Some (Inl (sigops_reject st, c2))
               else (case GetValueIn B c2 tx of
                       (None, c3) \<Rightarrow> None
                     | (Some valueIn, c3) \<Rightarrow>
                         Option.bind
                           (if IsCoinStake tx then Some (bw_fees w)
                            else case GetValueOut tx of
                                   Inl _ \<Rightarrow> None
                                 | Inr valueOut \<Rightarrow> Some (wrap64 (bw_fees w + wrap64 (valueIn - valueOut))))
                           (\<lambda>fees.
                              case CheckInputs se (be_Params env) (\<lambda>h. map_option (\<lambda>p. int (bi_nHeight (be_store env ! p))) (be_mapBlockIndex env h))
                                     B tx st c3 fScriptChecks fl False (if threads then Some [] else None) of
                                None \<Rightarrow> None
                              | Some (False, st', _, c4) \<Rightarrow> Some (Inl (st', c4))
                              | Some (True, _, pv, c4) \<Rightarrow>
                                  Some (Inr (w\<lparr>bw_view := c4, bw_sigops := ops, bw_fees := fees,
                                               bw_in := wrap64 (bw_in w + valueIn),
                                               bw_checks := bw_checks w @ (case pv of None \<Rightarrow> [] | Some cs \<Rightarrow> cs)\<rparr>))))))"

text \<open>
  One iteration. The undo data of the first transaction are dropped; those of the others start empty.
\<close>

definition connect_tx ::
  "sig_env \<Rightarrow> block_env \<Rightarrow> 'v CCoinsView \<Rightarrow> bool \<Rightarrow> script_flags \<Rightarrow> bool \<Rightarrow> int \<Rightarrow> CValidationState \<Rightarrow> nat \<times> CTransaction \<Rightarrow>
   'v block_work \<Rightarrow> ('v early + 'v block_work) option" where
  "connect_tx se env B fScriptChecks fl threads h st itx w =
     (let (i, tx) = itx; ops = bw_sigops w + GetLegacySigOpCount tx in
      if too_many_sigops ops then Some (Inl (sigops_reject st, bw_view w))
      else let w1 = w\<lparr>bw_sigops := ops\<rparr> in
        (case (if IsCoinBase tx then Some (Inr w1) else connect_inputs se env B fScriptChecks fl threads tx st w1) of
           None \<Rightarrow> None
         | Some (Inl e) \<Rightarrow> Some (Inl e)
         | Some (Inr w2) \<Rightarrow>
             (case GetValueOut tx of
                Inl _ \<Rightarrow> None
              | Inr valueOut \<Rightarrow>
                  map_option (\<lambda>(u, c).
                      Inr (w2\<lparr>bw_view := c, bw_out := wrap64 (bw_out w2 + valueOut),
                              bw_undo := bw_undo w2 @ (if i > 0 then [u] else []),
                              bw_pos := bw_pos w2 @ [(GetHash (be_Hash env) tx, bw_offset w2)],
                              bw_offset := bw_offset w2 + GetSerializeSize tx\<rparr>))
                    (UpdateCoins (be_Hash env) B tx (bw_view w2) \<lparr>vprevout = []\<rparr> h))))"

fun connect_loop ::
  "sig_env \<Rightarrow> block_env \<Rightarrow> 'v CCoinsView \<Rightarrow> bool \<Rightarrow> script_flags \<Rightarrow> bool \<Rightarrow> int \<Rightarrow> CValidationState \<Rightarrow> (nat \<times> CTransaction) list \<Rightarrow>
   'v block_work \<Rightarrow> ('v early + 'v block_work) option" where
  "connect_loop se env B fScriptChecks fl threads h st [] w = Some (Inr w)"
| "connect_loop se env B fScriptChecks fl threads h st (itx # itxs) w =
     (case connect_tx se env B fScriptChecks fl threads h st itx w of
        None \<Rightarrow> None
      | Some (Inl e) \<Rightarrow> Some (Inl e)
      | Some (Inr w') \<Rightarrow> connect_loop se env B fScriptChecks fl threads h st itxs w')"

text \<open>The rule against overwriting unspent transactions, for blocks that are not yet in the index.\<close>

fun bip30_loop ::
  "(bytes \<Rightarrow> uint256) \<Rightarrow> 'v CCoinsView \<Rightarrow> 'v CCoinsViewCache \<Rightarrow> CTransaction list \<Rightarrow> bool \<times> 'v CCoinsViewCache" where
  "bip30_loop Hash B c [] = (True, c)"
| "bip30_loop Hash B c (tx # txs) =
     (case AccessCoins B c (GetHash Hash tx) of
        (Some co, c') \<Rightarrow> if \<not> IsPruned co then (False, c') else bip30_loop Hash B c' txs
      | (None, c') \<Rightarrow> bip30_loop Hash B c' txs)"

section \<open>Spent stakes\<close>

definition record_stakes :: "int \<Rightarrow> CTransaction list \<Rightarrow> (COutPoint \<times> int) list \<Rightarrow> (COutPoint \<times> int) list" where
  "record_stakes h txs m =
     fold (\<lambda>out m. if map_of m out = None then (out, h) # m else m)
       (concat (map (\<lambda>tx. map prevout (vin tx)) (filter (\<lambda>tx. \<not> IsCoinBase tx) txs))) m"

definition drop_stakes :: "int \<Rightarrow> int \<Rightarrow> (COutPoint \<times> int) list \<Rightarrow> (COutPoint \<times> int) list" where
  "drop_stakes h maxDepth m = filter (\<lambda>e. \<not> snd e < h - maxDepth) m"

section \<open>ConnectBlock\<close>

text \<open>
  The node's settings and what the disk answers: the switches, the position found for the undo data (\<open>None\<close>: no space),
  and the success of each write.
\<close>

record connect_io =
  io_ScriptCheckThreads :: bool
  io_TxIndex :: bool
  io_FilterPending :: "int \<Rightarrow> bool"
  io_WriteBlockIndex :: bool
  io_UndoPos :: "uint32 option"
  io_WriteUndo :: bool
  io_WriteTxIndex :: bool

datatype disk_write =
    WriteBlockIndex CBlockIndex
  | WriteUndo "CTxUndo list" uint256 uint32
  | WriteTxIndex "(uint256 \<times> nat) list"
  | BuildTxFilter

record 'v connect_result =
  cr_ok :: bool
  cr_state :: CValidationState
  cr_index :: CBlockIndex
  cr_view :: "'v CCoinsViewCache"
  cr_stakeSpent :: "(COutPoint \<times> int) list"
  cr_dirty :: bool
  cr_writes :: "disk_write list"
  cr_rejected :: rejected_blocks

definition undo_pos_null :: "CBlockIndex \<Rightarrow> bool" where
  "undo_pos_null p \<longleftrightarrow> nStatus p AND BLOCK_HAVE_UNDO = 0 \<or> nFile p = -1"

text \<open>The undo data are written if they are not yet on disk; then the block counts as valid.\<close>

definition write_undo ::
  "connect_io \<Rightarrow> CTxUndo list \<Rightarrow> uint256 \<Rightarrow> CValidationState \<Rightarrow> CBlockIndex \<Rightarrow>
   bool \<times> CValidationState \<times> CBlockIndex \<times> bool \<times> disk_write list" where
  "write_undo disk undo hashPrev st p =
     (if undo_pos_null p \<or> \<not> Index_IsValid BLOCK_VALID_SCRIPTS p then
        (if undo_pos_null p then
           (case io_UndoPos disk of
              None \<Rightarrow> (False, State_Error st ''out of disk space'', p, False, [])
            | Some pos \<Rightarrow>
                if \<not> io_WriteUndo disk then (False, State_Error st ''Failed to write undo data'', p, False, [])
                else (True, st, snd (RaiseValidity BLOCK_VALID_SCRIPTS (p\<lparr>nUndoPos := pos, nStatus := nStatus p OR BLOCK_HAVE_UNDO\<rparr>)),
                      True, [WriteUndo undo hashPrev pos]))
         else (True, st, snd (RaiseValidity BLOCK_VALID_SCRIPTS p), True, []))
      else (True, st, p, False, []))"

text \<open>After all checks: undo data, transaction index, spent stakes, best block.\<close>

definition finish_block ::
  "connect_io \<Rightarrow> block_env \<Rightarrow> CBlock \<Rightarrow> uint256 \<Rightarrow> CValidationState \<Rightarrow> CBlockIndex \<Rightarrow> (COutPoint \<times> int) list \<Rightarrow> rejected_blocks \<Rightarrow>
   disk_write list \<Rightarrow> 'v block_work \<Rightarrow> 'v connect_result option" where
  "finish_block disk env block hashPrev st p stakes rej writes w =
     (case write_undo disk (bw_undo w) hashPrev st p of
        (False, st', p', dirty, ws) \<Rightarrow>
          Some \<lparr>cr_ok = False, cr_state = st', cr_index = p', cr_view = bw_view w, cr_stakeSpent = stakes, cr_dirty = dirty,
                cr_writes = writes @ ws, cr_rejected = rej\<rparr>
      | (True, st', p', dirty, ws) \<Rightarrow>
          if io_TxIndex disk \<and> \<not> io_WriteTxIndex disk
          then Some \<lparr>cr_ok = False, cr_state = State_Error st' ''Failed to write transaction index'', cr_index = p',
                     cr_view = bw_view w, cr_stakeSpent = stakes, cr_dirty = dirty, cr_writes = writes @ ws, cr_rejected = rej\<rparr>
          else
            let h = int (bi_nHeight p') in
            map_option (\<lambda>hash.
                \<lparr>cr_ok = True, cr_state = st', cr_index = p', cr_view = SetBestBlock (bw_view w) hash,
                 cr_stakeSpent = drop_stakes h (MaxReorganizationDepth (be_Params env)) (record_stakes h (vtx block) stakes),
                 cr_dirty = dirty,
                 cr_writes = writes @ ws @ (if io_TxIndex disk then [WriteTxIndex (bw_pos w)] else []) @
                             (if io_FilterPending disk h then [BuildTxFilter] else []),
                 cr_rejected = rej\<rparr>)
              (Index_GetBlockHash p'))"

text \<open>
  The rules on value and the deferred checks. Wherever the loop has ended, the money supply is recorded in the
  index first.
\<close>

definition settle_block ::
  "sig_env \<Rightarrow> connect_io \<Rightarrow> block_env \<Rightarrow> CBlock \<Rightarrow> bool \<Rightarrow> uint256 \<Rightarrow> CValidationState \<Rightarrow> CBlockIndex \<Rightarrow> (COutPoint \<times> int) list \<Rightarrow>
   rejected_blocks \<Rightarrow> 'v block_work \<Rightarrow> 'v connect_result option" where
  "settle_block se disk env block fJustCheck hashPrev st p stakes rej w =
     (let supplyPrev = (case pprev p of None \<Rightarrow> 0 | Some q \<Rightarrow> nMoneySupply (be_store env ! q));
          supply = wrap64 (wrap64 (supplyPrev + bw_out w) - bw_in w);
          p1 = p\<lparr>nMoneySupply := supply, nMint := wrap64 (supply - supplyPrev)\<rparr>;
          fail = (\<lambda>st' ws. \<lparr>cr_ok = False, cr_state = st', cr_index = p1, cr_view = bw_view w, cr_stakeSpent = stakes,
                            cr_dirty = False, cr_writes = ws, cr_rejected = rej\<rparr>)
      in if \<not> io_WriteBlockIndex disk then Some (fail st [])
         else case pprev p of
           None \<Rightarrow> None
         | Some q \<Rightarrow>
             let hprev = int (bi_nHeight (be_store env ! q)) in
             Option.bind (GetBlockValue (be_Params env) (be_store env) (be_chain env) hprev) (\<lambda>v.
             Option.bind (GetDevFeeValue (be_Params env) (be_store env) (be_chain env) hprev) (\<lambda>dev.
               let nExpectedMint = (if IsProofOfWork block then wrap64 (wrap64 (v + dev) + bw_fees w) else wrap64 (v + dev)) in
               if \<not> IsBlockValueValid (be_mn env) block nExpectedMint (nMint p1)
               then Some (fail (DoS st 100 REJECT_INVALID ''bad-cb-amount'' False) [WriteBlockIndex p1])
               else if \<not> list_all (\<lambda>chk. run_check se chk = Inr ()) (bw_checks w)
               then Some (fail (DoS st 100 0 '''' False) [WriteBlockIndex p1])
               else if fJustCheck
               then Some \<lparr>cr_ok = True, cr_state = st, cr_index = p1, cr_view = bw_view w, cr_stakeSpent = stakes,
                          cr_dirty = False, cr_writes = [WriteBlockIndex p1], cr_rejected = rej\<rparr>
               else finish_block disk env block hashPrev st p1 stakes rej [WriteBlockIndex p1] w)))"

definition connect_flags :: script_flags where
  "connect_flags = SCRIPT_VERIFY_P2SH OR SCRIPT_VERIFY_DERSIG"

text \<open>The block after \<^verbatim>\<open>CheckBlock\<close>.\<close>

definition connect_checked ::
  "sig_env \<Rightarrow> connect_io \<Rightarrow> block_env \<Rightarrow> 'v CCoinsView \<Rightarrow> CBlock \<Rightarrow> CValidationState \<Rightarrow> CBlockIndex \<Rightarrow> 'v CCoinsViewCache \<Rightarrow> bool \<Rightarrow>
   (COutPoint \<times> int) list \<Rightarrow> rejected_blocks \<Rightarrow> 'v connect_result option" where
  "connect_checked se disk env B block st p view fJustCheck stakes rej =
     Option.bind (case pprev p of None \<Rightarrow> Some 0 | Some q \<Rightarrow> Index_GetBlockHash (be_store env ! q)) (\<lambda>hashPrev.
     case GetBestBlock B view of
       (best, c0) \<Rightarrow>
         let fail = (\<lambda>st' c. \<lparr>cr_ok = False, cr_state = st', cr_index = p, cr_view = c, cr_stakeSpent = stakes,
                              cr_dirty = False, cr_writes = [], cr_rejected = rej\<rparr>);
             h = int (bi_nHeight p)
         in if hashPrev \<noteq> best then None
            else if Block_GetHash env block = be_HashGenesisBlock env
            then map_option (\<lambda>hash. (fail st (SetBestBlock c0 hash))\<lparr>cr_ok := True\<rparr>) (Index_GetBlockHash p)
            else if h \<le> LAST_POW_BLOCK (be_Params env) \<and> IsProofOfStake block
            then Some (fail (DoS st 100 REJECT_INVALID ''PoS-early'' False) c0)
            else if h > LAST_POW_BLOCK (be_Params env) \<and> IsProofOfWork block
            then Some (fail (DoS st 100 REJECT_INVALID ''PoW-ended'' False) c0)
            else Option.bind (GetTotalBlocksEstimate env) (\<lambda>total.
              let fScriptChecks = (h \<ge> total) in
              case (if phashBlock p = None then bip30_loop (be_Hash env) B c0 (vtx block) else (True, c0)) of
                (False, c1) \<Rightarrow> Some (fail (DoS st 100 REJECT_INVALID ''bad-txns-BIP30'' False) c1)
              | (True, c1) \<Rightarrow>
                  if vtx block = [] then None else
                  (case connect_loop se env B fScriptChecks connect_flags (io_ScriptCheckThreads disk) h st
                          (zip [0 ..< length (vtx block)] (vtx block))
                          \<lparr>bw_view = c1, bw_sigops = 0, bw_fees = 0, bw_in = 0, bw_out = 0, bw_undo = [], bw_checks = [],
                           bw_pos = [], bw_offset = GetSizeOfCompactSize (of_nat (length (vtx block)))\<rparr> of
                     None \<Rightarrow> None
                   | Some (Inl (st', c)) \<Rightarrow> Some (fail st' c)
                   | Some (Inr w) \<Rightarrow> settle_block se disk env block fJustCheck hashPrev st p stakes rej w)))"

definition ConnectBlock ::
  "sig_env \<Rightarrow> connect_io \<Rightarrow> block_env \<Rightarrow> 'v CCoinsView \<Rightarrow> CBlock \<Rightarrow> CValidationState \<Rightarrow> CBlockIndex \<Rightarrow> 'v CCoinsViewCache \<Rightarrow> bool \<Rightarrow> bool \<Rightarrow>
   (COutPoint \<times> int) list \<Rightarrow> rejected_blocks \<Rightarrow> 'v connect_result option" where
  "ConnectBlock se disk env B block st p view fJustCheck fAlreadyChecked stakes rej =
     (if fAlreadyChecked then connect_checked se disk env B block st p view fJustCheck stakes rej
      else case CheckBlock env block st (\<not> fJustCheck) rej of
        None \<Rightarrow> None
      | Some (False, st', rej') \<Rightarrow>
          Some \<lparr>cr_ok = False, cr_state = st', cr_index = p, cr_view = view, cr_stakeSpent = stakes, cr_dirty = False,
                cr_writes = [], cr_rejected = rej'\<rparr>
      | Some (True, st', rej') \<Rightarrow> connect_checked se disk env B block st' p view fJustCheck stakes rej')"

end
