(* ===== verification/Check_Block_Props.thy ===== *)
theory Check_Block_Props
  imports Check_Block Merkle Block_Props Mn_Props Utxo_Undo
begin

text \<open>
  What \<^verbatim>\<open>CheckBlock\<close> accepts, and that the hash of an accepted block determines its transactions.
\<close>

section \<open>The rules of a block\<close>

definition block_time_ok :: "block_env \<Rightarrow> CBlock \<Rightarrow> bool" where
  "block_time_ok env block \<longleftrightarrow>
     GetBlockTime block \<le> 1646092800 \<and>
     GetBlockTime block \<le> AdjustedTime (be_node env) + (if IsProofOfStake block then 180 else 7200)"

definition merkle_ok :: "block_env \<Rightarrow> CBlock \<Rightarrow> bool" where
  "merkle_ok env block \<longleftrightarrow>
     hashMerkleRoot block = merkle_root (be_HashPair env) (map (GetHash (be_Hash env)) (vtx block)) \<and>
     \<not> merkle_mutated (be_HashPair env) (map (GetHash (be_Hash env)) (vtx block))"

text \<open>One coinbase, at the front; a proof-of-stake block has one coinstake, after it, and an empty coinbase.\<close>

definition order_ok :: "CBlock \<Rightarrow> bool" where
  "order_ok block \<longleftrightarrow>
     (case vtx block of
        [] \<Rightarrow> False
      | cb # txs \<Rightarrow> IsCoinBase cb \<and> list_all (\<lambda>tx. \<not> IsCoinBase tx) txs \<and>
          (case txs of
             [] \<Rightarrow> True
           | cs # rest \<Rightarrow>
               if IsCoinStake cs
               then list_all (\<lambda>tx. \<not> IsCoinStake tx) rest \<and> length (vout cb) = 1 \<and> CTxOut_IsEmpty (vout cb ! 0)
               else True))"

definition txs_ok :: "node_env \<Rightarrow> int \<Rightarrow> CTransaction list \<Rightarrow> bool" where
  "txs_ok env t txs \<longleftrightarrow>
     list_all (\<lambda>tx. well_formed_tx (MaxMoneyOut (Params env)) tx \<and> (InitialBlockDownload env \<or> CheckTxFilter env tx t = Some True)) txs"

text \<open>Outputs that SwiftX has locked for one transaction are not spent by another one.\<close>

definition locks_ok :: "block_env \<Rightarrow> CTransaction list \<Rightarrow> bool" where
  "locks_ok env txs \<longleftrightarrow>
     list_all (\<lambda>tx. IsCoinBase tx \<or>
       list_all (\<lambda>i. be_LockedInputs env (prevout i) \<in> {None, Some (GetHash (be_Hash env) tx)}) (vin tx)) txs"

text \<open>
  The masternode payment, for the height after the predecessor, whether that is the tip or another known block; it is not
  checked without a tip, for an unknown predecessor and in the initial download. A tip without a hash is an error.
  \<^verbatim>\<open>IsBlockPayeeValid\<close> is the verdict of the payments.
\<close>

definition payee_ok :: "block_env \<Rightarrow> CBlock \<Rightarrow> bool" where
  "payee_ok env block \<longleftrightarrow>
     (let paid = (\<lambda>p. InitialBlockDownload (be_node env) \<or>
            IsBlockPayeeValid (be_mn env) (be_payments env) block (int (bi_nHeight (be_store env ! p)) + 1) = Some True)
      in case Tip (be_chain env) of
           None \<Rightarrow> True
         | Some tip \<Rightarrow>
             (case phashBlock (be_store env ! tip) of
                None \<Rightarrow> False
              | Some h \<Rightarrow>
                  if hashPrevBlock block = h then paid tip
                  else (case be_mapBlockIndex env (hashPrevBlock block) of None \<Rightarrow> True | Some p \<Rightarrow> paid p)))"

definition block_rules :: "block_env \<Rightarrow> bool \<Rightarrow> CBlock \<Rightarrow> bool" where
  "block_rules env fCheckMerkleRoot block \<longleftrightarrow>
     (IsProofOfStake block \<or> CheckProofOfWork (be_pow env) (Block_GetHash env block) (nBits block)) \<and>
     block_time_ok env block \<and> (fCheckMerkleRoot \<longrightarrow> merkle_ok env block) \<and>
     length (vtx block) \<le> 2000000 \<and> length (SerializeBlock block) \<le> 2000000 \<and> order_ok block \<and>
     (be_BlockFiltering env \<longrightarrow> locks_ok env (vtx block)) \<and> payee_ok env block \<and>
     txs_ok (be_node env) (GetBlockTime block) (vtx block) \<and>
     sum_list (map GetLegacySigOpCount (vtx block)) \<le> 40000"

lemma locks_ok_iff: "locks_ok env txs \<longleftrightarrow> \<not> list_ex (lock_conflict env) txs"
proof -
  have c: "(case x of None \<Rightarrow> False | Some h \<Rightarrow> h \<noteq> g) \<longleftrightarrow> x \<notin> {None, Some g}" for x :: "uint256 option" and g
    by (cases x) simp_all
  show ?thesis unfolding locks_ok_def lock_conflict_def c by (simp add: list_all_iff list_ex_iff del: insert_iff)
qed

lemma payee_ok_height:
  "payee_ok env block \<longleftrightarrow>
     (case payee_height env block of
        None \<Rightarrow> False
      | Some h \<Rightarrow> h = 0 \<or> InitialBlockDownload (be_node env) \<or>
          IsBlockPayeeValid (be_mn env) (be_payments env) block h = Some True)"
proof -
  have pos: "int k + 1 \<noteq> 0" for k by simp
  show ?thesis
    by (auto simp: payee_ok_def payee_height_def Let_def Index_GetBlockHash_def pos split: option.splits)
qed

lemma limit_values: "MAX_BLOCK_SIZE = 2000000" "MAX_BLOCK_SIGOPS = 40000"
  by (simp_all add: MAX_BLOCK_SIZE_def MAX_BLOCK_SIGOPS_def)

lemma check_transactions_iff:
  assumes "0 \<le> MaxMoneyOut (Params env)" "MaxMoneyOut (Params env) < 2 ^ 62"
  shows "check_transactions env t txs st = Some (True, st') \<longleftrightarrow> st' = st \<and> txs_ok env t txs"
proof (induction txs arbitrary: st)
  case (Cons tx txs)
  note C = CheckTransaction_iff [OF assms, of tx st t]
  show ?case
  proof (cases "CheckTransaction env tx st t")
    case None
    then show ?thesis using C [of st] by (auto simp: txs_ok_def)
  next
    case (Some x)
    obtain r st1 where x: "x = (r, st1)" by fastforce
    show ?thesis
    proof (cases r)
      case True
      then show ?thesis using Cons.IH [of st] C [of st1] Some x by (auto simp: txs_ok_def)
    next
      case False
      then show ?thesis using C [of st] Some x by (auto simp: txs_ok_def)
    qed
  qed
qed (auto simp: txs_ok_def)

lemma order_ok_stake:
  assumes "vtx block \<noteq> []" "IsCoinBase (hd (vtx block))" "list_all (\<lambda>tx. \<not> IsCoinBase tx) (tl (vtx block))"
  shows "order_ok block \<longleftrightarrow> stake_shape block = Some True"
  using assms
  by (cases "vtx block"; cases "tl (vtx block)") (auto simp: order_ok_def stake_shape_def IsProofOfStake_def)

lemma check_body_iff:
  assumes "0 \<le> MaxMoneyOut (be_Params env)" "MaxMoneyOut (be_Params env) < 2 ^ 62"
  shows "check_body env block st rej = Some (True, st', rej') \<longleftrightarrow> st' = st \<and> rej' = rej \<and>
     length (vtx block) \<le> 2000000 \<and> length (SerializeBlock block) \<le> 2000000 \<and> order_ok block \<and>
     (be_BlockFiltering env \<longrightarrow> locks_ok env (vtx block)) \<and> payee_ok env block \<and>
     txs_ok (be_node env) (GetBlockTime block) (vtx block) \<and>
     sum_list (map GetLegacySigOpCount (vtx block)) \<le> 40000"
proof (cases "vtx block \<noteq> [] \<and> \<not> too_big (length (vtx block)) \<and> \<not> too_big (length (SerializeBlock block)) \<and>
    IsCoinBase (hd (vtx block)) \<and> \<not> list_ex IsCoinBase (tl (vtx block)) \<and> stake_shape block = Some True \<and>
    \<not> (be_BlockFiltering env \<and> list_ex (lock_conflict env) (vtx block))")
  case False
  have "\<not> order_ok block" if "vtx block = [] \<or> \<not> IsCoinBase (hd (vtx block)) \<or> list_ex IsCoinBase (tl (vtx block))"
    using that by (auto simp: order_ok_def list_all_iff list_ex_iff split: list.splits)
  moreover have "order_ok block \<longleftrightarrow> stake_shape block = Some True"
    if "vtx block \<noteq> []" "IsCoinBase (hd (vtx block))" "\<not> list_ex IsCoinBase (tl (vtx block))"
    using that by (intro order_ok_stake) (auto simp: list_all_iff list_ex_iff)
  ultimately show ?thesis using False
    by (auto simp: check_body_def too_big_def limit_values locks_ok_iff split: option.splits bool.splits if_splits)
next
  case True
  then have o: "order_ok block" by (subst order_ok_stake) (auto simp: list_all_iff list_ex_iff)
  have lc: "be_BlockFiltering env \<longrightarrow> locks_ok env (vtx block)"
    using True by (auto simp: locks_ok_iff)
  have step: "check_body env block st rej = Option.bind (payee_height env block) (\<lambda>h.
            Option.bind (if h \<noteq> 0 \<and> \<not> InitialBlockDownload (be_node env)
                         then IsBlockPayeeValid (be_mn env) (be_payments env) block h else Some True) (\<lambda>payee_ok.
              if \<not> payee_ok
              then Some (False, DoS st 0 REJECT_INVALID ''bad-cb-payee'' False, reject_block env block rej)
              else (case check_transactions (be_node env) (GetBlockTime block) (vtx block) st of
                      None \<Rightarrow> None
                    | Some (False, st') \<Rightarrow> Some (False, st', rej)
                    | Some (True, st') \<Rightarrow>
                        if too_many_sigops (sum_list (map GetLegacySigOpCount (vtx block)))
                        then Some (False, DoS st' 100 REJECT_INVALID ''bad-blk-sigops'' True, rej)
                        else Some (True, st', rej))))"
    using True unfolding check_body_def by auto
  note T = check_transactions_iff [OF assms, of "GetBlockTime block" "vtx block" st]
  show ?thesis
  proof (cases "payee_ok env block")
    case False
    then show ?thesis unfolding step
      by (auto simp: payee_ok_height bind_eq_Some_conv split: if_splits option.splits)
  next
    case True
    then obtain h where "payee_height env block = Some h"
      "h = 0 \<or> InitialBlockDownload (be_node env) \<or> IsBlockPayeeValid (be_mn env) (be_payments env) block h = Some True"
      by (auto simp: payee_ok_height split: option.splits)
    then have "check_body env block st rej = (case check_transactions (be_node env) (GetBlockTime block) (vtx block) st of
                      None \<Rightarrow> None
                    | Some (False, st') \<Rightarrow> Some (False, st', rej)
                    | Some (True, st') \<Rightarrow>
                        if too_many_sigops (sum_list (map GetLegacySigOpCount (vtx block)))
                        then Some (False, DoS st' 100 REJECT_INVALID ''bad-blk-sigops'' True, rej)
                        else Some (True, st', rej))"
      unfolding step by auto
    moreover have "check_transactions (be_node env) (GetBlockTime block) (vtx block) st =
        (if txs_ok (be_node env) (GetBlockTime block) (vtx block) then Some (True, st)
         else check_transactions (be_node env) (GetBlockTime block) (vtx block) st)"
      "\<not> txs_ok (be_node env) (GetBlockTime block) (vtx block) \<Longrightarrow>
        check_transactions (be_node env) (GetBlockTime block) (vtx block) st \<noteq> Some (True, st'')" for st''
      using T [of st] T [of st''] by simp_all
    ultimately show ?thesis using o lc True \<open>vtx block \<noteq> [] \<and> _\<close>
      by (cases "txs_ok (be_node env) (GetBlockTime block) (vtx block)")
        (auto simp: too_many_sigops_def too_big_def limit_values not_less split: option.splits bool.splits if_splits)
  qed
qed

lemma CheckBlock_iff:
  assumes "0 \<le> MaxMoneyOut (be_Params env)" "MaxMoneyOut (be_Params env) < 2 ^ 62"
  shows "CheckBlock env block st fCheckMerkleRoot rej = Some (True, st', rej') \<longleftrightarrow>
    st' = st \<and> rej' = rej \<and> block_rules env fCheckMerkleRoot block"
proof -
  have w: "IsProofOfWork block \<longleftrightarrow> \<not> IsProofOfStake block" by (simp add: IsProofOfWork_def)
  show ?thesis
    unfolding CheckBlock_def CheckBlockHeader_def block_rules_def merkle_ok_def block_time_ok_def BuildMerkleTree_eq w FREEZE_TIME_def
    using check_body_iff [OF assms, of block st rej st' rej'] by (auto simp: w)
qed

text \<open>C29: \<^verbatim>\<open>CheckBlock\<close> accepts exactly the blocks that satisfy the rules: the claimed work, unless the block is
  proof of stake; a time not after the end of the chain and not too far in the future; if it is checked, a Merkle root that
  is the one of the transactions, without the duplication of CVE-2012-2459; the size; one coinbase and at most one coinstake in their
  places; with block filtering, no input that is locked for another transaction; the masternode payment for the height after the
  predecessor, as the payments judge it; well-formed transactions that pass the address filter or in the
  initial download; at most 40000 signature operations. It then changes neither the validation state nor the rejected
  blocks. The rules are not context-free: they read the clock, the tip, the index of the predecessor, the payment
  votes, the locked inputs and, for the filter, earlier transactions. The money limit of the chain is within \<open>[0, 2^62)\<close>.\<close>

theorem CheckBlock_accepts_iff:
  assumes "0 \<le> MaxMoneyOut (be_Params env)" "MaxMoneyOut (be_Params env) < 2 ^ 62"
  shows "CheckBlock env block st fCheckMerkleRoot rej = Some (True, st', rej') \<longleftrightarrow>
    st' = st \<and> rej' = rej \<and> block_rules env fCheckMerkleRoot block"
  using assms by (rule CheckBlock_iff)

text \<open>Bytes of words, for evaluation. A node that does not check the work, in its initial download, at height 1.\<close>

fun le_bytes_int :: "nat \<Rightarrow> int \<Rightarrow> bytes" where
  "le_bytes_int 0 n = []"
| "le_bytes_int (Suc k) n = word_of_int (n mod 256) # le_bytes_int k (n div 256)"

lemma le_bytes_int: "le_bytes k n = le_bytes_int k (int n)"
proof (induction k arbitrary: n)
  case (Suc k)
  have "(of_nat n :: byte) = word_of_int (int n mod 256)" by transfer (simp add: take_bit_eq_mod)
  then show ?case using Suc by (simp add: zdiv_int)
qed simp

lemma WRITEDATA_code [code]: "WRITEDATA (w :: 'a::len word) = le_bytes_int (LENGTH('a) div 8) (uint w)"
  by (simp add: WRITEDATA_def le_bytes_int)

definition fee_store :: block_store where
  "fee_store = [CBlockIndex_null\<lparr>phashBlock := Some 90, bi_nHeight := 0\<rparr>,
     CBlockIndex_null\<lparr>phashBlock := Some 99, pprev := Some 0, bi_nHeight := 1, nMoneySupply := 12\<rparr>]"

definition fee_env :: block_env where
  "fee_env = \<lparr>be_node = demo_env\<lparr>InitialBlockDownload := True\<rparr>, be_pow = mainPow\<lparr>SkipProofOfWorkCheck := True\<rparr>, be_mn = demo_mn\<lparr>me_store := fee_store\<rparr>,
     be_payments = CMasternodePayments_new, be_Hash = (\<lambda>bs. 1000 + ucast (hd bs)), be_HashKeccak256 = (\<lambda>bs. 1000 + ucast (hd bs)),
     be_HashPair = (\<lambda>a b. a + b),
     be_BlockFiltering = False, be_LockedInputs = (\<lambda>_. None), be_mapBlockIndex = [99 \<mapsto> 1], be_HashGenesisBlock = 0,
     be_CheckpointsEnabled = False, be_mapCheckpoints = [], be_Time = 0\<rparr>"

definition coinbase_block :: CBlock where
  "coinbase_block = \<lparr>hdr_nVersion = 3, hashPrevBlock = 99, hashMerkleRoot = 1001, nTime = 0, nBits = 0, nNonce = 0,
     vtx = [demo_coinbase], vchBlockSig = []\<rparr>"

lemma fee_limit: "0 \<le> MaxMoneyOut (be_Params fee_env)" "MaxMoneyOut (be_Params fee_env) < 2 ^ 62"
  by (simp_all add: fee_env_def demo_env_def mainParams_def COIN_def)

lemma coinbase_block_sizes: "GetSerializeSize demo_coinbase \<le> 200" "length (SerializeBlock coinbase_block) \<le> 300"
  "GetLegacySigOpCount demo_coinbase = 0" "merkle_ok fee_env coinbase_block" "payee_ok fee_env coinbase_block"
  "IsCoinBase demo_coinbase" "CheckProofOfWork (be_pow fee_env) (Block_GetHash fee_env coinbase_block) (nBits coinbase_block)"
  "\<not> IsProofOfStake coinbase_block"
  subgoal by code_simp
  subgoal by code_simp
  subgoal by code_simp
  subgoal by code_simp
  subgoal by code_simp
  subgoal by code_simp
  subgoal by code_simp
  subgoal by code_simp
  done

lemma coinbase_block_rules: "block_rules fee_env True coinbase_block"
proof -
  have w: "well_formed_tx (MaxMoneyOut mainParams) demo_coinbase"
    using coinbase_block_sizes(1,6)
    by (simp add: well_formed_tx_def MAX_BLOCK_SIZE_def out_ok_def demo_coinbase_def mainParams_def COIN_def)
  show ?thesis
    using coinbase_block_sizes w
    by (simp add: block_rules_def block_time_ok_def order_ok_def txs_ok_def GetBlockTime_def)
      (simp add: coinbase_block_def fee_env_def demo_env_def)
qed

theorem CheckBlock_accepts_iff_witness:
  "block_rules fee_env True coinbase_block \<and>
   CheckBlock fee_env coinbase_block CValidationState_new True (\<lambda>_. None) = Some (True, CValidationState_new, \<lambda>_. None)"
  using CheckBlock_accepts_iff [OF fee_limit, of coinbase_block CValidationState_new True "\<lambda>_. None" CValidationState_new "\<lambda>_. None"]
    coinbase_block_rules
  by simp

text \<open>C30: the hash of a block determines its transactions. If two blocks pass \<^verbatim>\<open>CheckBlock\<close> with the check of the Merkle
  root and have the same hash, they have the same header and the same transactions, provided
  the hash functions have no collisions on what the two blocks hash. Only the block signature is not bound.\<close>

theorem CheckBlock_binding:
  assumes "0 \<le> MaxMoneyOut (be_Params env)" "MaxMoneyOut (be_Params env) < 2 ^ 62"
    and "CheckBlock env a st True rej = Some (True, st1, rej1)" "CheckBlock env b st' True rej' = Some (True, st2, rej2)"
    and "Block_GetHash env a = Block_GetHash env b" "list_all valid_tx (vtx a)" "list_all valid_tx (vtx b)"
    and "inj_on (be_HashKeccak256 env) {SerializeHeader a, SerializeHeader b}"
    and "inj_on (be_Hash env) (SerializeTx ` (set (vtx a) \<union> set (vtx b)))"
    and "let pairs = set (merkle_pairs (be_HashPair env) (map (GetHash (be_Hash env)) (vtx a))) \<union>
                     set (merkle_pairs (be_HashPair env) (map (GetHash (be_Hash env)) (vtx b)))
         in inj_on (case_prod (be_HashPair env)) pairs \<and>
            GetHash (be_Hash env) ` (set (vtx a) \<union> set (vtx b)) \<inter> case_prod (be_HashPair env) ` pairs = {}"
  shows "SerializeHeader a = SerializeHeader b \<and> vtx a = vtx b"
proof
  show h: "SerializeHeader a = SerializeHeader b" 
    by (rule inj_onD [OF assms(8) assms(5) [unfolded Header_GetHash_def]]) simp_all
  have "block_rules env True a" "block_rules env True b" using CheckBlock_iff [OF assms(1,2)] assms(3,4) by blast+
  then have ok: "merkle_ok env a" "merkle_ok env b" "vtx a \<noteq> []" "vtx b \<noteq> []" by (auto simp: block_rules_def order_ok_def)
  have "GetBlockHeader a = GetBlockHeader b"
    by (rule header_codec.ser_inj) (simp_all add: SerializeHeader_GetBlockHeader h)
  then have root: "hashMerkleRoot a = hashMerkleRoot b" by (simp add: GetBlockHeader_def)
  let ?ids = "\<lambda>c. map (GetHash (be_Hash env)) (vtx c)"
  have "?ids a = ?ids b"
    by (rule merkle_root_binding [where H = "be_HashPair env"])
      (use ok root assms(10) in \<open>simp_all add: merkle_ok_def Let_def BuildMerkleTree_eq image_Un\<close>)
  then have "map SerializeTx (vtx a) = map SerializeTx (vtx b)"
    using assms(9) by (auto simp: GetHash_def list_eq_iff_nth_eq inj_on_def)
  then show "vtx a = vtx b"
    using assms(6,7) tx_codec.ser_inj by (auto simp: list_eq_iff_nth_eq list_all_length)
qed

text \<open>The same block with a signature, which is not read for a proof-of-work block.\<close>

definition signed_block :: CBlock where
  "signed_block = coinbase_block\<lparr>vchBlockSig := [1]\<rparr>"

lemma signed_block_sizes: "length (SerializeBlock signed_block) \<le> 300" "merkle_ok fee_env signed_block"
  "payee_ok fee_env signed_block" "\<not> IsProofOfStake signed_block"
  "CheckProofOfWork (be_pow fee_env) (Block_GetHash fee_env signed_block) (nBits signed_block)"
  subgoal by code_simp
  subgoal by code_simp
  subgoal by code_simp
  subgoal by code_simp
  subgoal by code_simp
  done

lemma signed_block_rules: "block_rules fee_env True signed_block"
  using coinbase_block_rules signed_block_sizes
  by (simp add: block_rules_def block_time_ok_def order_ok_def txs_ok_def GetBlockTime_def)
    (simp add: signed_block_def coinbase_block_def fee_env_def demo_env_def)

theorem CheckBlock_binding_witness:
  "CheckBlock fee_env coinbase_block CValidationState_new True (\<lambda>_. None) = Some (True, CValidationState_new, \<lambda>_. None) \<and>
   CheckBlock fee_env signed_block CValidationState_new True (\<lambda>_. None) = Some (True, CValidationState_new, \<lambda>_. None) \<and>
   SerializeHeader coinbase_block = SerializeHeader signed_block \<and> vtx coinbase_block = vtx signed_block \<and>
   coinbase_block \<noteq> signed_block"
proof -
  have c: "CheckBlock fee_env coinbase_block CValidationState_new True (\<lambda>_. None) = Some (True, CValidationState_new, \<lambda>_. None)"
    "CheckBlock fee_env signed_block CValidationState_new True (\<lambda>_. None) = Some (True, CValidationState_new, \<lambda>_. None)"
    using CheckBlock_iff [OF fee_limit, of _ CValidationState_new True "\<lambda>_. None" CValidationState_new "\<lambda>_. None"]
      coinbase_block_rules signed_block_rules by simp_all
  have v: "list_all valid_tx (vtx coinbase_block)" "list_all valid_tx (vtx signed_block)"
    by (simp_all add: signed_block_def coinbase_block_def demo_coinbase_def valid_tx_def valid_txin_def valid_txout_def in_int64_def)
  have h: "Block_GetHash fee_env coinbase_block = Block_GetHash fee_env signed_block"
    by (simp add: Header_GetHash_def SerializeHeader_def signed_block_def)
  have "SerializeHeader coinbase_block = SerializeHeader signed_block \<and> vtx coinbase_block = vtx signed_block"
    by (rule CheckBlock_binding [OF fee_limit c h v])
      (simp_all add: coinbase_block_def signed_block_def SerializeHeader_def)
  then show ?thesis using c by (simp add: signed_block_def coinbase_block_def)
qed

end
