(* ===== verification/Connect_Props.thy ===== *)
theory Connect_Props
  imports Connect_Block Check_Inputs_Props Utxo_Undo Check_Block_Props
begin

text \<open>
  What connecting a block does: the transactions take effect one after the other, each of them spends coins
  that the view then shows, and the block adds to the unspent coins at most what it may create.
\<close>

section \<open>Reference\<close>

text \<open>The transactions of a block, each with the coins that it finds.\<close>

fun found ::
  "(bytes \<Rightarrow> uint256) \<Rightarrow> int \<Rightarrow> (uint256 \<Rightarrow> CCoins option) \<Rightarrow> CTransaction list \<Rightarrow> ((uint256 \<Rightarrow> CCoins option) \<times> CTransaction) list" where
  "found Hash h f [] = []"
| "found Hash h f (tx # txs) = (f, tx) # found Hash h (apply_tx Hash h f tx) txs"

definition tx_value_in :: "(uint256 \<Rightarrow> CCoins option) \<times> CTransaction \<Rightarrow> int" where
  "tx_value_in x = (if IsCoinBase (snd x) then 0 else sum_list (map (spent_value (fst x)) (vin (snd x))))"

definition tx_value_out :: "(uint256 \<Rightarrow> CCoins option) \<times> CTransaction \<Rightarrow> int" where
  "tx_value_out x = sum_list (map nValue (vout (snd x)))"

definition tx_fee :: "(uint256 \<Rightarrow> CCoins option) \<times> CTransaction \<Rightarrow> int" where
  "tx_fee x = (if IsCoinBase (snd x) \<or> IsCoinStake (snd x) then 0 else tx_value_in x - tx_value_out x)"

definition tx_checks :: "bool \<Rightarrow> (uint256 \<Rightarrow> CCoins option) \<times> CTransaction \<Rightarrow> CScriptCheck list" where
  "tx_checks scripts x =
     (if scripts \<and> \<not> IsCoinBase (snd x)
      then map (spent_check (fst x) (snd x) connect_flags False) (zip [0 ..< length (vin (snd x))] (vin (snd x))) else [])"

text \<open>What a transaction of a block must satisfy besides its scripts.\<close>

definition tx_accepted :: "sig_env \<Rightarrow> CChainParams \<Rightarrow> int \<Rightarrow> (uint256 \<Rightarrow> CCoins option) \<times> CTransaction \<Rightarrow> bool" where
  "tx_accepted se P hs x \<longleftrightarrow>
     list_all (\<lambda>t. 0 \<le> nValue t) (vout (snd x)) \<and>
     (IsCoinBase (snd x) \<or>
      accept_inputs se P hs (fst x) (snd x) False connect_flags False \<and> distinct (map prevout (vin (snd x))))"

section \<open>One transaction on a view\<close>

lemma wrap64_wrap64 [simp]: "wrap64 (wrap64 a + b) = wrap64 (a + b)" "wrap64 (a + wrap64 b) = wrap64 (a + b)"
  "wrap64 (wrap64 a - b) = wrap64 (a - b)" "wrap64 (a - wrap64 b) = wrap64 (a - b)"
proof -
  have w: "wrap64 x = (x + 2 ^ 63) mod 2 ^ 64 - 2 ^ 63" for x
    by (simp add: wrap64_def signed_take_bit_eq_take_bit_shift take_bit_eq_mod)
  have m: "((x + 2 ^ 63) mod 2 ^ 64 - 2 ^ 63) mod 2 ^ 64 = x mod 2 ^ 64" for x :: int
    by (metis add_diff_cancel_right' mod_diff_left_eq)
  have e: "wrap64 x = wrap64 y" if "x mod 2 ^ 64 = y mod 2 ^ 64" for x y
    unfolding w using that by (metis mod_add_left_eq)
  show "wrap64 (wrap64 a + b) = wrap64 (a + b)" by (rule e) (metis m w mod_add_left_eq)
  show "wrap64 (a + wrap64 b) = wrap64 (a + b)" by (rule e) (metis m w mod_add_right_eq)
  show "wrap64 (wrap64 a - b) = wrap64 (a - b)" by (rule e) (metis m w mod_diff_left_eq)
  show "wrap64 (a - wrap64 b) = wrap64 (a - b)" by (rule e) (metis m w mod_diff_right_eq)
qed

lemma wrap64_mid [simp]: "wrap64 (a + wrap64 b - c) = wrap64 (a + b - c)"
  using wrap64_wrap64(1) [of b "a - c"] by (simp add: algebra_simps)

lemma accept_inputs_scripts:
  "accept_inputs se P h f tx True fl store \<longleftrightarrow> accept_inputs se P h f tx False fl store \<and>
     list_all (\<lambda>x. run_check se (spent_check f tx fl store x) = Inr ()) (zip [0 ..< length (vin tx)] (vin tx))"
  by (auto simp: accept_inputs_def)

context coins_reader
begin

lemma access_best:
  assumes "cok c" "AccessCoins B c t = (r, c')"
  shows "cache_best best c' = cache_best best c"
proof -
  have "GetCoins B c t = (r, c')" using assms(2) by (simp add: AccessCoins_def GetCoins_def)
  then show ?thesis using cache_get [OF assms(1)] by simp
qed

lemma output_for_best:
  assumes "cok c" "GetOutputFor B c i = (r, c')"
  shows "cache_best best c' = cache_best best c"
proof -
  obtain r0 c0 where a: "AccessCoins B c (outpoint_hash (prevout i)) = (r0, c0)" by fastforce
  then show ?thesis using assms(2) access_best [OF assms(1) a] by (auto simp: GetOutputFor_def split: option.splits)
qed

lemma sigops_loop_keeps:
  assumes "cok c" "p2sh_sigops_loop B c is n = (r, c')"
  shows "cok c' \<and> ccontent c' = ccontent c \<and> cache_best best c' = cache_best best c"
  using assms
proof (induction "is" arbitrary: c n)
  case (Cons i "is")
  obtain r0 c0 where o: "GetOutputFor B c i = (r0, c0)" by fastforce
  note g = output_for [OF Cons.prems(1) o] output_for_best [OF Cons.prems(1) o]
  show ?case using Cons.prems(2) Cons.IH [of c0] o g by (auto split: option.splits if_splits)
qed simp

lemma value_in_keeps:
  assumes "cok c" "value_in_loop B c is acc = (r, c')"
  shows "cok c' \<and> ccontent c' = ccontent c \<and> cache_best best c' = cache_best best c \<and>
    (r \<noteq> None \<longrightarrow> r = Some (if is = [] then acc else wrap64 (acc + sum_list (map (spent_value (ccontent c)) is))))"
  using assms
proof (induction "is" arbitrary: c acc)
  case (Cons i "is")
  obtain r0 c0 where o: "GetOutputFor B c i = (r0, c0)" by fastforce
  note g = output_for [OF Cons.prems(1) o] output_for_best [OF Cons.prems(1) o]
  show ?case
  proof (cases r0)
    case (Some t)
    then have "content_out (ccontent c) (prevout i) = Some t" using g by metis
    then have t: "spent_value (ccontent c) i = nValue t" by (simp add: spent_value_def)
    have "value_in_loop B c0 is (wrap64 (acc + nValue t)) = (r, c')" using Cons.prems(2) o Some by simp
    from Cons.IH [OF _ this] show ?thesis using g t by (simp add: add.assoc split: if_splits)
  qed (use Cons.prems(2) o g in auto)
qed simp

lemma inputs_loop_best:
  assumes "cok c" "inputs_loop P B h is acc c = Some (r, c')"
  shows "cok c' \<and> cache_best best c' = cache_best best c"
  using assms
proof (induction "is" arbitrary: c acc)
  case (Cons i "is")
  obtain r0 c0 where a: "AccessCoins B c (outpoint_hash (prevout i)) = (r0, c0)" by fastforce
  note g = access [OF Cons.prems(1) a] access_best [OF Cons.prems(1) a]
  show ?case using Cons.prems(2) Cons.IH [of c0] a g by (auto simp: Let_def split: option.splits if_splits)
qed simp

lemma scripts_loop_best:
  assumes "cok c" "scripts_loop se B tx fl store xs pv c = Some (r, pv', c')"
  shows "cok c' \<and> cache_best best c' = cache_best best c"
  using assms
proof (induction xs arbitrary: c pv)
  case (Cons x xs)
  obtain i txin where x: "x = (i, txin)" by fastforce
  obtain r0 c0 where a: "AccessCoins B c (outpoint_hash (prevout txin)) = (r0, c0)" by fastforce
  note g = access [OF Cons.prems(1) a] access_best [OF Cons.prems(1) a]
  show ?case using Cons.prems(2) Cons.IH [of c0] a g x by (auto split: option.splits if_splits sum.splits)
qed simp

lemma spend_inputs_best:
  assumes "cok c" "spend_inputs B c ins us = Some (us', c')"
  shows "cok c' \<and> cache_best best c' = cache_best best c"
  using assms
proof (induction ins arbitrary: c us)
  case (Cons i ins)
  obtain c1 x where m: "modify_with B (spend_entry (prevout i)) c (outpoint_hash (prevout i)) = Some (fst (spend_entry (prevout i) x), c1)"
    "cok c1" "cache_best best c1 = cache_best best c" using modify_with_spec [OF Cons.prems(1)] by blast
  show ?case using Cons.prems(2) m Cons.IH [OF m(2)] by (auto split: option.splits)
qed simp

lemma update_best:
  assumes "cok c" "UpdateCoins Hash B tx c u0 h = Some (u, c')"
  shows "cache_best best c' = cache_best best c"
proof -
  obtain us c1 where s: "if IsCoinBase tx then us = vprevout u0 \<and> c1 = c else spend_inputs B c (vin tx) (vprevout u0) = Some (us, c1)"
    and w: "with_coins B (\<lambda>_. FromTx tx h) c1 (GetHash Hash tx) = Some c'"
    using assms(2) by (auto simp: UpdateCoins_def bind_eq_Some_conv split: if_splits)
  have c1: "cok c1" "cache_best best c1 = cache_best best c" using s assms(1) spend_inputs_best [OF assms(1)] by (auto split: if_splits)
  show ?thesis using with_coins_spec [OF c1(1), of "\<lambda>_. FromTx tx h" "GetHash Hash tx"] w c1(2) by auto
qed

text \<open>A transaction that \<^verbatim>\<open>CheckInputs\<close> accepts satisfies the rules; its scripts succeed, or are collected.\<close>

lemma check_inputs_accepted:
  assumes "cok c" "\<not> IsCoinBase tx" "CheckInputs se P heightOf B tx st c scripts fl store pv = Some (True, st', pv', c')"
    and "MaxMoneyOut P < 2 ^ 62" "0 \<le> MaxMoneyOut P" "list_all (\<lambda>t. in_int64 (nValue t)) (vout tx)"
    and "heightOf (cache_best best c) = Some h"
  shows "cok c' \<and> ccontent c' = ccontent c \<and> cache_best best c' = cache_best best c \<and>
    accept_inputs se P (h + 1) (ccontent c) tx False fl store \<and>
    (let checks = map (spent_check (ccontent c) tx fl store) (zip [0 ..< length (vin tx)] (vin tx)) in
     case pv of
       None \<Rightarrow> pv' = None \<and> (scripts \<longrightarrow> list_all (\<lambda>chk. run_check se chk = Inr ()) checks)
     | Some cs \<Rightarrow> pv' = Some (if scripts then cs @ checks else cs))"
proof -
  let ?f = "ccontent c"
  obtain r1 c1 where h1: "have_inputs_loop B c (vin tx) = (r1, c1)" by fastforce
  note H = have_inputs [OF assms(1) h1] and H2 = have_inputs_best [OF assms(1) h1]
  obtain b c2 where b: "GetBestBlock B c1 = (b, c2)" by fastforce
  note B2 = cache_get_best [OF conjunct1 [OF H] b]
  have r1: "r1" using assms(2,3) h1 by (cases r1) (auto simp: CheckInputs_def HaveInputs_def)
  then have av: "list_all (\<lambda>i. content_out ?f (prevout i) \<noteq> None) (vin tx)" using H by simp
  have c2: "cok c2" "ccontent c2 = ?f" "cache_best best c2 = cache_best best c" "heightOf b = Some h"
    using B2 H H2 assms(7) by simp_all
  obtain r3 c3 where L: "inputs_loop P B (h + 1) (vin tx) 0 c2 = Some (r3, c3)" "cok c3" "ccontent c3 = ?f"
    "let good = (list_all (spendable P (h + 1) ?f) (vin tx) \<and> list_all (\<lambda>i. 0 \<le> spent_value ?f i) (vin tx) \<and>
         sum_list (map (spent_value ?f) (vin tx)) \<le> MaxMoneyOut P)
     in if good then r3 = Inr (sum_list (map (spent_value ?f) (vin tx))) else r3 \<in> range Inl"
    using inputs_loop_spec [OF assms(4) c2(1), of "vin tx" 0 "h + 1"] av c2(2) assms(5) by auto
  have b3: "cache_best best c3 = cache_best best c" using inputs_loop_best [OF c2(1) L(1)] c2(3) by simp
  have start: "CheckInputs se P heightOf B tx st c scripts fl store pv =
      (case r3 of Inl r \<Rightarrow> Some (False, reject_state st r, pv, c3)
       | Inr nValueIn \<Rightarrow> (case fee_rejection P tx nValueIn of
           None \<Rightarrow> None
         | Some (Some r) \<Rightarrow> Some (False, reject_state st r, pv, c3)
         | Some None \<Rightarrow> if \<not> scripts then Some (True, st, pv, c3)
             else (case scripts_loop se B tx fl store (zip [0 ..< length (vin tx)] (vin tx)) pv c3 of
                     None \<Rightarrow> None
                   | Some (Some r, pv, c4) \<Rightarrow> Some (False, reject_state st r, pv, c4)
                   | Some (None, pv, c4) \<Rightarrow> Some (True, st, pv, c4))))"
    using h1 r1 b c2(4) L(1) assms(2) by (simp add: CheckInputs_def HaveInputs_def split: sum.split)
  obtain v where r3: "r3 = Inr v" using assms(3) unfolding start by (cases r3) auto
  then have good: "list_all (spendable P (h + 1) ?f) (vin tx)" "list_all (\<lambda>i. 0 \<le> spent_value ?f i) (vin tx)"
    "sum_list (map (spent_value ?f) (vin tx)) \<le> MaxMoneyOut P" "v = sum_list (map (spent_value ?f) (vin tx))"
    using L(4) by (auto simp: Let_def split: if_splits)
  have "0 \<le> v" using good by (auto intro!: sum_list_nonneg simp: list_all_iff)
  note fee = fee_rejection_iff [OF assms(6) this _ assms(4)]
  have "fee_rejection P tx v = Some None" using assms(3) r3 unfolding start by (auto split: option.splits)
  then have acc: "accept_inputs se P (h + 1) ?f tx False fl store" using fee good by (simp add: accept_inputs_def split: if_splits)
  have av2: "list_all (\<lambda>x. content_out (ccontent c3) (prevout (snd x)) \<noteq> None \<and> vin tx ! fst x = snd x) (zip [0 ..< length (vin tx)] (vin tx))"
    using zip_upt [of "vin tx"] av L(3) by (auto simp: list_all_iff)
  show ?thesis
  proof (cases scripts)
    case False
    then show ?thesis using assms(3) r3 \<open>fee_rejection P tx v = Some None\<close> acc L(2,3) b3 unfolding start
      by (auto split: option.split)
  next
    case True
    then obtain S: "scripts_loop se B tx fl store (zip [0 ..< length (vin tx)] (vin tx)) pv c3 = Some (None, pv', c')"
      using assms(3) r3 \<open>fee_rejection P tx v = Some None\<close> unfolding start by (auto split: option.splits)
    note best = scripts_loop_best [OF L(2) S]
    show ?thesis
    proof (cases pv)
      case None
      then show ?thesis using scripts_loop_spec [OF L(2) av2, of se fl store] S True best acc b3 L(3)
        by (auto simp: list.pred_map comp_def)
    next
      case (Some cs)
      then show ?thesis using scripts_loop_collect [OF L(2) av2, of se fl store cs] S True best acc b3 L(3) by auto
    qed
  qed
qed

lemma connect_inputs_spec:
  assumes "cok (bw_view w)" "\<not> IsCoinBase tx"
    and "connect_inputs se env B scripts connect_flags threads tx st w = Some (Inr w')"
    and "MaxMoneyOut (be_Params env) < 2 ^ 62" "0 \<le> MaxMoneyOut (be_Params env)" "list_all (\<lambda>t. in_int64 (nValue t)) (vout tx)"
    and "be_mapBlockIndex env (cache_best best (bw_view w)) = Some q" "in_int64 (bw_fees w)"
  shows "\<exists>n. cok (bw_view w') \<and> ccontent (bw_view w') = ccontent (bw_view w) \<and>
    cache_best best (bw_view w') = cache_best best (bw_view w) \<and>
    accept_inputs se (be_Params env) (int (bi_nHeight (be_store env ! q)) + 1) (ccontent (bw_view w)) tx False connect_flags False \<and>
    (let x = (ccontent (bw_view w), tx) in
     w' = w\<lparr>bw_view := bw_view w', bw_sigops := n, bw_fees := wrap64 (bw_fees w + tx_fee x),
             bw_in := wrap64 (bw_in w + tx_value_in x),
             bw_checks := bw_checks w @ (if threads then tx_checks scripts x else [])\<rparr> \<and>
     (threads \<or> list_all (\<lambda>chk. run_check se chk = Inr ()) (tx_checks scripts x)))"
proof -
  let ?c = "bw_view w" and ?hf = "\<lambda>h. map_option (\<lambda>p. int (bi_nHeight (be_store env ! p))) (be_mapBlockIndex env h)"
  let ?x = "(ccontent ?c, tx)"
  obtain r1 c1 where h1: "have_inputs_loop B ?c (vin tx) = (r1, c1)" by fastforce
  note H = have_inputs [OF assms(1) h1] have_inputs_best [OF assms(1) h1]
  obtain r2 c2 where h2: "p2sh_sigops_loop B c1 (vin tx) 0 = (r2, c2)" by fastforce
  have c1: "cok c1" "ccontent c1 = ccontent ?c" "cache_best best c1 = cache_best best ?c" using H by simp_all
  note S = sigops_loop_keeps [OF c1(1) h2]
  obtain r3 c3 where h3: "value_in_loop B c2 (vin tx) 0 = (r3, c3)" by fastforce
  have c2: "cok c2" "ccontent c2 = ccontent ?c" "cache_best best c2 = cache_best best ?c" using S c1 by simp_all
  note V = value_in_keeps [OF c2(1) h3]
  obtain n2 v3 where r: "r1" "r2 = Some n2" "\<not> too_many_sigops (bw_sigops w + n2)" "r3 = Some v3"
    using assms(2,3) h1 h2 h3
    by (auto simp: connect_inputs_def HaveInputs_def GetP2SHSigOpCount_def GetValueIn_def Let_def split: bool.splits option.splits if_splits)
  have in_eq: "v3 = wrap64 (tx_value_in ?x)" using V r(4) c2(2) assms(2) by (auto simp: tx_value_in_def in_int64_def split: if_splits)
  have c3: "cok c3" "ccontent c3 = ccontent ?c" "cache_best best c3 = cache_best best ?c" using V c2 by simp_all
  let ?fees = "if IsCoinStake tx then Some (bw_fees w)
     else case GetValueOut tx of Inl _ \<Rightarrow> None | Inr valueOut \<Rightarrow> Some (wrap64 (bw_fees w + wrap64 (v3 - valueOut)))"
  have start: "connect_inputs se env B scripts connect_flags threads tx st w =
      Option.bind ?fees (\<lambda>fees.
        case CheckInputs se (be_Params env) ?hf B tx st c3 scripts connect_flags False (if threads then Some [] else None) of
          None \<Rightarrow> None
        | Some (False, st', _, c4) \<Rightarrow> Some (Inl (st', c4))
        | Some (True, _, pv, c4) \<Rightarrow>
            Some (Inr (w\<lparr>bw_view := c4, bw_sigops := bw_sigops w + n2, bw_fees := fees, bw_in := wrap64 (bw_in w + v3),
                         bw_checks := bw_checks w @ (case pv of None \<Rightarrow> [] | Some cs \<Rightarrow> cs)\<rparr>)))"
    using h1 h2 h3 r assms(2)
    by (auto simp: connect_inputs_def HaveInputs_def GetP2SHSigOpCount_def GetValueIn_def Let_def)
  obtain fees where fees: "?fees = Some fees" using assms(3) unfolding start by (auto simp: bind_eq_Some_conv)
  have vo: "GetValueOut tx = Inr v \<Longrightarrow> v = tx_value_out ?x" for v
    using GetValueOut_iff [OF assms(6), of v] by (simp add: tx_value_out_def)
  have fee_eq: "fees = wrap64 (bw_fees w + tx_fee ?x)"
    using fees in_eq assms(2,8)
    by (auto dest!: vo simp: tx_fee_def split: if_splits sum.splits)
  obtain st' pv c4 where C: "CheckInputs se (be_Params env) ?hf B tx st c3 scripts connect_flags False (if threads then Some [] else None) =
      Some (True, st', pv, c4)" and w': "w' = w\<lparr>bw_view := c4, bw_sigops := bw_sigops w + n2, bw_fees := fees,
        bw_in := wrap64 (bw_in w + v3), bw_checks := bw_checks w @ (case pv of None \<Rightarrow> [] | Some cs \<Rightarrow> cs)\<rparr>"
    using assms(3) fees unfolding start by (auto split: option.splits bool.splits)
  have "?hf (cache_best best c3) = Some (int (bi_nHeight (be_store env ! q)))" using c3 assms(7) by simp
  note A = check_inputs_accepted [OF c3(1) assms(2) C assms(4-6) this]
  show ?thesis
    using A c3 in_eq assms(2) unfolding w' fee_eq
    by (intro exI [of _ "bw_sigops w + n2"]) (cases threads; auto simp: tx_checks_def Let_def)
qed

lemma connect_tx_spec:
  assumes "cok (bw_view w)" "connect_tx se env B scripts connect_flags threads h st (i, tx) w = Some (Inr w')"
    and "MaxMoneyOut (be_Params env) < 2 ^ 62" "0 \<le> MaxMoneyOut (be_Params env)" "list_all (\<lambda>t. in_int64 (nValue t)) (vout tx)"
    and "be_mapBlockIndex env (cache_best best (bw_view w)) = Some q" "in_int64 (bw_fees w)" "in_int64 (bw_in w)"
  shows "cok (bw_view w') \<and> ccontent (bw_view w') = apply_tx (be_Hash env) h (ccontent (bw_view w)) tx \<and>
    cache_best best (bw_view w') = cache_best best (bw_view w) \<and> in_int64 (bw_fees w') \<and> in_int64 (bw_in w') \<and>
    (let x = (ccontent (bw_view w), tx) in
     tx_accepted se (be_Params env) (int (bi_nHeight (be_store env ! q)) + 1) x \<and>
     bw_fees w' = wrap64 (bw_fees w + tx_fee x) \<and> bw_in w' = wrap64 (bw_in w + tx_value_in x) \<and>
     bw_out w' = wrap64 (bw_out w + tx_value_out x) \<and>
     bw_checks w' = bw_checks w @ (if threads then tx_checks scripts x else []) \<and>
     (threads \<or> list_all (\<lambda>chk. run_check se chk = Inr ()) (tx_checks scripts x)))"
proof -
  let ?x = "(ccontent (bw_view w), tx)" and ?P = "be_Params env"
  let ?w1 = "w\<lparr>bw_sigops := bw_sigops w + GetLegacySigOpCount tx\<rparr>"
  obtain w2 where w2: "(if IsCoinBase tx then Some (Inr ?w1) else connect_inputs se env B scripts connect_flags threads tx st ?w1) = Some (Inr w2)"
    using assms(2) by (auto simp: connect_tx_def Let_def split: if_splits option.splits sum.splits)
  obtain v u c where v: "GetValueOut tx = Inr v" and u: "UpdateCoins (be_Hash env) B tx (bw_view w2) \<lparr>vprevout = []\<rparr> h = Some (u, c)"
    and w': "bw_view w' = c" "bw_out w' = wrap64 (bw_out w2 + v)" "bw_fees w' = bw_fees w2" "bw_in w' = bw_in w2"
      "bw_checks w' = bw_checks w2"
    using assms(2) w2 by (auto simp: connect_tx_def Let_def split: if_splits sum.splits option.splits)
  have vout: "list_all (\<lambda>t. 0 \<le> nValue t) (vout tx)" "v = tx_value_out ?x"
    using GetValueOut_iff [OF assms(5), of v] v by (simp_all add: tx_value_out_def)
  have W: "cok (bw_view w2) \<and> ccontent (bw_view w2) = ccontent (bw_view w) \<and>
      cache_best best (bw_view w2) = cache_best best (bw_view w) \<and> bw_out w2 = bw_out w \<and>
      (IsCoinBase tx \<or> accept_inputs se ?P (int (bi_nHeight (be_store env ! q)) + 1) (ccontent (bw_view w)) tx False connect_flags False) \<and>
      bw_fees w2 = wrap64 (bw_fees w + tx_fee ?x) \<and> bw_in w2 = wrap64 (bw_in w + tx_value_in ?x) \<and>
      bw_checks w2 = bw_checks w @ (if threads then tx_checks scripts ?x else []) \<and>
      (threads \<or> list_all (\<lambda>chk. run_check se chk = Inr ()) (tx_checks scripts ?x))"
  proof (cases "IsCoinBase tx")
    case True
    then show ?thesis using w2 assms(1,7,8) by (auto simp: tx_fee_def tx_value_in_def tx_checks_def)
  next
    case False
    then have ci: "connect_inputs se env B scripts connect_flags threads tx st ?w1 = Some (Inr w2)" using w2 by simp
    obtain n where n: "w2 = ?w1\<lparr>bw_view := bw_view w2, bw_sigops := n, bw_fees := wrap64 (bw_fees w + tx_fee ?x),
             bw_in := wrap64 (bw_in w + tx_value_in ?x),
             bw_checks := bw_checks w @ (if threads then tx_checks scripts ?x else [])\<rparr>"
      "cok (bw_view w2)" "ccontent (bw_view w2) = ccontent (bw_view w)" "cache_best best (bw_view w2) = cache_best best (bw_view w)"
      "accept_inputs se ?P (int (bi_nHeight (be_store env ! q)) + 1) (ccontent (bw_view w)) tx False connect_flags False"
      "threads \<or> list_all (\<lambda>chk. run_check se chk = Inr ()) (tx_checks scripts ?x)"
      using connect_inputs_spec [of ?w1, OF _ False ci assms(3-5)] assms(1,6,7) by (auto simp: Let_def)
    have "bw_out w2 = bw_out w" "bw_fees w2 = wrap64 (bw_fees w + tx_fee ?x)" "bw_in w2 = wrap64 (bw_in w + tx_value_in ?x)"
      "bw_checks w2 = bw_checks w @ (if threads then tx_checks scripts ?x else [])" by (subst n(1), simp)+
    then show ?thesis using n(2-6) by simp
  qed
  have ok2: "cok (bw_view w2)" using W by simp
  show ?thesis
    using update_refines [OF ok2, where Hash = "be_Hash env" and tx = tx and h = h and ?u0.0 = "\<lparr>vprevout = []\<rparr>"]
      update_best [OF ok2 u] u W vout w' by (auto simp: tx_accepted_def Let_def)
qed

lemma connect_loop_spec:
  assumes "MaxMoneyOut (be_Params env) < 2 ^ 62" "0 \<le> MaxMoneyOut (be_Params env)"
  shows "cok (bw_view w) \<Longrightarrow> connect_loop se env B scripts connect_flags threads h st itxs w = Some (Inr w') \<Longrightarrow>
    list_all (\<lambda>itx. list_all (\<lambda>t. in_int64 (nValue t)) (vout (snd itx))) itxs \<Longrightarrow>
    be_mapBlockIndex env (cache_best best (bw_view w)) = Some q \<Longrightarrow>
    in_int64 (bw_fees w) \<Longrightarrow> in_int64 (bw_in w) \<Longrightarrow> in_int64 (bw_out w) \<Longrightarrow>
    (let xs = found (be_Hash env) h (ccontent (bw_view w)) (map snd itxs) in
     cok (bw_view w') \<and> ccontent (bw_view w') = foldl (apply_tx (be_Hash env) h) (ccontent (bw_view w)) (map snd itxs) \<and>
     cache_best best (bw_view w') = cache_best best (bw_view w) \<and>
     list_all (tx_accepted se (be_Params env) (int (bi_nHeight (be_store env ! q)) + 1)) xs \<and>
     bw_fees w' = wrap64 (bw_fees w + sum_list (map tx_fee xs)) \<and> bw_in w' = wrap64 (bw_in w + sum_list (map tx_value_in xs)) \<and>
     bw_out w' = wrap64 (bw_out w + sum_list (map tx_value_out xs)) \<and>
     bw_checks w' = bw_checks w @ (if threads then concat (map (tx_checks scripts) xs) else []) \<and>
     (threads \<or> list_all (\<lambda>x. list_all (\<lambda>chk. run_check se chk = Inr ()) (tx_checks scripts x)) xs))"
proof (induction itxs arbitrary: w)
  case (Cons itx itxs)
  obtain i tx where itx: "itx = (i, tx)" by fastforce
  obtain w1 where w1: "connect_tx se env B scripts connect_flags threads h st (i, tx) w = Some (Inr w1)"
    "connect_loop se env B scripts connect_flags threads h st itxs w1 = Some (Inr w')"
    using Cons.prems(2) by (auto simp: itx split: option.splits sum.splits)
  have v: "list_all (\<lambda>t. in_int64 (nValue t)) (vout tx)" using Cons.prems(3) by (simp add: itx)
  note T = connect_tx_spec [OF Cons.prems(1) w1(1) assms v Cons.prems(4-6)]
  have "bw_out w1 = wrap64 (bw_out w + tx_value_out (ccontent (bw_view w), tx))" using T by (simp add: Let_def)
  then have o1: "in_int64 (bw_out w1)" by simp
  have "cok (bw_view w1)" "be_mapBlockIndex env (cache_best best (bw_view w1)) = Some q" "in_int64 (bw_fees w1)" "in_int64 (bw_in w1)"
    using T Cons.prems(4) by simp_all
  from Cons.IH [OF this(1) w1(2) _ this(2-4) o1] T Cons.prems(3) show ?case
    by (auto simp: itx Let_def add.assoc)
qed simp

lemma bip30_loop_keeps:
  assumes "cok c" "bip30_loop Hash B c txs = (r, c')"
  shows "cok c' \<and> ccontent c' = ccontent c \<and> cache_best best c' = cache_best best c \<and>
    (r \<longrightarrow> list_all (\<lambda>tx. ccontent c (GetHash Hash tx) = None) txs)"
  using assms
proof (induction txs arbitrary: c)
  case (Cons tx txs)
  obtain r0 c0 where a: "AccessCoins B c (GetHash Hash tx) = (r0, c0)" by fastforce
  then have g: "GetCoins B c (GetHash Hash tx) = (r0, c0)" by (simp add: AccessCoins_def GetCoins_def)
  note g = cache_get [OF Cons.prems(1) g]
  show ?case using Cons.prems(2) Cons.IH [of c0] a g by (auto simp: live_def split: option.splits if_splits)
qed simp

end

section \<open>The block\<close>

lemma write_undo_fields:
  assumes "write_undo disk undo hp st p = (r, st', p', d, ws)"
  shows "nMoneySupply p' = nMoneySupply p \<and> nMint p' = nMint p \<and> phashBlock p' = phashBlock p \<and> pprev p' = pprev p \<and>
    bi_nHeight p' = bi_nHeight p"
  using assms by (auto simp: write_undo_def RaiseValidity_def split: if_splits option.splits)

text \<open>The greatest mint that a block may have.\<close>

definition expected_mint :: "block_env \<Rightarrow> CBlock \<Rightarrow> int \<Rightarrow> camount \<Rightarrow> camount option" where
  "expected_mint env block hprev fees =
     Option.bind (GetBlockValue (be_Params env) (be_store env) (be_chain env) hprev) (\<lambda>v.
       map_option (\<lambda>dev. if IsProofOfWork block then wrap64 (wrap64 (v + dev) + fees) else wrap64 (v + dev))
         (GetDevFeeValue (be_Params env) (be_store env) (be_chain env) hprev))"

lemma settle_block_sound:
  assumes "settle_block se disk env block just hp st p stakes rej w = Some r" "cr_ok r"
  shows "\<exists>q limit. pprev p = Some q \<and> expected_mint env block (int (bi_nHeight (be_store env ! q))) (bw_fees w) = Some limit \<and>
    (Tip (be_chain env) = None \<or> nMint (cr_index r) \<le> limit) \<and>
    nMoneySupply (cr_index r) = wrap64 (nMoneySupply (be_store env ! q) + bw_out w - bw_in w) \<and>
    nMint (cr_index r) = wrap64 (bw_out w - bw_in w) \<and> list_all (\<lambda>chk. run_check se chk = Inr ()) (bw_checks w) \<and>
    phashBlock (cr_index r) = phashBlock p \<and> pprev (cr_index r) = pprev p \<and> bi_nHeight (cr_index r) = bi_nHeight p \<and>
    (if just then cr_view r = bw_view w
     else \<exists>h. Index_GetBlockHash p = Some h \<and> cr_view r = SetBestBlock (bw_view w) h)"
proof -
  obtain q where q: "pprev p = Some q" using assms by (auto simp: settle_block_def Let_def split: if_splits option.splits)
  let ?prev = "nMoneySupply (be_store env ! q)"
  let ?supply = "wrap64 (?prev + bw_out w - bw_in w)"
  let ?p1 = "p\<lparr>nMoneySupply := ?supply, nMint := wrap64 (?supply - ?prev)\<rparr>"
  let ?h = "int (bi_nHeight (be_store env ! q))"
  obtain v dev where v: "GetBlockValue (be_Params env) (be_store env) (be_chain env) ?h = Some v"
    "GetDevFeeValue (be_Params env) (be_store env) (be_chain env) ?h = Some dev"
    using assms q by (auto simp: settle_block_def Let_def bind_eq_Some_conv split: if_splits)
  let ?limit = "if IsProofOfWork block then wrap64 (wrap64 (v + dev) + bw_fees w) else wrap64 (v + dev)"
  have limit: "expected_mint env block ?h (bw_fees w) = Some ?limit" using v by (simp add: expected_mint_def)
  have mint: "wrap64 (?supply - ?prev) = wrap64 (bw_out w - bw_in w)" by (simp add: algebra_simps)
  have ok: "io_WriteBlockIndex disk" "IsBlockValueValid (be_mn env) block ?limit (nMint ?p1)"
    "list_all (\<lambda>chk. run_check se chk = Inr ()) (bw_checks w)"
    using assms q v by (auto simp: settle_block_def Let_def split: if_splits)
  have lim: "Tip (be_chain env) = None \<or> nMint ?p1 \<le> ?limit"
    using ok(2) by (auto simp: IsBlockValueValid_def split: option.splits)
  have r: "(if just then Some \<lparr>cr_ok = True, cr_state = st, cr_index = ?p1, cr_view = bw_view w, cr_stakeSpent = stakes,
      cr_dirty = False, cr_writes = [WriteBlockIndex ?p1], cr_rejected = rej\<rparr>
    else finish_block disk env block hp st ?p1 stakes rej [WriteBlockIndex ?p1] w) = Some r"
    using assms(1) q v ok by (simp add: settle_block_def Let_def split: if_splits)
  show ?thesis
  proof (cases just)
    case True
    then have "cr_index r = ?p1" "cr_view r = bw_view w" using r by auto
    then show ?thesis using True q limit lim mint ok(3) by simp
  next
    case False
    then obtain r1 st' p' d ws where u: "write_undo disk (bw_undo w) hp st ?p1 = (r1, st', p', d, ws)"
      and f: "finish_block disk env block hp st ?p1 stakes rej [WriteBlockIndex ?p1] w = Some r"
      using r by (metis prod_cases5)
    note F = write_undo_fields [OF u]
    obtain h where h: "Index_GetBlockHash p' = Some h" "cr_view r = SetBestBlock (bw_view w) h" "cr_index r = p'"
      using f u assms(2) by (auto simp: finish_block_def Let_def split: if_splits bool.splits)
    have "Index_GetBlockHash p = Some h" using h(1) F by (simp add: Index_GetBlockHash_def)
    then show ?thesis using False q limit lim mint ok(3) h F by simp
  qed
qed

text \<open>What a successful connection has gone through.\<close>

lemma ConnectBlock_success:
  assumes "ConnectBlock se disk env B block st p view just fAC stakes rej = Some r" "cr_ok r"
    and "Block_GetHash env block \<noteq> be_HashGenesisBlock env"
  obtains st' rej' hp total c0 c1 w where
    "fAC \<or> CheckBlock env block st (\<not> just) rej = Some (True, st', rej')"
    "GetBestBlock B view = (hp, c0)" "(case pprev p of None \<Rightarrow> Some 0 | Some q \<Rightarrow> Index_GetBlockHash (be_store env ! q)) = Some hp"
    "GetTotalBlocksEstimate env = Some total"
    "if phashBlock p = None then bip30_loop (be_Hash env) B c0 (vtx block) = (True, c1) else c1 = c0"
    "connect_loop se env B (int (bi_nHeight p) \<ge> total) connect_flags (io_ScriptCheckThreads disk) (int (bi_nHeight p)) st'
       (zip [0 ..< length (vtx block)] (vtx block))
       \<lparr>bw_view = c1, bw_sigops = 0, bw_fees = 0, bw_in = 0, bw_out = 0, bw_undo = [], bw_checks = [], bw_pos = [],
        bw_offset = GetSizeOfCompactSize (of_nat (length (vtx block)))\<rparr> = Some (Inr w)"
    "settle_block se disk env block just hp st' p stakes rej' w = Some r"
    "vtx block \<noteq> []"
proof -
  obtain st' rej' where C: "fAC \<or> CheckBlock env block st (\<not> just) rej = Some (True, st', rej')"
    and K: "connect_checked se disk env B block st' p view just stakes rej' = Some r"
    using assms(1,2) by (cases fAC) (auto simp: ConnectBlock_def split: option.splits bool.splits)
  obtain hp c0 where g: "GetBestBlock B view = (hp, c0)" by fastforce
  have hp: "(case pprev p of None \<Rightarrow> Some 0 | Some q \<Rightarrow> Index_GetBlockHash (be_store env ! q)) = Some hp"
    using K g by (auto simp: connect_checked_def Let_def bind_eq_Some_conv split: if_splits)
  obtain total where t: "GetTotalBlocksEstimate env = Some total"
    using K g hp assms(2,3) by (auto simp: connect_checked_def Let_def bind_eq_Some_conv split: if_splits)
  obtain c1 where c1: "(if phashBlock p = None then bip30_loop (be_Hash env) B c0 (vtx block) else (True, c0)) = (True, c1)"
    using K g hp t assms(2,3)
    by (cases "if phashBlock p = None then bip30_loop (be_Hash env) B c0 (vtx block) else (True, c0)")
      (auto simp: connect_checked_def Let_def split: if_splits bool.splits)
  have ne: "vtx block \<noteq> []" using K g hp t c1 assms(2,3) by (auto simp: connect_checked_def Let_def split: if_splits)
  let ?w0 = "\<lparr>bw_view = c1, bw_sigops = 0, bw_fees = 0, bw_in = 0, bw_out = 0, bw_undo = [], bw_checks = [], bw_pos = [],
        bw_offset = GetSizeOfCompactSize (of_nat (length (vtx block)))\<rparr>"
  obtain w where w: "connect_loop se env B (int (bi_nHeight p) \<ge> total) connect_flags (io_ScriptCheckThreads disk)
      (int (bi_nHeight p)) st' (zip [0 ..< length (vtx block)] (vtx block)) ?w0 = Some (Inr w)"
    "settle_block se disk env block just hp st' p stakes rej' w = Some r"
    using K g hp t c1 ne assms(2,3)
    by (auto simp: connect_checked_def Let_def split: if_splits option.splits sum.splits)
  show ?thesis
    by (rule that [OF C g hp t _ w ne]) (use c1 in \<open>cases "phashBlock p"; simp\<close>)
qed

lemma map_snd_zip_upt: "map snd (zip [0 ..< length xs] xs) = xs"
  by (simp add: map_snd_zip_take)

lemma ConnectBlock_facts:
  assumes "view_ok view" "ConnectBlock se disk env tip_ops block st p view just fAC stakes rej = Some r" "cr_ok r"
    and "Block_GetHash env block \<noteq> be_HashGenesisBlock env"
    and "0 \<le> MaxMoneyOut (be_Params env)" "MaxMoneyOut (be_Params env) < 2 ^ 62"
    and "list_all (\<lambda>tx. list_all (\<lambda>t. in_int64 (nValue t)) (vout tx)) (vtx block)"
    and "pprev p = Some q" "be_mapBlockIndex env (cache_best (cache_best db_hash) view) = Some q"
  shows "let xs = found (be_Hash env) (int (bi_nHeight p)) (view_content view) (vtx block) in
    view_content (cr_view r) = foldl (apply_tx (be_Hash env) (int (bi_nHeight p))) (view_content view) (vtx block) \<and>
    Index_GetBlockHash (be_store env ! q) = Some (cache_best (cache_best db_hash) view) \<and>
    (if just then cache_best (cache_best db_hash) (cr_view r) = cache_best (cache_best db_hash) view
     else Index_GetBlockHash p = Some (hashBlock (cr_view r))) \<and>
    list_all (tx_accepted se (be_Params env) (int (bi_nHeight (be_store env ! q)) + 1)) xs \<and>
    (\<exists>total. GetTotalBlocksEstimate env = Some total \<and>
      list_all (\<lambda>x. list_all (\<lambda>chk. run_check se chk = Inr ()) (tx_checks (int (bi_nHeight p) \<ge> total) x)) xs) \<and>
    nMoneySupply (cr_index r) =
      wrap64 (nMoneySupply (be_store env ! q) + (sum_list (map tx_value_out xs) - sum_list (map tx_value_in xs))) \<and>
    nMint (cr_index r) = wrap64 (sum_list (map tx_value_out xs) - sum_list (map tx_value_in xs)) \<and>
    (\<exists>limit. expected_mint env block (int (bi_nHeight (be_store env ! q))) (wrap64 (sum_list (map tx_fee xs))) = Some limit \<and>
      (Tip (be_chain env) = None \<or> nMint (cr_index r) \<le> limit))"
proof -
  let ?inv = "cache_inv tip_ok tip_content cache_held" and ?cc = "cache_content tip_content"
  let ?best = "cache_best (cache_best db_hash)"
  have v: "?inv view" using assms(1) by (simp add: view_ok_def)
  obtain st' rej' hp total c0 c1 w where
    g: "GetBestBlock tip_ops view = (hp, c0)" and hp: "Index_GetBlockHash (be_store env ! q) = Some hp"
    and t: "GetTotalBlocksEstimate env = Some total"
    and b: "if phashBlock p = None then bip30_loop (be_Hash env) tip_ops c0 (vtx block) = (True, c1) else c1 = c0"
    and l: "connect_loop se env tip_ops (int (bi_nHeight p) \<ge> total) connect_flags (io_ScriptCheckThreads disk) (int (bi_nHeight p)) st'
       (zip [0 ..< length (vtx block)] (vtx block))
       \<lparr>bw_view = c1, bw_sigops = 0, bw_fees = 0, bw_in = 0, bw_out = 0, bw_undo = [], bw_checks = [], bw_pos = [],
        bw_offset = GetSizeOfCompactSize (of_nat (length (vtx block)))\<rparr> = Some (Inr w)" (is "connect_loop _ _ _ _ _ _ _ _ _ ?w0 = _")
    and s: "settle_block se disk env block just hp st' p stakes rej' w = Some r"
    by (rule ConnectBlock_success [OF assms(2-4)]) (simp add: assms(8))
  note G = tip.cache_get_best [OF v g]
  have c1: "?inv c1" "?cc c1 = ?cc view" "?best c1 = ?best view"
    using b G tip.bip30_loop_keeps [of c0 "be_Hash env" "vtx block" True c1] by (auto split: if_splits)
  have outs: "list_all (\<lambda>itx. list_all (\<lambda>t. in_int64 (nValue t)) (vout (snd itx))) (zip [0 ..< length (vtx block)] (vtx block))"
    using assms(7) by (auto simp: list_all_iff dest: set_zip_rightD)
  have "?inv (bw_view ?w0)" "be_mapBlockIndex env (?best (bw_view ?w0)) = Some q" "in_int64 (bw_fees ?w0)" "in_int64 (bw_in ?w0)"
    "in_int64 (bw_out ?w0)" using c1 assms(9) by (simp_all add: in_int64_def)
  note L = tip.connect_loop_spec [OF assms(6,5) this(1) l outs this(2-5), unfolded map_snd_zip_upt]
  note S = settle_block_sound [OF s assms(3)]
  have scripts: "list_all (\<lambda>x. list_all (\<lambda>chk. run_check se chk = Inr ()) (tx_checks (int (bi_nHeight p) \<ge> total) x))
      (found (be_Hash env) (int (bi_nHeight p)) (?cc view) (vtx block))"
    using L S c1 by (cases "io_ScriptCheckThreads disk") (auto simp: Let_def list_all_iff)
  show ?thesis
    using L S c1 hp G t scripts assms(8)
    by (cases just) (auto simp: Let_def view_content_def add_diff_eq)
qed

section \<open>Properties\<close>

text \<open>C28: when \<^verbatim>\<open>ConnectBlock\<close> succeeds for a block other than the genesis block, every transaction of the block was acceptable on the coins that the
  transactions before it left: its inputs existed, were unspent, distinct and mature, covered its outputs, and, from
  the height of the last checkpoint on, its scripts succeeded, whether they were run at once or by the check queue; below that height
  they are not run. The view
  then shows the coins after all transactions, and its best block is the new block. The values of the outputs are 64-bit integers, the
  predecessor is in the index, and the limit on money is within \<open>[0, 2^62)\<close>.\<close>

theorem ConnectBlock_applies:
  assumes "view_reach view" "ConnectBlock se disk env tip_ops block st p view False fAC stakes rej = Some r" "cr_ok r"
    and "Block_GetHash env block \<noteq> be_HashGenesisBlock env"
    and "0 \<le> MaxMoneyOut (be_Params env)" "MaxMoneyOut (be_Params env) < 2 ^ 62"
    and "list_all (\<lambda>tx. list_all (\<lambda>t. in_int64 (nValue t)) (vout tx)) (vtx block)"
    and "pprev p = Some q" "be_mapBlockIndex env (cache_best (cache_best db_hash) view) = Some q"
    and "GetTotalBlocksEstimate env = Some lastc"
  shows "let xs = found (be_Hash env) (int (bi_nHeight p)) (view_content view) (vtx block);
             hs = int (bi_nHeight (be_store env ! q)) + 1
    in view_content (cr_view r) = foldl (apply_tx (be_Hash env) (int (bi_nHeight p))) (view_content view) (vtx block) \<and>
       Some (hashBlock (cr_view r)) = Index_GetBlockHash p \<and>
       list_all (\<lambda>(f, tx). list_all (\<lambda>t. 0 \<le> nValue t) (vout tx) \<and>
         (if IsCoinBase tx then True
          else distinct (map prevout (vin tx)) \<and>
               accept_inputs se (be_Params env) hs f tx (int (bi_nHeight p) \<ge> lastc) connect_flags False)) xs"
proof -
  let ?xs = "found (be_Hash env) (int (bi_nHeight p)) (view_content view) (vtx block)"
  note F = ConnectBlock_facts [OF view_reach_ok [OF assms(1)] assms(2-9), unfolded Let_def]
  have a: "list_all (tx_accepted se (be_Params env) (int (bi_nHeight (be_store env ! q)) + 1)) ?xs"
    "list_all (\<lambda>x. list_all (\<lambda>chk. run_check se chk = Inr ()) (tx_checks (int (bi_nHeight p) \<ge> lastc) x)) ?xs"
    using F assms(10) by auto
  have "(\<lambda>(f, tx). list_all (\<lambda>t. 0 \<le> nValue t) (vout tx) \<and>
         (if IsCoinBase tx then True
          else distinct (map prevout (vin tx)) \<and>
               accept_inputs se (be_Params env) (int (bi_nHeight (be_store env ! q)) + 1) f tx (int (bi_nHeight p) \<ge> lastc) connect_flags False)) x"
    if "x \<in> set ?xs" for x
    using that a by (cases "int (bi_nHeight p) \<ge> lastc"; cases x)
      (fastforce simp: list_all_iff tx_accepted_def tx_checks_def accept_inputs_scripts)+
  then show ?thesis using F by (simp add: list_all_iff Let_def)
qed

text \<open>A proof-of-work block with a transaction that pays 2 units of fees, and a coinbase of 4.\<close>

definition fee_coinbase :: CTransaction where
  "fee_coinbase = demo_coinbase\<lparr>vout := [\<lparr>nValue = 4, scriptPubKey = [OP_1]\<rparr>]\<rparr>"

definition fee_tx :: CTransaction where
  "fee_tx = spend_both\<lparr>nVersion := 2, vout := [\<lparr>nValue = 10, scriptPubKey = [OP_3]\<rparr>]\<rparr>"

definition fee_block :: CBlock where
  "fee_block = \<lparr>hdr_nVersion = 3, hashPrevBlock = 99, hashMerkleRoot = 0, nTime = 0, nBits = 0, nNonce = 0,
     vtx = [fee_coinbase, fee_tx], vchBlockSig = []\<rparr>"

definition fee_index :: CBlockIndex where
  "fee_index = CBlockIndex_null\<lparr>phashBlock := Some 1003, pprev := Some 1, bi_nHeight := 2\<rparr>"

definition good_disk :: connect_io where
  "good_disk = \<lparr>io_ScriptCheckThreads = False, io_TxIndex = True, io_FilterPending = (\<lambda>_. False), io_WriteBlockIndex = True,
     io_UndoPos = Some 8, io_WriteUndo = True, io_WriteTxIndex = True\<rparr>"

abbreviation fee_connect :: "tip_cache connect_result option" where
  "fee_connect \<equiv> ConnectBlock demo_sig good_disk fee_env tip_ops fee_block CValidationState_new fee_index fresh_view False True [] (\<lambda>_. None)"

lemma fee_block_connects: "(case fee_connect of None \<Rightarrow> False | Some r \<Rightarrow> cr_ok r \<and> nMint (cr_index r) = 2)"
  by code_simp

lemma fee_block_facts:
  "Block_GetHash fee_env fee_block \<noteq> be_HashGenesisBlock fee_env"
  "GetTotalBlocksEstimate fee_env = Some 0"
  "list_all (\<lambda>tx. list_all (\<lambda>t. - (2 ^ 63) \<le> nValue t \<and> nValue t < 2 ^ 63) (vout tx)) (vtx fee_block)"
  "cache_best (cache_best db_hash) fresh_view = 99"
  subgoal by code_simp
  subgoal by code_simp
  subgoal by code_simp
  subgoal by code_simp
  done

theorem ConnectBlock_applies_witness:
  "(case fee_connect of None \<Rightarrow> False
    | Some r \<Rightarrow> view_content (cr_view r) = foldl (apply_tx (be_Hash fee_env) 2) (view_content fresh_view) [fee_coinbase, fee_tx] \<and>
        hashBlock (cr_view r) = 1003)"
proof -
  obtain r where r: "fee_connect = Some r" "cr_ok r" using fee_block_connects by (auto split: option.splits)
  have "let xs = found (be_Hash fee_env) (int (bi_nHeight fee_index)) (view_content fresh_view) (vtx fee_block);
             hs = int (bi_nHeight (be_store fee_env ! 1)) + 1
    in view_content (cr_view r) = foldl (apply_tx (be_Hash fee_env) (int (bi_nHeight fee_index))) (view_content fresh_view) (vtx fee_block) \<and>
       Some (hashBlock (cr_view r)) = Index_GetBlockHash fee_index \<and>
       list_all (\<lambda>(f, tx). list_all (\<lambda>t. 0 \<le> nValue t) (vout tx) \<and>
         (if IsCoinBase tx then True
          else distinct (map prevout (vin tx)) \<and>
               accept_inputs demo_sig (be_Params fee_env) hs f tx (int (bi_nHeight fee_index) \<ge> 0) connect_flags False)) xs"
    by (rule ConnectBlock_applies [OF fresh_reach r fee_block_facts(1) fee_limit])
      (use fee_block_facts in \<open>simp_all add: in_int64_def fee_index_def fee_env_def CBlockIndex_null_def\<close>)
  then show ?thesis using r(1) by (simp add: Let_def fee_index_def fee_block_def Index_GetBlockHash_def)
qed

text \<open>The fees of a proof-of-work block count twice: the mint is what the outputs exceed the inputs by, so it has
  already lost the fees, and the limit has them added. Here the block value is 0 and the fees are 2, and the
  coinbase may pay 4.\<close>

theorem pow_fees_count_twice:
  "(case fee_connect of None \<Rightarrow> False | Some r \<Rightarrow> cr_ok r \<and> nMint (cr_index r) = 2) \<and>
   IsProofOfWork fee_block \<and> GetBlockValue mainParams fee_store [Some 0, Some 1] 1 = Some 0 \<and>
   GetValueOut fee_coinbase = Inr 4 \<and> fst (GetValueIn tip_ops fresh_view fee_tx) = Some 12 \<and> GetValueOut fee_tx = Inr 10"
  by (intro conjI fee_block_connects; code_simp)

end
