(* ===== verification/Money_Supply.thy ===== *)
theory Money_Supply
  imports Connect_Props
begin

text \<open>
  The value of all unspent coins stays within the money supply that the block index records: each block adds at most
  its mint, and a proof-of-stake block has a mint of at most the block value and the development fund.
\<close>

section \<open>The value of the unspent coins\<close>

definition unspent :: "(uint256 \<Rightarrow> CCoins option) \<Rightarrow> COutPoint set" where
  "unspent f = {p. content_out f p \<noteq> None}"

definition out_value :: "(uint256 \<Rightarrow> CCoins option) \<Rightarrow> COutPoint \<Rightarrow> int" where
  "out_value f p = nValue (the (content_out f p))"

definition supply_ok :: "(uint256 \<Rightarrow> CCoins option) \<Rightarrow> int \<Rightarrow> bool" where
  "supply_ok f n \<longleftrightarrow> finite (unspent f) \<and> (\<forall>p \<in> unspent f. 0 \<le> out_value f p) \<and> sum (out_value f) (unspent f) \<le> n"

lemma supply_ok_nonneg: "supply_ok f n \<Longrightarrow> 0 \<le> n"
  unfolding supply_ok_def using sum_nonneg [of "unspent f" "out_value f"] by fastforce

text \<open>Spending distinct unspent coins.\<close>

lemma spend_out_content:
  assumes "content_out f out \<noteq> None"
  shows "content_out (spend_out f out) p = (if p = out then None else content_out f p)"
proof -
  obtain x where x: "f (outpoint_hash out) = Some x" "IsAvailable x (outpoint_n out)"
    using assms by (auto simp: content_out_def split: option.splits if_splits)
  then obtain x' u where s: "Spend x out = Some (x', u)" using Spend_None [of x out] by (cases "Spend x out") auto
  then have "spend_out f out = f(outpoint_hash out := live (Some x'))" using x(1) by (simp add: spend_out_def)
  then show ?thesis using content_out_spend [of f out, OF x(1) s] by simp
qed

lemma spend_all_content:
  assumes "list_all (\<lambda>i. content_out f (prevout i) \<noteq> None) ins" "distinct (map prevout ins)"
  shows "content_out (foldl (\<lambda>g i. spend_out g (prevout i)) f ins) p = (if p \<in> prevout ` set ins then None else content_out f p)"
  using assms
proof (induction ins arbitrary: f)
  case (Cons i ins)
  have i: "content_out f (prevout i) \<noteq> None" using Cons.prems by simp
  note S = spend_out_content [OF i]
  have "list_all (\<lambda>j. content_out (spend_out f (prevout i)) (prevout j) \<noteq> None) ins"
    using Cons.prems by (auto simp: S list_all_iff image_iff)
  then show ?case using Cons.IH [of "spend_out f (prevout i)"] Cons.prems(2) by (auto simp: S)
qed simp

lemma spend_all_supply:
  assumes "supply_ok f n" "list_all (\<lambda>i. content_out f (prevout i) \<noteq> None) ins" "distinct (map prevout ins)"
  shows "supply_ok (foldl (\<lambda>g i. spend_out g (prevout i)) f ins) (n - sum_list (map (spent_value f) ins))"
proof -
  let ?g = "foldl (\<lambda>g i. spend_out g (prevout i)) f ins" and ?S = "prevout ` set ins"
  note C = spend_all_content [OF assms(2,3)]
  have u: "unspent ?g = unspent f - ?S" by (auto simp: unspent_def C)
  have v: "out_value ?g p = out_value f p" if "p \<in> unspent ?g" for p using that u by (simp add: out_value_def C)
  have sub: "?S \<subseteq> unspent f" using assms(2) by (auto simp: unspent_def list_all_iff)
  have "sum_list (map (spent_value f) ins) = sum_list (map (out_value f) (map prevout ins))"
    by (simp add: spent_value_def [abs_def] out_value_def comp_def)
  also have "\<dots> = sum (out_value f) ?S" using assms(3) by (simp only: sum_list_distinct_conv_sum_set) simp
  finally have s: "sum_list (map (spent_value f) ins) = sum (out_value f) ?S" .
  have "sum (out_value ?g) (unspent ?g) = sum (out_value f) (unspent f - ?S)"
    unfolding u by (rule sum.cong) (use v u in auto)
  then show ?thesis using assms(1) sub s v u
    by (auto simp: supply_ok_def sum_diff)
qed

text \<open>Adding the coins of a transaction; coins of the same id are lost.\<close>

lemma FromTx_available:
  assumes "IsAvailable (FromTx tx h) n"
  shows "unat n < length (vout tx) \<and> coins_vout (FromTx tx h) ! unat n = vout tx ! unat n"
proof -
  let ?f = "\<lambda>t. if IsUnspendable (scriptPubKey t) then CTxOut_null else t"
  have c: "coins_vout (FromTx tx h) = drop_null (map ?f (vout tx))" by (simp add: FromTx_def ClearUnspendable_def Cleanup_def)
  obtain zs where zs: "map ?f (vout tx) = drop_null (map ?f (vout tx)) @ zs" using drop_null_split by blast
  have n: "unat n < length (drop_null (map ?f (vout tx)))" "\<not> CTxOut_IsNull (drop_null (map ?f (vout tx)) ! unat n)"
    using assms c by (auto simp: IsAvailable_def split: if_splits)
  have "length (vout tx) = length (drop_null (map ?f (vout tx))) + length zs" using arg_cong [OF zs, of length] by simp
  then have l: "unat n < length (vout tx)" using n(1) by simp
  have "drop_null (map ?f (vout tx)) ! unat n = (drop_null (map ?f (vout tx)) @ zs) ! unat n"
    using n(1) by (simp add: nth_append)
  also have "\<dots> = ?f (vout tx ! unat n)" unfolding zs [symmetric] using l by simp
  finally have "drop_null (map ?f (vout tx)) ! unat n = ?f (vout tx ! unat n)" .
  then show ?thesis using n(2) l c by (auto simp: split: if_splits)
qed

lemma add_tx_supply:
  assumes "supply_ok g n" "list_all (\<lambda>t. 0 \<le> nValue t) (vout tx)"
  shows "supply_ok (g(t := live (Some (FromTx tx h)))) (n + sum_list (map nValue (vout tx)))"
proof -
  let ?g = "g(t := live (Some (FromTx tx h)))"
  let ?new = "{p \<in> unspent ?g. outpoint_hash p = t}" and ?old = "{p \<in> unspent g. outpoint_hash p \<noteq> t}"
  have av: "IsAvailable (FromTx tx h) (outpoint_n p) \<and> content_out ?g p = Some (coins_vout (FromTx tx h) ! unat (outpoint_n p))"
    if "p \<in> ?new" for p
    using that by (auto simp: unspent_def content_out_def live_def split: option.splits if_splits)
  then have new: "unat (outpoint_n p) < length (vout tx) \<and> out_value ?g p = nValue (vout tx ! unat (outpoint_n p))"
    if "p \<in> ?new" for p
    using that FromTx_available [of tx h "outpoint_n p"] by (auto simp: out_value_def)
  have old: "out_value ?g p = out_value g p" if "p \<in> ?old" for p
    using that by (simp add: out_value_def content_out_def)
  have u: "unspent ?g = ?old \<union> ?new" by (auto simp: unspent_def content_out_def)
  have inj: "inj_on (\<lambda>p. unat (outpoint_n p)) ?new"
    by (intro inj_onI COutPoint.equality) (auto simp: word_unat_eq_iff)
  have img: "(\<lambda>p. unat (outpoint_n p)) ` ?new \<subseteq> {..< length (vout tx)}" using new by auto
  have fin: "finite ?new" by (rule finite_imageD [OF finite_subset [OF img finite_lessThan] inj])
  have "sum (out_value ?g) ?new = sum (\<lambda>p. nValue (vout tx ! unat (outpoint_n p))) ?new"
    by (rule sum.cong) (use new in auto)
  also have "\<dots> = sum (\<lambda>i. nValue (vout tx ! i)) ((\<lambda>p. unat (outpoint_n p)) ` ?new)"
    by (simp add: sum.reindex [OF inj])
  also have "\<dots> \<le> sum (\<lambda>i. nValue (vout tx ! i)) {..< length (vout tx)}"
    by (rule sum_mono2) (use img assms(2) in \<open>auto simp: list_all_length\<close>)
  also have "\<dots> = sum_list (map nValue (vout tx))" by (simp add: sum_list_sum_nth atLeast0LessThan)
  finally have a: "sum (out_value ?g) ?new \<le> sum_list (map nValue (vout tx))" .
  have g: "finite (unspent g)" "\<And>p. p \<in> unspent g \<Longrightarrow> 0 \<le> out_value g p" "sum (out_value g) (unspent g) \<le> n"
    using assms(1) by (auto simp: supply_ok_def)
  have "sum (out_value ?g) ?old = sum (out_value g) ?old" by (rule sum.cong) (use old in auto)
  also have "\<dots> \<le> sum (out_value g) (unspent g)" by (rule sum_mono2) (use g in auto)
  finally have b: "sum (out_value ?g) ?old \<le> n" using g(3) by simp
  have "sum (out_value ?g) (?old \<union> ?new) = sum (out_value ?g) ?old + sum (out_value ?g) ?new"
    by (rule sum.union_disjoint) (use g fin in auto)
  then have "sum (out_value ?g) (unspent ?g) = sum (out_value ?g) ?old + sum (out_value ?g) ?new"
    by (rule trans [OF arg_cong [OF u]])
  moreover have "0 \<le> out_value ?g p" if "p \<in> unspent ?g" for p
  proof -
    have "p \<in> ?old \<or> p \<in> ?new" using that u by blast
    then show ?thesis
    proof
      assume "p \<in> ?old"
      then show ?thesis using old [of p] g(2) [of p] by simp
    next
      assume "p \<in> ?new"
      then show ?thesis using new [of p] assms(2) by (simp add: list_all_length)
    qed
  qed
  moreover have "finite (?old \<union> ?new)" using g fin by simp
  then have "finite (unspent ?g)" by (rule ssubst [OF u, where P = finite])
  ultimately show ?thesis using a b by (simp add: supply_ok_def)
qed

text \<open>A transaction that connects, and a block of them.\<close>

lemma apply_tx_supply:
  assumes "supply_ok f n" "tx_accepted se P hs (f, tx)"
  shows "supply_ok (apply_tx Hash h f tx) (n + (tx_value_out (f, tx) - tx_value_in (f, tx)))"
proof -
  have out: "list_all (\<lambda>t. 0 \<le> nValue t) (vout tx)" using assms(2) by (simp add: tx_accepted_def)
  show ?thesis
  proof (cases "IsCoinBase tx")
    case True
    then show ?thesis using add_tx_supply [OF assms(1) out] by (simp add: apply_tx_def tx_value_in_def tx_value_out_def)
  next
    case False
    then have acc: "accept_inputs se P hs f tx False connect_flags False" "distinct (map prevout (vin tx))"
      using assms(2) by (simp_all add: tx_accepted_def)
    then have "list_all (\<lambda>i. content_out f (prevout i) \<noteq> None) (vin tx)"
      using spendable_available by (fastforce simp: accept_inputs_def list_all_iff)
    note S = spend_all_supply [OF assms(1) this acc(2)]
    show ?thesis using add_tx_supply [OF S out, of "GetHash Hash tx" h] False
      by (simp add: apply_tx_def tx_value_in_def tx_value_out_def algebra_simps)
  qed
qed

lemma apply_block_supply:
  assumes "supply_ok f n" "list_all (tx_accepted se P hs) (found Hash h f txs)"
  shows "supply_ok (foldl (apply_tx Hash h) f txs)
    (n + (sum_list (map tx_value_out (found Hash h f txs)) - sum_list (map tx_value_in (found Hash h f txs))))"
  using assms
proof (induction txs arbitrary: f n)
  case (Cons tx txs)
  have "supply_ok (apply_tx Hash h f tx) (n + (tx_value_out (f, tx) - tx_value_in (f, tx)))"
    by (rule apply_tx_supply [OF Cons.prems(1), where se = se and P = P and hs = hs]) (use Cons.prems(2) in simp)
  from Cons.IH [OF this] Cons.prems(2) show ?case by (simp add: algebra_simps)
qed simp

section \<open>Proof-of-stake blocks\<close>

lemma found_map [simp]: "map snd (found Hash h f txs) = txs"
  by (induction txs arbitrary: f) auto

lemma ordinary_tx_creates_nothing:
  assumes "tx_accepted se P hs x" "\<not> IsCoinBase (snd x)" "\<not> IsCoinStake (snd x)"
  shows "tx_value_out x \<le> tx_value_in x"
  using assms by (cases x) (auto simp: tx_accepted_def accept_inputs_def tx_value_out_def tx_value_in_def)

lemma accepted_value_in_nonneg: "tx_accepted se P hs x \<Longrightarrow> 0 \<le> tx_value_in x"
  by (cases x) (auto simp: tx_accepted_def accept_inputs_def tx_value_in_def list_all_iff intro!: sum_list_nonneg)

lemma stake_block_creates:
  assumes "IsProofOfStake block" "order_ok block" "txs_ok env t (vtx block)"
    and "list_all (tx_accepted se P hs) (found Hash h f (vtx block))" "P = Params env"
  shows "sum_list (map tx_value_out (found Hash h f (vtx block))) - sum_list (map tx_value_in (found Hash h f (vtx block)))
    \<le> MaxMoneyOut P"
proof -
  obtain cb cs rest where v: "vtx block = cb # cs # rest" and cs: "IsCoinStake cs"
    using assms(1) by (cases "vtx block"; cases "tl (vtx block)") (auto simp: IsProofOfStake_def)
  have o: "IsCoinBase cb" "list_all (\<lambda>tx. \<not> IsCoinBase tx \<and> \<not> IsCoinStake tx) rest" "length (vout cb) = 1" "CTxOut_IsEmpty (vout cb ! 0)"
    using assms(2) v cs by (auto simp: order_ok_def list_all_iff)
  let ?f1 = "apply_tx Hash h f cb"
  let ?f2 = "apply_tx Hash h ?f1 cs"
  let ?xs = "found Hash h ?f2 rest"
  have "tx_value_out (f, cb) = 0" using o(3,4) by (cases "vout cb") (auto simp: tx_value_out_def CTxOut_IsEmpty_def)
  moreover have "tx_value_in (f, cb) = 0" using o(1) by (simp add: tx_value_in_def)
  moreover have "tx_value_out (?f1, cs) \<le> MaxMoneyOut P"
    using assms(3,5) v by (simp add: txs_ok_def well_formed_tx_def tx_value_out_def)
  moreover have "0 \<le> tx_value_in (?f1, cs)" using assms(4) v accepted_value_in_nonneg [of se P hs "(?f1, cs)"] by simp
  moreover have "sum_list (map tx_value_out ?xs) \<le> sum_list (map tx_value_in ?xs)"
  proof (rule sum_list_mono)
    fix x assume x: "x \<in> set ?xs"
    then have "snd x \<in> set (map snd ?xs)" by (simp only: set_map imageI)
    then have "\<not> IsCoinBase (snd x) \<and> \<not> IsCoinStake (snd x)" using o(2) by (auto simp: list_all_iff)
    then show "tx_value_out x \<le> tx_value_in x"
      using ordinary_tx_creates_nothing [of se P hs x] assms(4) x by (auto simp: v list_all_iff)
  qed
  ultimately show ?thesis by (simp add: v)
qed

lemma txs_ok_in_int64:
  assumes "txs_ok env t txs" "MaxMoneyOut (Params env) < 2 ^ 62"
  shows "list_all (\<lambda>tx. list_all (\<lambda>t. in_int64 (nValue t)) (vout tx)) txs"
proof -
  have "in_int64 (nValue o1)" if "tx \<in> set txs" "o1 \<in> set (vout tx)" for tx o1
  proof -
    have w: "well_formed_tx (MaxMoneyOut (Params env)) tx" using assms(1) that(1) by (auto simp: txs_ok_def list_all_iff)
    then have nn: "\<forall>t \<in> set (vout tx). 0 \<le> nValue t" by (auto simp: well_formed_tx_def list_all_iff out_ok_def)
    have "nValue o1 \<le> sum_list (map nValue (vout tx))" using that(2) nn by (intro member_le_sum_list) auto
    then show ?thesis using w nn that(2) assms(2) by (auto simp: well_formed_tx_def in_int64_def)
  qed
  then show ?thesis by (simp add: list_all_iff)
qed

text \<open>C27: no inflation. If the unspent coins are worth at most the money supply of the predecessor, and a proof-of-stake
  block other than the genesis block connects on it, then the unspent coins afterwards are worth at most the money supply that the index records
  for the block, and that is at most the former supply, the block value and the development
  fund. Up to the fork the supply thereby stays within the money limit. No sum wraps. This holds whether \<^verbatim>\<open>ConnectBlock\<close>
  checks the block itself or is told by \<^verbatim>\<open>fAlreadyChecked\<close> that \<^verbatim>\<open>CheckBlock\<close> has accepted it before, as for a block that
  has just been received: at another time, with another tip, other votes and locks, but for the same chain parameters. The
  predecessor is the tip of the chain, the former supply and the money limit are below \<open>2^61\<close>, and the block value
  and the fund add up within 64 bits.\<close>

theorem ConnectBlock_no_inflation:
  assumes "view_reach view" "ConnectBlock se disk env tip_ops block st p view False fAlreadyChecked stakes rej = Some r" "cr_ok r"
    and "if fAlreadyChecked
         then CheckBlock before block st0 fCheckMerkleRoot rej0 = Some (True, st1, rej1) \<and> be_Params before = be_Params env
         else True"
    and "Block_GetHash env block \<noteq> be_HashGenesisBlock env" "IsProofOfStake block"
    and "0 \<le> MaxMoneyOut (be_Params env)" "MaxMoneyOut (be_Params env) < 2 ^ 61"
    and "pprev p = Some q" "be_mapBlockIndex env (cache_best (cache_best db_hash) view) = Some q"
    and "supply_ok (view_content view) (nMoneySupply (be_store env ! q))" "nMoneySupply (be_store env ! q) < 2 ^ 61"
    and "Tip (be_chain env) = Some q" "hprev = int (bi_nHeight (be_store env ! q))"
    and "GetBlockValue (be_Params env) (be_store env) (be_chain env) hprev = Some v"
    and "GetDevFeeValue (be_Params env) (be_store env) (be_chain env) hprev = Some dev" "in_int64 (v + dev)"
  shows "supply_ok (view_content (cr_view r)) (nMoneySupply (cr_index r)) \<and>
    nMoneySupply (cr_index r) \<le> nMoneySupply (be_store env ! q) + v + dev \<and>
    (if Chain_Height (be_chain env) \<le> CONSENSUS_FORK_REWARD_UPDATE_BLOCK \<and> nMoneySupply (be_store env ! q) \<le> MaxMoneyOut (be_Params env)
     then nMoneySupply (cr_index r) \<le> MaxMoneyOut (be_Params env) else True)"
proof -
  let ?h = "int (bi_nHeight p)" and ?P = "be_Params env" and ?n = "nMoneySupply (be_store env ! q)"
  have lim: "MaxMoneyOut ?P < 2 ^ 62" using assms(8) by simp
  have C: "fAlreadyChecked \<or> (\<exists>st' rej'. CheckBlock env block st True rej = Some (True, st', rej'))"
    by (rule ConnectBlock_success [OF assms(2,3,5)]) auto
  have rules: "order_ok block" "\<exists>e. Params e = ?P \<and> txs_ok e (GetBlockTime block) (vtx block)"
  proof -
    obtain e b st2 rej2 st3 rej3 where e: "CheckBlock e block st2 b rej2 = Some (True, st3, rej3)" "be_Params e = ?P"
      using C assms(4) by (metis (full_types))
    have "0 \<le> MaxMoneyOut (be_Params e)" "MaxMoneyOut (be_Params e) < 2 ^ 62" using assms(7) lim e(2) by simp_all
    then have "block_rules e b block" using CheckBlock_iff [of e block st2 b rej2] e(1) by blast
    then show "order_ok block" "\<exists>e. Params e = ?P \<and> txs_ok e (GetBlockTime block) (vtx block)"
      using e(2) by (auto simp: block_rules_def)
  qed
  then obtain e where e: "Params e = ?P" "txs_ok e (GetBlockTime block) (vtx block)" by blast
  have small: "list_all (\<lambda>tx. list_all (\<lambda>t. in_int64 (nValue t)) (vout tx)) (vtx block)"
    using txs_ok_in_int64 [OF e(2)] e(1) lim by simp
  let ?xs = "found (be_Hash env) ?h (view_content view) (vtx block)"
  let ?d = "sum_list (map tx_value_out ?xs) - sum_list (map tx_value_in ?xs)"
  note F = ConnectBlock_facts [OF view_reach_ok [OF assms(1)] assms(2,3,5,7) lim small assms(9,10), unfolded Let_def]
  have acc: "list_all (tx_accepted se ?P (int (bi_nHeight (be_store env ! q)) + 1)) ?xs" using F by simp
  have S: "supply_ok (view_content (cr_view r)) (?n + ?d)" using F apply_block_supply [OF assms(11) acc] by simp
  have d: "- ?n \<le> ?d" "?d \<le> MaxMoneyOut ?P"
    using supply_ok_nonneg [OF S] stake_block_creates [OF assms(6) rules(1) e(2) acc e(1) [symmetric]] by simp_all
  have n: "0 \<le> ?n" by (rule supply_ok_nonneg [OF assms(11)])
  have sup: "nMoneySupply (cr_index r) = ?n + ?d" "nMint (cr_index r) = ?d"
    using F d n assms(8,12) by (simp_all add: in_int64_def)
  have "\<not> IsProofOfWork block" using assms(6) by (simp add: IsProofOfWork_def)
  then have "expected_mint env block hprev fees = Some (v + dev)" for fees
    using assms(15-17) by (simp add: expected_mint_def)
  then have m: "?d \<le> v + dev" using F sup assms(13,14) by auto
  moreover have "?n + v + dev \<le> MaxMoneyOut ?P"
    if "Chain_Height (be_chain env) \<le> CONSENSUS_FORK_REWARD_UPDATE_BLOCK" "?n \<le> MaxMoneyOut ?P"
    using GetBlockValue_capped(2) [OF assms(15,13) that] GetDevFeeValue_before_fork [OF that(1)] assms(16) by simp
  ultimately show ?thesis using S sup by auto
qed

text \<open>A proof-of-stake block at height 201, checked before, whose coinstake spends 12 units and creates 112.\<close>

definition stake_coinbase :: CTransaction where
  "stake_coinbase = demo_coinbase\<lparr>vout := [\<lparr>nValue = 0, scriptPubKey = []\<rparr>]\<rparr>"

definition stake_tx :: CTransaction where
  "stake_tx = spend_both\<lparr>nVersion := 2, vout := [\<lparr>nValue = 0, scriptPubKey = []\<rparr>, \<lparr>nValue = 112, scriptPubKey = [OP_3]\<rparr>]\<rparr>"

definition stake_block :: CBlock where
  "stake_block = \<lparr>hdr_nVersion = 3, hashPrevBlock = 99, hashMerkleRoot = 2003, nTime = 0, nBits = 0, nNonce = 0,
     vtx = [stake_coinbase, stake_tx], vchBlockSig = []\<rparr>"

definition stake_store :: block_store where
  "stake_store = [CBlockIndex_null\<lparr>phashBlock := Some 90, bi_nHeight := 199\<rparr>,
     CBlockIndex_null\<lparr>phashBlock := Some 99, pprev := Some 0, bi_nHeight := 200, nMoneySupply := 12\<rparr>]"

definition stake_env :: block_env where
  "stake_env = fee_env\<lparr>be_mn := demo_mn\<lparr>me_store := stake_store\<rparr>\<rparr>"

definition stake_index :: CBlockIndex where
  "stake_index = CBlockIndex_null\<lparr>phashBlock := Some 1003, pprev := Some 1, bi_nHeight := 201\<rparr>"

abbreviation stake_connect :: "bool \<Rightarrow> tip_cache connect_result option" where
  "stake_connect fAC \<equiv> ConnectBlock demo_sig good_disk stake_env tip_ops stake_block CValidationState_new stake_index fresh_view False fAC [] (\<lambda>_. None)"

lemma stake_block_connects: "(case stake_connect True of None \<Rightarrow> False | Some r \<Rightarrow> cr_ok r \<and> nMoneySupply (cr_index r) = 112)"
  by code_simp

lemma stake_block_sizes: "GetSerializeSize stake_coinbase \<le> 200" "GetSerializeSize stake_tx \<le> 200"
  "length (SerializeBlock stake_block) \<le> 500" "GetLegacySigOpCount stake_coinbase = 0" "GetLegacySigOpCount stake_tx = 0"
  "merkle_ok stake_env stake_block" "payee_ok stake_env stake_block" "IsProofOfStake stake_block"
  subgoal by code_simp
  subgoal by code_simp
  subgoal by code_simp
  subgoal by code_simp
  subgoal by code_simp
  subgoal by code_simp
  subgoal by code_simp
  subgoal by code_simp
  done

lemma stake_limit: "0 \<le> MaxMoneyOut (be_Params stake_env)" "MaxMoneyOut (be_Params stake_env) < 2 ^ 61"
  by (simp_all add: stake_env_def fee_env_def demo_env_def mainParams_def COIN_def)

lemma stake_kinds: "IsCoinBase stake_coinbase" "\<not> IsCoinBase stake_tx" "IsCoinStake stake_tx" "\<not> IsCoinStake stake_coinbase"
  by (simp_all add: stake_coinbase_def stake_tx_def demo_coinbase_def spend_both_def IsCoinBase_def IsCoinStake_def COutPoint_IsNull_def
      COutPoint_null_def CTxOut_IsEmpty_def)

lemma stake_block_rules: "block_rules stake_env True stake_block"
proof -
  have fields: "vout stake_coinbase = [\<lparr>nValue = 0, scriptPubKey = []\<rparr>]"
    "vin stake_coinbase = [\<lparr>prevout = COutPoint_null, scriptSig = [OP_1, OP_1], nSequence = 0\<rparr>]"
    "vout stake_tx = [\<lparr>nValue = 0, scriptPubKey = []\<rparr>, \<lparr>nValue = 112, scriptPubKey = [OP_3]\<rparr>]"
    "vin stake_tx = vin spend_both" "map prevout (vin spend_both) = [\<lparr>outpoint_hash = 7, outpoint_n = 0\<rparr>, \<lparr>outpoint_hash = 7, outpoint_n = 1\<rparr>]"
    "vin spend_both \<noteq> []" "list_all (\<lambda>i. \<not> COutPoint_IsNull (prevout i)) (vin spend_both)"
    by (simp_all add: stake_coinbase_def stake_tx_def demo_coinbase_def spend_both_def COutPoint_IsNull_def)
  have "well_formed_tx (MaxMoneyOut mainParams) stake_coinbase" "well_formed_tx (MaxMoneyOut mainParams) stake_tx"
    using stake_block_sizes(1,2) stake_kinds fields
    by (simp_all add: well_formed_tx_def MAX_BLOCK_SIZE_def out_ok_def mainParams_def COIN_def COutPoint_IsNull_def)
  then show ?thesis
    using stake_block_sizes stake_kinds
    by (simp add: block_rules_def block_time_ok_def order_ok_def txs_ok_def GetBlockTime_def)
      (simp add: stake_block_def stake_env_def fee_env_def demo_env_def stake_coinbase_def CTxOut_IsEmpty_def)
qed

lemma stake_block_checked:
  "CheckBlock stake_env stake_block CValidationState_new True (\<lambda>_. None) = Some (True, CValidationState_new, \<lambda>_. None)"
proof -
  have "MaxMoneyOut (be_Params stake_env) < 2 ^ 62" using stake_limit(2) by simp
  from CheckBlock_iff [OF stake_limit(1) this, of stake_block CValidationState_new True "\<lambda>_. None" CValidationState_new "\<lambda>_. None"]
  show ?thesis using stake_block_rules by simp
qed

lemma stake_facts:
  "Block_GetHash stake_env stake_block \<noteq> be_HashGenesisBlock stake_env"
  "cache_best (cache_best db_hash) fresh_view = 99" "Tip (be_chain stake_env) = Some 1"
  "GetBlockValue (be_Params stake_env) (be_store stake_env) (be_chain stake_env) 200 = Some 500000000"
  "GetDevFeeValue (be_Params stake_env) (be_store stake_env) (be_chain stake_env) 200 = Some 0"
  subgoal by code_simp
  subgoal by code_simp
  subgoal by code_simp
  subgoal by code_simp
  subgoal by code_simp
  done

lemma fresh_supply: "supply_ok (view_content fresh_view) 12"
proof -
  have o: "content_out (view_content fresh_view) p =
      (if outpoint_hash p = 7 \<and> outpoint_n p = 0 then Some \<lparr>nValue = 7, scriptPubKey = [OP_1]\<rparr>
       else if outpoint_hash p = 7 \<and> outpoint_n p = 1 then Some \<lparr>nValue = 5, scriptPubKey = [OP_2]\<rparr> else None)" for p
  proof -
    have "unat (outpoint_n p) < 2 \<longleftrightarrow> outpoint_n p = 0 \<or> outpoint_n p = 1"
      by (auto simp: word_unat_eq_iff less_2_cases_iff)
    then show ?thesis by (auto simp: fresh_content content_out_def demo_coins IsAvailable_def CTxOut_IsNull_def)
  qed
  let ?a = "\<lparr>outpoint_hash = 7, outpoint_n = 0\<rparr>" and ?b = "\<lparr>outpoint_hash = 7, outpoint_n = 1\<rparr>"
  have u: "unspent (view_content fresh_view) = {?a, ?b}"
    by (auto simp: unspent_def o split: if_splits intro!: COutPoint.equality)
  show ?thesis unfolding supply_ok_def u by (simp add: out_value_def o)
qed

theorem ConnectBlock_no_inflation_witness:
  "(case stake_connect True of None \<Rightarrow> False
    | Some r \<Rightarrow> cr_ok r \<and> supply_ok (view_content (cr_view r)) 112 \<and> nMoneySupply (cr_index r) \<le> 12 + 500000000)"
proof -
  obtain r where r: "stake_connect True = Some r" "cr_ok r" "nMoneySupply (cr_index r) = 112"
    using stake_block_connects by (auto split: option.splits)
  have st: "be_store stake_env = stake_store" by (simp add: stake_env_def)
  have "supply_ok (view_content (cr_view r)) (nMoneySupply (cr_index r)) \<and>
    nMoneySupply (cr_index r) \<le> nMoneySupply (be_store stake_env ! 1) + 500000000 + 0 \<and>
    (if Chain_Height (be_chain stake_env) \<le> CONSENSUS_FORK_REWARD_UPDATE_BLOCK \<and> nMoneySupply (be_store stake_env ! 1) \<le> MaxMoneyOut (be_Params stake_env)
     then nMoneySupply (cr_index r) \<le> MaxMoneyOut (be_Params stake_env) else True)"
    by (rule ConnectBlock_no_inflation [OF fresh_reach r(1,2) _ stake_facts(1) stake_block_sizes(8) stake_limit, where hprev = 200 and before = stake_env])
      (use stake_facts(2-5) fresh_supply stake_block_checked in \<open>simp_all add: st stake_index_def stake_store_def stake_env_def fee_env_def in_int64_def\<close>)
  then show ?thesis using r by (simp add: st stake_store_def)
qed

end
