(* ===== verification/Kernel.thy ===== *)
theory Kernel
  imports Check_Block Check_Inputs
begin

text \<open>
  Proof of stake (\<^verbatim>\<open>src/src/kernel.cpp\<close>, with \<^verbatim>\<open>GetTransaction\<close>,
  \<^verbatim>\<open>ReadBlockFromDisk\<close> and \<^verbatim>\<open>CheckWork\<close> of \<^verbatim>\<open>main.cpp\<close>): the stake modifier of the
  next block, the modifier and the hash of a kernel, and the check of a coinstake. The outer \<open>None\<close> is a
  failed assertion, an access through a null pointer or outside a vector, or a loop that does not end.
\<close>

section \<open>Environment\<close>

text \<open>
  Besides the environment of the block checks: the parameters of the stake, the address of the string literal
  that \<^verbatim>\<open>ComputeNextStakeModifier\<close> converts to a number, the memory pool, and what reading the disk
  yields. A position is that of a block, or of a block with the offset of a transaction after its header.
\<close>

type_synonym disk_pos = "int \<times> uint32"

record kernel_env =
  ke_block :: block_env
  ke_sig :: sig_env
  ke_ModifierUpgradeBlock :: int
  ke_StakeInputMin :: camount
  ke_literal :: uint64
  ke_mempool :: "uint256 \<rightharpoonup> CTransaction"
  ke_TxIndex :: bool
  ke_ReadTxIndex :: "uint256 \<rightharpoonup> disk_pos \<times> uint32"
  ke_ReadTx :: "disk_pos \<times> uint32 \<rightharpoonup> CBlockHeader \<times> CTransaction"
  ke_ReadBlock :: "disk_pos \<rightharpoonup> CBlock"

abbreviation ke_store :: "kernel_env \<Rightarrow> block_store" where "ke_store ke \<equiv> be_store (ke_block ke)"
abbreviation ke_map :: "kernel_env \<Rightarrow> uint256 \<rightharpoonup> nat" where "ke_map ke \<equiv> be_mapBlockIndex (ke_block ke)"
abbreviation ke_chain :: "kernel_env \<Rightarrow> CChain" where "ke_chain ke \<equiv> be_chain (ke_block ke)"
abbreviation ke_Hash :: "kernel_env \<Rightarrow> bytes \<Rightarrow> uint256" where "ke_Hash ke \<equiv> be_Hash (ke_block ke)"

definition nStakeMinAge :: uint32 where "nStakeMinAge = 4 * 60 * 60"
definition MODIFIER_INTERVAL :: int where "MODIFIER_INTERVAL = 60"
definition MODIFIER_INTERVAL_RATIO :: int where "MODIFIER_INTERVAL_RATIO = 3"

definition GetWeight :: "int \<Rightarrow> int \<Rightarrow> int" where
  "GetWeight nIntervalBeginning nIntervalEnd = wrap64 (wrap64 (nIntervalEnd - nIntervalBeginning) - uint nStakeMinAge)"

definition GetStakeEntropyBit :: "CBlockIndex \<Rightarrow> uint32 option" where
  "GetStakeEntropyBit p = map_option (\<lambda>h. ucast (ucast h AND 1 :: uint64)) (Index_GetBlockHash p)"

section \<open>The stake modifier of the next block\<close>

text \<open>The inner \<open>None\<close> is an error. The pointer in the argument is never null.\<close>

partial_function (option) last_modifier :: "block_store \<Rightarrow> nat \<Rightarrow> nat option" where
  "last_modifier st p =
     (case pprev (st ! p) of
        None \<Rightarrow> Some p
      | Some q \<Rightarrow> if GeneratedStakeModifier (st ! p) then Some p else last_modifier st q)"

definition GetLastStakeModifier :: "block_store \<Rightarrow> nat option \<Rightarrow> (uint64 \<times> int) option option" where
  "GetLastStakeModifier st pindex =
     (case pindex of
        None \<Rightarrow> Some None
      | Some p \<Rightarrow>
          map_option (\<lambda>q. if GeneratedStakeModifier (st ! q) then Some (nStakeModifier (st ! q), Index_GetBlockTime (st ! q))
                          else None)
            (last_modifier st p))"

definition GetStakeModifierSelectionIntervalSection :: "nat \<Rightarrow> int option" where
  "GetStakeModifierSelectionIntervalSection nSection =
     (if nSection < 64
      then Some (MODIFIER_INTERVAL * 63 div (63 + (63 - int nSection) * (MODIFIER_INTERVAL_RATIO - 1))) else None)"

definition GetStakeModifierSelectionInterval :: int where
  "GetStakeModifierSelectionInterval =
     sum_list (map (\<lambda>n. case GetStakeModifierSelectionIntervalSection n of None \<Rightarrow> 0 | Some a \<Rightarrow> a) [0 ..< 64])"

text \<open>The bytes that are hashed for a candidate; the rule changes at a height.\<close>

definition selection_hash :: "kernel_env \<Rightarrow> bool \<Rightarrow> uint64 \<Rightarrow> CBlockIndex \<Rightarrow> uint256 \<Rightarrow> uint256" where
  "selection_hash ke fModifierV2 nStakeModifierPrev b hash =
     (let hashProof = (if fModifierV2 then hash else if Index_IsProofOfStake b then 0 else hash);
          h = ke_Hash ke (WRITEDATA hashProof @ WRITEDATA nStakeModifierPrev)
      in if Index_IsProofOfStake b then drop_bit 32 h else h)"

text \<open>
  The loop over the candidates: \<open>v2\<close> is set at the first one, \<open>best\<close> is the selection so far. The
  result \<open>Inl ()\<close> is a candidate that is not in the index.
\<close>

fun select_loop ::
  "kernel_env \<Rightarrow> uint256 list \<Rightarrow> int \<Rightarrow> uint64 \<Rightarrow> (int \<times> uint256) list \<Rightarrow> bool option \<Rightarrow> (uint256 \<times> nat) option \<Rightarrow>
   (unit + (uint256 \<times> nat) option) option" where
  "select_loop ke selected stop prev [] v2 best = Some (Inr best)"
| "select_loop ke selected stop prev (item # items) v2 best =
     (case ke_map ke (snd item) of
        None \<Rightarrow> Some (Inl ())
      | Some p \<Rightarrow>
          let b = ke_store ke ! p in
          if best \<noteq> None \<and> Index_GetBlockTime b > stop then Some (Inr best)
          else
            let v2' = (case v2 of None \<Rightarrow> int (bi_nHeight b) \<ge> ke_ModifierUpgradeBlock ke | Some v \<Rightarrow> v) in
            (case Index_GetBlockHash b of
               None \<Rightarrow> None
             | Some hash \<Rightarrow>
                 if hash \<in> set selected then select_loop ke selected stop prev items (Some v2') best
                 else
                   let h = selection_hash ke v2' prev b hash in
                   select_loop ke selected stop prev items (Some v2')
                     (case best of None \<Rightarrow> Some (h, p) | Some (hb, q) \<Rightarrow> if h < hb then Some (h, p) else best)))"

definition SelectBlockFromCandidates ::
  "kernel_env \<Rightarrow> (int \<times> uint256) list \<Rightarrow> uint256 list \<Rightarrow> int \<Rightarrow> uint64 \<Rightarrow> nat option option" where
  "SelectBlockFromCandidates ke vSortedByTimestamp selected stop prev =
     map_option (\<lambda>r. case r of Inl _ \<Rightarrow> None | Inr best \<Rightarrow> map_option snd best)
       (select_loop ke selected stop prev vSortedByTimestamp None None)"

text \<open>The blocks of the selection interval, back from the last one, and their order.\<close>

partial_function (option) collect_candidates :: "block_store \<Rightarrow> int \<Rightarrow> nat option \<Rightarrow> (int \<times> uint256) list option" where
  "collect_candidates st start pindex =
     (case pindex of
        None \<Rightarrow> Some []
      | Some p \<Rightarrow>
          if Index_GetBlockTime (st ! p) \<ge> start then
            Option.bind (Index_GetBlockHash (st ! p)) (\<lambda>h.
              Option.bind (collect_candidates st start (pprev (st ! p))) (\<lambda>xs. Some ((Index_GetBlockTime (st ! p), h) # xs)))
          else Some [])"

definition sort_pairs :: "(int \<times> uint256) list \<Rightarrow> (int \<times> uint256) list" where
  "sort_pairs xs = sort_key fst (sort_key snd xs)"

text \<open>The rounds: the selected hashes, the end of the interval and the bits so far.\<close>

fun modifier_rounds ::
  "kernel_env \<Rightarrow> (int \<times> uint256) list \<Rightarrow> uint64 \<Rightarrow> nat list \<Rightarrow> uint256 list \<Rightarrow> int \<Rightarrow> uint64 \<Rightarrow> uint64 option option" where
  "modifier_rounds ke cands prev [] selected stop new = Some (Some new)"
| "modifier_rounds ke cands prev (nRound # rounds) selected stop new =
     Option.bind (GetStakeModifierSelectionIntervalSection nRound) (\<lambda>a.
       case SelectBlockFromCandidates ke cands selected (stop + a) prev of
         None \<Rightarrow> None
       | Some None \<Rightarrow> Some None
       | Some (Some p) \<Rightarrow>
           Option.bind (GetStakeEntropyBit (ke_store ke ! p)) (\<lambda>bit.
           Option.bind (Index_GetBlockHash (ke_store ke ! p)) (\<lambda>hash.
             modifier_rounds ke cands prev rounds (hash # selected) (stop + a) (new OR push_bit nRound (ucast bit)))))"

text \<open>The result, the modifier and whether it was generated; an error leaves the previous modifier in place.\<close>

definition ComputeNextStakeModifier :: "kernel_env \<Rightarrow> nat option \<Rightarrow> (bool \<times> uint64 \<times> bool) option" where
  "ComputeNextStakeModifier ke pindexPrev =
     (case pindexPrev of
        None \<Rightarrow> Some (True, 0, True)
      | Some p \<Rightarrow>
          if bi_nHeight (ke_store ke ! p) = 0 then Some (True, ke_literal ke, True)
          else case GetLastStakeModifier (ke_store ke) (Some p) of
            None \<Rightarrow> None
          | Some None \<Rightarrow> Some (False, 0, False)
          | Some (Some (modifier, t)) \<Rightarrow>
              let now = Index_GetBlockTime (ke_store ke ! p) in
              if t div MODIFIER_INTERVAL \<ge> now div MODIFIER_INTERVAL then Some (True, modifier, False)
              else
                let start = now div MODIFIER_INTERVAL * MODIFIER_INTERVAL - GetStakeModifierSelectionInterval in
                Option.bind (collect_candidates (ke_store ke) start (Some p)) (\<lambda>xs.
                  let cands = sort_pairs (rev xs) in
                  map_option (\<lambda>r. case r of None \<Rightarrow> (False, modifier, False) | Some new \<Rightarrow> (True, new, True))
                    (modifier_rounds ke cands modifier [0 ..< min 64 (length cands)] [] start 0)))"

declare last_modifier.simps [code] collect_candidates.simps [code]

section \<open>Checksums\<close>

definition GetStakeModifierChecksum :: "kernel_env \<Rightarrow> CBlockIndex \<Rightarrow> uint32 option" where
  "GetStakeModifierChecksum ke p =
     (if pprev p \<noteq> None \<or> Index_GetBlockHash p = Some (be_HashGenesisBlock (ke_block ke))
      then Some (ucast (ucast (drop_bit (256 - 32) (ke_Hash ke
             ((case pprev p of None \<Rightarrow> [] | Some q \<Rightarrow> WRITEDATA (nStakeModifierChecksum (ke_store ke ! q))) @
              WRITEDATA (nFlags p) @ WRITEDATA (hashProofOfStake p) @ WRITEDATA (nStakeModifier p)))) :: uint64))
      else None)"

text \<open>The only checkpoint; the switch for the test network is never set.\<close>

definition CheckStakeModifierCheckpoints :: "nat \<Rightarrow> uint32 \<Rightarrow> bool" where
  "CheckStakeModifierCheckpoints h nChecksum = (if h = 0 then nChecksum = 0xfd11f4e7 else True)"

definition CheckCoinStakeTimestamp :: "int \<Rightarrow> int \<Rightarrow> bool" where
  "CheckCoinStakeTimestamp nTimeBlock nTimeTx \<longleftrightarrow> nTimeBlock = nTimeTx"

section \<open>Reading transactions and blocks\<close>

text \<open>The inner \<open>None\<close> is an error.\<close>

definition Index_GetBlockPos :: "CBlockIndex \<Rightarrow> disk_pos" where
  "Index_GetBlockPos p = (if nStatus p AND BLOCK_HAVE_DATA \<noteq> 0 then (nFile p, nDataPos p) else (-1, 0))"

definition ReadBlockAt :: "kernel_env \<Rightarrow> disk_pos \<Rightarrow> CBlock option" where
  "ReadBlockAt ke pos =
     (if fst pos = -1 then None
      else case ke_ReadBlock ke pos of
        None \<Rightarrow> None
      | Some block \<Rightarrow>
          if IsProofOfWork block \<and> \<not> CheckProofOfWork (be_pow (ke_block ke)) (Block_GetHash (ke_block ke) block) (nBits block)
          then None else Some block)"

definition ReadBlockFromDisk :: "kernel_env \<Rightarrow> CBlockIndex \<Rightarrow> CBlock option option" where
  "ReadBlockFromDisk ke p =
     (case ReadBlockAt ke (Index_GetBlockPos p) of
        None \<Rightarrow> Some None
      | Some block \<Rightarrow>
          map_option (\<lambda>h. if Block_GetHash (ke_block ke) block = h then Some block else None) (Index_GetBlockHash p))"

text \<open>
  \<^verbatim>\<open>hashBlock\<close> keeps the value of the caller for a transaction of the memory pool. The lookup of the
  coins only changes the cache of the view.
\<close>

definition scan_block ::
  "kernel_env \<Rightarrow> 'v CCoinsView \<Rightarrow> 'v CCoinsViewCache \<Rightarrow> uint256 \<Rightarrow> ((CTransaction \<times> uint256) option \<times> 'v CCoinsViewCache) option" where
  "scan_block ke B pcoinsTip hash =
     (case AccessCoins B pcoinsTip hash of
        (co, tip) \<Rightarrow>
          (case (case co of None \<Rightarrow> None
                 | Some c \<Rightarrow> if nHeight c > 0 then Chain_at (ke_chain ke) (nHeight c) else None) of
             None \<Rightarrow> Some (None, tip)
           | Some p \<Rightarrow>
               Option.bind (ReadBlockFromDisk ke (ke_store ke ! p)) (\<lambda>blk.
                 case Option.bind blk (\<lambda>block. find (\<lambda>tx. GetHash (ke_Hash ke) tx = hash) (vtx block)) of
                   None \<Rightarrow> Some (None, tip)
                 | Some tx \<Rightarrow> map_option (\<lambda>h. (Some (tx, h), tip)) (Index_GetBlockHash (ke_store ke ! p)))))"

definition GetTransaction ::
  "kernel_env \<Rightarrow> 'v CCoinsView \<Rightarrow> 'v CCoinsViewCache \<Rightarrow> uint256 \<Rightarrow> uint256 \<Rightarrow> bool \<Rightarrow>
   ((CTransaction \<times> uint256) option \<times> 'v CCoinsViewCache) option" where
  "GetTransaction ke B pcoinsTip hash hashBlk fAllowSlow =
     (case ke_mempool ke hash of
        Some tx \<Rightarrow> Some (Some (tx, hashBlk), pcoinsTip)
      | None \<Rightarrow>
          if ke_TxIndex ke then
            Some (case Option.bind (ke_ReadTxIndex ke hash) (ke_ReadTx ke) of
                    None \<Rightarrow> None
                  | Some (hdr, tx) \<Rightarrow>
                      if GetHash (ke_Hash ke) tx \<noteq> hash then None else Some (tx, Block_GetHash (ke_block ke) hdr), pcoinsTip)
          else if fAllowSlow then scan_block ke B pcoinsTip hash
          else Some (None, pcoinsTip))"

section \<open>Kernels\<close>

text \<open>
  The loop for the first generated modifier that is late enough: the position, the next one in the active chain
  and the height and time of the last modifier seen.
\<close>

partial_function (option) kernel_loop ::
  "block_store \<Rightarrow> CChain \<Rightarrow> int \<Rightarrow> nat \<Rightarrow> nat option \<Rightarrow> int \<Rightarrow> int \<Rightarrow> (uint64 \<times> int \<times> int) option option" where
  "kernel_loop st C bound pindex pindexNext h t =
     (if t < bound then
        (case pindexNext of
           None \<Rightarrow> Some None
         | Some p \<Rightarrow>
             let nxt = Chain_at C (int (bi_nHeight (st ! p)) + 1) in
             if GeneratedStakeModifier (st ! p)
             then kernel_loop st C bound p nxt (int (bi_nHeight (st ! p))) (Index_GetBlockTime (st ! p))
             else kernel_loop st C bound p nxt h t)
      else Some (Some (nStakeModifier (st ! pindex), h, t)))"

declare kernel_loop.simps [code]

definition selection_interval :: "kernel_env \<Rightarrow> int \<Rightarrow> int" where
  "selection_interval ke t =
     (if ActiveProtocol (ke_chain ke) \<ge> CONSENSUS_FORK_PROTO \<and> t \<ge> CONSENSUS_FORK_PROTO_TIME
      then uint (nStakeMinAge * 3 div 4) else GetStakeModifierSelectionInterval)"

definition GetKernelStakeModifier :: "kernel_env \<Rightarrow> uint256 \<Rightarrow> int \<Rightarrow> (uint64 \<times> int \<times> int) option option" where
  "GetKernelStakeModifier ke hashBlockFrom t =
     (case ke_map ke hashBlockFrom of
        None \<Rightarrow> Some None
      | Some p \<Rightarrow>
          let b = ke_store ke ! p in
          kernel_loop (ke_store ke) (ke_chain ke) (Index_GetBlockTime b + selection_interval ke t) p
            (Chain_at (ke_chain ke) (int (bi_nHeight b) + 1)) (int (bi_nHeight b)) (Index_GetBlockTime b))"

definition stakeHash :: "(bytes \<Rightarrow> uint256) \<Rightarrow> uint32 \<Rightarrow> bytes \<Rightarrow> uint32 \<Rightarrow> uint256 \<Rightarrow> uint32 \<Rightarrow> uint256" where
  "stakeHash Hash nTimeTx ss prevoutIndex prevoutHash nTimeBlockFrom =
     Hash (ss @ WRITEDATA nTimeBlockFrom @ WRITEDATA prevoutIndex @ WRITEDATA prevoutHash @ WRITEDATA nTimeTx)"

text \<open>The product is one of 256 bits.\<close>

definition stakeTargetHit :: "uint256 \<Rightarrow> camount \<Rightarrow> uint256 \<Rightarrow> bool" where
  "stakeTargetHit hashProof nValueIn bnTargetPerCoinDay =
     (let bnCoinDayWeight = ucast (word_of_int nValueIn :: uint64) div 100
      in hashProof < bnCoinDayWeight * bnTargetPerCoinDay)"

definition target_of :: "uint32 \<Rightarrow> uint256" where
  "target_of nCompact = of_nat (bu_val (compact_target nCompact))"

text \<open>
  The search over the drift: \<open>heightAt\<close> is the height of the active chain that iteration \<open>i\<close> sees. The result
  is the time found and the last proof hash.
\<close>

fun kernel_search ::
  "(uint32 \<Rightarrow> uint256) \<Rightarrow> (uint256 \<Rightarrow> bool) \<Rightarrow> (nat \<Rightarrow> bool) \<Rightarrow> uint32 \<Rightarrow> uint32 \<Rightarrow> nat list \<Rightarrow> uint256 \<Rightarrow> uint32 option \<times> uint256" where
  "kernel_search hash hit same nTimeTx nHashDrift [] proof = (None, proof)"
| "kernel_search hash hit same nTimeTx nHashDrift (i # is) proof =
     (if \<not> same i then (None, proof)
      else
        let nTryTime = nTimeTx + nHashDrift - of_nat i;
            proof' = hash nTryTime
        in if hit proof' then (Some nTryTime, proof')
           else kernel_search hash hit same nTimeTx nHashDrift is proof')"

record kernel_result =
  kr_ok :: bool
  kr_nTimeTx :: uint32
  kr_proof :: uint256
  kr_mapHashedBlocks :: "(int \<rightharpoonup> int) option"

text \<open>\<open>kr_mapHashedBlocks\<close> is the new content of that map, if the call replaces it.\<close>

definition CheckStakeKernelHash ::
  "kernel_env \<Rightarrow> (nat \<Rightarrow> int) \<Rightarrow> uint32 \<Rightarrow> CBlock \<Rightarrow> CTransaction \<Rightarrow> COutPoint \<Rightarrow> uint32 \<Rightarrow> uint32 \<Rightarrow> bool \<Rightarrow> uint256 \<Rightarrow> kernel_result option" where
  "CheckStakeKernelHash ke heightAt bits blockFrom txPrev out nTimeTx nHashDrift fCheck hashProof =
     (if unat (outpoint_n out) \<ge> length (vout txPrev) then None
      else
        let nValueIn = nValue (vout txPrev ! unat (outpoint_n out));
            nTimeBlockFrom = nTime blockFrom;
            fail = \<lparr>kr_ok = False, kr_nTimeTx = nTimeTx, kr_proof = hashProof, kr_mapHashedBlocks = None\<rparr>
        in if nTimeTx < nTimeBlockFrom then Some fail
           else if nTimeBlockFrom + nStakeMinAge > nTimeTx then Some fail
           else case GetKernelStakeModifier ke (Block_GetHash (ke_block ke) blockFrom) (uint nTimeTx) of
             None \<Rightarrow> None
           | Some None \<Rightarrow> Some fail
           | Some (Some (modifier, _, _)) \<Rightarrow>
               let hash = (\<lambda>t. stakeHash (ke_Hash ke) t (WRITEDATA modifier) (outpoint_n out) (outpoint_hash out) nTimeBlockFrom);
                   hit = (\<lambda>h. stakeTargetHit h nValueIn (target_of bits))
               in if fCheck then Some (fail\<lparr>kr_ok := hit (hash nTimeTx), kr_proof := hash nTimeTx\<rparr>)
                  else
                    (case kernel_search hash hit (\<lambda>i. heightAt i = Chain_Height (ke_chain ke)) nTimeTx nHashDrift
                            [0 ..< unat nHashDrift] hashProof of
                       (found, proof) \<Rightarrow>
                         map_option (\<lambda>tip. \<lparr>kr_ok = found \<noteq> None, kr_nTimeTx = (case found of None \<Rightarrow> nTimeTx | Some t \<Rightarrow> t),
                                            kr_proof = proof,
                                            kr_mapHashedBlocks = Some [int (bi_nHeight (ke_store ke ! tip)) \<mapsto> be_Time (ke_block ke)]\<rparr>)
                           (Tip (ke_chain ke))))"

section \<open>CheckProofOfStake\<close>

text \<open>A block of this time is accepted without its kernel.\<close>

definition UNCHECKED_KERNEL_TIME :: int where "UNCHECKED_KERNEL_TIME = 1554746413"

definition kernel_check :: "CTransaction \<Rightarrow> script \<Rightarrow> CScriptCheck" where
  "kernel_check tx spk =
     \<lparr>chk_scriptPubKey = spk, ptxTo = tx, chk_nIn = 0, chk_nFlags = STANDARD_SCRIPT_VERIFY_FLAGS, cacheStore = False\<rparr>"

text \<open>The rest after the previous transaction was found; the proof hash is zero before it is computed.\<close>

definition check_stake_of ::
  "kernel_env \<Rightarrow> CBlock \<Rightarrow> CTransaction \<Rightarrow> CTransaction \<Rightarrow> uint256 \<Rightarrow> (bool \<times> uint256) option" where
  "check_stake_of ke block tx txPrev hashBlk =
     (let out = prevout (vin tx ! 0) in
      if unat (outpoint_n out) \<ge> length (vout txPrev) then None
      else
        let prev = vout txPrev ! unat (outpoint_n out) in
        if run_check (ke_sig ke) (kernel_check tx (scriptPubKey prev)) \<noteq> Inr () then Some (False, 0)
        else case ke_map ke hashBlk of
          None \<Rightarrow> Some (False, 0)
        | Some p \<Rightarrow>
            (case ReadBlockAt ke (Index_GetBlockPos (ke_store ke ! p)) of
               None \<Rightarrow> Some (False, 0)
             | Some blockprev \<Rightarrow>
                 if ActiveProtocol (ke_chain ke) \<ge> CONSENSUS_FORK_PROTO \<and> GetBlockTime block \<ge> CONSENSUS_FORK_PROTO_TIME \<and>
                    nValue prev < ke_StakeInputMin ke
                 then Some (False, 0)
                 else if GetBlockTime block = UNCHECKED_KERNEL_TIME then Some (True, 0)
                 else map_option (\<lambda>r. (kr_ok r, kr_proof r))
                        (CheckStakeKernelHash ke (\<lambda>_. Chain_Height (ke_chain ke)) (nBits block) blockprev txPrev out
                           (nTime block) 0 True 0)))"

definition CheckProofOfStake ::
  "kernel_env \<Rightarrow> 'v CCoinsView \<Rightarrow> 'v CCoinsViewCache \<Rightarrow> CBlock \<Rightarrow> ((bool \<times> uint256) \<times> 'v CCoinsViewCache) option" where
  "CheckProofOfStake ke B pcoinsTip block =
     (if length (vtx block) \<le> 1 then None
      else
        let tx = vtx block ! 1 in
        if \<not> IsCoinStake tx then Some ((False, 0), pcoinsTip)
        else case GetTransaction ke B pcoinsTip (outpoint_hash (prevout (vin tx ! 0))) 0 True of
          None \<Rightarrow> None
        | Some (None, tip) \<Rightarrow> Some ((False, 0), tip)
        | Some (Some (txPrev, hashBlk), tip) \<Rightarrow>
            map_option (\<lambda>r. (r, tip)) (check_stake_of ke block tx txPrev hashBlk))"

text \<open>\<open>mapProofOfStake\<close> keeps the proof hash of a block; the first one stays.\<close>

definition CheckWork ::
  "kernel_env \<Rightarrow> 'v CCoinsView \<Rightarrow> 'v CCoinsViewCache \<Rightarrow> CBlock \<Rightarrow> nat option \<Rightarrow> (uint256 \<rightharpoonup> uint256) \<Rightarrow>
   (bool \<times> (uint256 \<rightharpoonup> uint256) \<times> 'v CCoinsViewCache) option" where
  "CheckWork ke B pcoinsTip block pindexPrev mapProofOfStake =
     (case pindexPrev of
        None \<Rightarrow> Some (False, mapProofOfStake, pcoinsTip)
      | Some p \<Rightarrow>
          Option.bind (GetNextWorkRequired (be_pow (ke_block ke)) (ke_store ke) (Some p)) (\<lambda>nBitsRequired.
            if nBits block \<noteq> nBitsRequired then Some (False, mapProofOfStake, pcoinsTip)
            else if IsProofOfStake block then
              map_option (\<lambda>((ok, proof), tip).
                  if \<not> ok then (False, mapProofOfStake, tip)
                  else (True, if mapProofOfStake (Block_GetHash (ke_block ke) block) = None
                              then mapProofOfStake(Block_GetHash (ke_block ke) block \<mapsto> proof) else mapProofOfStake, tip))
                (CheckProofOfStake ke B pcoinsTip block)
            else Some (True, mapProofOfStake, pcoinsTip)))"

end
