(* ===== verification/Kernel_Props.thy ===== *)
theory Kernel_Props
  imports Kernel Chain_Props Check_Block_Props Check_Inputs_Props
begin

text \<open>
  Proof of stake: the loop for the modifier of a kernel ends at the first late enough one, the selection of the next
  modifier is a selection of 64 distinct blocks by a simple rule and never fails, a time that the search finds
  passes the check, and the target test is exact below an overflow.
\<close>

section \<open>The modifier of a kernel\<close>

lemma GetStakeModifierSelectionInterval_value: "GetStakeModifierSelectionInterval = 2087"
  by code_simp

lemma selection_interval_pos: "0 < selection_interval ke t"
  by (simp add: selection_interval_def GetStakeModifierSelectionInterval_value nStakeMinAge_def)

text \<open>The blocks of the active chain above a height.\<close>

definition chain_above :: "CChain \<Rightarrow> nat \<Rightarrow> nat list" where
  "chain_above C h = map the (drop (Suc h) C)"

definition late_modifier :: "block_store \<Rightarrow> int \<Rightarrow> nat \<Rightarrow> bool" where
  "late_modifier st bound p \<longleftrightarrow> GeneratedStakeModifier (st ! p) \<and> Index_GetBlockTime (st ! p) \<ge> bound"

definition modifier_of :: "block_store \<Rightarrow> nat \<Rightarrow> uint64 \<times> int \<times> int" where
  "modifier_of st p = (nStakeModifier (st ! p), int (bi_nHeight (st ! p)), Index_GetBlockTime (st ! p))"

lemma chain_ok_nth:
  assumes "chain_ok st C" "tree_ok st" "h < length C"
  obtains p where "C ! h = Some p" "p < length st" "bi_nHeight (st ! p) = h"
  using assms(1)
proof (cases rule: chain_okE)
  case 1
  then show ?thesis using assms(3) by simp
next
  case (2 t)
  then have "h \<le> bi_nHeight (st ! t)" using assms(3) by simp
  then show ?thesis using anc_spec [OF assms(2) 2(1)] path_nth 2(2) that by metis
qed

lemma kernel_loop_first:
  assumes "chain_ok st C" "tree_ok st"
  shows "t < bound \<Longrightarrow>
    kernel_loop st C bound p (Chain_at C (int h)) k t =
      Some (map_option (modifier_of st) (find (late_modifier st bound) (map the (drop h C))))"
proof (induction "length C - h" arbitrary: p h k t)
  case 0
  then show ?case by (subst kernel_loop.simps) (simp add: Chain_at_def)
next
  case (Suc n)
  then have h: "h < length C" by simp
  obtain q where q: "C ! h = Some q" "q < length st" "bi_nHeight (st ! q) = h"
    using chain_ok_nth [OF assms h] .
  have at: "Chain_at C (int h) = Some q" using h q(1) by (simp add: Chain_at_def)
  have dr: "drop h C = Some q # drop (Suc h) C" using h q(1) by (metis Cons_nth_drop_Suc)
  have nx: "int h + 1 = int (Suc h)" by simp
  have IH: "t' < bound \<Longrightarrow> kernel_loop st C bound q (Chain_at C (int (Suc h))) k' t' =
      Some (map_option (modifier_of st) (find (late_modifier st bound) (map the (drop (Suc h) C))))" for k' t'
    using Suc.hyps(1) [of "Suc h" t' q k'] Suc.hyps(2) by simp
  show ?case
  proof (cases "GeneratedStakeModifier (st ! q)")
    case False
    then show ?thesis using Suc.prems IH [of t k]
      by (subst kernel_loop.simps) (simp add: at q(3) nx dr late_modifier_def Let_def del: of_nat_Suc)
  next
    case True
    show ?thesis
    proof (cases "Index_GetBlockTime (st ! q) < bound")
      case True
      then show ?thesis using Suc.prems IH [of "Index_GetBlockTime (st ! q)" "int h"] \<open>GeneratedStakeModifier (st ! q)\<close>
        by (subst kernel_loop.simps) (simp add: at q(3) nx dr late_modifier_def Let_def del: of_nat_Suc)
    next
      case False
      have "kernel_loop st C bound q nxt (int h) (Index_GetBlockTime (st ! q)) = Some (Some (modifier_of st q))" for nxt
        using False by (subst kernel_loop.simps) (simp add: modifier_of_def q(3))
      then show ?thesis using Suc.prems False \<open>GeneratedStakeModifier (st ! q)\<close>
        by (subst kernel_loop.simps) (simp add: at q(3) dr late_modifier_def Let_def)
    qed
  qed
qed

lemma GetKernelStakeModifier_eq:
  assumes "tree_ok (ke_store ke)" "chain_ok (ke_store ke) (ke_chain ke)" "ke_map ke hashBlk = Some p"
  shows "GetKernelStakeModifier ke hashBlk t =
    Some (map_option (modifier_of (ke_store ke))
      (find (late_modifier (ke_store ke) (Index_GetBlockTime (ke_store ke ! p) + selection_interval ke t))
         (chain_above (ke_chain ke) (bi_nHeight (ke_store ke ! p)))))"
proof -
  have nx: "int (bi_nHeight (ke_store ke ! p)) + 1 = int (Suc (bi_nHeight (ke_store ke ! p)))" by simp
  show ?thesis
    unfolding GetKernelStakeModifier_def
    using kernel_loop_first [OF assms(2,1)] selection_interval_pos [of ke t]
    by (simp add: assms(3) nx chain_above_def Let_def del: of_nat_Suc)
qed

text \<open>The modifier of a kernel is that of the first block of the active chain above the block of the coins that
  generated a modifier a selection interval or more after it. The loop always ends; it reports an error exactly if
  there is no such block yet.\<close>

theorem GetKernelStakeModifier_first:
  assumes "tree_ok (ke_store ke)" "chain_ok (ke_store ke) (ke_chain ke)" "ke_map ke hashBlk = Some p"
  shows "GetKernelStakeModifier ke hashBlk t =
    Some (map_option (modifier_of (ke_store ke))
      (find (late_modifier (ke_store ke) (Index_GetBlockTime (ke_store ke ! p) + selection_interval ke t))
         (chain_above (ke_chain ke) (bi_nHeight (ke_store ke ! p)))))"
  by (rule GetKernelStakeModifier_eq [OF assms])

section \<open>The target\<close>

lemma stakeTargetHit_exact:
  assumes "0 \<le> v" "v < 2 ^ 63" "v div 100 * uint target < 2 ^ 256"
  shows "stakeTargetHit h v target \<longleftrightarrow> uint h < v div 100 * uint target"
proof -
  have v: "uint (word_of_int v :: uint64) = v" using assms(1,2) by (simp add: uint_word_of_int)
  have w: "uint (ucast (word_of_int v :: uint64) div 100 :: uint256) = v div 100"
    using assms(1,2) v by (simp add: uint_div unsigned_ucast_eq take_bit_int_eq_self)
  have "0 \<le> v div 100 * uint target" using assms(1) by (simp add: pos_imp_zdiv_nonneg_iff)
  then have "uint (ucast (word_of_int v :: uint64) div 100 * target) = v div 100 * uint target"
    using assms(3) by (simp add: uint_word_ariths w)
  then show ?thesis by (simp add: stakeTargetHit_def word_less_def)
qed

text \<open>At the greatest target a stake of 1099511.62776 coins has weight zero, where one of an eighth of it has almost
  every hash below its target.\<close>

lemma stakeTargetHit_wraps:
  "\<not> stakeTargetHit h (100 * 2 ^ 40) (target_of 0x1e00ffff)"
  "stakeTargetHit (2 ^ 255) (100 * 2 ^ 37) (target_of 0x1e00ffff)"
proof -
  have "compact_target 0x1e00ffff = [0, 0, 0, 0, 0, 0, 0xff000000, 0xff]" by code_simp
  then have t: "target_of 0x1e00ffff = 0xffff * 2 ^ 216" by (simp add: target_of_def)
  show "\<not> stakeTargetHit h (100 * 2 ^ 40) (target_of 0x1e00ffff)"
    unfolding t stakeTargetHit_def Let_def by (simp add: word_less_def)
  show "stakeTargetHit (2 ^ 255) (100 * 2 ^ 37) (target_of 0x1e00ffff)"
    unfolding t stakeTargetHit_def Let_def by simp
qed

section \<open>The search\<close>

lemma kernel_search_found:
  "kernel_search hash hit same t d is proof = (Some t', proof') \<Longrightarrow>
   proof' = hash t' \<and> hit (hash t') \<and> (\<exists>i \<in> set is. t' = t + d - of_nat i)"
  by (induction "is" arbitrary: "proof") (auto simp: Let_def split: if_splits)

lemma drift_time:
  fixes t d :: uint32
  assumes "uint t + uint d < 2 ^ 32" "i < unat d"
  shows "t < t + d - of_nat i"
proof -
  have td: "uint (t + d) = uint t + uint d"
    using assms(1) by (simp add: uint_word_ariths(1) mod_pos_pos_trivial)
  have "i < 2 ^ 32" using assms(2) unsigned_less [of d, where 'a = nat] by simp
  then have "take_bit LENGTH(32) i = i" by (intro take_bit_nat_eq_self) simp
  then have i: "uint (of_nat i :: uint32) = int i" by (simp only: unsigned_of_nat)
  have "int i < uint d" using assms(2) by (simp only: unat_eq_nat_uint zless_nat_eq_int_zless)
  moreover from this have "uint (t + d - of_nat i) = uint t + uint d - int i"
    using assms(1) unfolding uint_word_ariths(2) td i using uint_ge_0 [of t] by (intro mod_pos_pos_trivial) (linarith, simp)
  ultimately show ?thesis unfolding word_less_def by linarith
qed

lemma age_ok_later:
  fixes a t t' :: uint32
  assumes "\<not> t < a" "\<not> a + m > t" "t < t'"
  shows "\<not> t' < a" "\<not> a + m > t'"
  using assms by simp_all

lemma GetKernelStakeModifier_interval:
  "selection_interval ke t' = selection_interval ke t \<Longrightarrow> GetKernelStakeModifier ke h t' = GetKernelStakeModifier ke h t"
  unfolding GetKernelStakeModifier_def by (simp only:)

text \<open>C32: what the search of the wallet finds passes the check of the validator: with the time found, if it is on the
  same side of the fork time as the start of the search, \<^verbatim>\<open>CheckStakeKernelHash\<close> in its checking mode accepts
  the kernel with the same proof hash, whatever the drift.\<close>

theorem CheckStakeKernelHash_search_sound:
  assumes "CheckStakeKernelHash ke heightAt bits blockFrom txPrev out t drift False h0 = Some r" "kr_ok r"
    and "uint t + uint drift < 2 ^ 32"
    and "selection_interval ke (uint (kr_nTimeTx r)) = selection_interval ke (uint t)"
  shows "t < kr_nTimeTx r \<and>
    CheckStakeKernelHash ke heightAt' bits blockFrom txPrev out (kr_nTimeTx r) drift' True h1 =
      Some \<lparr>kr_ok = True, kr_nTimeTx = kr_nTimeTx r, kr_proof = kr_proof r, kr_mapHashedBlocks = None\<rparr>"
proof -
  let ?v = "nValue (vout txPrev ! unat (outpoint_n out))"
  let ?hash = "\<lambda>m t. stakeHash (ke_Hash ke) t (WRITEDATA m) (outpoint_n out) (outpoint_hash out) (nTime blockFrom)"
  let ?hit = "\<lambda>h. stakeTargetHit h ?v (target_of bits)"
  have ok: "\<not> unat (outpoint_n out) \<ge> length (vout txPrev)" "\<not> t < nTime blockFrom" "\<not> nTime blockFrom + nStakeMinAge > t"
    using assms(1,2) by (auto simp: CheckStakeKernelHash_def Let_def split: if_splits)
  obtain m x y where m: "GetKernelStakeModifier ke (Block_GetHash (ke_block ke) blockFrom) (uint t) = Some (Some (m, x, y))"
    using assms(1,2) ok by (auto simp: CheckStakeKernelHash_def Let_def split: option.splits)
  obtain t' where search: "kernel_search (?hash m) ?hit (\<lambda>i. heightAt i = Chain_Height (ke_chain ke)) t drift [0 ..< unat drift] h0 =
      (Some t', kr_proof r)" and t': "kr_nTimeTx r = t'"
    using assms(1,2) ok m
    by (auto simp: CheckStakeKernelHash_def Let_def split: prod.splits option.splits)
  have f: "kr_proof r = ?hash m t'" "?hit (?hash m t')" "\<exists>i < unat drift. t' = t + drift - of_nat i"
    using kernel_search_found [OF search] by auto
  have lt: "t < t'" using f(3) drift_time [OF assms(3)] by auto
  have "GetKernelStakeModifier ke (Block_GetHash (ke_block ke) blockFrom) (uint t') = Some (Some (m, x, y))"
    using m GetKernelStakeModifier_interval [OF assms(4)] t' by simp
  then show ?thesis
    using ok(1) age_ok_later [OF ok(2,3) lt] f(1,2) lt by (simp add: CheckStakeKernelHash_def Let_def t')
qed

section \<open>The next modifier\<close>

text \<open>The reference: ancestors of the last block, back to the start of the interval, in the order of time and hash.\<close>

definition ancestors :: "block_store \<Rightarrow> nat \<Rightarrow> nat list" where
  "ancestors st p = map the (rev (path st p))"

definition block_hash :: "block_store \<Rightarrow> nat \<Rightarrow> uint256" where
  "block_hash st p = the (phashBlock (st ! p))"

definition block_time :: "block_store \<Rightarrow> nat \<Rightarrow> int" where
  "block_time st p = Index_GetBlockTime (st ! p)"

definition stake_candidates :: "block_store \<Rightarrow> int \<Rightarrow> nat \<Rightarrow> nat list" where
  "stake_candidates st start p =
     sort_key (block_time st) (sort_key (block_hash st) (rev (takeWhile (\<lambda>q. block_time st q \<ge> start) (ancestors st p))))"

text \<open>One round takes, among the blocks left that are not later than \<open>stop\<close> (or the first, if none is), the one with the
  least selection hash.\<close>

definition eligible :: "block_store \<Rightarrow> nat list \<Rightarrow> int \<Rightarrow> nat list" where
  "eligible st left stop = (case left of [] \<Rightarrow> [] | p # ps \<Rightarrow> p # filter (\<lambda>q. block_time st q \<le> stop) ps)"

fun stake_picks :: "block_store \<Rightarrow> (nat \<Rightarrow> uint256) \<Rightarrow> nat list \<Rightarrow> int \<Rightarrow> int list \<Rightarrow> nat list" where
  "stake_picks st H left stop [] = []"
| "stake_picks st H left stop (a # as) =
     (let p = arg_min_list H (eligible st left (stop + a)) in p # stake_picks st H (remove1 p left) (stop + a) as)"

text \<open>Bit \<open>i\<close> of the modifier is the last bit of the hash of the block picked in round \<open>i\<close>.\<close>

definition add_bit :: "block_store \<Rightarrow> nat \<times> nat \<Rightarrow> uint64 \<Rightarrow> uint64" where
  "add_bit st e m = m OR push_bit (fst e) (ucast (block_hash st (snd e) AND 1))"

definition modifier_bits :: "block_store \<Rightarrow> nat list \<Rightarrow> uint64" where
  "modifier_bits st picks = fold (add_bit st) (zip [0 ..< length picks] picks) 0"

definition candidate_hash :: "kernel_env \<Rightarrow> bool \<Rightarrow> uint64 \<Rightarrow> nat \<Rightarrow> uint256" where
  "candidate_hash ke v2 prev q = selection_hash ke v2 prev (ke_store ke ! q) (block_hash (ke_store ke) q)"

definition section_length :: "nat \<Rightarrow> int" where
  "section_length n = 3780 div (189 - 2 * int n)"

definition reference_modifier :: "kernel_env \<Rightarrow> uint64 \<Rightarrow> nat \<Rightarrow> uint64" where
  "reference_modifier ke prev p =
     (let st = ke_store ke;
          start = block_time st p div 60 * 60 - 2087;
          cands = stake_candidates st start p;
          v2 = (case cands of [] \<Rightarrow> False | c # _ \<Rightarrow> int (bi_nHeight (st ! c)) \<ge> ke_ModifierUpgradeBlock ke);
          picks = stake_picks st (candidate_hash ke v2 prev) cands start (map section_length [0 ..< min 64 (length cands)])
      in modifier_bits st picks)"

subsection \<open>Ancestors and candidates\<close>

lemma path_step:
  assumes "tree_ok st" "p < length st" "pprev (st ! p) = Some q"
  shows "path st p = path st q @ [Some p]"
proof -
  note q = tree_parent [OF assms]
  have "map (anc st p) [0 ..< Suc (bi_nHeight (st ! q))] = path st q"
    using anc_parent [OF assms] by (auto simp: path_def)
  then show ?thesis using anc_self [of st p] by (simp add: path_def q(2))
qed

lemma path_root: "tree_ok st \<Longrightarrow> p < length st \<Longrightarrow> pprev (st ! p) = None \<Longrightarrow> path st p = [Some p]"
  using anc_self [of st p] tree_root [of st p] by (simp add: path_def)

lemma ancestors_simps:
  assumes "tree_ok st" "p < length st"
  shows "ancestors st p = p # (case pprev (st ! p) of None \<Rightarrow> [] | Some q \<Rightarrow> ancestors st q)"
  using path_step [OF assms] path_root [OF assms] by (auto simp: ancestors_def split: option.splits)

lemma height_induct [consumes 2, case_names parent]:
  assumes "tree_ok st" "p < length st"
    and "\<And>p. tree_ok st \<Longrightarrow> p < length st \<Longrightarrow> (\<And>q. pprev (st ! p) = Some q \<Longrightarrow> q < length st \<Longrightarrow> P q) \<Longrightarrow> P p"
  shows "P p"
  using assms(2)
proof (induction "bi_nHeight (st ! p)" arbitrary: p rule: less_induct)
  case less
  show ?case
    by (rule assms(3) [OF assms(1) less.prems]) (use less tree_parent [OF assms(1)] in auto)
qed

lemma ancestors_cases:
  assumes "tree_ok st" "p < length st" "q \<in> set (ancestors st p)"
  obtains "q = p" | r where "pprev (st ! p) = Some r" "q \<in> set (ancestors st r)"
  using assms(3) unfolding ancestors_simps [OF assms(1,2)] by (cases "pprev (st ! p)") auto

lemma ancestors_range: "tree_ok st \<Longrightarrow> p < length st \<Longrightarrow> q \<in> set (ancestors st p) \<Longrightarrow> q < length st"
proof (induction rule: height_induct)
  case (parent p)
  show ?case
    by (rule ancestors_cases [OF parent.hyps parent.prems]) (use parent tree_parent in blast)+
qed

lemma ancestors_height: "tree_ok st \<Longrightarrow> p < length st \<Longrightarrow> q \<in> set (ancestors st p) \<Longrightarrow> bi_nHeight (st ! q) \<le> bi_nHeight (st ! p)"
proof (induction rule: height_induct)
  case (parent p)
  show ?case
    by (rule ancestors_cases [OF parent.hyps parent.prems]) (use parent tree_parent [OF parent.hyps] in fastforce)+
qed

lemma distinct_ancestors: "tree_ok st \<Longrightarrow> p < length st \<Longrightarrow> distinct (ancestors st p)"
proof (induction rule: height_induct)
  case (parent p)
  show ?case
  proof (cases "pprev (st ! p)")
    case (Some q)
    note q = tree_parent [OF parent.hyps(1,2) Some]
    have "p \<notin> set (ancestors st q)" using ancestors_height [OF parent.hyps(1) q(1), of p] q(2) by auto
    then show ?thesis using parent.IH [OF Some q(1)] parent.hyps Some by (simp add: ancestors_simps)
  qed (use parent.hyps in \<open>simp add: ancestors_simps\<close>)
qed

text \<open>Every block of the index has its hash, under which the map finds it.\<close>

definition indexed :: "block_store \<Rightarrow> (uint256 \<rightharpoonup> nat) \<Rightarrow> bool" where
  "indexed st m \<longleftrightarrow> list_all (\<lambda>p. case phashBlock (st ! p) of None \<Rightarrow> False | Some h \<Rightarrow> m h = Some p) [0 ..< length st]"

lemma indexed_hash:
  assumes "indexed st m" "p < length st"
  shows "phashBlock (st ! p) = Some (block_hash st p)" "m (block_hash st p) = Some p"
  using assms by (auto simp: indexed_def list_all_length block_hash_def split: option.splits)

lemma block_hash_inj: "indexed st m \<Longrightarrow> p < length st \<Longrightarrow> q < length st \<Longrightarrow> block_hash st p = block_hash st q \<Longrightarrow> p = q"
  using indexed_hash(2) by (metis option.inject)

abbreviation block_item :: "block_store \<Rightarrow> nat \<Rightarrow> int \<times> uint256" where
  "block_item st p \<equiv> (block_time st p, block_hash st p)"

lemma collect_candidates_eq:
  assumes "indexed st m"
  shows "tree_ok st \<Longrightarrow> p < length st \<Longrightarrow>
    collect_candidates st start (Some p) = Some (map (block_item st) (takeWhile (\<lambda>q. block_time st q \<ge> start) (ancestors st p)))"
proof (induction rule: height_induct)
  case (parent p)
  have 0: "collect_candidates st start None = Some []" by (subst collect_candidates.simps) simp
  show ?case
    using parent.IH indexed_hash(1) [OF assms parent.hyps(2)] tree_parent [OF parent.hyps(1,2)] 0
    by (subst collect_candidates.simps)
      (auto simp: ancestors_simps [OF parent.hyps(1,2)] block_time_def Index_GetBlockHash_def split: option.splits)
qed

lemma insort_key_map: "insort_key f (g x) (map g xs) = map g (insort_key (\<lambda>y. f (g y)) x xs)"
  by (induction xs) simp_all

lemma sort_key_map: "sort_key f (map g xs) = map g (sort_key (\<lambda>y. f (g y)) xs)"
  by (induction xs) (simp_all add: insort_key_map)

lemma sort_pairs_eq:
  "sort_pairs (rev (map (block_item st) xs)) = map (block_item st) (sort_key (block_time st) (sort_key (block_hash st) (rev xs)))"
  by (simp add: sort_pairs_def rev_map sort_key_map)

subsection \<open>One round\<close>

lemma arg_min_list_step:
  fixes H :: "'a \<Rightarrow> 'b::linorder"
  shows "arg_min_list H (q # p # ps) = arg_min_list H ((if H p < H q then p else q) # ps)"
  by (cases ps) (auto simp: Let_def)

definition unselected :: "block_store \<Rightarrow> uint256 list \<Rightarrow> nat list \<Rightarrow> nat list" where
  "unselected st selected ps = filter (\<lambda>p. block_hash st p \<notin> set selected) ps"

lemma select_loop_best:
  assumes "indexed (ke_store ke) (ke_map ke)"
  shows "set ps \<subseteq> {..< length (ke_store ke)} \<Longrightarrow> sorted (map (block_time (ke_store ke)) ps) \<Longrightarrow>
    select_loop ke selected stop prev (map (block_item (ke_store ke)) ps) (Some v) (Some (candidate_hash ke v prev q, q)) =
      (let r = arg_min_list (candidate_hash ke v prev)
                 (q # filter (\<lambda>p. block_time (ke_store ke) p \<le> stop) (unselected (ke_store ke) selected ps))
       in Some (Inr (Some (candidate_hash ke v prev r, r))))"
proof (induction ps arbitrary: q)
  case Nil
  then show ?case by (simp add: unselected_def)
next
  case (Cons p ps)
  note h = indexed_hash [OF assms, of p]
  have len: "p < length (ke_store ke)" using Cons.prems(1) by simp
  show ?case
  proof (cases "block_time (ke_store ke) p > stop")
    case True
    then have "filter (\<lambda>p. block_time (ke_store ke) p \<le> stop) (unselected (ke_store ke) selected (p # ps)) = []"
      using Cons.prems(2) by (force simp: unselected_def filter_empty_conv)
    then show ?thesis using True h len by (simp add: block_time_def)
  next
    case False
    have p: "set ps \<subseteq> {..< length (ke_store ke)}" "sorted (map (block_time (ke_store ke)) ps)" using Cons.prems by simp_all
    have le: "\<not> Index_GetBlockTime (ke_store ke ! p) > stop" using False by (simp add: block_time_def)
    let ?q' = "if candidate_hash ke v prev p < candidate_hash ke v prev q then p else q"
    have best: "(if candidate_hash ke v prev p < candidate_hash ke v prev q then Some (candidate_hash ke v prev p, p)
       else Some (candidate_hash ke v prev q, q)) = Some (candidate_hash ke v prev ?q', ?q')" by simp
    have step: "select_loop ke selected stop prev (map (block_item (ke_store ke)) (p # ps)) (Some v) (Some (candidate_hash ke v prev q, q)) =
       (if block_hash (ke_store ke) p \<in> set selected
        then select_loop ke selected stop prev (map (block_item (ke_store ke)) ps) (Some v) (Some (candidate_hash ke v prev q, q))
        else select_loop ke selected stop prev (map (block_item (ke_store ke)) ps) (Some v)
               (Some (candidate_hash ke v prev ?q', ?q')))"
      using le h(1) [OF len] h(2) [OF len]
      by (simp add: candidate_hash_def [symmetric] Index_GetBlockHash_def Let_def)
    show ?thesis
      unfolding step Cons.IH [OF p]
      using False by (simp add: unselected_def arg_min_list_step [of _ q] del: arg_min_list.simps)
  qed
qed

lemma select_loop_start:
  assumes "indexed (ke_store ke) (ke_map ke)"
  shows "set ps \<subseteq> {..< length (ke_store ke)} \<Longrightarrow> sorted (map (block_time (ke_store ke)) ps) \<Longrightarrow>
    select_loop ke selected stop prev (map (block_item (ke_store ke)) ps) (Some v) None =
      (if unselected (ke_store ke) selected ps = [] then Some (Inr None)
       else let r = arg_min_list (candidate_hash ke v prev) (eligible (ke_store ke) (unselected (ke_store ke) selected ps) stop)
            in Some (Inr (Some (candidate_hash ke v prev r, r))))"
proof (induction ps)
  case Nil
  then show ?case by (simp add: unselected_def)
next
  case (Cons p ps)
  have len: "p < length (ke_store ke)" using Cons.prems(1) by simp
  note h = indexed_hash [OF assms len]
  show ?case
  proof (cases "block_hash (ke_store ke) p \<in> set selected")
    case True
    then show ?thesis using Cons h by (simp add: unselected_def Index_GetBlockHash_def)
  next
    case False
    then have "select_loop ke selected stop prev (map (block_item (ke_store ke)) (p # ps)) (Some v) None =
        select_loop ke selected stop prev (map (block_item (ke_store ke)) ps) (Some v) (Some (candidate_hash ke v prev p, p))"
      using h by (simp add: candidate_hash_def Index_GetBlockHash_def Let_def)
    also have "\<dots> = (let r = arg_min_list (candidate_hash ke v prev)
                 (p # filter (\<lambda>p. block_time (ke_store ke) p \<le> stop) (unselected (ke_store ke) selected ps))
       in Some (Inr (Some (candidate_hash ke v prev r, r))))"
      using Cons.prems by (intro select_loop_best [OF assms]) simp_all
    finally show ?thesis using False by (simp add: unselected_def eligible_def)
  qed
qed

lemma SelectBlockFromCandidates_eq:
  assumes "indexed (ke_store ke) (ke_map ke)" "set (c # cs) \<subseteq> {..< length (ke_store ke)}"
    and "sorted (map (block_time (ke_store ke)) (c # cs))"
    and v: "v = (int (bi_nHeight (ke_store ke ! c)) \<ge> ke_ModifierUpgradeBlock ke)"
  shows "SelectBlockFromCandidates ke (map (block_item (ke_store ke)) (c # cs)) selected stop prev =
    Some (if unselected (ke_store ke) selected (c # cs) = [] then None
          else Some (arg_min_list (candidate_hash ke v prev)
                 (eligible (ke_store ke) (unselected (ke_store ke) selected (c # cs)) stop)))"
proof -
  have len: "c < length (ke_store ke)" using assms(2) by simp
  note h = indexed_hash [OF assms(1) len]
  have "select_loop ke selected stop prev (map (block_item (ke_store ke)) (c # cs)) None None =
        select_loop ke selected stop prev (map (block_item (ke_store ke)) (c # cs)) (Some v) None"
    using h by (simp add: v)
  then show ?thesis
    using select_loop_start [OF assms(1-3), of selected stop prev v]
    by (simp add: SelectBlockFromCandidates_def Let_def del: select_loop.simps list.map)
qed

subsection \<open>The rounds\<close>

lemma eligible_subset: "set (eligible st left stop) \<subseteq> set left" "left \<noteq> [] \<Longrightarrow> eligible st left stop \<noteq> []"
  by (auto simp: eligible_def split: list.splits)

lemma pick_in: "left \<noteq> [] \<Longrightarrow> arg_min_list (H :: nat \<Rightarrow> 'b::linorder) (eligible st left stop) \<in> set left"
  using arg_min_list_in [OF eligible_subset(2)] eligible_subset(1) by blast

lemma unselected_more:
  assumes "indexed st m" "set cands \<subseteq> {..< length st}" "distinct cands" "p \<in> set cands"
  shows "unselected st (block_hash st p # selected) cands = remove1 p (unselected st selected cands)"
proof -
  have "p < length st" using assms(2,4) by auto
  then have "(block_hash st q = block_hash st p) = (q = p)" if "q \<in> set cands" for q
    using that assms(2) block_hash_inj [OF assms(1)] by blast
  then have "unselected st (block_hash st p # selected) cands = filter (\<lambda>q. q \<noteq> p) (unselected st selected cands)"
    by (auto simp: unselected_def intro!: filter_cong)
  then show ?thesis using assms(3)
    by (simp add: unselected_def distinct_remove1_removeAll removeAll_filter_not_eq) (metis (lifting) eq_commute filter_cong)
qed

lemma entropy_bit:
  "indexed st m \<Longrightarrow> p < length st \<Longrightarrow> \<exists>bit. GetStakeEntropyBit (st ! p) = Some bit \<and> (ucast bit :: uint64) = ucast (block_hash st p AND 1)"
  using indexed_hash(1) [of st m p]
  by (auto simp: GetStakeEntropyBit_def Index_GetBlockHash_def intro!: bit_word_eqI) (auto simp: bit_simps)

lemma section_eq: "n < 64 \<Longrightarrow> GetStakeModifierSelectionIntervalSection n = Some (section_length n)"
  by (simp add: GetStakeModifierSelectionIntervalSection_def section_length_def MODIFIER_INTERVAL_def MODIFIER_INTERVAL_RATIO_def
      mult.commute [of "int n"])

lemma add_bit_pair: "add_bit st (i, p) m = m OR push_bit i (ucast (block_hash st p AND 1))"
  by (simp add: add_bit_def)

lemma modifier_rounds_eq:
  assumes ix: "indexed (ke_store ke) (ke_map ke)" and rng: "set (c # cs) \<subseteq> {..< length (ke_store ke)}"
    and srt: "sorted (map (block_time (ke_store ke)) (c # cs))" and dst: "distinct (c # cs)"
    and v: "v = (int (bi_nHeight (ke_store ke ! c)) \<ge> ke_ModifierUpgradeBlock ke)"
  shows "n \<le> length (unselected (ke_store ke) selected (c # cs)) \<Longrightarrow> k + n \<le> 64 \<Longrightarrow>
    modifier_rounds ke (map (block_item (ke_store ke)) (c # cs)) prev [k ..< k + n] selected stop new =
      Some (Some (fold (add_bit (ke_store ke))
        (zip [k ..< k + n] (stake_picks (ke_store ke) (candidate_hash ke v prev)
           (unselected (ke_store ke) selected (c # cs)) stop (map section_length [k ..< k + n]))) new))"
proof (induction n arbitrary: k selected stop new)
  case (Suc n)
  let ?st = "ke_store ke" and ?left = "unselected (ke_store ke) selected (c # cs)"
  let ?stop = "stop + section_length k"
  let ?p = "arg_min_list (candidate_hash ke v prev) (eligible ?st ?left ?stop)"
  have left: "?left \<noteq> []" using Suc.prems(1) by auto
  have p: "?p \<in> set ?left" by (rule pick_in [OF left])
  then have p': "?p \<in> set (c # cs)" "?p < length ?st" using rng by (auto simp: unselected_def)
  have up: "[k ..< k + Suc n] = k # [Suc k ..< Suc k + n]" by (simp add: upt_rec)
  have more: "unselected ?st (block_hash ?st ?p # selected) (c # cs) = remove1 ?p ?left"
    by (rule unselected_more [OF ix rng dst p'(1)])
  obtain bit where bit: "GetStakeEntropyBit (?st ! ?p) = Some bit" "(ucast bit :: uint64) = ucast (block_hash ?st ?p AND 1)"
    using entropy_bit [OF ix p'(2)] by auto
  have sel: "SelectBlockFromCandidates ke (map (block_item ?st) (c # cs)) selected ?stop prev = Some (Some ?p)"
    using SelectBlockFromCandidates_eq [OF ix rng srt v] left by simp
  have hash: "Index_GetBlockHash (?st ! ?p) = Some (block_hash ?st ?p)"
    using indexed_hash(1) [OF ix p'(2)] by (simp add: Index_GetBlockHash_def)
  have IH: "modifier_rounds ke (map (block_item ?st) (c # cs)) prev [Suc k ..< Suc k + n] (block_hash ?st ?p # selected) ?stop
       (new OR push_bit k (ucast bit)) =
      Some (Some (fold (add_bit ?st)
        (zip [Suc k ..< Suc k + n] (stake_picks ?st (candidate_hash ke v prev) (remove1 ?p ?left) ?stop
           (map section_length [Suc k ..< Suc k + n]))) (new OR push_bit k (ucast bit))))"
    using Suc.IH [of "block_hash ?st ?p # selected" "Suc k" ?stop "new OR push_bit k (ucast bit)"] Suc.prems p
    unfolding more by (simp add: length_remove1)
  show ?case
    unfolding up modifier_rounds.simps section_eq [OF less_le_trans, OF _ Suc.prems(2), of k, simplified]
    using sel bit hash IH by (simp add: add_bit_pair Let_def del: upt_Suc)
qed simp

lemma length_stake_picks [simp]: "length (stake_picks st H left stop as) = length as"
  by (induction st H left stop as rule: stake_picks.induct) (simp_all add: Let_def)

text \<open>The rounds pick different blocks.\<close>

lemma stake_picks_distinct:
  "distinct left \<Longrightarrow> length as \<le> length left \<Longrightarrow>
   distinct (stake_picks st H left stop as) \<and> set (stake_picks st H left stop as) \<subseteq> set left"
proof (induction st H left stop as rule: stake_picks.induct)
  case (2 st H left stop a as)
  let ?p = "arg_min_list H (eligible st left (stop + a))"
  have p: "?p \<in> set left" using 2(3) by (intro pick_in) auto
  have "length as \<le> length (remove1 ?p left)" using 2(3) p by (simp add: length_remove1)
  then have "distinct (stake_picks st H (remove1 ?p left) (stop + a) as)"
    "set (stake_picks st H (remove1 ?p left) (stop + a) as) \<subseteq> set (remove1 ?p left)"
    using 2 by (simp_all add: Let_def)
  then show ?case using p 2(2) by (auto simp: Let_def)
qed simp

lemma last_modifier_eq:
  "tree_ok st \<Longrightarrow> p < length st \<Longrightarrow> find (\<lambda>q. GeneratedStakeModifier (st ! q)) (ancestors st p) = Some q \<Longrightarrow>
   last_modifier st p = Some q"
proof (induction rule: height_induct)
  case (parent p)
  show ?case
  proof (cases "GeneratedStakeModifier (st ! p)")
    case True
    then show ?thesis using parent.prems
      by (subst last_modifier.simps) (simp add: ancestors_simps [OF parent.hyps] split: option.splits)
  next
    case False
    then obtain r where r: "pprev (st ! p) = Some r" "find (\<lambda>q. GeneratedStakeModifier (st ! q)) (ancestors st r) = Some q"
      using parent.prems by (auto simp: ancestors_simps [OF parent.hyps] split: option.splits)
    then show ?thesis using parent.IH [OF r(1) _ r(2)] tree_parent(1) [OF parent.hyps r(1)] False
      by (subst last_modifier.simps) simp
  qed
qed

lemma set_stake_candidates: "set (stake_candidates st start p) \<subseteq> set (ancestors st p)"
  by (auto simp: stake_candidates_def dest: set_takeWhileD)

lemma distinct_stake_candidates: "tree_ok st \<Longrightarrow> p < length st \<Longrightarrow> distinct (stake_candidates st start p)"
  using distinct_ancestors by (simp add: stake_candidates_def distinct_sort distinct_takeWhile)

lemma sorted_stake_candidates: "sorted (map (block_time st) (stake_candidates st start p))"
  by (simp add: stake_candidates_def)

lemma rounds_reference:
  assumes "tree_ok (ke_store ke)" "indexed (ke_store ke) (ke_map ke)" "p < length (ke_store ke)"
    and start: "start = block_time (ke_store ke) p div 60 * 60 - 2087"
  shows "modifier_rounds ke (map (block_item (ke_store ke)) (stake_candidates (ke_store ke) start p)) prev
      [0 ..< min 64 (length (stake_candidates (ke_store ke) start p))] [] start 0 = Some (Some (reference_modifier ke prev p))"
proof (cases "stake_candidates (ke_store ke) start p")
  case Nil
  then show ?thesis by (simp add: reference_modifier_def start Let_def modifier_bits_def)
next
  case (Cons c cs)
  have rng: "set (c # cs) \<subseteq> {..< length (ke_store ke)}"
    using set_stake_candidates [of "ke_store ke" start p] ancestors_range [OF assms(1,3)] Cons by auto
  have un: "unselected (ke_store ke) [] (c # cs) = c # cs" by (simp add: unselected_def)
  show ?thesis
    using modifier_rounds_eq [OF assms(2) rng _ _ refl, of "min 64 (length (c # cs))" "[]" 0 prev start 0]
      sorted_stake_candidates [of "ke_store ke" start p] distinct_stake_candidates [OF assms(1,3), of start] Cons
    unfolding un
    by (simp add: reference_modifier_def modifier_bits_def start Let_def del: list.map upt_Suc min_Suc_Suc)
qed

text \<open>C31: the next stake modifier. For every block of a well-formed index with an ancestor that generated a modifier
  \<^verbatim>\<open>ComputeNextStakeModifier\<close> succeeds. Within a minute of the last modifier it keeps it, and otherwise the new one
  consists of the last bits of the hashes of the blocks that the reference rule picks: round by round the unpicked block
  with the least selection hash.\<close>

theorem ComputeNextStakeModifier_reference:
  assumes "tree_ok (ke_store ke)" "indexed (ke_store ke) (ke_map ke)" "p < length (ke_store ke)"
    and "bi_nHeight (ke_store ke ! p) \<noteq> 0"
    and "find (\<lambda>q. GeneratedStakeModifier (ke_store ke ! q)) (ancestors (ke_store ke) p) = Some q"
  shows "ComputeNextStakeModifier ke (Some p) =
    Some (if block_time (ke_store ke) q div 60 \<ge> block_time (ke_store ke) p div 60
          then (True, nStakeModifier (ke_store ke ! q), False)
          else (True, reference_modifier ke (nStakeModifier (ke_store ke ! q)) p, True))"
proof -
  have gen: "GeneratedStakeModifier (ke_store ke ! q)" using assms(5) by (simp add: find_Some_iff) blast
  have last: "GetLastStakeModifier (ke_store ke) (Some p) = Some (Some (nStakeModifier (ke_store ke ! q), block_time (ke_store ke) q))"
    using last_modifier_eq [OF assms(1,3,5)] gen by (simp add: GetLastStakeModifier_def block_time_def)
  let ?start = "block_time (ke_store ke) p div 60 * 60 - 2087"
  have cands: "sort_pairs (rev (map (block_item (ke_store ke)) (takeWhile (\<lambda>q. ?start \<le> block_time (ke_store ke) q) (ancestors (ke_store ke) p)))) =
      map (block_item (ke_store ke)) (stake_candidates (ke_store ke) ?start p)"
    by (simp only: sort_pairs_eq stake_candidates_def)
  show ?thesis
    using assms(4) last collect_candidates_eq [OF assms(2,1,3), of ?start] rounds_reference [OF assms(1-3) refl]
    by (simp add: ComputeNextStakeModifier_def MODIFIER_INTERVAL_def GetStakeModifierSelectionInterval_value block_time_def [symmetric]
        Let_def cands)
qed

text \<open>The value of a target, for evaluation.\<close>

fun bu_int :: "base_uint \<Rightarrow> int" where
  "bu_int [] = 0"
| "bu_int (x # xs) = uint x + 4294967296 * bu_int xs"

lemma bu_int: "bu_int xs = int (bu_val xs)"
  by (induction xs) simp_all

lemma target_of_code [code]: "target_of n = word_of_int (bu_int (compact_target n))"
  by (simp add: target_of_def bu_int)

text \<open>Five blocks; the second and the third have generated a modifier.\<close>

definition mod_index :: "uint256 \<Rightarrow> nat \<Rightarrow> uint32 \<Rightarrow> uint32 \<Rightarrow> uint64 \<Rightarrow> CBlockIndex" where
  "mod_index h n t fl m = (demo_index n)\<lparr>phashBlock := Some h, bi_nTime := t, nFlags := fl, nStakeModifier := m\<rparr>"

definition mod_store :: block_store where
  "mod_store = [mod_index 1003 0 0 0 0, mod_index 101 1 1000 4 7, mod_index 102 2 3000 4 9,
     mod_index 103 3 3030 1 9, mod_index 104 4 3070 1 9]"

definition stake_kenv :: kernel_env where
  "stake_kenv = \<lparr>ke_block = fee_env\<lparr>be_mn := demo_mn\<lparr>me_store := mod_store, me_chain := path mod_store 4\<rparr>,
       be_mapBlockIndex := [1003 \<mapsto> 0, 101 \<mapsto> 1, 102 \<mapsto> 2, 103 \<mapsto> 3, 104 \<mapsto> 4]\<rparr>,
     ke_sig = demo_sig, ke_ModifierUpgradeBlock = 0, ke_StakeInputMin = 0, ke_literal = 0, ke_mempool = (\<lambda>_. None), ke_TxIndex = False,
     ke_ReadTxIndex = (\<lambda>_. None), ke_ReadTx = (\<lambda>_. None), ke_ReadBlock = (\<lambda>_. None)\<rparr>"

lemma stake_kenv_ok:
  "tree_ok (ke_store stake_kenv)" "chain_ok (ke_store stake_kenv) (ke_chain stake_kenv)"
  "indexed (ke_store stake_kenv) (ke_map stake_kenv)" "length (ke_store stake_kenv) = 5" "ke_map stake_kenv 1003 = Some 0"
  "bi_nHeight (ke_store stake_kenv ! 4) = 4"
  "find (\<lambda>q. GeneratedStakeModifier (ke_store stake_kenv ! q)) (ancestors (ke_store stake_kenv) 4) = Some 2"
  subgoal by code_simp
  subgoal by code_simp
  subgoal by code_simp
  subgoal by code_simp
  subgoal by code_simp
  subgoal by code_simp
  subgoal by code_simp
  done

theorem ComputeNextStakeModifier_reference_witness:
  "ComputeNextStakeModifier stake_kenv (Some 4) = Some (True, reference_modifier stake_kenv 9 4, True) \<and>
   reference_modifier stake_kenv 9 4 = 5"
proof
  have v: "block_time (ke_store stake_kenv) 2 div 60 = 50" "block_time (ke_store stake_kenv) 4 div 60 = 51"
    "nStakeModifier (ke_store stake_kenv ! 2) = 9"
    subgoal by code_simp
    subgoal by code_simp
    subgoal by code_simp
    done
  show "ComputeNextStakeModifier stake_kenv (Some 4) = Some (True, reference_modifier stake_kenv 9 4, True)"
    using ComputeNextStakeModifier_reference [OF stake_kenv_ok(1,3) _ _ stake_kenv_ok(7)] stake_kenv_ok(4,6) v by simp
  show "reference_modifier stake_kenv 9 4 = 5" by code_simp
qed

theorem GetKernelStakeModifier_first_witness:
  "GetKernelStakeModifier stake_kenv 1003 0 = Some (Some (9, 2, 3000))"
proof -
  have "map_option (modifier_of (ke_store stake_kenv))
      (find (late_modifier (ke_store stake_kenv) (Index_GetBlockTime (ke_store stake_kenv ! 0) + selection_interval stake_kenv 0))
         (chain_above (ke_chain stake_kenv) (bi_nHeight (ke_store stake_kenv ! 0)))) = Some (9, 2, 3000)"
    by code_simp
  then show ?thesis using GetKernelStakeModifier_first [OF stake_kenv_ok(1,2,5), of 0] by simp
qed

definition demo_kernel :: "(nat \<Rightarrow> int) \<Rightarrow> uint32 \<Rightarrow> uint32 \<Rightarrow> bool \<Rightarrow> kernel_result option" where
  "demo_kernel heightAt t drift fCheck =
     CheckStakeKernelHash stake_kenv heightAt 0x1e00ffff coinbase_block (demo_coinbase\<lparr>vout := [\<lparr>nValue = 200, scriptPubKey = []\<rparr>]\<rparr>)
       \<lparr>outpoint_hash = 7, outpoint_n = 0\<rparr> t drift fCheck 0"

lemma demo_kernel_found:
  "map_option kr_ok (demo_kernel (\<lambda>_. 4) 15000 5 False) = Some True"
  "map_option kr_nTimeTx (demo_kernel (\<lambda>_. 4) 15000 5 False) = Some 15005"
  subgoal by code_simp
  subgoal by code_simp
  done

theorem CheckStakeKernelHash_search_sound_witness:
  "map_option kr_ok (demo_kernel (\<lambda>_. 4) 15005 0 True) = Some True"
proof -
  obtain r where r: "demo_kernel (\<lambda>_. 4) 15000 5 False = Some r" "kr_ok r" "kr_nTimeTx r = 15005"
    using demo_kernel_found by auto
  have "selection_interval stake_kenv (uint (15005 :: uint32)) = selection_interval stake_kenv (uint (15000 :: uint32))" by code_simp
  then show ?thesis
    using CheckStakeKernelHash_search_sound [OF r(1) [unfolded demo_kernel_def] r(2), of "\<lambda>_. 4" 0 0] r(3)
    by (simp add: demo_kernel_def)
qed

end
