(* ===== verification/Chain_Select.thy ===== *)
theory Chain_Select
  imports Kernel
begin

text \<open>
  The choice of the chain with the most work among the blocks that are known (\<^verbatim>\<open>src/src/main.cpp\<close>): the
  candidates, the blocks that wait for their parents, blocks found invalid or reconsidered, and the reception of
  headers and blocks. \<open>None\<close> is a failed assertion, an access through a null pointer, or a loop that
  does not end.
\<close>

section \<open>State\<close>

text \<open>
  The set of candidates is ordered by \<^verbatim>\<open>CBlockIndexWorkComparator\<close> and is an ascending list; the keys of a
  block do not change while it is in the set. The address of a block, the last tie breaker, is its position
  in the store. A multimap is a list of pairs in the order of insertion; of the sets, which are only looked up
  or written out, the order does not matter.
\<close>

record chain_state =
  cs_index :: block_store
  cs_map :: "uint256 \<rightharpoonup> nat"
  cs_chain :: CChain
  cs_candidates :: "nat list"
  cs_unlinked :: "(nat option \<times> nat) list"
  cs_best_invalid :: "nat option"
  cs_best_header :: "nat option"
  cs_sequence :: uint32
  cs_dirty :: "nat list"
  cs_proofs :: "uint256 \<rightharpoonup> uint256"
  cs_source :: "uint256 \<rightharpoonup> int"
  cs_stakeSeen :: "(COutPoint \<times> uint32) list"

definition work_less :: "block_store \<Rightarrow> nat \<Rightarrow> nat \<Rightarrow> bool" where
  "work_less st pa pb =
     (if nChainWork (st ! pa) > nChainWork (st ! pb) then False
      else if nChainWork (st ! pa) < nChainWork (st ! pb) then True
      else if nSequenceId (st ! pa) < nSequenceId (st ! pb) then False
      else if nSequenceId (st ! pa) > nSequenceId (st ! pb) then True
      else if pa < pb then False
      else if pa > pb then True
      else False)"

fun cand_insert :: "block_store \<Rightarrow> nat \<Rightarrow> nat list \<Rightarrow> nat list" where
  "cand_insert st p [] = [p]"
| "cand_insert st p (q # qs) =
     (if work_less st p q then p # q # qs else if work_less st q p then q # cand_insert st p qs else q # qs)"

definition cand_erase :: "nat \<Rightarrow> chain_state \<Rightarrow> chain_state" where
  "cand_erase p s = s\<lparr>cs_candidates := filter (\<lambda>q. q \<noteq> p) (cs_candidates s)\<rparr>"

definition cand_add :: "nat \<Rightarrow> chain_state \<Rightarrow> chain_state" where
  "cand_add p s = s\<lparr>cs_candidates := cand_insert (cs_index s) p (cs_candidates s)\<rparr>"

definition set_block :: "nat \<Rightarrow> (CBlockIndex \<Rightarrow> CBlockIndex) \<Rightarrow> chain_state \<Rightarrow> chain_state" where
  "set_block p f s = s\<lparr>cs_index := (cs_index s)[p := f (cs_index s ! p)]\<rparr>"

definition mark_dirty :: "nat \<Rightarrow> chain_state \<Rightarrow> chain_state" where
  "mark_dirty p s = s\<lparr>cs_dirty := List.insert p (cs_dirty s)\<rparr>"

abbreviation add_status :: "uint32 \<Rightarrow> CBlockIndex \<Rightarrow> CBlockIndex" where
  "add_status flag b \<equiv> b\<lparr>nStatus := nStatus b OR flag\<rparr>"

abbreviation block_failed :: "CBlockIndex \<Rightarrow> bool" where
  "block_failed b \<equiv> nStatus b AND BLOCK_FAILED_MASK \<noteq> 0"

abbreviation has_data :: "CBlockIndex \<Rightarrow> bool" where
  "has_data b \<equiv> nStatus b AND BLOCK_HAVE_DATA \<noteq> 0"

section \<open>FindMostWorkChain\<close>

text \<open>The first block towards the active chain that is not usable.\<close>

partial_function (option) find_unusable :: "block_store \<Rightarrow> CChain \<Rightarrow> nat option \<Rightarrow> nat option option" where
  "find_unusable st C pindexTest =
     (case pindexTest of
        None \<Rightarrow> Some None
      | Some p \<Rightarrow>
          if Contains st C p then Some None
          else if \<not> (nChainTx (st ! p) \<noteq> 0 \<or> bi_nHeight (st ! p) = 0) then None
          else if block_failed (st ! p) \<or> \<not> has_data (st ! p) then Some (Some p)
          else find_unusable st C (pprev (st ! p)))"

text \<open>The blocks above it are dropped from the set; a null pointer is not reached.\<close>

partial_function (option) drop_branch :: "bool \<Rightarrow> nat \<Rightarrow> nat option \<Rightarrow> chain_state \<Rightarrow> chain_state option" where
  "drop_branch fFailedChain pindexTest pindexFailed s =
     (case pindexFailed of
        None \<Rightarrow> None
      | Some q \<Rightarrow>
          if q = pindexTest then Some s
          else
            let up = pprev (cs_index s ! q);
                s1 = (if fFailedChain then set_block q (add_status BLOCK_FAILED_CHILD) s
                      else s\<lparr>cs_unlinked := cs_unlinked s @ [(up, q)]\<rparr>)
            in drop_branch fFailedChain pindexTest up (cand_erase q s1))"

partial_function (option) FindMostWorkChain :: "chain_state \<Rightarrow> (nat option \<times> chain_state) option" where
  "FindMostWorkChain s =
     (if cs_candidates s = [] then Some (None, s)
      else let p = last (cs_candidates s) in
        (case find_unusable (cs_index s) (cs_chain s) (Some p) of
           None \<Rightarrow> None
         | Some None \<Rightarrow> Some (Some p, s)
         | Some (Some q) \<Rightarrow>
             let failed = block_failed (cs_index s ! q);
                 better = (case cs_best_invalid s of None \<Rightarrow> True
                           | Some b \<Rightarrow> nChainWork (cs_index s ! p) > nChainWork (cs_index s ! b));
                 s1 = (if failed \<and> better then s\<lparr>cs_best_invalid := Some p\<rparr> else s)
             in Option.bind (drop_branch failed q (Some p) s1) (\<lambda>s2. FindMostWorkChain (cand_erase q s2))))"

declare find_unusable.simps [code] drop_branch.simps [code] FindMostWorkChain.simps [code]

text \<open>The set is ordered, so the candidates before the tip stand at the front.\<close>

definition PruneBlockIndexCandidates :: "chain_state \<Rightarrow> chain_state option" where
  "PruneBlockIndexCandidates s =
     (case cs_candidates s of
        [] \<Rightarrow> None
      | _ \<Rightarrow>
          (case Tip (cs_chain s) of
             None \<Rightarrow> None
           | Some t \<Rightarrow>
               let rest = dropWhile (\<lambda>p. work_less (cs_index s) p t) (cs_candidates s)
               in if rest = [] then None else Some (s\<lparr>cs_candidates := rest\<rparr>)))"

section \<open>Invalid blocks\<close>

text \<open>The report of the active chain needs a tip.\<close>

definition InvalidChainFound :: "nat \<Rightarrow> chain_state \<Rightarrow> chain_state option" where
  "InvalidChainFound p s =
     (if Tip (cs_chain s) = None then None
      else Some (case cs_best_invalid s of
            None \<Rightarrow> s\<lparr>cs_best_invalid := Some p\<rparr>
          | Some b \<Rightarrow> if nChainWork (cs_index s ! p) > nChainWork (cs_index s ! b) then s\<lparr>cs_best_invalid := Some p\<rparr> else s))"

text \<open>What is sent to the peer that a block came from, if it is still connected: a refusal, a penalty, a request for blocks.\<close>

datatype peer_effect = PushReject int byte string uint256 | Misbehaving int int | PushGetBlocks int "uint256 option list" uint256

definition MAX_REJECT_MESSAGE_LENGTH :: nat where "MAX_REJECT_MESSAGE_LENGTH = 111"

definition blame_peer :: "(int \<Rightarrow> bool) \<Rightarrow> chain_state \<Rightarrow> uint256 \<Rightarrow> CValidationState \<Rightarrow> peer_effect list" where
  "blame_peer known s hash st =
     (case cs_source s hash of
        None \<Rightarrow> []
      | Some peer \<Rightarrow>
          if \<not> known peer then []
          else PushReject peer (chRejectCode st) (take MAX_REJECT_MESSAGE_LENGTH (strRejectReason st)) hash #
               (if nDoS st > 0 then [Misbehaving peer (nDoS st)] else []))"

definition InvalidBlockFound ::
  "(int \<Rightarrow> bool) \<Rightarrow> nat \<Rightarrow> CValidationState \<Rightarrow> chain_state \<Rightarrow> (peer_effect list \<times> chain_state) option" where
  "InvalidBlockFound known p st s =
     Option.bind
       (if mode st = MODE_INVALID then map_option (\<lambda>h. blame_peer known s h st) (Index_GetBlockHash (cs_index s ! p)) else Some [])
       (\<lambda>effects. map_option (Pair effects)
          (if corruptionPossible st then Some s
           else InvalidChainFound p (cand_erase p (mark_dirty p (set_block p (add_status BLOCK_FAILED_VALID) s)))))"

text \<open>The blocks of the map, in any order; each block is in the map once.\<close>

definition all_blocks :: "chain_state \<Rightarrow> nat list" where
  "all_blocks s = [0 ..< length (cs_index s)]"

definition readd_candidates :: "chain_state \<Rightarrow> chain_state option" where
  "readd_candidates s =
     (case Tip (cs_chain s) of
        None \<Rightarrow> None
      | Some t \<Rightarrow>
          Some (fold (\<lambda>p s. if Index_IsValid BLOCK_VALID_TRANSACTIONS (cs_index s ! p) \<and> nChainTx (cs_index s ! p) \<noteq> 0 \<and>
                               \<not> work_less (cs_index s) p t
                            then cand_add p s else s) (all_blocks s) s))"

text \<open>The default level of \<^verbatim>\<open>IsValid\<close> is \<^verbatim>\<open>BLOCK_VALID_TRANSACTIONS\<close>.\<close>

definition reconsider_block :: "nat \<Rightarrow> nat \<Rightarrow> nat \<Rightarrow> chain_state \<Rightarrow> chain_state" where
  "reconsider_block p t b s =
     (if \<not> Index_IsValid BLOCK_VALID_TRANSACTIONS (cs_index s ! b) \<and>
         GetAncestor (cs_index s) b (int (bi_nHeight (cs_index s ! p))) = Some p
      then
        let s1 = mark_dirty b (set_block b (\<lambda>x. x\<lparr>nStatus := nStatus x AND NOT BLOCK_FAILED_MASK\<rparr>) s);
            s2 = (if Index_IsValid BLOCK_VALID_TRANSACTIONS (cs_index s1 ! b) \<and> nChainTx (cs_index s1 ! b) \<noteq> 0 \<and>
                     work_less (cs_index s1) t b
                  then cand_add b s1 else s1)
        in if cs_best_invalid s2 = Some b then s2\<lparr>cs_best_invalid := None\<rparr> else s2
      else s)"

partial_function (option) clear_ancestors :: "nat option \<Rightarrow> chain_state \<Rightarrow> chain_state option" where
  "clear_ancestors pindex s =
     (case pindex of
        None \<Rightarrow> Some s
      | Some p \<Rightarrow>
          clear_ancestors (pprev (cs_index s ! p))
            (if block_failed (cs_index s ! p)
             then mark_dirty p (set_block p (\<lambda>x. x\<lparr>nStatus := nStatus x AND NOT BLOCK_FAILED_MASK\<rparr>) s) else s))"

declare clear_ancestors.simps [code]

definition ReconsiderBlock :: "nat \<Rightarrow> chain_state \<Rightarrow> chain_state option" where
  "ReconsiderBlock p s =
     (case Tip (cs_chain s) of
        None \<Rightarrow> None
      | Some t \<Rightarrow> clear_ancestors (Some p) (fold (reconsider_block p t) (all_blocks s) s))"

section \<open>Reception\<close>

text \<open>
  The queue of blocks that become connectable with their parent; the sequence number wraps. Every turn takes an
  entry from the waiting blocks, except the first, so the queue runs empty.
\<close>

definition receive_block :: "nat \<Rightarrow> chain_state \<Rightarrow> chain_state" where
  "receive_block p s =
     (let b = cs_index s ! p;
          prev = (case pprev b of None \<Rightarrow> 0 | Some q \<Rightarrow> nChainTx (cs_index s ! q));
          s1 = set_block p (\<lambda>x. x\<lparr>nChainTx := prev + nTx x, nSequenceId := cs_sequence s\<rparr>) s;
          s2 = s1\<lparr>cs_sequence := cs_sequence s + 1\<rparr>
      in if (case Tip (cs_chain s2) of None \<Rightarrow> True | Some t \<Rightarrow> \<not> work_less (cs_index s2) p t) then cand_add p s2 else s2)"

lemma unlinked_receive_block [simp]: "cs_unlinked (receive_block p s) = cs_unlinked s"
  by (simp add: receive_block_def Let_def set_block_def cand_add_def)

function receive_queue :: "nat list \<Rightarrow> chain_state \<Rightarrow> chain_state" where
  "receive_queue [] s = s"
| "receive_queue (p # queue) s =
     (let s1 = receive_block p s;
          ready = map snd (filter (\<lambda>e. fst e = Some p) (cs_unlinked s1));
          s2 = s1\<lparr>cs_unlinked := filter (\<lambda>e. fst e \<noteq> Some p) (cs_unlinked s1)\<rparr>
      in receive_queue (queue @ ready) s2)"
  by pat_completeness auto

termination
proof (relation "measure (\<lambda>(queue, s). length queue + length (cs_unlinked s))", goal_cases)
  case (2 p queue s s1 ready s2)
  then show ?case using sum_length_filter_compl [of "\<lambda>e. fst e = Some p" "cs_unlinked s"] by simp
qed simp

definition ReceivedBlockTransactions :: "CBlock \<Rightarrow> int \<Rightarrow> uint32 \<Rightarrow> nat \<Rightarrow> chain_state \<Rightarrow> chain_state" where
  "ReceivedBlockTransactions block file pos p s =
     (let s1 = set_block p (\<lambda>x. snd (RaiseValidity BLOCK_VALID_TRANSACTIONS
                 ((if IsProofOfStake block then SetProofOfStake x else x)
                    \<lparr>nTx := of_nat (length (vtx block)), nChainTx := 0, nFile := file, nDataPos := pos, nUndoPos := 0,
                     nStatus := nStatus x OR BLOCK_HAVE_DATA\<rparr>))) s;
          s2 = mark_dirty p s1;
          prev = pprev (cs_index s2 ! p)
      in if (case prev of None \<Rightarrow> True | Some q \<Rightarrow> nChainTx (cs_index s2 ! q) \<noteq> 0) then receive_queue [p] s2
         else if (case prev of None \<Rightarrow> False | Some q \<Rightarrow> Index_IsValid BLOCK_VALID_TREE (cs_index s2 ! q))
         then s2\<lparr>cs_unlinked := cs_unlinked s2 @ [(prev, p)]\<rparr> else s2)"

section \<open>Headers\<close>

text \<open>The environment with the index and the active chain of a state.\<close>

definition ke_at :: "kernel_env \<Rightarrow> chain_state \<Rightarrow> kernel_env" where
  "ke_at ke s = ke\<lparr>ke_block := (ke_block ke)\<lparr>be_mn := (be_mn (ke_block ke))\<lparr>me_store := cs_index s, me_chain := cs_chain s\<rparr>,
                                              be_mapBlockIndex := cs_map s\<rparr>\<rparr>"

definition u256 :: "base_uint \<Rightarrow> uint256" where
  "u256 pn = of_nat (bu_val pn)"

text \<open>
  The new block at position \<open>p\<close> and its parent \<open>q\<close>: height, skip pointer, trust, entropy bit, proof hash, stake
  modifier and checksum. A failure to compute them is only logged. \<^verbatim>\<open>mapProofOfStake[hash]\<close> makes an entry.
\<close>

definition link_block :: "kernel_env \<Rightarrow> uint256 \<Rightarrow> nat \<Rightarrow> nat \<Rightarrow> chain_state \<Rightarrow> chain_state option" where
  "link_block ke hash p q s =
     (let s1 = set_block p (\<lambda>b. b\<lparr>pprev := Some q, bi_nHeight := bi_nHeight (cs_index s ! q) + 1\<rparr>) s;
          s2 = set_block q (\<lambda>b. b\<lparr>pnext := Some p\<rparr>) (set_block p (BuildSkip (cs_index s1)) s1)
      in Option.bind (GetBlockTrust (cs_index s2 ! p)) (\<lambda>trust.
         let s3 = set_block p (\<lambda>b. b\<lparr>bnChainTrust := bnChainTrust (cs_index s2 ! q) + u256 trust\<rparr>) s2 in
         Option.bind (GetStakeEntropyBit (cs_index s3 ! p)) (\<lambda>bit.
         let s4 = set_block p (\<lambda>b. snd (SetStakeEntropyBit bit b)) s3;
             s5 = (if Index_IsProofOfStake (cs_index s4 ! p)
                   then let proof = (case cs_proofs s4 hash of None \<Rightarrow> 0 | Some h \<Rightarrow> h)
                        in set_block p (\<lambda>b. b\<lparr>hashProofOfStake := proof\<rparr>) s4 \<lparr>cs_proofs := (cs_proofs s4)(hash \<mapsto> proof)\<rparr>
                   else s4)
         in Option.bind (ComputeNextStakeModifier (ke_at ke s5) (Some q)) (\<lambda>(_, nModifier, fGenerated).
            let s6 = set_block p (SetStakeModifier nModifier fGenerated) s5 in
            map_option (\<lambda>c. set_block p (\<lambda>b. b\<lparr>nStakeModifierChecksum := c\<rparr>) s6)
              (GetStakeModifierChecksum (ke_at ke s6) (cs_index s6 ! p))))))"

definition AddToBlockIndex :: "kernel_env \<Rightarrow> CBlock \<Rightarrow> chain_state \<Rightarrow> (nat \<times> chain_state) option" where
  "AddToBlockIndex ke block s =
     (let hash = Block_GetHash (ke_block ke) block in
      case cs_map s hash of
        Some p \<Rightarrow> Some (p, s)
      | None \<Rightarrow>
          let p = length (cs_index s);
              b = (CBlockIndex_of_block block)\<lparr>nSequenceId := 0, phashBlock := Some hash\<rparr>;
              s1 = s\<lparr>cs_index := cs_index s @ [b], cs_map := (cs_map s)(hash \<mapsto> p),
                     cs_stakeSeen := (if Index_IsProofOfStake b then List.insert (prevoutStake b, nStakeTime b) (cs_stakeSeen s)
                                      else cs_stakeSeen s)\<rparr>
          in Option.bind (case cs_map s1 (hashPrevBlock block) of None \<Rightarrow> Some s1 | Some q \<Rightarrow> link_block ke hash p q s1) (\<lambda>s2.
             let prev = pprev (cs_index s2 ! p) in
             Option.bind (GetBlockProof (bi_nBits (cs_index s2 ! p))) (\<lambda>work.
             let s3 = set_block p (\<lambda>b. snd (RaiseValidity BLOCK_VALID_TREE
                        (b\<lparr>nChainWork := (case prev of None \<Rightarrow> 0 | Some q \<Rightarrow> nChainWork (cs_index s2 ! q)) + u256 work\<rparr>))) s2;
                 s4 = (if (case cs_best_header s3 of None \<Rightarrow> True | Some h \<Rightarrow> nChainWork (cs_index s3 ! h) < nChainWork (cs_index s3 ! p))
                       then s3\<lparr>cs_best_header := Some p\<rparr> else s3)
             in if bi_nHeight (cs_index s4 ! p) \<noteq> 0
                then map_option (\<lambda>q. (p, mark_dirty p (set_block q (\<lambda>b. b\<lparr>pnext := Some p\<rparr>) s4))) prev
                else Some (p, mark_dirty p s4))))"

end
