(* ===== verification/Chain_Select_Props.thy ===== *)
theory Chain_Select_Props
  imports Chain_Select Kernel_Props
begin

text \<open>
  The choice of the best chain: the order of candidates is a strict total order, and \<^verbatim>\<open>FindMostWorkChain\<close>
  always ends with the best candidate all of whose blocks above the active chain are there and valid.
\<close>

section \<open>The order of candidates\<close>

lemma work_less_iff:
  "work_less st p q \<longleftrightarrow>
     nChainWork (st ! p) < nChainWork (st ! q) \<or>
     nChainWork (st ! p) = nChainWork (st ! q) \<and>
       (nSequenceId (st ! q) < nSequenceId (st ! p) \<or> nSequenceId (st ! p) = nSequenceId (st ! q) \<and> q < p)"
  unfolding work_less_def by (simp, metis less_asym less_linear)

lemma work_less_irrefl [simp]: "\<not> work_less st p p"
  by (simp add: work_less_iff)

lemma work_less_trans: "work_less st p q \<Longrightarrow> work_less st q r \<Longrightarrow> work_less st p r"
  unfolding work_less_iff by (elim disjE conjE) (auto intro: order.strict_trans)

lemma work_less_linear: "p \<noteq> q \<Longrightarrow> work_less st p q \<or> work_less st q p"
  unfolding work_less_iff by (metis linorder_neqE)

lemma work_less_asym: "work_less st p q \<Longrightarrow> \<not> work_less st q p"
  using work_less_trans work_less_irrefl by blast

section \<open>States of blocks do not change the tree\<close>

lemma nth_beyond: "length xs = length ys \<Longrightarrow> length xs \<le> r \<Longrightarrow> xs ! r = ys ! r"
  by (induction xs ys arbitrary: r rule: list_induct2) (auto simp: nth_Cons split: nat.splits)

text \<open>Stores that agree on parents and heights have the same paths.\<close>

definition same_links :: "block_store \<Rightarrow> block_store \<Rightarrow> bool" where
  "same_links st st' \<longleftrightarrow> length st' = length st \<and>
     (\<forall>r < length st. pprev (st' ! r) = pprev (st ! r) \<and> bi_nHeight (st' ! r) = bi_nHeight (st ! r))"

lemma same_links_fields:
  assumes "same_links st st'"
  shows "pprev (st' ! r) = pprev (st ! r)" "bi_nHeight (st' ! r) = bi_nHeight (st ! r)" "length st' = length st"
  using assms nth_beyond [of st' st r] by (cases "r < length st"; auto simp: same_links_def)+

lemma same_links_up: "same_links st st' \<Longrightarrow> up st' n p = up st n p"
  by (induction n arbitrary: p) (simp_all add: same_links_fields(1) cong: Option.bind_cong)

lemma same_links_path: "same_links st st' \<Longrightarrow> path st' p = path st p"
  by (simp add: path_def anc_def same_links_fields same_links_up)

lemma same_links_ancestors: "same_links st st' \<Longrightarrow> ancestors st' p = ancestors st p"
  by (simp add: ancestors_def same_links_path)

lemma same_links_Contains: "same_links st st' \<Longrightarrow> Contains st' C p = Contains st C p"
  by (simp add: Contains_def same_links_fields)

lemma same_links_tree_ok: "same_links st st' \<Longrightarrow> tree_ok st' = tree_ok st"
  by (simp add: tree_ok_def list_all_length node_ok_def same_links_fields cong: option.case_cong)

lemma same_links_chain_ok: "same_links st st' \<Longrightarrow> chain_ok st' C = chain_ok st C"
  by (simp add: chain_ok_def same_links_path same_links_fields(3) cong: option.case_cong)

text \<open>Stores that agree but for the states of the blocks.\<close>

definition same_tree :: "block_store \<Rightarrow> block_store \<Rightarrow> bool" where
  "same_tree st st' \<longleftrightarrow> length st' = length st \<and> (\<forall>r < length st. (st' ! r)\<lparr>nStatus := 0\<rparr> = (st ! r)\<lparr>nStatus := 0\<rparr>)"

lemma same_tree_refl [simp]: "same_tree st st"
  by (simp add: same_tree_def)

lemma same_tree_trans: "same_tree st st' \<Longrightarrow> same_tree st' st'' \<Longrightarrow> same_tree st st''"
  by (simp add: same_tree_def)

lemma same_tree_update: "same_tree st (st[p := (st ! p)\<lparr>nStatus := x\<rparr>])"
  unfolding same_tree_def
proof (intro conjI allI impI)
  fix r assume "r < length st"
  then show "(st[p := (st ! p)\<lparr>nStatus := x\<rparr>] ! r)\<lparr>nStatus := 0\<rparr> = (st ! r)\<lparr>nStatus := 0\<rparr>"
    by (cases "r = p") simp_all
qed simp

lemma same_tree_nth: "same_tree st st' \<Longrightarrow> (st' ! r)\<lparr>nStatus := 0\<rparr> = (st ! r)\<lparr>nStatus := 0\<rparr>"
  using nth_beyond [of st' st r] by (cases "r < length st") (auto simp: same_tree_def)

lemma same_tree_fields:
  assumes "same_tree st st'"
  shows "pprev (st' ! r) = pprev (st ! r)" "bi_nHeight (st' ! r) = bi_nHeight (st ! r)" "nChainTx (st' ! r) = nChainTx (st ! r)"
    "nChainWork (st' ! r) = nChainWork (st ! r)" "nSequenceId (st' ! r) = nSequenceId (st ! r)" "nTx (st' ! r) = nTx (st ! r)"
    "length st' = length st"
  using same_tree_nth [OF assms, of r] assms
  by (auto simp: same_tree_def dest: arg_cong [where f = pprev] arg_cong [where f = bi_nHeight] arg_cong [where f = nChainTx]
      arg_cong [where f = nChainWork] arg_cong [where f = nSequenceId] arg_cong [where f = nTx])

lemma same_tree_links: "same_tree st st' \<Longrightarrow> same_links st st'"
  by (simp add: same_links_def same_tree_fields)

lemma same_tree_work_less: "same_tree st st' \<Longrightarrow> work_less st' = work_less st"
  by (simp add: fun_eq_iff work_less_def same_tree_fields)

lemmas same_tree_ancestors = same_links_ancestors [OF same_tree_links]
lemmas same_tree_Contains = same_links_Contains [OF same_tree_links]
lemmas same_tree_tree_ok = same_links_tree_ok [OF same_tree_links]
lemmas same_tree_chain_ok = same_links_chain_ok [OF same_tree_links]

section \<open>Usable branches\<close>

text \<open>A block is usable if it is in the active chain, or its data are there and it has not failed; a branch is usable if all
  its blocks are. It is linked if the transactions of all its blocks are known.\<close>

definition block_usable :: "block_store \<Rightarrow> CChain \<Rightarrow> nat \<Rightarrow> bool" where
  "block_usable st C q \<longleftrightarrow> Contains st C q \<or> has_data (st ! q) \<and> \<not> block_failed (st ! q)"

definition usable :: "block_store \<Rightarrow> CChain \<Rightarrow> nat \<Rightarrow> bool" where
  "usable st C p \<longleftrightarrow> list_all (block_usable st C) (ancestors st p)"

definition linked :: "block_store \<Rightarrow> nat \<Rightarrow> bool" where
  "linked st p \<longleftrightarrow> list_all (\<lambda>q. nChainTx (st ! q) \<noteq> 0 \<or> bi_nHeight (st ! q) = 0) (ancestors st p)"

lemma ancestors_suffix:
  "tree_ok st \<Longrightarrow> p < length st \<Longrightarrow> q \<in> set (ancestors st p) \<Longrightarrow> \<exists>xs. ancestors st p = xs @ ancestors st q \<and> q \<notin> set xs"
proof (induction rule: height_induct)
  case (parent p)
  show ?case
  proof (rule ancestors_cases [OF parent.hyps parent.prems])
    assume "q = p"
    then show ?thesis by (intro exI [of _ "[]"]) simp
  next
    fix r assume r: "pprev (st ! p) = Some r" "q \<in> set (ancestors st r)"
    note pr = tree_parent [OF parent.hyps r(1)]
    have "q \<noteq> p" using ancestors_height [OF parent.hyps(1) pr(1) r(2)] pr(2) by auto
    moreover obtain xs where "ancestors st r = xs @ ancestors st q \<and> q \<notin> set xs" using parent.IH [OF r(1) pr(1) r(2)] by blast
    ultimately show ?thesis using r(1) parent.hyps by (intro exI [of _ "p # xs"]) (simp add: ancestors_simps [of st p])
  qed
qed

lemma ancestors_self: "tree_ok st \<Longrightarrow> p < length st \<Longrightarrow> p \<in> set (ancestors st p)"
  by (simp add: ancestors_simps)

lemma ancestors_trans: "tree_ok st \<Longrightarrow> p < length st \<Longrightarrow> q \<in> set (ancestors st p) \<Longrightarrow> set (ancestors st q) \<subseteq> set (ancestors st p)"
  using ancestors_suffix by fastforce

lemma usable_ancestor: "tree_ok st \<Longrightarrow> p < length st \<Longrightarrow> usable st C p \<Longrightarrow> q \<in> set (ancestors st p) \<Longrightarrow> usable st C q"
  using ancestors_trans [of st p q] by (auto simp: usable_def list_all_iff)

lemma Contains_parent:
  assumes "tree_ok st" "chain_ok st C" "p < length st" "Contains st C p" "pprev (st ! p) = Some q"
  shows "Contains st C q"
  using assms(2)
proof (cases rule: chain_okE)
  case 1
  then show ?thesis using assms(4) by (simp add: Contains_def Chain_at_def)
next
  case (2 t)
  note q = tree_parent [OF assms(1,3,5)]
  have "anc st t (bi_nHeight (st ! p)) = Some p" "bi_nHeight (st ! p) \<le> bi_nHeight (st ! t)"
    using assms(4) 2(2) by (auto simp: Contains_path)
  then have "anc st t (bi_nHeight (st ! q)) = anc st p (bi_nHeight (st ! q))"
    using anc_trans [OF assms(1) 2(1)] q(2) by simp
  also have "\<dots> = Some q" using anc_parent [OF assms(1,3,5) order_refl] by simp
  finally show ?thesis using 2 q(2) \<open>bi_nHeight (st ! p) \<le> _\<close> by (simp add: Contains_path)
qed

lemma usable_Contains: "tree_ok st \<Longrightarrow> p < length st \<Longrightarrow> chain_ok st C \<Longrightarrow> Contains st C p \<Longrightarrow> usable st C p"
proof (induction rule: height_induct)
  case (parent p)
  then show ?case using Contains_parent [OF parent.hyps(1) parent.prems(1) parent.hyps(2) parent.prems(2)] tree_parent(1) [OF parent.hyps]
    by (auto simp: usable_def ancestors_simps [OF parent.hyps] block_usable_def split: option.splits)
qed

lemma block_usable_eq: "Contains st C q = False \<Longrightarrow> block_usable st C q \<longleftrightarrow> \<not> (block_failed (st ! q) \<or> \<not> has_data (st ! q))"
  by (auto simp: block_usable_def)

lemma find_unusable_eq:
  "tree_ok st \<Longrightarrow> p < length st \<Longrightarrow> chain_ok st C \<Longrightarrow> linked st p \<Longrightarrow>
   find_unusable st C (Some p) = Some (find (\<lambda>q. \<not> block_usable st C q) (ancestors st p))"
proof (induction rule: height_induct)
  case (parent p)
  note anc = ancestors_simps [OF parent.hyps]
  show ?case
  proof (cases "Contains st C p")
    case True
    have "usable st C p" by (rule usable_Contains [OF parent.hyps parent.prems(1) True])
    then have "find (\<lambda>q. \<not> block_usable st C q) (ancestors st p) = None" by (simp add: usable_def list_all_iff find_None_iff)
    then show ?thesis using True by (subst find_unusable.simps) simp
  next
    case False
    have p: "nChainTx (st ! p) \<noteq> 0 \<or> bi_nHeight (st ! p) = 0" using parent.prems(2) by (simp add: linked_def anc)
    show ?thesis
    proof (cases "block_usable st C p")
      case unus: False
      then show ?thesis using p \<open>\<not> Contains st C p\<close> block_usable_eq [of st C p]
        by (subst find_unusable.simps) (auto simp: anc)
    next
      case us: True
      then have "\<not> (block_failed (st ! p) \<or> \<not> has_data (st ! p))" using block_usable_eq False by blast
      moreover have "find_unusable st C (pprev (st ! p)) =
          Some (find (\<lambda>q. \<not> block_usable st C q) (case pprev (st ! p) of None \<Rightarrow> [] | Some q \<Rightarrow> ancestors st q))"
      proof (cases "pprev (st ! p)")
        case None
        then show ?thesis by (subst find_unusable.simps) simp
      next
        case (Some r)
        have "linked st r" using parent.prems(2) Some by (simp add: linked_def anc)
        then show ?thesis using parent.IH [OF Some tree_parent(1) [OF parent.hyps Some] parent.prems(1)] Some by simp
      qed
      ultimately show ?thesis using p us False by (subst find_unusable.simps) (simp add: anc)
    qed
  qed
qed

section \<open>Dropping a branch\<close>

text \<open>What dropping the blocks of a set changes.\<close>

definition dropped :: "bool \<Rightarrow> nat set \<Rightarrow> chain_state \<Rightarrow> chain_state \<Rightarrow> bool" where
  "dropped fFailed B s s' \<longleftrightarrow>
     cs_candidates s' = filter (\<lambda>r. r \<notin> B) (cs_candidates s) \<and> length (cs_index s') = length (cs_index s) \<and>
     (\<forall>r < length (cs_index s). cs_index s' ! r =
        (if fFailed \<and> r \<in> B then add_status BLOCK_FAILED_CHILD (cs_index s ! r) else cs_index s ! r)) \<and>
     cs_chain s' = cs_chain s \<and> cs_map s' = cs_map s \<and> cs_best_header s' = cs_best_header s"

lemma dropped_same_tree:
  assumes "dropped f B s s'"
  shows "same_tree (cs_index s) (cs_index s')"
  using assms by (simp add: dropped_def same_tree_def)

lemma dropped_empty [simp]: "dropped f {} s s"
  by (simp add: dropped_def)

lemma drop_branch_dropped:
  "tree_ok st \<Longrightarrow> p < length st \<Longrightarrow> q \<in> set (ancestors st p) \<Longrightarrow> same_tree st (cs_index s) \<Longrightarrow>
   \<exists>s'. drop_branch f q (Some p) s = Some s' \<and> dropped f (set (takeWhile (\<lambda>r. r \<noteq> q) (ancestors st p))) s s'"
proof (induction arbitrary: s rule: height_induct)
  case (parent p)
  note anc = ancestors_simps [OF parent.hyps]
  show ?case
  proof (cases "p = q")
    case True
    then have "set (takeWhile (\<lambda>r. r \<noteq> q) (ancestors st p)) = {}" using anc by simp
    then show ?thesis using True by (subst drop_branch.simps) simp
  next
    case False
    then obtain r where r: "pprev (st ! p) = Some r" "q \<in> set (ancestors st r)"
      using parent.prems(1) by (auto elim: ancestors_cases [OF parent.hyps])
    note pr = tree_parent [OF parent.hyps r(1)]
    have up: "pprev (cs_index s ! p) = Some r" using r(1) same_tree_fields(1) [OF parent.prems(2)] by simp
    define s1 where "s1 = cand_erase p (if f then set_block p (add_status BLOCK_FAILED_CHILD) s
        else s\<lparr>cs_unlinked := cs_unlinked s @ [(Some r, p)]\<rparr>)"
    have step: "drop_branch f q (Some p) s = drop_branch f q (Some r) s1"
      using False up by (subst drop_branch.simps) (simp add: s1_def Let_def)
    have len: "p < length (cs_index s)" using parent.hyps(2) same_tree_fields(7) [OF parent.prems(2)] by simp
    have d1: "dropped f {p} s s1"
      using len by (auto simp: dropped_def s1_def cand_erase_def set_block_def nth_list_update)
    have "same_tree st (cs_index s1)" by (rule same_tree_trans [OF parent.prems(2) dropped_same_tree [OF d1]])
    then obtain s' where s': "drop_branch f q (Some r) s1 = Some s'" "dropped f (set (takeWhile (\<lambda>r. r \<noteq> q) (ancestors st r))) s1 s'"
      using parent.IH [OF r(1) pr(1) r(2)] by blast
    have notin: "p \<notin> set (takeWhile (\<lambda>r. r \<noteq> q) (ancestors st r))"
      using ancestors_height [OF parent.hyps(1) pr(1), of p] pr(2) by (auto dest: set_takeWhileD)
    have "dropped f (insert p (set (takeWhile (\<lambda>r. r \<noteq> q) (ancestors st r)))) s s'"
      using d1 s'(2) notin unfolding dropped_def by (auto intro!: filter_cong)
    then show ?thesis using s'(1) step False r(1) by (simp add: anc)
  qed
qed

lemma failed_child: "block_failed (add_status BLOCK_FAILED_CHILD b)"
proof -
  have "(nStatus b OR 64) AND 96 \<noteq> (0 :: uint32)"
  proof
    assume "(nStatus b OR 64) AND 96 = (0 :: uint32)"
    then have "bit ((nStatus b OR 64) AND 96 :: uint32) 6 = bit (0 :: uint32) 6" by simp
    then show False by (simp add: bit_simps)
  qed
  moreover have "(32 OR 64 :: uint32) = 96" by code_simp
  ultimately show ?thesis by (simp add: BLOCK_FAILED_CHILD_def BLOCK_FAILED_MASK_def BLOCK_FAILED_VALID_def)
qed

lemma dropped_usable:
  assumes "tree_ok (cs_index s)" "dropped f B s s'" "\<And>b. b \<in> B \<Longrightarrow> b < length (cs_index s) \<and> \<not> usable (cs_index s) C b"
    and "r < length (cs_index s)"
  shows "usable (cs_index s') C r \<longleftrightarrow> usable (cs_index s) C r"
proof -
  let ?st = "cs_index s" and ?st' = "cs_index s'"
  note same = dropped_same_tree [OF assms(2)]
  have nth: "a < length ?st \<Longrightarrow> ?st' ! a = (if f \<and> a \<in> B then add_status BLOCK_FAILED_CHILD (?st ! a) else ?st ! a)" for a
    using assms(2) by (simp add: dropped_def)
  have bwd: "block_usable ?st C a" if "block_usable ?st' C a" "a < length ?st" for a
    using that nth [OF that(2)] failed_child [of "?st ! a"]
    by (auto simp: block_usable_def same_tree_Contains [OF same] split: if_splits)
  have fwd: "block_usable ?st' C a" if "block_usable ?st C a" "a < length ?st" "a \<notin> B" for a
    using that nth [OF that(2)] by (auto simp: block_usable_def same_tree_Contains [OF same])
  note rng = ancestors_range [OF assms(1,4)]
  show ?thesis
  proof
    assume "usable ?st' C r"
    then show "usable ?st C r" using bwd rng by (simp add: usable_def same_tree_ancestors [OF same] list_all_iff)
  next
    assume u: "usable ?st C r"
    have "a \<notin> B" if "a \<in> set (ancestors ?st r)" for a
      using usable_ancestor [OF assms(1,4) u that] assms(3) by blast
    then show "usable ?st' C r" using u fwd rng by (simp add: usable_def same_tree_ancestors [OF same] list_all_iff)
  qed
qed

section \<open>FindMostWorkChain\<close>

definition candidates_ok :: "chain_state \<Rightarrow> bool" where
  "candidates_ok s \<longleftrightarrow>
     sorted_wrt (work_less (cs_index s)) (cs_candidates s) \<and>
     list_all (\<lambda>p. p < length (cs_index s) \<and> linked (cs_index s) p) (cs_candidates s)"

lemma same_tree_linked: "same_tree st st' \<Longrightarrow> linked st' p = linked st p"
  by (simp add: linked_def same_tree_ancestors same_tree_fields)

lemma candidates_ok_filter:
  assumes "candidates_ok s" "same_tree (cs_index s) (cs_index s')" "cs_candidates s' = filter P (cs_candidates s)"
  shows "candidates_ok s'"
  using assms(1) unfolding candidates_ok_def assms(3)
  by (auto simp: same_tree_work_less [OF assms(2)] same_tree_linked [OF assms(2)] same_tree_fields(7) [OF assms(2)] sorted_wrt_filter list_all_iff)

text \<open>The usable candidates, in their order.\<close>

definition usable_candidates :: "chain_state \<Rightarrow> nat list" where
  "usable_candidates s = filter (usable (cs_index s) (cs_chain s)) (cs_candidates s)"

text \<open>One turn that finds an unusable block in the best candidate's branch.\<close>

lemma drop_unusable:
  assumes "tree_ok (cs_index s)" "candidates_ok s" "p \<in> set (cs_candidates s)" "q \<in> set (ancestors (cs_index s) p)"
    and "\<not> block_usable (cs_index s) (cs_chain s) q"
  shows "\<exists>s2. drop_branch f q (Some p) s = Some s2 \<and> same_tree (cs_index s) (cs_index (cand_erase q s2)) \<and>
    cs_chain (cand_erase q s2) = cs_chain s \<and> candidates_ok (cand_erase q s2) \<and>
    usable_candidates (cand_erase q s2) = usable_candidates s \<and>
    set (cs_candidates (cand_erase q s2)) \<subseteq> set (cs_candidates s) \<and>
    length (cs_candidates (cand_erase q s2)) < length (cs_candidates s)"
proof -
  let ?st = "cs_index s" and ?C = "cs_chain s"
  have p: "p < length ?st" using assms(2,3) by (auto simp: candidates_ok_def list_all_iff)
  define B where "B = set (takeWhile (\<lambda>r. r \<noteq> q) (ancestors ?st p))"
  obtain s2 where s2: "drop_branch f q (Some p) s = Some s2" "dropped f B s s2"
    using drop_branch_dropped [OF assms(1) p assms(4) same_tree_refl] B_def by blast
  have q: "q < length ?st" by (rule ancestors_range [OF assms(1) p assms(4)])
  have uq: "q \<in> set (ancestors ?st b) \<Longrightarrow> \<not> usable ?st ?C b" for b
    using assms(5) by (auto simp: usable_def list_all_iff)
  have B: "b < length ?st \<and> \<not> usable ?st ?C b" if "b \<in> B" for b
  proof -
    have b: "b \<in> set (ancestors ?st p)" using that by (auto simp: B_def dest: set_takeWhileD)
    obtain xs where xs: "ancestors ?st p = xs @ ancestors ?st b" "b \<notin> set xs" using ancestors_suffix [OF assms(1) p b] by blast
    have "q \<notin> set xs"
    proof
      assume "q \<in> set xs"
      then have "takeWhile (\<lambda>r. r \<noteq> q) (ancestors ?st p) = takeWhile (\<lambda>r. r \<noteq> q) xs" by (auto simp: xs(1) takeWhile_append)
      then show False using that xs(2) by (auto simp: B_def dest: set_takeWhileD)
    qed
    then have "q \<in> set (ancestors ?st b)" using assms(4) xs(1) by auto
    then show ?thesis using uq ancestors_range [OF assms(1) p b] by blast
  qed
  let ?s3 = "cand_erase q s2"
  have same: "same_tree ?st (cs_index ?s3)" using dropped_same_tree [OF s2(2)] by (simp add: cand_erase_def)
  have c3: "cs_candidates ?s3 = filter (\<lambda>r. r \<notin> insert q B) (cs_candidates s)" and chain: "cs_chain ?s3 = ?C"
    using s2(2) by (auto simp: cand_erase_def dropped_def intro!: filter_cong)
  have us: "usable (cs_index ?s3) ?C r \<longleftrightarrow> usable ?st ?C r" if "r < length ?st" for r
    using dropped_usable [OF assms(1) s2(2) B that] by (simp add: cand_erase_def)
  have "usable_candidates ?s3 = filter (\<lambda>r. usable (cs_index ?s3) ?C r \<and> r \<notin> insert q B) (cs_candidates s)"
    by (simp add: usable_candidates_def c3 chain conj_commute)
  also have "\<dots> = usable_candidates s"
    unfolding usable_candidates_def
    using us B uq [OF ancestors_self [OF assms(1) q]] assms(2) by (intro filter_cong) (auto simp: candidates_ok_def list_all_iff)
  finally have u3: "usable_candidates ?s3 = usable_candidates s" .
  have "p \<in> insert q B"
  proof (cases "p = q")
    case False
    then show ?thesis by (simp add: B_def ancestors_simps [OF assms(1) p])
  qed simp
  then have "length (cs_candidates ?s3) < length (cs_candidates s)"
    unfolding c3 using assms(3) by (intro length_filter_less) auto
  then show ?thesis using s2(1) same chain candidates_ok_filter [OF assms(2) same c3] u3 c3 by auto
qed

text \<open>The last candidate is the greatest one.\<close>

lemma last_usable:
  assumes "candidates_ok s" "usable_candidates s = us" "us \<noteq> []"
  shows "last us \<in> set (cs_candidates s)" "usable (cs_index s) (cs_chain s) (last us)"
    "\<And>p. p \<in> set (cs_candidates s) \<Longrightarrow> usable (cs_index s) (cs_chain s) p \<Longrightarrow> p = last us \<or> work_less (cs_index s) p (last us)"
proof -
  have "last us \<in> set (usable_candidates s)" using assms(2,3) by simp
  then show "last us \<in> set (cs_candidates s)" "usable (cs_index s) (cs_chain s) (last us)" by (auto simp: usable_candidates_def)
  fix p assume "p \<in> set (cs_candidates s)" "usable (cs_index s) (cs_chain s) p"
  then have p: "p \<in> set us" using assms(2) by (auto simp: usable_candidates_def)
  have "sorted_wrt (work_less (cs_index s)) us"
    using assms(1,2) by (auto simp: candidates_ok_def usable_candidates_def sorted_wrt_filter)
  moreover have "us = butlast us @ [last us]" using assms(3) by simp
  ultimately have "sorted_wrt (work_less (cs_index s)) (butlast us @ [last us])" by metis
  then have "\<forall>x \<in> set (butlast us). work_less (cs_index s) x (last us)" by (simp add: sorted_wrt_append)
  then show "p = last us \<or> work_less (cs_index s) p (last us)"
    using p \<open>us = butlast us @ [last us]\<close> by (metis Un_iff empty_iff insert_iff list.set(1,2) set_append)
qed

lemma FindMostWorkChain_result:
  "tree_ok (cs_index s) \<Longrightarrow> chain_ok (cs_index s) (cs_chain s) \<Longrightarrow> candidates_ok s \<Longrightarrow>
   \<exists>s'. FindMostWorkChain s = Some (if usable_candidates s = [] then None else Some (last (usable_candidates s)), s') \<and>
     same_tree (cs_index s) (cs_index s') \<and> cs_chain s' = cs_chain s \<and> candidates_ok s' \<and>
     set (cs_candidates s') \<subseteq> set (cs_candidates s) \<and> usable_candidates s' = usable_candidates s"
proof (induction "length (cs_candidates s)" arbitrary: s rule: less_induct)
  case less
  let ?st = "cs_index s" and ?C = "cs_chain s"
  show ?case
  proof (cases "cs_candidates s = []")
    case True
    then show ?thesis using less.prems by (subst FindMostWorkChain.simps) (simp add: usable_candidates_def)
  next
    case False
    let ?p = "last (cs_candidates s)"
    have p: "?p \<in> set (cs_candidates s)" "?p < length ?st" "linked ?st ?p"
      using False less.prems(3) by (simp_all add: candidates_ok_def list_all_iff)
    note find = find_unusable_eq [OF less.prems(1) p(2) less.prems(2) p(3)]
    show ?thesis
    proof (cases "find (\<lambda>q. \<not> block_usable ?st ?C q) (ancestors ?st ?p)")
      case None
      then have "usable ?st ?C ?p" by (simp add: find_None_iff usable_def list_all_iff)
      moreover have "cs_candidates s = butlast (cs_candidates s) @ [?p]" using False by simp
      ultimately have "usable_candidates s = filter (usable ?st ?C) (butlast (cs_candidates s)) @ [?p]"
        by (metis (no_types) filter.simps filter_append usable_candidates_def)
      then show ?thesis using find None False less.prems(3) by (subst FindMostWorkChain.simps) simp
    next
      case (Some q)
      then have q: "q \<in> set (ancestors ?st ?p)" "\<not> block_usable ?st ?C q"
        by (auto simp: find_Some_iff)
      define better where "better = (case cs_best_invalid s of None \<Rightarrow> True
                           | Some b \<Rightarrow> nChainWork (?st ! ?p) > nChainWork (?st ! b))"
      define s1 where "s1 = (if block_failed (?st ! q) \<and> better then s\<lparr>cs_best_invalid := Some ?p\<rparr> else s)"
      have s1: "cs_index s1 = ?st" "cs_chain s1 = ?C" "cs_candidates s1 = cs_candidates s" by (simp_all add: s1_def)
      then have ok1: "candidates_ok s1" "usable_candidates s1 = usable_candidates s"
        using less.prems(3) by (simp_all add: candidates_ok_def usable_candidates_def)
      obtain s2 where s2: "drop_branch (block_failed (?st ! q)) q (Some ?p) s1 = Some s2"
        "same_tree ?st (cs_index (cand_erase q s2))" "cs_chain (cand_erase q s2) = ?C" "candidates_ok (cand_erase q s2)"
        "usable_candidates (cand_erase q s2) = usable_candidates s"
        "set (cs_candidates (cand_erase q s2)) \<subseteq> set (cs_candidates s)"
        "length (cs_candidates (cand_erase q s2)) < length (cs_candidates s)"
        using drop_unusable [of s1 ?p q "block_failed (?st ! q)"] less.prems(1) ok1 p(1) q unfolding s1 by auto
      have step: "FindMostWorkChain s = FindMostWorkChain (cand_erase q s2)"
        using False find Some s2(1) by (subst FindMostWorkChain.simps) (simp add: Let_def s1_def better_def)
      obtain s' where s': "FindMostWorkChain (cand_erase q s2) =
          Some (if usable_candidates s = [] then None else Some (last (usable_candidates s)), s')"
        "same_tree (cs_index (cand_erase q s2)) (cs_index s')" "cs_chain s' = ?C" "candidates_ok s'"
        "set (cs_candidates s') \<subseteq> set (cs_candidates (cand_erase q s2))" "usable_candidates s' = usable_candidates s"
        using less.hyps [OF s2(7)] less.prems(1,2) s2(3-5)
        by (auto simp: same_tree_tree_ok [OF s2(2)] same_tree_chain_ok [OF s2(2)])
      show ?thesis
        unfolding step using s' s2(6) same_tree_trans [OF s2(2) s'(2)]
        by (intro exI [of _ s']) (simp add: subset_trans [OF s'(5) s2(6)])
    qed
  qed
qed

text \<open>C33: the selection of the best chain always ends. If some candidate has a usable branch, the result is the
  greatest such candidate in the order of work, and otherwise it is null; the candidates that are dropped are
  all unusable, and neither the active chain nor anything of the index but the failure marks changes.\<close>

theorem FindMostWorkChain_best:
  assumes "tree_ok (cs_index s)" "chain_ok (cs_index s) (cs_chain s)" "candidates_ok s"
  shows "\<exists>r s'. FindMostWorkChain s = Some (r, s') \<and>
    (case r of
       None \<Rightarrow> list_all (\<lambda>p. \<not> usable (cs_index s) (cs_chain s) p) (cs_candidates s)
     | Some p \<Rightarrow> p \<in> set (cs_candidates s) \<and> usable (cs_index s) (cs_chain s) p \<and>
         list_all (\<lambda>q. \<not> usable (cs_index s) (cs_chain s) q \<or> q = p \<or> work_less (cs_index s) q p) (cs_candidates s)) \<and>
    usable_candidates s' = usable_candidates s \<and> candidates_ok s' \<and> cs_chain s' = cs_chain s \<and> same_tree (cs_index s) (cs_index s')"
proof (cases "usable_candidates s = []")
  case True
  then have "list_all (\<lambda>p. \<not> usable (cs_index s) (cs_chain s) p) (cs_candidates s)"
    by (simp add: usable_candidates_def filter_empty_conv list_all_iff)
  then show ?thesis using FindMostWorkChain_result [OF assms] True by auto
next
  case False
  note last = last_usable [OF assms(3) refl False]
  then have "list_all (\<lambda>q. \<not> usable (cs_index s) (cs_chain s) q \<or> q = last (usable_candidates s) \<or>
      work_less (cs_index s) q (last (usable_candidates s))) (cs_candidates s)" by (auto simp: list_all_iff)
  then show ?thesis using FindMostWorkChain_result [OF assms] False last(1,2) by auto
qed

text \<open>Two branches above block 3: the longer one, to block 5, has failed at block 4.\<close>

definition select_state :: chain_state where
  "select_state =
     (let st = map (\<lambda>b. b\<lparr>nChainTx := 1, nStatus := BLOCK_HAVE_DATA, nChainWork := of_nat (bi_nHeight b)\<rparr>) demo_fork
      in \<lparr>cs_index = st[4 := add_status BLOCK_FAILED_VALID (st ! 4)], cs_map = (\<lambda>_. None), cs_chain = map Some [0, 1, 2, 3],
          cs_candidates = [3, 6, 5], cs_unlinked = [], cs_best_invalid = None, cs_best_header = None, cs_sequence = 0, cs_dirty = [],
          cs_proofs = (\<lambda>_. None), cs_source = (\<lambda>_. None), cs_stakeSeen = []\<rparr>)"

lemma select_state_ok:
  "tree_ok (cs_index select_state)" "chain_ok (cs_index select_state) (cs_chain select_state)" "candidates_ok select_state"
  "\<not> usable (cs_index select_state) (cs_chain select_state) 5" "usable (cs_index select_state) (cs_chain select_state) 6"
  "cs_candidates select_state = [3, 6, 5]" "\<not> work_less (cs_index select_state) 6 3"
  subgoal by code_simp
  subgoal by code_simp
  subgoal by code_simp
  subgoal by code_simp
  subgoal by code_simp
  subgoal by code_simp
  subgoal by code_simp
  done

theorem FindMostWorkChain_best_witness:
  "\<exists>s'. FindMostWorkChain select_state = Some (Some 6, s')"
proof -
  obtain r s' where r: "FindMostWorkChain select_state = Some (r, s')"
    "case r of
       None \<Rightarrow> list_all (\<lambda>p. \<not> usable (cs_index select_state) (cs_chain select_state) p) (cs_candidates select_state)
     | Some p \<Rightarrow> p \<in> set (cs_candidates select_state) \<and> usable (cs_index select_state) (cs_chain select_state) p \<and>
         list_all (\<lambda>q. \<not> usable (cs_index select_state) (cs_chain select_state) q \<or> q = p \<or> work_less (cs_index select_state) q p)
           (cs_candidates select_state)"
    using FindMostWorkChain_best [OF select_state_ok(1-3)] by blast
  then have "r = Some 6" using select_state_ok(4-7) by (auto split: option.splits)
  then show ?thesis using r(1) by blast
qed

end
