(* ===== verification/Mempool.thy ===== *)
theory Mempool
  imports Coins_Cache Utxo_Update
begin

text \<open>
  The memory pool (\<^verbatim>\<open>src/src/txmempool.cpp\<close>, \<^verbatim>\<open>txmempool.h\<close>): the transactions that wait for
  a block, the outputs they spend, and the removal of transactions with their descendants and conflicts. A
  \<^verbatim>\<open>std::map\<close> is an association list with distinct keys; where the code iterates over one, it is sorted. A
  pointer to a transaction of the pool is the key of its entry. \<open>None\<close> is an access through a pointer to an entry that
  is gone, a null pointer or a failed assertion. Priorities are floating-point numbers that are only added
  here; they are values of a type \<open>'d\<close>. The estimation of fees is left out.
\<close>

section \<open>State\<close>

record 'd CTxMemPoolEntry =
  entry_tx :: CTransaction
  nFee :: camount
  nTxSize :: nat
  nModSize :: nat
  entry_nTime :: int
  dPriority :: 'd
  entry_nHeight :: uint32

definition MEMPOOL_HEIGHT :: int where "MEMPOOL_HEIGHT = 0x7fffffff"

definition CTxMemPoolEntry_new :: "CTransaction \<Rightarrow> camount \<Rightarrow> int \<Rightarrow> 'd \<Rightarrow> uint32 \<Rightarrow> 'd CTxMemPoolEntry" where
  "CTxMemPoolEntry_new tx fee t prio h =
     \<lparr>entry_tx = tx, nFee = fee, nTxSize = GetSerializeSize tx, nModSize = CalculateModifiedSize (GetSerializeSize tx) tx,
      entry_nTime = t, dPriority = prio, entry_nHeight = h\<rparr>"

record CInPoint =
  inpoint_ptx :: uint256
  inpoint_n :: nat

record 'd CTxMemPool =
  mapTx :: "(uint256 \<times> 'd CTxMemPoolEntry) list"
  mapNextTx :: "(COutPoint \<times> CInPoint) list"
  mapDeltas :: "(uint256 \<times> 'd \<times> camount) list"
  totalTxSize :: uint64
  nTransactionsUpdated :: uint32

text \<open>The pool is a global object, whose memory is zero before the constructor runs.\<close>

definition CTxMemPool_new :: "'d CTxMemPool" where
  "CTxMemPool_new = \<lparr>mapTx = [], mapNextTx = [], mapDeltas = [], totalTxSize = 0, nTransactionsUpdated = 0\<rparr>"

section \<open>Look-up and priorities\<close>

definition pool_exists :: "'d CTxMemPool \<Rightarrow> uint256 \<Rightarrow> bool" where
  "pool_exists pool hash \<longleftrightarrow> map_of (mapTx pool) hash \<noteq> None"

definition pool_lookup :: "'d CTxMemPool \<Rightarrow> uint256 \<Rightarrow> CTransaction option" where
  "pool_lookup pool hash = map_option entry_tx (map_of (mapTx pool) hash)"

definition queryHashes :: "'d CTxMemPool \<Rightarrow> uint256 list" where
  "queryHashes pool = sort (map fst (mapTx pool))"

definition AddTransactionsUpdated :: "uint32 \<Rightarrow> 'd CTxMemPool \<Rightarrow> 'd CTxMemPool" where
  "AddTransactionsUpdated n pool = pool\<lparr>nTransactionsUpdated := nTransactionsUpdated pool + n\<rparr>"

definition PrioritiseTransaction ::
  "uint256 \<Rightarrow> 'd::{plus,zero} \<Rightarrow> camount \<Rightarrow> 'd CTxMemPool \<Rightarrow> 'd CTxMemPool" where
  "PrioritiseTransaction hash dPriorityDelta nFeeDelta pool =
     (let old = (case map_of (mapDeltas pool) hash of None \<Rightarrow> (0, 0) | Some d \<Rightarrow> d)
      in pool\<lparr>mapDeltas := AList.update hash (fst old + dPriorityDelta, wrap64 (snd old + nFeeDelta)) (mapDeltas pool)\<rparr>)"

definition ApplyDeltas :: "'d::plus CTxMemPool \<Rightarrow> uint256 \<Rightarrow> 'd \<times> camount \<Rightarrow> 'd \<times> camount" where
  "ApplyDeltas pool hash d =
     (case map_of (mapDeltas pool) hash of None \<Rightarrow> d | Some e \<Rightarrow> (fst d + fst e, wrap64 (snd d + snd e)))"

definition ClearPrioritisation :: "uint256 \<Rightarrow> 'd CTxMemPool \<Rightarrow> 'd CTxMemPool" where
  "ClearPrioritisation hash pool = pool\<lparr>mapDeltas := AList.delete hash (mapDeltas pool)\<rparr>"

section \<open>Adding\<close>

definition addUnchecked :: "uint256 \<Rightarrow> 'd CTxMemPoolEntry \<Rightarrow> 'd CTxMemPool \<Rightarrow> 'd CTxMemPool" where
  "addUnchecked hash entry pool =
     (let ins = vin (entry_tx entry) in
      pool\<lparr>mapTx := AList.update hash entry (mapTx pool),
           mapNextTx := fold (\<lambda>i m. AList.update (prevout (ins ! i)) \<lparr>inpoint_ptx = hash, inpoint_n = i\<rparr> m) [0 ..< length ins] (mapNextTx pool),
           nTransactionsUpdated := nTransactionsUpdated pool + 1,
           totalTxSize := totalTxSize pool + of_nat (nTxSize entry)\<rparr>)"

section \<open>Removing\<close>

text \<open>The hash of the transaction that an entry of \<^verbatim>\<open>mapNextTx\<close> points to.\<close>

definition spender_hash :: "(bytes \<Rightarrow> uint256) \<Rightarrow> 'd CTxMemPool \<Rightarrow> CInPoint \<Rightarrow> uint256 option" where
  "spender_hash Hash pool p = map_option (\<lambda>e. GetHash Hash (entry_tx e)) (map_of (mapTx pool) (inpoint_ptx p))"

fun pool_children :: "(bytes \<Rightarrow> uint256) \<Rightarrow> 'd CTxMemPool \<Rightarrow> uint256 \<Rightarrow> nat list \<Rightarrow> uint256 list option" where
  "pool_children Hash pool hash [] = Some []"
| "pool_children Hash pool hash (i # is) =
     (case map_of (mapNextTx pool) \<lparr>outpoint_hash = hash, outpoint_n = of_nat i\<rparr> of
        None \<Rightarrow> pool_children Hash pool hash is
      | Some p \<Rightarrow>
          Option.bind (spender_hash Hash pool p) (\<lambda>h. map_option (Cons h) (pool_children Hash pool hash is)))"

definition erase_entry :: "uint256 \<Rightarrow> 'd CTxMemPoolEntry \<Rightarrow> 'd CTxMemPool \<Rightarrow> 'd CTxMemPool" where
  "erase_entry hash e pool =
     pool\<lparr>mapNextTx := fold (\<lambda>txin. AList.delete (prevout txin)) (vin (entry_tx e)) (mapNextTx pool),
          totalTxSize := totalTxSize pool - of_nat (nTxSize e),
          mapTx := AList.delete hash (mapTx pool),
          nTransactionsUpdated := nTransactionsUpdated pool + 1\<rparr>"

lemma length_delete_less: "map_of m k = Some v \<Longrightarrow> length (AList.delete k m) < length m"
  unfolding AList.delete_eq by (rule length_filter_less [where x = "(k, v)"]) (auto dest: map_of_SomeD)

function remove_loop ::
  "(bytes \<Rightarrow> uint256) \<Rightarrow> bool \<Rightarrow> uint256 list \<Rightarrow> 'd CTxMemPool \<Rightarrow> CTransaction list \<Rightarrow> ('d CTxMemPool \<times> CTransaction list) option" where
  "remove_loop Hash fRecursive [] pool removed = Some (pool, removed)"
| "remove_loop Hash fRecursive (hash # txToRemove) pool removed =
     (case map_of (mapTx pool) hash of
        None \<Rightarrow> remove_loop Hash fRecursive txToRemove pool removed
      | Some e \<Rightarrow>
          (case (if fRecursive then pool_children Hash pool hash [0 ..< length (vout (entry_tx e))] else Some []) of
             None \<Rightarrow> None
           | Some cs \<Rightarrow> remove_loop Hash fRecursive (txToRemove @ cs) (erase_entry hash e pool) (removed @ [entry_tx e])))"
  by pat_completeness auto
termination
  by (relation "measures [\<lambda>(_, _, _, pool, _). length (mapTx pool), \<lambda>(_, _, txToRemove, _, _). length txToRemove]")
    (auto simp: erase_entry_def length_delete_less)

definition pool_remove ::
  "(bytes \<Rightarrow> uint256) \<Rightarrow> bool \<Rightarrow> CTransaction \<Rightarrow> 'd CTxMemPool \<times> CTransaction list \<Rightarrow> ('d CTxMemPool \<times> CTransaction list) option" where
  "pool_remove Hash fRecursive origTx s =
     (case s of (pool, removed) \<Rightarrow>
        let hash = GetHash Hash origTx in
        Option.bind
          (if fRecursive \<and> map_of (mapTx pool) hash = None then pool_children Hash pool hash [0 ..< length (vout origTx)] else Some [])
          (\<lambda>cs. remove_loop Hash fRecursive (hash # cs) pool removed))"

text \<open>Two transactions are equal if their hashes are.\<close>

fun removeConflicts_loop ::
  "(bytes \<Rightarrow> uint256) \<Rightarrow> CTransaction \<Rightarrow> CTxIn list \<Rightarrow> 'd CTxMemPool \<times> CTransaction list \<Rightarrow> ('d CTxMemPool \<times> CTransaction list) option" where
  "removeConflicts_loop Hash tx [] s = Some s"
| "removeConflicts_loop Hash tx (txin # ins) s =
     (case map_of (mapNextTx (fst s)) (prevout txin) of
        None \<Rightarrow> removeConflicts_loop Hash tx ins s
      | Some p \<Rightarrow>
          (case map_of (mapTx (fst s)) (inpoint_ptx p) of
             None \<Rightarrow> None
           | Some e \<Rightarrow>
               if GetHash Hash (entry_tx e) \<noteq> GetHash Hash tx
               then Option.bind (pool_remove Hash True (entry_tx e) s) (removeConflicts_loop Hash tx ins)
               else removeConflicts_loop Hash tx ins s))"

definition removeConflicts ::
  "(bytes \<Rightarrow> uint256) \<Rightarrow> CTransaction \<Rightarrow> 'd CTxMemPool \<times> CTransaction list \<Rightarrow> ('d CTxMemPool \<times> CTransaction list) option" where
  "removeConflicts Hash tx s = removeConflicts_loop Hash tx (vin tx) s"

fun removeForBlock_loop ::
  "(bytes \<Rightarrow> uint256) \<Rightarrow> CTransaction list \<Rightarrow> 'd CTxMemPool \<times> CTransaction list \<Rightarrow> ('d CTxMemPool \<times> CTransaction list) option" where
  "removeForBlock_loop Hash [] s = Some s"
| "removeForBlock_loop Hash (tx # txs) (pool, conflicts) =
     Option.bind (pool_remove Hash False tx (pool, [])) (\<lambda>(pool1, _).
     Option.bind (removeConflicts Hash tx (pool1, conflicts)) (\<lambda>(pool2, conflicts2).
       removeForBlock_loop Hash txs (ClearPrioritisation (GetHash Hash tx) pool2, conflicts2)))"

text \<open>The entries that go to the fee estimator, and the pool with the conflicts.\<close>

definition removeForBlock ::
  "(bytes \<Rightarrow> uint256) \<Rightarrow> CTransaction list \<Rightarrow> 'd CTxMemPool \<times> CTransaction list \<Rightarrow>
   ('d CTxMemPoolEntry list \<times> 'd CTxMemPool \<times> CTransaction list) option" where
  "removeForBlock Hash txs s =
     map_option (Pair (List.map_filter (\<lambda>tx. map_of (mapTx (fst s)) (GetHash Hash tx)) txs)) (removeForBlock_loop Hash txs s)"

definition pool_clear :: "'d CTxMemPool \<Rightarrow> 'd CTxMemPool" where
  "pool_clear pool = pool\<lparr>mapTx := [], mapNextTx := [], totalTxSize := 0, nTransactionsUpdated := nTransactionsUpdated pool + 1\<rparr>"

section \<open>With the coin view\<close>

text \<open>Spent outputs are removed in the order of their indices.\<close>

definition pruneSpent :: "'d CTxMemPool \<Rightarrow> uint256 \<Rightarrow> CCoins \<Rightarrow> CCoins" where
  "pruneSpent pool hashTx co =
     fold (\<lambda>out co. case Spend co out of None \<Rightarrow> co | Some (co', _) \<Rightarrow> co')
       (sort_key outpoint_n (filter (\<lambda>out. outpoint_hash out = hashTx) (map fst (mapNextTx pool)))) co"

text \<open>
  Whether a transaction spends an output that is gone or immature; the depth is an unsigned difference. With the sanity
  check switched on, missing coins fail an assertion.
\<close>

fun spends_immature ::
  "bool \<Rightarrow> CChainParams \<Rightarrow> 'v CCoinsView \<Rightarrow> 'd CTxMemPool \<Rightarrow> uint32 \<Rightarrow> CTxIn list \<Rightarrow> 'v CCoinsViewCache \<Rightarrow> (bool \<times> 'v CCoinsViewCache) option" where
  "spends_immature fSanityCheck P B pool nMemPoolHeight [] c = Some (False, c)"
| "spends_immature fSanityCheck P B pool nMemPoolHeight (txin # ins) c =
     (if map_of (mapTx pool) (outpoint_hash (prevout txin)) \<noteq> None then spends_immature fSanityCheck P B pool nMemPoolHeight ins c
      else case AccessCoins B c (outpoint_hash (prevout txin)) of
        (None, c') \<Rightarrow> if fSanityCheck then None else Some (True, c')
      | (Some co, c') \<Rightarrow>
          if (fCoinBase co \<or> fCoinStake co) \<and> nMemPoolHeight - word_of_int (nHeight co) < word_of_int (COINBASE_MATURITY P)
          then Some (True, c')
          else spends_immature fSanityCheck P B pool nMemPoolHeight ins c')"

fun immature_spenders ::
  "bool \<Rightarrow> CChainParams \<Rightarrow> 'v CCoinsView \<Rightarrow> 'd CTxMemPool \<Rightarrow> uint32 \<Rightarrow> CTransaction list \<Rightarrow> 'v CCoinsViewCache \<Rightarrow>
   (CTransaction list \<times> 'v CCoinsViewCache) option" where
  "immature_spenders fSanityCheck P B pool h [] c = Some ([], c)"
| "immature_spenders fSanityCheck P B pool h (tx # txs) c =
     (case spends_immature fSanityCheck P B pool h (vin tx) c of
        None \<Rightarrow> None
      | Some (bad, c') \<Rightarrow>
          map_option (\<lambda>(rest, c''). (if bad then tx # rest else rest, c'')) (immature_spenders fSanityCheck P B pool h txs c'))"

fun remove_all ::
  "(bytes \<Rightarrow> uint256) \<Rightarrow> CTransaction list \<Rightarrow> 'd CTxMemPool \<Rightarrow> 'd CTxMemPool option" where
  "remove_all Hash [] pool = Some pool"
| "remove_all Hash (tx # txs) pool = Option.bind (pool_remove Hash True tx (pool, [])) (\<lambda>(pool', _). remove_all Hash txs pool')"

definition removeCoinbaseSpends ::
  "(bytes \<Rightarrow> uint256) \<Rightarrow> bool \<Rightarrow> CChainParams \<Rightarrow> 'v CCoinsView \<Rightarrow> uint32 \<Rightarrow> 'd CTxMemPool \<Rightarrow> 'v CCoinsViewCache \<Rightarrow>
   ('d CTxMemPool \<times> 'v CCoinsViewCache) option" where
  "removeCoinbaseSpends Hash fSanityCheck P B nMemPoolHeight pool c =
     Option.bind (immature_spenders fSanityCheck P B pool nMemPoolHeight (map (\<lambda>e. entry_tx (snd e)) (sort_key fst (mapTx pool))) c)
       (\<lambda>(txs, c'). map_option (\<lambda>pool'. (pool', c')) (remove_all Hash txs pool))"

text \<open>The view of the pool over another view; its other operations are those of the view below. The state of the view below is the
  first component.\<close>

definition MemPool_GetCoins :: "'v CCoinsView \<Rightarrow> 'v \<times> 'd CTxMemPool \<Rightarrow> uint256 \<Rightarrow> CCoins option \<times> 'v \<times> 'd CTxMemPool" where
  "MemPool_GetCoins B s txid =
     (case pool_lookup (snd s) txid of
        Some tx \<Rightarrow> (Some (FromTx tx MEMPOOL_HEIGHT), s)
      | None \<Rightarrow>
          (case vGetCoins B (fst s) txid of
             (r, b) \<Rightarrow> ((case r of None \<Rightarrow> None | Some co \<Rightarrow> if IsPruned co then None else Some co), b, snd s)))"

definition MemPool_HaveCoins :: "'v CCoinsView \<Rightarrow> 'v \<times> 'd CTxMemPool \<Rightarrow> uint256 \<Rightarrow> bool \<times> 'v \<times> 'd CTxMemPool" where
  "MemPool_HaveCoins B s txid =
     (if pool_exists (snd s) txid then (True, s)
      else case vHaveCoins B (fst s) txid of (r, b) \<Rightarrow> (r, b, snd s))"

definition CCoinsViewMemPool :: "'v CCoinsView \<Rightarrow> ('v \<times> 'd CTxMemPool) CCoinsView" where
  "CCoinsViewMemPool B =
     \<lparr>vGetCoins = MemPool_GetCoins B, vHaveCoins = MemPool_HaveCoins B,
      vGetBestBlock = (\<lambda>s. case vGetBestBlock B (fst s) of (h, b) \<Rightarrow> (h, b, snd s)),
      vBatchWrite = (\<lambda>s m h. map_option (\<lambda>(ok, b). (ok, b, snd s)) (vBatchWrite B (fst s) m h))\<rparr>"

end
