(* ===== verification/Mempool_Accept.thy ===== *)
theory Mempool_Accept
  imports Mempool Check_Inputs
begin

text \<open>
  Admission to the memory pool (\<^verbatim>\<open>AcceptToMemoryPool\<close> and \<^verbatim>\<open>AcceptableInputs\<close> in \<^verbatim>\<open>src/src/main.cpp\<close>), with the
  fee and priority rules. Priorities are values of a type \<open>'d\<close> with the arithmetic that the code does in double
  precision; the conversion from integers and the power function are parameters. The pool that is passed is the global
  pool, as at every call. The notification of the wallet is left out.
\<close>

section \<open>Environment\<close>

record 'd accept_env =
  ae_node :: node_env
  ae_RequireStandard :: bool
  ae_policy :: relay_policy
  ae_sig :: sig_env
  ae_heightOf :: "uint256 \<Rightarrow> int option"
  ae_LockedInputs :: "COutPoint \<rightharpoonup> uint256"
  ae_ObfuscationTxes :: "uint256 list"
  ae_Time :: int
  ae_relaypriority :: bool
  ae_limitfreerelay :: int
  ae_double :: "int \<Rightarrow> 'd"
  ae_pow :: "'d \<Rightarrow> 'd \<Rightarrow> 'd"

text \<open>The static variables of the rate limiter; each of the two functions has its own.\<close>

record 'd free_limiter =
  dFreeCount :: 'd
  nLastTime :: int

definition REJECT_DUPLICATE :: byte where "REJECT_DUPLICATE = 0x12"
definition REJECT_INSUFFICIENTFEE :: byte where "REJECT_INSUFFICIENTFEE = 0x42"
definition MAX_TX_SIGOPS :: nat where "MAX_TX_SIGOPS = MAX_BLOCK_SIGOPS div 5"
definition DEFAULT_BLOCK_PRIORITY_SIZE :: uint32 where "DEFAULT_BLOCK_PRIORITY_SIZE = 50000"

abbreviation ae_Params :: "('d, 'x) accept_env_scheme \<Rightarrow> CChainParams" where "ae_Params env \<equiv> Params (ae_node env)"
abbreviation ae_Height :: "('d, 'x) accept_env_scheme \<Rightarrow> int" where "ae_Height env \<equiv> chainHeight (ae_node env)"
abbreviation ae_Hash :: "('d, 'x) accept_env_scheme \<Rightarrow> bytes \<Rightarrow> uint256" where "ae_Hash env \<equiv> se_Hash (ae_sig env)"

section \<open>Priority and fees\<close>

text \<open>The product is one of 64-bit integers.\<close>

fun priority_loop ::
  "(int \<Rightarrow> 'd::plus) \<Rightarrow> 'v CCoinsView \<Rightarrow> int \<Rightarrow> CTxIn list \<Rightarrow> 'd \<Rightarrow> 'v CCoinsViewCache \<Rightarrow> ('d \<times> 'v CCoinsViewCache) option" where
  "priority_loop dbl B h [] dResult c = Some (dResult, c)"
| "priority_loop dbl B h (txin # txins) dResult c =
     (case AccessCoins B c (outpoint_hash (prevout txin)) of
        (None, c') \<Rightarrow> None
      | (Some co, c') \<Rightarrow>
          priority_loop dbl B h txins
            (if IsAvailable co (outpoint_n (prevout txin)) \<and> nHeight co < h
             then dResult + dbl (wrap64 (nValue (coins_vout co ! unat (outpoint_n (prevout txin))) * (h - nHeight co)))
             else dResult) c')"

definition ComputePriority :: "(int \<Rightarrow> 'd::{zero,divide}) \<Rightarrow> 'd \<Rightarrow> CTransaction \<Rightarrow> 'd" where
  "ComputePriority dbl dPriorityInputs tx =
     (let nTxSize = CalculateModifiedSize 0 tx in if nTxSize = 0 then 0 else dPriorityInputs div dbl (int nTxSize))"

definition GetPriority ::
  "(int \<Rightarrow> 'd::{plus,zero,divide}) \<Rightarrow> 'v CCoinsView \<Rightarrow> CTransaction \<Rightarrow> int \<Rightarrow> 'v CCoinsViewCache \<Rightarrow> ('d \<times> 'v CCoinsViewCache) option" where
  "GetPriority dbl B tx h c =
     (if IsCoinBase tx \<or> IsCoinStake tx then Some (0, c)
      else map_option (\<lambda>(d, c'). (ComputePriority dbl d tx, c')) (priority_loop dbl B h (vin tx) 0 c))"

definition AllowFree :: "(int \<Rightarrow> 'd::ord) \<Rightarrow> 'd \<Rightarrow> bool" where
  "AllowFree dbl prio \<longleftrightarrow> dbl (COIN * 1440 div 250) < prio"

abbreviation relay_fee :: "('d, 'x) accept_env_scheme \<Rightarrow> uint32 \<Rightarrow> camount" where
  "relay_fee env nSize \<equiv> GetFee (ActiveProtocol (ae_policy env)) (minRelayTxFee (ae_policy env)) (ucast nSize)"

definition GetMinRelayFee ::
  "('d::{plus,zero,ord}, 'x) accept_env_scheme \<Rightarrow> 'd CTxMemPool \<Rightarrow> CTransaction \<Rightarrow> uint32 \<Rightarrow> bool \<Rightarrow> camount" where
  "GetMinRelayFee env pool tx nBytes fAllowFree =
     (case ApplyDeltas pool (GetHash (ae_Hash env) tx) (0, 0) of (dPriorityDelta, nFeeDelta) \<Rightarrow>
        if 0 < dPriorityDelta \<or> 0 < nFeeDelta then 0
        else let nMinFee = relay_fee env nBytes;
                 nMinFee = (if fAllowFree \<and> nBytes < DEFAULT_BLOCK_PRIORITY_SIZE - 1000 then 0 else nMinFee)
             in if \<not> MoneyRange (ae_Params env) nMinFee then MaxMoneyOut (ae_Params env) else nMinFee)"

text \<open>The rate limiter for free transactions: whether it refuses, and its state.\<close>

definition limit_free ::
  "('d::{one,plus,minus,times,divide,ord}, 'x) accept_env_scheme \<Rightarrow> uint32 \<Rightarrow> 'd free_limiter \<Rightarrow> bool \<times> 'd free_limiter" where
  "limit_free env nSize lim =
     (let dbl = ae_double env; nNow = ae_Time env;
          d = dFreeCount lim * ae_pow env (1 - 1 div dbl 600) (dbl (wrap64 (nNow - nLastTime lim)))
      in if dbl (wrap64 (ae_limitfreerelay env * 10 * 1000)) \<le> d then (True, \<lparr>dFreeCount = d, nLastTime = nNow\<rparr>)
         else (False, \<lparr>dFreeCount = d + dbl (uint nSize), nLastTime = nNow\<rparr>))"

text \<open>The rules on fees: the reason of a rejection, the limiter and the view.\<close>

definition check_fees ::
  "('d::{zero,one,plus,minus,times,divide,ord}, 'x) accept_env_scheme \<Rightarrow> 'v CCoinsView \<Rightarrow> 'd CTxMemPool \<Rightarrow> CTransaction \<Rightarrow> uint32 \<Rightarrow> camount \<Rightarrow>
   bool \<Rightarrow> 'd free_limiter \<Rightarrow> 'v CCoinsViewCache \<Rightarrow> (string option \<times> 'd free_limiter \<times> 'v CCoinsViewCache) option" where
  "check_fees env B pool tx nSize nFees fLimitFree lim c =
     (if fLimitFree \<and> nFees < GetMinRelayFee env pool tx nSize True then Some (Some ''insufficient fee'', lim, c)
      else case (if ae_relaypriority env \<and> nFees < relay_fee env nSize
                 then map_option (\<lambda>(d, c'). (\<not> AllowFree (ae_double env) d, c')) (GetPriority (ae_double env) B tx (ae_Height env + 1) c)
                 else Some (False, c)) of
        None \<Rightarrow> None
      | Some (True, c') \<Rightarrow> Some (Some ''insufficient priority'', lim, c')
      | Some (False, c') \<Rightarrow>
          if fLimitFree \<and> nFees < relay_fee env nSize
          then (case limit_free env nSize lim of (refused, lim') \<Rightarrow>
                  Some (if refused then Some ''rate limited free transaction'' else None, lim', c'))
          else Some (None, lim, c'))"

section \<open>The view of the inputs\<close>

text \<open>The class \<^verbatim>\<open>CCoinsView\<close> itself, which has nothing.\<close>

definition dummy_view :: "'v CCoinsView" where
  "dummy_view = \<lparr>vGetCoins = (\<lambda>s _. (None, s)), vHaveCoins = (\<lambda>s _. (False, s)), vGetBestBlock = (\<lambda>s. (0, s)),
     vBatchWrite = (\<lambda>s _ _. Some (False, s))\<rparr>"

fun have_all_coins :: "'v CCoinsView \<Rightarrow> CTxIn list \<Rightarrow> 'v CCoinsViewCache \<Rightarrow> bool \<times> 'v CCoinsViewCache" where
  "have_all_coins B [] c = (True, c)"
| "have_all_coins B (txin # txins) c =
     (case HaveCoins B c (outpoint_hash (prevout txin)) of
        (False, c') \<Rightarrow> (False, c')
      | (True, c') \<Rightarrow> have_all_coins B txins c')"

text \<open>
  Whether the transaction or its inputs are unknown, and the value of its inputs: \<open>Inl\<close> has the validation state and
  whether inputs are missing. The view is then cut off from the pool, which is the use of \<open>dummy_view\<close> below.
\<close>

definition load_inputs ::
  "'v CCoinsView \<Rightarrow> uint256 \<Rightarrow> CTransaction \<Rightarrow> CValidationState \<Rightarrow> 'v CCoinsViewCache \<Rightarrow>
   ((CValidationState \<times> bool + camount) \<times> 'v CCoinsViewCache) option" where
  "load_inputs B hash tx st view =
     (case HaveCoins B view hash of
        (True, c1) \<Rightarrow> Some (Inl (st, False), c1)
      | (False, c1) \<Rightarrow>
          (case have_all_coins B (vin tx) c1 of
             (False, c2) \<Rightarrow> Some (Inl (st, True), c2)
           | (True, c2) \<Rightarrow>
               (case HaveInputs B c2 tx of
                  (False, c3) \<Rightarrow> Some (Inl (Invalid st REJECT_DUPLICATE ''bad-txns-inputs-spent'', False), c3)
                | (True, c3) \<Rightarrow>
                    (case GetBestBlock B c3 of (_, c4) \<Rightarrow>
                       (case GetValueIn B c4 tx of
                          (None, _) \<Rightarrow> None
                        | (Some nValueIn, c5) \<Rightarrow> Some (Inr nValueIn, c5))))))"

definition input_locked :: "('d, 'x) accept_env_scheme \<Rightarrow> CTransaction \<Rightarrow> bool" where
  "input_locked env tx \<longleftrightarrow>
     list_ex (\<lambda>txin. case ae_LockedInputs env (prevout txin) of None \<Rightarrow> False | Some h \<Rightarrow> h \<noteq> GetHash (ae_Hash env) tx) (vin tx)"

definition pool_conflict :: "'d CTxMemPool \<Rightarrow> CTransaction \<Rightarrow> bool" where
  "pool_conflict pool tx \<longleftrightarrow> list_ex (\<lambda>txin. map_of (mapNextTx pool) (prevout txin) \<noteq> None) (vin tx)"

section \<open>Admission\<close>

text \<open>The tip view is the state of the views below the pool, which reading may fill.\<close>

record ('d, 'v) accept_result =
  ar_ok :: bool
  ar_state :: CValidationState
  ar_missing :: bool
  ar_pool :: "'d CTxMemPool"
  ar_limiter :: "'d free_limiter"
  ar_tip :: 'v

type_synonym ('d, 'v) pool_view = "('v \<times> 'd CTxMemPool) CCoinsViewCache"

definition too_many_tx_sigops :: "('d, 'v) pool_view \<Rightarrow> CTransaction \<Rightarrow> (bool \<times> ('d, 'v) pool_view) option" where
  "too_many_tx_sigops view tx =
     (case GetP2SHSigOpCount dummy_view tx view of
        (None, _) \<Rightarrow> None
      | (Some n, c) \<Rightarrow> Some (GetLegacySigOpCount tx + n > MAX_TX_SIGOPS, c))"

definition inputs_nonstandard :: "('d, 'x) accept_env_scheme \<Rightarrow> ('d, 'v) pool_view \<Rightarrow> CTransaction \<Rightarrow> (bool \<times> ('d, 'v) pool_view) option" where
  "inputs_nonstandard env view tx =
     (if ae_RequireStandard env
      then (case AreInputsStandard (se_ctx (ae_sig env)) dummy_view tx view of
              (None, _) \<Rightarrow> None
            | (Some r, c) \<Rightarrow> Some (\<not> r, c))
      else Some (False, view))"

text \<open>The rules on fees with their exceptions: a mixing transaction is given priority, and fees may be ignored.\<close>

definition fee_rules ::
  "('d::{zero,one,plus,minus,times,divide,ord}, 'x) accept_env_scheme \<Rightarrow> bool \<Rightarrow> bool \<Rightarrow> bool \<Rightarrow> CTransaction \<Rightarrow> uint32 \<Rightarrow> camount \<Rightarrow>
   'd CTxMemPool \<Rightarrow> 'd free_limiter \<Rightarrow> ('d, 'v) pool_view \<Rightarrow> (string option \<times> 'd CTxMemPool \<times> 'd free_limiter \<times> ('d, 'v) pool_view) option" where
  "fee_rules env isDSTX ignoreFees fLimitFree tx nSize nFees pool lim view =
     (if isDSTX then Some (None, PrioritiseTransaction (GetHash (ae_Hash env) tx) (ae_double env 1000) 10000000 pool, lim, view)
      else if ignoreFees then Some (None, pool, lim, view)
      else map_option (\<lambda>(r, lim', c). (r, pool, lim', c)) (check_fees env dummy_view pool tx nSize nFees fLimitFree lim view))"

text \<open>The part after the inputs are loaded.\<close>

definition admit ::
  "('d::{zero,one,plus,minus,times,divide,ord}, 'x) accept_env_scheme \<Rightarrow> CTransaction \<Rightarrow> CValidationState \<Rightarrow> camount \<Rightarrow> bool \<Rightarrow> bool \<Rightarrow> bool \<Rightarrow>
   'd CTxMemPool \<Rightarrow> 'd free_limiter \<Rightarrow> ('d, 'v) pool_view \<Rightarrow> ('d, 'v) accept_result option" where
  "admit env tx st nValueIn fLimitFree fRejectInsaneFee ignoreFees pool lim view =
     (let hash = GetHash (ae_Hash env) tx;
          result = (\<lambda>ok st pool lim view. Some \<lparr>ar_ok = ok, ar_state = st, ar_missing = False, ar_pool = pool, ar_limiter = lim,
                      ar_tip = fst (base view)\<rparr>) in
      case inputs_nonstandard env view tx of
        None \<Rightarrow> None
      | Some (True, c1) \<Rightarrow> result False st pool lim c1
      | Some (False, c1) \<Rightarrow>
     (case too_many_tx_sigops c1 tx of
        None \<Rightarrow> None
      | Some (True, c2) \<Rightarrow> result False (DoS st 0 REJECT_NONSTANDARD ''bad-txns-too-many-sigops'' False) pool lim c2
      | Some (False, c2) \<Rightarrow>
     (case GetValueOut tx of
        Inl _ \<Rightarrow> None
      | Inr nValueOut \<Rightarrow>
     (let nFees = wrap64 (nValueIn - nValueOut) in
      case GetPriority (ae_double env) dummy_view tx (ae_Height env) c2 of
        None \<Rightarrow> None
      | Some (prio, c3) \<Rightarrow>
     (let entry = CTxMemPoolEntry_new tx nFees (ae_Time env) prio (word_of_int (ae_Height env));
          nSize = of_nat (nTxSize entry) :: uint32 in
      case fee_rules env (hash \<in> set (ae_ObfuscationTxes env)) ignoreFees fLimitFree tx nSize nFees pool lim c3 of
        None \<Rightarrow> None
      | Some (Some reason, pool1, lim1, c4) \<Rightarrow> result False (DoS st 0 REJECT_INSUFFICIENTFEE reason False) pool1 lim1 c4
      | Some (None, pool1, lim1, c4) \<Rightarrow>
          if fRejectInsaneFee \<and> nFees > wrap64 (relay_fee env nSize * 10000) then result False st pool1 lim1 c4
          else (case CheckInputs (ae_sig env) (ae_Params env) (ae_heightOf env) dummy_view tx st c4 True STANDARD_SCRIPT_VERIFY_FLAGS True None of
            None \<Rightarrow> None
          | Some (False, st1, _, c5) \<Rightarrow> result False st1 pool1 lim1 c5
          | Some (True, st1, _, c5) \<Rightarrow>
              (case CheckInputs (ae_sig env) (ae_Params env) (ae_heightOf env) dummy_view tx st1 c5 True MANDATORY_SCRIPT_VERIFY_FLAGS True None of
                 None \<Rightarrow> None
               | Some (False, st2, _, c6) \<Rightarrow> result False st2 pool1 lim1 c6
               | Some (True, st2, _, c6) \<Rightarrow> result True st2 (addUnchecked hash entry pool1) lim1 c6)))))))"

definition AcceptToMemoryPool ::
  "('d::{zero,one,plus,minus,times,divide,ord}, 'x) accept_env_scheme \<Rightarrow> 'v CCoinsView \<Rightarrow> 'd CTxMemPool \<Rightarrow> CValidationState \<Rightarrow> CTransaction \<Rightarrow>
   bool \<Rightarrow> bool \<Rightarrow> bool \<Rightarrow> 'd free_limiter \<Rightarrow> 'v \<Rightarrow> ('d, 'v) accept_result option" where
  "AcceptToMemoryPool env B pool st tx fLimitFree fRejectInsaneFee ignoreFees lim tip =
     (let hash = GetHash (ae_Hash env) tx;
          stop = (\<lambda>st missing tip. Some \<lparr>ar_ok = False, ar_state = st, ar_missing = missing, ar_pool = pool, ar_limiter = lim, ar_tip = tip\<rparr>) in
      case CheckTransaction (ae_node env) tx st 0 of
        None \<Rightarrow> None
      | Some (False, st1) \<Rightarrow> stop st1 False tip
      | Some (True, st1) \<Rightarrow>
          if IsCoinBase tx then stop (DoS st1 100 REJECT_INVALID ''coinbase'' False) False tip
          else if IsCoinStake tx then stop (DoS st1 100 REJECT_INVALID ''coinstake'' False) False tip
          else (case (if ae_RequireStandard env then IsStandardTx (ae_node env) (ae_policy env) tx else None) of
            Some reason \<Rightarrow> stop (DoS st1 0 REJECT_NONSTANDARD reason False) False tip
          | None \<Rightarrow>
              if pool_exists pool hash then stop st1 False tip
              else if input_locked env tx then stop (DoS st1 0 REJECT_INVALID ''tx-lock-conflict'' False) False tip
              else if pool_conflict pool tx then stop st1 False tip
              else (case load_inputs (CCoinsViewMemPool B) hash tx st1 (make_cache (tip, pool)) of
                None \<Rightarrow> None
              | Some (Inl (st2, missing), view) \<Rightarrow> stop st2 missing (fst (base view))
              | Some (Inr nValueIn, view) \<Rightarrow> admit env tx st1 nValueIn fLimitFree fRejectInsaneFee ignoreFees pool lim view)))"

section \<open>A trial admission\<close>

text \<open>\<^verbatim>\<open>AcceptableInputs\<close> repeats most of the checks and stores nothing but priorities and its own limiter.\<close>

definition try_admit ::
  "('d::{zero,one,plus,minus,times,divide,ord}, 'x) accept_env_scheme \<Rightarrow> CTransaction \<Rightarrow> CValidationState \<Rightarrow> camount \<Rightarrow> bool \<Rightarrow> bool \<Rightarrow> bool \<Rightarrow>
   'd CTxMemPool \<Rightarrow> 'd free_limiter \<Rightarrow> ('d, 'v) pool_view \<Rightarrow> ('d, 'v) accept_result option" where
  "try_admit env tx st nValueIn fLimitFree fRejectInsaneFee isDSTX pool lim view =
     (let result = (\<lambda>ok st pool lim view. Some \<lparr>ar_ok = ok, ar_state = st, ar_missing = False, ar_pool = pool, ar_limiter = lim,
                      ar_tip = fst (base view)\<rparr>) in
      case too_many_tx_sigops view tx of
        None \<Rightarrow> None
      | Some (True, c2) \<Rightarrow> result False (DoS st 0 REJECT_NONSTANDARD ''bad-txns-too-many-sigops'' False) pool lim c2
      | Some (False, c2) \<Rightarrow>
     (case GetValueOut tx of
        Inl _ \<Rightarrow> None
      | Inr nValueOut \<Rightarrow>
     (let nFees = wrap64 (nValueIn - nValueOut) in
      case GetPriority (ae_double env) dummy_view tx (ae_Height env) c2 of
        None \<Rightarrow> None
      | Some (prio, c3) \<Rightarrow>
     (let nSize = of_nat (nTxSize (CTxMemPoolEntry_new tx nFees (ae_Time env) prio (word_of_int (ae_Height env)))) :: uint32 in
      case fee_rules env isDSTX False fLimitFree tx nSize nFees pool lim c3 of
        None \<Rightarrow> None
      | Some (Some reason, pool1, lim1, c4) \<Rightarrow> result False (DoS st 0 REJECT_INSUFFICIENTFEE reason False) pool1 lim1 c4
      | Some (None, pool1, lim1, c4) \<Rightarrow>
          if fRejectInsaneFee \<and> nFees > wrap64 (relay_fee env nSize * 10000) then result False st pool1 lim1 c4
          else (case CheckInputs (ae_sig env) (ae_Params env) (ae_heightOf env) dummy_view tx st c4 False STANDARD_SCRIPT_VERIFY_FLAGS True None of
            None \<Rightarrow> None
          | Some (ok, st1, _, c5) \<Rightarrow> result ok st1 pool1 lim1 c5)))))"

definition AcceptableInputs ::
  "('d::{zero,one,plus,minus,times,divide,ord}, 'x) accept_env_scheme \<Rightarrow> 'v CCoinsView \<Rightarrow> 'd CTxMemPool \<Rightarrow> CValidationState \<Rightarrow> CTransaction \<Rightarrow>
   bool \<Rightarrow> bool \<Rightarrow> bool \<Rightarrow> 'd free_limiter \<Rightarrow> 'v \<Rightarrow> ('d, 'v) accept_result option" where
  "AcceptableInputs env B pool st tx fLimitFree fRejectInsaneFee isDSTX lim tip =
     (let hash = GetHash (ae_Hash env) tx;
          stop = (\<lambda>st missing tip. Some \<lparr>ar_ok = False, ar_state = st, ar_missing = missing, ar_pool = pool, ar_limiter = lim, ar_tip = tip\<rparr>) in
      case CheckTransaction (ae_node env) tx st 0 of
        None \<Rightarrow> None
      | Some (False, st1) \<Rightarrow> stop st1 False tip
      | Some (True, st1) \<Rightarrow>
          if IsCoinBase tx then stop (DoS st1 100 REJECT_INVALID ''coinbase'' False) False tip
          else if pool_exists pool hash then stop st1 False tip
          else if input_locked env tx then stop (DoS st1 0 REJECT_INVALID ''tx-lock-conflict'' False) False tip
          else if pool_conflict pool tx then stop st1 False tip
          else (case load_inputs (CCoinsViewMemPool B) hash tx st1 (make_cache (tip, pool)) of
            None \<Rightarrow> None
          | Some (Inl (st2, missing), view) \<Rightarrow> stop st2 missing (fst (base view))
          | Some (Inr nValueIn, view) \<Rightarrow> try_admit env tx st1 nValueIn fLimitFree fRejectInsaneFee isDSTX pool lim view))"

end
