(* ===== verification/Mempool_Props.thy ===== *)
theory Mempool_Props
  imports Mempool Utxo_Undo
begin

text \<open>
  The memory pool is consistent: in every state that its operations reach, \<^verbatim>\<open>mapNextTx\<close> holds exactly the
  inputs of the transactions of the pool, so no two of them spend the same output and no pointer dangles. A
  recursive removal leaves no descendant behind, and the transactions of a block leave no conflict behind.
\<close>

section \<open>Maps\<close>

lemma map_of_fold_update:
  assumes "distinct (map f is)"
  shows "map_of (fold (\<lambda>i m. AList.update (f i) (g i) m) is m) k = Some v \<longleftrightarrow>
    (\<exists>i \<in> set is. k = f i \<and> v = g i) \<or> k \<notin> f ` set is \<and> map_of m k = Some v"
  using assms by (induction "is" arbitrary: m) (auto simp: update_conv' image_iff split: if_splits)

lemma map_of_fold_delete:
  "map_of (fold (\<lambda>x. AList.delete (f x)) xs m) k = (if k \<in> f ` set xs then None else map_of m k)"
  by (induction xs arbitrary: m) (auto simp: delete_conv')

lemma delete_absent: "k \<notin> fst ` set m \<Longrightarrow> AList.delete k m = m"
  by (induction m) auto

lemma sum_delete:
  "distinct (map fst m) \<Longrightarrow> map_of m k = Some v \<Longrightarrow>
   sum_list (map (\<lambda>e. w (snd e)) m) = w v + sum_list (map (\<lambda>e. w (snd e)) (AList.delete k m))"
  for w :: "'v \<Rightarrow> nat"
proof (induction m)
  case (Cons e m)
  show ?case
  proof (cases "fst e = k")
    case True
    have "k \<notin> fst ` set m" using Cons.prems(1) True by auto
    then have "AList.delete k (e # m) = m" using True delete_absent [of k m] by (cases e) simp
    moreover have "v = snd e" using Cons.prems(2) True by (cases e) simp
    ultimately show ?thesis by simp
  next
    case False
    then show ?thesis using Cons by (cases e) (simp add: eq_commute)
  qed
qed simp

section \<open>Consistency\<close>

abbreviation next_of :: "'d CTxMemPool \<Rightarrow> COutPoint \<rightharpoonup> CInPoint" where "next_of pool \<equiv> map_of (mapNextTx pool)"
abbreviation tx_of :: "'d CTxMemPool \<Rightarrow> uint256 \<rightharpoonup> 'd CTxMemPoolEntry" where "tx_of pool \<equiv> map_of (mapTx pool)"

definition entry_inputs :: "'d CTxMemPoolEntry \<Rightarrow> COutPoint list" where
  "entry_inputs e = map prevout (vin (entry_tx e))"

definition pool_size :: "'d CTxMemPool \<Rightarrow> nat" where
  "pool_size pool = sum_list (map (\<lambda>e. nTxSize (snd e)) (mapTx pool))"

definition pool_inv :: "(bytes \<Rightarrow> uint256) \<Rightarrow> 'd CTxMemPool \<Rightarrow> bool" where
  "pool_inv Hash pool \<longleftrightarrow>
     distinct (map fst (mapTx pool)) \<and>
     (\<forall>k e. tx_of pool k = Some e \<longrightarrow> GetHash Hash (entry_tx e) = k) \<and>
     (\<forall>out p. next_of pool out = Some p \<longleftrightarrow>
        (\<exists>e. tx_of pool (inpoint_ptx p) = Some e \<and> inpoint_n p < length (vin (entry_tx e)) \<and> entry_inputs e ! inpoint_n p = out)) \<and>
     totalTxSize pool = of_nat (pool_size pool)"

lemma pool_invD:
  assumes "pool_inv Hash pool"
  shows "distinct (map fst (mapTx pool))" "tx_of pool k = Some e \<Longrightarrow> GetHash Hash (entry_tx e) = k"
    "next_of pool out = Some p \<Longrightarrow>
       \<exists>e. tx_of pool (inpoint_ptx p) = Some e \<and> inpoint_n p < length (vin (entry_tx e)) \<and> entry_inputs e ! inpoint_n p = out"
    "tx_of pool k = Some e \<Longrightarrow> i < length (vin (entry_tx e)) \<Longrightarrow>
       next_of pool (entry_inputs e ! i) = Some \<lparr>inpoint_ptx = k, inpoint_n = i\<rparr>"
    "totalTxSize pool = of_nat (pool_size pool)"
  using assms by (auto simp: pool_inv_def)

lemma next_of_member:
  assumes "pool_inv Hash pool" "tx_of pool k = Some e" "out \<in> set (entry_inputs e)"
  shows "\<exists>i. next_of pool out = Some \<lparr>inpoint_ptx = k, inpoint_n = i\<rparr>"
  using pool_invD(4) [OF assms(1,2)] assms(3) by (auto simp: in_set_conv_nth entry_inputs_def)

lemma no_double_spend:
  assumes "pool_inv Hash pool" "tx_of pool k = Some e" "tx_of pool k' = Some e'" "out \<in> set (entry_inputs e)" "out \<in> set (entry_inputs e')"
  shows "k = k'"
  using next_of_member [OF assms(1,2,4)] next_of_member [OF assms(1,3,5)] by auto

lemma pool_inv_new: "pool_inv Hash CTxMemPool_new"
  by (simp add: pool_inv_def CTxMemPool_new_def pool_size_def)

lemma pool_inv_clear: "pool_inv Hash (pool_clear pool)"
  by (simp add: pool_inv_def pool_clear_def pool_size_def)

lemma pool_inv_cong:
  "mapTx pool' = mapTx pool \<Longrightarrow> mapNextTx pool' = mapNextTx pool \<Longrightarrow> totalTxSize pool' = totalTxSize pool \<Longrightarrow>
   pool_inv Hash pool' = pool_inv Hash pool"
  by (simp add: pool_inv_def pool_size_def)

subsection \<open>Adding\<close>

definition addable :: "(bytes \<Rightarrow> uint256) \<Rightarrow> 'd CTxMemPool \<Rightarrow> uint256 \<Rightarrow> 'd CTxMemPoolEntry \<Rightarrow> bool" where
  "addable Hash pool hash e \<longleftrightarrow>
     hash = GetHash Hash (entry_tx e) \<and> \<not> pool_exists pool hash \<and> distinct (entry_inputs e) \<and>
     list_all (\<lambda>out. next_of pool out = None) (entry_inputs e)"

lemma update_new: "k \<notin> fst ` set m \<Longrightarrow> AList.update k v m = m @ [(k, v)]"
  by (induction m) auto

lemma addUnchecked_inv:
  assumes "pool_inv Hash pool" "addable Hash pool hash e"
  shows "pool_inv Hash (addUnchecked hash e pool)"
proof -
  let ?pool = "addUnchecked hash e pool"
  have fresh: "tx_of pool hash = None" and dist: "distinct (entry_inputs e)"
    and free: "out \<in> set (entry_inputs e) \<Longrightarrow> next_of pool out = None" for out
    using assms(2) by (auto simp: addable_def pool_exists_def list_all_iff)
  have notin: "hash \<notin> fst ` set (mapTx pool)" using fresh by (simp add: map_of_eq_None_iff)
  have txs: "mapTx ?pool = mapTx pool @ [(hash, e)]"
    by (simp add: addUnchecked_def Let_def update_new [OF notin])
  have tx: "tx_of ?pool k = (if k = hash then Some e else tx_of pool k)" for k
    using fresh by (auto simp: txs map_add_def split: option.splits)
  have nth: "entry_inputs e ! i = prevout (vin (entry_tx e) ! i)" if "i < length (vin (entry_tx e))" for i
    using that by (simp add: entry_inputs_def)
  have mp: "map (\<lambda>i. prevout (vin (entry_tx e) ! i)) [0 ..< length (vin (entry_tx e))] = entry_inputs e"
    by (rule nth_equalityI) (simp_all add: entry_inputs_def)
  have ins: "set (entry_inputs e) = (\<lambda>i. prevout (vin (entry_tx e) ! i)) ` {0 ..< length (vin (entry_tx e))}"
    unfolding mp [symmetric] by simp
  from mp have nx: "next_of ?pool out = Some p \<longleftrightarrow>
      (\<exists>i < length (vin (entry_tx e)). out = entry_inputs e ! i \<and> p = \<lparr>inpoint_ptx = hash, inpoint_n = i\<rparr>) \<or>
      out \<notin> set (entry_inputs e) \<and> next_of pool out = Some p" for out p
    using dist nth ins by (simp add: addUnchecked_def Let_def map_of_fold_update) fastforce
  have next_ok: "next_of ?pool out = Some p \<longleftrightarrow>
      (\<exists>e'. tx_of ?pool (inpoint_ptx p) = Some e' \<and> inpoint_n p < length (vin (entry_tx e')) \<and> entry_inputs e' ! inpoint_n p = out)"
    for out p
  proof (cases "inpoint_ptx p = hash")
    case True
    have "next_of pool out \<noteq> Some p" using pool_invD(3) [OF assms(1), of out p] fresh True by auto
    then show ?thesis using True nx by (cases p) (auto simp: tx)
  next
    case False
    have "out \<notin> set (entry_inputs e)" if "next_of pool out = Some p" using that free by fastforce
    then have "next_of ?pool out = Some p \<longleftrightarrow> next_of pool out = Some p" using False nx by auto
    then show ?thesis using assms(1) False by (simp add: pool_inv_def tx)
  qed
  show ?thesis
    unfolding pool_inv_def
  proof (intro conjI allI impI)
    show "distinct (map fst (mapTx ?pool))" using pool_invD(1) [OF assms(1)] notin by (simp add: txs)
    show "GetHash Hash (entry_tx e') = k" if "tx_of ?pool k = Some e'" for k e'
      using that assms(2) pool_invD(2) [OF assms(1)] by (auto simp: tx addable_def split: if_splits)
    show "totalTxSize ?pool = of_nat (pool_size ?pool)"
      using pool_invD(5) [OF assms(1)] by (simp add: pool_size_def txs) (simp add: addUnchecked_def Let_def pool_size_def)
  qed (rule next_ok)
qed

subsection \<open>Erasing one entry\<close>

lemma tx_of_erase: "tx_of (erase_entry hash e pool) k = (if k = hash then None else tx_of pool k)"
  by (simp add: erase_entry_def delete_conv')

lemma next_of_erase: "next_of (erase_entry hash e pool) out = (if out \<in> set (entry_inputs e) then None else next_of pool out)"
  by (simp add: erase_entry_def map_of_fold_delete entry_inputs_def)

lemma erase_total: "totalTxSize (erase_entry hash e pool) = totalTxSize pool - of_nat (nTxSize e)"
  by (simp add: erase_entry_def)

lemma distinct_keys_delete: "distinct (map fst m) \<Longrightarrow> distinct (map fst (AList.delete k m))"
  by (rule distinct_delete)

lemma erase_entry_inv:
  assumes inv: "pool_inv Hash pool" and e: "tx_of pool hash = Some e"
  shows "pool_inv Hash (erase_entry hash e pool)"
proof -
  let ?pool = "erase_entry hash e pool"
  have next_ok: "next_of ?pool out = Some p \<longleftrightarrow>
      (\<exists>e'. tx_of ?pool (inpoint_ptx p) = Some e' \<and> inpoint_n p < length (vin (entry_tx e')) \<and> entry_inputs e' ! inpoint_n p = out)"
    for out p
  proof
    assume "next_of ?pool out = Some p"
    then have o: "out \<notin> set (entry_inputs e)" "next_of pool out = Some p" by (auto simp: next_of_erase split: if_splits)
    obtain e' where e': "tx_of pool (inpoint_ptx p) = Some e'" "inpoint_n p < length (vin (entry_tx e'))" "entry_inputs e' ! inpoint_n p = out"
      using pool_invD(3) [OF inv o(2)] by blast
    have "inpoint_ptx p \<noteq> hash"
      using e' e o(1) nth_mem [of "inpoint_n p" "entry_inputs e"] by (auto simp: entry_inputs_def)
    then show "\<exists>e'. tx_of ?pool (inpoint_ptx p) = Some e' \<and> inpoint_n p < length (vin (entry_tx e')) \<and> entry_inputs e' ! inpoint_n p = out"
      using e' by (auto simp: tx_of_erase)
  next
    assume "\<exists>e'. tx_of ?pool (inpoint_ptx p) = Some e' \<and> inpoint_n p < length (vin (entry_tx e')) \<and> entry_inputs e' ! inpoint_n p = out"
    then obtain e' where e': "inpoint_ptx p \<noteq> hash" "tx_of pool (inpoint_ptx p) = Some e'" "inpoint_n p < length (vin (entry_tx e'))"
      "entry_inputs e' ! inpoint_n p = out" by (auto simp: tx_of_erase split: if_splits)
    have nx: "next_of pool out = Some p" using pool_invD(4) [OF inv e'(2,3)] e'(4) by simp
    have "out \<notin> set (entry_inputs e)" using next_of_member [OF inv e] nx e'(1) by fastforce
    then show "next_of ?pool out = Some p" using nx by (simp add: next_of_erase)
  qed
  have "pool_size pool = nTxSize e + pool_size ?pool"
    using sum_delete [OF pool_invD(1) [OF inv] e, of nTxSize] by (simp add: pool_size_def erase_entry_def)
  then have "totalTxSize ?pool = of_nat (pool_size ?pool)"
    using pool_invD(5) [OF inv] by (metis add_diff_cancel_left' erase_total of_nat_add)
  then show ?thesis
    using pool_invD(1,2) [OF inv] next_ok unfolding pool_inv_def
    by (auto simp: tx_of_erase) (simp add: erase_entry_def distinct_keys_delete)
qed

section \<open>Removal\<close>

text \<open>A pool within another: some entries are gone.\<close>

definition subpool :: "'d CTxMemPool \<Rightarrow> 'd CTxMemPool \<Rightarrow> bool" where
  "subpool pool' pool \<longleftrightarrow> tx_of pool' \<subseteq>\<^sub>m tx_of pool \<and> next_of pool' \<subseteq>\<^sub>m next_of pool"

lemma subpool_refl [simp]: "subpool pool pool"
  by (simp add: subpool_def)

lemma subpool_trans: "subpool a b \<Longrightarrow> subpool b c \<Longrightarrow> subpool a c"
  by (auto simp: subpool_def intro: map_le_trans)

lemma subpool_erase: "subpool (erase_entry hash e pool) pool"
  by (auto simp: subpool_def map_le_def tx_of_erase next_of_erase split: if_splits)

lemma subpool_None:
  assumes "subpool pool' pool"
  shows "tx_of pool k = None \<Longrightarrow> tx_of pool' k = None" "next_of pool out = None \<Longrightarrow> next_of pool' out = None"
  using assms by (auto simp: subpool_def map_le_def dom_def)

text \<open>An entry spends an output of a transaction.\<close>

definition spends_from :: "(bytes \<Rightarrow> uint256) \<Rightarrow> 'd CTxMemPoolEntry \<Rightarrow> CTransaction \<Rightarrow> bool" where
  "spends_from Hash e tx \<longleftrightarrow>
     list_ex (\<lambda>i. \<lparr>outpoint_hash = GetHash Hash tx, outpoint_n = of_nat i\<rparr> \<in> set (entry_inputs e)) [0 ..< length (vout tx)]"

lemma pool_children_spec:
  assumes "pool_inv Hash pool"
  shows "\<exists>cs. pool_children Hash pool hash is = Some cs \<and>
    (\<forall>k e. tx_of pool k = Some e \<longrightarrow> (\<exists>i \<in> set is. \<lparr>outpoint_hash = hash, outpoint_n = of_nat i\<rparr> \<in> set (entry_inputs e)) \<longrightarrow> k \<in> set cs)"
proof (induction "is")
  case (Cons i "is")
  let ?out = "\<lparr>outpoint_hash = hash, outpoint_n = of_nat i\<rparr> :: COutPoint"
  obtain cs where cs: "pool_children Hash pool hash is = Some cs"
    "\<And>k e. tx_of pool k = Some e \<Longrightarrow> (\<exists>i \<in> set is. \<lparr>outpoint_hash = hash, outpoint_n = of_nat i\<rparr> \<in> set (entry_inputs e)) \<Longrightarrow> k \<in> set cs"
    using Cons.IH by blast
  show ?case
  proof (cases "next_of pool ?out")
    case None
    then have "?out \<notin> set (entry_inputs e)" if "tx_of pool k = Some e" for k e
      using next_of_member [OF assms that] by fastforce
    then show ?thesis using None cs by (intro exI [of _ cs]) auto
  next
    case (Some p)
    obtain e where e: "tx_of pool (inpoint_ptx p) = Some e" using pool_invD(3) [OF assms Some] by blast
    have h: "spender_hash Hash pool p = Some (inpoint_ptx p)"
      using e pool_invD(2) [OF assms e] by (simp add: spender_hash_def)
    have "k = inpoint_ptx p" if "tx_of pool k = Some e'" "?out \<in> set (entry_inputs e')" for k e'
      using next_of_member [OF assms that] Some by auto
    then show ?thesis using Some cs h by (intro exI [of _ "inpoint_ptx p # cs"]) auto
  qed
qed simp

lemma children_spenders:
  assumes "pool_inv Hash pool" "hash = GetHash Hash tx"
  obtains cs where "pool_children Hash pool hash [0 ..< length (vout tx)] = Some cs"
    "\<And>k e. tx_of pool k = Some e \<Longrightarrow> spends_from Hash e tx \<Longrightarrow> k \<in> set cs"
  using pool_children_spec [OF assms(1), of hash "[0 ..< length (vout tx)]"] assms(2)
  by (auto simp: spends_from_def list_ex_iff)

text \<open>The loop ends with a consistent pool without the queued entries; nothing in it spends an output of what was
  removed, if the removal is recursive.\<close>

lemma remove_loop_spec:
  "pool_inv Hash pool \<Longrightarrow>
   (\<And>k e tx. fRec \<Longrightarrow> tx \<in> R \<Longrightarrow> tx_of pool k = Some e \<Longrightarrow> spends_from Hash e tx \<Longrightarrow> k \<in> set queue) \<Longrightarrow>
   \<exists>pool' gone. remove_loop Hash fRec queue pool removed = Some (pool', removed @ gone) \<and> pool_inv Hash pool' \<and> subpool pool' pool \<and>
     (\<forall>k \<in> set queue. tx_of pool' k = None) \<and>
     (fRec \<longrightarrow> (\<forall>tx \<in> R \<union> set gone. \<forall>k e. tx_of pool' k = Some e \<longrightarrow> \<not> spends_from Hash e tx)) \<and>
     mapDeltas pool' = mapDeltas pool \<and>
     (\<forall>k e. tx_of pool k = Some e \<longrightarrow> tx_of pool' k = None \<longrightarrow> entry_tx e \<in> set gone)"
proof (induction Hash fRec queue pool removed arbitrary: R rule: remove_loop.induct)
  case (1 Hash fRec pool removed)
  then show ?case by auto
next
  case (2 Hash fRec hash queue pool removed)
  show ?case
  proof (cases "tx_of pool hash")
    case None
    have q: "k \<in> set queue" if "fRec" "tx \<in> R" "tx_of pool k = Some e" "spends_from Hash e tx" for k e tx
      using "2.prems"(2) [OF that] None that(3) by auto
    obtain pool' gone where "remove_loop Hash fRec queue pool removed = Some (pool', removed @ gone)" "pool_inv Hash pool'" "subpool pool' pool"
     "\<forall>k \<in> set queue. tx_of pool' k = None"
     "fRec \<longrightarrow> (\<forall>tx \<in> R \<union> set gone. \<forall>k e. tx_of pool' k = Some e \<longrightarrow> \<not> spends_from Hash e tx)" "mapDeltas pool' = mapDeltas pool"
     "\<forall>k e. tx_of pool k = Some e \<longrightarrow> tx_of pool' k = None \<longrightarrow> entry_tx e \<in> set gone"
      using "2.IH"(1) [OF None "2.prems"(1), of R] q by blast
    then show ?thesis using None subpool_None(1) by (intro exI [of _ pool'] exI [of _ gone]) auto
  next
    case (Some e)
    note hash = pool_invD(2) [OF "2.prems"(1) Some]
    let ?pool = "erase_entry hash e pool"
    obtain cs where cs: "pool_children Hash pool hash [0 ..< length (vout (entry_tx e))] = Some cs"
      "\<And>k e'. tx_of pool k = Some e' \<Longrightarrow> spends_from Hash e' (entry_tx e) \<Longrightarrow> k \<in> set cs"
      using children_spenders [OF "2.prems"(1) hash [symmetric]] by blast
    let ?cs = "if fRec then cs else []"
    have if_cs: "(if fRec then pool_children Hash pool hash [0 ..< length (vout (entry_tx e))] else Some []) = Some ?cs"
      using cs(1) by simp
    have q: "k \<in> set (queue @ ?cs)"
      if "fRec" "tx \<in> insert (entry_tx e) R" "tx_of ?pool k = Some e'" "spends_from Hash e' tx" for k e' tx
      using that cs(2) "2.prems"(2) [OF that(1) _ _ that(4)] by (auto simp: tx_of_erase split: if_splits)
    obtain pool' gone where r: "remove_loop Hash fRec (queue @ ?cs) ?pool (removed @ [entry_tx e]) = Some (pool', (removed @ [entry_tx e]) @ gone)"
      "pool_inv Hash pool'" "subpool pool' ?pool" "\<forall>k \<in> set (queue @ ?cs). tx_of pool' k = None"
      "fRec \<longrightarrow> (\<forall>tx \<in> insert (entry_tx e) R \<union> set gone. \<forall>k e. tx_of pool' k = Some e \<longrightarrow> \<not> spends_from Hash e tx)"
      "mapDeltas pool' = mapDeltas ?pool"
      "\<forall>k e. tx_of ?pool k = Some e \<longrightarrow> tx_of pool' k = None \<longrightarrow> entry_tx e \<in> set gone"
      using "2.IH"(2) [OF Some if_cs erase_entry_inv [OF "2.prems"(1) Some], of "insert (entry_tx e) R"] q by blast
    have "tx_of pool' hash = None" by (rule subpool_None(1) [OF r(3)]) (simp add: tx_of_erase)
    moreover have "\<forall>k e'. tx_of pool k = Some e' \<longrightarrow> tx_of pool' k = None \<longrightarrow> e' = e \<or> entry_tx e' \<in> set gone"
    proof (intro allI impI)
      fix k e' assume k: "tx_of pool k = Some e'" "tx_of pool' k = None"
      then show "e' = e \<or> entry_tx e' \<in> set gone" using r(7) [rule_format, of k e'] Some by (cases "k = hash") (simp_all add: tx_of_erase)
    qed
    ultimately show ?thesis
      using Some if_cs r(1,2,4,5,6) subpool_trans [OF r(3) subpool_erase]
      by (intro exI [of _ pool'] exI [of _ "entry_tx e # gone"]) (auto simp: erase_entry_def)
  qed
qed

text \<open>Entries outside a set that is closed under spending stay.\<close>

lemma pool_children_sound:
  assumes "pool_inv Hash pool"
  shows "pool_children Hash pool hash is = Some cs \<Longrightarrow> k \<in> set cs \<Longrightarrow>
    \<exists>e i. i \<in> set is \<and> tx_of pool k = Some e \<and> \<lparr>outpoint_hash = hash, outpoint_n = of_nat i\<rparr> \<in> set (entry_inputs e)"
proof (induction "is" arbitrary: cs)
  case (Cons i "is")
  let ?out = "\<lparr>outpoint_hash = hash, outpoint_n = of_nat i\<rparr> :: COutPoint"
  show ?case
  proof (cases "next_of pool ?out")
    case None
    then show ?thesis using Cons by fastforce
  next
    case (Some p)
    obtain e where e: "tx_of pool (inpoint_ptx p) = Some e" "inpoint_n p < length (vin (entry_tx e))" "entry_inputs e ! inpoint_n p = ?out"
      using pool_invD(3) [OF assms Some] by blast
    have "?out \<in> set (entry_inputs e)" using e(2) by (simp add: e(3) [symmetric] entry_inputs_def)
    moreover have "spender_hash Hash pool p = Some (inpoint_ptx p)"
      using e pool_invD(2) [OF assms e(1)] by (simp add: spender_hash_def)
    ultimately show ?thesis using Cons Some e(1) by (fastforce simp: bind_eq_Some_conv)
  qed
qed simp

lemma children_spend:
  assumes "pool_inv Hash pool" "pool_children Hash pool (GetHash Hash tx) [0 ..< length (vout tx)] = Some cs" "k \<in> set cs"
  shows "\<exists>e. tx_of pool k = Some e \<and> spends_from Hash e tx"
  using pool_children_sound [OF assms] unfolding spends_from_def list_ex_iff by blast

lemma remove_loop_keeps:
  "pool_inv Hash pool \<Longrightarrow> set queue \<subseteq> D \<Longrightarrow>
   (\<And>h e k e'. fRec \<Longrightarrow> h \<in> D \<Longrightarrow> tx_of pool h = Some e \<Longrightarrow> tx_of pool k = Some e' \<Longrightarrow> spends_from Hash e' (entry_tx e) \<Longrightarrow> k \<in> D) \<Longrightarrow>
   remove_loop Hash fRec queue pool removed = Some (pool', removed') \<Longrightarrow> k \<notin> D \<Longrightarrow> tx_of pool' k = tx_of pool k"
proof (induction Hash fRec queue pool removed rule: remove_loop.induct)
  case (1 Hash fRec pool removed)
  then show ?case by simp
next
  case (2 Hash fRec hash queue pool removed)
  show ?case
  proof (cases "tx_of pool hash")
    case None
    have r: "remove_loop Hash fRec queue pool removed = Some (pool', removed')" using "2.prems"(4) None by simp
    have q: "set queue \<subseteq> D" using "2.prems"(2) by simp
    show ?thesis by (rule "2.IH"(1) [OF None "2.prems"(1) q "2.prems"(3) r "2.prems"(5)])
  next
    case (Some e)
    note hash = pool_invD(2) [OF "2.prems"(1) Some]
    obtain cs where cs: "(if fRec then pool_children Hash pool hash [0 ..< length (vout (entry_tx e))] else Some []) = Some cs"
      "remove_loop Hash fRec (queue @ cs) (erase_entry hash e pool) (removed @ [entry_tx e]) = Some (pool', removed')"
      using "2.prems"(4) Some by (auto split: option.splits)
    have "set cs \<subseteq> D"
    proof
      fix h assume h: "h \<in> set cs"
      then have r: fRec using cs(1) by (cases fRec) auto
      then obtain e' where "tx_of pool h = Some e'" "spends_from Hash e' (entry_tx e)"
        using children_spend [OF "2.prems"(1) _ h, of "entry_tx e"] cs(1) hash by auto
      then show "h \<in> D" using "2.prems"(3) [OF r _ Some] "2.prems"(2) by auto
    qed
    then have q: "set (queue @ cs) \<subseteq> D" using "2.prems"(2) by simp
    have step: "k' \<in> D" if "fRec" "h \<in> D" "tx_of (erase_entry hash e pool) h = Some e1" "tx_of (erase_entry hash e pool) k' = Some e'"
      "spends_from Hash e' (entry_tx e1)" for h e1 k' e'
      using that "2.prems"(3) [OF that(1,2) _ _ that(5)] by (simp add: tx_of_erase split: if_splits)
    have "tx_of pool' k = tx_of (erase_entry hash e pool) k"
      by (rule "2.IH"(2) [OF Some cs(1) erase_entry_inv [OF "2.prems"(1) Some] q step cs(2) "2.prems"(5)])
    then show ?thesis using "2.prems"(2,5) by (auto simp: tx_of_erase)
  qed
qed

text \<open>The transactions that descend from a transaction: it, and those that spend an output of a descendant.\<close>

inductive descends :: "(bytes \<Rightarrow> uint256) \<Rightarrow> 'd CTxMemPool \<Rightarrow> CTransaction \<Rightarrow> uint256 \<Rightarrow> bool"
  for Hash :: "bytes \<Rightarrow> uint256" and pool :: "'d CTxMemPool" and tx :: CTransaction where
  descends_root: "descends Hash pool tx (GetHash Hash tx)"
| descends_child: "tx_of pool k = Some e \<Longrightarrow> spends_from Hash e tx \<Longrightarrow> descends Hash pool tx k"
| descends_step: "descends Hash pool tx h \<Longrightarrow> tx_of pool h = Some e \<Longrightarrow> tx_of pool k = Some e' \<Longrightarrow> spends_from Hash e' (entry_tx e) \<Longrightarrow>
    descends Hash pool tx k"

lemma pool_remove_spec:
  assumes inv: "pool_inv Hash pool"
  shows "\<exists>pool' gone. pool_remove Hash fRec tx (pool, removed) = Some (pool', removed @ gone) \<and> pool_inv Hash pool' \<and> subpool pool' pool \<and>
    mapDeltas pool' = mapDeltas pool \<and> tx_of pool' (GetHash Hash tx) = None \<and>
    (fRec \<longrightarrow> pool_lookup pool (GetHash Hash tx) \<in> {None, Some tx} \<longrightarrow>
     (\<forall>k. tx_of pool' k = (if descends Hash pool tx k then None else tx_of pool k))) \<and>
    (\<not> fRec \<longrightarrow> tx_of pool' = (tx_of pool)(GetHash Hash tx := None))"
proof -
  let ?hash = "GetHash Hash tx"
  let ?c = "fRec \<and> tx_of pool ?hash = None"
  let ?R = "if ?c then {tx} else {}"
  obtain cs0 where cs0: "pool_children Hash pool ?hash [0 ..< length (vout tx)] = Some cs0"
    "\<And>k e. tx_of pool k = Some e \<Longrightarrow> spends_from Hash e tx \<Longrightarrow> k \<in> set cs0"
    using children_spenders [OF inv refl] by blast
  define cs where "cs = (if ?c then cs0 else [])"
  define D where "D = {k. if fRec then descends Hash pool tx k else k = ?hash}"
  have cs: "k \<in> set (?hash # cs)" if "fRec" "t \<in> ?R" "tx_of pool k = Some e" "spends_from Hash e t" for k e t
    using that cs0(2) by (auto simp: cs_def split: if_splits)
  obtain pool' gone where r: "remove_loop Hash fRec (?hash # cs) pool removed = Some (pool', removed @ gone)"
    and inv': "pool_inv Hash pool'" and sub: "subpool pool' pool" and queued: "\<forall>k \<in> set (?hash # cs). tx_of pool' k = None"
    and no: "fRec \<longrightarrow> (\<forall>t \<in> ?R \<union> set gone. \<forall>k e. tx_of pool' k = Some e \<longrightarrow> \<not> spends_from Hash e t)"
    and deltas: "mapDeltas pool' = mapDeltas pool"
    and gone: "\<forall>k e. tx_of pool k = Some e \<longrightarrow> tx_of pool' k = None \<longrightarrow> entry_tx e \<in> set gone"
    using remove_loop_spec [where R = ?R and fRec = fRec and queue = "?hash # cs" and removed = removed, OF inv] cs by blast
  have "set cs \<subseteq> D"
    using children_spend [OF inv cs0(1)] by (auto simp: cs_def D_def intro: descends_child)
  then have q: "set (?hash # cs) \<subseteq> D" by (simp add: D_def descends_root)
  have keep: "tx_of pool' k = tx_of pool k" if "k \<notin> D" for k
    by (rule remove_loop_keeps [OF inv q _ r that]) (auto simp: D_def intro: descends_step)
  have same_entry: "tx_of pool' k = None \<or> tx_of pool' k = tx_of pool k" for k
    using sub by (auto simp: subpool_def map_le_def dom_def)
  have "tx_of pool' k = None" if "descends Hash pool tx k" and same: "fRec" "pool_lookup pool ?hash \<in> {None, Some tx}" for k
    using that(1)
  proof induction
    case descends_root
    then show ?case using queued by simp
  next
    case (descends_child k e)
    have "tx \<in> ?R \<union> set gone"
      using gone [rule_format, of ?hash] same queued by (cases "tx_of pool ?hash") (auto simp: pool_lookup_def)
    then show ?case using no descends_child same(1) same_entry [of k] by metis
  next
    case (descends_step h e k e')
    then have "entry_tx e \<in> set gone" using gone by blast
    then show ?case using no descends_step same(1) same_entry [of k] by (metis UnI2)
  qed
  then have "tx_of pool' k = (if descends Hash pool tx k then None else tx_of pool k)"
    if "fRec" "pool_lookup pool ?hash \<in> {None, Some tx}" for k
    using that keep [of k] by (auto simp: D_def)
  moreover have "tx_of pool' = (tx_of pool)(?hash := None)" if "\<not> fRec"
    using that keep queued by (auto simp: D_def fun_eq_iff)
  moreover have first: "(if ?c then pool_children Hash pool ?hash [0 ..< length (vout tx)] else Some []) = Some cs"
    using cs0(1) by (simp add: cs_def)
  have "pool_remove Hash fRec tx (pool, removed) = Some (pool', removed @ gone)"
    unfolding pool_remove_def Let_def prod.case first bind.bind_lunit by (rule r)
  moreover have "tx_of pool' ?hash = None" using queued by simp
  ultimately show ?thesis using inv' sub deltas by blast
qed

section \<open>Conflicts and blocks\<close>

lemma subpool_gone:
  assumes "pool_inv Hash pool'" "subpool pool' pool" "next_of pool out = Some p" "tx_of pool' (inpoint_ptx p) = None"
  shows "next_of pool' out = None"
proof (rule ccontr)
  assume "next_of pool' out \<noteq> None"
  then have "next_of pool' out = Some p" using assms(2,3) by (auto simp: subpool_def map_le_def dom_def)
  then show False using pool_invD(3) [OF assms(1)] assms(4) by fastforce
qed

lemma removeConflicts_loop_spec:
  "pool_inv Hash pool \<Longrightarrow>
   \<exists>pool' gone. removeConflicts_loop Hash tx ins (pool, removed) = Some (pool', removed @ gone) \<and> pool_inv Hash pool' \<and> subpool pool' pool \<and>
     mapDeltas pool' = mapDeltas pool \<and>
     (\<forall>txin \<in> set ins. \<forall>p. next_of pool' (prevout txin) = Some p \<longrightarrow> inpoint_ptx p = GetHash Hash tx)"
proof (induction ins arbitrary: pool removed)
  case (Cons txin ins)
  show ?case
  proof (cases "next_of pool (prevout txin)")
    case None
    obtain pool' gone where r: "removeConflicts_loop Hash tx ins (pool, removed) = Some (pool', removed @ gone)" "pool_inv Hash pool'"
      "subpool pool' pool" "mapDeltas pool' = mapDeltas pool"
      "\<forall>txin \<in> set ins. \<forall>p. next_of pool' (prevout txin) = Some p \<longrightarrow> inpoint_ptx p = GetHash Hash tx"
      using Cons.IH [OF Cons.prems] by blast
    then show ?thesis using None subpool_None(2) [OF r(3) None] by auto
  next
    case (Some p)
    obtain e where e: "tx_of pool (inpoint_ptx p) = Some e" using pool_invD(3) [OF Cons.prems Some] by blast
    have key: "GetHash Hash (entry_tx e) = inpoint_ptx p" by (rule pool_invD(2) [OF Cons.prems e])
    show ?thesis
    proof (cases "GetHash Hash (entry_tx e) = GetHash Hash tx")
      case True
      obtain pool' gone where r: "removeConflicts_loop Hash tx ins (pool, removed) = Some (pool', removed @ gone)" "pool_inv Hash pool'"
        "subpool pool' pool" "mapDeltas pool' = mapDeltas pool"
        "\<forall>txin \<in> set ins. \<forall>p. next_of pool' (prevout txin) = Some p \<longrightarrow> inpoint_ptx p = GetHash Hash tx"
        using Cons.IH [OF Cons.prems] by blast
      have "next_of pool' (prevout txin) \<in> {None, Some p}" using r(3) Some by (auto simp: subpool_def map_le_def dom_def)
      then show ?thesis using Some e True r key by auto
    next
      case False
      obtain pool1 gone1 where r1: "pool_remove Hash True (entry_tx e) (pool, removed) = Some (pool1, removed @ gone1)" "pool_inv Hash pool1"
        "subpool pool1 pool" "mapDeltas pool1 = mapDeltas pool" "tx_of pool1 (inpoint_ptx p) = None"
        using pool_remove_spec [OF Cons.prems, of True "entry_tx e" removed] unfolding key by blast
      obtain pool' gone where r: "removeConflicts_loop Hash tx ins (pool1, removed @ gone1) = Some (pool', (removed @ gone1) @ gone)" "pool_inv Hash pool'"
        "subpool pool' pool1" "mapDeltas pool' = mapDeltas pool1"
        "\<forall>txin \<in> set ins. \<forall>p. next_of pool' (prevout txin) = Some p \<longrightarrow> inpoint_ptx p = GetHash Hash tx"
        using Cons.IH [OF r1(2)] by blast
      have "next_of pool' (prevout txin) = None"
        using subpool_None(2) [OF r(3) subpool_gone [OF r1(2,3) Some r1(5)]] .
      then show ?thesis using Some e False r r1 subpool_trans [OF r(3) r1(3)] by auto
    qed
  qed
qed auto

lemma removeConflicts_spec:
  assumes "pool_inv Hash pool"
  shows "\<exists>pool' gone. removeConflicts Hash tx (pool, removed) = Some (pool', removed @ gone) \<and> pool_inv Hash pool' \<and> subpool pool' pool \<and>
     mapDeltas pool' = mapDeltas pool \<and>
     (\<forall>txin \<in> set (vin tx). \<forall>p. next_of pool' (prevout txin) = Some p \<longrightarrow> inpoint_ptx p = GetHash Hash tx)"
  unfolding removeConflicts_def by (rule removeConflicts_loop_spec [OF assms])

lemma ClearPrioritisation_simps [simp]:
  "mapTx (ClearPrioritisation h pool) = mapTx pool" "mapNextTx (ClearPrioritisation h pool) = mapNextTx pool"
  "totalTxSize (ClearPrioritisation h pool) = totalTxSize pool"
  "map_of (mapDeltas (ClearPrioritisation h pool)) k = (if k = h then None else map_of (mapDeltas pool) k)"
  by (simp_all add: ClearPrioritisation_def delete_conv')

text \<open>Nothing of a transaction is left: not the transaction, no other that spends one of its inputs, no priority.\<close>

definition cleared_of :: "(bytes \<Rightarrow> uint256) \<Rightarrow> 'd CTxMemPool \<Rightarrow> CTransaction \<Rightarrow> bool" where
  "cleared_of Hash pool tx \<longleftrightarrow>
     \<not> pool_exists pool (GetHash Hash tx) \<and> list_all (\<lambda>txin. next_of pool (prevout txin) = None) (vin tx) \<and>
     map_of (mapDeltas pool) (GetHash Hash tx) = None"

lemma removeForBlock_loop_spec:
  "pool_inv Hash pool \<Longrightarrow>
   \<exists>pool' gone. removeForBlock_loop Hash txs (pool, removed) = Some (pool', removed @ gone) \<and> pool_inv Hash pool' \<and> subpool pool' pool \<and>
     map_of (mapDeltas pool') \<subseteq>\<^sub>m map_of (mapDeltas pool) \<and> (\<forall>tx \<in> set txs. cleared_of Hash pool' tx)"
proof (induction txs arbitrary: pool removed)
  case (Cons tx txs)
  let ?hash = "GetHash Hash tx"
  obtain pool1 gone1 where r1: "pool_remove Hash False tx (pool, []) = Some (pool1, gone1)" "pool_inv Hash pool1"
    "subpool pool1 pool" "mapDeltas pool1 = mapDeltas pool" "tx_of pool1 ?hash = None"
    using pool_remove_spec [OF Cons.prems, of False tx "[]"] by auto
  obtain pool2 gone2 where r2: "removeConflicts Hash tx (pool1, removed) = Some (pool2, removed @ gone2)" "pool_inv Hash pool2"
    "subpool pool2 pool1" "mapDeltas pool2 = mapDeltas pool1"
    "\<forall>txin \<in> set (vin tx). \<forall>p. next_of pool2 (prevout txin) = Some p \<longrightarrow> inpoint_ptx p = ?hash"
    using removeConflicts_spec [OF r1(2)] by blast
  let ?pool2 = "ClearPrioritisation ?hash pool2"
  have inv: "pool_inv Hash ?pool2" using r2(2) pool_inv_cong [of ?pool2 pool2 Hash] by simp
  obtain pool' gone where r: "removeForBlock_loop Hash txs (?pool2, removed @ gone2) = Some (pool', (removed @ gone2) @ gone)" "pool_inv Hash pool'"
    "subpool pool' ?pool2" "map_of (mapDeltas pool') \<subseteq>\<^sub>m map_of (mapDeltas ?pool2)" "\<forall>tx \<in> set txs. cleared_of Hash pool' tx"
    using Cons.IH [OF inv] by blast
  have sub2: "subpool ?pool2 pool2" by (simp add: subpool_def)
  have gone2: "tx_of pool2 ?hash = None" by (rule subpool_None(1) [OF r2(3) r1(5)])
  have free: "next_of pool2 (prevout txin) = None" if "txin \<in> set (vin tx)" for txin
    using r2(5) that pool_invD(3) [OF r2(2)] gone2 by (metis not_None_eq)
  have "map_of (mapDeltas pool') ?hash = None"
  proof -
    have "?hash \<notin> dom (map_of (mapDeltas ?pool2))" by (simp add: domIff)
    then have "?hash \<notin> dom (map_of (mapDeltas pool'))" using map_le_implies_dom_le [OF r(4)] by blast
    then show ?thesis by (metis domIff)
  qed
  then have "cleared_of Hash pool' tx"
    using subpool_None [OF subpool_trans [OF r(3) sub2]] gone2 free by (simp add: cleared_of_def pool_exists_def list_all_iff)
  moreover have "map_of (mapDeltas pool') \<subseteq>\<^sub>m map_of (mapDeltas pool)"
    using r(4) r1(4) r2(4) by (auto simp: map_le_def dom_def split: if_splits)
  moreover have "subpool pool' pool"
    by (rule subpool_trans [OF r(3) subpool_trans [OF sub2 subpool_trans [OF r2(3) r1(3)]]])
  ultimately show ?case using r1(1) r2(1) r(1,2,5) by auto
qed auto

lemma removeForBlock_spec:
  assumes "pool_inv Hash pool"
  shows "\<exists>entries pool' gone. removeForBlock Hash txs (pool, removed) = Some (entries, pool', removed @ gone) \<and> pool_inv Hash pool' \<and>
     subpool pool' pool \<and> map_of (mapDeltas pool') \<subseteq>\<^sub>m map_of (mapDeltas pool) \<and> (\<forall>tx \<in> set txs. cleared_of Hash pool' tx)"
proof -
  obtain pool' gone where "removeForBlock_loop Hash txs (pool, removed) = Some (pool', removed @ gone)" "pool_inv Hash pool'" "subpool pool' pool"
     "map_of (mapDeltas pool') \<subseteq>\<^sub>m map_of (mapDeltas pool)" "\<forall>tx \<in> set txs. cleared_of Hash pool' tx"
    using removeForBlock_loop_spec [OF assms] by blast
  then show ?thesis by (simp add: removeForBlock_def)
qed

section \<open>Coinbase spends\<close>

lemma remove_all_spec:
  "pool_inv Hash pool \<Longrightarrow>
   \<exists>pool'. remove_all Hash txs pool = Some pool' \<and> pool_inv Hash pool' \<and> subpool pool' pool \<and>
     (\<forall>tx \<in> set txs. tx_of pool' (GetHash Hash tx) = None)"
proof (induction txs arbitrary: pool)
  case (Cons tx txs)
  obtain pool1 gone where r1: "pool_remove Hash True tx (pool, []) = Some (pool1, gone)" "pool_inv Hash pool1" "subpool pool1 pool"
    "tx_of pool1 (GetHash Hash tx) = None"
    using pool_remove_spec [OF Cons.prems, of True tx "[]"] by auto
  obtain pool' where r: "remove_all Hash txs pool1 = Some pool'" "pool_inv Hash pool'" "subpool pool' pool1"
    "\<forall>tx \<in> set txs. tx_of pool' (GetHash Hash tx) = None"
    using Cons.IH [OF r1(2)] by blast
  then show ?case using r1 subpool_None(1) [OF r(3) r1(4)] subpool_trans [OF r(3) r1(3)] by auto
qed simp

lemma spends_immature_total: "spends_immature False P B pool h ins c \<noteq> None"
  by (induction ins arbitrary: c) (auto split: prod.splits option.splits)

lemma immature_spenders_total: "immature_spenders False P B pool h txs c \<noteq> None"
proof (induction txs arbitrary: c)
  case (Cons tx txs)
  obtain b c1 where "spends_immature False P B pool h (vin tx) c = Some (b, c1)" using spends_immature_total by fastforce
  then show ?case using Cons.IH [of c1] by auto
qed simp

lemma removeCoinbaseSpends_spec:
  assumes "pool_inv Hash pool"
  shows "\<exists>pool' c'. removeCoinbaseSpends Hash False P B h pool c = Some (pool', c') \<and> pool_inv Hash pool' \<and> subpool pool' pool"
proof -
  obtain txs c' where "immature_spenders False P B pool h (map (\<lambda>e. entry_tx (snd e)) (sort_key fst (mapTx pool))) c = Some (txs, c')"
    using immature_spenders_total by fastforce
  then show ?thesis using remove_all_spec [OF assms, of txs] by (auto simp: removeCoinbaseSpends_def)
qed

section \<open>Reachable pools\<close>

text \<open>The states that the operations reach from the empty pool; a transaction is added only if the pool has neither
  it nor another spender of its inputs. The removal of immature coinbase spends is a sequence of removals.\<close>

inductive pool_reach :: "(bytes \<Rightarrow> uint256) \<Rightarrow> 'd::{plus,zero} CTxMemPool \<Rightarrow> bool" for Hash :: "bytes \<Rightarrow> uint256" where
  reach_new: "pool_reach Hash CTxMemPool_new"
| reach_add: "pool_reach Hash pool \<Longrightarrow> addable Hash pool hash e \<Longrightarrow> pool_reach Hash (addUnchecked hash e pool)"
| reach_remove: "pool_reach Hash pool \<Longrightarrow> pool_remove Hash fRec tx (pool, removed) = Some (pool', removed') \<Longrightarrow> pool_reach Hash pool'"
| reach_conflicts: "pool_reach Hash pool \<Longrightarrow> removeConflicts Hash tx (pool, removed) = Some (pool', removed') \<Longrightarrow> pool_reach Hash pool'"
| reach_block: "pool_reach Hash pool \<Longrightarrow> removeForBlock Hash txs (pool, removed) = Some (entries, pool', removed') \<Longrightarrow> pool_reach Hash pool'"
| reach_clear: "pool_reach Hash pool \<Longrightarrow> pool_reach Hash (pool_clear pool)"
| reach_prioritise: "pool_reach Hash pool \<Longrightarrow> pool_reach Hash (PrioritiseTransaction hash d f pool)"
| reach_unprioritise: "pool_reach Hash pool \<Longrightarrow> pool_reach Hash (ClearPrioritisation hash pool)"
| reach_updated: "pool_reach Hash pool \<Longrightarrow> pool_reach Hash (AddTransactionsUpdated n pool)"

lemma pool_reach_inv: "pool_reach Hash pool \<Longrightarrow> pool_inv Hash pool"
proof (induction rule: pool_reach.induct)
  case (reach_remove pool fRec tx removed pool' removed')
  then show ?case using pool_remove_spec [of Hash pool fRec tx removed] by auto
next
  case (reach_conflicts pool tx removed pool' removed')
  then show ?case using removeConflicts_spec [of Hash pool tx removed] by auto
next
  case (reach_block pool txs removed entries pool' removed')
  then show ?case using removeForBlock_spec [of Hash pool txs removed] by auto
next
  case (reach_prioritise pool hash d f)
  then show ?case using pool_inv_cong [of "PrioritiseTransaction hash d f pool" pool Hash] by (simp add: PrioritiseTransaction_def Let_def)
next
  case (reach_unprioritise pool hash)
  then show ?case using pool_inv_cong [of "ClearPrioritisation hash pool" pool Hash] by simp
next
  case (reach_updated pool n)
  then show ?case using pool_inv_cong [of "AddTransactionsUpdated n pool" pool Hash] by (simp add: AddTransactionsUpdated_def)
qed (simp_all add: pool_inv_new pool_inv_clear addUnchecked_inv)

lemma remove_all_reach: "remove_all Hash txs pool = Some pool' \<Longrightarrow> pool_reach Hash pool \<Longrightarrow> pool_reach Hash pool'"
  by (induction txs arbitrary: pool) (auto simp: bind_eq_Some_conv intro: reach_remove)

lemma removeCoinbaseSpends_reach:
  "removeCoinbaseSpends Hash fSanity P B h pool c = Some (pool', c') \<Longrightarrow> pool_reach Hash pool \<Longrightarrow> pool_reach Hash pool'"
  by (auto simp: removeCoinbaseSpends_def bind_eq_Some_conv intro: remove_all_reach)

text \<open>C34: Every pool that its operations reach is well formed: its keys are the hashes of its transactions, the index of
  spent outputs holds exactly the inputs of its transactions, so no two of them spend the same output, and the byte
  count is the sum of the sizes modulo 2^64. So no operation on it follows a dangling pointer: each of them returns.\<close>

theorem pool_well_formed:
  assumes "pool_reach Hash pool"
  shows "pool_inv Hash pool \<and> pool_remove Hash fRec tx (pool, removed) \<noteq> None \<and> removeConflicts Hash tx (pool, removed) \<noteq> None \<and>
    removeForBlock Hash txs (pool, removed) \<noteq> None \<and> removeCoinbaseSpends Hash False P B h pool c \<noteq> None"
  using pool_remove_spec [OF pool_reach_inv [OF assms], of fRec tx removed] removeConflicts_spec [OF pool_reach_inv [OF assms], of tx removed]
    removeForBlock_spec [OF pool_reach_inv [OF assms], of txs removed] removeCoinbaseSpends_spec [OF pool_reach_inv [OF assms], of P B h c]
    pool_reach_inv [OF assms] by auto

text \<open>C35: A recursive removal from a reachable pool removes exactly the transaction and its descendants, also when the
  transaction itself is not in the pool (it comes from a block that is disconnected), and leaves the other entries as they are.\<close>

theorem pool_remove_descendants:
  assumes "pool_reach Hash pool" "pool_lookup pool (GetHash Hash tx) \<in> {None, Some tx}"
  shows "\<exists>pool' gone. pool_remove Hash True tx (pool, removed) = Some (pool', removed @ gone) \<and>
    map_of (mapTx pool') = (\<lambda>k. if descends Hash pool tx k then None else map_of (mapTx pool) k)"
  using pool_remove_spec [OF pool_reach_inv [OF assms(1)], of True tx removed] assms(2) by (auto simp: fun_eq_iff)

text \<open>After the transactions of a block have been removed from a reachable pool, the pool has none of them, nothing that
  spends an output that they spend, and no priority for them; what is left was there before.\<close>

theorem removeForBlock_clears:
  assumes "pool_reach Hash pool"
  shows "\<exists>entries pool' gone. removeForBlock Hash txs (pool, removed) = Some (entries, pool', removed @ gone) \<and>
    list_all (cleared_of Hash pool') txs \<and> map_of (mapTx pool') \<subseteq>\<^sub>m map_of (mapTx pool)"
  using removeForBlock_spec [OF pool_reach_inv [OF assms], of txs removed] by (auto simp: subpool_def list_all_iff)

section \<open>An example\<close>

text \<open>A transaction, another that spends its first output, and a third that is in conflict with the first; the hash of a transaction is its size.\<close>

definition pool_demo_tx :: "uint256 \<Rightarrow> bytes \<Rightarrow> CTransaction" where
  "pool_demo_tx h s = \<lparr>nVersion = 1, vin = [\<lparr>prevout = \<lparr>outpoint_hash = h, outpoint_n = 0\<rparr>, scriptSig = s, nSequence = 0\<rparr>],
     vout = [\<lparr>nValue = 12, scriptPubKey = []\<rparr>], nLockTime = 0, blob = []\<rparr>"

abbreviation demo_parent :: CTransaction where "demo_parent \<equiv> pool_demo_tx 7 []"
abbreviation demo_child :: CTransaction where "demo_child \<equiv> pool_demo_tx 1061 [OP_1]"
abbreviation demo_rival :: CTransaction where "demo_rival \<equiv> pool_demo_tx 7 [OP_1, OP_1]"

definition demo_pool :: "int CTxMemPool" where
  "demo_pool = addUnchecked 1062 (CTxMemPoolEntry_new demo_child 1 0 0 5) (addUnchecked 1061 (CTxMemPoolEntry_new demo_parent 1 0 0 5) CTxMemPool_new)"

lemma pool_demo_hashes:
  "GetHash size_hash demo_parent = 1061" "GetHash size_hash demo_child = 1062" "GetHash size_hash demo_rival = 1063"
  by (simp_all add: GetHash_def size_hash_def pool_demo_tx_def tx_size_simps)

lemma demo_pool_reach: "pool_reach size_hash demo_pool"
  unfolding demo_pool_def
proof (intro reach_add reach_new)
  show "addable size_hash (CTxMemPool_new :: int CTxMemPool) 1061 (CTxMemPoolEntry_new demo_parent 1 0 0 5)"
    using pool_demo_hashes
    by (simp add: addable_def CTxMemPoolEntry_new_def entry_inputs_def pool_exists_def CTxMemPool_new_def) (simp add: pool_demo_tx_def)
  show "addable size_hash (addUnchecked 1061 (CTxMemPoolEntry_new demo_parent 1 0 0 5) (CTxMemPool_new :: int CTxMemPool)) 1062
     (CTxMemPoolEntry_new demo_child 1 0 0 5)"
    using pool_demo_hashes
    by (simp add: addable_def CTxMemPoolEntry_new_def entry_inputs_def pool_exists_def CTxMemPool_new_def addUnchecked_def Let_def) (simp add: pool_demo_tx_def)
qed

lemma demo_pool_tx: "map_of (mapTx demo_pool) =
    [1061 \<mapsto> CTxMemPoolEntry_new demo_parent 1 0 0 5, 1062 \<mapsto> CTxMemPoolEntry_new demo_child 1 0 0 5]"
  by (simp add: demo_pool_def addUnchecked_def CTxMemPool_new_def Let_def fun_eq_iff)

lemma demo_pool_lookup:
  "map_option entry_tx (map_of (mapTx demo_pool) 1061) = Some demo_parent" "map_option entry_tx (map_of (mapTx demo_pool) 1062) = Some demo_child"
  by (simp_all add: demo_pool_tx CTxMemPoolEntry_new_def)

lemma demo_child_descends: "descends size_hash demo_pool demo_parent 1062"
proof (rule descends_child)
  show "map_of (mapTx demo_pool) 1062 = Some (CTxMemPoolEntry_new demo_child 1 0 0 5)" by (simp add: demo_pool_tx)
  show "spends_from size_hash (CTxMemPoolEntry_new demo_child 1 0 0 5) demo_parent"
    unfolding spends_from_def pool_demo_hashes by (simp add: entry_inputs_def CTxMemPoolEntry_new_def pool_demo_tx_def)
qed

theorem pool_well_formed_witness: "pool_inv size_hash demo_pool \<and> pool_remove size_hash True demo_parent (demo_pool, []) \<noteq> None"
  using pool_well_formed [OF demo_pool_reach, of True demo_parent "[]"] by blast

theorem pool_remove_descendants_witness:
  "\<exists>pool' gone. pool_remove size_hash True demo_parent (demo_pool, []) = Some (pool', gone) \<and>
    map_of (mapTx pool') 1061 = None \<and> map_of (mapTx pool') 1062 = None"
  using pool_remove_descendants [OF demo_pool_reach, of demo_parent "[]"] demo_pool_lookup demo_child_descends
    descends_root [of size_hash demo_pool demo_parent]
  unfolding pool_demo_hashes pool_lookup_def by auto

theorem removeForBlock_clears_witness:
  "\<exists>entries pool' gone. removeForBlock size_hash [demo_rival] (demo_pool, []) = Some (entries, pool', gone) \<and>
    map_of (mapNextTx pool') \<lparr>outpoint_hash = 7, outpoint_n = 0\<rparr> = None"
  using removeForBlock_clears [OF demo_pool_reach, of "[demo_rival]" "[]"] by (auto simp: cleared_of_def pool_demo_tx_def)

end
