(* ===== verification/Mempool_Accept_Props.thy ===== *)
theory Mempool_Accept_Props
  imports Mempool_Accept Mempool_Props Check_Inputs_Props
begin

text \<open>
  What the memory pool admits: a transaction that is valid on the coins of the tip together with those that the
  transactions of the pool create, and in conflict with none of them.
\<close>

section \<open>A view that is cut off\<close>

text \<open>A view that has the inputs answers from its cache, whatever is below.\<close>

definition has_coins :: "'v CCoinsViewCache \<Rightarrow> CTxIn \<Rightarrow> bool" where
  "has_coins c txin \<longleftrightarrow> map_of (cacheCoins c) (outpoint_hash (prevout txin)) \<noteq> None"

lemma AccessCoins_cached:
  assumes "has_coins c txin"
  obtains co where "\<And>B. AccessCoins B c (outpoint_hash (prevout txin)) = (Some co, c)"
  using assms by (auto simp: has_coins_def AccessCoins_def FetchCoins_def)

lemma GetOutputFor_cached:
  assumes "has_coins c txin"
  shows "GetOutputFor B c txin = GetOutputFor D c txin" "snd (GetOutputFor B c txin) = c"
  using assms by (auto elim!: AccessCoins_cached simp: GetOutputFor_def)

lemma have_inputs_cached: "list_all (has_coins c) ins \<Longrightarrow> have_inputs_loop B c ins = have_inputs_loop D c ins \<and> snd (have_inputs_loop B c ins) = c"
  by (induction ins) (auto elim!: AccessCoins_cached)

lemma inputs_loop_cached:
  "list_all (has_coins c) ins \<Longrightarrow>
   inputs_loop P B h ins acc c = inputs_loop P D h ins acc c \<and> (\<forall>r c'. inputs_loop P B h ins acc c = Some (r, c') \<longrightarrow> c' = c)"
  by (induction ins arbitrary: acc) (auto elim!: AccessCoins_cached simp: Let_def split: if_splits)

lemma scripts_loop_cached:
  "list_all (\<lambda>x. has_coins c (snd x)) xs \<Longrightarrow>
   scripts_loop se B tx fl store xs None c = scripts_loop se D tx fl store xs None c \<and>
   (\<forall>r pv c'. scripts_loop se B tx fl store xs None c = Some (r, pv, c') \<longrightarrow> c' = c)"
proof (induction xs)
  case (Cons x xs)
  obtain i txin where x: "x = (i, txin)" by fastforce
  obtain co where "\<And>B. AccessCoins B c (outpoint_hash (prevout txin)) = (Some co, c)"
    using Cons.prems x by (auto elim: AccessCoins_cached)
  then show ?case using Cons x by (auto split: option.splits sum.splits)
qed simp

lemma CheckInputs_cached:
  assumes "list_all (has_coins c) (vin tx)" "hashBlock c \<noteq> 0"
  shows "CheckInputs se P hof B tx st c fS fl store None = CheckInputs se P hof D tx st c fS fl store None \<and>
    (\<forall>ok st' pv c'. CheckInputs se P hof B tx st c fS fl store None = Some (ok, st', pv, c') \<longrightarrow> c' = c)"
proof -
  have b: "GetBestBlock X c = (hashBlock c, c)" for X using assms(2) by (simp add: GetBestBlock_def)
  have "list_all (\<lambda>x. has_coins c (snd x)) (zip [0 ..< length (vin tx)] (vin tx))"
    using assms(1) by (auto simp: list_all_iff dest: set_zip_rightD)
  note S = scripts_loop_cached [OF this, of se B tx fl store D]
  note H = have_inputs_cached [OF assms(1), of B D]
  obtain r where h: "have_inputs_loop B c (vin tx) = (r, c)" "have_inputs_loop D c (vin tx) = (r, c)"
    using H by (metis prod.collapse)
  have I: "inputs_loop P B n (vin tx) 0 c = inputs_loop P D n (vin tx) 0 c" "inputs_loop P D n (vin tx) 0 c = Some (x, c') \<Longrightarrow> c' = c" for n x c'
    using inputs_loop_cached [OF assms(1), of P B n 0 D] by auto
  have S2: "scripts_loop se D tx fl store (zip [0 ..< length (vin tx)] (vin tx)) None c = Some (x, pv, c') \<Longrightarrow> c' = c" for x pv c'
    using S by auto
  let ?xs = "zip [0 ..< length (vin tx)] (vin tx)"
  let ?R = "if IsCoinBase tx then Some (True, st, None, c) else if \<not> r then Some (False, Invalid st 0 '''', None, c)
      else case hof (hashBlock c) of None \<Rightarrow> None
      | Some n \<Rightarrow> (case inputs_loop P D (n + 1) (vin tx) 0 c of None \<Rightarrow> None
         | Some (x, _) \<Rightarrow> (case x of Inl r \<Rightarrow> Some (False, reject_state st r, None, c)
           | Inr v \<Rightarrow> (case fee_rejection P tx v of None \<Rightarrow> None | Some (Some r) \<Rightarrow> Some (False, reject_state st r, None, c)
              | Some None \<Rightarrow> if \<not> fS then Some (True, st, None, c)
                 else (case scripts_loop se D tx fl store ?xs None c of
                         None \<Rightarrow> None | Some (Some r, pv, _) \<Rightarrow> Some (False, reject_state st r, pv, c)
                       | Some (None, pv, _) \<Rightarrow> Some (True, st, pv, c)))))"
  have norm: "CheckInputs se P hof X tx st c fS fl store None = ?R"
    if X: "have_inputs_loop X c (vin tx) = (r, c)" "\<And>n. inputs_loop P X n (vin tx) 0 c = inputs_loop P D n (vin tx) 0 c"
      "scripts_loop se X tx fl store ?xs None c = scripts_loop se D tx fl store ?xs None c" for X
  proof (cases "\<not> IsCoinBase tx \<and> r \<and> hof (hashBlock c) \<noteq> None")
    case False
    then show ?thesis by (auto simp: CheckInputs_def HaveInputs_def X(1) b)
  next
    case True
    then obtain n where n: "hof (hashBlock c) = Some n" by blast
    show ?thesis
    proof (cases "inputs_loop P D (n + 1) (vin tx) 0 c")
      case None
      then show ?thesis using True n by (simp add: CheckInputs_def HaveInputs_def X b)
    next
      case (Some xc)
      obtain x where L: "inputs_loop P D (n + 1) (vin tx) 0 c = Some (x, c)" using Some I(2) by (cases xc) auto
      show ?thesis
      proof (cases x)
        case (Inl e)
        then show ?thesis using True n L by (simp add: CheckInputs_def HaveInputs_def X b)
      next
        case (Inr v)
        have sc: "(case scripts_loop se D tx fl store ?xs None c of
              None \<Rightarrow> None | Some (Some r, pv, c4) \<Rightarrow> Some (False, reject_state st r, pv, c4) | Some (None, pv, c4) \<Rightarrow> Some (True, st, pv, c4)) =
            (case scripts_loop se D tx fl store ?xs None c of
              None \<Rightarrow> None | Some (Some r, pv, _) \<Rightarrow> Some (False, reject_state st r, pv, c) | Some (None, pv, _) \<Rightarrow> Some (True, st, pv, c))"
          by (auto split: option.splits dest: S2)
        show ?thesis
        proof (cases "fee_rejection P tx v")
          case None
          then show ?thesis using True n L Inr by (simp add: CheckInputs_def HaveInputs_def X b)
        next
          case (Some f)
          then show ?thesis using True n L Inr by (cases f) (simp_all add: CheckInputs_def HaveInputs_def X b sc)
        qed
      qed
    qed
  qed
  have "CheckInputs se P hof B tx st c fS fl store None = ?R" by (rule norm [OF h(1) I(1) conjunct1 [OF S]])
  moreover have "CheckInputs se P hof D tx st c fS fl store None = ?R" by (rule norm [OF h(2) refl refl])
  moreover have "c' = c" if "?R = Some (ok, st', pv, c')" for ok st' pv c'
    using that by (auto split: if_splits option.splits sum.splits)
  ultimately show ?thesis by simp
qed

lemma value_in_cached: "list_all (has_coins c) ins \<Longrightarrow> snd (value_in_loop B c ins acc) = c"
proof (induction ins arbitrary: acc)
  case (Cons txin ins)
  then show ?case using GetOutputFor_cached(2) [of c txin B] by (cases "GetOutputFor B c txin") (auto split: option.splits)
qed simp

lemma p2sh_sigops_cached: "list_all (has_coins c) ins \<Longrightarrow> snd (p2sh_sigops_loop B c ins n) = c"
proof (induction ins arbitrary: n)
  case (Cons txin ins)
  then show ?case using GetOutputFor_cached(2) [of c txin B] by (cases "GetOutputFor B c txin") (auto split: option.splits)
qed simp

lemma inputs_standard_cached: "list_all (has_coins c) ins \<Longrightarrow> snd (inputs_standard_loop ctx B c ins) = c"
proof (induction ins)
  case (Cons txin ins)
  then show ?case using GetOutputFor_cached(2) [of c txin B] by (cases "GetOutputFor B c txin") (auto split: option.splits sum.splits)
qed simp

lemma priority_cached: "list_all (has_coins c) ins \<Longrightarrow> priority_loop dbl B h ins d c = Some (d', c') \<Longrightarrow> c' = c"
  by (induction ins arbitrary: d) (auto elim!: AccessCoins_cached)

lemma GetPriority_cached: "list_all (has_coins c) (vin tx) \<Longrightarrow> GetPriority dbl B tx h c = Some (d, c') \<Longrightarrow> c' = c"
  using priority_cached [of c "vin tx"] by (auto simp: GetPriority_def split: if_splits)

lemma check_fees_cached:
  "list_all (has_coins c) (vin tx) \<Longrightarrow> check_fees env B pool tx n f lf lim c = Some (r, lim', c') \<Longrightarrow> c' = c"
  using GetPriority_cached [of c tx]
  by (auto simp: check_fees_def split: if_splits option.splits bool.splits prod.splits)

text \<open>The pool after the fee rules: a mixing transaction is given priority.\<close>

definition with_bonus :: "('d::{plus,zero}, 'x) accept_env_scheme \<Rightarrow> CTransaction \<Rightarrow> 'd CTxMemPool \<Rightarrow> 'd CTxMemPool" where
  "with_bonus env tx pool =
     (if GetHash (ae_Hash env) tx \<in> set (ae_ObfuscationTxes env)
      then PrioritiseTransaction (GetHash (ae_Hash env) tx) (ae_double env 1000) 10000000 pool else pool)"

lemma fee_rules_cached:
  assumes "list_all (has_coins c) (vin tx)"
    and "fee_rules env (GetHash (ae_Hash env) tx \<in> set (ae_ObfuscationTxes env)) ign lf tx n f pool lim c = Some (r, pool', lim', c')"
  shows "c' = c \<and> pool' = with_bonus env tx pool"
  using assms check_fees_cached [OF assms(1)] by (auto simp: fee_rules_def with_bonus_def split: if_splits)

section \<open>Loading the inputs\<close>

lemma AccessCoins_grow:
  assumes "AccessCoins B c h = (r, c')"
  shows "cache_held c \<le> cache_held c' \<and> (r \<noteq> None \<longrightarrow> cache_held c' h)"
  using assms by (auto simp: AccessCoins_def FetchCoins_def cache_held_def le_fun_def Let_def split: option.splits prod.splits)

lemma has_coins_held: "has_coins c txin \<longleftrightarrow> cache_held c (outpoint_hash (prevout txin))"
  by (simp add: has_coins_def cache_held_def)

lemma have_inputs_load:
  "have_inputs_loop B c ins = (ok, c') \<Longrightarrow> cache_held c \<le> cache_held c' \<and> (ok \<longrightarrow> list_all (has_coins c') ins)"
proof (induction ins arbitrary: c)
  case (Cons txin ins)
  obtain r c1 where a: "AccessCoins B c (outpoint_hash (prevout txin)) = (r, c1)" by fastforce
  show ?case using AccessCoins_grow [OF a] Cons a
    by (auto simp: has_coins_held split: option.splits if_splits dest!: Cons.IH)
qed simp

context coins_reader
begin

lemma have_coins:
  assumes "cok c" "HaveCoins B c h = (r, c')"
  shows "cok c' \<and> ccontent c' = ccontent c \<and> cache_best best c' = cache_best best c"
proof -
  obtain e c1 where "FetchCoins B c h = (e, c1)" by fastforce
  then show ?thesis using fetch [OF assms(1)] assms(2) by (auto simp: HaveCoins_def split: option.splits)
qed

lemma have_all:
  "cok c \<Longrightarrow> have_all_coins B ins c = (r, c') \<Longrightarrow> cok c' \<and> ccontent c' = ccontent c \<and> cache_best best c' = cache_best best c"
proof (induction ins arbitrary: c)
  case (Cons txin ins)
  obtain r1 c1 where a: "HaveCoins B c (outpoint_hash (prevout txin)) = (r1, c1)" by fastforce
  then show ?case using have_coins [OF Cons.prems(1) a] Cons.IH [of c1] Cons.prems(2) by (auto split: bool.splits)
qed simp

lemma load_inputs_spec:
  assumes "cok c" "load_inputs B hash tx st c = Some (r, c')" "\<not> IsCoinBase tx"
  shows "cok c' \<and> ccontent c' = ccontent c \<and> cache_best best c' = cache_best best c \<and>
    (\<forall>v. r = Inr v \<longrightarrow> list_all (has_coins c') (vin tx) \<and> hashBlock c' = cache_best best c)"
proof -
  obtain r1 c1 where s1: "HaveCoins B c hash = (r1, c1)" by fastforce
  obtain r2 c2 where s2: "have_all_coins B (vin tx) c1 = (r2, c2)" by fastforce
  obtain r3 c3 where s3: "have_inputs_loop B c2 (vin tx) = (r3, c3)" by fastforce
  obtain h c4 where s4: "GetBestBlock B c3 = (h, c4)" by fastforce
  note f1 = have_coins [OF assms(1) s1]
  note f2 = have_all [OF conjunct1 [OF f1] s2]
  note f3 = have_inputs [OF conjunct1 [OF f2] s3] have_inputs_best [OF conjunct1 [OF f2] s3]
  note f4 = cache_get_best [OF conjunct1 [OF f3(1)] s4]
  have cc: "cacheCoins c4 = cacheCoins c3" "hashBlock c4 = h" using s4 by (auto simp: GetBestBlock_def split: if_splits prod.splits)
  have v: "snd (value_in_loop B c4 (vin tx) 0) = c4" if r3
    using value_in_cached [of c4 "vin tx"] have_inputs_load [OF s3] that by (simp add: has_coins_def [abs_def] cc)
  show ?thesis
    using assms(2,3) s1 s2 s3 s4 f1 f2 f3 f4 v cc have_inputs_load [OF s3]
    by (cases "value_in_loop B c4 (vin tx) 0")
      (auto simp: load_inputs_def HaveInputs_def GetValueIn_def has_coins_def [abs_def] split: bool.splits option.splits)
qed

end

section \<open>Admission\<close>

lemma inputs_nonstandard_cached:
  "list_all (has_coins c) (vin tx) \<Longrightarrow> inputs_nonstandard env c tx = Some (r, c') \<Longrightarrow> c' = c"
  using inputs_standard_cached [of c "vin tx" "se_ctx (ae_sig env)" dummy_view]
  by (auto simp: inputs_nonstandard_def AreInputsStandard_def split: if_splits option.splits prod.splits)

lemma too_many_cached:
  "list_all (has_coins c) (vin tx) \<Longrightarrow> too_many_tx_sigops c tx = Some (r, c') \<Longrightarrow> c' = c"
  using p2sh_sigops_cached [of c "vin tx" dummy_view 0]
  by (auto simp: too_many_tx_sigops_def GetP2SHSigOpCount_def split: if_splits option.splits prod.splits)

lemma admit_spec:
  assumes "list_all (has_coins view) (vin tx)" "hashBlock view \<noteq> 0"
    and "admit env tx st nValueIn lf insane ign pool lim view = Some r"
  shows "ar_tip r = fst (base view) \<and>
    (if ar_ok r
     then (\<exists>e. entry_tx e = tx \<and> ar_pool r = addUnchecked (GetHash (ae_Hash env) tx) e (with_bonus env tx pool)) \<and>
          (\<exists>st1 st2 pv. CheckInputs (ae_sig env) (ae_Params env) (ae_heightOf env) dummy_view tx st1 view True MANDATORY_SCRIPT_VERIFY_FLAGS True None
             = Some (True, st2, pv, view))
     else ar_pool r \<in> {pool, with_bonus env tx pool})"
proof -
  note cached = inputs_nonstandard_cached [OF assms(1)] too_many_cached [OF assms(1)] GetPriority_cached [OF assms(1)]
    conjunct2 [OF CheckInputs_cached [OF assms(1,2), where B = dummy_view and D = dummy_view], rule_format]
  obtain b1 where s1: "inputs_nonstandard env view tx = Some (b1, view)"
    using assms(3) cached(1) by (cases "inputs_nonstandard env view tx") (auto simp: admit_def Let_def)
  show ?thesis
  proof (cases b1)
    case True
    then show ?thesis using assms(3) s1 by (auto simp: admit_def Let_def)
  next
    case b1: False
    obtain b2 where s2: "too_many_tx_sigops view tx = Some (b2, view)"
      using assms(3) s1 b1 cached(2) by (cases "too_many_tx_sigops view tx") (auto simp: admit_def Let_def)
    show ?thesis
    proof (cases b2)
      case True
      then show ?thesis using assms(3) s1 b1 s2 by (auto simp: admit_def Let_def)
    next
      case b2: False
      obtain nValueOut where s3: "GetValueOut tx = Inr nValueOut"
        using assms(3) s1 b1 s2 b2 by (cases "GetValueOut tx") (auto simp: admit_def Let_def)
      obtain prio where s4: "GetPriority (ae_double env) dummy_view tx (ae_Height env) view = Some (prio, view)"
        using assms(3) s1 b1 s2 b2 s3
        by (cases "GetPriority (ae_double env) dummy_view tx (ae_Height env) view") (auto simp: admit_def Let_def dest: cached(3))
      let ?fees = "wrap64 (nValueIn - nValueOut)"
      let ?e = "CTxMemPoolEntry_new tx ?fees (ae_Time env) prio (word_of_int (ae_Height env))"
      let ?dstx = "GetHash (ae_Hash env) tx \<in> set (ae_ObfuscationTxes env)"
      let ?rules = "fee_rules env ?dstx ign lf tx (of_nat (nTxSize ?e)) ?fees pool lim view"
      have "?rules \<noteq> None"
      proof
        assume "?rules = None"
        then show False using assms(3) s1 b1 s2 b2 s3 s4 by (simp add: admit_def Let_def)
      qed
      then obtain reason pool1 lim1 view1 where r: "?rules = Some (reason, pool1, lim1, view1)" by fastforce
      note F = fee_rules_cached [OF assms(1) r]
      then have s5: "?rules = Some (reason, pool1, lim1, view)" using r by simp
      note pool1 = conjunct2 [OF F]
      have tx: "entry_tx ?e = tx" by (simp add: CTxMemPoolEntry_new_def)
      note st = s1 b1 s2 b2 s3 s4 s5
      let ?insane = "insane \<and> ?fees > wrap64 (relay_fee env (of_nat (nTxSize ?e)) * 10000)"
      show ?thesis
      proof (cases "reason \<noteq> None \<or> ?insane")
        case True
        then show ?thesis using assms(3) st pool1 by (cases reason) (auto simp: admit_def Let_def)
      next
        case False
        then have go: "reason = None" "\<not> ?insane" by simp_all
        let ?check = "\<lambda>st fl. CheckInputs (ae_sig env) (ae_Params env) (ae_heightOf env) dummy_view tx st view True fl True None"
        have "?check st STANDARD_SCRIPT_VERIFY_FLAGS \<noteq> None"
        proof
          assume "?check st STANDARD_SCRIPT_VERIFY_FLAGS = None"
          then show False using assms(3) st go by (simp add: admit_def Let_def)
        qed
        then obtain ok1 st1 pv1 v1 where v1: "?check st STANDARD_SCRIPT_VERIFY_FLAGS = Some (ok1, st1, pv1, v1)" by fastforce
        then have c1: "?check st STANDARD_SCRIPT_VERIFY_FLAGS = Some (ok1, st1, pv1, view)" using cached(4) [OF v1] by simp
        show ?thesis
        proof (cases ok1)
          case False
          then show ?thesis using assms(3) st go c1 pool1 by (auto simp: admit_def Let_def)
        next
          case True
          have "?check st1 MANDATORY_SCRIPT_VERIFY_FLAGS \<noteq> None"
          proof
            assume "?check st1 MANDATORY_SCRIPT_VERIFY_FLAGS = None"
            then show False using assms(3) st go c1 True by (simp add: admit_def Let_def)
          qed
          then obtain ok2 st2 pv2 v2 where v2: "?check st1 MANDATORY_SCRIPT_VERIFY_FLAGS = Some (ok2, st2, pv2, v2)" by fastforce
          then have c2: "?check st1 MANDATORY_SCRIPT_VERIFY_FLAGS = Some (ok2, st2, pv2, view)" using cached(4) [OF v2] by simp
          show ?thesis
          proof (cases ok2)
            case False
            then show ?thesis using assms(3) st go c1 True c2 pool1 by (auto simp: admit_def Let_def)
          next
            case ok2: True
            have "r = \<lparr>ar_ok = True, ar_state = st2, ar_missing = False,
                ar_pool = addUnchecked (GetHash (ae_Hash env) tx) ?e pool1, ar_limiter = lim1, ar_tip = fst (base view)\<rparr>"
              using assms(3) st go c1 True c2 ok2 by (simp add: admit_def Let_def)
            then show ?thesis using pool1 tx c2 ok2 by auto
          qed
        qed
      qed
    qed
  qed
qed

section \<open>The coins of the tip and of the pool\<close>

definition mempool_content :: "tip_cache \<times> 'd CTxMemPool \<Rightarrow> uint256 \<Rightarrow> CCoins option" where
  "mempool_content s txid =
     (case pool_lookup (snd s) txid of
        Some tx \<Rightarrow> live (Some (FromTx tx MEMPOOL_HEIGHT))
      | None \<Rightarrow> tip_content (fst s) txid)"

text \<open>The view over a given pool and a tip with given content.\<close>

definition pool_view_ok :: "(uint256 \<Rightarrow> CCoins option) \<Rightarrow> 'd CTxMemPool \<Rightarrow> tip_cache \<times> 'd CTxMemPool \<Rightarrow> bool" where
  "pool_view_ok f pool s \<longleftrightarrow> tip_ok (fst s) \<and> tip_content (fst s) = f \<and> snd s = pool"

interpretation pool: coins_reader "CCoinsViewMemPool tip_ops" "pool_view_ok f pool" mempool_content "\<lambda>_ _. True" "\<lambda>s. cache_best db_hash (fst s)"
  for f :: "uint256 \<Rightarrow> CCoins option" and pool :: "'d CTxMemPool"
proof
  fix v :: "tip_cache \<times> 'd CTxMemPool" and txid r v'
  assume ok: "pool_view_ok f pool v" and get: "vGetCoins (CCoinsViewMemPool tip_ops) v txid = (r, v')"
  show "pool_view_ok f pool v' \<and> mempool_content v' = mempool_content v \<and> cache_best db_hash (fst v') = cache_best db_hash (fst v) \<and>
      (\<lambda>_. True) \<le> (\<lambda>_. True) \<and> live r = mempool_content v txid \<and> (live r \<noteq> None \<longrightarrow> True)"
  proof (cases "pool_lookup (snd v) txid")
    case (Some tx)
    then show ?thesis using ok get by (auto simp: CCoinsViewMemPool_def MemPool_GetCoins_def mempool_content_def)
  next
    case None
    obtain g b where g: "vGetCoins tip_ops (fst v) txid = (g, b)" by fastforce
    have t: "tip_ok (fst v)" "tip_content (fst v) = f" "snd v = pool" using ok by (simp_all add: pool_view_ok_def)
    note T = tip.get [OF t(1) g]
    have v': "v' = (b, pool)" "r = (case g of None \<Rightarrow> None | Some co \<Rightarrow> if IsPruned co then None else Some co)"
      using get None g t(3) by (auto simp: CCoinsViewMemPool_def MemPool_GetCoins_def split: prod.splits)
    have "live r = live g" by (auto simp: v' live_def split: option.splits)
    moreover have "mempool_content v' = mempool_content v"
      using T t(3) by (simp add: mempool_content_def v' fun_eq_iff split: option.splits)
    ultimately show ?thesis using T t None by (simp add: pool_view_ok_def v'(1) mempool_content_def)
  qed
next
  fix v :: "tip_cache \<times> 'd CTxMemPool" and h v'
  assume ok: "pool_view_ok f pool v" and best: "vGetBestBlock (CCoinsViewMemPool tip_ops) v = (h, v')"
  obtain g b where g: "vGetBestBlock tip_ops (fst v) = (g, b)" by fastforce
  have t: "tip_ok (fst v)" "tip_content (fst v) = f" "snd v = pool" using ok by (simp_all add: pool_view_ok_def)
  note T = tip.get_best [OF t(1) g]
  have v': "v' = (b, pool)" "h = g" using best g t(3) by (auto simp: CCoinsViewMemPool_def)
  have "mempool_content v' = mempool_content v"
    using T t(3) by (simp add: mempool_content_def v' fun_eq_iff split: option.splits)
  then show "pool_view_ok f pool v' \<and> mempool_content v' = mempool_content v \<and> cache_best db_hash (fst v') = cache_best db_hash (fst v) \<and>
      (\<lambda>_. True) \<le> (\<lambda>_. True) \<and> h = cache_best db_hash (fst v)"
    using T t by (simp add: pool_view_ok_def v')
qed

section \<open>What is admitted\<close>

lemma pool_addable:
  assumes "\<not> pool_exists pool (GetHash Hash tx)" "\<not> pool_conflict pool tx" "distinct (map prevout (vin tx))"
    and "entry_tx e = tx" "mapTx pool1 = mapTx pool" "mapNextTx pool1 = mapNextTx pool"
  shows "addable Hash pool1 (GetHash Hash tx) e"
  using assms by (auto simp: addable_def pool_exists_def pool_conflict_def entry_inputs_def list_all_iff list_ex_iff)

lemma PrioritiseTransaction_maps [simp]:
  "mapTx (PrioritiseTransaction h d f pool) = mapTx pool" "mapNextTx (PrioritiseTransaction h d f pool) = mapNextTx pool"
  by (simp_all add: PrioritiseTransaction_def Let_def)

lemma with_bonus_maps [simp]: "mapTx (with_bonus env tx pool) = mapTx pool" "mapNextTx (with_bonus env tx pool) = mapNextTx pool"
  by (simp_all add: with_bonus_def)

lemma with_bonus_deltas:
  "with_bonus env tx pool = pool \<or>
   GetHash (ae_Hash env) tx \<in> set (ae_ObfuscationTxes env) \<and>
   with_bonus env tx pool = pool\<lparr>mapDeltas := mapDeltas (with_bonus env tx pool)\<rparr> \<and>
   map_of (mapDeltas (with_bonus env tx pool)) = (map_of (mapDeltas pool))(GetHash (ae_Hash env) tx \<mapsto>
     (case map_of (mapDeltas pool) (GetHash (ae_Hash env) tx) of
        None \<Rightarrow> (0 + ae_double env 1000, 10000000)
      | Some (d, f) \<Rightarrow> (d + ae_double env 1000, wrap64 (f + 10000000))))"
  by (auto simp: with_bonus_def PrioritiseTransaction_def Let_def update_conv' in_int64_def split: option.splits)

lemma with_bonus_reach: "pool_reach Hash pool \<Longrightarrow> pool_reach Hash (with_bonus env tx pool)"
  by (auto simp: with_bonus_def intro: reach_prioritise)

lemma lookup_addUnchecked: "pool_lookup (addUnchecked hash e pool) k = (if k = hash then Some (entry_tx e) else pool_lookup pool k)"
  by (simp add: pool_lookup_def addUnchecked_def Let_def update_conv')

text \<open>What holds of an admitted transaction.\<close>

definition admissible :: "('d, 'x) accept_env_scheme \<Rightarrow> int \<Rightarrow> (uint256 \<Rightarrow> CCoins option) \<Rightarrow> CTransaction \<Rightarrow> bool" where
  "admissible env h f tx \<longleftrightarrow>
     well_formed_tx (MaxMoneyOut (ae_Params env)) tx \<and> \<not> IsCoinBase tx \<and> \<not> IsCoinStake tx \<and>
     accept_inputs (ae_sig env) (ae_Params env) h f tx True MANDATORY_SCRIPT_VERIFY_FLAGS True"

lemma well_formed_in_int64:
  assumes "well_formed_tx limit tx" "limit < 2 ^ 62"
  shows "list_all (\<lambda>t. in_int64 (nValue t)) (vout tx)"
proof -
  have v: "list_all (out_ok tx) (vout tx)" "sum_list (map nValue (vout tx)) \<le> limit" using assms(1) by (simp_all add: well_formed_tx_def)
  have nn: "list_all (\<lambda>t. 0 \<le> nValue t) (vout tx)" using v(1) by (auto simp: list_all_iff out_ok_def)
  have "nValue t \<le> sum_list (map nValue (vout tx))" if "t \<in> set (vout tx)" for t
    using that nn by (intro member_le_sum_list) (auto simp: list_all_iff)
  then show ?thesis using nn v(2) assms(2) by (fastforce simp: list_all_iff in_int64_def)
qed

text \<open>The three ways through the function.\<close>

lemma accept_stages:
  assumes "AcceptToMemoryPool env B pool st tx lf insane ign lim t = Some r"
  obtains (refused) "ar_pool r = pool" "ar_tip r = t" "\<not> ar_ok r"
  | (unloaded) st1 y view where "load_inputs (CCoinsViewMemPool B) (GetHash (ae_Hash env) tx) tx st1 (make_cache (t, pool)) = Some (Inl y, view)"
      "\<not> IsCoinBase tx" "ar_pool r = pool" "ar_tip r = fst (base view)" "\<not> ar_ok r"
  | (loaded) st1 v view where "CheckTransaction (ae_node env) tx st 0 = Some (True, st1)" "\<not> IsCoinBase tx" "\<not> IsCoinStake tx"
      "\<not> pool_exists pool (GetHash (ae_Hash env) tx)" "\<not> pool_conflict pool tx"
      "load_inputs (CCoinsViewMemPool B) (GetHash (ae_Hash env) tx) tx st1 (make_cache (t, pool)) = Some (Inr v, view)"
      "admit env tx st1 v lf insane ign pool lim view = Some r"
proof -
  let ?hash = "GetHash (ae_Hash env) tx" and ?view = "make_cache (t, pool)"
  note A = assms [unfolded AcceptToMemoryPool_def Let_def]
  show thesis
  proof (cases "\<exists>st1. CheckTransaction (ae_node env) tx st 0 = Some (True, st1) \<and> \<not> IsCoinBase tx \<and> \<not> IsCoinStake tx \<and>
      (ae_RequireStandard env \<longrightarrow> IsStandardTx (ae_node env) (ae_policy env) tx = None) \<and> \<not> pool_exists pool ?hash \<and>
      \<not> input_locked env tx \<and> \<not> pool_conflict pool tx")
    case False
    then have "ar_pool r = pool \<and> ar_tip r = t \<and> \<not> ar_ok r"
      using A by (auto split: option.splits prod.splits bool.splits if_splits)
    then show ?thesis by (auto intro: refused)
  next
    case True
    then obtain st1 where c: "CheckTransaction (ae_node env) tx st 0 = Some (True, st1)" "\<not> IsCoinBase tx" "\<not> IsCoinStake tx"
      "\<not> pool_exists pool ?hash" "\<not> pool_conflict pool tx"
      and B: "(case load_inputs (CCoinsViewMemPool B) ?hash tx st1 ?view of
          None \<Rightarrow> None
        | Some (Inl (st2, missing), view) \<Rightarrow>
            Some \<lparr>ar_ok = False, ar_state = st2, ar_missing = missing, ar_pool = pool, ar_limiter = lim, ar_tip = fst (base view)\<rparr>
        | Some (Inr nValueIn, view) \<Rightarrow> admit env tx st1 nValueIn lf insane ign pool lim view) = Some r"
      using A by (auto split: if_splits)
    obtain x view where l: "load_inputs (CCoinsViewMemPool B) ?hash tx st1 ?view = Some (x, view)"
      using B by (auto split: option.splits)
    show ?thesis
    proof (cases x)
      case (Inl y)
      then show ?thesis using B l c(2) by (intro unloaded) (auto split: prod.splits)
    next
      case (Inr v)
      then show ?thesis using B l c by (intro loaded) auto
    qed
  qed
qed

text \<open>The loaded view and the mandatory check of a transaction that is admitted.\<close>

lemma loaded_view:
  assumes "tip_ok t" "load_inputs (CCoinsViewMemPool tip_ops) hash tx st1 (make_cache (t, pool)) = Some (x, view)" "\<not> IsCoinBase tx"
  shows "cache_inv (pool_view_ok (tip_content t) pool) mempool_content (\<lambda>_ _. True) view" "tip_content (fst (base view)) = tip_content t"
    "cache_content mempool_content view = mempool_content (t, pool)"
    "cache_best (\<lambda>s. cache_best db_hash (fst s)) view = cache_best db_hash t"
    "x = Inr v \<Longrightarrow> list_all (has_coins view) (vin tx) \<and> hashBlock view = cache_best db_hash t"
proof -
  have ok: "pool_view_ok (tip_content t) pool (t, pool)" using assms(1) by (simp add: pool_view_ok_def)
  note V = pool.make_cache_ok [OF ok]
  note L = pool.load_inputs_spec [OF conjunct1 [OF V] assms(2,3)]
  have best: "cache_best (\<lambda>s. cache_best db_hash (fst s)) (make_cache (t, pool)) = cache_best db_hash t"
    by (simp add: cache_best_def make_cache_def)
  show "cache_inv (pool_view_ok (tip_content t) pool) mempool_content (\<lambda>_ _. True) view" "tip_content (fst (base view)) = tip_content t"
    "cache_content mempool_content view = mempool_content (t, pool)"
    "cache_best (\<lambda>s. cache_best db_hash (fst s)) view = cache_best db_hash t"
    "x = Inr v \<Longrightarrow> list_all (has_coins view) (vin tx) \<and> hashBlock view = cache_best db_hash t"
    using L V best by (auto simp: cache_inv_def pool_view_ok_def)
qed

lemma check_on_pool:
  assumes "cache_inv (pool_view_ok f pool) mempool_content (\<lambda>_ _. True) view" "list_all (has_coins view) (vin tx)" "hashBlock view \<noteq> 0"
    and "CheckInputs se P hof dummy_view tx s1 view True fl True None = Some (True, s2, pv, view)" "\<not> IsCoinBase tx"
    and "hof (cache_best (\<lambda>s. cache_best db_hash (fst s)) view) = Some h" "0 \<le> MaxMoneyOut P" "MaxMoneyOut P < 2 ^ 62"
    and "well_formed_tx (MaxMoneyOut P) tx"
  shows "accept_inputs se P (h + 1) (cache_content mempool_content view) tx True fl True"
proof -
  have "CheckInputs se P hof (CCoinsViewMemPool tip_ops) tx s1 view True fl True None = Some (True, s2, pv, view)"
    using assms(4) CheckInputs_cached [OF assms(2,3), where B = dummy_view and D = "CCoinsViewMemPool tip_ops"] by simp
  then show ?thesis
    using pool.CheckInputs_spec [where heightOf = hof and fScriptChecks = True and store = True, OF assms(1,5,6,8)
        well_formed_in_int64 [OF assms(9,8)] assms(7), where se = se and st = s1 and fl = fl] by simp
qed

text \<open>C36: A transaction that the memory pool admits is well formed, neither a coinbase nor a coinstake, and valid under the
  mandatory script flags on the coins of the tip together with those of the pool, at the height of the next block; the pool is then
  the former one with an entry of this transaction added. A transaction that is refused leaves the pool as it was, in all its
  fields, unless it is a mixing transaction: one that is announced among the obfuscation transactions has been
  prioritised, refused or admitted: its entry among the deltas has grown by 1000 and 0.1 coins, and nothing else differs. The pool
  stays well formed, and the coins that the tip shows do not change. The limit on money is within \<open>[0, 2^62)\<close> and the best block of the
  tip is known to the index.\<close>

theorem AcceptToMemoryPool_sound:
  assumes "tip_reach t" "pool_reach (ae_Hash env) pool"
    and lim: "0 \<le> MaxMoneyOut (ae_Params env)" "MaxMoneyOut (ae_Params env) < 2 ^ 62"
    and best: "cache_best db_hash t \<noteq> 0" "ae_heightOf env (cache_best db_hash t) = Some h"
    and "AcceptToMemoryPool env tip_ops pool st tx lf insane ign lim t = Some r"
  shows "pool_reach (ae_Hash env) (ar_pool r) \<and> tip_content (ar_tip r) = tip_content t \<and>
    (if ar_ok r
     then admissible env (h + 1) (mempool_content (t, pool)) tx \<and>
          pool_lookup (ar_pool r) = (pool_lookup pool)(GetHash (ae_Hash env) tx \<mapsto> tx) \<and>
          (\<exists>e. entry_tx e = tx \<and> ar_pool r = addUnchecked (GetHash (ae_Hash env) tx) e (with_bonus env tx pool))
     else ar_pool r = pool \<or>
          GetHash (ae_Hash env) tx \<in> set (ae_ObfuscationTxes env) \<and>
          ar_pool r = pool\<lparr>mapDeltas := mapDeltas (ar_pool r)\<rparr> \<and>
          map_of (mapDeltas (ar_pool r)) = (map_of (mapDeltas pool))(GetHash (ae_Hash env) tx \<mapsto>
            (case map_of (mapDeltas pool) (GetHash (ae_Hash env) tx) of
               None \<Rightarrow> (0 + ae_double env 1000, 10000000)
             | Some (d, f) \<Rightarrow> (d + ae_double env 1000, wrap64 (f + 10000000)))))"
proof -
  let ?hash = "GetHash (ae_Hash env) tx"
  have t: "tip_ok t" using assms(1) reach_ok by blast
  from assms(7) show ?thesis
  proof (cases rule: accept_stages)
    case refused
    then show ?thesis using assms(2) by simp
  next
    case unloaded
    then show ?thesis using assms(2) loaded_view(2) [OF t unloaded(1,2)] by simp
  next
    case (loaded st1 v view)
    note V = loaded_view [OF t loaded(6,2)]
    have cached: "list_all (has_coins view) (vin tx)" "hashBlock view \<noteq> 0" using V(5) best(1) by auto
    let ?pool1 = "with_bonus env tx pool"
    note R = admit_spec [OF cached loaded(7)]
    have reach1: "pool_reach (ae_Hash env) ?pool1" by (rule with_bonus_reach [OF assms(2)])
    show ?thesis
    proof (cases "ar_ok r")
      case False
      then have "ar_pool r = pool \<or> ar_pool r = ?pool1" "ar_tip r = fst (base view)" using R by simp_all
      then show ?thesis using False V(2) reach1 assms(2) with_bonus_deltas [of env tx pool] by auto
    next
      case True
      then obtain e s1 s2 pv where e: "entry_tx e = tx" "ar_pool r = addUnchecked ?hash e ?pool1"
        and chk: "CheckInputs (ae_sig env) (ae_Params env) (ae_heightOf env) dummy_view tx s1 view True MANDATORY_SCRIPT_VERIFY_FLAGS True None
           = Some (True, s2, pv, view)" using R by auto
      have wf: "well_formed_tx (MaxMoneyOut (ae_Params env)) tx" using loaded(1) CheckTransaction_iff [OF lim] by blast
      then have "addable (ae_Hash env) ?pool1 ?hash e"
        using pool_addable [OF loaded(4,5) _ e(1) with_bonus_maps] by (simp add: well_formed_tx_def)
      then have reach: "pool_reach (ae_Hash env) (ar_pool r)" unfolding e(2) by (rule reach_add [OF reach1])
      have lookup: "pool_lookup (ar_pool r) = (pool_lookup pool)(?hash \<mapsto> tx)"
        by (simp add: fun_eq_iff e lookup_addUnchecked) (simp add: pool_lookup_def)
      have "admissible env (h + 1) (mempool_content (t, pool)) tx"
        using check_on_pool [OF V(1) cached chk loaded(2) _ lim wf, of h] V(3,4) best(2) wf loaded(2,3) by (simp add: admissible_def)
      moreover have "tip_content (ar_tip r) = tip_content t" using R V(2) by simp
      ultimately show ?thesis using True reach lookup e by auto
    qed
  qed
qed

section \<open>An example\<close>

text \<open>A spend of an output of the tip is admitted to the empty pool.\<close>

definition accept_demo :: "int accept_env" where
  "accept_demo = \<lparr>ae_node = demo_env, ae_RequireStandard = False,
     ae_policy = \<lparr>datacarrier = True, nMaxDatacarrierBytes = 83, fIsBareMultisigStd = True, minRelayTxFee = \<lparr>nSatoshisPerK = 10000\<rparr>, ActiveProtocol = 70223\<rparr>,
     ae_sig = demo_sig, ae_heightOf = (\<lambda>_. Some 10), ae_LockedInputs = (\<lambda>_. None), ae_ObfuscationTxes = [], ae_Time = 0, ae_relaypriority = True,
     ae_limitfreerelay = 30, ae_double = id, ae_pow = (\<lambda>_ _. 1)\<rparr>"

definition tip_demo :: tip_cache where "tip_demo = make_cache demo_db"

definition start_demo :: "(int, tip_cache) pool_view" where "start_demo = make_cache (tip_demo, CTxMemPool_new)"

definition loaded_demo :: "(int, tip_cache) pool_view" where
  "loaded_demo = snd (the (load_inputs (CCoinsViewMemPool tip_ops) 0 spend_tx CValidationState_new start_demo))"

lemma demo_spend: "\<not> IsCoinBase spend_tx" "\<not> IsCoinStake spend_tx" "GetValueOut spend_tx = Inr 4" "GetHash (se_Hash demo_sig) spend_tx = 0"
  by code_simp+

lemma demo_load: "load_inputs (CCoinsViewMemPool tip_ops) 0 spend_tx CValidationState_new start_demo = Some (Inr 5, loaded_demo)"
proof -
  have "map_option fst (load_inputs (CCoinsViewMemPool tip_ops) 0 spend_tx CValidationState_new start_demo) = Some (Inr 5)" by code_simp
  then show ?thesis by (auto simp: loaded_demo_def)
qed

lemma demo_loaded: "list_all (has_coins loaded_demo) (vin spend_tx)" "hashBlock loaded_demo \<noteq> 0"
  by code_simp+

lemma demo_sigops: "too_many_tx_sigops loaded_demo spend_tx = Some (False, loaded_demo)"
proof -
  have "fst (GetP2SHSigOpCount dummy_view spend_tx loaded_demo) = Some 0" by code_simp
  moreover have "GetLegacySigOpCount spend_tx = 0" by code_simp
  moreover have "snd (GetP2SHSigOpCount dummy_view spend_tx loaded_demo) = loaded_demo"
    using p2sh_sigops_cached [OF demo_loaded(1)] by (simp add: GetP2SHSigOpCount_def)
  ultimately show ?thesis by (cases "GetP2SHSigOpCount dummy_view spend_tx loaded_demo") (simp add: too_many_tx_sigops_def)
qed

lemma demo_priority: "\<exists>d. GetPriority id dummy_view spend_tx 1000 loaded_demo = Some (d :: int, loaded_demo)"
proof -
  have "GetPriority id dummy_view spend_tx 1000 loaded_demo \<noteq> (None :: (int \<times> _) option)" by code_simp
  then show ?thesis using GetPriority_cached [OF demo_loaded(1)] by fastforce
qed

lemma demo_check:
  assumes "fl = STANDARD_SCRIPT_VERIFY_FLAGS \<or> fl = MANDATORY_SCRIPT_VERIFY_FLAGS"
  shows "\<exists>pv. CheckInputs demo_sig mainParams (\<lambda>_. Some 10) dummy_view spend_tx CValidationState_new loaded_demo True fl True None =
    Some (True, CValidationState_new, pv, loaded_demo)"
proof -
  have "map_option (\<lambda>(ok, st, _). (ok, st)) (CheckInputs demo_sig mainParams (\<lambda>_. Some 10) dummy_view spend_tx CValidationState_new loaded_demo
      True STANDARD_SCRIPT_VERIFY_FLAGS True None) = Some (True, CValidationState_new)" by code_simp
  moreover have "map_option (\<lambda>(ok, st, _). (ok, st)) (CheckInputs demo_sig mainParams (\<lambda>_. Some 10) dummy_view spend_tx CValidationState_new loaded_demo
      True MANDATORY_SCRIPT_VERIFY_FLAGS True None) = Some (True, CValidationState_new)" by code_simp
  ultimately obtain pv c where "CheckInputs demo_sig mainParams (\<lambda>_. Some 10) dummy_view spend_tx CValidationState_new loaded_demo True fl True None =
      Some (True, CValidationState_new, pv, c)" using assms by auto
  then show ?thesis using CheckInputs_cached [OF demo_loaded, where B = dummy_view and D = dummy_view] by blast
qed

lemma demo_accepted: "\<exists>r. AcceptToMemoryPool accept_demo tip_ops CTxMemPool_new CValidationState_new spend_tx False False True \<lparr>dFreeCount = 0, nLastTime = 0\<rparr> tip_demo
    = Some r \<and> ar_ok r"
proof -
  have size: "GetSerializeSize spend_tx \<le> 200"
    by (simp add: GetSerializeSize_def SerializeTx_def spend_tx_def demo_tx_def SerializeVec_def SerializeTxIn_def SerializeTxOut_def
        SerializeOutPoint_def SerializeAmount_def SerializeBytes_def SerializeString_def WriteCompactSize_def)
  then have "well_formed_tx (MaxMoneyOut (Params demo_env)) spend_tx"
    using demo_spend(1)
    by (simp add: well_formed_tx_def MAX_BLOCK_SIZE_def) (simp add: out_ok_def spend_tx_def demo_tx_def demo_env_def mainParams_def COIN_def
        COutPoint_IsNull_def CTxOut_IsEmpty_def)
  moreover have "CheckTxFilter demo_env spend_tx 0 = Some True"
    by code_simp
  ultimately have check: "CheckTransaction demo_env spend_tx CValidationState_new 0 = Some (True, CValidationState_new)"
    using CheckTransaction_iff [OF demo_env_limit] by blast
  obtain d where prio: "GetPriority id dummy_view spend_tx 1000 loaded_demo = Some (d :: int, loaded_demo)" using demo_priority by blast
  obtain pv1 where c1: "CheckInputs demo_sig mainParams (\<lambda>_. Some 10) dummy_view spend_tx CValidationState_new loaded_demo True
      STANDARD_SCRIPT_VERIFY_FLAGS True None = Some (True, CValidationState_new, pv1, loaded_demo)" using demo_check by blast
  obtain pv2 where c2: "CheckInputs demo_sig mainParams (\<lambda>_. Some 10) dummy_view spend_tx CValidationState_new loaded_demo True
      MANDATORY_SCRIPT_VERIFY_FLAGS True None = Some (True, CValidationState_new, pv2, loaded_demo)" using demo_check by blast
  have env: "Params demo_env = mainParams" "chainHeight demo_env = 1000" by (simp_all add: demo_env_def)
  have load: "load_inputs (CCoinsViewMemPool tip_ops) 0 spend_tx CValidationState_new (make_cache (tip_demo, CTxMemPool_new)) = Some (Inr 5, loaded_demo)"
    using demo_load by (simp add: start_demo_def)
  show ?thesis
    using check load prio c1 c2 demo_spend demo_sigops
    by (simp add: AcceptToMemoryPool_def accept_demo_def pool_exists_def CTxMemPool_new_def input_locked_def pool_conflict_def list_ex_iff)
      (simp add: admit_def inputs_nonstandard_def fee_rules_def env)
qed

theorem AcceptToMemoryPool_sound_witness:
  "admissible accept_demo 11 (mempool_content (tip_demo, CTxMemPool_new :: int CTxMemPool)) spend_tx"
proof -
  have db: "db_ok demo_db" using demo_live by (auto simp: db_ok_def demo_db_def split: if_splits)
  have tip: "tip_reach tip_demo" unfolding tip_demo_def by (rule tip_reach_view_reach.start [OF db])
  obtain r where r: "AcceptToMemoryPool accept_demo tip_ops CTxMemPool_new CValidationState_new spend_tx False False True \<lparr>dFreeCount = 0, nLastTime = 0\<rparr> tip_demo
    = Some r" "ar_ok r" using demo_accepted by blast
  have best: "cache_best db_hash tip_demo = 99" by (simp add: tip_demo_def cache_best_def make_cache_def db_hash_def demo_db_def)
  have lim: "0 \<le> MaxMoneyOut (ae_Params accept_demo)" "MaxMoneyOut (ae_Params accept_demo) < 2 ^ 62"
    using demo_env_limit by (simp_all add: accept_demo_def)
  show ?thesis
    using AcceptToMemoryPool_sound [OF tip reach_new lim _ _ r(1), of 10] r(2) best by (simp add: accept_demo_def)
qed

end
