(* ===== verification/Activate.thy ===== *)
theory Activate
  imports Chain_Select Connect_Block Mempool_Accept
begin

text \<open>
  The activation of the best chain (\<^verbatim>\<open>src/src/main.cpp\<close>): \<^verbatim>\<open>ConnectTip\<close>, \<^verbatim>\<open>DisconnectTip\<close>,
  \<^verbatim>\<open>ActivateBestChainStep\<close>, \<^verbatim>\<open>ActivateBestChain\<close>, \<^verbatim>\<open>InvalidateBlock\<close> and \<^verbatim>\<open>FlushStateToDisk\<close>, which bring the tree of
  headers, the coin view of the tip and the memory pool together. The sanity check of the pool is off, as it is by
  default. Notifications of the wallet, of peers and of the user, the warnings about forks and versions, and the
  measured times are left out.
\<close>

section \<open>State and environment\<close>

record 'd node =
  n_cs :: chain_state
  n_tip :: tip_cache
  n_pool :: "'d CTxMemPool"
  n_limiter :: "'d free_limiter"
  n_stakes :: "(COutPoint \<times> int) list"
  n_rejected :: rejected_blocks
  n_lastWrite :: int
  n_writes :: "disk_write list"
  n_effects :: "peer_effect list"

text \<open>
  The disk and the settings: per block the answers while it is connected and its undo data, and what a flush meets.
  The names of the connected peers.
\<close>

record 'd activate_env =
  av_kernel :: kernel_env
  av_accept :: "'d accept_env"
  av_io :: "nat \<Rightarrow> connect_io"
  av_undo :: "nat \<Rightarrow> CTxUndo list option"
  av_CoinCacheSize :: nat
  av_TimeMicros :: int
  av_DiskSpace :: bool
  av_WriteBatch :: bool
  av_known :: "int \<Rightarrow> bool"

text \<open>The environments of the parts, with the present tree and chain.\<close>

definition be_at :: "('d, 'x) activate_env_scheme \<Rightarrow> chain_state \<Rightarrow> block_env" where
  "be_at env cs =
     (let b = ke_block (ke_at (av_kernel env) cs) in b\<lparr>be_node := (be_node b)\<lparr>chainHeight := Chain_Height (cs_chain cs)\<rparr>\<rparr>)"

definition ae_at :: "('d, 'x) activate_env_scheme \<Rightarrow> chain_state \<Rightarrow> 'd accept_env" where
  "ae_at env cs =
     (av_accept env)\<lparr>ae_node := be_node (be_at env cs), ae_sig := ke_sig (av_kernel env),
                     ae_heightOf := (\<lambda>h. map_option (\<lambda>p. int (bi_nHeight (cs_index cs ! p))) (cs_map cs h))\<rparr>"

abbreviation av_Hash :: "('d, 'x) activate_env_scheme \<Rightarrow> bytes \<Rightarrow> uint256" where
  "av_Hash env \<equiv> se_Hash (ke_sig (av_kernel env))"

section \<open>Writing the state\<close>

datatype FlushStateMode = FLUSH_STATE_IF_NEEDED | FLUSH_STATE_PERIODIC | FLUSH_STATE_ALWAYS

definition DATABASE_WRITE_INTERVAL :: int where "DATABASE_WRITE_INTERVAL = 600"

text \<open>The records of the block files are not part of the state; the list of dirty headers is.\<close>

definition FlushStateToDisk ::
  "('d, 'x) activate_env_scheme \<Rightarrow> FlushStateMode \<Rightarrow> CValidationState \<Rightarrow> 'd node \<Rightarrow> (bool \<times> CValidationState \<times> 'd node) option" where
  "FlushStateToDisk env m st s =
     (if m = FLUSH_STATE_ALWAYS \<or>
         (m = FLUSH_STATE_PERIODIC \<or> m = FLUSH_STATE_IF_NEEDED) \<and> GetCacheSize (n_tip s) > av_CoinCacheSize env \<or>
         m = FLUSH_STATE_PERIODIC \<and> av_TimeMicros env > wrap64 (n_lastWrite s + DATABASE_WRITE_INTERVAL * 1000000)
      then
        if \<not> av_DiskSpace env then Some (False, State_Error st ''out of disk space'', s)
        else let s1 = s\<lparr>n_cs := (n_cs s)\<lparr>cs_dirty := []\<rparr>\<rparr> in
          if \<not> av_WriteBatch env then Some (False, State_Error st ''Files to write to block index database'', s1)
          else (case Flush db_ops (n_tip s1) of
                  None \<Rightarrow> None
                | Some (False, t) \<Rightarrow> Some (False, State_Error st ''Failed to write to coin database'', s1\<lparr>n_tip := t\<rparr>)
                | Some (True, t) \<Rightarrow> Some (True, st, s1\<lparr>n_tip := t, n_lastWrite := av_TimeMicros env\<rparr>))
      else Some (True, st, s))"

section \<open>Moving the tip\<close>

text \<open>The new tip is reported right away, so it is not null.\<close>

definition UpdateTip :: "nat option \<Rightarrow> 'd node \<Rightarrow> 'd node option" where
  "UpdateTip pindexNew s =
     (if pindexNew = None then None
      else map_option (\<lambda>C. s\<lparr>n_cs := (n_cs s)\<lparr>cs_chain := C\<rparr>, n_pool := AddTransactionsUpdated 1 (n_pool s)\<rparr>)
             (SetTip (cs_index (n_cs s)) (cs_chain (n_cs s)) pindexNew))"

text \<open>The transactions of a disconnected block go back to the pool, or are removed with their descendants.\<close>

fun resurrect ::
  "('d::{zero,one,plus,minus,times,divide,ord}, 'x) activate_env_scheme \<Rightarrow> CTransaction list \<Rightarrow> 'd node \<Rightarrow> 'd node option" where
  "resurrect env [] s = Some s"
| "resurrect env (tx # txs) s =
     Option.bind
       (if IsCoinBase tx \<or> IsCoinStake tx then Some (False, s)
        else map_option (\<lambda>r. (ar_ok r, s\<lparr>n_pool := ar_pool r, n_limiter := ar_limiter r, n_tip := ar_tip r\<rparr>))
               (AcceptToMemoryPool (ae_at env (n_cs s)) tip_ops (n_pool s) CValidationState_new tx False False False (n_limiter s) (n_tip s)))
       (\<lambda>(ok, s1).
          Option.bind (if ok then Some (n_pool s1) else map_option fst (pool_remove (av_Hash env) True tx (n_pool s1, [])))
            (\<lambda>pool. resurrect env txs (s1\<lparr>n_pool := pool\<rparr>)))"

text \<open>The block taken out of the coins; a parent is needed for the new best block.\<close>

definition disconnect_coins ::
  "('d, 'x) activate_env_scheme \<Rightarrow> CBlock \<Rightarrow> nat \<Rightarrow> 'd node \<Rightarrow> (bool \<times> 'd node) option" where
  "disconnect_coins env block p s =
     (let st = cs_index (n_cs s) in
      case (Index_GetBlockHash (st ! p), Option.bind (pprev (st ! p)) (\<lambda>q. Index_GetBlockHash (st ! q))) of
        (Some h, Some hprev) \<Rightarrow>
          (case DisconnectBlock (av_Hash env) tip_ops (vtx block) \<lparr>pindex_hash = h, pprev_hash = hprev, pindex_nHeight = int (bi_nHeight (st ! p))\<rparr>
                  (av_undo env p) (map_of (n_stakes s)) (make_cache (n_tip s)) False of
             None \<Rightarrow> None
           | Some (ok, _, stakes, view) \<Rightarrow>
               let s1 = s\<lparr>n_stakes := filter (\<lambda>e. stakes (fst e) \<noteq> None) (n_stakes s)\<rparr> in
               if \<not> ok then Some (False, s1\<lparr>n_tip := base view\<rparr>)
               else (case Flush tip_ops view of
                       Some (True, view') \<Rightarrow> Some (True, s1\<lparr>n_tip := base view'\<rparr>)
                     | _ \<Rightarrow> None))
      | _ \<Rightarrow> None)"

definition DisconnectTip ::
  "('d::{zero,one,plus,minus,times,divide,ord}, 'x) activate_env_scheme \<Rightarrow> CValidationState \<Rightarrow> 'd node \<Rightarrow> (bool \<times> CValidationState \<times> 'd node) option" where
  "DisconnectTip env st s =
     (case Tip (cs_chain (n_cs s)) of
        None \<Rightarrow> None
      | Some p \<Rightarrow>
          (case ReadBlockFromDisk (ke_at (av_kernel env) (n_cs s)) (cs_index (n_cs s) ! p) of
             None \<Rightarrow> None
           | Some None \<Rightarrow> Some (False, State_Error st ''Failed to read block'', s)
           | Some (Some block) \<Rightarrow>
               (case disconnect_coins env block p s of
                  None \<Rightarrow> None
                | Some (False, s1) \<Rightarrow> Some (False, st, s1)
                | Some (True, s1) \<Rightarrow>
                    (case FlushStateToDisk env FLUSH_STATE_ALWAYS st s1 of
                       None \<Rightarrow> None
                     | Some (False, st', s2) \<Rightarrow> Some (False, st', s2)
                     | Some (True, st', s2) \<Rightarrow>
                         Option.bind (resurrect env (vtx block) s2) (\<lambda>s3.
                         Option.bind (removeCoinbaseSpends (av_Hash env) False (be_Params (be_at env (n_cs s3))) db_ops
                                        (of_nat (bi_nHeight (cs_index (n_cs s3) ! p))) (n_pool s3) (n_tip s3)) (\<lambda>(pool, tip).
                           map_option (\<lambda>s4. (True, st', s4))
                             (UpdateTip (pprev (cs_index (n_cs s3) ! p)) (s3\<lparr>n_pool := pool, n_tip := tip\<rparr>))))))))"

text \<open>What \<^verbatim>\<open>ConnectBlock\<close> leaves behind besides the view: the header, the spent stakes and the rejected blocks.\<close>

definition after_connect :: "nat \<Rightarrow> tip_cache connect_result \<Rightarrow> 'd node \<Rightarrow> 'd node" where
  "after_connect p r s =
     s\<lparr>n_cs := (let cs = set_block p (\<lambda>_. cr_index r) (n_cs s) in if cr_dirty r then mark_dirty p cs else cs),
       n_stakes := cr_stakeSpent r, n_rejected := cr_rejected r, n_writes := n_writes s @ cr_writes r\<rparr>"

definition connect_coins ::
  "('d, 'x) activate_env_scheme \<Rightarrow> nat \<Rightarrow> CBlock \<Rightarrow> bool \<Rightarrow> CValidationState \<Rightarrow> 'd node \<Rightarrow> (bool \<times> CValidationState \<times> 'd node) option" where
  "connect_coins env p block fAlreadyChecked st s =
     (case ConnectBlock (ke_sig (av_kernel env)) (av_io env p) (be_at env (n_cs s)) tip_ops block st (cs_index (n_cs s) ! p)
             (make_cache (n_tip s)) False fAlreadyChecked (n_stakes s) (n_rejected s) of
        None \<Rightarrow> None
      | Some r \<Rightarrow>
          let s1 = after_connect p r s in
          if \<not> cr_ok r
          then (let s2 = s1\<lparr>n_tip := base (cr_view r)\<rparr> in
                if mode (cr_state r) = MODE_INVALID
                then map_option (\<lambda>(effects, cs). (False, cr_state r, s2\<lparr>n_cs := cs, n_effects := n_effects s2 @ effects\<rparr>))
                       (InvalidBlockFound (av_known env) p (cr_state r) (n_cs s2))
                else Some (False, cr_state r, s2))
          else (case (Index_GetBlockHash (cs_index (n_cs s1) ! p), Flush tip_ops (cr_view r)) of
                  (Some h, Some (True, view)) \<Rightarrow>
                    Some (True, cr_state r, s1\<lparr>n_cs := (n_cs s1)\<lparr>cs_source := (cs_source (n_cs s1))(h := None)\<rparr>, n_tip := base view\<rparr>)
                | _ \<Rightarrow> None))"

definition new_file :: "block_store \<Rightarrow> nat \<Rightarrow> bool" where
  "new_file st p \<longleftrightarrow> (case pprev (st ! p) of None \<Rightarrow> False | Some q \<Rightarrow> fst (Index_GetBlockPos (st ! p)) \<noteq> fst (Index_GetBlockPos (st ! q)))"

definition ConnectTip ::
  "('d, 'x) activate_env_scheme \<Rightarrow> nat \<Rightarrow> CBlock option \<Rightarrow> bool \<Rightarrow> CValidationState \<Rightarrow> 'd node \<Rightarrow> (bool \<times> CValidationState \<times> 'd node) option" where
  "ConnectTip env p pblock fAlreadyChecked st s =
     (if pprev (cs_index (n_cs s) ! p) \<noteq> Tip (cs_chain (n_cs s)) then None
      else case (case pblock of Some b \<Rightarrow> Some (Some b) | None \<Rightarrow> ReadBlockFromDisk (ke_at (av_kernel env) (n_cs s)) (cs_index (n_cs s) ! p)) of
        None \<Rightarrow> None
      | Some None \<Rightarrow> Some (False, State_Error st ''Failed to read block'', s)
      | Some (Some block) \<Rightarrow>
          (case connect_coins env p block (pblock \<noteq> None \<and> fAlreadyChecked) st s of
             None \<Rightarrow> None
           | Some (False, st1, s1) \<Rightarrow> Some (False, st1, s1)
           | Some (True, st1, s1) \<Rightarrow>
               (case FlushStateToDisk env (if new_file (cs_index (n_cs s1)) p then FLUSH_STATE_ALWAYS else FLUSH_STATE_IF_NEEDED) st1 s1 of
                  None \<Rightarrow> None
                | Some (False, st2, s2) \<Rightarrow> Some (False, st2, s2)
                | Some (True, st2, s2) \<Rightarrow>
                    Option.bind (removeForBlock (av_Hash env) (vtx block) (n_pool s2, [])) (\<lambda>(_, pool, _).
                      map_option (\<lambda>s3. (True, st2, s3)) (UpdateTip (Some p) (s2\<lparr>n_pool := pool\<rparr>))))))"

section \<open>Towards the best chain\<close>

partial_function (option) disconnect_to ::
  "('d::{zero,one,plus,minus,times,divide,ord}, 'x) activate_env_scheme \<Rightarrow> nat option \<Rightarrow> CValidationState \<Rightarrow> 'd node \<Rightarrow> (bool \<times> CValidationState \<times> 'd node) option" where
  "disconnect_to env pindexFork st s =
     (if Tip (cs_chain (n_cs s)) = None \<or> Tip (cs_chain (n_cs s)) = pindexFork then Some (True, st, s)
      else Option.bind (DisconnectTip env st s) (\<lambda>r.
        if \<not> fst r then Some (False, fst (snd r), snd (snd r)) else disconnect_to env pindexFork (fst (snd r)) (snd (snd r))))"

text \<open>The blocks from \<open>p\<close> down to above the height \<open>h\<close>.\<close>

partial_function (option) collect_blocks :: "block_store \<Rightarrow> int \<Rightarrow> nat option \<Rightarrow> nat list option" where
  "collect_blocks st h pindexIter =
     (case pindexIter of
        None \<Rightarrow> Some []
      | Some p \<Rightarrow>
          if int (bi_nHeight (st ! p)) = h then Some []
          else Option.bind (collect_blocks st h (pprev (st ! p))) (\<lambda>ps. Some (p # ps)))"

text \<open>The outcomes of a series of connections: a system error, a block that breaks a rule, a better tip, or all connected.\<close>

datatype connect_outcome = System_Error | Invalid_Found | Better_Tip | All_Connected

fun connect_blocks ::
  "('d, 'x) activate_env_scheme \<Rightarrow> nat option \<Rightarrow> nat \<Rightarrow> nat \<Rightarrow> CBlock option \<Rightarrow> bool \<Rightarrow> nat list \<Rightarrow> CValidationState \<Rightarrow> 'd node \<Rightarrow>
   (connect_outcome \<times> CValidationState \<times> 'd node) option" where
  "connect_blocks env pindexOldTip pindexMostWork lowest pblock fAlreadyChecked [] st s = Some (All_Connected, st, s)"
| "connect_blocks env pindexOldTip pindexMostWork lowest pblock fAlreadyChecked (p # ps) st s =
     (case ConnectTip env p (if p = pindexMostWork then pblock else None) fAlreadyChecked st s of
        None \<Rightarrow> None
      | Some (False, st1, s1) \<Rightarrow>
          if mode st1 = MODE_INVALID
          then map_option (\<lambda>cs. (Invalid_Found, CValidationState_new, s1\<lparr>n_cs := cs\<rparr>))
                 (if corruptionPossible st1 then Some (n_cs s1) else InvalidChainFound lowest (n_cs s1))
          else Some (System_Error, st1, s1)
      | Some (True, st1, s1) \<Rightarrow>
          (case PruneBlockIndexCandidates (n_cs s1) of
             None \<Rightarrow> None
           | Some cs \<Rightarrow>
               let s2 = s1\<lparr>n_cs := cs\<rparr> in
               (case Tip (cs_chain cs) of
                  None \<Rightarrow> None
                | Some t \<Rightarrow>
                    if (case pindexOldTip of None \<Rightarrow> True | Some o' \<Rightarrow> nChainWork (cs_index cs ! t) > nChainWork (cs_index cs ! o'))
                    then Some (Better_Tip, st1, s2)
                    else connect_blocks env pindexOldTip pindexMostWork lowest pblock fAlreadyChecked ps st1 s2)))"

text \<open>At most 32 blocks are collected at a time; \<open>nHeight\<close> is the height that is reached.\<close>

partial_function (option) connect_rounds ::
  "('d, 'x) activate_env_scheme \<Rightarrow> nat option \<Rightarrow> nat \<Rightarrow> CBlock option \<Rightarrow> bool \<Rightarrow> int \<Rightarrow> CValidationState \<Rightarrow> 'd node \<Rightarrow>
   (bool \<times> CValidationState \<times> 'd node) option" where
  "connect_rounds env pindexOldTip pindexMostWork pblock fAlreadyChecked reached st s =
     (let goal = int (bi_nHeight (cs_index (n_cs s) ! pindexMostWork)) in
      if reached = goal then Some (True, st, s)
      else let nTargetHeight = min (reached + 32) goal in
        Option.bind (collect_blocks (cs_index (n_cs s)) reached (GetAncestor (cs_index (n_cs s)) pindexMostWork nTargetHeight)) (\<lambda>vpindexToConnect.
        Option.bind (connect_blocks env pindexOldTip pindexMostWork (last vpindexToConnect) pblock fAlreadyChecked (rev vpindexToConnect) st s) (\<lambda>r.
          if fst r = System_Error then Some (False, snd r)
          else if fst r = All_Connected
          then connect_rounds env pindexOldTip pindexMostWork pblock fAlreadyChecked nTargetHeight (fst (snd r)) (snd (snd r))
          else Some (True, snd r))))"

definition ActivateBestChainStep ::
  "('d::{zero,one,plus,minus,times,divide,ord}, 'x) activate_env_scheme \<Rightarrow> nat \<Rightarrow> CBlock option \<Rightarrow> bool \<Rightarrow> CValidationState \<Rightarrow> 'd node \<Rightarrow>
   (bool \<times> CValidationState \<times> 'd node) option" where
  "ActivateBestChainStep env pindexMostWork pblock fAlreadyChecked st s =
     (let pindexOldTip = Tip (cs_chain (n_cs s)) in
      case FindFork (cs_index (n_cs s)) (cs_chain (n_cs s)) pindexMostWork of
        None \<Rightarrow> None
      | Some pindexFork \<Rightarrow>
          (case disconnect_to env pindexFork st s of
             None \<Rightarrow> None
           | Some (False, st1, s1) \<Rightarrow> Some (False, st1, s1)
           | Some (True, st1, s1) \<Rightarrow>
               connect_rounds env pindexOldTip pindexMostWork pblock (pblock \<noteq> None \<and> fAlreadyChecked)
                 (case pindexFork of None \<Rightarrow> -1 | Some f \<Rightarrow> int (bi_nHeight (cs_index (n_cs s1) ! f))) st1 s1))"

definition block_for :: "('d, 'x) activate_env_scheme \<Rightarrow> chain_state \<Rightarrow> CBlock option \<Rightarrow> nat \<Rightarrow> CBlock option" where
  "block_for env cs pblock p =
     (case pblock of None \<Rightarrow> None
      | Some b \<Rightarrow> if Some (Block_GetHash (ke_block (av_kernel env)) b) = Index_GetBlockHash (cs_index cs ! p) then Some b else None)"

text \<open>Nothing is written if there was nothing to do in the last round.\<close>

partial_function (option) ActivateBestChain ::
  "('d::{zero,one,plus,minus,times,divide,ord}, 'x) activate_env_scheme \<Rightarrow> CBlock option \<Rightarrow> bool \<Rightarrow> CValidationState \<Rightarrow> 'd node \<Rightarrow>
   (bool \<times> CValidationState \<times> 'd node) option" where
  "ActivateBestChain env pblock fAlreadyChecked st s =
     Option.bind (FindMostWorkChain (n_cs s)) (\<lambda>f.
       let s1 = s\<lparr>n_cs := snd f\<rparr> in
       case fst f of
         None \<Rightarrow> Some (True, st, s1)
       | Some p \<Rightarrow>
           if Tip (cs_chain (n_cs s1)) = Some p then Some (True, st, s1)
           else Option.bind (ActivateBestChainStep env p (block_for env (n_cs s1) pblock p) fAlreadyChecked st s1) (\<lambda>r.
             if \<not> fst r then Some (False, snd r)
             else if Tip (cs_chain (n_cs (snd (snd r)))) = Some p
             then FlushStateToDisk env FLUSH_STATE_PERIODIC (fst (snd r)) (snd (snd r))
             else ActivateBestChain env pblock fAlreadyChecked (fst (snd r)) (snd (snd r))))"

section \<open>Invalidating a block\<close>

partial_function (option) leave_block ::
  "('d::{zero,one,plus,minus,times,divide,ord}, 'x) activate_env_scheme \<Rightarrow> nat \<Rightarrow> CValidationState \<Rightarrow> 'd node \<Rightarrow> (bool \<times> CValidationState \<times> 'd node) option" where
  "leave_block env p st s =
     (if \<not> Contains (cs_index (n_cs s)) (cs_chain (n_cs s)) p then Some (True, st, s)
      else case Tip (cs_chain (n_cs s)) of
        None \<Rightarrow> None
      | Some t \<Rightarrow>
          Option.bind (DisconnectTip env st (s\<lparr>n_cs := cand_erase t (mark_dirty t (set_block t (add_status BLOCK_FAILED_CHILD) (n_cs s)))\<rparr>)) (\<lambda>r.
            if \<not> fst r then Some (False, snd r) else leave_block env p (fst (snd r)) (snd (snd r))))"

definition InvalidateBlock ::
  "('d::{zero,one,plus,minus,times,divide,ord}, 'x) activate_env_scheme \<Rightarrow> nat \<Rightarrow> CValidationState \<Rightarrow> 'd node \<Rightarrow> (bool \<times> CValidationState \<times> 'd node) option" where
  "InvalidateBlock env p st s =
     (case leave_block env p st (s\<lparr>n_cs := cand_erase p (mark_dirty p (set_block p (add_status BLOCK_FAILED_VALID) (n_cs s)))\<rparr>) of
        None \<Rightarrow> None
      | Some (False, st1, s1) \<Rightarrow> Some (False, st1, s1)
      | Some (True, st1, s1) \<Rightarrow>
          Option.bind (readd_candidates (n_cs s1)) (\<lambda>cs.
            map_option (\<lambda>cs'. (True, st1, s1\<lparr>n_cs := cs'\<rparr>)) (InvalidChainFound p cs)))"


declare disconnect_to.simps [code] collect_blocks.simps [code] connect_rounds.simps [code] ActivateBestChain.simps [code] leave_block.simps [code]

end
