(* ===== verification/Activate_Chain.thy ===== *)
theory Activate_Chain
  imports Activate Chain_Select_Props Connect_Props
begin

text \<open>
  What the activation of the best chain does to the tree of headers and to the active chain: the chain stays a path
  to its tip, blocks only lose their standing, and when the activation ends no better usable candidate is left.
\<close>

section \<open>What is kept of a block\<close>

text \<open>The links and the keys of a block do not change, and a block that counts as usable did so before.\<close>

definition block_kept :: "CBlockIndex \<Rightarrow> CBlockIndex \<Rightarrow> bool" where
  "block_kept b b' \<longleftrightarrow>
     phashBlock b' = phashBlock b \<and> pprev b' = pprev b \<and> pskip b' = pskip b \<and> bi_nHeight b' = bi_nHeight b \<and>
     nChainWork b' = nChainWork b \<and> nChainTx b' = nChainTx b \<and> nSequenceId b' = nSequenceId b \<and>
     (has_data b' \<and> \<not> block_failed b' \<longrightarrow> has_data b \<and> \<not> block_failed b)"

definition store_kept :: "block_store \<Rightarrow> block_store \<Rightarrow> bool" where
  "store_kept st st' \<longleftrightarrow> length st' = length st \<and> (\<forall>r < length st. block_kept (st ! r) (st' ! r))"

definition state_kept :: "chain_state \<Rightarrow> chain_state \<Rightarrow> bool" where
  "state_kept s s' \<longleftrightarrow>
     store_kept (cs_index s) (cs_index s') \<and> (\<exists>P. cs_candidates s' = filter P (cs_candidates s)) \<and> cs_map s' = cs_map s"

lemma block_kept_refl [simp]: "block_kept b b"
  by (simp add: block_kept_def)

lemma block_kept_trans: "block_kept a b \<Longrightarrow> block_kept b c \<Longrightarrow> block_kept a c"
  by (simp add: block_kept_def)

lemma store_kept_refl [simp]: "store_kept st st"
  by (simp add: store_kept_def)

lemma store_kept_trans: "store_kept a b \<Longrightarrow> store_kept b c \<Longrightarrow> store_kept a c"
  by (auto simp: store_kept_def intro: block_kept_trans)

lemma filter_self: "\<exists>P. xs = filter P xs"
  by (rule exI [of _ "\<lambda>_. True"]) simp

lemma state_kept_refl [simp]: "state_kept s s"
  by (simp add: state_kept_def filter_self)

lemma state_kept_trans: "state_kept a b \<Longrightarrow> state_kept b c \<Longrightarrow> state_kept a c"
  by (auto simp: state_kept_def intro: store_kept_trans)

lemma state_keptI:
  "store_kept (cs_index s) (cs_index s') \<Longrightarrow> cs_candidates s' = cs_candidates s \<Longrightarrow> cs_map s' = cs_map s \<Longrightarrow> state_kept s s'"
  by (simp add: state_kept_def filter_self)

lemma store_kept_update: "block_kept (st ! p) b \<Longrightarrow> store_kept st (st[p := b])"
  by (cases "p < length st") (auto simp: store_kept_def nth_list_update)

lemma store_kept_nth: "store_kept st st' \<Longrightarrow> block_kept (st ! r) (st' ! r)"
  using nth_beyond [of st' st r] by (cases "r < length st") (auto simp: store_kept_def)

lemma store_kept_fields:
  assumes "store_kept st st'"
  shows "phashBlock (st' ! r) = phashBlock (st ! r)" "pprev (st' ! r) = pprev (st ! r)" "pskip (st' ! r) = pskip (st ! r)"
    "bi_nHeight (st' ! r) = bi_nHeight (st ! r)" "nChainWork (st' ! r) = nChainWork (st ! r)" "nChainTx (st' ! r) = nChainTx (st ! r)"
    "nSequenceId (st' ! r) = nSequenceId (st ! r)" "length st' = length st"
  using store_kept_nth [OF assms, of r] assms by (auto simp: block_kept_def store_kept_def)

lemma store_kept_links: "store_kept st st' \<Longrightarrow> same_links st st'"
  by (simp add: same_links_def store_kept_fields)

lemma store_kept_skips: "store_kept st st' \<Longrightarrow> skips_ok st' = skips_ok st"
  by (simp add: skips_ok_def skip_ok_def list_all_iff anc_def store_kept_fields same_links_up [OF store_kept_links])

lemma store_kept_work_less: "store_kept st st' \<Longrightarrow> work_less st' = work_less st"
  by (simp add: fun_eq_iff work_less_def store_kept_fields)

lemma store_kept_linked: "store_kept st st' \<Longrightarrow> linked st' p = linked st p"
  by (simp add: linked_def same_links_ancestors [OF store_kept_links] store_kept_fields)

lemma state_kept_candidates: "candidates_ok s \<Longrightarrow> state_kept s s' \<Longrightarrow> candidates_ok s'"
  unfolding candidates_ok_def state_kept_def
  by (auto simp: store_kept_work_less store_kept_linked store_kept_fields(8) sorted_wrt_filter list_all_iff)

lemma same_tree_kept:
  assumes "same_tree st st'" "\<And>r. r < length st \<Longrightarrow> has_data (st' ! r) \<and> \<not> block_failed (st' ! r) \<Longrightarrow> has_data (st ! r) \<and> \<not> block_failed (st ! r)"
  shows "store_kept st st'"
proof -
  have "phashBlock (st' ! r) = phashBlock (st ! r)" "pskip (st' ! r) = pskip (st ! r)" for r
    using same_tree_nth [OF assms(1), of r] by (auto dest: arg_cong [where f = phashBlock] arg_cong [where f = pskip])
  then show ?thesis using assms(2) by (simp add: store_kept_def block_kept_def same_tree_fields [OF assms(1)])
qed

section \<open>The operations on the tree\<close>

lemma failed_more:
  assumes "f AND BLOCK_HAVE_DATA = 0" "has_data (add_status f b)" "\<not> block_failed (add_status f b)"
  shows "has_data b" "\<not> block_failed b"
  using assms by (simp_all add: word_ao_dist or_eq_0_iff)

lemma set_block_kept: "block_kept (cs_index s ! p) (f (cs_index s ! p)) \<Longrightarrow> state_kept s (set_block p f s)"
  by (rule state_keptI) (simp_all add: set_block_def store_kept_update)

lemma add_failed_kept:
  "f AND BLOCK_HAVE_DATA = 0 \<Longrightarrow> state_kept s (set_block p (add_status f) s)"
  by (rule set_block_kept) (simp add: block_kept_def failed_more)

lemma failed_flags: "BLOCK_FAILED_CHILD AND BLOCK_HAVE_DATA = 0" "BLOCK_FAILED_VALID AND BLOCK_HAVE_DATA = 0"
  by (simp_all add: BLOCK_FAILED_CHILD_def BLOCK_FAILED_VALID_def BLOCK_HAVE_DATA_def)

lemma cand_erase_kept: "state_kept s (cand_erase p s)"
  by (auto simp: state_kept_def cand_erase_def)

lemma mark_dirty_kept: "state_kept s (mark_dirty p s)"
  by (rule state_keptI) (simp_all add: mark_dirty_def)

lemma chain_ops [simp]:
  "cs_chain (set_block p f s) = cs_chain s" "cs_chain (cand_erase p s) = cs_chain s" "cs_chain (mark_dirty p s) = cs_chain s"
  by (simp_all add: set_block_def cand_erase_def mark_dirty_def)

text \<open>A step that keeps the state and the chain.\<close>

definition calm :: "chain_state \<Rightarrow> chain_state \<Rightarrow> bool" where
  "calm s s' \<longleftrightarrow> state_kept s s' \<and> cs_chain s' = cs_chain s"

lemma calm_refl [simp]: "calm s s"
  by (simp add: calm_def)

text \<open>The tree, the chain and the candidates are consistent.\<close>

definition headers_ok :: "chain_state \<Rightarrow> bool" where
  "headers_ok s \<longleftrightarrow>
     tree_ok (cs_index s) \<and> skips_ok (cs_index s) \<and> chain_ok (cs_index s) (cs_chain s) \<and> candidates_ok s"

lemma calm_trans: "calm a b \<Longrightarrow> calm b c \<Longrightarrow> calm a c"
  by (auto simp: calm_def intro: state_kept_trans)

lemma calm_same: "cs_index s' = cs_index s \<Longrightarrow> cs_candidates s' = cs_candidates s \<Longrightarrow> cs_map s' = cs_map s \<Longrightarrow> cs_chain s' = cs_chain s \<Longrightarrow> calm s s'"
  by (simp add: calm_def state_keptI)

lemma calm_failed: "f AND BLOCK_HAVE_DATA = 0 \<Longrightarrow> calm s (set_block p (add_status f) s)"
  by (simp add: calm_def add_failed_kept)

lemma calm_erase: "calm s (cand_erase p s)"
  by (simp add: calm_def cand_erase_kept)

lemma calm_dirty: "calm s (mark_dirty p s)"
  by (simp add: calm_def mark_dirty_kept)

lemma InvalidChainFound_calm: "InvalidChainFound p s = Some s' \<Longrightarrow> calm s s'"
  by (auto simp: InvalidChainFound_def split: if_splits option.splits intro!: calm_same)

lemma mark_failed_calm:
  "f AND BLOCK_HAVE_DATA = 0 \<Longrightarrow> calm s (cand_erase p (mark_dirty q (set_block r (add_status f) s)))"
  by (rule calm_trans [OF calm_failed calm_trans [OF calm_dirty calm_erase]])

lemma InvalidBlockFound_calm:
  assumes "InvalidBlockFound known p st s = Some (effects, s')"
  shows "calm s s'"
proof (cases "corruptionPossible st")
  case True
  then show ?thesis using assms by (auto simp: InvalidBlockFound_def bind_eq_Some_conv)
next
  case False
  let ?s = "cand_erase p (mark_dirty p (set_block p (add_status BLOCK_FAILED_VALID) s))"
  have "InvalidChainFound p ?s = Some s'" using assms False by (auto simp: InvalidBlockFound_def bind_eq_Some_conv)
  from calm_trans [OF mark_failed_calm [OF failed_flags(2)] InvalidChainFound_calm [OF this]] show ?thesis .
qed

lemma PruneBlockIndexCandidates_calm:
  assumes "PruneBlockIndexCandidates s = Some s'" "candidates_ok s"
  shows "calm s s'"
proof -
  obtain t where tip: "Tip (cs_chain s) = Some t" using assms(1) by (auto simp: PruneBlockIndexCandidates_def split: list.splits option.splits)
  have t: "s' = s\<lparr>cs_candidates := dropWhile (\<lambda>p. work_less (cs_index s) p t) (cs_candidates s)\<rparr>"
    using assms(1) tip unfolding PruneBlockIndexCandidates_def Let_def by (auto simp del: dropWhile.simps split: list.splits if_split_asm)
  have "dropWhile (\<lambda>p. work_less (cs_index s) p t) cs = filter (\<lambda>p. \<not> work_less (cs_index s) p t) cs"
    if "sorted_wrt (work_less (cs_index s)) cs" for cs
    using that by (induction cs) (auto intro!: filter_True [symmetric] dest: work_less_trans)
  then show ?thesis using assms(2) by (auto simp: t calm_def state_kept_def candidates_ok_def)
qed

lemma drop_branch_calm:
  assumes "drop_branch f q b s = Some s'"
  shows "calm s s'"
proof (rule drop_branch.raw_induct [where P = "\<lambda>f q b s s'. calm s s'", OF _ assms])
  fix drop f q b s s'
  assume IH: "\<And>f q b s s'. drop f q b s = Some s' \<Longrightarrow> calm s s'"
    and eq: "(case b of None \<Rightarrow> None
       | Some p \<Rightarrow> if p = q then Some s
           else let up = pprev (cs_index s ! p);
                    s1 = if f then set_block p (add_status BLOCK_FAILED_CHILD) s else s\<lparr>cs_unlinked := cs_unlinked s @ [(up, p)]\<rparr>
                in drop f q up (cand_erase p s1)) = Some s'"
  show "calm s s'"
  proof (cases "b = Some q")
    case True
    then show ?thesis using eq by simp
  next
    case False
    then obtain p where p: "b = Some p" "p \<noteq> q" using eq by (cases b) auto
    let ?s1 = "if f then set_block p (add_status BLOCK_FAILED_CHILD) s else s\<lparr>cs_unlinked := cs_unlinked s @ [(pprev (cs_index s ! p), p)]\<rparr>"
    have "calm s ?s1" using calm_failed [OF failed_flags(1), of s p] by (simp add: calm_same)
    moreover have "calm (cand_erase p ?s1) s'" using eq p by (intro IH) (simp add: Let_def)
    ultimately show ?thesis using calm_erase calm_trans by blast
  qed
qed

lemma FindMostWorkChain_calm:
  assumes "FindMostWorkChain s = Some r"
  shows "calm s (snd r)"
proof (rule FindMostWorkChain.raw_induct [where P = "\<lambda>s r. calm s (snd r)", OF _ assms])
  fix find :: "chain_state \<Rightarrow> (nat option \<times> chain_state) option" and s :: chain_state and r
  let ?p = "last (cs_candidates s)"
  let ?better = "\<lambda>q. block_failed (cs_index s ! q) \<and>
      (case cs_best_invalid s of None \<Rightarrow> True | Some b \<Rightarrow> nChainWork (cs_index s ! b) < nChainWork (cs_index s ! ?p))"
  let ?s1 = "\<lambda>q. if ?better q then s\<lparr>cs_best_invalid := Some ?p\<rparr> else s"
  assume IH: "\<And>s r. find s = Some r \<Longrightarrow> calm s (snd r)"
    and eq: "(if cs_candidates s = [] then Some (None, s)
      else let p = ?p
           in case find_unusable (cs_index s) (cs_chain s) (Some p) of None \<Rightarrow> None | Some None \<Rightarrow> Some (Some p, s)
              | Some (Some q) \<Rightarrow>
                  let failed = block_failed (cs_index s ! q);
                      better = case cs_best_invalid s of None \<Rightarrow> True | Some b \<Rightarrow> nChainWork (cs_index s ! b) < nChainWork (cs_index s ! p);
                      s1 = if failed \<and> better then s\<lparr>cs_best_invalid := Some p\<rparr> else s
                  in Option.bind (drop_branch failed q (Some p) s1) (\<lambda>s2. find (cand_erase q s2))) = Some r"
  show "calm s (snd r)"
  proof (cases "\<exists>q. cs_candidates s \<noteq> [] \<and> find_unusable (cs_index s) (cs_chain s) (Some ?p) = Some (Some q)")
    case False
    then show ?thesis using eq by (auto simp: Let_def split: if_splits option.splits)
  next
    case True
    then obtain q where q: "find_unusable (cs_index s) (cs_chain s) (Some ?p) = Some (Some q)" "cs_candidates s \<noteq> []" by blast
    then obtain s2 where s2: "drop_branch (block_failed (cs_index s ! q)) q (Some ?p) (?s1 q) = Some s2" "find (cand_erase q s2) = Some r"
      using eq by (auto simp: Let_def bind_eq_Some_conv)
    have "calm s (?s1 q)" by (simp add: calm_same)
    from calm_trans [OF this calm_trans [OF drop_branch_calm [OF s2(1)] calm_trans [OF calm_erase IH [OF s2(2)]]]] show ?thesis .
  qed
qed

lemma state_kept_length: "state_kept s s' \<Longrightarrow> length (cs_index s') = length (cs_index s)"
  by (simp add: state_kept_def store_kept_def)

lemma calm_length: "calm s s' \<Longrightarrow> length (cs_index s') = length (cs_index s)"
  by (simp add: calm_def state_kept_length)

lemma calm_headers:
  assumes "headers_ok s" "calm s s'"
  shows "headers_ok s'"
proof -
  have k: "store_kept (cs_index s) (cs_index s')" "cs_chain s' = cs_chain s" using assms(2) by (simp_all add: calm_def state_kept_def)
  show ?thesis
    using assms state_kept_candidates [of s s'] same_links_tree_ok [OF store_kept_links [OF k(1)]]
      same_links_chain_ok [OF store_kept_links [OF k(1)]] store_kept_skips [OF k(1)]
    by (simp add: headers_ok_def k(2) calm_def)
qed

section \<open>The entry of a connected block\<close>

lemma RaiseValidity_kept: "block_kept b (snd (RaiseValidity BLOCK_VALID_SCRIPTS b))"
proof -
  have "has_data (snd (RaiseValidity BLOCK_VALID_SCRIPTS b)) = has_data b"
    "\<not> block_failed b \<or> block_failed (snd (RaiseValidity BLOCK_VALID_SCRIPTS b))"
    by (auto simp: RaiseValidity_def BLOCK_VALID_SCRIPTS_def BLOCK_VALID_MASK_def BLOCK_HAVE_DATA_def word_ao_dist and.assoc)
  then show ?thesis by (auto simp: block_kept_def) (auto simp: RaiseValidity_def)
qed

lemma write_undo_kept:
  assumes "write_undo disk undo hp st p = (ok, st', p', d, ws)"
  shows "block_kept p p'"
proof -
  have "block_kept p (p\<lparr>nUndoPos := pos, nStatus := nStatus p OR BLOCK_HAVE_UNDO\<rparr>)" for pos
    by (simp add: block_kept_def word_ao_dist BLOCK_HAVE_UNDO_def BLOCK_HAVE_DATA_def or_eq_0_iff)
  then show ?thesis using assms
    unfolding write_undo_def by (auto split: if_splits option.splits intro: RaiseValidity_kept block_kept_trans [OF _ RaiseValidity_kept])
qed

lemma settle_block_kept:
  assumes "settle_block se disk env block just hp st p stakes rej w = Some r"
  shows "block_kept p (cr_index r)"
proof -
  have F: "block_kept p (cr_index r)"
    if "finish_block disk env block hp st (p\<lparr>nMoneySupply := a, nMint := b\<rparr>) stakes rej ws w = Some r" for a b ws
  proof -
    let ?p = "p\<lparr>nMoneySupply := a, nMint := b\<rparr>"
    obtain ok st' p' d ws' where u: "write_undo disk (bw_undo w) hp st ?p = (ok, st', p', d, ws')" by (metis prod_cases5)
    have "cr_index r = p'" using that u by (auto simp: finish_block_def Let_def split: bool.splits if_splits)
    moreover have "block_kept p ?p" by (simp add: block_kept_def)
    ultimately show ?thesis using write_undo_kept [OF u] block_kept_trans by blast
  qed
  show ?thesis using assms F
    by (auto simp: settle_block_def Let_def bind_eq_Some_conv block_kept_def split: if_splits option.splits)
qed

lemma connect_checked_kept:
  assumes "connect_checked se disk env B block st p view just stakes rej = Some r"
  shows "block_kept p (cr_index r)"
proof -
  obtain best c0 where g: "GetBestBlock B view = (best, c0)" by fastforce
  obtain b c1 where c1: "(if phashBlock p = None then bip30_loop (be_Hash env) B c0 (vtx block) else (True, c0)) = (b, c1)" by fastforce
  define run where "run total = connect_loop se env B (total \<le> int (bi_nHeight p)) connect_flags
      (io_ScriptCheckThreads disk) (int (bi_nHeight p)) st (zip [0 ..< length (vtx block)] (vtx block))
      \<lparr>bw_view = c1, bw_sigops = 0, bw_fees = 0, bw_in = 0, bw_out = 0, bw_undo = [], bw_checks = [], bw_pos = [],
       bw_offset = GetSizeOfCompactSize (word_of_nat (length (vtx block)))\<rparr>" for total
  note C = assms [unfolded connect_checked_def g prod.case Let_def c1, folded run_def]
  show ?thesis
    using C settle_block_kept by (auto simp: bind_eq_Some_conv split: if_split_asm option.split_asm sum.split_asm bool.split_asm)
qed

lemma ConnectBlock_kept:
  assumes "ConnectBlock se disk env B block st p view just fAC stakes rej = Some r"
  shows "block_kept p (cr_index r)"
  using assms connect_checked_kept by (auto simp: ConnectBlock_def split: if_splits option.splits bool.splits)

section \<open>Steps of the node\<close>

text \<open>A step keeps the state of the headers consistent and loses nothing.\<close>

definition steady :: "'d node \<Rightarrow> 'd node \<Rightarrow> bool" where
  "steady s s' \<longleftrightarrow> (headers_ok (n_cs s) \<longrightarrow> headers_ok (n_cs s') \<and> state_kept (n_cs s) (n_cs s'))"

lemma steady_refl [simp]: "steady s s"
  by (simp add: steady_def)

lemma steady_trans: "steady a b \<Longrightarrow> steady b c \<Longrightarrow> steady a c"
  by (auto simp: steady_def intro: state_kept_trans)

lemma steady_calm: "calm (n_cs s) (n_cs s') \<Longrightarrow> steady s s'"
  by (auto simp: steady_def calm_headers) (simp add: calm_def)

lemma steady_same [simp]: "n_cs s' = n_cs s \<Longrightarrow> steady s s'"
  by (simp add: steady_def)

lemma FlushStateToDisk_cs:
  assumes "FlushStateToDisk env m st s = Some (ok, st', s')"
  shows "n_cs s' = n_cs s \<or> n_cs s' = (n_cs s)\<lparr>cs_dirty := []\<rparr>"
  using assms by (auto simp: FlushStateToDisk_def Let_def split: if_split_asm option.split_asm bool.split_asm)

lemma FlushStateToDisk_calm:
  assumes "FlushStateToDisk env m st s = Some (ok, st', s')"
  shows "calm (n_cs s) (n_cs s')"
  using FlushStateToDisk_cs [OF assms] by (auto intro: calm_same)

lemma path_headers:
  assumes "headers_ok s" "p < length (cs_index s)"
  shows "headers_ok (s\<lparr>cs_chain := path (cs_index s) p\<rparr>)"
  using assms by (simp add: headers_ok_def path_ok candidates_ok_def)

lemma UpdateTip_steady:
  assumes "UpdateTip (Some p) s = Some s'" "p < length (cs_index (n_cs s))"
  shows "steady s s'"
  using assms path_headers [of "n_cs s" p]
  by (auto simp: UpdateTip_def steady_def headers_ok_def SetTip_path intro: state_keptI)

lemma resurrect_cs: "resurrect env txs s = Some s' \<Longrightarrow> n_cs s' = n_cs s"
  by (induction txs arbitrary: s) (fastforce simp: bind_eq_Some_conv split: if_splits)+

lemma disconnect_coins_cs: "disconnect_coins env block p s = Some (ok, s') \<Longrightarrow> n_cs s' = n_cs s"
  by (auto simp: disconnect_coins_def Let_def split: option.splits prod.splits if_splits bool.splits)

text \<open>The ways through \<^verbatim>\<open>DisconnectTip\<close> and \<^verbatim>\<open>ConnectTip\<close>.\<close>

lemma DisconnectTip_ways:
  assumes "DisconnectTip env st s = Some (ok, st', s')"
  obtains (unread) "\<not> ok" "st' = State_Error st ''Failed to read block''" "s' = s"
  | (refused) p block where "\<not> ok" "st' = st" "Tip (cs_chain (n_cs s)) = Some p" "disconnect_coins env block p s = Some (False, s')"
  | (unwritten) p block s1 where "\<not> ok" "Tip (cs_chain (n_cs s)) = Some p" "disconnect_coins env block p s = Some (True, s1)"
      "FlushStateToDisk env FLUSH_STATE_ALWAYS st s1 = Some (False, st', s')"
  | (gone) p q block s1 s2 s3 pool tip where "ok" "Tip (cs_chain (n_cs s)) = Some p" "disconnect_coins env block p s = Some (True, s1)"
      "FlushStateToDisk env FLUSH_STATE_ALWAYS st s1 = Some (True, st', s2)" "resurrect env (vtx block) s2 = Some s3"
      "removeCoinbaseSpends (av_Hash env) False (be_Params (be_at env (n_cs s3))) db_ops
         (of_nat (bi_nHeight (cs_index (n_cs s3) ! p))) (n_pool s3) (n_tip s3) = Some (pool, tip)"
      "pprev (cs_index (n_cs s3) ! p) = Some q" "UpdateTip (Some q) (s3\<lparr>n_pool := pool, n_tip := tip\<rparr>) = Some s'"
proof -
  obtain p where p: "Tip (cs_chain (n_cs s)) = Some p" using assms by (auto simp: DisconnectTip_def split: option.splits)
  note D = assms [unfolded DisconnectTip_def p option.case]
  obtain rb where rb: "ReadBlockFromDisk (ke_at (av_kernel env) (n_cs s)) (cs_index (n_cs s) ! p) = Some rb"
    using D by (auto split: option.splits)
  show thesis
  proof (cases rb)
    case None
    then show ?thesis using D rb unread by auto
  next
    case (Some block)
    obtain ok1 s1 where s1: "disconnect_coins env block p s = Some (ok1, s1)" using D rb Some by (auto split: option.splits)
    show ?thesis
    proof (cases ok1)
      case False
      then show ?thesis using D rb Some s1 p refused by auto
    next
      case True
      obtain ok2 st2 s2 where s2: "FlushStateToDisk env FLUSH_STATE_ALWAYS st s1 = Some (ok2, st2, s2)"
        using D rb Some s1 True by (auto split: option.splits)
      show ?thesis
      proof (cases ok2)
        case False
        then show ?thesis using D rb Some s1 s2 True p unwritten by auto
      next
        case ok2: True
        then show ?thesis using D rb Some s1 s2 True p gone by (auto simp: bind_eq_Some_conv UpdateTip_def split: if_split_asm)
      qed
    qed
  qed
qed

lemma DisconnectTip_steady:
  assumes "DisconnectTip env st s = Some (ok, st', s')"
  shows "steady s s'"
  using assms
proof (cases rule: DisconnectTip_ways)
  case refused
  then show ?thesis by (simp add: disconnect_coins_cs)
next
  case unwritten
  then show ?thesis using FlushStateToDisk_calm disconnect_coins_cs by (metis steady_calm)
next
  case (gone p q block s1 s2 s3 pool tip)
  have c: "calm (n_cs s) (n_cs s3)"
    using FlushStateToDisk_calm [OF gone(4)] disconnect_coins_cs [OF gone(3)] resurrect_cs [OF gone(5)] by simp
  have "steady (s3\<lparr>n_pool := pool, n_tip := tip\<rparr>) s'" if "headers_ok (n_cs s)"
  proof (rule UpdateTip_steady [OF gone(8)])
    have "tree_ok (cs_index (n_cs s3))" using calm_headers [OF that c] by (simp add: headers_ok_def)
    moreover have "p < length (cs_index (n_cs s3))" using that gone(2) calm_length [OF c]
      by (auto simp: headers_ok_def chain_ok_def)
    ultimately show "q < length (cs_index (n_cs (s3\<lparr>n_pool := pool, n_tip := tip\<rparr>)))" using tree_parent(1) gone(7) by simp
  qed
  then show ?thesis using steady_calm [OF c] by (auto simp: steady_def intro: state_kept_trans)
qed simp

lemma after_connect_calm:
  assumes "block_kept (cs_index (n_cs s) ! p) (cr_index r)"
  shows "calm (n_cs s) (n_cs (after_connect p r s))"
proof -
  have "calm (n_cs s) (set_block p (\<lambda>_. cr_index r) (n_cs s))" using assms by (simp add: calm_def set_block_kept)
  then show ?thesis using calm_trans [OF _ calm_dirty] by (simp add: after_connect_def Let_def)
qed

lemma connect_coins_calm:
  assumes "connect_coins env p block fAC st s = Some (ok, st', s')"
  shows "calm (n_cs s) (n_cs s')"
proof -
  obtain r where r: "ConnectBlock (ke_sig (av_kernel env)) (av_io env p) (be_at env (n_cs s)) tip_ops block st (cs_index (n_cs s) ! p)
      (make_cache (n_tip s)) False fAC (n_stakes s) (n_rejected s) = Some r"
    using assms by (auto simp: connect_coins_def split: option.splits)
  let ?s1 = "after_connect p r s"
  have c: "calm (n_cs s) (n_cs ?s1)" by (rule after_connect_calm [OF ConnectBlock_kept [OF r]])
  show ?thesis
  proof (cases "cr_ok r")
    case False
    then have "n_cs s' = n_cs ?s1 \<or>
        (\<exists>effects. InvalidBlockFound (av_known env) p (cr_state r) (n_cs ?s1) = Some (effects, n_cs s'))"
      using assms r by (auto simp: connect_coins_def Let_def split: if_split_asm)
    then show ?thesis using c calm_trans InvalidBlockFound_calm by metis
  next
    case True
    then obtain h where "n_cs s' = (n_cs ?s1)\<lparr>cs_source := (cs_source (n_cs ?s1))(h := None)\<rparr>"
      using assms r by (auto simp: connect_coins_def Let_def split: option.split_asm bool.split_asm)
    then have "calm (n_cs ?s1) (n_cs s')" by (simp add: calm_same)
    then show ?thesis using c calm_trans by blast
  qed
qed

lemma ConnectTip_ways:
  assumes "ConnectTip env p pblock fAC st s = Some (ok, st', s')"
  obtains (unread) "\<not> ok" "st' = State_Error st ''Failed to read block''" "s' = s"
  | (refused) block where "\<not> ok" "connect_coins env p block (pblock \<noteq> None \<and> fAC) st s = Some (False, st', s')"
  | (unwritten) block st1 s1 m where "\<not> ok" "connect_coins env p block (pblock \<noteq> None \<and> fAC) st s = Some (True, st1, s1)"
      "FlushStateToDisk env m st1 s1 = Some (False, st', s')"
  | (added) block st1 s1 m s2 es pool conflicts where "ok" "pprev (cs_index (n_cs s) ! p) = Tip (cs_chain (n_cs s))"
      "(case pblock of Some b \<Rightarrow> Some (Some b) | None \<Rightarrow> ReadBlockFromDisk (ke_at (av_kernel env) (n_cs s)) (cs_index (n_cs s) ! p)) = Some (Some block)"
      "connect_coins env p block (pblock \<noteq> None \<and> fAC) st s = Some (True, st1, s1)"
      "FlushStateToDisk env m st1 s1 = Some (True, st', s2)"
      "removeForBlock (av_Hash env) (vtx block) (n_pool s2, []) = Some (es, pool, conflicts)"
      "UpdateTip (Some p) (s2\<lparr>n_pool := pool\<rparr>) = Some s'"
proof -
  have prev: "pprev (cs_index (n_cs s) ! p) = Tip (cs_chain (n_cs s))" using assms by (auto simp: ConnectTip_def split: if_splits)
  let ?rb = "case pblock of Some b \<Rightarrow> Some (Some b) | None \<Rightarrow> ReadBlockFromDisk (ke_at (av_kernel env) (n_cs s)) (cs_index (n_cs s) ! p)"
  obtain rb where rb: "?rb = Some rb" using assms prev by (cases ?rb) (auto simp: ConnectTip_def)
  note C = assms [unfolded ConnectTip_def, folded prev, unfolded rb]
  show thesis
  proof (cases rb)
    case None
    then show ?thesis using C unread by auto
  next
    case (Some block)
    obtain ok1 st1 s1 where s1: "connect_coins env p block (pblock \<noteq> None \<and> fAC) st s = Some (ok1, st1, s1)"
      using C Some by (auto split: option.splits)
    show ?thesis
    proof (cases ok1)
      case False
      then show ?thesis using C Some s1 refused by auto
    next
      case True
      let ?m = "if new_file (cs_index (n_cs s1)) p then FLUSH_STATE_ALWAYS else FLUSH_STATE_IF_NEEDED"
      obtain ok2 st2 s2 where s2: "FlushStateToDisk env ?m st1 s1 = Some (ok2, st2, s2)"
        using C Some s1 True by (cases "FlushStateToDisk env ?m st1 s1") auto
      show ?thesis
      proof (cases ok2)
        case False
        then show ?thesis using C Some s1 s2 True unwritten by auto
      next
        case ok2: True
        then show ?thesis using C Some s1 s2 True added prev rb by (auto simp: bind_eq_Some_conv)
      qed
    qed
  qed
qed

lemma ConnectTip_steady:
  assumes "ConnectTip env p pblock fAC st s = Some (ok, st', s')" "p < length (cs_index (n_cs s))"
  shows "steady s s'"
  using assms(1)
proof (cases rule: ConnectTip_ways)
  case refused
  then show ?thesis using connect_coins_calm steady_calm by blast
next
  case unwritten
  then show ?thesis using FlushStateToDisk_calm connect_coins_calm calm_trans steady_calm by metis
next
  case (added block st1 s1 m s2 es pool conflicts)
  have c: "calm (n_cs s) (n_cs s2)" using connect_coins_calm [OF added(4)] FlushStateToDisk_calm [OF added(5)] calm_trans by blast
  have "p < length (cs_index (n_cs (s2\<lparr>n_pool := pool\<rparr>)))" using calm_length [OF c] assms(2) by simp
  from UpdateTip_steady [OF added(7) this] have "steady s2 s'" by (simp add: steady_def)
  then show ?thesis using steady_calm [OF c] steady_trans by blast
qed simp

section \<open>Towards the best chain\<close>

lemma disconnect_to_steady:
  assumes "disconnect_to env fork st s = Some r"
  shows "steady s (snd (snd r))"
proof (rule disconnect_to.raw_induct [where P = "\<lambda>env fork st s r. steady s (snd (snd r))", OF _ assms])
  fix go and env :: "('a, 'b) activate_env_scheme" and fork st s r
  assume IH: "\<And>env fork st s r. go env fork st s = Some r \<Longrightarrow> steady s (snd (snd r))"
    and eq: "(if Tip (cs_chain (n_cs s)) = None \<or> Tip (cs_chain (n_cs s)) = fork then Some (True, st, s)
      else Option.bind (DisconnectTip env st s) (\<lambda>r.
        if \<not> fst r then Some (False, fst (snd r), snd (snd r)) else go env fork (fst (snd r)) (snd (snd r)))) = Some r"
  show "steady s (snd (snd r))"
  proof (cases "Tip (cs_chain (n_cs s)) = None \<or> Tip (cs_chain (n_cs s)) = fork")
    case True
    then show ?thesis using eq by auto
  next
    case False
    then obtain ok st1 s1 where d: "DisconnectTip env st s = Some (ok, st1, s1)" using eq by (auto simp: bind_eq_Some_conv)
    show ?thesis
    proof (cases ok)
      case True
      then have "go env fork st1 s1 = Some r" using eq d False by simp
      from steady_trans [OF DisconnectTip_steady [OF d] IH [OF this]] show ?thesis .
    next
      case ok: False
      then have "snd (snd r) = s1" using eq d False by auto
      then show ?thesis using DisconnectTip_steady [OF d] by simp
    qed
  qed
qed

lemma collect_blocks_range:
  assumes "collect_blocks st h q = Some ps"
  shows "tree_ok st \<longrightarrow> (\<forall>p. q = Some p \<longrightarrow> p < length st) \<longrightarrow> set ps \<subseteq> {..< length st}"
proof (rule collect_blocks.raw_induct [where P = "\<lambda>st h q ps. tree_ok st \<longrightarrow> (\<forall>p. q = Some p \<longrightarrow> p < length st) \<longrightarrow> set ps \<subseteq> {..< length st}", OF _ assms])
  fix go and st :: block_store and h q ps
  assume IH: "\<And>st h q ps. go st h q = Some ps \<Longrightarrow> tree_ok st \<longrightarrow> (\<forall>p. q = Some p \<longrightarrow> p < length st) \<longrightarrow> set ps \<subseteq> {..< length st}"
    and eq: "(case q of None \<Rightarrow> Some []
      | Some p \<Rightarrow> if int (bi_nHeight (st ! p)) = h then Some [] else Option.bind (go st h (pprev (st ! p))) (\<lambda>ps. Some (p # ps))) = Some ps"
  show "tree_ok st \<longrightarrow> (\<forall>p. q = Some p \<longrightarrow> p < length st) \<longrightarrow> set ps \<subseteq> {..< length st}"
  proof (intro impI)
    assume tree: "tree_ok st" and q: "\<forall>p. q = Some p \<longrightarrow> p < length st"
    show "set ps \<subseteq> {..< length st}"
    proof (cases "ps = []")
      case False
      then obtain p ps1 where p: "q = Some p" "go st h (pprev (st ! p)) = Some ps1" "ps = p # ps1"
        using eq by (auto simp: bind_eq_Some_conv split: option.splits if_splits)
      then show ?thesis using IH [OF p(2)] tree q tree_parent(1) [OF tree] by auto
    qed simp
  qed
qed

lemma connect_blocks_steady:
  "connect_blocks env old most lowest pblock fAC ps st s = Some (out, st', s') \<Longrightarrow> set ps \<subseteq> {..< length (cs_index (n_cs s))} \<Longrightarrow> steady s s'"
proof (induction ps arbitrary: st s)
  case (Cons p ps)
  obtain ok st1 s1 where c: "ConnectTip env p (if p = most then pblock else None) fAC st s = Some (ok, st1, s1)"
    using Cons.prems(1) by (auto split: option.splits)
  have s1: "steady s s1" using ConnectTip_steady [OF c] Cons.prems(2) by simp
  show ?case
  proof (cases ok)
    case False
    then have "n_cs s' = n_cs s1 \<or> InvalidChainFound lowest (n_cs s1) = Some (n_cs s')"
      using Cons.prems(1) c by (auto split: if_splits)
    then have "calm (n_cs s1) (n_cs s')" using InvalidChainFound_calm by force
    then show ?thesis using s1 steady_calm steady_trans by blast
  next
    case True
    obtain cs where cs: "PruneBlockIndexCandidates (n_cs s1) = Some cs" using Cons.prems(1) c True by (auto split: option.splits)
    let ?s2 = "s1\<lparr>n_cs := cs\<rparr>"
    have s2: "steady s ?s2"
    proof (rule steady_trans [OF s1])
      show "steady s1 ?s2" using PruneBlockIndexCandidates_calm [OF cs] calm_headers [of "n_cs s1" cs]
        by (auto simp: steady_def headers_ok_def calm_def)
    qed
    show ?thesis
    proof (cases "s' = ?s2")
      case False
      then have "connect_blocks env old most lowest pblock fAC ps st1 ?s2 = Some (out, st', s')"
        using Cons.prems(1) c True cs by (auto simp: Let_def split: option.splits if_splits)
      then have "headers_ok (n_cs s) \<Longrightarrow> steady ?s2 s'"
        using Cons.IH Cons.prems(2) s2 state_kept_length by (force simp: steady_def)
      then show ?thesis using s2 by (auto simp: steady_def intro: state_kept_trans)
    qed (use s2 in simp)
  qed
qed simp

lemma ancestor_range:
  assumes "headers_ok s" "p < length (cs_index s)" "GetAncestor (cs_index s) p h = Some q"
  shows "q < length (cs_index s)"
proof -
  have t: "tree_ok (cs_index s)" "skips_ok (cs_index s)" using assms(1) by (simp_all add: headers_ok_def)
  have h: "nat h \<le> bi_nHeight (cs_index s ! p)" "ancestor_walk (cs_index s) (nat h) p (bi_nHeight (cs_index s ! p)) = Some q"
    using assms(3) by (auto simp: GetAncestor_def split: if_splits)
  then have "anc (cs_index s) p (nat h) = Some q" using ancestor_walk_correct [OF t assms(2) refl h(1)] by simp
  then show ?thesis using anc_spec [OF t(1) assms(2) h(1)] by auto
qed

lemma connect_rounds_steady:
  assumes "connect_rounds env old most pblock fAC reached st s = Some r"
  shows "most < length (cs_index (n_cs s)) \<longrightarrow> steady s (snd (snd r))"
proof (rule connect_rounds.raw_induct [where P = "\<lambda>env old most pblock fAC reached st s r. most < length (cs_index (n_cs s)) \<longrightarrow> steady s (snd (snd r))", OF _ assms])
  fix go and env :: "('a, 'b) activate_env_scheme" and old most pblock fAC reached st and s :: "'a node" and r
  let ?st = "cs_index (n_cs s)"
  let ?goal = "int (bi_nHeight (?st ! most))"
  let ?target = "min (reached + 32) ?goal"
  assume IH: "\<And>env old most pblock fAC reached st s r. go env old most pblock fAC reached st s = Some r \<Longrightarrow>
        most < length (cs_index (n_cs s)) \<longrightarrow> steady s (snd (snd r))"
    and eq: "(let goal = ?goal in
      if reached = goal then Some (True, st, s)
      else let nTargetHeight = min (reached + 32) goal in
        Option.bind (collect_blocks ?st reached (GetAncestor ?st most nTargetHeight)) (\<lambda>ps.
        Option.bind (connect_blocks env old most (last ps) pblock fAC (rev ps) st s) (\<lambda>r.
          if fst r = System_Error then Some (False, snd r)
          else if fst r = All_Connected then go env old most pblock fAC nTargetHeight (fst (snd r)) (snd (snd r))
          else Some (True, snd r)))) = Some r"
  show "most < length ?st \<longrightarrow> steady s (snd (snd r))"
  proof
    assume most: "most < length ?st"
    show "steady s (snd (snd r))"
    proof (cases "reached = ?goal \<or> \<not> headers_ok (n_cs s)")
      case True
      then show ?thesis using eq by (auto simp: steady_def)
    next
      case False
      then obtain ps out st1 s1 where ps: "collect_blocks ?st reached (GetAncestor ?st most ?target) = Some ps"
        and c: "connect_blocks env old most (last ps) pblock fAC (rev ps) st s = Some (out, st1, s1)"
        and k: "(if out = System_Error then Some (False, st1, s1) else if out = All_Connected then go env old most pblock fAC ?target st1 s1
           else Some (True, st1, s1)) = Some r"
        using eq by (auto simp: Let_def bind_eq_Some_conv cong: if_cong)
      have "set ps \<subseteq> {..< length ?st}"
        using collect_blocks_range [OF ps] ancestor_range [OF _ most] False by (auto simp: headers_ok_def)
      then have s1: "steady s s1" using connect_blocks_steady [OF c] by simp
      show ?thesis
      proof (cases "out = All_Connected")
        case True
        then have "go env old most pblock fAC ?target st1 s1 = Some r" using k by simp
        moreover have "most < length (cs_index (n_cs s1))" using s1 False most state_kept_length by (fastforce simp: steady_def)
        ultimately show ?thesis using IH s1 steady_trans by blast
      next
        case False
        then show ?thesis using k s1 by (auto split: if_splits)
      qed
    qed
  qed
qed

lemma ActivateBestChainStep_steady:
  assumes "ActivateBestChainStep env most pblock fAC st s = Some (ok, st', s')" "most < length (cs_index (n_cs s))"
  shows "steady s s'"
proof -
  obtain fork where f: "FindFork (cs_index (n_cs s)) (cs_chain (n_cs s)) most = Some fork"
    using assms(1) by (auto simp: ActivateBestChainStep_def Let_def split: option.splits)
  obtain ok1 st1 s1 where d: "disconnect_to env fork st s = Some (ok1, st1, s1)"
    using assms(1) f by (auto simp: ActivateBestChainStep_def Let_def split: option.splits)
  have s1: "steady s s1" using disconnect_to_steady [OF d] by simp
  show ?thesis
  proof (cases ok1)
    case False
    then show ?thesis using assms(1) f d s1 by (simp add: ActivateBestChainStep_def Let_def)
  next
    case True
    then obtain reached where c: "connect_rounds env (Tip (cs_chain (n_cs s))) most pblock (pblock \<noteq> None \<and> fAC) reached st1 s1 = Some (ok, st', s')"
      using assms(1) f d by (simp add: ActivateBestChainStep_def Let_def)
    have "most < length (cs_index (n_cs s1))" if "headers_ok (n_cs s)" using s1 that assms(2) state_kept_length by (fastforce simp: steady_def)
    then have "headers_ok (n_cs s) \<Longrightarrow> steady s1 s'" using connect_rounds_steady [OF c] by simp
    then show ?thesis using s1 by (auto simp: steady_def intro: state_kept_trans)
  qed
qed

section \<open>The best chain\<close>

lemma Contains_ancestor:
  assumes "Contains st (path st p) a"
  shows "a \<in> set (ancestors st p)"
proof -
  have h: "bi_nHeight (st ! a) < Suc (bi_nHeight (st ! p))" "anc st p (bi_nHeight (st ! a)) = Some a"
    using assms by (auto simp: Contains_path)
  have "Some a \<in> set (path st p)" unfolding path_def set_map using h by (intro image_eqI [of _ _ "bi_nHeight (st ! a)"]) auto
  then show ?thesis unfolding ancestors_def by (metis image_eqI image_set option.sel set_rev)
qed

text \<open>A branch that is usable once a usable block has become the tip was usable before.\<close>

lemma usable_before:
  assumes "tree_ok (cs_index s)" "p < length (cs_index s)" "usable (cs_index s) (cs_chain s) p"
    and "store_kept (cs_index s) (cs_index s')" "cs_chain s' = path (cs_index s') p"
    and "usable (cs_index s') (cs_chain s') q"
  shows "usable (cs_index s) (cs_chain s) q"
proof -
  note links = store_kept_links [OF assms(4)]
  have "block_usable (cs_index s) (cs_chain s) a" if a: "block_usable (cs_index s') (cs_chain s') a" for a
  proof (cases "Contains (cs_index s') (cs_chain s') a")
    case True
    then have "a \<in> set (ancestors (cs_index s) p)"
      using Contains_ancestor [of "cs_index s'" p a] assms(5) same_links_ancestors [OF links] by simp
    then show ?thesis using assms(3) by (auto simp: usable_def list_all_iff)
  next
    case False
    then have "has_data (cs_index s' ! a) \<and> \<not> block_failed (cs_index s' ! a)" using a by (simp add: block_usable_def)
    then show ?thesis using store_kept_nth [OF assms(4), of a] by (simp add: block_kept_def block_usable_def)
  qed
  then show ?thesis using assms(6) by (simp add: usable_def same_links_ancestors [OF links] list_all_iff)
qed

text \<open>No usable candidate is better than the tip.\<close>

definition best_chain :: "chain_state \<Rightarrow> bool" where
  "best_chain s \<longleftrightarrow>
     list_all (\<lambda>q. Tip (cs_chain s) = Some q \<or> (case Tip (cs_chain s) of None \<Rightarrow> False | Some t \<Rightarrow> work_less (cs_index s) q t))
       (usable_candidates s)"

lemma best_chain_tip:
  assumes "headers_ok s" "usable_candidates s \<noteq> []" "p = last (usable_candidates s)"
    and "headers_ok s'" "state_kept s s'" "Tip (cs_chain s') = Some p"
  shows "best_chain s'"
proof -
  have ok: "candidates_ok s" "tree_ok (cs_index s)" using assms(1) by (simp_all add: headers_ok_def)
  note L = last_usable [OF ok(1) refl assms(2), folded assms(3)]
  have k: "store_kept (cs_index s) (cs_index s')" "set (cs_candidates s') \<subseteq> set (cs_candidates s)" using assms(5) by (auto simp: state_kept_def)
  have p: "p < length (cs_index s)" using L(1) ok(1) by (auto simp: candidates_ok_def list_all_iff)
  have chain: "cs_chain s' = path (cs_index s') p" using assms(4,6) by (auto simp: headers_ok_def chain_ok_def)
  have "q = p \<or> work_less (cs_index s') q p" if "q \<in> set (usable_candidates s')" for q
  proof -
    have q: "q \<in> set (cs_candidates s)" "usable (cs_index s') (cs_chain s') q" using that k(2) by (auto simp: usable_candidates_def)
    show ?thesis using L(3) [OF q(1) usable_before [OF ok(2) p L(2) k(1) chain q(2)]] by (simp add: store_kept_work_less [OF k(1)])
  qed
  then show ?thesis using assms(6) by (auto simp: best_chain_def list_all_iff)
qed

lemma ActivateBestChain_ends:
  assumes "ActivateBestChain env pblock fAC st s = Some r"
  shows "headers_ok (n_cs s) \<longrightarrow> headers_ok (n_cs (snd (snd r))) \<and> state_kept (n_cs s) (n_cs (snd (snd r))) \<and>
    (fst r \<longrightarrow> best_chain (n_cs (snd (snd r))))"
proof (rule ActivateBestChain.raw_induct [where P = "\<lambda>env pblock fAC st s r.
      headers_ok (n_cs s) \<longrightarrow> headers_ok (n_cs (snd (snd r))) \<and> state_kept (n_cs s) (n_cs (snd (snd r))) \<and>
      (fst r \<longrightarrow> best_chain (n_cs (snd (snd r))))", OF _ assms])
  fix go and env :: "('a :: {zero,one,plus,minus,times,divide,ord}, 'b) activate_env_scheme" and pblock fAC st and s :: "'a node" and r
  let ?res = "\<lambda>s r. headers_ok (n_cs (snd (snd r))) \<and> state_kept (n_cs s) (n_cs (snd (snd r))) \<and> (fst r \<longrightarrow> best_chain (n_cs (snd (snd r))))"
  assume IH: "\<And>env pblock fAC st s r. go env pblock fAC st s = Some r \<Longrightarrow> headers_ok (n_cs s) \<longrightarrow> ?res s r"
    and eq: "Option.bind (FindMostWorkChain (n_cs s)) (\<lambda>f. let s1 = s\<lparr>n_cs := snd f\<rparr> in
        case fst f of None \<Rightarrow> Some (True, st, s1)
        | Some p \<Rightarrow> if Tip (cs_chain (n_cs s1)) = Some p then Some (True, st, s1)
            else Option.bind (ActivateBestChainStep env p (block_for env (n_cs s1) pblock p) fAC st s1) (\<lambda>r.
              if \<not> fst r then Some (False, snd r)
              else if Tip (cs_chain (n_cs (snd (snd r)))) = Some p then FlushStateToDisk env FLUSH_STATE_PERIODIC (fst (snd r)) (snd (snd r))
              else go env pblock fAC (fst (snd r)) (snd (snd r)))) = Some r"
  show "headers_ok (n_cs s) \<longrightarrow> ?res s r"
  proof
    assume ok: "headers_ok (n_cs s)"
    obtain cs where f: "FindMostWorkChain (n_cs s) = Some (if usable_candidates (n_cs s) = [] then None else Some (last (usable_candidates (n_cs s))), cs)"
      and us: "usable_candidates cs = usable_candidates (n_cs s)"
      using FindMostWorkChain_result [of "n_cs s"] ok by (auto simp: headers_ok_def)
    have c1: "calm (n_cs s) cs" using FindMostWorkChain_calm [OF f] by simp
    then have ok1: "headers_ok cs" "state_kept (n_cs s) cs" using calm_headers [OF ok] by (simp_all add: calm_def)
    let ?s1 = "s\<lparr>n_cs := cs\<rparr>" and ?p = "last (usable_candidates cs)"
    show "?res s r"
    proof (cases "usable_candidates cs = [] \<or> Tip (cs_chain cs) = Some ?p")
      case True
      then have "r = (True, st, ?s1)" using eq f us by (cases "usable_candidates (n_cs s) = []") auto
      moreover have "best_chain cs"
        using True best_chain_tip [OF ok1(1) _ refl ok1(1)] by (cases "usable_candidates cs = []") (auto simp: best_chain_def)
      ultimately show ?thesis using ok1 by simp
    next
      case False
      obtain ok2 st2 s2 where step: "ActivateBestChainStep env ?p (block_for env cs pblock ?p) fAC st ?s1 = Some (ok2, st2, s2)"
        and k: "(if \<not> ok2 then Some (False, st2, s2)
           else if Tip (cs_chain (n_cs s2)) = Some ?p then FlushStateToDisk env FLUSH_STATE_PERIODIC st2 s2
           else go env pblock fAC st2 s2) = Some r"
        using eq f us False by (auto simp: Let_def bind_eq_Some_conv cong: if_cong)
      have "?p \<in> set (cs_candidates cs)" using last_usable(1) [of cs, OF _ refl] False ok1(1) by (simp add: headers_ok_def)
      then have "?p < length (cs_index (n_cs ?s1))" using ok1(1) by (auto simp: headers_ok_def candidates_ok_def list_all_iff)
      from ActivateBestChainStep_steady [OF step this] have ok2: "headers_ok (n_cs s2)" "state_kept cs (n_cs s2)"
        using ok1(1) by (simp_all add: steady_def)
      note k2 = state_kept_trans [OF ok1(2) ok2(2)]
      consider (failed) "\<not> ok2" | (there) "ok2" "Tip (cs_chain (n_cs s2)) = Some ?p" | (again) "ok2" "Tip (cs_chain (n_cs s2)) \<noteq> Some ?p" by blast
      then show ?thesis
      proof cases
        case failed
        then show ?thesis using k ok2(1) k2 by auto
      next
        case there
        then have fl: "FlushStateToDisk env FLUSH_STATE_PERIODIC st2 s2 = Some (fst r, fst (snd r), snd (snd r))" using k by simp
        note c = FlushStateToDisk_calm [OF fl]
        have ok3: "headers_ok (n_cs (snd (snd r)))" "state_kept (n_cs s2) (n_cs (snd (snd r)))" "cs_chain (n_cs (snd (snd r))) = cs_chain (n_cs s2)"
          using calm_headers [OF ok2(1) c] c by (simp_all add: calm_def)
        then show ?thesis
          using best_chain_tip [OF ok1(1) _ refl ok3(1) state_kept_trans [OF ok2(2) ok3(2)]] False there(2) state_kept_trans [OF k2] by simp
      next
        case again
        then have "go env pblock fAC st2 s2 = Some r" using k by simp
        then show ?thesis using IH ok2(1) state_kept_trans [OF k2] by blast
      qed
    qed
  qed
qed

section \<open>The property\<close>

text \<open>C37: when \<^verbatim>\<open>ActivateBestChain\<close> succeeds, no usable candidate for the tip is better than the tip in the order of
  \<^verbatim>\<open>CBlockIndexWorkComparator\<close>, although candidates may have turned out invalid on the way. Whatever it returns, the active
  chain is the path to its tip, the tree and the candidates are consistent, and no block has gained in standing: the candidates are among those
  from before, and a block with data and without a failure mark was one before.\<close>

theorem ActivateBestChain_best:
  assumes "headers_ok (n_cs s)" "ActivateBestChain env pblock fAlreadyChecked st s = Some (ok, st', s')"
  shows "headers_ok (n_cs s') \<and> state_kept (n_cs s) (n_cs s') \<and> (if ok then best_chain (n_cs s') else True)"
  using ActivateBestChain_ends [OF assms(2)] assms(1) by auto

text \<open>A node at height 1 that has a block for height 2.\<close>

definition act_store :: block_store where
  "act_store = map (\<lambda>b. b\<lparr>nStatus := BLOCK_HAVE_DATA, nChainTx := 1, nChainWork := of_nat (bi_nHeight b),
     pskip := (if bi_nHeight b = 0 then None else Some 0)\<rparr>) (fee_store @ [fee_index])"

definition act_cs :: chain_state where
  "act_cs = \<lparr>cs_index = act_store, cs_map = [90 \<mapsto> 0, 99 \<mapsto> 1, 1003 \<mapsto> 2], cs_chain = [Some 0, Some 1], cs_candidates = [1, 2], cs_unlinked = [],
     cs_best_invalid = None, cs_best_header = Some 2, cs_sequence = 0, cs_dirty = [], cs_proofs = (\<lambda>_. None), cs_source = (\<lambda>_. None),
     cs_stakeSeen = []\<rparr>"

definition act_node :: "int node" where
  "act_node = \<lparr>n_cs = act_cs, n_tip = make_cache demo_db, n_pool = CTxMemPool_new, n_limiter = \<lparr>dFreeCount = 0, nLastTime = 0\<rparr>, n_stakes = [],
     n_rejected = (\<lambda>_. None), n_lastWrite = 0, n_writes = [], n_effects = []\<rparr>"

definition act_env :: "int activate_env" where
  "act_env = \<lparr>av_kernel = \<lparr>ke_block = fee_env, ke_sig = demo_sig\<lparr>se_Hash := be_Hash fee_env\<rparr>, ke_ModifierUpgradeBlock = 0, ke_StakeInputMin = 0,
       ke_literal = 0, ke_mempool = (\<lambda>_. None), ke_TxIndex = False, ke_ReadTxIndex = (\<lambda>_. None), ke_ReadTx = (\<lambda>_. None), ke_ReadBlock = (\<lambda>_. None)\<rparr>,
     av_accept = \<lparr>ae_node = demo_env, ae_RequireStandard = False,
       ae_policy = \<lparr>datacarrier = True, nMaxDatacarrierBytes = 83, fIsBareMultisigStd = True, minRelayTxFee = \<lparr>nSatoshisPerK = 10000\<rparr>, ActiveProtocol = 70223\<rparr>,
       ae_sig = demo_sig, ae_heightOf = (\<lambda>_. None), ae_LockedInputs = (\<lambda>_. None), ae_ObfuscationTxes = [], ae_Time = 0, ae_relaypriority = True,
       ae_limitfreerelay = 30, ae_double = id, ae_pow = (\<lambda>_ _. 1)\<rparr>,
     av_io = (\<lambda>_. good_disk), av_undo = (\<lambda>_. None), av_CoinCacheSize = 100, av_TimeMicros = 1000000000, av_DiskSpace = True, av_WriteBatch = True,
     av_known = (\<lambda>_. False)\<rparr>"

lemma act_headers: "headers_ok (n_cs act_node)"
  unfolding headers_ok_def
  by (intro conjI; code_simp)

lemma act_runs: "map_option (\<lambda>(ok, _, s). (ok, Tip (cs_chain (n_cs s)))) (ActivateBestChain act_env (Some fee_block) True CValidationState_new act_node) = Some (True, Some 2)"
  by code_simp

theorem ActivateBestChain_best_witness:
  "\<exists>st' s'. ActivateBestChain act_env (Some fee_block) True CValidationState_new act_node = Some (True, st', s') \<and>
     Tip (cs_chain (n_cs s')) = Some 2 \<and> headers_ok (n_cs s') \<and> best_chain (n_cs s')"
proof -
  obtain st' s' where r: "ActivateBestChain act_env (Some fee_block) True CValidationState_new act_node = Some (True, st', s')"
    "Tip (cs_chain (n_cs s')) = Some 2" using act_runs by auto
  then show ?thesis using ActivateBestChain_best [OF act_headers r(1)] by auto
qed

end
