(* ===== verification/View_Frame.thy ===== *)
theory View_Frame
  imports Connect_Props Mempool_Accept_Props
begin

text \<open>
  Connecting or disconnecting a block on a scratch view leaves the view below as it was, on every path, also when it
  fails half-way: what the tip shows changes only with the flush of the scratch view. Each lemma is proved once for
  views under the contract \<open>coins_reader\<close>; it is used with a contract that pins down the content of the tip.
\<close>

section \<open>Every path keeps the view consistent\<close>

context coins_reader
begin

lemma CheckInputs_cok:
  assumes "cok c" "CheckInputs se P hof B tx st c fS fl store pv = Some (good, st', pv', c')"
  shows "cok c'"
proof (cases "IsCoinBase tx")
  case True
  then show ?thesis using assms by (simp add: CheckInputs_def)
next
  case False
  obtain r1 c1 where h1: "have_inputs_loop B c (vin tx) = (r1, c1)" by fastforce
  have c1: "cok c1" using have_inputs [OF assms(1) h1] by simp
  obtain b c2 where b: "GetBestBlock B c1 = (b, c2)" by fastforce
  have c2: "cok c2" using cache_get_best [OF c1 b] by simp
  note A = assms(2) [unfolded CheckInputs_def HaveInputs_def, simplified False h1 b]
  show ?thesis
  proof (cases "\<exists>h r c3. r1 \<and> hof b = Some h \<and> inputs_loop P B (h + 1) (vin tx) 0 c2 = Some (r, c3)")
    case True
    then obtain h r c3 where h: "r1" "hof b = Some h" "inputs_loop P B (h + 1) (vin tx) 0 c2 = Some (r, c3)" by blast
    have c3: "cok c3" using inputs_loop_best [OF c2 h(3)] by simp
    then show ?thesis using A h b scripts_loop_best [OF c3]
      by (auto split: sum.split_asm option.split_asm if_split_asm)
  next
    case False
    then show ?thesis using A b c1 by (cases r1) (auto split: option.split_asm)
  qed
qed

lemma connect_inputs_cok:
  assumes "cok (bw_view w)" "\<not> IsCoinBase tx" "connect_inputs se env B scripts fl threads tx st w = Some r"
  shows "case r of Inl e \<Rightarrow> cok (snd e) | Inr w' \<Rightarrow> cok (bw_view w')"
proof -
  obtain r1 c1 where h1: "have_inputs_loop B (bw_view w) (vin tx) = (r1, c1)" by fastforce
  have c1: "cok c1" using have_inputs [OF assms(1) h1] by simp
  obtain r2 c2 where h2: "p2sh_sigops_loop B c1 (vin tx) 0 = (r2, c2)" by fastforce
  have c2: "cok c2" using sigops_loop_keeps [OF c1 h2] by simp
  obtain r3 c3 where h3: "value_in_loop B c2 (vin tx) 0 = (r3, c3)" by fastforce
  have c3: "cok c3" using value_in_keeps [OF c2 h3] by simp
  note C = assms(3) [unfolded connect_inputs_def HaveInputs_def GetP2SHSigOpCount_def GetValueIn_def Let_def, simplified assms(2) h1 h2 h3, simplified]
  show ?thesis
  proof (cases "\<exists>n v. r1 \<and> r2 = Some n \<and> \<not> too_many_sigops (bw_sigops w + n) \<and> r3 = Some v")
    case False
    then show ?thesis using C c1 c2 h2 h3 by (cases r1; cases r2; cases r3) (auto split: if_split_asm)
  next
    case True
    then obtain n v where n: "r1" "r2 = Some n" "\<not> too_many_sigops (bw_sigops w + n)" "r3 = Some v" by blast
    let ?hof = "\<lambda>h. map_option (\<lambda>p. int (bi_nHeight (be_store env ! p))) (be_mapBlockIndex env h)"
    let ?pv = "if threads then Some [] else None"
    show ?thesis
    proof (cases "CheckInputs se (be_Params env) ?hof B tx st c3 scripts fl False ?pv")
      case None
      then show ?thesis using C n h2 h3 by (simp add: bind_eq_Some_conv)
    next
      case (Some x)
      obtain good st' pv' c4 where x: "x = (good, st', pv', c4)" by (cases x)
      have "cok c4" using CheckInputs_cok [OF c3] Some x by blast
      then show ?thesis using C n h2 h3 Some x by (cases good) (auto simp: bind_eq_Some_conv)
    qed
  qed
qed

lemma UpdateCoins_cok:
  assumes "cok c" "UpdateCoins Hash B tx c u0 h = Some (u, c')"
  shows "cok c'"
  using update_refines [OF assms(1), where Hash = Hash and tx = tx and ?u0.0 = u0 and h = h] assms(2) by simp

lemma connect_tx_cok:
  assumes "cok (bw_view w)" "connect_tx se env B scripts fl threads h st itx w = Some r"
  shows "case r of Inl e \<Rightarrow> cok (snd e) | Inr w' \<Rightarrow> cok (bw_view w')"
proof -
  obtain i tx where itx: "itx = (i, tx)" by fastforce
  let ?w1 = "w\<lparr>bw_sigops := bw_sigops w + GetLegacySigOpCount tx\<rparr>"
  let ?step = "if IsCoinBase tx then Some (Inr ?w1) else connect_inputs se env B scripts fl threads tx st ?w1"
  show ?thesis
  proof (cases "too_many_sigops (bw_sigops w + GetLegacySigOpCount tx)")
    case True
    then show ?thesis using assms by (auto simp: connect_tx_def itx)
  next
    case False
    then obtain x where x: "?step = Some x" using assms(2) by (cases ?step) (auto simp: connect_tx_def itx Let_def)
    have "cok (bw_view ?w1)" using assms(1) by simp
    then have "case x of Inl e \<Rightarrow> cok (snd e) | Inr w' \<Rightarrow> cok (bw_view w')"
      using x connect_inputs_cok [of ?w1 tx] by (auto split: if_split_asm)
    then show ?thesis using assms(2) False x UpdateCoins_cok
      by (auto simp: connect_tx_def itx Let_def split: sum.split_asm)
  qed
qed

lemma connect_loop_cok:
  "cok (bw_view w) \<Longrightarrow> connect_loop se env B scripts fl threads h st itxs w = Some r \<Longrightarrow>
   (case r of Inl e \<Rightarrow> cok (snd e) | Inr w' \<Rightarrow> cok (bw_view w'))"
proof (induction itxs arbitrary: w)
  case (Cons itx itxs)
  obtain x where x: "connect_tx se env B scripts fl threads h st itx w = Some x" using Cons.prems(2) by (auto split: option.splits)
  show ?case using Cons.prems(2) Cons.IH connect_tx_cok [OF Cons.prems(1) x] x by (auto split: sum.splits)
qed auto

lemma settle_block_view:
  assumes "settle_block se disk env block just hp st p stakes rej w = Some r"
  shows "cr_view r = bw_view w \<or> (cr_ok r \<and> (\<exists>h. Index_GetBlockHash p = Some h \<and> cr_view r = SetBestBlock (bw_view w) h))"
proof (cases "cr_ok r")
  case True
  then show ?thesis using settle_block_sound [OF assms True] by (auto split: if_splits)
next
  case False
  have "cr_view r = bw_view w" if "finish_block disk env block hp st p1 stakes rej ws w = Some r" for p1 ws
    using that False by (auto simp: finish_block_def Let_def split: prod.splits bool.splits if_splits)
  then show ?thesis using assms False
    by (auto simp: settle_block_def Let_def bind_eq_Some_conv split: if_splits option.splits)
qed

lemma settle_block_cok:
  assumes "settle_block se disk env block just hp st p stakes rej w = Some r" "cok (bw_view w)"
  shows "cok (cr_view r)" "cr_ok r \<Longrightarrow> \<not> just \<Longrightarrow> Index_GetBlockHash p = Some (hashBlock (cr_view r))"
proof -
  show "cok (cr_view r)" using settle_block_view [OF assms(1)] assms(2) cache_inv_SetBestBlock by metis
  show "Index_GetBlockHash p = Some (hashBlock (cr_view r))" if "cr_ok r" "\<not> just"
    using settle_block_sound [OF assms(1) that(1)] that(2) by auto
qed

lemma connect_checked_cok:
  assumes "cok view" "connect_checked se disk env B block st p view just stakes rej = Some r"
  shows "cok (cr_view r) \<and> (cr_ok r \<longrightarrow> \<not> just \<longrightarrow> Index_GetBlockHash p = Some (hashBlock (cr_view r)))"
proof -
  obtain best c0 where g: "GetBestBlock B view = (best, c0)" by fastforce
  have c0: "cok c0" using cache_get_best [OF assms(1) g] by simp
  obtain b c1 where c1: "(if phashBlock p = None then bip30_loop (be_Hash env) B c0 (vtx block) else (True, c0)) = (b, c1)" by fastforce
  have k1: "cok c1" using c1 c0 bip30_loop_keeps [OF c0] by (auto split: if_splits)
  define run where "run total = connect_loop se env B (total \<le> int (bi_nHeight p)) connect_flags
      (io_ScriptCheckThreads disk) (int (bi_nHeight p)) st (zip [0 ..< length (vtx block)] (vtx block))
      \<lparr>bw_view = c1, bw_sigops = 0, bw_fees = 0, bw_in = 0, bw_out = 0, bw_undo = [], bw_checks = [], bw_pos = [],
       bw_offset = GetSizeOfCompactSize (word_of_nat (length (vtx block)))\<rparr>" for total
  have L: "case x of Inl e \<Rightarrow> cok (snd e) | Inr w \<Rightarrow> cok (bw_view w)" if "run total = Some x" for total x
    by (rule connect_loop_cok [OF _ that [unfolded run_def]]) (simp add: k1)
  note C = assms(2) [unfolded connect_checked_def g prod.case Let_def c1, folded run_def]
  show ?thesis
    using C c0 k1
    by (auto simp: bind_eq_Some_conv cache_inv_SetBestBlock split: if_split_asm option.split_asm sum.split_asm bool.split_asm
        dest!: L intro: settle_block_cok dest: settle_block_cok(2))
qed

lemma ConnectBlock_cok:
  assumes "cok view" "ConnectBlock se disk env B block st p view just fAC stakes rej = Some r"
  shows "cok (cr_view r)" "cr_ok r \<Longrightarrow> \<not> just \<Longrightarrow> Index_GetBlockHash p = Some (hashBlock (cr_view r))"
proof -
  have "cok (cr_view r) \<and> (cr_ok r \<longrightarrow> \<not> just \<longrightarrow> Index_GetBlockHash p = Some (hashBlock (cr_view r)))"
    using assms(2) connect_checked_cok [OF assms(1)] assms(1)
    by (auto simp: ConnectBlock_def split: if_split_asm option.split_asm bool.split_asm)
  then show "cok (cr_view r)" "cr_ok r \<Longrightarrow> \<not> just \<Longrightarrow> Index_GetBlockHash p = Some (hashBlock (cr_view r))" by auto
qed

lemma modify_with_cok:
  assumes "cok c" "modify_with B f c h = Some (x, c')"
  shows "cok c'"
  using modify_with_spec [OF assms(1), of f h] assms(2) by auto

lemma restore_inputs_cok:
  "cok c \<Longrightarrow> restore_inputs B c xs cl m = Some (cl', m', c') \<Longrightarrow> cok c'"
proof (induction xs arbitrary: c cl m)
  case (Cons x xs)
  obtain txin undo where x: "x = (txin, undo)" by fastforce
  obtain r c1 where m: "modify_with B (restore_entry (prevout txin) undo) c (outpoint_hash (prevout txin)) = Some (r, c1)"
    using Cons.prems(2) by (auto simp: x split: option.splits)
  show ?case using Cons.prems(2) Cons.IH [OF modify_with_cok [OF Cons.prems(1) m]] m by (auto simp: x split: option.splits)
qed simp

lemma disconnect_tx_cok:
  assumes "cok c" "disconnect_tx Hash B h txu (cl, m, c) = Some r"
  shows "case r of Inl e \<Rightarrow> cok (snd e) | Inr e \<Rightarrow> cok (snd (snd e))"
proof -
  obtain tx undo where txu: "txu = (tx, undo)" by fastforce
  obtain x c1 where m: "modify_with B (clear_outs tx h) c (GetHash Hash tx) = Some (x, c1)"
    using assms(2) by (auto simp: disconnect_tx_def txu split: option.splits)
  have c1: "cok c1" by (rule modify_with_cok [OF assms(1) m])
  show ?thesis using assms(2) m c1 restore_inputs_cok [OF c1]
    by (auto simp: disconnect_tx_def txu Let_def split: option.split_asm if_split_asm)
qed

lemma disconnect_loop_cok:
  "cok (snd (snd s)) \<Longrightarrow> disconnect_loop Hash B h txus s = Some r \<Longrightarrow> (case r of Inl e \<Rightarrow> cok (snd e) | Inr e \<Rightarrow> cok (snd (snd e)))"
proof (induction txus arbitrary: s)
  case (Cons txu txus)
  obtain cl m c where s: "s = (cl, m, c)" by (cases s)
  obtain x where x: "disconnect_tx Hash B h txu (cl, m, c) = Some x" using Cons.prems(2) by (auto simp: s split: option.splits)
  show ?case using Cons.prems Cons.IH disconnect_tx_cok [OF _ x] x by (auto simp: s split: sum.splits)
qed auto

lemma DisconnectBlock_cok:
  assumes "cok view" "DisconnectBlock Hash B txs idx undo m view fc = Some (good, cl, m', view')"
  shows "cok view'" "good \<Longrightarrow> \<not> fc \<Longrightarrow> hashBlock view' = pprev_hash idx"
    "pindex_hash idx = cache_best best view"
proof -
  obtain b c1 where g: "GetBestBlock B view = (b, c1)" by fastforce
  note G = cache_get_best [OF assms(1) g]
  note D = assms(2) [unfolded DisconnectBlock_def g prod.case]
  show "pindex_hash idx = cache_best best view" using D G by (auto split: if_split_asm)
  let ?txus = "\<lambda>u. rev (zip txs (None # map Some u))"
  have "cok view' \<and> (good \<longrightarrow> hashBlock view' = pprev_hash idx)"
  proof (cases "\<exists>u r. undo = Some u \<and> length u + 1 = length txs \<and> disconnect_loop Hash B (pindex_nHeight idx) (?txus u) (True, m, c1) = Some r")
    case False
    then show ?thesis using D G by (cases undo) (auto split: if_split_asm option.split_asm)
  next
    case True
    then obtain u r where u: "undo = Some u" "length u + 1 = length txs" "disconnect_loop Hash B (pindex_nHeight idx) (?txus u) (True, m, c1) = Some r"
      by blast
    have "case r of Inl e \<Rightarrow> cok (snd e) | Inr e \<Rightarrow> cok (snd (snd e))" using disconnect_loop_cok [OF _ u(3)] G by simp
    then show ?thesis using D u
      by (auto simp: cache_inv_SetBestBlock split: if_split_asm sum.split_asm)
  qed
  then show "cok view'" "good \<Longrightarrow> \<not> fc \<Longrightarrow> hashBlock view' = pprev_hash idx" by auto
qed

text \<open>The search for immature spends only reads.\<close>

lemma spends_immature_reads:
  "cok c \<Longrightarrow> spends_immature sane P B pool h ins c = Some (r, c') \<Longrightarrow>
   cok c' \<and> ccontent c' = ccontent c \<and> cache_best best c' = cache_best best c"
proof (induction ins arbitrary: c)
  case (Cons txin ins)
  obtain r0 c0 where a: "AccessCoins B c (outpoint_hash (prevout txin)) = (r0, c0)" by fastforce
  note g = access [OF Cons.prems(1) a] access_best [OF Cons.prems(1) a]
  show ?case using Cons.prems Cons.IH [of c] Cons.IH [of c0] a g
    by (auto split: option.split_asm if_split_asm)
qed simp

lemma immature_spenders_reads:
  "cok c \<Longrightarrow> immature_spenders sane P B pool h txs c = Some (r, c') \<Longrightarrow>
   cok c' \<and> ccontent c' = ccontent c \<and> cache_best best c' = cache_best best c"
proof (induction txs arbitrary: c r)
  case (Cons tx txs)
  obtain b c0 where a: "spends_immature sane P B pool h (vin tx) c = Some (b, c0)" using Cons.prems(2) by (auto split: option.splits)
  show ?case using Cons.prems Cons.IH [of c0] a spends_immature_reads [OF Cons.prems(1) a] by auto
qed simp

end

section \<open>The tip below a scratch view\<close>

text \<open>The contract with the content and the best block of the tip pinned down.\<close>

definition tip_at :: "(uint256 \<Rightarrow> CCoins option) \<Rightarrow> uint256 \<Rightarrow> tip_cache \<Rightarrow> bool" where
  "tip_at f b t \<longleftrightarrow> tip_ok t \<and> tip_content t = f \<and> cache_best db_hash t = b"

interpretation frame: coins_reader tip_ops "tip_at f b" tip_content cache_held "cache_best db_hash" for f b
proof
  show "tip_at f b v' \<and> tip_content v' = tip_content v \<and> cache_best db_hash v' = cache_best db_hash v \<and> cache_held v \<le> cache_held v' \<and>
      live r = tip_content v txid \<and> (live r \<noteq> None \<longrightarrow> cache_held v' txid)"
    if "tip_at f b v" "vGetCoins tip_ops v txid = (r, v')" for v txid r v'
    using tip.get [of v txid r v'] that by (simp add: tip_at_def)
  show "tip_at f b v' \<and> tip_content v' = tip_content v \<and> cache_best db_hash v' = cache_best db_hash v \<and> cache_held v \<le> cache_held v' \<and>
      h = cache_best db_hash v"
    if "tip_at f b v" "vGetBestBlock tip_ops v = (h, v')" for v h v'
    using tip.get_best [of v h v'] that by (simp add: tip_at_def)
qed

lemma frame_base: "cache_inv (tip_at f b) tip_content cache_held c \<Longrightarrow> tip_at f b (base c)"
  by (simp add: cache_inv_def)

lemma frame_view: "cache_inv (tip_at f b) tip_content cache_held c \<Longrightarrow> view_ok c"
  by (auto simp: view_ok_def cache_inv_def tip_at_def)

text \<open>Flushing a scratch view that has a best block.\<close>

lemma flush_tip:
  assumes "view_ok view" "hashBlock view \<noteq> 0"
  shows "\<exists>view'. Flush tip_ops view = Some (True, view') \<and> tip_at (view_content view) (hashBlock view) (base view')"
  using tip.flush [OF assms(1) [unfolded view_ok_def]] assms(2) by (auto simp: tip_at_def cache_inv_def view_content_def)

end
