(* ===== verification/Activate_Props.thy ===== *)
theory Activate_Props
  imports Activate_Chain View_Frame
begin

text \<open>
  The activation of the best chain keeps the node consistent: the coins that the tip shows belong to the tip of the
  active chain, the memory pool is well formed, and a step that fails without a system error has changed neither the
  chain nor the coins.
\<close>

section \<open>The pool on a tip that is pinned down\<close>

definition pool_at :: "(uint256 \<Rightarrow> CCoins option) \<Rightarrow> uint256 \<Rightarrow> 'd CTxMemPool \<Rightarrow> tip_cache \<times> 'd CTxMemPool \<Rightarrow> bool" where
  "pool_at f b pool s \<longleftrightarrow> pool_view_ok f pool s \<and> cache_best db_hash (fst s) = b"

interpretation pool_frame: coins_reader "CCoinsViewMemPool tip_ops" "pool_at f b pool" mempool_content "\<lambda>_ _. True" "\<lambda>s. cache_best db_hash (fst s)"
  for f b and pool :: "'d CTxMemPool"
proof
  fix v :: "tip_cache \<times> 'd CTxMemPool" and txid r v'
  assume "pool_at f b pool v" "vGetCoins (CCoinsViewMemPool tip_ops) v txid = (r, v')"
  then show "pool_at f b pool v' \<and> mempool_content v' = mempool_content v \<and> cache_best db_hash (fst v') = cache_best db_hash (fst v) \<and>
      (\<lambda>_. True) \<le> (\<lambda>_. True) \<and> live r = mempool_content v txid \<and> (live r \<noteq> None \<longrightarrow> True)"
    using pool.get [of f pool v txid r v'] by (simp add: pool_at_def)
next
  fix v :: "tip_cache \<times> 'd CTxMemPool" and h v'
  assume "pool_at f b pool v" "vGetBestBlock (CCoinsViewMemPool tip_ops) v = (h, v')"
  then show "pool_at f b pool v' \<and> mempool_content v' = mempool_content v \<and> cache_best db_hash (fst v') = cache_best db_hash (fst v) \<and>
      (\<lambda>_. True) \<le> (\<lambda>_. True) \<and> h = cache_best db_hash (fst v)"
    using pool.get_best [of f pool v h v'] by (simp add: pool_at_def)
qed

lemma loaded_at:
  assumes "tip_at f b t" "load_inputs (CCoinsViewMemPool tip_ops) hash tx st1 (make_cache (t, pool)) = Some (x, view)" "\<not> IsCoinBase tx"
  shows "tip_at f b (fst (base view))" "x = Inr v \<Longrightarrow> list_all (has_coins view) (vin tx) \<and> hashBlock view = b"
proof -
  have t: "pool_at f b pool (t, pool)" "tip_ok t" "cache_best db_hash t = b" using assms(1) by (auto simp: tip_at_def pool_at_def pool_view_ok_def)
  note L = pool_frame.load_inputs_spec [OF conjunct1 [OF pool_frame.make_cache_ok [OF t(1)]] assms(2,3)]
  show "tip_at f b (fst (base view))" using L by (auto simp: cache_inv_def pool_at_def pool_view_ok_def tip_at_def)
  show "x = Inr v \<Longrightarrow> list_all (has_coins view) (vin tx) \<and> hashBlock view = b" using loaded_view(5) [OF t(2) assms(2,3)] t(3) by simp
qed

lemma AcceptToMemoryPool_keeps:
  assumes "tip_at f b t" "b \<noteq> 0" "pool_inv (ae_Hash env) pool"
    and lim: "0 \<le> MaxMoneyOut (ae_Params env)" "MaxMoneyOut (ae_Params env) < 2 ^ 62"
    and "AcceptToMemoryPool env tip_ops pool st tx lf insane ign l t = Some r"
  shows "tip_at f b (ar_tip r) \<and> pool_inv (ae_Hash env) (ar_pool r)"
  using assms(6)
proof (cases rule: accept_stages)
  case refused
  then show ?thesis using assms by simp
next
  case unloaded
  then show ?thesis using assms(3) loaded_at(1) [OF assms(1) unloaded(1,2)] by simp
next
  case (loaded st1 v view)
  let ?hash = "GetHash (ae_Hash env) tx"
  note V = loaded_at [OF assms(1) loaded(6,2)]
  have cached: "list_all (has_coins view) (vin tx)" "hashBlock view \<noteq> 0" using V(2) assms(2) by auto
  define pool1 where "pool1 = (if ar_ok r then with_bonus env tx pool else ar_pool r)"
  have R: "ar_tip r = fst (base view)" "pool1 = pool \<or> pool1 = with_bonus env tx pool"
    "if ar_ok r then (\<exists>e. entry_tx e = tx \<and> ar_pool r = addUnchecked ?hash e pool1) else ar_pool r = pool1"
    using admit_spec [OF cached loaded(7)] by (auto simp: pool1_def)
  have maps: "mapTx pool1 = mapTx pool" "mapNextTx pool1 = mapNextTx pool" "totalTxSize pool1 = totalTxSize pool"
    using R(2) by (auto simp: with_bonus_def PrioritiseTransaction_def Let_def)
  then have inv: "pool_inv (ae_Hash env) pool1" using assms(3) pool_inv_cong [of pool1 pool] by simp
  have wf: "well_formed_tx (MaxMoneyOut (ae_Params env)) tx" using loaded(1) CheckTransaction_iff [OF lim] by blast
  have "pool_inv (ae_Hash env) (ar_pool r)"
  proof (cases "ar_ok r")
    case False
    then show ?thesis using R(3) inv by simp
  next
    case True
    then obtain e where e: "entry_tx e = tx" "ar_pool r = addUnchecked ?hash e pool1" using R(3) by auto
    have "addable (ae_Hash env) pool1 ?hash e"
      using pool_addable [OF loaded(4,5) _ e(1) maps(1,2)] wf by (simp add: well_formed_tx_def)
    then show ?thesis unfolding e(2) by (rule addUnchecked_inv [OF inv])
  qed
  then show ?thesis using R(1) V(1) by simp
qed

section \<open>Consistency\<close>

definition hash_at :: "chain_state \<Rightarrow> nat \<Rightarrow> uint256" where
  "hash_at cs p = (case phashBlock (cs_index cs ! p) of None \<Rightarrow> 0 | Some h \<Rightarrow> h)"

definition tip_hash :: "chain_state \<Rightarrow> uint256" where
  "tip_hash cs = (case Tip (cs_chain cs) of None \<Rightarrow> 0 | Some t \<Rightarrow> hash_at cs t)"

definition hashes_ok :: "chain_state \<Rightarrow> bool" where
  "hashes_ok cs \<longleftrightarrow> list_all (\<lambda>b. phashBlock b \<noteq> None \<and> phashBlock b \<noteq> Some 0) (cs_index cs)"

text \<open>What always holds, and what holds unless a write to disk has failed.\<close>

definition sound :: "('d, 'x) activate_env_scheme \<Rightarrow> 'd node \<Rightarrow> bool" where
  "sound env s \<longleftrightarrow> headers_ok (n_cs s) \<and> hashes_ok (n_cs s) \<and> tip_ok (n_tip s) \<and> pool_inv (av_Hash env) (n_pool s)"

definition consistent :: "('d, 'x) activate_env_scheme \<Rightarrow> 'd node \<Rightarrow> bool" where
  "consistent env s \<longleftrightarrow> sound env s \<and> cache_best db_hash (n_tip s) = tip_hash (n_cs s)"

definition stays :: "('d, 'x) activate_env_scheme \<Rightarrow> bool \<Rightarrow> CValidationState \<Rightarrow> 'd node \<Rightarrow> bool" where
  "stays env ok st s \<longleftrightarrow> sound env s \<and> (ok \<or> mode st \<noteq> MODE_ERROR \<longrightarrow> consistent env s)"

abbreviation av_Params :: "('d, 'x) activate_env_scheme \<Rightarrow> CChainParams" where
  "av_Params env \<equiv> be_Params (ke_block (av_kernel env))"

definition money_ok :: "('d, 'x) activate_env_scheme \<Rightarrow> bool" where
  "money_ok env \<longleftrightarrow> 0 \<le> MaxMoneyOut (av_Params env) \<and> MaxMoneyOut (av_Params env) < 2 ^ 62"

lemma mode_State_Error [simp]: "mode (State_Error st r) = MODE_ERROR"
  by (simp add: State_Error_def)

lemma ae_at_fields [simp]: "ae_Hash (ae_at env cs) = av_Hash env" "ae_Params (ae_at env cs) = av_Params env"
  by (simp_all add: ae_at_def be_at_def ke_at_def Let_def)

lemma hashes_ok_kept: "hashes_ok s \<Longrightarrow> state_kept s s' \<Longrightarrow> hashes_ok s'"
  using store_kept_fields(1,8) [of "cs_index s" "cs_index s'"] by (simp add: hashes_ok_def state_kept_def list_all_length)

lemma hash_at_kept: "state_kept s s' \<Longrightarrow> hash_at s' p = hash_at s p"
  unfolding hash_at_def state_kept_def using store_kept_fields(1) by metis

lemma tip_hash_calm: "calm s s' \<Longrightarrow> tip_hash s' = tip_hash s"
  using hash_at_kept [of s s'] by (simp add: tip_hash_def calm_def cong: option.case_cong)

lemma hash_at_Some: "hashes_ok s \<Longrightarrow> p < length (cs_index s) \<Longrightarrow> phashBlock (cs_index s ! p) = Some (hash_at s p) \<and> hash_at s p \<noteq> 0"
  by (fastforce simp: hashes_ok_def list_all_length hash_at_def split: option.splits)

section \<open>The steps\<close>

lemma Flush_db:
  assumes "tip_at f b t"
  shows "\<exists>t'. Flush db_ops t = Some (True, t') \<and> tip_at f b t'"
proof -
  have t: "cache_inv db_ok db_coins (\<lambda>_ _. True) t" "cache_content db_coins t = f" "cache_best db_hash t = b"
    using assms by (simp_all add: tip_at_def tip_ok_def tip_content_def)
  obtain t' where t': "Flush db_ops t = Some (True, t')" "cache_inv db_ok db_coins (\<lambda>_ _. True) t'" "cache_content db_coins t' = f"
    using db.flush [OF t(1)] t(2) by auto
  have "cache_best db_hash t' = cache_best db_hash t"
    using t'(1) by (auto simp: Flush_def db_ops_def DB_BatchWrite_def cache_best_def db_hash_def)
  then show ?thesis using t' t(3) by (auto simp: tip_at_def tip_ok_def tip_content_def)
qed

lemma FlushStateToDisk_tip:
  assumes "FlushStateToDisk env m st s = Some (ok, st', s')" "tip_at f b (n_tip s)"
  shows "tip_at f b (n_tip s')" "n_pool s' = n_pool s" "\<not> ok \<Longrightarrow> mode st' = MODE_ERROR" "ok \<Longrightarrow> st' = st"
proof -
  obtain t where t: "Flush db_ops (n_tip s) = Some (True, t)" "tip_at f b t" using Flush_db [OF assms(2)] by blast
  show "tip_at f b (n_tip s')" "n_pool s' = n_pool s" "\<not> ok \<Longrightarrow> mode st' = MODE_ERROR" "ok \<Longrightarrow> st' = st"
    using assms t by (auto simp: FlushStateToDisk_def Let_def split: if_split_asm)
qed

lemma resurrect_keeps:
  assumes "money_ok env" "b \<noteq> 0"
  shows "resurrect env txs s = Some s' \<Longrightarrow> tip_at f b (n_tip s) \<Longrightarrow> pool_inv (av_Hash env) (n_pool s) \<Longrightarrow>
    tip_at f b (n_tip s') \<and> pool_inv (av_Hash env) (n_pool s')"
proof (induction txs arbitrary: s)
  case (Cons tx txs)
  let ?attempt = "if IsCoinBase tx \<or> IsCoinStake tx then Some (False, s)
        else map_option (\<lambda>r. (ar_ok r, s\<lparr>n_pool := ar_pool r, n_limiter := ar_limiter r, n_tip := ar_tip r\<rparr>))
               (AcceptToMemoryPool (ae_at env (n_cs s)) tip_ops (n_pool s) CValidationState_new tx False False False (n_limiter s) (n_tip s))"
  obtain good s1 pool where t: "?attempt = Some (good, s1)"
    and p: "(if good then Some (n_pool s1) else map_option fst (pool_remove (av_Hash env) True tx (n_pool s1, []))) = Some pool"
    and r: "resurrect env txs (s1\<lparr>n_pool := pool\<rparr>) = Some s'"
    using Cons.prems(1) by (auto simp: bind_eq_Some_conv)
  have s1: "tip_at f b (n_tip s1) \<and> pool_inv (av_Hash env) (n_pool s1)"
  proof (cases "IsCoinBase tx \<or> IsCoinStake tx")
    case True
    then show ?thesis using t Cons.prems(2,3) by auto
  next
    case False
    then obtain x where x: "AcceptToMemoryPool (ae_at env (n_cs s)) tip_ops (n_pool s) CValidationState_new tx False False False (n_limiter s) (n_tip s) = Some x"
      "s1 = s\<lparr>n_pool := ar_pool x, n_limiter := ar_limiter x, n_tip := ar_tip x\<rparr>" using t by auto
    show ?thesis using AcceptToMemoryPool_keeps [OF Cons.prems(2) assms(2) _ _ _ x(1)] Cons.prems(3) assms(1) x(2) by (simp add: money_ok_def)
  qed
  have "pool_inv (av_Hash env) pool"
    using p s1 pool_remove_spec [of "av_Hash env" "n_pool s1" True tx "[]"] by (auto split: if_splits)
  then show ?case using Cons.IH [OF r] s1 by simp
qed simp

lemma removeCoinbaseSpends_keeps:
  assumes "removeCoinbaseSpends Hash False P db_ops h pool t = Some (pool', t')" "tip_at f b t" "pool_inv Hash pool"
  shows "tip_at f b t' \<and> pool_inv Hash pool'"
proof -
  obtain txs where txs: "immature_spenders False P db_ops pool h (map (\<lambda>e. entry_tx (snd e)) (sort_key fst (mapTx pool))) t = Some (txs, t')"
    using assms(1) by (auto simp: removeCoinbaseSpends_def bind_eq_Some_conv)
  have "cache_inv db_ok db_coins (\<lambda>_ _. True) t" using assms(2) by (simp add: tip_at_def tip_ok_def)
  from db.immature_spenders_reads [OF this txs] have "tip_at f b t'" using assms(2) by (simp add: tip_at_def tip_ok_def tip_content_def)
  then show ?thesis using removeCoinbaseSpends_spec [OF assms(3), of P db_ops h t] assms(1) by auto
qed

lemma frame_start: "tip_at f b t \<Longrightarrow> cache_inv (tip_at f b) tip_content cache_held (make_cache t)"
  using frame.make_cache_ok by blast

lemma best_make_cache [simp]: "cache_best g (make_cache t) = g t"
  by (simp add: cache_best_def make_cache_def)

lemma disconnect_coins_tip:
  assumes "disconnect_coins env block p s = Some (good, s')" "tip_at f b (n_tip s)" "hashes_ok (n_cs s)" "tree_ok (cs_index (n_cs s))"
    "p < length (cs_index (n_cs s))"
  shows "n_pool s' = n_pool s" "\<not> good \<Longrightarrow> tip_at f b (n_tip s')"
    "good \<Longrightarrow> \<exists>q f'. pprev (cs_index (n_cs s) ! p) = Some q \<and> tip_at f' (hash_at (n_cs s) q) (n_tip s')"
proof -
  let ?st = "cs_index (n_cs s)"
  obtain h q hq where h: "phashBlock (?st ! p) = Some h" "pprev (?st ! p) = Some q" "phashBlock (?st ! q) = Some hq"
    using assms(1) by (auto simp: disconnect_coins_def Let_def Index_GetBlockHash_def bind_eq_Some_conv split: option.splits)
  have hq: "hq = hash_at (n_cs s) q" "hq \<noteq> 0"
    using hash_at_Some [OF assms(3) tree_parent(1) [OF assms(4,5) h(2)]] h(3) by auto
  let ?idx = "\<lparr>pindex_hash = h, pprev_hash = hq, pindex_nHeight = int (bi_nHeight (?st ! p))\<rparr>"
  obtain d cl stakes view where D: "DisconnectBlock (av_Hash env) tip_ops (vtx block) ?idx (av_undo env p) (map_of (n_stakes s)) (make_cache (n_tip s)) False
      = Some (d, cl, stakes, view)"
    using assms(1) h by (auto simp: disconnect_coins_def Let_def Index_GetBlockHash_def split: option.splits)
  let ?s1 = "s\<lparr>n_stakes := filter (\<lambda>e. stakes (fst e) \<noteq> None) (n_stakes s)\<rparr>"
  have C: "(if \<not> d then Some (False, ?s1\<lparr>n_tip := base view\<rparr>)
      else (case Flush tip_ops view of Some (True, view') \<Rightarrow> Some (True, ?s1\<lparr>n_tip := base view'\<rparr>) | _ \<Rightarrow> None)) = Some (good, s')"
    using assms(1) h D by (simp add: disconnect_coins_def Let_def Index_GetBlockHash_def del: not_None_eq)
  note F = frame.DisconnectBlock_cok [OF frame_start [OF assms(2)] D]
  have view: "view_ok view" by (rule frame_view [OF F(1)])
  show "n_pool s' = n_pool s" using C by (auto split: if_split_asm option.split_asm bool.split_asm)
  show "\<not> good \<Longrightarrow> tip_at f b (n_tip s')" using C frame_base [OF F(1)] by (auto split: if_split_asm option.split_asm bool.split_asm)
  assume good: "good"
  then have d: "d" using C by (auto split: if_split_asm)
  have "hashBlock view = hq" using F(2) d by simp
  then obtain view' where v: "Flush tip_ops view = Some (True, view')" "tip_at (view_content view) hq (base view')"
    using flush_tip [OF view] hq(2) by auto
  then show "\<exists>q f'. pprev (?st ! p) = Some q \<and> tip_at f' (hash_at (n_cs s) q) (n_tip s')" using C d h(2) hq(1) by auto
qed

lemma UpdateTip_keeps:
  assumes "UpdateTip (Some p) s = Some s'" "headers_ok (n_cs s)" "p < length (cs_index (n_cs s))"
  shows "n_cs s' = (n_cs s)\<lparr>cs_chain := path (cs_index (n_cs s)) p\<rparr>" "n_tip s' = n_tip s"
    "n_pool s' = AddTransactionsUpdated 1 (n_pool s)"
  using assms by (auto simp: UpdateTip_def headers_ok_def SetTip_path)

lemma AddTransactionsUpdated_inv: "pool_inv Hash (AddTransactionsUpdated n pool) = pool_inv Hash pool"
  by (rule pool_inv_cong) (simp_all add: AddTransactionsUpdated_def)

lemma UpdateTip_consistent:
  assumes "UpdateTip (Some p) s = Some s'" "headers_ok (n_cs s)" "hashes_ok (n_cs s)" "p < length (cs_index (n_cs s))"
    and "tip_at f (hash_at (n_cs s) p) (n_tip s)" "pool_inv (av_Hash env) (n_pool s)"
  shows "consistent env s'"
proof -
  note U = UpdateTip_keeps [OF assms(1,2,4)]
  have "headers_ok (n_cs s')" unfolding U(1) by (rule path_headers [OF assms(2,4)])
  moreover have "tip_hash (n_cs s') = hash_at (n_cs s) p" by (simp add: U(1) tip_hash_def hash_at_def)
  ultimately show ?thesis using assms(3,5,6)
    by (simp add: consistent_def sound_def U hashes_ok_def tip_at_def AddTransactionsUpdated_inv)
qed

lemma consistentD:
  assumes "consistent env s"
  shows "headers_ok (n_cs s)" "hashes_ok (n_cs s)" "tip_at (tip_content (n_tip s)) (tip_hash (n_cs s)) (n_tip s)" "pool_inv (av_Hash env) (n_pool s)"
    "tree_ok (cs_index (n_cs s))"
  using assms by (simp_all add: consistent_def sound_def tip_at_def headers_ok_def)

lemma calm_sound:
  assumes "sound env s" "calm (n_cs s) (n_cs s')" "tip_at f b (n_tip s')" "pool_inv (av_Hash env) (n_pool s')"
  shows "sound env s'"
  using assms calm_headers [of "n_cs s" "n_cs s'"] hashes_ok_kept [of "n_cs s" "n_cs s'"]
  by (simp add: sound_def tip_at_def calm_def)

lemma calm_consistent:
  assumes "consistent env s" "calm (n_cs s) (n_cs s')" "tip_at f (tip_hash (n_cs s)) (n_tip s')" "pool_inv (av_Hash env) (n_pool s')"
  shows "consistent env s'"
  using assms calm_sound [OF _ assms(2-4)] tip_hash_calm [OF assms(2)] by (simp add: consistent_def tip_at_def)

lemma DisconnectTip_stays:
  assumes "DisconnectTip env st s = Some (ok, st', s')" "consistent env s" "money_ok env"
  shows "stays env ok st' s'"
proof -
  note I = consistentD [OF assms(2)]
  have tip: "p < length (cs_index (n_cs s))" if "Tip (cs_chain (n_cs s)) = Some p" for p
    using that I(1) by (simp add: headers_ok_def chain_ok_def)
  from assms(1) show ?thesis
  proof (cases rule: DisconnectTip_ways)
    case unread
    then show ?thesis using assms(2) by (simp add: stays_def consistent_def)
  next
    case (refused p block)
    note D = disconnect_coins_tip [OF refused(4) I(3,2,5) tip [OF refused(3)]]
    have "consistent env s'"
      by (rule calm_consistent [OF assms(2) _ D(2)]) (use disconnect_coins_cs [OF refused(4)] I(4) D(1) in simp_all)
    then show ?thesis by (simp add: stays_def consistent_def)
  next
    case (unwritten p block s1)
    note D = disconnect_coins_tip [OF unwritten(3) I(3,2,5) tip [OF unwritten(2)]]
    obtain q f' where q: "tip_at f' (hash_at (n_cs s) q) (n_tip s1)" using D(3) by auto
    note F = FlushStateToDisk_tip [OF unwritten(4) q]
    have "calm (n_cs s) (n_cs s')" using FlushStateToDisk_calm [OF unwritten(4)] disconnect_coins_cs [OF unwritten(3)] by simp
    moreover have "sound env s" using assms(2) by (simp add: consistent_def)
    ultimately have "sound env s'" using calm_sound [OF _ _ F(1)] F(2) D(1) I(4) by simp
    then show ?thesis using F(3) unwritten(1) by (simp add: stays_def)
  next
    case (gone p q block s1 s2 s3 pool tip)
    note p = tip [OF gone(2)]
    note D = disconnect_coins_tip [OF gone(3) I(3,2,5) p]
    have c: "calm (n_cs s) (n_cs s3)"
      using FlushStateToDisk_calm [OF gone(4)] disconnect_coins_cs [OF gone(3)] resurrect_cs [OF gone(5)] by simp
    have ok3: "headers_ok (n_cs s3)" "hashes_ok (n_cs s3)" "state_kept (n_cs s) (n_cs s3)"
      using calm_headers [OF I(1) c] hashes_ok_kept [OF I(2)] c by (simp_all add: calm_def)
    have q: "pprev (cs_index (n_cs s) ! p) = Some q"
      using gone(7) store_kept_fields(2) [of "cs_index (n_cs s)" "cs_index (n_cs s3)"] ok3(3) by (simp add: state_kept_def)
    note qr = tree_parent(1) [OF I(5) p q]
    have h: "hash_at (n_cs s) q \<noteq> 0" using hash_at_Some [OF I(2) qr] by simp
    obtain f' where f': "tip_at f' (hash_at (n_cs s) q) (n_tip s1)" using D(3) q by auto
    note F = FlushStateToDisk_tip [OF gone(4) f']
    have "tip_at f' (hash_at (n_cs s) q) (n_tip s3) \<and> pool_inv (av_Hash env) (n_pool s3)"
      using resurrect_keeps [OF assms(3) h gone(5) F(1)] F(2) D(1) I(4) by simp
    then have "tip_at f' (hash_at (n_cs s) q) tip \<and> pool_inv (av_Hash env) pool" using removeCoinbaseSpends_keeps [OF gone(6)] by blast
    then have "consistent env s'"
      using UpdateTip_consistent [OF gone(8), of f' env] ok3 hash_at_kept [OF ok3(3)] qr state_kept_length [OF ok3(3)] by simp
    then show ?thesis by (simp add: stays_def consistent_def)
  qed
qed

lemma connect_coins_tip:
  assumes "connect_coins env p block fAC st s = Some (good, st', s')" "tip_at f b (n_tip s)" "hashes_ok (n_cs s)"
    "p < length (cs_index (n_cs s))"
  shows "n_pool s' = n_pool s" "\<not> good \<Longrightarrow> tip_at f b (n_tip s')"
    "good \<Longrightarrow> \<exists>r. ConnectBlock (ke_sig (av_kernel env)) (av_io env p) (be_at env (n_cs s)) tip_ops block st (cs_index (n_cs s) ! p)
        (make_cache (n_tip s)) False fAC (n_stakes s) (n_rejected s) = Some r \<and> cr_ok r \<and>
      tip_at (view_content (cr_view r)) (hash_at (n_cs s) p) (n_tip s')"
proof -
  obtain r where r: "ConnectBlock (ke_sig (av_kernel env)) (av_io env p) (be_at env (n_cs s)) tip_ops block st (cs_index (n_cs s) ! p)
      (make_cache (n_tip s)) False fAC (n_stakes s) (n_rejected s) = Some r"
    using assms(1) by (auto simp: connect_coins_def split: option.splits)
  note F = frame.ConnectBlock_cok [OF frame_start [OF assms(2)] r]
  have view: "view_ok (cr_view r)" by (rule frame_view [OF F(1)])
  have pool: "n_pool (after_connect p r s) = n_pool s" by (simp add: after_connect_def)
  show "n_pool s' = n_pool s"
    using assms(1) r pool by (auto simp: connect_coins_def Let_def split: if_split_asm option.split_asm bool.split_asm)
  show "tip_at f b (n_tip s')" if "\<not> good"
    using assms(1) r that frame_base [OF F(1)]
    by (auto simp: connect_coins_def Let_def split: if_split_asm option.split_asm bool.split_asm)
  assume good: "good"
  then have k: "cr_ok r" using assms(1) r by (auto simp: connect_coins_def Let_def split: if_split_asm)
  have h: "hashBlock (cr_view r) = hash_at (n_cs s) p" "hash_at (n_cs s) p \<noteq> 0"
    using F(2) [OF k] hash_at_Some [OF assms(3,4)] by (simp_all add: Index_GetBlockHash_def)
  then obtain view' where v: "Flush tip_ops (cr_view r) = Some (True, view')" "tip_at (view_content (cr_view r)) (hash_at (n_cs s) p) (base view')"
    using flush_tip [OF view] by auto
  have "n_tip s' = base view'"
    using assms(1) r k v(1) by (auto simp: connect_coins_def Let_def split: option.split_asm)
  then show "\<exists>r. ConnectBlock (ke_sig (av_kernel env)) (av_io env p) (be_at env (n_cs s)) tip_ops block st (cs_index (n_cs s) ! p)
        (make_cache (n_tip s)) False fAC (n_stakes s) (n_rejected s) = Some r \<and> cr_ok r \<and>
      tip_at (view_content (cr_view r)) (hash_at (n_cs s) p) (n_tip s')" using r k v(2) by auto
qed

lemma ConnectTip_stays:
  assumes "ConnectTip env p pblock fAC st s = Some (ok, st', s')" "consistent env s" "p < length (cs_index (n_cs s))"
  shows "stays env ok st' s'"
proof -
  note I = consistentD [OF assms(2)]
  from assms(1) show ?thesis
  proof (cases rule: ConnectTip_ways)
    case unread
    then show ?thesis using assms(2) by (simp add: stays_def consistent_def)
  next
    case (refused block)
    note C = connect_coins_tip [OF refused(2) I(3,2) assms(3)]
    have "consistent env s'"
      by (rule calm_consistent [OF assms(2) connect_coins_calm [OF refused(2)] C(2)]) (use I(4) C(1) in simp_all)
    then show ?thesis by (simp add: stays_def consistent_def)
  next
    case (unwritten block st1 s1 m)
    obtain f' where f': "tip_at f' (hash_at (n_cs s) p) (n_tip s1)" using connect_coins_tip(3) [OF unwritten(2) I(3,2) assms(3)] by blast
    note F = FlushStateToDisk_tip [OF unwritten(3) f']
    have "calm (n_cs s) (n_cs s')" using FlushStateToDisk_calm [OF unwritten(3)] connect_coins_calm [OF unwritten(2)] calm_trans by blast
    moreover have "sound env s" using assms(2) by (simp add: consistent_def)
    ultimately have "sound env s'"
      using calm_sound [OF _ _ F(1)] F(2) connect_coins_tip(1) [OF unwritten(2) I(3,2) assms(3)] I(4) by simp
    then show ?thesis using F(3) unwritten(1) by (simp add: stays_def)
  next
    case (added block st1 s1 m s2 es pool conflicts)
    obtain f' where f': "tip_at f' (hash_at (n_cs s) p) (n_tip s1)" using connect_coins_tip(3) [OF added(4) I(3,2) assms(3)] by blast
    note F = FlushStateToDisk_tip [OF added(5) f']
    have c: "calm (n_cs s) (n_cs s2)" using FlushStateToDisk_calm [OF added(5)] connect_coins_calm [OF added(4)] calm_trans by blast
    have inv: "pool_inv (av_Hash env) (n_pool s2)" using F(2) connect_coins_tip(1) [OF added(4) I(3,2) assms(3)] I(4) by simp
    have "pool_inv (av_Hash env) pool" using removeForBlock_spec [OF inv, of "vtx block" "[]"] added(6) by auto
    then have "consistent env s'"
      using UpdateTip_consistent [OF added(7), of f' env] calm_headers [OF I(1) c] hashes_ok_kept [OF I(2)] c hash_at_kept [of "n_cs s" "n_cs s2" p]
        F(1) calm_length [OF c] assms(3)
      by (simp add: calm_def)
    then show ?thesis by (simp add: stays_def consistent_def)
  qed
qed

section \<open>The activation\<close>

lemma stays_consistent: "consistent env s \<Longrightarrow> stays env ok st s"
  by (simp add: stays_def consistent_def)

lemma disconnect_to_stays:
  assumes "disconnect_to env fork st s = Some r"
  shows "consistent env s \<longrightarrow> money_ok env \<longrightarrow> stays env (fst r) (fst (snd r)) (snd (snd r))"
proof (rule disconnect_to.raw_induct [where P = "\<lambda>env fork st s r. consistent env s \<longrightarrow> money_ok env \<longrightarrow> stays env (fst r) (fst (snd r)) (snd (snd r))", OF _ assms])
  fix go and env :: "('a, 'b) activate_env_scheme" and fork st s r
  assume IH: "\<And>env fork st s r. go env fork st s = Some r \<Longrightarrow> consistent env s \<longrightarrow> money_ok env \<longrightarrow> stays env (fst r) (fst (snd r)) (snd (snd r))"
    and eq: "(if Tip (cs_chain (n_cs s)) = None \<or> Tip (cs_chain (n_cs s)) = fork then Some (True, st, s)
      else Option.bind (DisconnectTip env st s) (\<lambda>r.
        if \<not> fst r then Some (False, fst (snd r), snd (snd r)) else go env fork (fst (snd r)) (snd (snd r)))) = Some r"
  show "consistent env s \<longrightarrow> money_ok env \<longrightarrow> stays env (fst r) (fst (snd r)) (snd (snd r))"
  proof (intro impI)
    assume I: "consistent env s" "money_ok env"
    show "stays env (fst r) (fst (snd r)) (snd (snd r))"
    proof (cases "Tip (cs_chain (n_cs s)) = None \<or> Tip (cs_chain (n_cs s)) = fork")
      case True
      then have "r = (True, st, s)" using eq by auto
      then show ?thesis using I(1) stays_consistent by simp
    next
      case False
      then obtain good st1 s1 where d: "DisconnectTip env st s = Some (good, st1, s1)"
        and k: "(if \<not> good then Some (False, st1, s1) else go env fork st1 s1) = Some r"
        using eq by (auto simp: bind_eq_Some_conv cong: if_cong)
      note S = DisconnectTip_stays [OF d I]
      show ?thesis
      proof (cases good)
        case True
        then show ?thesis using IH S I(2) k by (simp add: stays_def)
      next
        case bad: False
        then have "r = (False, st1, s1)" using k by simp
        then show ?thesis using S bad by simp
      qed
    qed
  qed
qed

lemma connect_blocks_stays:
  "connect_blocks env old most lowest pblock fAC ps st s = Some (out, st', s') \<Longrightarrow> consistent env s \<Longrightarrow>
   set ps \<subseteq> {..< length (cs_index (n_cs s))} \<Longrightarrow> stays env (out \<noteq> System_Error) st' s'"
proof (induction ps arbitrary: st s)
  case (Cons p ps)
  obtain good st1 s1 where c: "ConnectTip env p (if p = most then pblock else None) fAC st s = Some (good, st1, s1)"
    using Cons.prems(1) by (auto split: option.splits)
  have S: "stays env good st1 s1" using ConnectTip_stays [OF c Cons.prems(2)] Cons.prems(3) by simp
  have len: "length (cs_index (n_cs s1)) = length (cs_index (n_cs s))"
    using ConnectTip_steady [OF c] Cons.prems(2,3) state_kept_length consistentD(1) by (fastforce simp: steady_def)
  show ?case
  proof (cases good)
    case False
    show ?thesis
    proof (cases "mode st1 = MODE_INVALID")
      case True
      then have I1: "consistent env s1" using S by (simp add: stays_def)
      obtain cs where cs: "(if corruptionPossible st1 then Some (n_cs s1) else InvalidChainFound lowest (n_cs s1)) = Some cs" "s' = s1\<lparr>n_cs := cs\<rparr>"
        using Cons.prems(1) c False True by auto
      have "calm (n_cs s1) cs" using cs(1) InvalidChainFound_calm by (auto split: if_splits)
      then have "consistent env s'" using calm_consistent [OF I1, of s'] consistentD(3,4) [OF I1] cs(2) by simp
      then show ?thesis by (rule stays_consistent)
    next
      case invalid: False
      then show ?thesis using Cons.prems(1) c False S by auto
    qed
  next
    case True
    then have I1: "consistent env s1" using S by (simp add: stays_def)
    obtain cs where cs: "PruneBlockIndexCandidates (n_cs s1) = Some cs" using Cons.prems(1) c True by (auto split: option.splits)
    let ?s2 = "s1\<lparr>n_cs := cs\<rparr>"
    have k: "calm (n_cs s1) cs" using PruneBlockIndexCandidates_calm [OF cs] consistentD(1) [OF I1] by (simp add: headers_ok_def)
    have I2: "consistent env ?s2" using calm_consistent [OF I1, of ?s2] k consistentD(3,4) [OF I1] by simp
    show ?thesis
    proof (cases "s' = ?s2")
      case False
      then have "connect_blocks env old most lowest pblock fAC ps st1 ?s2 = Some (out, st', s')"
        using Cons.prems(1) c True cs by (auto simp: Let_def split: option.splits if_splits)
      then show ?thesis using Cons.IH [OF _ I2] Cons.prems(3) len calm_length [OF k] by simp
    qed (use I2 stays_consistent in simp)
  qed
qed (simp add: stays_consistent)

lemma connect_rounds_stays:
  assumes "connect_rounds env old most pblock fAC reached st s = Some r"
  shows "consistent env s \<longrightarrow> most < length (cs_index (n_cs s)) \<longrightarrow> stays env (fst r) (fst (snd r)) (snd (snd r))"
proof (rule connect_rounds.raw_induct [where P = "\<lambda>env old most pblock fAC reached st s r.
      consistent env s \<longrightarrow> most < length (cs_index (n_cs s)) \<longrightarrow> stays env (fst r) (fst (snd r)) (snd (snd r))", OF _ assms])
  fix go and env :: "('a, 'b) activate_env_scheme" and old most pblock fAC reached st and s :: "'a node" and r
  let ?st = "cs_index (n_cs s)"
  let ?goal = "int (bi_nHeight (?st ! most))"
  let ?target = "min (reached + 32) ?goal"
  assume IH: "\<And>env old most pblock fAC reached st s r. go env old most pblock fAC reached st s = Some r \<Longrightarrow>
        consistent env s \<longrightarrow> most < length (cs_index (n_cs s)) \<longrightarrow> stays env (fst r) (fst (snd r)) (snd (snd r))"
    and eq: "(let goal = ?goal in
      if reached = goal then Some (True, st, s)
      else let nTargetHeight = min (reached + 32) goal in
        Option.bind (collect_blocks ?st reached (GetAncestor ?st most nTargetHeight)) (\<lambda>ps.
        Option.bind (connect_blocks env old most (last ps) pblock fAC (rev ps) st s) (\<lambda>r.
          if fst r = System_Error then Some (False, snd r)
          else if fst r = All_Connected then go env old most pblock fAC nTargetHeight (fst (snd r)) (snd (snd r))
          else Some (True, snd r)))) = Some r"
  show "consistent env s \<longrightarrow> most < length ?st \<longrightarrow> stays env (fst r) (fst (snd r)) (snd (snd r))"
  proof (intro impI)
    assume I: "consistent env s" and most: "most < length ?st"
    show "stays env (fst r) (fst (snd r)) (snd (snd r))"
    proof (cases "reached = ?goal")
      case True
      then have "r = (True, st, s)" using eq by simp
      then show ?thesis using I stays_consistent by simp
    next
      case False
      then obtain ps out st1 s1 where ps: "collect_blocks ?st reached (GetAncestor ?st most ?target) = Some ps"
        and c: "connect_blocks env old most (last ps) pblock fAC (rev ps) st s = Some (out, st1, s1)"
        and k: "(if out = System_Error then Some (False, st1, s1) else if out = All_Connected then go env old most pblock fAC ?target st1 s1
           else Some (True, st1, s1)) = Some r"
        using eq by (auto simp: Let_def bind_eq_Some_conv cong: if_cong)
      have range: "set (rev ps) \<subseteq> {..< length ?st}"
        using collect_blocks_range [OF ps] ancestor_range [OF consistentD(1) [OF I] most] consistentD(5) [OF I] by auto
      have S: "stays env (out \<noteq> System_Error) st1 s1" by (rule connect_blocks_stays [OF c I range])
      show ?thesis
      proof (cases "out = All_Connected")
        case True
        then have g: "go env old most pblock fAC ?target st1 s1 = Some r" "consistent env s1" using k S by (simp_all add: stays_def)
        have "most < length (cs_index (n_cs s1))"
          using connect_blocks_steady [OF c range] consistentD(1) [OF I] most state_kept_length by (fastforce simp: steady_def)
        then show ?thesis using IH [OF g(1)] g(2) by simp
      next
        case False
        then have "r = (out \<noteq> System_Error, st1, s1)" using k by (auto split: if_splits)
        then show ?thesis using S by simp
      qed
    qed
  qed
qed

lemma ActivateBestChainStep_stays:
  assumes "ActivateBestChainStep env most pblock fAC st s = Some (ok, st', s')" "consistent env s" "money_ok env" "most < length (cs_index (n_cs s))"
  shows "stays env ok st' s'"
proof -
  obtain fork where f: "FindFork (cs_index (n_cs s)) (cs_chain (n_cs s)) most = Some fork"
    using assms(1) by (auto simp: ActivateBestChainStep_def Let_def split: option.splits)
  obtain ok1 st1 s1 where d: "disconnect_to env fork st s = Some (ok1, st1, s1)"
    using assms(1) f by (auto simp: ActivateBestChainStep_def Let_def split: option.splits)
  have S: "stays env ok1 st1 s1" using disconnect_to_stays [OF d] assms(2,3) by simp
  show ?thesis
  proof (cases ok1)
    case False
    then show ?thesis using assms(1) f d S by (simp add: ActivateBestChainStep_def Let_def)
  next
    case True
    then obtain reached where c: "connect_rounds env (Tip (cs_chain (n_cs s))) most pblock (pblock \<noteq> None \<and> fAC) reached st1 s1 = Some (ok, st', s')"
      using assms(1) f d by (simp add: ActivateBestChainStep_def Let_def)
    have "most < length (cs_index (n_cs s1))"
      using disconnect_to_steady [OF d] consistentD(1) [OF assms(2)] assms(4) state_kept_length by (fastforce simp: steady_def)
    then show ?thesis using connect_rounds_stays [OF c] S True by (simp add: stays_def)
  qed
qed

lemma FlushStateToDisk_stays:
  assumes "FlushStateToDisk env m st s = Some (ok, st', s')" "consistent env s"
  shows "stays env ok st' s'"
proof -
  note F = FlushStateToDisk_tip [OF assms(1) consistentD(3) [OF assms(2)]]
  show ?thesis
    by (rule stays_consistent, rule calm_consistent [OF assms(2) FlushStateToDisk_calm [OF assms(1)] F(1)])
      (simp add: F(2) consistentD(4) [OF assms(2)])
qed

lemma ActivateBestChain_stays:
  assumes "ActivateBestChain env pblock fAC st s = Some r"
  shows "consistent env s \<longrightarrow> money_ok env \<longrightarrow> stays env (fst r) (fst (snd r)) (snd (snd r))"
proof (rule ActivateBestChain.raw_induct [where P = "\<lambda>env pblock fAC st s r.
      consistent env s \<longrightarrow> money_ok env \<longrightarrow> stays env (fst r) (fst (snd r)) (snd (snd r))", OF _ assms])
  fix go and env :: "('a :: {zero,one,plus,minus,times,divide,ord}, 'b) activate_env_scheme" and pblock fAC st and s :: "'a node" and r
  assume IH: "\<And>env pblock fAC st s r. go env pblock fAC st s = Some r \<Longrightarrow> consistent env s \<longrightarrow> money_ok env \<longrightarrow> stays env (fst r) (fst (snd r)) (snd (snd r))"
    and eq: "Option.bind (FindMostWorkChain (n_cs s)) (\<lambda>f. let s1 = s\<lparr>n_cs := snd f\<rparr> in
        case fst f of None \<Rightarrow> Some (True, st, s1)
        | Some p \<Rightarrow> if Tip (cs_chain (n_cs s1)) = Some p then Some (True, st, s1)
            else Option.bind (ActivateBestChainStep env p (block_for env (n_cs s1) pblock p) fAC st s1) (\<lambda>r.
              if \<not> fst r then Some (False, snd r)
              else if Tip (cs_chain (n_cs (snd (snd r)))) = Some p then FlushStateToDisk env FLUSH_STATE_PERIODIC (fst (snd r)) (snd (snd r))
              else go env pblock fAC (fst (snd r)) (snd (snd r)))) = Some r"
  show "consistent env s \<longrightarrow> money_ok env \<longrightarrow> stays env (fst r) (fst (snd r)) (snd (snd r))"
  proof (intro impI)
    assume I: "consistent env s" and M: "money_ok env"
    have cand: "candidates_ok (n_cs s)" "chain_ok (cs_index (n_cs s)) (cs_chain (n_cs s))"
      using consistentD(1) [OF I] by (simp_all add: headers_ok_def)
    obtain cs where f: "FindMostWorkChain (n_cs s) = Some (if usable_candidates (n_cs s) = [] then None else Some (last (usable_candidates (n_cs s))), cs)"
      using FindMostWorkChain_result [OF consistentD(5) [OF I] cand(2,1)] by blast
    let ?s1 = "s\<lparr>n_cs := cs\<rparr>" and ?p = "last (usable_candidates (n_cs s))"
    have c: "calm (n_cs s) cs" using FindMostWorkChain_calm [OF f] by simp
    have I1: "consistent env ?s1" using calm_consistent [OF I, of ?s1] c consistentD(3,4) [OF I] by simp
    show "stays env (fst r) (fst (snd r)) (snd (snd r))"
    proof (cases "usable_candidates (n_cs s) = [] \<or> Tip (cs_chain cs) = Some ?p")
      case True
      then have "r = (True, st, ?s1)" using eq f by (cases "usable_candidates (n_cs s) = []") auto
      then show ?thesis using I1 stays_consistent by simp
    next
      case False
      obtain ok2 st2 s2 where step: "ActivateBestChainStep env ?p (block_for env cs pblock ?p) fAC st ?s1 = Some (ok2, st2, s2)"
        and k: "(if \<not> ok2 then Some (False, st2, s2)
           else if Tip (cs_chain (n_cs s2)) = Some ?p then FlushStateToDisk env FLUSH_STATE_PERIODIC st2 s2
           else go env pblock fAC st2 s2) = Some r"
        using eq f False by (auto simp: Let_def bind_eq_Some_conv cong: if_cong)
      have "?p \<in> set (cs_candidates (n_cs s))" using last_usable(1) [OF cand(1) refl] False by simp
      then have "?p < length (cs_index (n_cs ?s1))" using cand(1) calm_length [OF c] by (auto simp: candidates_ok_def list_all_iff)
      from ActivateBestChainStep_stays [OF step I1 M this] have S: "stays env ok2 st2 s2" .
      consider (failed) "\<not> ok2" | (there) "ok2" "Tip (cs_chain (n_cs s2)) = Some ?p" | (again) "ok2" "Tip (cs_chain (n_cs s2)) \<noteq> Some ?p" by blast
      then show ?thesis
      proof cases
        case failed
        then show ?thesis using k S by auto
      next
        case there
        then have fl: "FlushStateToDisk env FLUSH_STATE_PERIODIC st2 s2 = Some (fst r, fst (snd r), snd (snd r))" using k by simp
        show ?thesis using FlushStateToDisk_stays [OF fl] S there(1) by (simp add: stays_def)
      next
        case again
        then show ?thesis using k IH S M by (simp add: stays_def)
      qed
    qed
  qed
qed

section \<open>Properties\<close>

text \<open>C38: \<^verbatim>\<open>ActivateBestChain\<close> keeps the node consistent: whatever blocks it disconnects and connects on the way, and whether or not
  it succeeds, afterwards the best block of the coins is the tip of the active chain, the chain is the path to its tip and
  the memory pool is well formed. The only exception is a system error, a failed access to the disk, after which the node shuts
  down; even then the parts are consistent in themselves.\<close>

theorem ActivateBestChain_consistent:
  assumes "consistent env s" "money_ok env" "ActivateBestChain env pblock fAlreadyChecked st s = Some (ok, st', s')"
  shows "if ok \<or> mode st' \<noteq> MODE_ERROR then consistent env s' else sound env s'"
  using ActivateBestChain_stays [OF assms(3)] assms(1,2) by (auto simp: stays_def)

lemma act_consistent: "consistent act_env act_node" "money_ok act_env"
proof -
  have h: "hashes_ok (n_cs act_node)" by code_simp
  have b: "cache_best db_hash (n_tip act_node) = tip_hash (n_cs act_node)" by code_simp
  have "db_ok demo_db" using demo_live by (auto simp: db_ok_def demo_db_def split: if_splits)
  then have "tip_ok (n_tip act_node)" unfolding tip_ok_def act_node_def using db.make_cache_ok by simp
  then show "consistent act_env act_node"
    using act_headers h b pool_inv_new by (simp add: consistent_def sound_def) (simp add: act_node_def pool_inv_new)
  show "money_ok act_env" using fee_limit by (simp add: money_ok_def act_env_def)
qed

theorem ActivateBestChain_consistent_witness:
  "\<exists>st' s'. ActivateBestChain act_env (Some fee_block) True CValidationState_new act_node = Some (True, st', s') \<and>
     consistent act_env s' \<and> tip_hash (n_cs s') = 1003"
proof -
  have "map_option (\<lambda>(ok, _, s). (ok, tip_hash (n_cs s))) (ActivateBestChain act_env (Some fee_block) True CValidationState_new act_node) = Some (True, 1003)"
    by code_simp
  then obtain st' s' where r: "ActivateBestChain act_env (Some fee_block) True CValidationState_new act_node = Some (True, st', s')"
    "tip_hash (n_cs s') = 1003" by auto
  then show ?thesis using ActivateBestChain_consistent [OF act_consistent r(1)] by auto
qed

end
