(* ===== verification/Activate_Tip.thy ===== *)
theory Activate_Tip
  imports Activate_Props
begin

text \<open>
  One step of the activation as a refinement (\<^verbatim>\<open>ConnectTip\<close> of \<^verbatim>\<open>src/src/main.cpp\<close>): connecting a block moves the chain, the
  coins and the memory pool together, or moves none of them.
\<close>

section \<open>The step on the parts\<close>

abbreviation block_hashes :: "('d, 'x) activate_env_scheme \<Rightarrow> bytes \<Rightarrow> uint256" where
  "block_hashes env \<equiv> be_Hash (ke_block (av_kernel env))"

lemma be_at_fields [simp]:
  "be_Params (be_at env cs) = av_Params env" "be_mapBlockIndex (be_at env cs) = cs_map cs" "be_Hash (be_at env cs) = block_hashes env"
  by (simp_all add: be_at_def ke_at_def Let_def)

lemma cleared_AddTransactionsUpdated [simp]:
  "cleared_of Hash (AddTransactionsUpdated n pool) tx = cleared_of Hash pool tx" "mapTx (AddTransactionsUpdated n pool) = mapTx pool"
  by (simp_all add: cleared_of_def AddTransactionsUpdated_def pool_exists_def)

lemma content_make_cache: "tip_ok t \<Longrightarrow> view_ok (make_cache t) \<and> view_content (make_cache t) = tip_content t"
  unfolding view_ok_def view_content_def using tip.make_cache_ok by blast

lemma path_kept: "store_kept st st' \<Longrightarrow> path st' p = path st p"
  by (simp add: path_def anc_def [abs_def] store_kept_fields same_links_up [OF store_kept_links])

text \<open>The coins of the tip after its block has been connected are those of the block, applied in order.\<close>

lemma connect_coins_content:
  assumes "connect_coins env p block fAC st s = Some (True, st', s')" "consistent env s" "money_ok env" "p < length (cs_index (n_cs s))"
    and "pprev (cs_index (n_cs s) ! p) = Some q" "cs_map (n_cs s) (tip_hash (n_cs s)) = Some q"
    and "Block_GetHash (be_at env (n_cs s)) block \<noteq> be_HashGenesisBlock (be_at env (n_cs s))"
    and "list_all (\<lambda>tx. list_all (\<lambda>t. in_int64 (nValue t)) (vout tx)) (vtx block)"
  shows "tip_at (foldl (apply_tx (block_hashes env) (int (bi_nHeight (cs_index (n_cs s) ! p)))) (tip_content (n_tip s)) (vtx block))
           (hash_at (n_cs s) p) (n_tip s')"
proof -
  note I = consistentD [OF assms(2)]
  obtain r where r: "ConnectBlock (ke_sig (av_kernel env)) (av_io env p) (be_at env (n_cs s)) tip_ops block st (cs_index (n_cs s) ! p)
        (make_cache (n_tip s)) False fAC (n_stakes s) (n_rejected s) = Some r" "cr_ok r"
      "tip_at (view_content (cr_view r)) (hash_at (n_cs s) p) (n_tip s')"
    using connect_coins_tip(3) [OF assms(1) I(3,2) assms(4)] by auto
  have t: "tip_ok (n_tip s)" "cache_best db_hash (n_tip s) = tip_hash (n_cs s)" using I(3) by (simp_all add: tip_at_def)
  note V = content_make_cache [OF t(1)]
  have "view_content (cr_view r) = foldl (apply_tx (block_hashes env) (int (bi_nHeight (cs_index (n_cs s) ! p)))) (tip_content (n_tip s)) (vtx block)"
    using ConnectBlock_facts [OF conjunct1 [OF V] r(1,2) assms(7) _ _ assms(8,5)] V t(2) assms(3,6)
    by (simp add: money_ok_def Let_def)
  then show ?thesis using r(3) by simp
qed

section \<open>Properties\<close>

text \<open>C39: \<^verbatim>\<open>ConnectTip\<close> moves the chain, the coins and the memory pool together. When it succeeds on a consistent node, the chain
  is the path to the new block, the coins are those from before with every transaction of the block applied in order, their best block is the
  new block, and the pool, which gains nothing, has no transaction of the block left and none that is in conflict with
  one. When it fails, the chain and the pool are as before, and so are the coins and their best block unless the disk failed.\<close>

theorem ConnectTip_refines:
  assumes "ConnectTip env p pblock fAC st s = Some (ok, st', s')" "consistent env s" "money_ok env" "p < length (cs_index (n_cs s))"
    and "(case pblock of Some b \<Rightarrow> Some (Some b) | None \<Rightarrow> ReadBlockFromDisk (ke_at (av_kernel env) (n_cs s)) (cs_index (n_cs s) ! p)) = Some (Some block)"
    and "Tip (cs_chain (n_cs s)) = Some q" "cs_map (n_cs s) (tip_hash (n_cs s)) = Some q"
    and "Block_GetHash (be_at env (n_cs s)) block \<noteq> be_HashGenesisBlock (be_at env (n_cs s))"
    and "list_all (\<lambda>tx. list_all (\<lambda>t. in_int64 (nValue t)) (vout tx)) (vtx block)"
  shows "if ok then
      cs_chain (n_cs s') = path (cs_index (n_cs s)) p \<and>
      tip_content (n_tip s') =
        foldl (apply_tx (block_hashes env) (int (bi_nHeight (cs_index (n_cs s) ! p)))) (tip_content (n_tip s)) (vtx block) \<and>
      cache_best db_hash (n_tip s') = hash_at (n_cs s) p \<and>
      map_of (mapTx (n_pool s')) \<subseteq>\<^sub>m map_of (mapTx (n_pool s)) \<and> list_all (cleared_of (av_Hash env) (n_pool s')) (vtx block)
    else
      cs_chain (n_cs s') = cs_chain (n_cs s) \<and> n_pool s' = n_pool s \<and>
      (if mode st' = MODE_ERROR then True
       else tip_content (n_tip s') = tip_content (n_tip s) \<and> cache_best db_hash (n_tip s') = cache_best db_hash (n_tip s))"
proof -
  note I = consistentD [OF assms(2)]
  from assms(1) show ?thesis
  proof (cases rule: ConnectTip_ways)
    case unread
    then show ?thesis by simp
  next
    case (refused b)
    note C = connect_coins_tip [OF refused(2) I(3,2) assms(4)]
    show ?thesis using refused(1) C(1,2) connect_coins_calm [OF refused(2)] I(3) by (simp add: calm_def tip_at_def)
  next
    case (unwritten b st1 s1 m)
    note C = connect_coins_tip [OF unwritten(2) I(3,2) assms(4)]
    obtain f' where f': "tip_at f' (hash_at (n_cs s) p) (n_tip s1)" using C(3) by blast
    note F = FlushStateToDisk_tip [OF unwritten(3) f']
    have "calm (n_cs s) (n_cs s')" using FlushStateToDisk_calm [OF unwritten(3)] connect_coins_calm [OF unwritten(2)] calm_trans by blast
    then show ?thesis using unwritten(1) F(2,3) C(1) by (simp add: calm_def)
  next
    case (added b st1 s1 m s2 es pool conflicts)
    have b: "b = block" using added(3) assms(5) by simp
    have q: "pprev (cs_index (n_cs s) ! p) = Some q" using added(2) assms(6) by simp
    note C = connect_coins_content [OF added(4) assms(2-4) q assms(7) assms(8,9) [folded b]]
    note F = FlushStateToDisk_tip [OF added(5) C]
    have c: "calm (n_cs s) (n_cs s2)" using FlushStateToDisk_calm [OF added(5)] connect_coins_calm [OF added(4)] calm_trans by blast
    have pool: "n_pool s2 = n_pool s" using F(2) connect_coins_tip(1) [OF added(4) I(3,2) assms(4)] by simp
    have R: "subpool pool (n_pool s)" "\<forall>tx \<in> set (vtx b). cleared_of (av_Hash env) pool tx"
      using removeForBlock_spec [OF I(4), of "vtx b" "[]"] added(6) pool by auto
    have p: "p < length (cs_index (n_cs s2))" using calm_length [OF c] assms(4) by simp
    have U: "n_cs s' = (n_cs s2)\<lparr>cs_chain := path (cs_index (n_cs s2)) p\<rparr>" "n_tip s' = n_tip s2" "n_pool s' = AddTransactionsUpdated 1 pool"
      using UpdateTip_keeps [OF added(7)] calm_headers [OF I(1) c] p by simp_all
    have "path (cs_index (n_cs s2)) p = path (cs_index (n_cs s)) p"
      using c by (simp add: calm_def state_kept_def path_kept)
    then show ?thesis using added(1) U F(1) R by (simp add: tip_at_def b list_all_iff subpool_def)
  qed
qed

lemma act_connects:
  "map_option fst (ConnectTip act_env 2 (Some fee_block) True CValidationState_new act_node) = Some True"
  by code_simp

lemma act_block_facts:
  "Tip (cs_chain (n_cs act_node)) = Some 1" "cs_map (n_cs act_node) (tip_hash (n_cs act_node)) = Some 1"
  "Block_GetHash (be_at act_env (n_cs act_node)) fee_block \<noteq> be_HashGenesisBlock (be_at act_env (n_cs act_node))"
  "path (cs_index (n_cs act_node)) 2 = [Some 0, Some 1, Some 2]" "hash_at (n_cs act_node) 2 = 1003"
  "int (bi_nHeight (cs_index (n_cs act_node) ! 2)) = 2" "2 < length (cs_index (n_cs act_node))"
  subgoal by code_simp
  subgoal by code_simp
  subgoal by code_simp
  subgoal by code_simp
  subgoal by code_simp
  subgoal by code_simp
  subgoal by code_simp
  done

theorem ConnectTip_refines_witness:
  "\<exists>st' s'. ConnectTip act_env 2 (Some fee_block) True CValidationState_new act_node = Some (True, st', s') \<and>
     cs_chain (n_cs s') = [Some 0, Some 1, Some 2] \<and> cache_best db_hash (n_tip s') = 1003 \<and>
     tip_content (n_tip s') = foldl (apply_tx (block_hashes act_env) 2) (tip_content (n_tip act_node)) [fee_coinbase, fee_tx]"
proof -
  obtain st' s' where r: "ConnectTip act_env 2 (Some fee_block) True CValidationState_new act_node = Some (True, st', s')"
    using act_connects by auto
  have b: "vtx fee_block = [fee_coinbase, fee_tx]" by (simp add: fee_block_def)
  have v: "list_all (\<lambda>tx. list_all (\<lambda>t. in_int64 (nValue t)) (vout tx)) (vtx fee_block)"
    using fee_block_facts(3) by (simp add: in_int64_def)
  show ?thesis
    using ConnectTip_refines [OF r act_consistent act_block_facts(7) _ act_block_facts(1-3) v] r
    by (simp add: act_block_facts(4-6) b)
qed

end
