(* ===== verification/Block_Files.thy ===== *)
theory Block_Files
  imports Kernel
begin

text \<open>
  The records of the block files and the allocation of space in them (\<^verbatim>\<open>src/src/main.h\<close>, \<^verbatim>\<open>src/src/main.cpp\<close>):
  \<^verbatim>\<open>CBlockFileInfo\<close>, \<^verbatim>\<open>FindBlockPos\<close> and \<^verbatim>\<open>FindUndoPos\<close>. The free space of the disk is a parameter;
  that files are cut, written out and extended in advance is left out. \<open>None\<close> is an access beyond the vector of
  records, or a search that does not end.
\<close>

section \<open>Records of files\<close>

record CBlockFileInfo =
  nBlocks :: uint32
  nSize :: uint32
  nUndoSize :: uint32
  nHeightFirst :: uint32
  nHeightLast :: uint32
  nTimeFirst :: uint64
  nTimeLast :: uint64

definition CBlockFileInfo_null :: CBlockFileInfo where
  "CBlockFileInfo_null =
     \<lparr>nBlocks = 0, nSize = 0, nUndoSize = 0, nHeightFirst = 0, nHeightLast = 0, nTimeFirst = 0, nTimeLast = 0\<rparr>"

definition AddBlock :: "uint32 \<Rightarrow> uint64 \<Rightarrow> CBlockFileInfo \<Rightarrow> CBlockFileInfo" where
  "AddBlock nHeightIn nTimeIn i =
     (let i1 = (if nBlocks i = 0 \<or> nHeightFirst i > nHeightIn then i\<lparr>nHeightFirst := nHeightIn\<rparr> else i);
          i2 = (if nBlocks i1 = 0 \<or> nTimeFirst i1 > nTimeIn then i1\<lparr>nTimeFirst := nTimeIn\<rparr> else i1);
          i3 = i2\<lparr>nBlocks := nBlocks i2 + 1\<rparr>;
          i4 = (if nHeightIn > nHeightLast i3 then i3\<lparr>nHeightLast := nHeightIn\<rparr> else i3)
      in if nTimeIn > nTimeLast i4 then i4\<lparr>nTimeLast := nTimeIn\<rparr> else i4)"

record block_files =
  vinfoBlockFile :: "CBlockFileInfo list"
  nLastBlockFile :: int
  setDirtyFileInfo :: "int list"

definition MAX_BLOCKFILE_SIZE :: uint32 where "MAX_BLOCKFILE_SIZE = 0x8000000"
definition BLOCKFILE_CHUNK_SIZE :: uint32 where "BLOCKFILE_CHUNK_SIZE = 0x1000000"
definition UNDOFILE_CHUNK_SIZE :: uint32 where "UNDOFILE_CHUNK_SIZE = 0x100000"

section \<open>Space for a block\<close>

text \<open>The vector is extended if it has no record for a file.\<close>

definition grow :: "uint32 \<Rightarrow> CBlockFileInfo list \<Rightarrow> CBlockFileInfo list" where
  "grow nf infos =
     (if length infos \<le> unat nf
      then take (unat (nf + 1)) infos @ replicate (unat (nf + 1) - length infos) CBlockFileInfo_null else infos)"

partial_function (option) leave_full :: "uint32 \<Rightarrow> uint32 \<Rightarrow> CBlockFileInfo list \<Rightarrow> (uint32 \<times> CBlockFileInfo list) option" where
  "leave_full nAddSize nf infos =
     (if length infos \<le> unat nf then None
      else if nSize (infos ! unat nf) + nAddSize \<ge> MAX_BLOCKFILE_SIZE
      then leave_full nAddSize (nf + 1) (grow (nf + 1) infos)
      else Some (nf, infos))"

declare leave_full.simps [code]

definition FindBlockPos ::
  "(uint32 \<Rightarrow> bool) \<Rightarrow> CValidationState \<Rightarrow> disk_pos \<Rightarrow> uint32 \<Rightarrow> uint32 \<Rightarrow> uint64 \<Rightarrow> bool \<Rightarrow> block_files \<Rightarrow>
   (bool \<times> CValidationState \<times> disk_pos \<times> block_files) option" where
  "FindBlockPos CheckDiskSpace st pos nAddSize h t fKnown s =
     (let start = (if fKnown then of_int (fst pos) else of_int (nLastBlockFile s));
          infos0 = grow start (vinfoBlockFile s)
      in case (if fKnown then Some (start, infos0) else leave_full nAddSize start infos0) of
        None \<Rightarrow> None
      | Some (nf, infos) \<Rightarrow>
          if length infos \<le> unat nf then None
          else
            let pos1 = (if fKnown then pos else (sint nf, nSize (infos ! unat nf)));
                i = AddBlock h t (infos ! unat nf);
                i' = i\<lparr>nSize := if fKnown then max (snd pos1 + nAddSize) (nSize i) else nSize i + nAddSize\<rparr>;
                s1 = s\<lparr>vinfoBlockFile := infos[unat nf := i'], nLastBlockFile := sint nf\<rparr>;
                nOldChunks = (snd pos1 + BLOCKFILE_CHUNK_SIZE - 1) div BLOCKFILE_CHUNK_SIZE;
                nNewChunks = (nSize i' + BLOCKFILE_CHUNK_SIZE - 1) div BLOCKFILE_CHUNK_SIZE
            in if \<not> fKnown \<and> nNewChunks > nOldChunks \<and> \<not> CheckDiskSpace (nNewChunks * BLOCKFILE_CHUNK_SIZE - snd pos1)
               then Some (False, State_Error st ''out of disk space'', pos1, s1)
               else Some (True, st, pos1, s1\<lparr>setDirtyFileInfo := List.insert (sint nf) (setDirtyFileInfo s)\<rparr>))"

section \<open>Space for undo data\<close>

definition FindUndoPos ::
  "(uint32 \<Rightarrow> bool) \<Rightarrow> CValidationState \<Rightarrow> int \<Rightarrow> uint32 \<Rightarrow> block_files \<Rightarrow> (bool \<times> CValidationState \<times> disk_pos \<times> block_files) option" where
  "FindUndoPos CheckDiskSpace st nf nAddSize s =
     (if nf < 0 \<or> int (length (vinfoBlockFile s)) \<le> nf then None
      else
        let i = vinfoBlockFile s ! nat nf;
            pos = (nf, nUndoSize i);
            nNewSize = nUndoSize i + nAddSize;
            s1 = s\<lparr>vinfoBlockFile := (vinfoBlockFile s)[nat nf := i\<lparr>nUndoSize := nNewSize\<rparr>],
                   setDirtyFileInfo := List.insert nf (setDirtyFileInfo s)\<rparr>;
            nOldChunks = (snd pos + UNDOFILE_CHUNK_SIZE - 1) div UNDOFILE_CHUNK_SIZE;
            nNewChunks = (nNewSize + UNDOFILE_CHUNK_SIZE - 1) div UNDOFILE_CHUNK_SIZE
        in if nNewChunks > nOldChunks \<and> \<not> CheckDiskSpace (nNewChunks * UNDOFILE_CHUNK_SIZE - snd pos)
           then Some (False, State_Error st ''out of disk space'', pos, s1)
           else Some (True, st, pos, s1))"

section \<open>The search for a file\<close>

text \<open>The record of every file, also of one that the vector does not reach; and the limit on block files.\<close>

definition file_at :: "CBlockFileInfo list \<Rightarrow> nat \<Rightarrow> CBlockFileInfo" where
  "file_at infos i = (if i < length infos then infos ! i else CBlockFileInfo_null)"

definition files_ok :: "block_files \<Rightarrow> bool" where
  "files_ok s \<longleftrightarrow> list_all (\<lambda>i. nSize i < MAX_BLOCKFILE_SIZE) (vinfoBlockFile s) \<and> 0 \<le> nLastBlockFile s"

lemma nSize_AddBlock [simp]: "nSize (AddBlock h t i) = nSize i"
  by (simp add: AddBlock_def Let_def)

lemma file_at_append_null [simp]: "file_at (infos @ replicate k CBlockFileInfo_null) = file_at infos"
  by (auto simp: file_at_def fun_eq_iff nth_append)

lemma file_at_update: "i < length infos \<Longrightarrow> file_at (infos[i := x]) = (file_at infos)(i := x)"
  by (auto simp: file_at_def fun_eq_iff)

lemma grow_append:
  assumes "unat nf < 2 ^ 32 - 1"
  shows "grow nf infos = infos @ replicate (Suc (unat nf) - length infos) CBlockFileInfo_null"
proof -
  have "unat (nf + 1) = Suc (unat nf)" using assms by (simp add: unat_word_ariths unsigned_1)
  then show ?thesis by (simp add: grow_def)
qed

lemma leave_full_ends:
  assumes "unat nf < length infos" "length infos < 2 ^ 31" "nAddSize < MAX_BLOCKFILE_SIZE"
  shows "\<exists>n k. leave_full nAddSize nf infos = Some (n, infos @ replicate k CBlockFileInfo_null) \<and> unat nf \<le> unat n \<and>
    unat n < length infos + k \<and> k \<le> 1 \<and> nSize (file_at infos (unat n)) + nAddSize < MAX_BLOCKFILE_SIZE"
  using assms(1)
proof (induction "length infos - unat nf" arbitrary: nf)
  case (Suc d)
  note in_range = \<open>unat nf < length infos\<close>
  have next_file: "unat (nf + 1) = Suc (unat nf)" using in_range assms(2) by (simp add: unat_word_ariths unsigned_1)
  show ?case
  proof (cases "nSize (infos ! unat nf) + nAddSize \<ge> MAX_BLOCKFILE_SIZE")
    case False
    then have "leave_full nAddSize nf infos = Some (nf, infos)" using in_range by (subst leave_full.simps) simp
    then show ?thesis using False in_range by (intro exI [of _ nf] exI [of _ 0]) (simp add: file_at_def not_le)
  next
    case full: True
    then have step: "leave_full nAddSize nf infos = leave_full nAddSize (nf + 1) (grow (nf + 1) infos)"
      using in_range by (subst leave_full.simps) simp
    show ?thesis
    proof (cases "Suc (unat nf) < length infos")
      case True
      then have "grow (nf + 1) infos = infos" by (simp add: grow_def next_file)
      moreover have "d = length infos - unat (nf + 1)" using Suc.hyps(2) next_file by simp
      ultimately show ?thesis using Suc.hyps(1) [of "nf + 1"] True next_file step by fastforce
    next
      case False
      then have len: "length infos = Suc (unat nf)" using in_range by simp
      have "grow (nf + 1) infos = infos @ [CBlockFileInfo_null]"
        using grow_append [of "nf + 1" infos] next_file len assms(2) by simp
      moreover have "leave_full nAddSize (nf + 1) (infos @ [CBlockFileInfo_null]) = Some (nf + 1, infos @ [CBlockFileInfo_null])"
        using assms(3) next_file len by (subst leave_full.simps) (auto simp: nth_append CBlockFileInfo_null_def dest: leD)
      ultimately have "leave_full nAddSize nf infos = Some (nf + 1, infos @ [CBlockFileInfo_null])" using step by simp
      then show ?thesis using next_file len assms(3)
        by (intro exI [of _ "nf + 1"] exI [of _ 1]) (simp add: file_at_def CBlockFileInfo_null_def)
    qed
  qed
qed simp

lemma sint_small: "unat (n :: uint32) < 2 ^ 31 \<Longrightarrow> sint n = int (unat n)"
proof -
  assume "unat n < 2 ^ 31"
  then have "int (unat n) < int (2 ^ 31)" by (simp only: of_nat_less_iff)
  then have "in_int32 (int (unat n))" by (simp add: in_int32_def order_trans [OF _ uint_ge_0])
  moreover have "word_of_int (int (unat n)) = n" by simp
  ultimately show "sint n = int (unat n)" by (metis sint_of_int32)
qed

lemma list_all_file_at: "P CBlockFileInfo_null \<Longrightarrow> list_all P infos \<longleftrightarrow> (\<forall>i. P (file_at infos i))"
  by (auto simp: list_all_length file_at_def)

section \<open>Properties\<close>

text \<open>C40: \<^verbatim>\<open>FindBlockPos\<close> returns, and gives a new block a place of its own: the range begins at the end of what is used of its file and
  the used size grows by exactly this range, without overflow and within 128 MiB, whether or not the disk has room to extend the file. The
  number of blocks, heights and times of that file are updated and every other file is left as it is; the search never goes back to an earlier file.\<close>

theorem FindBlockPos_allocates:
  assumes "files_ok s" "nLastBlockFile s < 2 ^ 31 - 1" "length (vinfoBlockFile s) < 2 ^ 31" "nAddSize < MAX_BLOCKFILE_SIZE"
  shows "\<exists>ok st' i s'. FindBlockPos CheckDiskSpace st pos nAddSize h t False s =
       Some (ok, st', (int i, nSize (file_at (vinfoBlockFile s) i)), s') \<and>
     nat (nLastBlockFile s) \<le> i \<and> nLastBlockFile s' = int i \<and>
     unat (nSize (file_at (vinfoBlockFile s) i)) + unat nAddSize < 2 ^ 27 \<and>
     file_at (vinfoBlockFile s') = (file_at (vinfoBlockFile s))
       (i := (AddBlock h t (file_at (vinfoBlockFile s) i))\<lparr>nSize := nSize (file_at (vinfoBlockFile s) i) + nAddSize\<rparr>) \<and>
     files_ok s' \<and> (if ok then st' = st else mode st' = MODE_ERROR)"
proof -
  let ?last = "of_int (nLastBlockFile s) :: uint32" and ?fs = "file_at (vinfoBlockFile s)"
  have last: "unat ?last = nat (nLastBlockFile s)"
    using assms(1,2) by (simp add: files_ok_def unat_eq_nat_uint uint_word_of_int_eq take_bit_int_eq_self)
  define infos where "infos = grow ?last (vinfoBlockFile s)"
  have infos: "infos = vinfoBlockFile s @ replicate (Suc (nat (nLastBlockFile s)) - length (vinfoBlockFile s)) CBlockFileInfo_null"
    unfolding infos_def using grow_append [of ?last] last assms(2) by simp
  have len: "nat (nLastBlockFile s) < length infos" "length infos < 2 ^ 31" using assms(1-3) by (auto simp: infos files_ok_def)
  have fs: "file_at infos = ?fs" by (simp add: infos)
  obtain n k where n: "leave_full nAddSize ?last infos = Some (n, infos @ replicate k CBlockFileInfo_null)"
    "nat (nLastBlockFile s) \<le> unat n" "unat n < length infos + k" "k \<le> 1" "nSize (?fs (unat n)) + nAddSize < MAX_BLOCKFILE_SIZE"
    using leave_full_ends [of ?last infos nAddSize] len last assms(4) fs by auto
  have sn: "sint n = int (unat n)" using n(3,4) len(2) by (intro sint_small) simp
  have at: "(infos @ replicate k CBlockFileInfo_null) ! unat n = ?fs (unat n)"
    using n(3) fs [symmetric] by (simp add: file_at_def nth_append)
  have sizes: "\<forall>i. nSize (?fs i) < MAX_BLOCKFILE_SIZE"
    using assms(1) list_all_file_at [of "\<lambda>i. nSize i < MAX_BLOCKFILE_SIZE"] by (simp add: files_ok_def CBlockFileInfo_null_def MAX_BLOCKFILE_SIZE_def)
  have small: "unat (nSize (?fs (unat n))) < 2 ^ 27" "unat nAddSize < 2 ^ 27" "unat (nSize (?fs (unat n)) + nAddSize) < 2 ^ 27"
    using sizes assms(4) n(5) by (simp_all add: MAX_BLOCKFILE_SIZE_def word_less_nat_alt)
  then have sum: "unat (nSize (?fs (unat n))) + unat nAddSize < 2 ^ 27" by (simp add: unat_word_ariths)
  let ?new = "(AddBlock h t (?fs (unat n)))\<lparr>nSize := nSize (?fs (unat n)) + nAddSize\<rparr>"
  let ?infos' = "(infos @ replicate k CBlockFileInfo_null)[unat n := ?new]"
  have fs': "file_at ?infos' = ?fs(unat n := ?new)" using n(3) by (simp add: file_at_update fs)
  have ok: "list_all (\<lambda>i. nSize i < MAX_BLOCKFILE_SIZE) ?infos'"
    using list_all_file_at [of "\<lambda>i. nSize i < MAX_BLOCKFILE_SIZE" ?infos'] sizes n(5) fs' by (simp add: CBlockFileInfo_null_def MAX_BLOCKFILE_SIZE_def)
  obtain good st' s' where r: "FindBlockPos CheckDiskSpace st pos nAddSize h t False s = Some (good, st', (int (unat n), nSize (?fs (unat n))), s')"
    "vinfoBlockFile s' = ?infos'" "nLastBlockFile s' = int (unat n)" "if good then st' = st else mode st' = MODE_ERROR"
  proof (cases "FindBlockPos CheckDiskSpace st pos nAddSize h t False s")
    case None
    then show ?thesis using n(1,3) by (auto simp: FindBlockPos_def infos_def [symmetric] Let_def split: if_split_asm)
  next
    case (Some r)
    then show ?thesis
      using that n(1,3) at sn
      by (auto simp: FindBlockPos_def infos_def [symmetric] Let_def State_Error_def split: if_split_asm)
  qed
  show ?thesis
    by (rule exI [of _ good], rule exI [of _ st'], rule exI [of _ "unat n"], rule exI [of _ s'])
      (use r n(2) sum fs' ok in \<open>auto simp: files_ok_def\<close>)
qed

text \<open>The first file is full.\<close>

definition full_files :: block_files where
  "full_files = \<lparr>vinfoBlockFile = [CBlockFileInfo_null\<lparr>nBlocks := 9, nSize := 0x7FFFFFF\<rparr>], nLastBlockFile = 0, setDirtyFileInfo = []\<rparr>"

theorem FindBlockPos_allocates_witness:
  "\<exists>ok st' s'. FindBlockPos (\<lambda>_. True) CValidationState_new (0, 0) 300 7 1000 False full_files = Some (ok, st', (1, 0), s') \<and>
     file_at (vinfoBlockFile s') 1 = \<lparr>nBlocks = 1, nSize = 300, nUndoSize = 0, nHeightFirst = 7, nHeightLast = 7, nTimeFirst = 1000, nTimeLast = 1000\<rparr>"
proof -
  have "files_ok full_files" "nLastBlockFile full_files < 2 ^ 31 - 1" "length (vinfoBlockFile full_files) < 2 ^ 31" "(300 :: uint32) < MAX_BLOCKFILE_SIZE"
    by (simp_all add: files_ok_def full_files_def MAX_BLOCKFILE_SIZE_def CBlockFileInfo_null_def)
  from FindBlockPos_allocates [OF this, of "\<lambda>_. True" CValidationState_new "(0, 0)" 7 1000]
  obtain ok st' i s' where r: "FindBlockPos (\<lambda>_. True) CValidationState_new (0, 0) 300 7 1000 False full_files =
       Some (ok, st', (int i, nSize (file_at (vinfoBlockFile full_files) i)), s')"
    and f: "file_at (vinfoBlockFile s') = (file_at (vinfoBlockFile full_files))
       (i := (AddBlock 7 1000 (file_at (vinfoBlockFile full_files) i))\<lparr>nSize := nSize (file_at (vinfoBlockFile full_files) i) + 300\<rparr>)"
    by blast
  have "map_option (\<lambda>(_, _, pos, _). pos) (FindBlockPos (\<lambda>_. True) CValidationState_new (0, 0) 300 7 1000 False full_files) = Some (1, 0)"
    by code_simp
  then have i: "i = 1" using r by simp
  have "file_at (vinfoBlockFile full_files) 1 = CBlockFileInfo_null" by (simp add: file_at_def full_files_def)
  then show ?thesis using r f i by (simp add: AddBlock_def CBlockFileInfo_null_def)
qed

end
