(* ===== verification/Process_Block.thy ===== *)
theory Process_Block
  imports Activate Block_Files
begin

text \<open>
  The way of a new block into the node (\<^verbatim>\<open>src/src/main.cpp\<close>): \<^verbatim>\<open>AcceptBlockHeader\<close>, \<^verbatim>\<open>AcceptBlock\<close>,
  \<^verbatim>\<open>ProcessNewBlock\<close> and \<^verbatim>\<open>TestBlockValidity\<close>, over the tree, the coins, the pool and the block files.
  What the disk answers is an input. The download queues of the peers, the wallet and the masternode services, which are
  informed at the end, and the debugging check of the tree are left out.
\<close>

section \<open>Headers\<close>

text \<open>
  The predecessor of a new header has to be known and not failed. The code would reconsider a failed one that is a checkpoint, but
  only if the block itself had an entry, and it has none there.
\<close>

definition new_header ::
  "('d, 'x) activate_env_scheme \<Rightarrow> CBlock \<Rightarrow> CValidationState \<Rightarrow> nat option \<Rightarrow> chain_state \<Rightarrow>
   (bool \<times> CValidationState \<times> nat option \<times> chain_state) option" where
  "new_header env block st pindexPrev cs =
     (case ContextualCheckBlockHeader (be_at env cs) block st pindexPrev of
        None \<Rightarrow> None
      | Some (False, st1) \<Rightarrow> Some (False, st1, None, cs)
      | Some (True, st1) \<Rightarrow> map_option (\<lambda>(p, cs'). (True, st1, Some p, cs')) (AddToBlockIndex (av_kernel env) block cs))"

definition AcceptBlockHeader ::
  "('d, 'x) activate_env_scheme \<Rightarrow> CBlock \<Rightarrow> CValidationState \<Rightarrow> chain_state \<Rightarrow>
   (bool \<times> CValidationState \<times> nat option \<times> chain_state) option" where
  "AcceptBlockHeader env block st cs =
     (let hash = Block_GetHash (be_at env cs) block in
      case cs_map cs hash of
        Some p \<Rightarrow>
          Some (if block_failed (cs_index cs ! p) then (False, Invalid st 0 ''duplicate'', Some p, cs) else (True, st, Some p, cs))
      | None \<Rightarrow>
          (case CheckBlockHeader (be_at env cs) block st False of
             (False, st1) \<Rightarrow> Some (False, st1, None, cs)
           | (True, st1) \<Rightarrow>
               if hash = be_HashGenesisBlock (be_at env cs) then new_header env block st1 None cs
               else (case cs_map cs (hashPrevBlock block) of
                       None \<Rightarrow> Some (False, DoS st1 0 0 ''bad-prevblk'' False, None, cs)
                     | Some q \<Rightarrow>
                         if block_failed (cs_index cs ! q) then Some (False, DoS st1 100 REJECT_INVALID ''bad-prevblk'' False, None, cs)
                         else new_header env block st1 (Some q) cs)))"

section \<open>Blocks\<close>

text \<open>The answers of the disk: the free space, and the position that a block is written at.\<close>

datatype write_answer = Write_Ok uint32 | Write_Failed | Write_Threw string

record store_io =
  si_CheckDiskSpace :: "uint32 \<Rightarrow> bool"
  si_WriteBlockToDisk :: write_answer

text \<open>The body; a block that breaks a rule for certain is marked.\<close>

definition check_received ::
  "('d, 'x) activate_env_scheme \<Rightarrow> CBlock \<Rightarrow> bool \<Rightarrow> nat \<Rightarrow> CValidationState \<Rightarrow> 'd node \<Rightarrow> (bool \<times> CValidationState \<times> 'd node) option" where
  "check_received env block fAlreadyCheckedBlock p st s =
     Option.bind
       (if fAlreadyCheckedBlock then Some (True, st, n_rejected s)
        else CheckBlock (be_at env (n_cs s)) block st True (n_rejected s))
       (\<lambda>(ok1, st1, rej).
          let s1 = s\<lparr>n_rejected := rej\<rparr> in
          Option.bind
            (if ok1 then ContextualCheckBlock (be_at env (n_cs s1)) block st1 (pprev (cs_index (n_cs s1) ! p)) else Some (False, st1))
            (\<lambda>(ok2, st2).
               Some (ok2, st2,
                 if \<not> ok2 \<and> mode st2 = MODE_INVALID \<and> \<not> corruptionPossible st2
                 then s1\<lparr>n_cs := mark_dirty p (set_block p (add_status BLOCK_FAILED_VALID) (n_cs s1))\<rparr> else s1)))"

definition store_block ::
  "store_io \<Rightarrow> CBlock \<Rightarrow> disk_pos option \<Rightarrow> nat \<Rightarrow> CValidationState \<Rightarrow> chain_state \<Rightarrow> block_files \<Rightarrow>
   (bool \<times> CValidationState \<times> chain_state \<times> block_files) option" where
  "store_block io block dbp p st cs files =
     (let nBlockSize = of_nat (length (SerializeBlock block)) in
      case FindBlockPos (si_CheckDiskSpace io) st (case dbp of None \<Rightarrow> (-1, 0) | Some pos \<Rightarrow> pos) (nBlockSize + 8)
             (of_nat (bi_nHeight (cs_index cs ! p))) (of_int (GetBlockTime block)) (dbp \<noteq> None) files of
        None \<Rightarrow> None
      | Some (False, st1, _, files1) \<Rightarrow> Some (False, st1, cs, files1)
      | Some (True, st1, blockPos, files1) \<Rightarrow>
          (case (if dbp = None then si_WriteBlockToDisk io else Write_Ok (snd blockPos)) of
             Write_Failed \<Rightarrow> Some (False, State_Error st1 ''Failed to write block'', cs, files1)
           | Write_Threw what \<Rightarrow> Some (False, State_Error st1 (''System error: '' @ what), cs, files1)
           | Write_Ok pos \<Rightarrow> Some (True, st1, ReceivedBlockTransactions block (fst blockPos) pos p cs, files1)))"

definition accept_linked ::
  "('d, 'x) activate_env_scheme \<Rightarrow> store_io \<Rightarrow> CBlock \<Rightarrow> disk_pos option \<Rightarrow> bool \<Rightarrow> CValidationState \<Rightarrow> 'd node \<Rightarrow> block_files \<Rightarrow>
   (bool \<times> CValidationState \<times> nat option \<times> 'd node \<times> block_files) option" where
  "accept_linked env io block dbp fAlreadyCheckedBlock st s files =
     (case AcceptBlockHeader env block st (n_cs s) of
        None \<Rightarrow> None
      | Some (True, st1, Some p, cs1) \<Rightarrow>
          let s1 = s\<lparr>n_cs := cs1\<rparr> in
          if has_data (cs_index cs1 ! p) then Some (True, st1, Some p, s1, files)
          else (case check_received env block fAlreadyCheckedBlock p st1 s1 of
                  None \<Rightarrow> None
                | Some (False, st2, s2) \<Rightarrow> Some (False, st2, Some p, s2, files)
                | Some (True, st2, s2) \<Rightarrow>
                    map_option (\<lambda>(ok, st3, cs3, files3). (ok, st3, Some p, s2\<lparr>n_cs := cs3\<rparr>, files3))
                      (store_block io block dbp p st2 (n_cs s2) files))
      | Some (_, st1, pindex, cs1) \<Rightarrow> Some (False, st1, pindex, s\<lparr>n_cs := cs1\<rparr>, files))"

text \<open>The previous transaction of a stake may be in the pool.\<close>

definition kernel_at :: "('d, 'x) activate_env_scheme \<Rightarrow> 'd node \<Rightarrow> kernel_env" where
  "kernel_at env s = (ke_at (av_kernel env) (n_cs s))\<lparr>ke_mempool := pool_lookup (n_pool s)\<rparr>"

text \<open>A failed predecessor that is a checkpoint is reconsidered; then the new block is not looked at any more, and is reported as accepted.\<close>

definition AcceptBlock ::
  "('d::{zero,one,plus,minus,times,divide,ord}, 'x) activate_env_scheme \<Rightarrow> store_io \<Rightarrow> CBlock \<Rightarrow> disk_pos option \<Rightarrow> bool \<Rightarrow> CValidationState \<Rightarrow>
   'd node \<Rightarrow> block_files \<Rightarrow> (bool \<times> CValidationState \<times> nat option \<times> 'd node \<times> block_files) option" where
  "AcceptBlock env io block dbp fAlreadyCheckedBlock st s files =
     (let cs = n_cs s; be = be_at env cs in
      if Block_GetHash be block = be_HashGenesisBlock be then accept_linked env io block dbp fAlreadyCheckedBlock st s files
      else case cs_map cs (hashPrevBlock block) of
        None \<Rightarrow> Some (False, DoS st 0 0 ''bad-prevblk'' False, None, s, files)
      | Some q \<Rightarrow>
          if block_failed (cs_index cs ! q) then
            if Checkpoints_CheckBlock be (int (bi_nHeight (cs_index cs ! q))) (hashPrevBlock block) True
            then Option.bind (ReconsiderBlock q cs) (\<lambda>cs1.
                   map_option (\<lambda>(_, _, s2). (True, st, None, s2, files)) (ActivateBestChain env None False CValidationState_new (s\<lparr>n_cs := cs1\<rparr>)))
            else Some (False, DoS st 100 REJECT_INVALID ''bad-prevblk'' False, None, s, files)
          else (case CheckWork (kernel_at env s) db_ops (n_tip s) block (Some q) (cs_proofs cs) of
                  None \<Rightarrow> None
                | Some (ok, proofs, tip) \<Rightarrow>
                    let s1 = s\<lparr>n_cs := cs\<lparr>cs_proofs := proofs\<rparr>, n_tip := tip\<rparr> in
                    if ok then accept_linked env io block dbp fAlreadyCheckedBlock st s1 files else Some (False, st, None, s1, files)))"

section \<open>ProcessNewBlock\<close>

text \<open>The stake of a block must be unspent at the tip, or spent there not long ago and old enough.\<close>

definition check_stake_input ::
  "('d, 'x) activate_env_scheme \<Rightarrow> CBlock \<Rightarrow> CValidationState \<Rightarrow> 'd node \<Rightarrow> (bool \<times> CValidationState \<times> 'd node) option" where
  "check_stake_input env block st s =
     (case HaveInputs tip_ops (make_cache (n_tip s)) (vtx block ! 1) of
        (True, view) \<Rightarrow> Some (True, st, s\<lparr>n_tip := base view\<rparr>)
      | (False, view) \<Rightarrow>
          let s1 = s\<lparr>n_tip := base view\<rparr>; (out, time) = GetProofOfStake block in
          if map_of (n_stakes s1) out = None then Some (False, DoS st 100 0 '''' False, s1)
          else Option.bind (GetTransaction (kernel_at env s1) db_ops (n_tip s1) (outpoint_hash out) 0 True) (\<lambda>(found, tip).
            let s2 = s1\<lparr>n_tip := tip\<rparr> in
            Some (case found of
                None \<Rightarrow> (False, DoS st 100 0 '''' False, s2)
              | Some (_, hashBlockPrev) \<Rightarrow>
                  (case cs_map (n_cs s2) hashBlockPrev of
                     None \<Rightarrow> (False, DoS st 100 0 '''' False, s2)
                   | Some p \<Rightarrow>
                       if bi_nTime (cs_index (n_cs s2) ! p) + nStakeMinAge > time then (False, DoS st 100 0 '''' False, s2)
                       else (True, st, s2)))))"

definition ProcessNewBlock ::
  "('d::{zero,one,plus,minus,times,divide,ord}, 'x) activate_env_scheme \<Rightarrow> store_io \<Rightarrow> int option \<Rightarrow> CBlock \<Rightarrow> disk_pos option \<Rightarrow> CValidationState \<Rightarrow>
   'd node \<Rightarrow> block_files \<Rightarrow> (bool \<times> CValidationState \<times> 'd node \<times> block_files) option" where
  "ProcessNewBlock env io pfrom block dbp st s files =
     Option.bind (CheckBlock (be_at env (n_cs s)) block st True (n_rejected s)) (\<lambda>(checked, st1, rej).
     let s1 = s\<lparr>n_rejected := rej\<rparr>; be = be_at env (n_cs s1) in
     Option.bind (CheckBlockSignature (be_HashKeccak256 be) (se_Verify (ke_sig (av_kernel env))) block) (\<lambda>signed.
       if \<not> signed then Some (False, st1, s1, files)
       else if Block_GetHash be block \<noteq> be_HashGenesisBlock be \<and> pfrom \<noteq> None \<and> cs_map (n_cs s1) (hashPrevBlock block) = None
       then map_option (\<lambda>loc. (False, st1, s1\<lparr>n_effects := n_effects s1 @ [PushGetBlocks (the pfrom) loc 0]\<rparr>, files))
              (GetLocator (cs_index (n_cs s1)) (cs_chain (n_cs s1)) None)
       else if \<not> checked then Some (False, st1, s1, files)
       else Option.bind (if IsProofOfStake block then check_stake_input env block st1 s1 else Some (True, st1, s1)) (\<lambda>(ok, st2, s2).
         if \<not> ok then Some (False, st2, s2, files)
         else Option.bind (AcceptBlock env io block dbp checked st2 s2 files) (\<lambda>(ret, st3, pindex, s3, files3).
           Option.bind
             (case (pindex, pfrom) of
                (Some p, Some peer) \<Rightarrow>
                  map_option (\<lambda>h. s3\<lparr>n_cs := (n_cs s3)\<lparr>cs_source := (cs_source (n_cs s3))(h \<mapsto> peer)\<rparr>\<rparr>) (Index_GetBlockHash (cs_index (n_cs s3) ! p))
              | _ \<Rightarrow> Some s3)
             (\<lambda>s4.
                if \<not> ret then Some (False, st3, s4, files3)
                else map_option (\<lambda>(done, st5, s5). (done, st5, s5, files3)) (ActivateBestChain env (Some block) checked st3 s4))))))"

section \<open>TestBlockValidity\<close>

text \<open>A block is tried on top of the tip without being stored; \<open>None\<close> is also the failed assertion that the state is valid at the end.\<close>

definition TestBlockValidity ::
  "('d, 'x) activate_env_scheme \<Rightarrow> connect_io \<Rightarrow> CBlock \<Rightarrow> nat \<Rightarrow> bool \<Rightarrow> CValidationState \<Rightarrow> 'd node \<Rightarrow> (bool \<times> CValidationState \<times> 'd node) option" where
  "TestBlockValidity env disk block pindexPrev fCheckMerkleRoot st s =
     (let be = be_at env (n_cs s);
          indexDummy = (CBlockIndex_of_block block)\<lparr>pprev := Some pindexPrev, bi_nHeight := bi_nHeight (cs_index (n_cs s) ! pindexPrev) + 1\<rparr>
      in if Tip (cs_chain (n_cs s)) \<noteq> Some pindexPrev then None
      else Option.bind (ContextualCheckBlockHeader be block st (Some pindexPrev)) (\<lambda>(ok1, st1).
        if \<not> ok1 then Some (False, st1, s)
        else Option.bind (CheckBlock be block st1 fCheckMerkleRoot (n_rejected s)) (\<lambda>(ok2, st2, rej).
        let s1 = s\<lparr>n_rejected := rej\<rparr> in
        if \<not> ok2 then Some (False, st2, s1)
        else Option.bind (ContextualCheckBlock be block st2 (Some pindexPrev)) (\<lambda>(ok3, st3).
        if \<not> ok3 then Some (False, st3, s1)
        else Option.bind (ConnectBlock (ke_sig (av_kernel env)) disk be tip_ops block st3 indexDummy (make_cache (n_tip s1)) True False
                            (n_stakes s1) (n_rejected s1)) (\<lambda>r.
        let s2 = s1\<lparr>n_tip := base (cr_view r), n_stakes := cr_stakeSpent r, n_rejected := cr_rejected r, n_writes := n_writes s1 @ cr_writes r\<rparr> in
        if \<not> cr_ok r then Some (False, cr_state r, s2)
        else if mode (cr_state r) \<noteq> MODE_VALID then None else Some (True, cr_state r, s2))))))"

end
