(* ===== verification/Tree_Growth.thy ===== *)
theory Tree_Growth
  imports Activate_Chain
begin

text \<open>
  A new block in the tree: \<^verbatim>\<open>AddToBlockIndex\<close> appends one entry with its parent, height and skip pointer and touches
  the others only in their link to the next block, so the tree, the active chain and the candidates stay as they
  are; \<^verbatim>\<open>ReceivedBlockTransactions\<close> then makes the block a candidate where it should be one.
\<close>

section \<open>A store with one block more\<close>

definition grown :: "block_store \<Rightarrow> block_store \<Rightarrow> bool" where
  "grown st st' \<longleftrightarrow> length st' = Suc (length st) \<and> (\<forall>r < length st. (st' ! r)\<lparr>pnext := None\<rparr> = (st ! r)\<lparr>pnext := None\<rparr>)"

lemma grown_length: "grown st st' \<Longrightarrow> length st' = Suc (length st)"
  by (simp add: grown_def)

lemma grown_in: "grown st st' \<Longrightarrow> length st < length st'"
  by (simp add: grown_def)

lemma grown_fields:
  assumes "grown st st'" "r < length st"
  shows "phashBlock (st' ! r) = phashBlock (st ! r)" "pprev (st' ! r) = pprev (st ! r)" "pskip (st' ! r) = pskip (st ! r)"
    "bi_nHeight (st' ! r) = bi_nHeight (st ! r)" "nChainWork (st' ! r) = nChainWork (st ! r)" "nChainTx (st' ! r) = nChainTx (st ! r)"
    "nSequenceId (st' ! r) = nSequenceId (st ! r)" "nStatus (st' ! r) = nStatus (st ! r)"
proof -
  have eq: "(st' ! r)\<lparr>pnext := None\<rparr> = (st ! r)\<lparr>pnext := None\<rparr>" using assms by (simp add: grown_def)
  from eq [THEN arg_cong [where f = phashBlock]] eq [THEN arg_cong [where f = pprev]] eq [THEN arg_cong [where f = pskip]]
    eq [THEN arg_cong [where f = bi_nHeight]] eq [THEN arg_cong [where f = nChainWork]] eq [THEN arg_cong [where f = nChainTx]]
    eq [THEN arg_cong [where f = nSequenceId]] eq [THEN arg_cong [where f = nStatus]]
  show "phashBlock (st' ! r) = phashBlock (st ! r)" "pprev (st' ! r) = pprev (st ! r)" "pskip (st' ! r) = pskip (st ! r)"
    "bi_nHeight (st' ! r) = bi_nHeight (st ! r)" "nChainWork (st' ! r) = nChainWork (st ! r)" "nChainTx (st' ! r) = nChainTx (st ! r)"
    "nSequenceId (st' ! r) = nSequenceId (st ! r)" "nStatus (st' ! r) = nStatus (st ! r)" by simp_all
qed

lemma grown_append: "grown st (st @ [b])"
  by (simp add: grown_def nth_append)

lemma grown_new: "grown st st' \<Longrightarrow> grown st (st'[length st := b])"
  by (simp add: grown_def)

lemma grown_next: "grown st st' \<Longrightarrow> grown st (st'[q := (st' ! q)\<lparr>pnext := x\<rparr>])"
  by (cases "q < length st'") (auto simp: grown_def nth_list_update)

lemma grown_up:
  assumes "grown st st'" "tree_ok st"
  shows "r < length st \<Longrightarrow> up st' n r = up st n r"
proof (induction n arbitrary: r)
  case (Suc n)
  then show ?case using tree_parent(1) [OF assms(2) Suc.prems] grown_fields(2) [OF assms(1) Suc.prems]
    by (cases "pprev (st ! r)") auto
qed simp

lemma grown_anc: "grown st st' \<Longrightarrow> tree_ok st \<Longrightarrow> r < length st \<Longrightarrow> anc st' r h = anc st r h"
  by (simp add: anc_def grown_fields grown_up)

lemma grown_path: "grown st st' \<Longrightarrow> tree_ok st \<Longrightarrow> r < length st \<Longrightarrow> path st' r = path st r"
  by (simp add: path_def grown_fields grown_anc)

lemma grown_ancestors: "grown st st' \<Longrightarrow> tree_ok st \<Longrightarrow> r < length st \<Longrightarrow> ancestors st' r = ancestors st r"
  by (simp add: ancestors_def grown_path)

lemma grown_linked: "grown st st' \<Longrightarrow> tree_ok st \<Longrightarrow> r < length st \<Longrightarrow> linked st' r = linked st r"
  using ancestors_range [of st r] by (auto simp: linked_def grown_ancestors list_all_iff grown_fields)

lemma grown_work_less: "grown st st' \<Longrightarrow> r < length st \<Longrightarrow> q < length st \<Longrightarrow> work_less st' r q = work_less st r q"
  by (simp add: work_less_def grown_fields)

lemma grown_walk:
  assumes "grown st st'" "tree_ok st" "skips_ok st"
  shows "r < length st \<Longrightarrow> hw = bi_nHeight (st ! r) \<Longrightarrow> ancestor_walk st' h r hw = ancestor_walk st h r hw"
proof (induction hw arbitrary: r rule: less_induct)
  case (less hw)
  note eqs = ancestor_walk.simps [of st' h r hw] ancestor_walk.simps [of st h r hw]
  show ?case
  proof (cases "hw > h")
    case False
    then show ?thesis by (simp add: eqs)
  next
    case True
    then obtain q where q: "pprev (st ! r) = Some q" using tree_root [OF assms(2) less.prems(1)] less.prems(2) by (metis not_None_eq not_less0)
    note pq = tree_parent [OF assms(2) less.prems(1) q]
    have "GetSkipHeight hw < hw" using True GetSkipHeight_less by simp
    then obtain a where a: "anc st r (GetSkipHeight hw) = Some a" "a < length st" "bi_nHeight (st ! a) = GetSkipHeight hw"
      using anc_spec [OF assms(2) less.prems(1), of "GetSkipHeight hw"] less.prems(2) by auto
    have skip: "pskip (st ! r) = Some a" using assms(3) less.prems a(1) q by (simp add: skips_ok_def list_all_iff skip_ok_def)
    show ?thesis unfolding eqs
      using less.IH [of "GetSkipHeight hw" a] less.IH [of "hw - 1" q] \<open>GetSkipHeight hw < hw\<close> a pq less.prems
      by (auto simp: grown_fields [OF assms(1) less.prems(1)] skip q Let_def)
  qed
qed

text \<open>The new block has a parent, its height, and the skip pointer that \<^verbatim>\<open>BuildSkip\<close> computes.\<close>

lemma BuildSkip_grown:
  assumes "grown st st'" "tree_ok st" "skips_ok st" "q < length st" "pprev b = Some q" "bi_nHeight b = Suc (bi_nHeight (st ! q))"
  shows "pskip (BuildSkip st' b) = anc st q (GetSkipHeight (bi_nHeight b))"
proof -
  have "BuildSkip st' b = BuildSkip st b"
    using grown_walk [OF assms(1-4) refl] assms(5) by (simp add: BuildSkip_def GetAncestor_def grown_fields [OF assms(1,4)])
  then show ?thesis using BuildSkip_ok [OF assms(2-6)] by simp
qed

lemma grown_tree_ok:
  assumes "grown st st'" "tree_ok st" "pprev (st' ! length st) = Some q" "q < length st" "bi_nHeight (st' ! length st) = Suc (bi_nHeight (st ! q))"
  shows "tree_ok st'"
proof -
  have "node_ok st' (st' ! r)" if "r < Suc (length st)" for r
  proof (cases "r = length st")
    case True
    then show ?thesis using assms(3-5) grown_fields(4) [OF assms(1,4)] by (simp add: node_ok_def grown_length [OF assms(1)])
  next
    case False
    then have r: "r < length st" using that by simp
    show ?thesis
    proof (cases "pprev (st ! r)")
      case None
      then show ?thesis using tree_node [OF assms(2) r] by (simp add: node_ok_def grown_fields [OF assms(1) r])
    next
      case (Some a)
      then show ?thesis using tree_parent [OF assms(2) r Some]
        by (simp add: node_ok_def grown_fields [OF assms(1) r] grown_fields(4) [OF assms(1)] grown_length [OF assms(1)])
    qed
  qed
  then show ?thesis by (simp add: tree_ok_def list_all_length grown_length [OF assms(1)])
qed

lemma grown_skips_ok:
  assumes "grown st st'" "tree_ok st" "skips_ok st" "pprev (st' ! length st) = Some q" "q < length st"
    "bi_nHeight (st' ! length st) = Suc (bi_nHeight (st ! q))"
    "pskip (st' ! length st) = anc st q (GetSkipHeight (bi_nHeight (st' ! length st)))"
  shows "skips_ok st'"
proof -
  have new: "skip_ok st' (length st)"
  proof -
    have "GetSkipHeight (bi_nHeight (st' ! length st)) \<le> bi_nHeight (st' ! q)"
      using GetSkipHeight_less [of "bi_nHeight (st' ! length st)"] assms(6) grown_fields(4) [OF assms(1,5)] by simp
    then have "anc st' (length st) (GetSkipHeight (bi_nHeight (st' ! length st))) = anc st q (GetSkipHeight (bi_nHeight (st' ! length st)))"
      using anc_parent [OF grown_tree_ok [OF assms(1,2,4-6)] _ assms(4)] grown_anc [OF assms(1,2,5)] by (simp add: grown_length [OF assms(1)])
    then show ?thesis using assms(7) by (simp add: skip_ok_def)
  qed
  have "skip_ok st' r" if "r < length st" for r
    using that assms(3) by (simp add: skips_ok_def list_all_iff skip_ok_def grown_fields [OF assms(1) that] grown_anc [OF assms(1,2) that])
  then show ?thesis using new by (auto simp: skips_ok_def list_all_iff grown_length [OF assms(1)] less_Suc_eq)
qed

lemma grown_chain_ok: "grown st st' \<Longrightarrow> tree_ok st \<Longrightarrow> chain_ok st C \<Longrightarrow> chain_ok st' C"
  by (auto simp: chain_ok_def grown_path grown_length split: option.splits)

lemma grown_candidates_ok:
  assumes "grown (cs_index s) (cs_index s')" "tree_ok (cs_index s)" "candidates_ok s" "cs_candidates s' = cs_candidates s"
  shows "candidates_ok s'"
proof -
  have c: "p < length (cs_index s)" if "p \<in> set (cs_candidates s)" for p using assms(3) that by (simp add: candidates_ok_def list_all_iff)
  have "sorted_wrt (work_less (cs_index s')) (cs_candidates s)"
    by (rule sorted_wrt_mono_rel [of _ "work_less (cs_index s)"])
      (use c grown_work_less [OF assms(1)] assms(3) in \<open>auto simp: candidates_ok_def\<close>)
  then show ?thesis
    using assms(3) c grown_linked [OF assms(1,2)] by (auto simp: candidates_ok_def assms(4) list_all_iff grown_length [OF assms(1)] less_Suc_eq)
qed

section \<open>AddToBlockIndex\<close>

text \<open>What the tree and its walks read of an entry, and a state with one more entry.\<close>

definition entry_core :: "CBlockIndex \<Rightarrow> uint256 option \<times> nat option \<times> nat option \<times> nat \<times> uint32 \<times> uint32 \<times> uint32" where
  "entry_core b = (phashBlock b, pprev b, pskip b, bi_nHeight b, nTx b, nChainTx b, nStatus b)"

definition entered ::
  "chain_state \<Rightarrow> (uint256 \<rightharpoonup> nat) \<Rightarrow> (uint256 option \<times> nat option \<times> nat option \<times> nat \<times> uint32 \<times> uint32 \<times> uint32) \<Rightarrow> chain_state \<Rightarrow> bool" where
  "entered cs m c cs' \<longleftrightarrow>
     grown (cs_index cs) (cs_index cs') \<and> entry_core (cs_index cs' ! length (cs_index cs)) = c \<and> cs_map cs' = m \<and>
     cs_chain cs' = cs_chain cs \<and> cs_candidates cs' = cs_candidates cs \<and> cs_unlinked cs' = cs_unlinked cs"

lemma entered_set_new:
  "entered cs m c cs' \<Longrightarrow> entry_core (f (cs_index cs' ! length (cs_index cs))) = c' \<Longrightarrow> entered cs m c' (set_block (length (cs_index cs)) f cs')"
  by (simp add: entered_def set_block_def grown_new grown_in)

lemma entry_core_next: "entry_core (xs[q := (xs ! q)\<lparr>pnext := x\<rparr>] ! p) = entry_core (xs ! p)"
  by (cases "q < length xs"; cases "q = p") (simp_all add: entry_core_def list_update_beyond)

lemma entered_set_next: "entered cs m c cs' \<Longrightarrow> entered cs m c (set_block q (\<lambda>b. b\<lparr>pnext := x\<rparr>) cs')"
  by (simp add: entered_def set_block_def grown_next entry_core_next)

lemma entered_other [simp]:
  "entered cs m c (cs'\<lparr>cs_proofs := x\<rparr>) = entered cs m c cs'" "entered cs m c (cs'\<lparr>cs_best_header := y\<rparr>) = entered cs m c cs'"
  "entered cs m c (mark_dirty p cs') = entered cs m c cs'"
  by (simp_all add: entered_def mark_dirty_def)

lemma entry_core_kept [simp]:
  "entry_core (b\<lparr>bnChainTrust := t\<rparr>) = entry_core b" "entry_core (snd (SetStakeEntropyBit eb b)) = entry_core b"
  "entry_core (b\<lparr>hashProofOfStake := h\<rparr>) = entry_core b" "entry_core (SetStakeModifier n g b) = entry_core b"
  "entry_core (b\<lparr>nStakeModifierChecksum := c\<rparr>) = entry_core b" "entry_core (b\<lparr>nChainWork := w\<rparr>) = entry_core b"
  by (simp_all add: entry_core_def SetStakeEntropyBit_def SetStakeModifier_def Let_def)

lemma entered_set_same:
  "entered cs m c cs' \<Longrightarrow> (\<And>b. entry_core (f b) = entry_core b) \<Longrightarrow> entered cs m c (set_block (length (cs_index cs)) f cs')"
  by (rule entered_set_new) (auto simp: entered_def)

lemma link_block_entered:
  assumes "link_block ke hash (length (cs_index cs)) q s = Some s'" "entered cs m (hs, pp, sk, h, n, ct, status) s"
    and "tree_ok (cs_index cs)" "skips_ok (cs_index cs)" "q < length (cs_index cs)"
  shows "entered cs m (hs, Some q, anc (cs_index cs) q (GetSkipHeight (Suc (bi_nHeight (cs_index cs ! q)))), Suc (bi_nHeight (cs_index cs ! q)), n, ct, status) s'"
proof -
  let ?p = "length (cs_index cs)" and ?h = "Suc (bi_nHeight (cs_index cs ! q))"
  let ?c = "(hs, Some q, anc (cs_index cs) q (GetSkipHeight ?h), ?h, n, ct, status)"
  define s1 where "s1 = set_block ?p (\<lambda>b. b\<lparr>pprev := Some q, bi_nHeight := bi_nHeight (cs_index s ! q) + 1\<rparr>) s"
  define s2 where "s2 = set_block q (\<lambda>b. b\<lparr>pnext := Some ?p\<rparr>) (set_block ?p (BuildSkip (cs_index s1)) s1)"
  have hq: "bi_nHeight (cs_index s ! q) + 1 = ?h" using assms(2,5) grown_fields(4) by (simp add: entered_def)
  have e1: "entered cs m (hs, Some q, sk, ?h, n, ct, status) s1"
    unfolding s1_def by (rule entered_set_new [OF assms(2)]) (use assms(2) hq in \<open>simp add: entered_def entry_core_def\<close>)
  have e2: "entered cs m ?c s2" unfolding s2_def
  proof (rule entered_set_next, rule entered_set_new [OF e1])
    let ?b = "cs_index s1 ! ?p"
    have b: "phashBlock ?b = hs" "pprev ?b = Some q" "bi_nHeight ?b = ?h" "nTx ?b = n" "nChainTx ?b = ct" "nStatus ?b = status" "grown (cs_index cs) (cs_index s1)"
      using e1 by (simp_all add: entered_def entry_core_def)
    have "pskip (BuildSkip (cs_index s1) ?b) = anc (cs_index cs) q (GetSkipHeight ?h)"
      using BuildSkip_grown [OF b(7) assms(3-5) b(2)] b(3) by simp
    then show "entry_core (BuildSkip (cs_index s1) ?b) = ?c" using b by (simp add: entry_core_def BuildSkip_def)
  qed
  obtain trust eb g nModifier fGenerated c where s': "s' =
      (let s3 = set_block ?p (\<lambda>b. b\<lparr>bnChainTrust := bnChainTrust (cs_index s2 ! q) + u256 trust\<rparr>) s2;
           s4 = set_block ?p (\<lambda>b. snd (SetStakeEntropyBit eb b)) s3;
           s5 = (if Index_IsProofOfStake (cs_index s4 ! ?p)
                 then let proof = (case cs_proofs s4 hash of None \<Rightarrow> 0 | Some h \<Rightarrow> h)
                      in set_block ?p (\<lambda>b. b\<lparr>hashProofOfStake := proof\<rparr>) s4 \<lparr>cs_proofs := (cs_proofs s4)(hash \<mapsto> proof)\<rparr>
                 else s4);
           s6 = set_block ?p (SetStakeModifier nModifier fGenerated) s5
       in set_block ?p (\<lambda>b. b\<lparr>nStakeModifierChecksum := c\<rparr>) s6)"
    using assms(1) unfolding link_block_def Let_def s1_def [symmetric] s2_def [symmetric]
    by (clarsimp simp: bind_eq_Some_conv split: prod.splits)
  show ?thesis unfolding s' Let_def by (simp add: entered_set_same e2)
qed

abbreviation core_of :: "chain_state \<Rightarrow> uint256 \<Rightarrow> nat \<Rightarrow> uint32 \<Rightarrow> uint32 \<Rightarrow> uint32 \<Rightarrow> uint256 option \<times> nat option \<times> nat option \<times> nat \<times> uint32 \<times> uint32 \<times> uint32" where
  "core_of cs hash q n ct status \<equiv>
     (Some hash, Some q, anc (cs_index cs) q (GetSkipHeight (Suc (bi_nHeight (cs_index cs ! q)))), Suc (bi_nHeight (cs_index cs ! q)), n, ct, status)"

lemma RaiseValidity_tree: "nStatus b = 0 \<Longrightarrow> snd (RaiseValidity BLOCK_VALID_TREE b) = b\<lparr>nStatus := BLOCK_VALID_TREE\<rparr>"
  by (simp add: RaiseValidity_def BLOCK_VALID_TREE_def)

lemma AddToBlockIndex_entered:
  assumes "AddToBlockIndex ke block cs = Some (p, cs')" "cs_map cs (Block_GetHash (ke_block ke) block) = None"
    and "cs_map cs (hashPrevBlock block) = Some q" "q < length (cs_index cs)" "tree_ok (cs_index cs)" "skips_ok (cs_index cs)"
  shows "p = length (cs_index cs) \<and>
    entered cs ((cs_map cs)(Block_GetHash (ke_block ke) block \<mapsto> p)) (core_of cs (Block_GetHash (ke_block ke) block) q 0 0 BLOCK_VALID_TREE) cs'"
proof -
  let ?hash = "Block_GetHash (ke_block ke) block" and ?p = "length (cs_index cs)"
  let ?m = "(cs_map cs)(?hash \<mapsto> ?p)"
  let ?b = "(CBlockIndex_of_block block)\<lparr>nSequenceId := 0, phashBlock := Some ?hash\<rparr>"
  define s1 where "s1 = cs\<lparr>cs_index := cs_index cs @ [?b], cs_map := ?m,
      cs_stakeSeen := (if Index_IsProofOfStake ?b then List.insert (prevoutStake ?b, nStakeTime ?b) (cs_stakeSeen cs) else cs_stakeSeen cs)\<rparr>"
  have ne: "hashPrevBlock block \<noteq> ?hash" using assms(2,3) by auto
  have b: "entry_core ?b = (Some ?hash, None, None, 0, 0, 0, 0)"
    by (simp add: entry_core_def CBlockIndex_of_block_def CBlockIndex_null_def SetProofOfStake_def Let_def)
  have e1: "entered cs ?m (Some ?hash, None, None, 0, 0, 0, 0) s1" unfolding s1_def using b by (simp add: entered_def grown_append)
  note A = assms(1) [unfolded AddToBlockIndex_def Let_def assms(2) option.case s1_def [symmetric]]
  have m1: "cs_map s1 (hashPrevBlock block) = Some q" using assms(3) ne by (simp add: s1_def)
  obtain s2 where s2: "link_block ke ?hash ?p q s1 = Some s2" using A m1 by (auto simp: bind_eq_Some_conv)
  note e2 = link_block_entered [OF s2 e1 assms(5,6,4)]
  have b2: "nStatus (cs_index s2 ! ?p) = 0" "pprev (cs_index s2 ! ?p) = Some q" using e2 by (simp_all add: entered_def entry_core_def)
  obtain w where w: "GetBlockProof (bi_nBits (cs_index s2 ! ?p)) = Some w" using A m1 s2 by (auto simp: bind_eq_Some_conv)
  define s3 where "s3 = set_block ?p (\<lambda>b. snd (RaiseValidity BLOCK_VALID_TREE (b\<lparr>nChainWork := nChainWork (cs_index s2 ! q) + u256 w\<rparr>))) s2"
  have e3: "entered cs ?m (core_of cs ?hash q 0 0 BLOCK_VALID_TREE) s3" unfolding s3_def
    by (rule entered_set_new [OF e2]) (use e2 b2 RaiseValidity_tree in \<open>simp add: entered_def entry_core_def\<close>)
  have h3: "bi_nHeight (cs_index s3 ! ?p) \<noteq> 0" using e3 by (simp add: entered_def entry_core_def)
  define s4 where "s4 = (if (case cs_best_header s3 of None \<Rightarrow> True | Some h \<Rightarrow> nChainWork (cs_index s3 ! h) < nChainWork (cs_index s3 ! ?p))
     then s3\<lparr>cs_best_header := Some ?p\<rparr> else s3)"
  have i4: "cs_index s4 = cs_index s3" "entered cs ?m c s4 = entered cs ?m c s3" for c by (simp_all add: s4_def)
  have "(p, cs') = (?p, mark_dirty ?p (set_block q (\<lambda>b. b\<lparr>pnext := Some ?p\<rparr>) s4))"
    using A h3 unfolding m1 option.case s2 bind.bind_lunit b2(2) w s3_def [symmetric] s4_def [symmetric] i4(1) by auto
  then show ?thesis using e3 by (simp add: entered_set_next i4(2))
qed

section \<open>A set of candidates\<close>

lemma cand_insert_sorted:
  "sorted_wrt (work_less st) xs \<Longrightarrow> sorted_wrt (work_less st) (cand_insert st p xs) \<and> set (cand_insert st p xs) = insert p (set xs)"
proof (induction xs)
  case (Cons q xs)
  then show ?case using work_less_linear [of p q st] work_less_trans [of st p q] by auto
qed simp

section \<open>The block itself\<close>

text \<open>The positions that the state holds exist, and a block with a count of transactions is linked.\<close>

definition received_ok :: "chain_state \<Rightarrow> bool" where
  "received_ok cs \<longleftrightarrow>
     (\<forall>h p. cs_map cs h = Some p \<longrightarrow> p < length (cs_index cs)) \<and>
     list_all (\<lambda>e. case fst e of None \<Rightarrow> True | Some p \<Rightarrow> p < length (cs_index cs)) (cs_unlinked cs) \<and>
     list_all (\<lambda>p. nChainTx (cs_index cs ! p) = 0 \<or> linked (cs_index cs) p) [0 ..< length (cs_index cs)]"

lemma entered_headers_ok:
  assumes "entered cs m (core_of cs hash q n ct status) cs'" "headers_ok cs" "q < length (cs_index cs)"
  shows "headers_ok cs'"
proof -
  have g: "grown (cs_index cs) (cs_index cs')" and ok: "tree_ok (cs_index cs)" "skips_ok (cs_index cs)" "chain_ok (cs_index cs) (cs_chain cs)" "candidates_ok cs"
    using assms(1,2) by (simp_all add: entered_def headers_ok_def)
  have b: "pprev (cs_index cs' ! length (cs_index cs)) = Some q" "bi_nHeight (cs_index cs' ! length (cs_index cs)) = Suc (bi_nHeight (cs_index cs ! q))"
    "pskip (cs_index cs' ! length (cs_index cs)) = anc (cs_index cs) q (GetSkipHeight (bi_nHeight (cs_index cs' ! length (cs_index cs))))"
    using assms(1) by (simp_all add: entered_def entry_core_def)
  show ?thesis
    using grown_tree_ok [OF g ok(1) b(1) assms(3) b(2)] grown_skips_ok [OF g ok(1,2) b(1) assms(3) b(2,3)] grown_chain_ok [OF g ok(1,3)]
      grown_candidates_ok [OF g ok(1,4)] assms(1)
    by (simp add: headers_ok_def entered_def)
qed

lemma entered_linked:
  assumes "entered cs m (core_of cs hash q n ct status) cs'" "headers_ok cs" "q < length (cs_index cs)" "ct \<noteq> 0" "linked (cs_index cs) q"
  shows "linked (cs_index cs') (length (cs_index cs))"
proof -
  let ?p = "length (cs_index cs)"
  have g: "grown (cs_index cs) (cs_index cs')" and b: "pprev (cs_index cs' ! ?p) = Some q" "nChainTx (cs_index cs' ! ?p) = ct"
    using assms(1) by (simp_all add: entered_def entry_core_def)
  have t: "tree_ok (cs_index cs')" "tree_ok (cs_index cs)" using entered_headers_ok [OF assms(1-3)] assms(2) by (simp_all add: headers_ok_def)
  have "linked (cs_index cs') q" using grown_linked [OF g t(2) assms(3)] assms(5) by simp
  then show ?thesis using ancestors_simps [OF t(1) grown_in [OF g]] b assms(4) by (simp add: linked_def)
qed

lemma entered_received_ok:
  assumes "entered cs m (core_of cs hash q n ct status) cs'" "headers_ok cs" "q < length (cs_index cs)" "received_ok cs"
    and "m = (cs_map cs)(hash \<mapsto> length (cs_index cs))" "ct = 0 \<or> linked (cs_index cs) q"
  shows "received_ok cs'"
proof -
  let ?p = "length (cs_index cs)"
  have g: "grown (cs_index cs) (cs_index cs')" and e: "cs_map cs' = m" "cs_unlinked cs' = cs_unlinked cs" "nChainTx (cs_index cs' ! ?p) = ct"
    and t: "tree_ok (cs_index cs)"
    using assms(1,2) by (simp_all add: entered_def entry_core_def headers_ok_def)
  have "nChainTx (cs_index cs' ! p) = 0 \<or> linked (cs_index cs') p" if "p < Suc ?p" for p
  proof (cases "p = ?p")
    case True
    then show ?thesis using entered_linked [OF assms(1-3)] assms(6) e(3) by auto
  next
    case False
    then have "p < ?p" using that by simp
    then show ?thesis using assms(4) by (simp add: received_ok_def list_all_iff grown_fields [OF g] grown_linked [OF g t])
  qed
  then show ?thesis
    using assms(4) unfolding received_ok_def e assms(5) grown_length [OF g]
    by (auto simp: list_all_iff less_Suc_eq split: option.splits)
qed

text \<open>The entry gets its data and waits for its parent, or is linked at once.\<close>

lemma cand_add_ok:
  assumes "headers_ok cs" "p < length (cs_index cs)" "linked (cs_index cs) p"
  shows "headers_ok (cand_add p cs) \<and> set (cs_candidates (cand_add p cs)) = insert p (set (cs_candidates cs))"
  using assms cand_insert_sorted [of "cs_index cs" "cs_candidates cs" p]
  by (auto simp: headers_ok_def candidates_ok_def cand_add_def list_all_iff)

lemma received_ok_cong:
  assumes "cs_index cs' = cs_index cs" "cs_map cs' = cs_map cs"
    "list_all (\<lambda>e. case fst e of None \<Rightarrow> True | Some p \<Rightarrow> p < length (cs_index cs)) (cs_unlinked cs')"
  shows "received_ok cs \<Longrightarrow> received_ok cs'"
  unfolding received_ok_def assms(1,2) using assms(3) by simp

definition STORED :: uint32 where "STORED = BLOCK_VALID_TRANSACTIONS OR BLOCK_HAVE_DATA"

lemma stored_status: "STORED AND BLOCK_HAVE_DATA \<noteq> 0" "STORED AND BLOCK_FAILED_MASK = 0"
  by (simp_all add: STORED_def BLOCK_VALID_TRANSACTIONS_def BLOCK_HAVE_DATA_def BLOCK_FAILED_MASK_def BLOCK_FAILED_VALID_def BLOCK_FAILED_CHILD_def)

lemma RaiseValidity_stored:
  "nStatus b = BLOCK_VALID_TREE OR BLOCK_HAVE_DATA \<Longrightarrow> snd (RaiseValidity BLOCK_VALID_TRANSACTIONS b) = b\<lparr>nStatus := STORED\<rparr>"
  by (simp add: RaiseValidity_def STORED_def BLOCK_VALID_TREE_def BLOCK_HAVE_DATA_def BLOCK_VALID_TRANSACTIONS_def BLOCK_FAILED_MASK_def
      BLOCK_FAILED_VALID_def BLOCK_FAILED_CHILD_def BLOCK_VALID_MASK_def)

lemma receive_queue_new:
  assumes "list_all (\<lambda>e. case fst e of None \<Rightarrow> True | Some r \<Rightarrow> r < p) (cs_unlinked s)"
  shows "receive_queue [p] s = receive_block p s"
proof -
  have "filter (\<lambda>e. fst e = Some p) (cs_unlinked s) = []" "filter (\<lambda>e. fst e \<noteq> Some p) (cs_unlinked s) = cs_unlinked s"
    using assms by (auto simp: list_all_iff filter_id_conv filter_empty_conv)
  then show ?thesis by (simp add: Let_def)
qed

lemma ReceivedBlockTransactions_new:
  fixes cs block
  defines "p \<equiv> length (cs_index cs)" and "n \<equiv> of_nat (length (vtx block)) :: uint32"
  assumes "entered cs m (core_of cs hash q 0 0 BLOCK_VALID_TREE) cs1" "headers_ok cs" "received_ok cs" "q < length (cs_index cs)"
    and "m = (cs_map cs)(hash \<mapsto> p)" "vtx block \<noteq> []" "unat (nChainTx (cs_index cs ! q)) + length (vtx block) < 2 ^ 32"
    and "cs' = ReceivedBlockTransactions block file pos p cs1"
  shows "headers_ok cs' \<and> received_ok cs' \<and> cs_map cs' = m \<and> cs_chain cs' = cs_chain cs \<and> grown (cs_index cs) (cs_index cs') \<and>
    entry_core (cs_index cs' ! p) =
      core_of cs hash q n (if nChainTx (cs_index cs ! q) = 0 then 0 else nChainTx (cs_index cs ! q) + n) STORED \<and>
    nFile (cs_index cs' ! p) = file \<and> nDataPos (cs_index cs' ! p) = pos \<and>
    set (cs_candidates cs') = (if nChainTx (cs_index cs ! q) \<noteq> 0 \<and>
        (case Tip (cs_chain cs) of None \<Rightarrow> True | Some t \<Rightarrow> \<not> work_less (cs_index cs') p t) then {p} else {}) \<union> set (cs_candidates cs)"
proof -
  let ?prev = "nChainTx (cs_index cs ! q)"
  define f where "f = (\<lambda>x. snd (RaiseValidity BLOCK_VALID_TRANSACTIONS ((if IsProofOfStake block then SetProofOfStake x else x)
      \<lparr>nTx := of_nat (length (vtx block)), nChainTx := 0, nFile := file, nDataPos := pos, nUndoPos := 0, nStatus := nStatus x OR BLOCK_HAVE_DATA\<rparr>)))"
  define s2 where "s2 = mark_dirty p (set_block p f cs1)"
  have b1: "entry_core (cs_index cs1 ! p) = core_of cs hash q 0 0 BLOCK_VALID_TREE" "p < length (cs_index cs1)"
    using assms(3) grown_in by (auto simp: entered_def p_def)
  have fb: "entry_core (f (cs_index cs1 ! p)) = core_of cs hash q n 0 STORED" "nFile (f (cs_index cs1 ! p)) = file" "nDataPos (f (cs_index cs1 ! p)) = pos"
    using b1(1) by (simp_all add: f_def RaiseValidity_stored entry_core_def SetProofOfStake_def n_def)
  have e2: "entered cs m (core_of cs hash q n 0 STORED) s2"
    unfolding s2_def p_def entered_other by (rule entered_set_new [OF assms(3)]) (use fb(1) p_def in simp)
  have x2: "cs_index s2 ! p = f (cs_index cs1 ! p)" using b1(2) by (simp add: s2_def mark_dirty_def set_block_def)
  have q2: "pprev (cs_index s2 ! p) = Some q" "nChainTx (cs_index s2 ! q) = ?prev" "nTx (cs_index s2 ! p) = n"
    using e2 grown_fields(6) [of "cs_index cs" "cs_index s2" q] assms(6) by (simp_all add: entered_def entry_core_def p_def)
  note R = assms(10) [unfolded ReceivedBlockTransactions_def Let_def f_def [symmetric] s2_def [symmetric], unfolded q2(1) option.case q2(2)]
  have H2: "headers_ok s2" "received_ok s2"
    using entered_headers_ok [OF e2 assms(4,6)] entered_received_ok [OF e2 assms(4,6,5)] assms(7) p_def by simp_all
  show ?thesis
  proof (cases "?prev = 0")
    case True
    have "cs_index cs' = cs_index s2" "cs_map cs' = cs_map s2" "cs_chain cs' = cs_chain s2" "cs_candidates cs' = cs_candidates s2"
      using R True by auto
    moreover have "list_all (\<lambda>e. case fst e of None \<Rightarrow> True | Some r \<Rightarrow> r < length (cs_index s2)) (cs_unlinked cs')"
      using R True H2(2) e2 assms(6) by (auto simp: received_ok_def entered_def grown_def)
    ultimately show ?thesis
      using H2 e2 x2 fb True received_ok_cong [of cs' s2] by (auto simp: headers_ok_def candidates_ok_def entered_def p_def)
  next
    case False
    have un: "list_all (\<lambda>e. case fst e of None \<Rightarrow> True | Some r \<Rightarrow> r < p) (cs_unlinked s2)"
      using assms(5) e2 unfolding p_def by (simp add: received_ok_def entered_def)
    define s3 where "s3 = (set_block p (\<lambda>x. x\<lparr>nChainTx := ?prev + nTx x, nSequenceId := cs_sequence s2\<rparr>) s2)\<lparr>cs_sequence := cs_sequence s2 + 1\<rparr>"
    have e3: "entered cs m (core_of cs hash q n (?prev + n) STORED) s3"
    proof -
      have "entered cs m (core_of cs hash q n (?prev + n) STORED) (set_block p (\<lambda>x. x\<lparr>nChainTx := ?prev + nTx x, nSequenceId := cs_sequence s2\<rparr>) s2)"
        unfolding p_def by (rule entered_set_new [OF e2]) (use e2 q2(3) in \<open>simp add: entered_def entry_core_def p_def\<close>)
      then show ?thesis by (simp add: s3_def entered_def)
    qed
    have x3: "nFile (cs_index s3 ! p) = file" "nDataPos (cs_index s3 ! p) = pos"
      using fb x2 e2 grown_in by (auto simp: s3_def set_block_def entered_def p_def)
    have cs': "cs' = (if (case Tip (cs_chain s3) of None \<Rightarrow> True | Some t \<Rightarrow> \<not> work_less (cs_index s3) p t) then cand_add p s3 else s3)"
    proof -
      have "cs' = receive_block p s2" using R False receive_queue_new [OF un] by (simp del: receive_queue.simps)
      then show ?thesis unfolding receive_block_def Let_def q2(1,2) option.case s3_def [symmetric] .
    qed
    have "unat n = length (vtx block)" using assms(9) by (simp add: n_def unat_of_nat)
    then have "unat (?prev + n) = unat ?prev + length (vtx block)" using assms(9) by (simp add: unat_word_ariths)
    then have ct: "?prev + n \<noteq> 0" using assms(8) by auto
    have lq: "linked (cs_index cs) q" using assms(5,6) False by (auto simp: received_ok_def list_all_iff)
    have H3: "headers_ok s3" "received_ok s3" "linked (cs_index s3) p" "p < length (cs_index s3)"
      using entered_headers_ok [OF e3 assms(4,6)] entered_received_ok [OF e3 assms(4,6,5)] entered_linked [OF e3 assms(4,6) ct lq] assms(7) p_def lq e3 grown_in
      by (auto simp: entered_def)
    have C: "headers_ok (cand_add p s3)" "set (cs_candidates (cand_add p s3)) = insert p (set (cs_candidates s3))"
      using cand_add_ok [OF H3(1,4,3)] by simp_all
    have i: "cs_index cs' = cs_index s3" "cs_map cs' = cs_map s3" "cs_chain cs' = cs_chain s3" "cs_unlinked cs' = cs_unlinked s3"
      by (simp_all add: cs' cand_add_def)
    have "received_ok cs'" using received_ok_cong [OF i(1,2) _ H3(2)] H3(2) by (simp add: i(4) received_ok_def)
    moreover have "headers_ok cs'" using C(1) H3(1) by (simp add: cs')
    moreover have "set (cs_candidates cs') =
        (if (case Tip (cs_chain cs) of None \<Rightarrow> True | Some t \<Rightarrow> \<not> work_less (cs_index s3) p t) then {p} else {}) \<union> set (cs_candidates cs)"
      using C(2) e3 by (simp add: cs' entered_def)
    ultimately show ?thesis using e3 x3 False unfolding i p_def entered_def by simp
  qed
qed

end
