(* ===== verification/Process_Block_Props.thy ===== *)
theory Process_Block_Props
  imports Process_Block Tree_Growth Activate_Tip
begin

text \<open>
  A new block from its arrival to the new tip: what \<^verbatim>\<open>ProcessNewBlock\<close> accepts has passed every check and is in the tree
  under its parent, the node is consistent again and no better candidate is left.
\<close>

section \<open>Reading the coins\<close>

context coins_reader
begin

lemma GetTransaction_reads:
  assumes "cok c" "GetTransaction ke B c hash hb slow = Some (r, c')"
  shows "cok c' \<and> ccontent c' = ccontent c \<and> cache_best best c' = cache_best best c"
proof -
  obtain r0 c0 where a: "AccessCoins B c hash = (r0, c0)" by fastforce
  have "c' = c \<or> c' = c0"
    using assms(2) a
    by (auto simp: GetTransaction_def scan_block_def bind_eq_Some_conv split: option.split_asm if_split_asm)
  then show ?thesis using access [OF assms(1), of "\<lparr>outpoint_hash = hash, outpoint_n = 0\<rparr>" r0 c0] a access_best [OF assms(1) a] assms(1) by auto
qed

lemma CheckWork_reads:
  assumes "cok c" "CheckWork ke B c block pp proofs = Some (good, proofs', c')"
  shows "cok c' \<and> ccontent c' = ccontent c \<and> cache_best best c' = cache_best best c"
proof -
  let ?tx = "vtx block ! 1"
  have "c' = c \<or> (\<exists>r. GetTransaction ke B c (outpoint_hash (prevout (vin ?tx ! 0))) 0 True = Some (r, c'))"
    using assms(2)
    by (auto simp: CheckWork_def CheckProofOfStake_def Let_def bind_eq_Some_conv split: option.split_asm if_split_asm prod.split_asm)
  then show ?thesis using GetTransaction_reads [OF assms(1)] assms(1) by auto
qed

end

lemma tip_at_reads:
  assumes "tip_at f b t"
  shows "GetTransaction ke db_ops t hash hb slow = Some (r, t') \<Longrightarrow> tip_at f b t'"
    "CheckWork ke db_ops t block pp proofs = Some (good, proofs', t') \<Longrightarrow> tip_at f b t'"
proof -
  have t: "cache_inv db_ok db_coins (\<lambda>_ _. True) t" using assms by (simp add: tip_at_def tip_ok_def)
  show "GetTransaction ke db_ops t hash hb slow = Some (r, t') \<Longrightarrow> tip_at f b t'"
    using db.GetTransaction_reads [OF t] assms by (simp add: tip_at_def tip_ok_def tip_content_def)
  show "CheckWork ke db_ops t block pp proofs = Some (good, proofs', t') \<Longrightarrow> tip_at f b t'"
    using db.CheckWork_reads [OF t] assms by (simp add: tip_at_def tip_ok_def tip_content_def)
qed

lemma check_stake_input_keeps:
  assumes "check_stake_input env block st s = Some (good, st', s')" "tip_at f b (n_tip s)"
  shows "tip_at f b (n_tip s')" "n_cs s' = n_cs s" "n_pool s' = n_pool s" "n_rejected s' = n_rejected s"
proof -
  obtain have_all view where h: "HaveInputs tip_ops (make_cache (n_tip s)) (vtx block ! 1) = (have_all, view)" by fastforce
  have "cache_inv (tip_at f b) tip_content cache_held view"
    using h frame.have_inputs [OF frame_start [OF assms(2)]] frame_start [OF assms(2)]
    by (auto simp: HaveInputs_def split: if_split_asm)
  then have v: "tip_at f b (base view)" by (rule frame_base)
  let ?s1 = "s\<lparr>n_tip := base view\<rparr>"
  obtain out time where p: "GetProofOfStake block = (out, time)" by fastforce
  have "\<exists>t. s' = s\<lparr>n_tip := t\<rparr> \<and> (t = base view \<or> (\<exists>r. GetTransaction (kernel_at env ?s1) db_ops (base view) (outpoint_hash out) 0 True = Some (r, t)))"
  proof (cases "have_all \<or> map_of (n_stakes s) out = None")
    case True
    then show ?thesis using assms(1) h p by (cases have_all) (auto simp: check_stake_input_def Let_def)
  next
    case False
    then obtain r t where t: "GetTransaction (kernel_at env ?s1) db_ops (base view) (outpoint_hash out) 0 True = Some (r, t)"
      using assms(1) h p by (auto simp: check_stake_input_def Let_def bind_eq_Some_conv)
    then have "s' = s\<lparr>n_tip := t\<rparr>"
      using assms(1) h p False by (auto simp: check_stake_input_def Let_def split: option.split_asm if_split_asm)
    then show ?thesis using t by blast
  qed
  then show "tip_at f b (n_tip s')" "n_cs s' = n_cs s" "n_pool s' = n_pool s" "n_rejected s' = n_rejected s"
    using tip_at_reads(1) [OF v] v by auto
qed

section \<open>Accepting a new block\<close>

abbreviation new_hash :: "('d, 'x) activate_env_scheme \<Rightarrow> CBlock \<Rightarrow> uint256" where
  "new_hash env block \<equiv> Block_GetHash (ke_block (av_kernel env)) block"

text \<open>The rules for the header of a block above \<open>q\<close>: the depth of the fork, the times, the checkpoints and the version.\<close>

definition header_rules :: "('d, 'x) activate_env_scheme \<Rightarrow> chain_state \<Rightarrow> nat \<Rightarrow> CBlock \<Rightarrow> bool" where
  "header_rules env cs q block \<longleftrightarrow>
     (let h = int (bi_nHeight (cs_index cs ! q)) + 1 in
      Chain_Height (cs_chain cs) - h < MaxReorganizationDepth (av_Params env) \<and>
      GetMedianTimePast (cs_index cs) q < GetBlockTime block \<and> GetBlockTime block \<le> FREEZE_TIME \<and>
      Checkpoints_CheckBlock (be_at env cs) h (new_hash env block) False \<and>
      (case GetLastCheckpoint (be_at env cs) of None \<Rightarrow> True | Some c \<Rightarrow> int (bi_nHeight (cs_index cs ! c)) \<le> h) \<and>
      2 \<le> sint (hdr_nVersion block))"

text \<open>The rules for the body: the coinbase begins with the height, and every transaction is final.\<close>

definition body_rules :: "('d, 'x) activate_env_scheme \<Rightarrow> chain_state \<Rightarrow> nat \<Rightarrow> CBlock \<Rightarrow> bool" where
  "body_rules env cs q block \<longleftrightarrow>
     (let h = int (bi_nHeight (cs_index cs ! q)) + 1; sig = scriptSig (vin (vtx block ! 0) ! 0) in
      vtx block \<noteq> [] \<and> vin (vtx block ! 0) \<noteq> [] \<and> take (length (push_int64 h)) sig = push_int64 h \<and>
      list_all (\<lambda>tx. IsFinalTx (be_node (be_at env cs)) tx h (GetBlockTime block)) (vtx block))"

lemma be_at_more [simp]:
  "be_HashKeccak256 (be_at env cs) = be_HashKeccak256 (ke_block (av_kernel env))" "be_store (be_at env cs) = cs_index cs"
  "be_chain (be_at env cs) = cs_chain cs" "be_HashGenesisBlock (be_at env cs) = be_HashGenesisBlock (ke_block (av_kernel env))"
  by (simp_all add: be_at_def ke_at_def Let_def)

lemma be_at_chain: "cs_chain cs' = cs_chain cs \<Longrightarrow> be_node (be_at env cs') = be_node (be_at env cs)"
  by (simp add: be_at_def ke_at_def Let_def)

lemma be_at_proofs [simp]: "be_at env (cs\<lparr>cs_proofs := x\<rparr>) = be_at env cs"
  by (simp add: be_at_def ke_at_def Let_def)

lemma entered_from_proofs [simp]: "entered (cs\<lparr>cs_proofs := x\<rparr>) m c cs' = entered cs m c cs'"
  by (simp add: entered_def)

lemma ok_proofs [simp]: "headers_ok (cs\<lparr>cs_proofs := x\<rparr>) = headers_ok cs" "received_ok (cs\<lparr>cs_proofs := x\<rparr>) = received_ok cs"
  by (simp_all add: headers_ok_def candidates_ok_def received_ok_def cong: option.case_cong)

lemma AcceptBlockHeader_new:
  assumes "AcceptBlockHeader env block st cs = Some (True, st', pindex, cs')" "headers_ok cs" "received_ok cs"
    and "cs_map cs (new_hash env block) = None" "new_hash env block \<noteq> be_HashGenesisBlock (ke_block (av_kernel env))"
    and "cs_map cs (hashPrevBlock block) = Some q"
  shows "pindex = Some (length (cs_index cs)) \<and> header_rules env cs q block \<and> q < length (cs_index cs) \<and>
    entered cs ((cs_map cs)(new_hash env block \<mapsto> length (cs_index cs))) (core_of cs (new_hash env block) q 0 0 BLOCK_VALID_TREE) cs'"
proof -
  have q: "q < length (cs_index cs)" "tree_ok (cs_index cs)" "skips_ok (cs_index cs)"
    using assms(2,3,6) by (simp_all add: received_ok_def headers_ok_def)
  obtain st1 where n: "new_header env block st1 (Some q) cs = Some (True, st', pindex, cs')"
    using assms(1,4-6) by (auto simp: AcceptBlockHeader_def Let_def split: prod.split_asm bool.split_asm if_split_asm)
  then obtain st2 p where c: "ContextualCheckBlockHeader (be_at env cs) block st1 (Some q) = Some (True, st2)"
    and p: "AddToBlockIndex (av_kernel env) block cs = Some (p, cs')" "pindex = Some p"
    by (auto simp: new_header_def split: option.split_asm prod.split_asm bool.split_asm)
  have "header_rules env cs q block"
    using c assms(5) by (auto simp: ContextualCheckBlockHeader_def header_rules_def Let_def not_le not_less split: if_split_asm option.split_asm)
  then show ?thesis using AddToBlockIndex_entered [OF p(1) assms(4,6) q] p(2) q(1) by auto
qed

lemma ContextualCheckBlock_rules:
  assumes "ContextualCheckBlock be block st (Some r) = Some (True, st')" "bi_nHeight (be_store be ! r) = h"
  shows "vtx block \<noteq> [] \<and> vin (vtx block ! 0) \<noteq> [] \<and> take (length (push_int64 (int h + 1))) (scriptSig (vin (vtx block ! 0) ! 0)) = push_int64 (int h + 1) \<and>
    list_all (\<lambda>tx. IsFinalTx (be_node be) tx (int h + 1) (GetBlockTime block)) (vtx block)"
  using assms by (auto simp: ContextualCheckBlock_def Let_def split: if_split_asm)

lemma store_block_stored:
  assumes "store_block io block dbp p st cs files = Some (True, st', cs', files')"
  shows "\<exists>fl pos. cs' = ReceivedBlockTransactions block fl pos p cs"
  using assms by (auto simp: store_block_def Let_def split: option.split_asm prod.split_asm bool.split_asm write_answer.split_asm)

lemma check_received_new:
  assumes "check_received env block True p st s = Some (True, st', s')"
  shows "s' = s \<and> ContextualCheckBlock (be_at env (n_cs s)) block st (pprev (cs_index (n_cs s) ! p)) = Some (True, st')"
  using assms by (auto simp: check_received_def Let_def bind_eq_Some_conv)

text \<open>A block that is new, above a parent that has not failed: it is stored after the checks, and nothing else changes but the candidates.\<close>

lemma accept_linked_new:
  fixes s :: "'d node" and block and env :: "('d, 'x) activate_env_scheme"
  defines "cs \<equiv> n_cs s" and "hash \<equiv> new_hash env block"
  assumes "accept_linked env io block dbp True st s files = Some (True, st', pindex, s', files')" "headers_ok cs" "received_ok cs"
    and "cs_map cs hash = None" "hash \<noteq> be_HashGenesisBlock (ke_block (av_kernel env))" "cs_map cs (hashPrevBlock block) = Some q"
    and "unat (nChainTx (cs_index cs ! q)) + length (vtx block) < 2 ^ 32"
  shows "pindex = Some (length (cs_index cs)) \<and> header_rules env cs q block \<and> body_rules env cs q block \<and>
    headers_ok (n_cs s') \<and> received_ok (n_cs s') \<and> cs_map (n_cs s') = (cs_map cs)(hash \<mapsto> length (cs_index cs)) \<and> cs_chain (n_cs s') = cs_chain cs \<and>
    grown (cs_index cs) (cs_index (n_cs s')) \<and>
    (\<exists>n ct. entry_core (cs_index (n_cs s') ! length (cs_index cs)) = core_of cs hash q n ct STORED) \<and>
    n_tip s' = n_tip s \<and> n_pool s' = n_pool s"
proof -
  let ?p = "length (cs_index cs)"
  obtain st1 pi cs1 where h: "AcceptBlockHeader env block st (n_cs s) = Some (True, st1, pi, cs1)"
    using assms(3) by (auto simp: accept_linked_def split: option.split_asm prod.split_asm bool.split_asm)
  note H = AcceptBlockHeader_new [OF h assms(4,5) [unfolded cs_def] assms(6-8) [unfolded cs_def hash_def], folded cs_def hash_def]
  have b: "nStatus (cs_index cs1 ! ?p) = BLOCK_VALID_TREE" "pprev (cs_index cs1 ! ?p) = Some q" and g: "grown (cs_index cs) (cs_index cs1)" "cs_chain cs1 = cs_chain cs"
    using H by (simp_all add: entered_def entry_core_def)
  have nd: "\<not> has_data (cs_index cs1 ! ?p)" by (simp add: b(1) BLOCK_VALID_TREE_def BLOCK_HAVE_DATA_def)
  let ?s1 = "s\<lparr>n_cs := cs1\<rparr>"
  note A = assms(3) [unfolded accept_linked_def h, simplified H]
  obtain ok2 st2 s2 where c: "check_received env block True ?p st1 ?s1 = Some (ok2, st2, s2)"
    using A nd by (auto simp: Let_def split: option.split_asm)
  have ok2: "ok2" using A nd c by (cases ok2) auto
  note C = check_received_new [OF c [unfolded eqTrueI [OF ok2]]]
  obtain st3 cs3 where st3: "store_block io block dbp ?p st2 cs1 files = Some (True, st3, cs3, files')" and s': "pindex = Some ?p" "s' = ?s1\<lparr>n_cs := cs3\<rparr>"
    using A nd c ok2 C by auto
  obtain fl pos where cs3: "cs3 = ReceivedBlockTransactions block fl pos ?p cs1" using store_block_stored [OF st3] by blast
  have body: "body_rules env cs q block"
    using ContextualCheckBlock_rules [of "be_at env cs1" block st1 q st2 "bi_nHeight (cs_index cs ! q)"] C b(2) H g grown_fields(4) [OF g(1), of q]
      be_at_chain [OF g(2), of env]
    by (simp add: body_rules_def)
  then have "vtx block \<noteq> []" by (simp add: body_rules_def Let_def)
  then have "headers_ok cs3 \<and> received_ok cs3 \<and> cs_map cs3 = (cs_map cs)(hash \<mapsto> ?p) \<and> cs_chain cs3 = cs_chain cs \<and> grown (cs_index cs) (cs_index cs3) \<and>
      (\<exists>n ct. entry_core (cs_index cs3 ! ?p) = core_of cs hash q n ct STORED)"
    using ReceivedBlockTransactions_new [of cs _ hash q cs1 block cs3 fl pos] H assms(4,5,9) cs3 by blast
  then show ?thesis using H body s' by simp
qed

lemma CheckWork_bits:
  assumes "CheckWork ke B c block (Some q) proofs = Some (True, proofs', c')"
  shows "GetNextWorkRequired (be_pow (ke_block ke)) (ke_store ke) (Some q) = Some (nBits block)"
  using assms by (auto simp: CheckWork_def bind_eq_Some_conv split: if_split_asm)

lemma AcceptBlock_new:
  fixes s :: "'d :: {zero,one,plus,minus,times,divide,ord} node" and block and env :: "('d, 'x) activate_env_scheme"
  defines "cs \<equiv> n_cs s" and "hash \<equiv> new_hash env block"
  assumes "AcceptBlock env io block dbp True st s files = Some (True, st', pindex, s', files')" "headers_ok cs" "received_ok cs"
    and "cs_map cs hash = None" "hash \<noteq> be_HashGenesisBlock (ke_block (av_kernel env))" "cs_map cs (hashPrevBlock block) = Some q"
    and "unat (nChainTx (cs_index cs ! q)) + length (vtx block) < 2 ^ 32" "\<not> block_failed (cs_index cs ! q)" "tip_at f b (n_tip s)"
  shows "pindex = Some (length (cs_index cs)) \<and> header_rules env cs q block \<and> body_rules env cs q block \<and>
    GetNextWorkRequired (be_pow (ke_block (av_kernel env))) (cs_index cs) (Some q) = Some (nBits block) \<and>
    headers_ok (n_cs s') \<and> received_ok (n_cs s') \<and> cs_map (n_cs s') = (cs_map cs)(hash \<mapsto> length (cs_index cs)) \<and> cs_chain (n_cs s') = cs_chain cs \<and>
    grown (cs_index cs) (cs_index (n_cs s')) \<and>
    (\<exists>n ct. entry_core (cs_index (n_cs s') ! length (cs_index cs)) = core_of cs hash q n ct STORED) \<and>
    tip_at f b (n_tip s') \<and> n_pool s' = n_pool s"
proof -
  note A = assms(3) [unfolded AcceptBlock_def Let_def, folded cs_def]
  obtain proofs tip where w: "CheckWork (kernel_at env s) db_ops (n_tip s) block (Some q) (cs_proofs cs) = Some (True, proofs, tip)"
    and l: "accept_linked env io block dbp True st (s\<lparr>n_cs := cs\<lparr>cs_proofs := proofs\<rparr>, n_tip := tip\<rparr>) files = Some (True, st', pindex, s', files')"
    using A assms(7,8,10) by (auto simp: hash_def split: option.split_asm if_split_asm)
  have bits: "GetNextWorkRequired (be_pow (ke_block (av_kernel env))) (cs_index cs) (Some q) = Some (nBits block)"
    using CheckWork_bits [OF w] by (simp add: kernel_at_def ke_at_def cs_def)
  have rules: "header_rules env (cs\<lparr>cs_proofs := proofs\<rparr>) q block = header_rules env cs q block"
    "body_rules env (cs\<lparr>cs_proofs := proofs\<rparr>) q block = body_rules env cs q block"
    by (simp_all add: header_rules_def body_rules_def Let_def cong: option.case_cong)
  note L = accept_linked_new [OF l, simplified, folded hash_def, OF assms(4-8) assms(9) [simplified], unfolded rules]
  show ?thesis using L bits tip_at_reads(2) [OF assms(11) w] by simp
qed

section \<open>ProcessNewBlock\<close>

lemma grown_consistent:
  assumes "consistent env s" "grown (cs_index (n_cs s)) (cs_index (n_cs s'))" "headers_ok (n_cs s')" "cs_chain (n_cs s') = cs_chain (n_cs s)"
    and "phashBlock (cs_index (n_cs s') ! length (cs_index (n_cs s))) = Some h" "h \<noteq> 0"
    and "tip_at f (tip_hash (n_cs s)) (n_tip s')" "n_pool s' = n_pool s"
  shows "consistent env s'"
proof -
  note I = consistentD [OF assms(1)]
  have hs: "hashes_ok (n_cs s')"
    using I(2) assms(5,6) by (auto simp: hashes_ok_def list_all_length grown_length [OF assms(2)] less_Suc_eq grown_fields [OF assms(2)])
  have "tip_hash (n_cs s') = tip_hash (n_cs s)"
    using I(1) by (auto simp: tip_hash_def assms(4) hash_at_def headers_ok_def chain_ok_def grown_fields [OF assms(2)] split: option.split)
  then show ?thesis using hs assms(3,7,8) I(4) by (simp add: consistent_def sound_def tip_at_def)
qed

lemma ok_source [simp]:
  "headers_ok (cs\<lparr>cs_source := x\<rparr>) = headers_ok cs" "hashes_ok (cs\<lparr>cs_source := x\<rparr>) = hashes_ok cs" "tip_hash (cs\<lparr>cs_source := x\<rparr>) = tip_hash cs"
  by (simp_all add: headers_ok_def candidates_ok_def hashes_ok_def tip_hash_def hash_at_def cong: option.case_cong)

lemma consistent_source: "consistent env (s\<lparr>n_cs := (n_cs s)\<lparr>cs_source := x\<rparr>\<rparr>) = consistent env s"
  by (simp add: consistent_def sound_def)

text \<open>A new block that \<^verbatim>\<open>ProcessNewBlock\<close> accepts on a consistent node has passed all checks: those of its contents, of its
  signature, of its header against the chain (fork depth, times, checkpoints, version), its difficulty, and of its body (height in the coinbase, final
  transactions). It is in the tree under its parent, with its height and hash. Afterwards the node is consistent, so the
  best block of the coins is the tip and the pool is well formed, and no usable candidate is better than the tip. The
  block is one that was not known, above a parent that has not failed, and its count of transactions does not wrap.\<close>

lemma ProcessNewBlock_accepts:
  assumes "ProcessNewBlock env io pfrom block dbp st s files = Some (True, st', s', files')"
    and "consistent env s" "money_ok env" "received_ok (n_cs s)"
    and "cs_map (n_cs s) (new_hash env block) = None" "new_hash env block \<noteq> be_HashGenesisBlock (ke_block (av_kernel env))" "new_hash env block \<noteq> 0"
    and "cs_map (n_cs s) (hashPrevBlock block) = Some q" "\<not> block_failed (cs_index (n_cs s) ! q)"
    and "unat (nChainTx (cs_index (n_cs s) ! q)) + length (vtx block) < 2 ^ 32"
  shows "(\<exists>st1 rej. CheckBlock (be_at env (n_cs s)) block st True (n_rejected s) = Some (True, st1, rej)) \<and>
    CheckBlockSignature (be_HashKeccak256 (ke_block (av_kernel env))) (se_Verify (ke_sig (av_kernel env))) block = Some True \<and>
    header_rules env (n_cs s) q block \<and> body_rules env (n_cs s) q block \<and>
    GetNextWorkRequired (be_pow (ke_block (av_kernel env))) (cs_index (n_cs s)) (Some q) = Some (nBits block) \<and>
    (\<exists>p. cs_map (n_cs s') (new_hash env block) = Some p \<and> phashBlock (cs_index (n_cs s') ! p) = Some (new_hash env block) \<and>
       pprev (cs_index (n_cs s') ! p) = Some q \<and> bi_nHeight (cs_index (n_cs s') ! p) = Suc (bi_nHeight (cs_index (n_cs s) ! q))) \<and>
    consistent env s' \<and> best_chain (n_cs s')"
proof -
  let ?cs = "n_cs s" and ?p = "length (cs_index (n_cs s))"
  note I = consistentD [OF assms(2)]
  obtain checked st1 rej where chk: "CheckBlock (be_at env ?cs) block st True (n_rejected s) = Some (checked, st1, rej)"
    using assms(1) by (auto simp: ProcessNewBlock_def bind_eq_Some_conv)
  let ?s1 = "s\<lparr>n_rejected := rej\<rparr>"
  note P = assms(1) [unfolded ProcessNewBlock_def chk, simplified Let_def bind.bind_lunit prod.case]
  obtain signed where sig: "CheckBlockSignature (be_HashKeccak256 (ke_block (av_kernel env))) (se_Verify (ke_sig (av_kernel env))) block = Some signed"
    using P by (auto simp: bind_eq_Some_conv)
  have ok: "signed" "checked" using P sig assms(8) by (auto split: if_split_asm)
  obtain st2 s2 where s2: "(if IsProofOfStake block then check_stake_input env block st1 ?s1 else Some (True, st1, ?s1)) = Some (True, st2, s2)"
    and P2: "Option.bind (AcceptBlock env io block dbp True st2 s2 files) (\<lambda>(ret, st3, pindex, s3, files3).
           Option.bind
             (case (pindex, pfrom) of
                (Some p, Some peer) \<Rightarrow>
                  map_option (\<lambda>h. s3\<lparr>n_cs := (n_cs s3)\<lparr>cs_source := (cs_source (n_cs s3))(h \<mapsto> peer)\<rparr>\<rparr>) (Index_GetBlockHash (cs_index (n_cs s3) ! p))
              | _ \<Rightarrow> Some s3)
             (\<lambda>s4.
                if \<not> ret then Some (False, st3, s4, files3)
                else map_option (\<lambda>(done, st5, s5). (done, st5, s5, files3)) (ActivateBestChain env (Some block) True st3 s4))) = Some (True, st', s', files')"
    using P sig ok assms(8) by (auto simp: bind_eq_Some_conv split: if_split_asm)
  have k2: "n_cs s2 = ?cs" "n_pool s2 = n_pool s" "tip_at (tip_content (n_tip s)) (tip_hash ?cs) (n_tip s2)"
    using s2 I(3) check_stake_input_keeps [of env block st1 ?s1 True st2 s2] by (auto split: if_split_asm)
  obtain st3 pindex s3 files3 s4 where a: "AcceptBlock env io block dbp True st2 s2 files = Some (True, st3, pindex, s3, files3)"
    and s4: "s4 = s3 \<or> (\<exists>x. s4 = s3\<lparr>n_cs := (n_cs s3)\<lparr>cs_source := x\<rparr>\<rparr>)"
    and r: "ActivateBestChain env (Some block) True st3 s4 = Some (True, st', s')"
    using P2 by (auto simp: bind_eq_Some_conv split: if_split_asm option.split_asm)
  note N = AcceptBlock_new [OF a, unfolded k2(1,2), OF I(1) assms(4-6,8,10,9) k2(3)]
  obtain n ct where e: "entry_core (cs_index (n_cs s3) ! ?p) = core_of ?cs (new_hash env block) q n ct STORED" using N by blast
  have "consistent env s3"
    by (rule grown_consistent [OF assms(2), of s3 "new_hash env block" "tip_content (n_tip s)"]) (use N e assms(7) in \<open>auto simp: entry_core_def\<close>)
  then have c4: "consistent env s4" using s4 consistent_source by auto
  have i4: "cs_index (n_cs s4) = cs_index (n_cs s3)" "cs_map (n_cs s4) = cs_map (n_cs s3)" using s4 by auto
  have R: "best_chain (n_cs s')" "state_kept (n_cs s4) (n_cs s')" using ActivateBestChain_ends [OF r] consistentD(1) [OF c4] by auto
  have "consistent env s'" using ActivateBestChain_stays [OF r] c4 assms(3) by (auto simp: stays_def)
  moreover have "cs_map (n_cs s') (new_hash env block) = Some ?p" "phashBlock (cs_index (n_cs s') ! ?p) = Some (new_hash env block)"
    "pprev (cs_index (n_cs s') ! ?p) = Some q" "bi_nHeight (cs_index (n_cs s') ! ?p) = Suc (bi_nHeight (cs_index ?cs ! q))"
    using R(2) e N i4 store_kept_fields(1,2,4) [of "cs_index (n_cs s4)" "cs_index (n_cs s')" ?p] by (auto simp: state_kept_def entry_core_def)
  ultimately show ?thesis using chk sig ok N R(1) by auto
qed

end
