(* ===== verification/Spec2Isabelle.thy ===== *)
theory Spec2Isabelle
  imports Sighash Coins_Encoding Coins_View P2PKH Utxo_Undo Merkle Block_Props Pow Check_Inputs_Props Mn_Props Money_Supply Base58_Props Kernel_Props Chain_Select_Props Mempool_Accept_Props Activate_Tip Process_Block_Props
begin

text \<open>
  The consensus core of the ESBC node: the part of \<^verbatim>\<open>src/src\<close> that decides which transactions and blocks are
  valid, what they do to the set of unspent coins, and which chain is the active one. Definitions are named as the
  C++ functions and members that they translate and stand in the order of the code.

  How the parts interact. A block arrives as bytes (streams and formats); its header enters the tree of block
  headers and, with its body, the set of candidates for the best chain. The body passes the checks that do without its predecessor (block checks,
  with the checks of transactions and of masternode payments inside), and, when its chain is the best one, the
  connection to the coin view: every transaction is checked against the coins that it spends (the script interpreter decides on
  the scripts, with the signature hash as message), then spends and creates coins in a cache, and undo data are kept to take it back. The
  difficulty and proof-of-stake rules read the tree of headers. Transactions outside blocks wait in the memory pool.

  Theories and sources (under \<^verbatim>\<open>src/src\<close>):

    \<^item> Streams: \<open>Prelude\<close> (machine types, little-endian bytes, readers, the contracts \<open>codec\<close> and
      \<open>canonical_codec\<close>), \<open>Serialize\<close> (\<^verbatim>\<open>serialize.h\<close>). Every encoder/decoder pair of the development interprets one
      of the two contracts, so its round trip is a fact of the contract.
    \<^item> Scripts: \<open>Script\<close> (\<^verbatim>\<open>script/script.h\<close>, \<^verbatim>\<open>script.cpp\<close>), \<open>Sig_Encoding\<close>, \<open>Interpreter\<close> and \<open>Sighash\<close>
      (\<^verbatim>\<open>script/interpreter.cpp\<close>), \<open>Standard\<close> (\<^verbatim>\<open>script/standard.cpp\<close>). \<open>Interpreter_Props\<close>,
      \<open>Interpreter_Limits\<close>, \<open>Script_Verify\<close> and \<open>P2PKH\<close> show the resource limits, that flags only restrict, what
      multisig, script-hash and key-hash outputs accept; \<open>Sighash\<close> also has the reference for the signature hash.
    \<^item> Transactions: \<open>Transaction\<close> (\<^verbatim>\<open>primitives/transaction.cpp\<close>), \<open>Amount\<close> (\<^verbatim>\<open>amount.cpp\<close>,
      \<^verbatim>\<open>utilmoneystr.cpp\<close>), \<open>Tx_Checks\<close> (\<^verbatim>\<open>CheckTransaction\<close>, the relay policy and lock times of \<^verbatim>\<open>main.cpp\<close>),
      \<open>Check_Inputs\<close> and \<open>Check_Inputs_Props\<close> (\<^verbatim>\<open>CheckInputs\<close>, in terms of the content of the view).
    \<^item> Coins: \<open>Compressor\<close> (\<^verbatim>\<open>compressor.cpp\<close>), \<open>Coins\<close> and \<open>Coins_Encoding\<close> (\<^verbatim>\<open>coins.h\<close>, \<^verbatim>\<open>undo.h\<close>),
      \<open>Coins_Cache\<close> (\<^verbatim>\<open>coins.cpp\<close>, \<^verbatim>\<open>txdb.cpp\<close>) and \<open>Coins_View\<close>: the contracts \<open>coins_reader\<close> and \<open>coins_view\<close> of a view, proved for the
      database and for caches of any depth (the database keeps records as values, its writes succeed; the stored form loses negative versions); \<open>Utxo_Update\<close> and \<open>Utxo_Undo\<close> (\<^verbatim>\<open>UpdateCoins\<close> and \<^verbatim>\<open>DisconnectBlock\<close> of
      \<^verbatim>\<open>main.cpp\<close>) refine maps from transaction ids to coins.
    \<^item> Blocks: \<open>Block\<close>, \<open>Block_Props\<close>, \<open>Merkle\<close> (\<^verbatim>\<open>primitives/block.cpp\<close>), \<open>Check_Block\<close> and
      \<open>Check_Block_Props\<close> (\<^verbatim>\<open>CheckBlock\<close> and the contextual checks, \<^verbatim>\<open>checkpoints.cpp\<close>), \<open>Connect_Block\<close>,
      \<open>Connect_Props\<close> and \<open>Money_Supply\<close> (\<^verbatim>\<open>ConnectBlock\<close>: its effect on the coins, and that the coins stay within the money supply).
    \<^item> Money: \<open>Subsidy\<close> (block value of \<^verbatim>\<open>main.cpp\<close>, percentages in double precision as exact rationals with rounding),
      \<open>Mn_Payments\<close>, \<open>Mn_Votes\<close>, \<open>Mn_Props\<close> (\<^verbatim>\<open>masternode-payments.cpp\<close>), \<open>Base58\<close>, \<open>Base58_Props\<close> (\<^verbatim>\<open>base58.cpp\<close>).
    \<^item> Headers: \<open>Uint256\<close>, \<open>Uint256_Props\<close> (\<^verbatim>\<open>uint256.cpp\<close>: loops over limbs against the numbers), \<open>Chain\<close>,
      \<open>Chain_Props\<close> (\<^verbatim>\<open>chain.cpp\<close>: ancestors, the active chain, forks and locators), \<open>Pow\<close> (\<^verbatim>\<open>pow.cpp\<close>), \<open>Kernel\<close> and
      \<open>Kernel_Props\<close> (\<^verbatim>\<open>kernel.cpp\<close>: proof of stake), \<open>Chain_Select\<close> and \<open>Chain_Select_Props\<close> (candidates, the
      best chain and failed blocks of \<^verbatim>\<open>main.cpp\<close>).
    \<^item> Memory pool: \<open>Mempool\<close> and \<open>Mempool_Props\<close> (\<^verbatim>\<open>txmempool.cpp\<close>): its invariant under all operations, what removals
      leave, \<open>Mempool_Accept\<close> and \<open>Mempool_Accept_Props\<close> (\<^verbatim>\<open>AcceptToMemoryPool\<close> of \<^verbatim>\<open>main.cpp\<close>: what it admits is valid on
      the coins of the tip and of the pool).
    \<^item> Activation: \<open>Activate\<close> (\<^verbatim>\<open>FlushStateToDisk\<close>, \<^verbatim>\<open>ConnectTip\<close>, \<^verbatim>\<open>DisconnectTip\<close>, \<^verbatim>\<open>ActivateBestChain\<close> and
      \<^verbatim>\<open>InvalidateBlock\<close> of \<^verbatim>\<open>main.cpp\<close>, over the tree, the coins and the pool) and \<open>Activate_Chain\<close> (the chain
      stays a path, and no better candidate is left when the activation ends), \<open>View_Frame\<close> (on every path, failed ones included, connecting and disconnecting a
      block and admitting a transaction work on a scratch view and leave the view below as it was) and \<open>Activate_Props\<close> (the best
      block of the coins is the tip of the active chain and the pool stays well formed, unless the disk fails), \<open>Activate_Tip\<close>
      (connecting a block moves chain, coins and pool together, or none of them).
    \<^item> Reception: \<open>Block_Files\<close> (\<^verbatim>\<open>CBlockFileInfo\<close> of \<^verbatim>\<open>main.h\<close>, \<^verbatim>\<open>FindBlockPos\<close>, \<^verbatim>\<open>FindUndoPos\<close>; every block gets a
      range of its own) and \<open>Process_Block\<close> (\<^verbatim>\<open>AcceptBlockHeader\<close>, \<^verbatim>\<open>AcceptBlock\<close>, \<^verbatim>\<open>ProcessNewBlock\<close> and
      \<^verbatim>\<open>TestBlockValidity\<close> of \<^verbatim>\<open>main.cpp\<close>), \<open>Tree_Growth\<close> and \<open>Process_Block_Props\<close> (a new block
      enters the tree without disturbing it, and what \<^verbatim>\<open>ProcessNewBlock\<close> accepts has passed every check and leaves a consistent node).

  Conventions. A C++ exception or a script error is the left side of a sum; the validation state is passed along as a
  record. \<open>None\<close> as the outcome of an operation is what the code gives no result for: a failed assertion, an access through
  a null or dangling pointer or out of range, or a loop that does not return. Loops that consume their
  input are functions with a termination proof; loops over pointers between block index entries, which may not return on
  a malformed index, are partial functions into options, and that they return on a well-formed index (parents have smaller heights) is proved, by
  induction on the height. There is no other fuel. Signed 64-bit amounts are integers with the wrap-around written out;
  other machine integers are words. Pointers to block index entries are positions in a list of entries; a
  \<^verbatim>\<open>std::map\<close> is an association list with distinct keys, sorted where the code iterates over it.

  Parameters. Hash functions, ECDSA and key recovery (libsecp256k1, OpenSSL), the clock, the answers of the disk, the list of
  masternodes with its ranks, the sporks, and the locks of SwiftX are arguments. Hypotheses on them are named in the
  statements: that a hash has a fixed length, or that two inputs do not collide.

  Not modelled. The wallet, its database and the signing of transactions; the network threads, the address manager and the
  message dispatch of \<^verbatim>\<open>main.cpp\<close>; the list of masternodes and their broadcasts, budgets, SwiftX and spork messages, which are
  protocols of signed messages over the parameters above; block assembly and mining; the RPC server, the command-line tools
  and the Qt interface, which are glue over these parts; start-up, files and logging; the fee estimator (statistics in
  floating point); locks and threads (each operation here runs under the main lock of the code); the vendored libraries
  and the hash functions of \<^verbatim>\<open>crypto/\<close>.
\<close>

end
